(* ===== verification/Flare_Prelude.thy ===== *)
theory Flare_Prelude
  imports Main "HOL-Library.Char_ord" "HOL-Library.List_Lexorder" "HOL-Library.Code_Target_Nat"
begin

text \<open>
  Shared vocabulary of the development: the result type of fallible Rust code, the fixed-width
  saturating arithmetic the code relies on (\<open>u64\<close>, \<open>u32\<close> as natural numbers and \<open>i64\<close> as
  integers, with the saturation written out), the string functions of the Rust standard library
  that the code uses (text is modelled as ASCII, one \<open>char\<close> per byte), and the collections of
  rewrite rules the component theories use.
\<close>

named_theorems flare_defs \<open>unfolding rules of the operations of the model\<close>
named_theorems flare_inv \<open>invariant preservation facts\<close>

section \<open>Results\<close>

text \<open>
  The error codes of \<^verbatim>\<open>flare_server_core::error::ErrorCode\<close> that the modelled code names, and an error
  value: the code together with the message the code builds it with.
\<close>

datatype error_code =
    InvalidParameter | BadRequest | PermissionDenied | ServiceUnavailable | InternalError
  | ConfigurationError | OperationTimeout | OperationNotSupported | MessageRateLimitExceeded
  | DatabaseError | SystemError | HttpConflict | MessageNotFound

datatype flare_error = FlareError (err_code: error_code) (err_msg: string)

type_synonym 'a result = "flare_error + 'a"

abbreviation Ok :: "'a \<Rightarrow> 'a result" where "Ok \<equiv> Inr"
abbreviation Err :: "flare_error \<Rightarrow> 'a result" where "Err \<equiv> Inl"

text \<open>The \<open>?\<close> operator of Rust: the first error is the result.\<close>

definition and_then :: "'a result \<Rightarrow> ('a \<Rightarrow> 'b result) \<Rightarrow> 'b result" where
  "and_then r f = (case r of Inl e \<Rightarrow> Inl e | Inr a \<Rightarrow> f a)"

lemma and_then_Ok [simp]: "and_then (Ok a) f = f a"
  by (simp add: and_then_def)

lemma and_then_Err [simp]: "and_then (Err e) f = Err e"
  by (simp add: and_then_def)

lemma and_then_eq_Ok: "and_then r f = Ok b \<longleftrightarrow> (\<exists>a. r = Ok a \<and> f a = Ok b)"
  by (cases r) auto

lemma and_then_assoc: "and_then (and_then r f) g = and_then r (\<lambda>a. and_then (f a) g)"
  by (cases r) auto

section \<open>Fixed-width arithmetic\<close>

abbreviation u64_max :: nat where "u64_max \<equiv> 2 ^ 64 - 1"
abbreviation u32_max :: nat where "u32_max \<equiv> 2 ^ 32 - 1"
abbreviation i64_max :: int where "i64_max \<equiv> 2 ^ 63 - 1"
abbreviation i64_min :: int where "i64_min \<equiv> - (2 ^ 63)"

definition sat_add_u64 :: "nat \<Rightarrow> nat \<Rightarrow> nat" where
  "sat_add_u64 a b = min (a + b) u64_max"

definition sat_mul_u64 :: "nat \<Rightarrow> nat \<Rightarrow> nat" where
  "sat_mul_u64 a b = min (a * b) u64_max"

definition sat_add_u32 :: "nat \<Rightarrow> nat \<Rightarrow> nat" where
  "sat_add_u32 a b = min (a + b) u32_max"

text \<open>Subtraction of \<open>nat\<close> stops at 0, as \<open>saturating_sub\<close> on unsigned integers does.\<close>

definition sat_sub_i64 :: "int \<Rightarrow> int \<Rightarrow> int" where
  "sat_sub_i64 a b = max i64_min (min i64_max (a - b))"

lemma sat_add_u64_exact: "a + b \<le> u64_max \<Longrightarrow> sat_add_u64 a b = a + b"
  by (simp add: sat_add_u64_def)

lemma sat_add_u64_le: "sat_add_u64 a b \<le> a + b"
  by (simp add: sat_add_u64_def)

lemma sat_add_u64_bound: "sat_add_u64 a b \<le> u64_max"
  by (simp add: sat_add_u64_def)

lemma sat_add_u32_bound: "sat_add_u32 a b \<le> u32_max"
  by (simp add: sat_add_u32_def)

lemma sat_add_u32_exact: "a + b \<le> u32_max \<Longrightarrow> sat_add_u32 a b = a + b"
  by (simp add: sat_add_u32_def)

lemma sat_sub_i64_exact:
  "i64_min \<le> a - b \<Longrightarrow> a - b \<le> i64_max \<Longrightarrow> sat_sub_i64 a b = a - b"
  by (simp add: sat_sub_i64_def)

lemma sat_sub_i64_le_iff:
  "i64_min \<le> c \<Longrightarrow> c < i64_max \<Longrightarrow> sat_sub_i64 a b \<le> c \<longleftrightarrow> a - b \<le> c"
  by (simp add: sat_sub_i64_def min_def max_def)

section \<open>Strings\<close>

text \<open>\<^verbatim>\<open>char::is_whitespace\<close> on ASCII, \<^verbatim>\<open>str::trim\<close>, \<^verbatim>\<open>str::starts_with\<close>, \<^verbatim>\<open>str::split\<close>.\<close>

definition is_ws :: "char \<Rightarrow> bool" where
  "is_ws c \<longleftrightarrow> c = CHR '' '' \<or> (9 \<le> (of_char c :: nat) \<and> (of_char c :: nat) \<le> 13)"

definition trim_start :: "string \<Rightarrow> string" where
  "trim_start s = dropWhile is_ws s"

definition trim :: "string \<Rightarrow> string" where
  "trim s = rev (trim_start (rev (trim_start s)))"

definition starts_with :: "string \<Rightarrow> string \<Rightarrow> bool" where
  "starts_with s p \<longleftrightarrow> take (length p) s = p"

fun split_by :: "(char \<Rightarrow> bool) \<Rightarrow> string \<Rightarrow> string list" where
  "split_by p [] = [[]]"
| "split_by p (c # cs) =
     (if p c then [] # split_by p cs
      else (case split_by p cs of [] \<Rightarrow> [[c]] | w # ws \<Rightarrow> (c # w) # ws))"

definition ascii_lower :: "char \<Rightarrow> char" where
  "ascii_lower c = (let n = (of_char c :: nat) in if 65 \<le> n \<and> n \<le> 90 then char_of (n + 32) else c)"

definition to_ascii_lowercase :: "string \<Rightarrow> string" where
  "to_ascii_lowercase s = map ascii_lower s"

definition is_ascii_alphanumeric :: "char \<Rightarrow> bool" where
  "is_ascii_alphanumeric c \<longleftrightarrow> (let n = (of_char c :: nat) in
     (48 \<le> n \<and> n \<le> 57) \<or> (65 \<le> n \<and> n \<le> 90) \<or> (97 \<le> n \<and> n \<le> 122))"

lemma trim_Nil [simp]: "trim [] = []"
  by (simp add: trim_def trim_start_def)

lemma trim_start_no_ws: "\<forall>c \<in> set s. \<not> is_ws c \<Longrightarrow> trim_start s = s"
  by (cases s) (auto simp: trim_start_def)

lemma trim_no_ws: "\<forall>c \<in> set s. \<not> is_ws c \<Longrightarrow> trim s = s"
  by (simp add: trim_def trim_start_no_ws)

lemma hd_dropWhile_start: "trim_start s \<noteq> [] \<Longrightarrow> \<not> is_ws (hd (trim_start s))"
  unfolding trim_start_def by (rule hd_dropWhile)

lemma trim_start_idem [simp]: "trim_start (trim_start s) = trim_start s"
proof (cases "trim_start s")
  case Nil
  then show ?thesis by (simp add: trim_start_def)
next
  case (Cons c cs)
  then have "\<not> is_ws c" using hd_dropWhile_start [of s] by simp
  with Cons show ?thesis by (simp add: trim_start_def)
qed

lemma trim_start_fixed: "s = [] \<or> \<not> is_ws (hd s) \<Longrightarrow> trim_start s = s"
  by (cases s) (auto simp: trim_start_def)

lemma trim_idem [simp]: "trim (trim s) = trim s"
proof -
  let ?t = "trim s"
  have "?t = [] \<or> \<not> is_ws (hd ?t)"
  proof (cases "?t = []")
    case False
    obtain u where u: "rev (trim_start s) = u @ trim_start (rev (trim_start s))"
      by (metis takeWhile_dropWhile_id trim_start_def)
    have "trim_start s = ?t @ rev u"
      using arg_cong [OF u, of rev] by (simp add: trim_def)
    with False have "hd (trim_start s) = hd ?t" and "trim_start s \<noteq> []"
      by (metis hd_append2, auto)
    with hd_dropWhile_start [of s] show ?thesis by simp
  qed simp
  then have "trim_start ?t = ?t" by (rule trim_start_fixed)
  moreover have "trim_start (rev ?t) = rev ?t"
    by (simp add: trim_def)
  ultimately show ?thesis by (simp add: trim_def)
qed

lemma split_by_not_Nil [simp]: "split_by p s \<noteq> []"
  by (induction s) (auto split: list.splits)

lemma split_by_none: "\<forall>c \<in> set s. \<not> p c \<Longrightarrow> split_by p s = [s]"
  by (induction s) auto

lemma split_by_append_sep:
  "\<forall>c \<in> set s. \<not> p c \<Longrightarrow> p d \<Longrightarrow> split_by p (s @ d # t) = s # split_by p t"
  by (induction s) auto

lemma split_by_parts: "w \<in> set (split_by p s) \<Longrightarrow> c \<in> set w \<Longrightarrow> c \<in> set s \<and> \<not> p c"
proof (induction s arbitrary: w)
  case Nil
  then show ?case by simp
next
  case (Cons a s)
  then show ?case
    by (cases "split_by p s") (fastforce split: if_splits)+
qed

text \<open>
  A key made of components joined by a separator identifies them as long as the components before
  the last do not contain the separator.
\<close>

lemma append_sep_inject:
  assumes "d \<notin> set a" "d \<notin> set a'" "a @ d # b = a' @ d # b'"
  shows "a = a' \<and> b = b'"
  using assms
proof (induction a arbitrary: a')
  case Nil
  then show ?case by (cases a') auto
next
  case (Cons x a)
  then show ?case by (cases a') auto
qed

section \<open>Decimal numbers\<close>

text \<open>Rust's \<open>Display\<close> of an unsigned integer, and \<open>str::parse::<u64>\<close>.\<close>

definition digit :: "nat \<Rightarrow> char" where
  "digit d = char_of (48 + d)"

definition digit_value :: "char \<Rightarrow> nat option" where
  "digit_value c = (let n = (of_char c :: nat) in if 48 \<le> n \<and> n \<le> 57 then Some (n - 48) else None)"

fun to_decimal :: "nat \<Rightarrow> string" where
  "to_decimal n = (if n < 10 then [digit n] else to_decimal (n div 10) @ [digit (n mod 10)])"

declare to_decimal.simps [simp del]

fun parse_digits :: "nat \<Rightarrow> string \<Rightarrow> nat option" where
  "parse_digits acc [] = Some acc"
| "parse_digits acc (c # cs) =
     (case digit_value c of None \<Rightarrow> None | Some d \<Rightarrow> parse_digits (10 * acc + d) cs)"

definition parse_u64 :: "string \<Rightarrow> nat option" where
  "parse_u64 s =
     (let t = (case s of c # cs \<Rightarrow> if c = CHR ''+'' then cs else s | [] \<Rightarrow> s)
      in if t = [] then None
         else (case parse_digits 0 t of None \<Rightarrow> None
               | Some n \<Rightarrow> if n \<le> u64_max then Some n else None))"

lemma digit_value_digit [simp]: "d < 10 \<Longrightarrow> digit_value (digit d) = Some d"
  by (simp add: digit_value_def digit_def Let_def)

lemma of_char_digit: "d < 10 \<Longrightarrow> (of_char (digit d) :: nat) = 48 + d"
  by (simp add: digit_def)

lemma parse_digits_append:
  "parse_digits acc (s @ t) =
     (case parse_digits acc s of None \<Rightarrow> None | Some a \<Rightarrow> parse_digits a t)"
  by (induction acc s rule: parse_digits.induct) (auto split: option.splits)

lemma to_decimal_not_Nil [simp]: "to_decimal n \<noteq> []"
  by (subst to_decimal.simps) simp

lemma set_to_decimal: "c \<in> set (to_decimal n) \<Longrightarrow> \<exists>d < 10. c = digit d"
proof (induction n rule: to_decimal.induct)
  case (1 n)
  then show ?case
    by (subst (asm) (2) to_decimal.simps) (force split: if_splits)
qed

lemma parse_digits_to_decimal: "parse_digits 0 (to_decimal n) = Some n"
proof (induction n rule: to_decimal.induct)
  case (1 n)
  show ?case
  proof (cases "n < 10")
    case True
    then show ?thesis by (subst to_decimal.simps) simp
  next
    case False
    with "1.IH" show ?thesis
      by (subst to_decimal.simps) (simp add: parse_digits_append)
  qed
qed

lemma digit_not_special:
  assumes "d < 10"
  shows "digit d \<noteq> CHR ''+''" "digit d \<noteq> CHR '':''" "digit d \<noteq> CHR ''|''"
proof -
  have o: "(of_char (digit d) :: nat) = 48 + d" by (rule of_char_digit [OF assms])
  show "digit d \<noteq> CHR ''+''" and "digit d \<noteq> CHR '':''" and "digit d \<noteq> CHR ''|''"
    using o assms by auto
qed

lemma to_decimal_no_sep [simp]:
  "CHR '':'' \<notin> set (to_decimal n)" "CHR ''|'' \<notin> set (to_decimal n)"
  using set_to_decimal digit_not_special by metis+

lemma parse_u64_to_decimal: "n \<le> u64_max \<Longrightarrow> parse_u64 (to_decimal n) = Some n"
proof -
  assume n: "n \<le> u64_max"
  obtain c cs where cs: "to_decimal n = c # cs"
    by (cases "to_decimal n") auto
  then have "c \<noteq> CHR ''+''"
    using set_to_decimal [of c n] digit_not_special by force
  with cs n parse_digits_to_decimal [of n] show ?thesis
    by (simp add: parse_u64_def)
qed

lemma to_decimal_inject: "to_decimal m = to_decimal n \<longleftrightarrow> m = n"
  by (metis parse_digits_to_decimal option.inject)

text \<open>The same for \<open>i32\<close>.\<close>

definition show_int :: "int \<Rightarrow> string" where
  "show_int i = (if i < 0 then CHR ''-'' # to_decimal (nat (- i)) else to_decimal (nat i))"

definition parse_i32 :: "string \<Rightarrow> int option" where
  "parse_i32 s =
     (let neg = (s \<noteq> [] \<and> hd s = CHR ''-'');
          t = (if s \<noteq> [] \<and> hd s \<in> {CHR ''-'', CHR ''+''} then tl s else s)
      in if t = [] then None
         else (case parse_digits 0 t of None \<Rightarrow> None
               | Some n \<Rightarrow> (let i = (if neg then - int n else int n)
                            in if - (2 ^ 31) \<le> i \<and> i < 2 ^ 31 then Some i else None)))"

lemma hd_to_decimal: "hd (to_decimal n) \<noteq> CHR ''-''" "hd (to_decimal n) \<noteq> CHR ''+''"
proof -
  obtain d where "d < 10" "hd (to_decimal n) = digit d"
    using set_to_decimal [of "hd (to_decimal n)" n] by auto
  then show "hd (to_decimal n) \<noteq> CHR ''-''" "hd (to_decimal n) \<noteq> CHR ''+''"
    using of_char_digit [of d] by auto
qed

lemma parse_i32_show_int: "- (2 ^ 31) \<le> i \<Longrightarrow> i < 2 ^ 31 \<Longrightarrow> parse_i32 (show_int i) = Some i"
  by (simp add: parse_i32_def show_int_def hd_to_decimal parse_digits_to_decimal Let_def)

lemma show_int_no_bar [simp]: "CHR ''|'' \<notin> set (show_int i)"
  by (simp add: show_int_def)

section \<open>Association by key\<close>

text \<open>Generic facts on maps that the component invariants use.\<close>

lemma map_upd_cases: "(m(k \<mapsto> v)) x = Some y \<longleftrightarrow> (x = k \<and> y = v) \<or> (x \<noteq> k \<and> m x = Some y)"
  by auto

lemma map_del_Some: "(m(k := None)) x = Some y \<longleftrightarrow> x \<noteq> k \<and> m x = Some y"
  by auto

end
