(* ===== verification/Redis_Server.thy ===== *)
theory Redis_Server
  imports Flare_Prelude
begin

text \<open>
  The Redis server is not part of the repository: the model takes its commands as a parameter, the
  record \<open>redis_cmds\<close>, and the locale \<open>redis_server\<close> states what the Redis documentation promises
  of them (string commands with key expiry and the passage of server time). The in-memory server at
  the end satisfies these laws; witnesses run the model against it.
\<close>

section \<open>The commands the code sends\<close>

text \<open>
  \<open>r_get\<close> and \<open>r_pttl\<close> observe the server now; \<open>r_set\<close> is \<open>SET key value [PX ttl]\<close>, \<open>r_setnx\<close> is
  \<open>SET key value NX PX ttl\<close> (the boolean says whether the key was set), \<open>r_incrby\<close> answers the new
  value or an error (the value is no integer, or the sum leaves the signed 64-bit range),
  \<open>r_pexpire\<close> is \<open>PEXPIRE\<close>, \<open>r_del\<close> is \<open>DEL\<close>. \<open>r_elapse d\<close> is the passage of \<open>d\<close> milliseconds.
  Time is in milliseconds; the second-based options the code passes are multiplied by 1000.
\<close>

record 'r redis_cmds =
  r_get :: "'r \<Rightarrow> string \<Rightarrow> string option"
  r_pttl :: "'r \<Rightarrow> string \<Rightarrow> nat option"
  r_set :: "string \<Rightarrow> string \<Rightarrow> nat option \<Rightarrow> 'r \<Rightarrow> 'r"
  r_setnx :: "string \<Rightarrow> string \<Rightarrow> nat \<Rightarrow> 'r \<Rightarrow> bool \<times> 'r"
  r_incrby :: "string \<Rightarrow> nat \<Rightarrow> 'r \<Rightarrow> (nat \<times> 'r) option"
  r_pexpire :: "string \<Rightarrow> nat \<Rightarrow> 'r \<Rightarrow> 'r"
  r_del :: "string \<Rightarrow> 'r \<Rightarrow> 'r"
  r_elapse :: "nat \<Rightarrow> 'r \<Rightarrow> 'r"

text \<open>
  How one command ends for the client: answered, or with an error and its text, the command not
  applied (the connection is down, the server refused it) or applied with its answer lost.
\<close>

datatype cmd_end = CmdDone | CmdFailed string | CmdLost string

fun cmd_error :: "cmd_end \<Rightarrow> string option" where
  "cmd_error CmdDone = None"
| "cmd_error (CmdFailed e) = Some e"
| "cmd_error (CmdLost e) = Some e"

fun cmd_effect :: "cmd_end \<Rightarrow> ('r \<Rightarrow> 'r) \<Rightarrow> 'r \<Rightarrow> 'r" where
  "cmd_effect (CmdFailed e) f r = r"
| "cmd_effect _ f r = f r"

lemma cmd_effect_cases:
  "cmd_effect fate f r = r \<or> cmd_effect fate f r = f r"
  "cmd_error fate = None \<Longrightarrow> fate = CmdDone"
  by (cases fate; simp)+

text \<open>
  The integer a counter key holds: an absent key counts as 0. Counters of this code only grow from 0,
  so the values are natural numbers; \<open>redis_int_max\<close> is the largest signed 64-bit integer.
\<close>

definition counter_value :: "string option \<Rightarrow> nat option" where
  "counter_value v = (case v of None \<Rightarrow> Some 0 | Some s \<Rightarrow> parse_u64 s)"

abbreviation redis_int_max :: nat where "redis_int_max \<equiv> 2 ^ 63 - 1"

lemma counter_value_None [simp]: "counter_value None = Some 0"
  by (simp add: counter_value_def)

lemma counter_value_decimal [simp]:
  "n \<le> redis_int_max \<Longrightarrow> counter_value (Some (to_decimal n)) = Some n"
  by (simp add: counter_value_def parse_u64_to_decimal)

section \<open>What the documentation promises\<close>

locale redis_server =
  fixes R :: "'r redis_cmds"
  assumes get_set: "ttl \<noteq> Some 0 \<Longrightarrow>
      r_get R (r_set R k v ttl r) k' = (if k' = k then Some v else r_get R r k')"
    and pttl_set: "ttl \<noteq> Some 0 \<Longrightarrow>
      r_pttl R (r_set R k v ttl r) k' = (if k' = k then ttl else r_pttl R r k')"
    and setnx_free: "0 < px \<Longrightarrow> r_get R r k = None \<Longrightarrow>
      r_setnx R k v px r = (True, r_set R k v (Some px) r)"
    and setnx_taken: "r_get R r k = Some w \<Longrightarrow> r_setnx R k v px r = (False, r)"
    and incrby_ok: "counter_value (r_get R r k) = Some c \<Longrightarrow> c + n \<le> redis_int_max \<Longrightarrow>
      \<exists>r'. r_incrby R k n r = Some (c + n, r')
        \<and> (\<forall>k'. r_get R r' k' = (if k' = k then Some (to_decimal (c + n)) else r_get R r k'))
        \<and> (\<forall>k'. r_pttl R r' k' = r_pttl R r k')"
    and incrby_bad: "counter_value (r_get R r k) = None \<Longrightarrow> r_incrby R k n r = None"
    and incrby_overflow: "counter_value (r_get R r k) = Some c \<Longrightarrow> \<not> c + n \<le> redis_int_max \<Longrightarrow>
      r_incrby R k n r = None"
    and get_pexpire: "0 < px \<Longrightarrow> r_get R (r_pexpire R k px r) k' = r_get R r k'"
    and pttl_pexpire: "0 < px \<Longrightarrow> r_pttl R (r_pexpire R k px r) k' =
      (if k' = k \<and> r_get R r k \<noteq> None then Some px else r_pttl R r k')"
    and get_del: "r_get R (r_del R k r) k' = (if k' = k then None else r_get R r k')"
    and get_elapse: "r_get R (r_elapse R d r) k =
      (case r_pttl R r k of None \<Rightarrow> r_get R r k
       | Some t \<Rightarrow> if d < t then r_get R r k else None)"
    and pttl_elapse: "r_pttl R (r_elapse R d r) k =
      (case r_pttl R r k of None \<Rightarrow> None | Some t \<Rightarrow> if d < t then Some (t - d) else None)"
begin

lemma incrby_Some:
  assumes "r_incrby R k n r = Some (v, r')"
  shows "\<exists>c. counter_value (r_get R r k) = Some c \<and> v = c + n \<and> v \<le> redis_int_max"
    and "r_get R r' k' = (if k' = k then Some (to_decimal v) else r_get R r k')"
    and "r_pttl R r' k' = r_pttl R r k'"
proof -
  obtain c where c: "counter_value (r_get R r k) = Some c"
    using assms incrby_bad by (cases "counter_value (r_get R r k)") auto
  have le: "c + n \<le> redis_int_max"
    using assms incrby_overflow [OF c] by (cases "c + n \<le> redis_int_max") auto
  from incrby_ok [OF c le] assms
  have "v = c + n"
    and g: "\<forall>k'. r_get R r' k' = (if k' = k then Some (to_decimal (c + n)) else r_get R r k')"
    and t: "\<forall>k'. r_pttl R r' k' = r_pttl R r k'"
    by auto
  with c le show "\<exists>c. counter_value (r_get R r k) = Some c \<and> v = c + n \<and> v \<le> redis_int_max"
    by blast
  from g \<open>v = c + n\<close>
  show "r_get R r' k' = (if k' = k then Some (to_decimal v) else r_get R r k')" by simp
  from t show "r_pttl R r' k' = r_pttl R r k'" by simp
qed

lemma incrby_value:
  assumes "r_incrby R k n r = Some (v, r')" and "counter_value (r_get R r k) = Some c"
  shows "v = c + n" and "counter_value (r_get R r' k) = Some v"
  using incrby_Some(1) [OF assms(1)] incrby_Some(2) [OF assms(1), of k] assms(2) by auto

end

section \<open>An in-memory server\<close>

text \<open>
  A server state is its clock and its entries, each a value and an optional absolute deadline. An
  entry whose deadline has come is gone.
\<close>

record mem_state =
  ms_now :: nat
  ms_entries :: "string \<Rightarrow> (string \<times> nat option) option"

definition mem_live :: "mem_state \<Rightarrow> string \<Rightarrow> (string \<times> nat option) option" where
  "mem_live r k = (case ms_entries r k of
       Some (v, Some dl) \<Rightarrow> if ms_now r < dl then Some (v, Some dl) else None
     | e \<Rightarrow> e)"

definition mem_get :: "mem_state \<Rightarrow> string \<Rightarrow> string option" where
  "mem_get r k = map_option fst (mem_live r k)"

definition mem_pttl :: "mem_state \<Rightarrow> string \<Rightarrow> nat option" where
  "mem_pttl r k = (case mem_live r k of Some (_, Some dl) \<Rightarrow> Some (dl - ms_now r) | _ \<Rightarrow> None)"

definition mem_set :: "string \<Rightarrow> string \<Rightarrow> nat option \<Rightarrow> mem_state \<Rightarrow> mem_state" where
  "mem_set k v t r =
     r\<lparr>ms_entries := (ms_entries r)(k \<mapsto> (v, map_option (\<lambda>d. ms_now r + d) t))\<rparr>"

definition mem_setnx :: "string \<Rightarrow> string \<Rightarrow> nat \<Rightarrow> mem_state \<Rightarrow> bool \<times> mem_state" where
  "mem_setnx k v t r =
     (if mem_get r k = None then (True, mem_set k v (Some t) r) else (False, r))"

definition mem_incrby :: "string \<Rightarrow> nat \<Rightarrow> mem_state \<Rightarrow> (nat \<times> mem_state) option" where
  "mem_incrby k n r =
     (case counter_value (mem_get r k) of None \<Rightarrow> None
      | Some c \<Rightarrow> if c + n \<le> redis_int_max
                  then Some (c + n, mem_set k (to_decimal (c + n)) (mem_pttl r k) r) else None)"

definition mem_pexpire :: "string \<Rightarrow> nat \<Rightarrow> mem_state \<Rightarrow> mem_state" where
  "mem_pexpire k t r = (case mem_get r k of None \<Rightarrow> r | Some v \<Rightarrow> mem_set k v (Some t) r)"

definition mem_del :: "string \<Rightarrow> mem_state \<Rightarrow> mem_state" where
  "mem_del k r = r\<lparr>ms_entries := (ms_entries r)(k := None)\<rparr>"

definition mem_elapse :: "nat \<Rightarrow> mem_state \<Rightarrow> mem_state" where
  "mem_elapse d r = r\<lparr>ms_now := ms_now r + d\<rparr>"

definition mem_redis :: "mem_state redis_cmds" where
  "mem_redis = \<lparr>r_get = mem_get, r_pttl = mem_pttl, r_set = mem_set, r_setnx = mem_setnx,
     r_incrby = mem_incrby, r_pexpire = mem_pexpire, r_del = mem_del, r_elapse = mem_elapse\<rparr>"

definition mem_init :: mem_state where
  "mem_init = \<lparr>ms_now = 0, ms_entries = (\<lambda>_. None)\<rparr>"

lemmas mem_defs = mem_redis_def mem_get_def mem_pttl_def mem_live_def mem_set_def mem_setnx_def
  mem_incrby_def mem_pexpire_def mem_del_def mem_elapse_def

lemma mem_get_set: "t \<noteq> Some 0 \<Longrightarrow>
    mem_get (mem_set k v t r) k' = (if k' = k then Some v else mem_get r k')"
  by (auto simp: mem_defs split: option.splits)

lemma mem_pttl_set: "t \<noteq> Some 0 \<Longrightarrow>
    mem_pttl (mem_set k v t r) k' = (if k' = k then t else mem_pttl r k')"
  by (auto simp: mem_defs split: option.splits)

lemma mem_pttl_pos: "mem_pttl r k \<noteq> Some 0"
  by (auto simp: mem_defs split: option.splits if_splits)

lemma mem_pttl_None: "mem_get r k = None \<Longrightarrow> mem_pttl r k = None"
  by (auto simp: mem_defs split: option.splits if_splits)

lemma mem_get_elapse: "mem_get (mem_elapse d r) k =
    (case mem_pttl r k of None \<Rightarrow> mem_get r k | Some t \<Rightarrow> if d < t then mem_get r k else None)"
  by (auto simp: mem_defs split: option.splits if_splits)

lemma mem_pttl_elapse: "mem_pttl (mem_elapse d r) k =
    (case mem_pttl r k of None \<Rightarrow> None | Some t \<Rightarrow> if d < t then Some (t - d) else None)"
  by (auto simp: mem_defs split: option.splits if_splits)

lemma mem_get_del: "mem_get (mem_del k r) k' = (if k' = k then None else mem_get r k')"
  by (auto simp: mem_defs split: option.splits)

interpretation mem: redis_server mem_redis
proof (unfold_locales, goal_cases)
  case (1 ttl k v r k')
  then show ?case by (simp add: mem_redis_def mem_get_set)
next
  case (2 ttl k v r k')
  then show ?case by (simp add: mem_redis_def mem_pttl_set)
next
  case (3 px r k v)
  then show ?case by (simp add: mem_redis_def mem_setnx_def)
next
  case (4 r k w v px)
  then show ?case by (simp add: mem_redis_def mem_setnx_def)
next
  case (5 r k c n)
  then show ?case
    by (auto simp: mem_redis_def mem_incrby_def mem_get_set mem_pttl_set mem_pttl_pos)
next
  case (6 r k n)
  then show ?case by (simp add: mem_redis_def mem_incrby_def)
next
  case (7 r k c n)
  then show ?case by (simp add: mem_redis_def mem_incrby_def)
next
  case (8 px k r k')
  then show ?case by (simp add: mem_redis_def mem_pexpire_def mem_get_set split: option.split)
next
  case (9 px k r k')
  then show ?case by (simp add: mem_redis_def mem_pexpire_def mem_pttl_set split: option.split)
next
  case (10 k r k')
  then show ?case by (simp add: mem_redis_def mem_get_del)
next
  case (11 d r k)
  then show ?case by (simp add: mem_redis_def mem_get_elapse split: option.split)
next
  case (12 d r k)
  then show ?case by (simp add: mem_redis_def mem_pttl_elapse split: option.split)
qed

end
