(* ===== verification/Tenant_Contract.thy ===== *)
theory Tenant_Contract
  imports Flare_Prelude
begin

text \<open>
  Tenant identity and admission: the contract of \<^verbatim>\<open>crates/flare-im-contracts/src/domain/tenant.rs\<close>
  (status, identifier charset), the normalisation of \<^verbatim>\<open>utils/mod.rs\<close>, the admission rule of
  \<^verbatim>\<open>flare-im-service-kit/src/tenant_runtime.rs\<close>, and the tenant gate of the ingest handler.
\<close>

section \<open>Tenant status and identifiers\<close>

datatype tenant_status = Active | Suspended | Deleting

fun status_as_str :: "tenant_status \<Rightarrow> string" where
  "status_as_str Active = ''active''"
| "status_as_str Suspended = ''suspended''"
| "status_as_str Deleting = ''deleting''"

definition status_parse :: "string \<Rightarrow> tenant_status option" where
  "status_parse value =
     (let v = trim value in
      if v = ''active'' then Some Active
      else if v = ''suspended'' then Some Suspended
      else if v = ''deleting'' then Some Deleting
      else None)"

fun admits_connections :: "tenant_status \<Rightarrow> bool" where
  "admits_connections Active = True"
| "admits_connections Suspended = False"
| "admits_connections Deleting = False"

record tenant_core_quota =
  send_qps :: nat
  sync_pull_qps :: nat
  max_online_devices_per_user :: nat

definition default_core_quota :: tenant_core_quota where
  "default_core_quota = \<lparr>send_qps = 0, sync_pull_qps = 0, max_online_devices_per_user = 0\<rparr>"

record tenant_quota =
  max_users :: nat
  max_groups :: nat
  max_group_members :: nat
  quota_core :: tenant_core_quota

record tenant_runtime_snapshot =
  snap_tenant_id :: string
  snap_status :: tenant_status
  snap_quota :: tenant_quota
  snap_version :: nat

definition is_valid_tenant_id :: "string \<Rightarrow> bool" where
  "is_valid_tenant_id tenant_id \<longleftrightarrow>
     tenant_id \<noteq> [] \<and> length tenant_id \<le> 32 \<and>
     list_all (\<lambda>b. is_ascii_alphanumeric b \<or> b = CHR ''_'' \<or> b = CHR ''-'') tenant_id"

definition DEFAULT_TENANT_ID :: string where
  "DEFAULT_TENANT_ID = ''0''"

definition normalize_tenant_id :: "string \<Rightarrow> string" where
  "normalize_tenant_id tenant_id =
     (let t = trim tenant_id in if t = [] \<or> t = ''default'' then DEFAULT_TENANT_ID else t)"

definition normalize_optional_tenant_id :: "string option \<Rightarrow> string option" where
  "normalize_optional_tenant_id tenant_id =
     (case map_option trim tenant_id of
        None \<Rightarrow> None
      | Some t \<Rightarrow> if t = [] then None else Some (normalize_tenant_id t))"

section \<open>Admission\<close>

datatype tenant_access_policy = Lenient | Strict

definition policy_parse :: "string \<Rightarrow> tenant_access_policy option" where
  "policy_parse value =
     (let v = to_ascii_lowercase (trim value) in
      if v = ''lenient'' then Some Lenient else if v = ''strict'' then Some Strict else None)"

fun policy_as_str :: "tenant_access_policy \<Rightarrow> string" where
  "policy_as_str Lenient = ''lenient''"
| "policy_as_str Strict = ''strict''"

datatype tenant_lookup = Known tenant_runtime_snapshot | Unknown | Unavailable

fun admits_connection :: "tenant_lookup \<Rightarrow> tenant_access_policy \<Rightarrow> bool" where
  "admits_connection (Known snapshot) policy = admits_connections (snap_status snapshot)"
| "admits_connection Unknown policy = (policy = Lenient)"
| "admits_connection Unavailable policy = (policy = Lenient)"

fun lookup_snapshot :: "tenant_lookup \<Rightarrow> tenant_runtime_snapshot option" where
  "lookup_snapshot (Known snapshot) = Some snapshot"
| "lookup_snapshot _ = None"

definition core_quota :: "tenant_lookup \<Rightarrow> tenant_core_quota" where
  "core_quota lookup =
     (case lookup_snapshot lookup of
        Some snapshot \<Rightarrow> quota_core (snap_quota snapshot) | None \<Rightarrow> default_core_quota)"

text \<open>\<^verbatim>\<open>MessageIngestHandler::tenant_gate\<close>.\<close>

definition tenant_gate :: "tenant_lookup \<Rightarrow> tenant_access_policy \<Rightarrow> unit result" where
  "tenant_gate lookup policy =
     (if admits_connection lookup policy then Ok ()
      else if lookup = Unavailable
        then Err (FlareError ServiceUnavailable ''tenant runtime projection unavailable'')
      else Err (FlareError PermissionDenied ''TENANT_UNAVAILABLE''))"

section \<open>Properties\<close>

lemma valid_tenant_chars:
  "is_valid_tenant_id t \<Longrightarrow> c \<in> set t \<Longrightarrow>
     is_ascii_alphanumeric c \<or> c = CHR ''_'' \<or> c = CHR ''-''"
  by (auto simp: is_valid_tenant_id_def list_all_iff)

lemma valid_tenant_no_sep: "is_valid_tenant_id t \<Longrightarrow> CHR '':'' \<notin> set t"
proof
  assume "is_valid_tenant_id t" and "CHR '':'' \<in> set t"
  then show False
    using valid_tenant_chars [of t "CHR '':''"] by (simp add: is_ascii_alphanumeric_def)
qed

lemma valid_tenant_no_ws: "is_valid_tenant_id t \<Longrightarrow> c \<in> set t \<Longrightarrow> \<not> is_ws c"
  using valid_tenant_chars [of t c]
  by (auto simp: is_ascii_alphanumeric_def is_ws_def Let_def)

lemma trim_default_tenant [simp]: "trim DEFAULT_TENANT_ID = DEFAULT_TENANT_ID"
  by (simp add: DEFAULT_TENANT_ID_def trim_def trim_start_def is_ws_def)

lemma default_tenant_facts [simp]: "DEFAULT_TENANT_ID \<noteq> []" "DEFAULT_TENANT_ID \<noteq> ''default''"
  by (simp_all add: DEFAULT_TENANT_ID_def)

lemma normalize_tenant_id_idem:
  "normalize_tenant_id (normalize_tenant_id t) = normalize_tenant_id t"
  by (simp add: normalize_tenant_id_def Let_def)

lemma normalize_tenant_id_not_Nil: "normalize_tenant_id t \<noteq> []"
  by (simp add: normalize_tenant_id_def Let_def)

lemma normalize_tenant_id_valid:
  "is_valid_tenant_id t \<Longrightarrow> t \<noteq> ''default'' \<Longrightarrow> normalize_tenant_id t = t"
  using valid_tenant_no_ws [of t]
  by (auto simp: normalize_tenant_id_def trim_no_ws is_valid_tenant_id_def Let_def)

lemma normalize_optional_Some:
  "normalize_optional_tenant_id t = Some u \<Longrightarrow> u \<noteq> [] \<and> normalize_tenant_id u = u"
  by (auto simp: normalize_optional_tenant_id_def normalize_tenant_id_idem
      normalize_tenant_id_not_Nil split: option.splits if_splits)

lemma status_parse_as_str: "status_parse (status_as_str s) = Some s"
  by (cases s) (simp_all add: status_parse_def Let_def trim_def trim_start_def is_ws_def)

lemma policy_parse_as_str: "policy_parse (policy_as_str p) = Some p"
  by (cases p)
    (simp_all add: policy_parse_def Let_def trim_def trim_start_def is_ws_def
      to_ascii_lowercase_def ascii_lower_def)

text \<open>A refused tenant is told which of the two situations it is in, and nothing else is refused.\<close>

lemma tenant_gate_cases:
  "tenant_gate lookup policy = Ok () \<longleftrightarrow> admits_connection lookup policy"
  "tenant_gate lookup policy = Err e \<Longrightarrow>
     (err_code e = ServiceUnavailable \<longleftrightarrow> lookup = Unavailable) \<and>
     (err_code e = PermissionDenied \<longleftrightarrow> lookup \<noteq> Unavailable)"
  by (auto simp: tenant_gate_def split: if_splits)

end
