(* ===== verification/Seq_Allocator.thy ===== *)
theory Seq_Allocator
  imports Redis_Server Tenant_Contract
begin

text \<open>
  \<^verbatim>\<open>crates/flare-im-seq/src/sequence_allocator.rs\<close>: the per-conversation sequence allocator over a
  Redis counter. Every service instance shares the Redis server, so an allocator operation is a
  function on the server state; an operation that fails leaves the state as it was. The Lua scripts
  compute with double-precision numbers, which are exact on integers up to \<open>2 ^ 53\<close>: the facts about
  scripts are stated for values in that range.
\<close>

abbreviation lua_exact_max :: nat where "lua_exact_max \<equiv> 2 ^ 53"

section \<open>Local ranges\<close>

record sequence_range =
  sr_next :: nat
  sr_end :: nat

definition range_new :: "nat \<Rightarrow> nat \<Rightarrow> sequence_range" where
  "range_new start end' = \<lparr>sr_next = start, sr_end = end'\<rparr>"

definition take_next :: "sequence_range \<Rightarrow> nat option \<times> sequence_range" where
  "take_next s =
     (if sr_next s > sr_end s then (None, s)
      else (Some (sr_next s), s\<lparr>sr_next := sat_add_u64 (sr_next s) 1\<rparr>))"

section \<open>The allocator\<close>

record sequence_allocator =
  batch_size :: nat

definition allocator_new :: "nat \<Rightarrow> sequence_allocator" where
  "allocator_new batch = \<lparr>batch_size = max batch 1\<rparr>"

definition build_redis_key :: "string \<Rightarrow> string \<Rightarrow> string" where
  "build_redis_key tenant_id conversation_id = ''seq:'' @ tenant_id @ '':'' @ conversation_id"

definition allocate_single_seq :: "'r redis_cmds \<Rightarrow> string \<Rightarrow> 'r \<Rightarrow> nat result \<times> 'r" where
  "allocate_single_seq R key r =
     (case r_incrby R key 1 r of
        None \<Rightarrow> (Err (FlareError SystemError ''Failed to allocate sequence in Redis''), r)
      | Some (seq, r') \<Rightarrow> (Ok seq, r'))"

definition allocate_seq :: "'r redis_cmds \<Rightarrow> string \<Rightarrow> string \<Rightarrow> 'r \<Rightarrow> nat result \<times> 'r" where
  "allocate_seq R conversation_id tenant_id r =
     allocate_single_seq R (build_redis_key tenant_id conversation_id) r"

text \<open>\<^verbatim>\<open>FLOOR_SEQ_LUA\<close>: a value that is no number makes the script fail.\<close>

definition floor_seq_lua :: "'r redis_cmds \<Rightarrow> string \<Rightarrow> nat \<Rightarrow> 'r \<Rightarrow> (nat \<times> 'r) option" where
  "floor_seq_lua R key floor r =
     (case counter_value (r_get R r key) of
        None \<Rightarrow> None
      | Some cur \<Rightarrow>
          let cur = (if cur < floor then floor else cur);
              cur = cur + 1
          in Some (cur, r_set R key (to_decimal cur) None r))"

definition seq_after_floor :: "nat \<Rightarrow> nat \<Rightarrow> nat" where
  "seq_after_floor current_high_water floor = sat_add_u64 (max current_high_water floor) 1"

definition allocate_seq_with_floor ::
  "'r redis_cmds \<Rightarrow> string \<Rightarrow> string \<Rightarrow> nat \<Rightarrow> 'r \<Rightarrow> nat result \<times> 'r" where
  "allocate_seq_with_floor R conversation_id tenant_id floor r =
     (if floor = 0 then allocate_seq R conversation_id tenant_id r
      else (case floor_seq_lua R (build_redis_key tenant_id conversation_id) floor r of
              None \<Rightarrow>
                (Err (FlareError SystemError
                   ''Failed to allocate floor-guarded sequence in Redis''), r)
            | Some (seq, r') \<Rightarrow> (Ok seq, r')))"

definition allocate_batch_range ::
  "'r redis_cmds \<Rightarrow> sequence_allocator \<Rightarrow> string \<Rightarrow> 'r \<Rightarrow> sequence_range result \<times> 'r" where
  "allocate_batch_range R a key r =
     (case r_incrby R key (batch_size a) r of
        None \<Rightarrow> (Err (FlareError SystemError ''Failed to allocate batch sequence in Redis''), r)
      | Some (end_seq, r') \<Rightarrow>
          let start_seq = (end_seq - batch_size a) + 1
          in (Ok (range_new start_seq end_seq), r'))"

definition allocate_batch ::
  "'r redis_cmds \<Rightarrow> sequence_allocator \<Rightarrow> string \<Rightarrow> string \<Rightarrow> 'r \<Rightarrow> nat list result \<times> 'r" where
  "allocate_batch R a conversation_id tenant_id r =
     (case allocate_batch_range R a (build_redis_key tenant_id conversation_id) r of
        (Inl e, r') \<Rightarrow> (Inl e, r')
      | (Inr rng, r') \<Rightarrow> (Ok [sr_next rng ..< sr_end rng + 1], r'))"

section \<open>Runs of many instances\<close>

text \<open>
  The operations of all instances reach the server one at a time. A request names its tenant and
  conversation; \<open>run_requests\<close> executes a sequence of them and lists the numbers handed out, in the
  order they were handed out.
\<close>

datatype seq_request =
    ReqSeq string string
  | ReqFloor string string nat
  | ReqBatch nat string string

fun run_request :: "'r redis_cmds \<Rightarrow> seq_request \<Rightarrow> 'r \<Rightarrow> ((string \<times> string) \<times> nat) list \<times> 'r" where
  "run_request R (ReqSeq tenant conv) r =
     (case allocate_seq R conv tenant r of
        (Inl e, r') \<Rightarrow> ([], r') | (Inr n, r') \<Rightarrow> ([((tenant, conv), n)], r'))"
| "run_request R (ReqFloor tenant conv floor) r =
     (case allocate_seq_with_floor R conv tenant floor r of
        (Inl e, r') \<Rightarrow> ([], r') | (Inr n, r') \<Rightarrow> ([((tenant, conv), n)], r'))"
| "run_request R (ReqBatch batch tenant conv) r =
     (case allocate_batch R (allocator_new batch) conv tenant r of
        (Inl e, r') \<Rightarrow> ([], r') | (Inr ns, r') \<Rightarrow> (map (Pair (tenant, conv)) ns, r'))"

fun run_requests ::
  "'r redis_cmds \<Rightarrow> seq_request list \<Rightarrow> 'r \<Rightarrow> ((string \<times> string) \<times> nat) list \<times> 'r" where
  "run_requests R [] r = ([], r)"
| "run_requests R (q # qs) r =
     (let (out, r1) = run_request R q r; (outs, r2) = run_requests R qs r1 in (out @ outs, r2))"

fun request_tenant :: "seq_request \<Rightarrow> string" where
  "request_tenant (ReqSeq tenant conv) = tenant"
| "request_tenant (ReqFloor tenant conv floor) = tenant"
| "request_tenant (ReqBatch batch tenant conv) = tenant"

definition issued_to :: "string \<times> string \<Rightarrow> ((string \<times> string) \<times> nat) list \<Rightarrow> nat list" where
  "issued_to tc out = map snd (filter (\<lambda>e. fst e = tc) out)"

lemma issued_to_simps [simp]:
  "issued_to tc [] = []"
  "issued_to tc (e # out) = (if fst e = tc then snd e # issued_to tc out else issued_to tc out)"
  "issued_to tc (out @ out') = issued_to tc out @ issued_to tc out'"
  by (simp_all add: issued_to_def)

lemma issued_to_map_Pair [simp]:
  "issued_to tc (map (Pair tc') ns) = (if tc' = tc then ns else [])"
  by (induction ns) (auto simp: issued_to_def)

section \<open>Facts\<close>

lemmas seq_defs = allocate_seq_def allocate_single_seq_def allocate_seq_with_floor_def
  floor_seq_lua_def allocate_batch_def allocate_batch_range_def

text \<open>A range ending below the largest \<open>u64\<close> hands out each of its numbers once, in order.\<close>

fun drain :: "nat \<Rightarrow> sequence_range \<Rightarrow> nat list" where
  "drain 0 s = []"
| "drain (Suc fuel) s =
     (case take_next s of (None, s') \<Rightarrow> [] | (Some n, s') \<Rightarrow> n # drain fuel s')"

lemma take_next_Some:
  "sr_end s < u64_max \<Longrightarrow> take_next s = (Some n, s') \<Longrightarrow>
     n = sr_next s \<and> n \<le> sr_end s \<and> sr_next s' = n + 1 \<and> sr_end s' = sr_end s"
  by (auto simp: take_next_def sat_add_u64_exact split: if_splits)

lemma take_next_None: "take_next s = (None, s') \<longleftrightarrow> sr_end s < sr_next s \<and> s' = s"
  by (auto simp: take_next_def)

lemma drain_eq:
  "sr_end s < u64_max \<Longrightarrow> sr_end s < sr_next s + fuel \<Longrightarrow>
     drain fuel s = [sr_next s ..< sr_end s + 1]"
proof (induction fuel arbitrary: s)
  case 0
  then show ?case by simp
next
  case (Suc fuel)
  show ?case
  proof (cases "sr_next s \<le> sr_end s")
    case True
    then have t: "take_next s = (Some (sr_next s), s\<lparr>sr_next := sr_next s + 1\<rparr>)"
      using Suc.prems by (simp add: take_next_def sat_add_u64_exact)
    have "drain fuel (s\<lparr>sr_next := sr_next s + 1\<rparr>) = [sr_next s + 1 ..< sr_end s + 1]"
      using Suc.IH [of "s\<lparr>sr_next := sr_next s + 1\<rparr>"] Suc.prems by simp
    with t True show ?thesis by (simp add: upt_conv_Cons)
  next
    case False
    then show ?thesis by (simp add: take_next_def)
  qed
qed

lemma build_redis_key_inject:
  assumes "is_valid_tenant_id t" "is_valid_tenant_id t'"
  shows "build_redis_key t c = build_redis_key t' c' \<longleftrightarrow> t = t' \<and> c = c'"
  using append_sep_inject [OF valid_tenant_no_sep [OF assms(1)] valid_tenant_no_sep [OF assms(2)],
      of c c']
  by (auto simp: build_redis_key_def)


text \<open>
  The counter of a conversation, and what one request does to it: it moves from \<open>c\<close> to some \<open>c'\<close>
  and hands out strictly increasing numbers above \<open>c\<close> and up to \<open>c'\<close>, the last of them \<open>c'\<close> itself.
\<close>

definition conv_counter :: "'r redis_cmds \<Rightarrow> 'r \<Rightarrow> string \<times> string \<Rightarrow> nat option" where
  "conv_counter R r tc = counter_value (r_get R r (build_redis_key (fst tc) (snd tc)))"

definition advances :: "nat \<Rightarrow> nat list \<Rightarrow> nat \<Rightarrow> bool" where
  "advances c ns c' \<longleftrightarrow> sorted_wrt (<) (c # ns) \<and> last (c # ns) = c'"

lemma advances_Nil [simp]: "advances c [] c' \<longleftrightarrow> c' = c"
  by (auto simp: advances_def)

lemma advances_single [simp]: "advances c [n] c' \<longleftrightarrow> c < n \<and> c' = n"
  by (auto simp: advances_def)

lemma advances_le: "advances c ns c' \<Longrightarrow> c \<le> c'"
  by (cases ns rule: rev_cases) (auto simp: advances_def sorted_wrt_append)

lemma advances_upt:
  assumes "0 < n"
  shows "advances c [c + 1 ..< c + n + 1] (c + n)"
proof -
  have "c # [c + 1 ..< c + n + 1] = [c ..< c + n + 1]"
    by (simp add: upt_conv_Cons)
  with assms show ?thesis
    by (simp only: advances_def sorted_wrt_upt) simp
qed

lemma advances_mem_le: "advances c ns c' \<Longrightarrow> n \<in> set ns \<Longrightarrow> c < n \<and> n \<le> c'"
  by (cases ns rule: rev_cases) (auto simp: advances_def sorted_wrt_append)

lemma advances_append:
  assumes "advances c ns c'" and "advances c' ms c''"
  shows "advances c (ns @ ms) c''"
proof -
  have "\<forall>x \<in> set ns. \<forall>y \<in> set ms. x < y"
    using advances_mem_le [OF assms(1)] advances_mem_le [OF assms(2)]
    by (meson le_less_trans)
  moreover have "\<forall>y \<in> set ms. c < y"
    using advances_le [OF assms(1)] advances_mem_le [OF assms(2)] by (meson le_less_trans)
  ultimately show ?thesis
    using assms by (auto simp: advances_def sorted_wrt_append split: if_splits)
qed

context redis_server
begin

lemma allocate_single_seq_Some:
  assumes "allocate_single_seq R key r = (Inr n, r')"
  shows "\<exists>c. counter_value (r_get R r key) = Some c \<and> n = c + 1
           \<and> counter_value (r_get R r' key) = Some n"
    and "key' \<noteq> key \<Longrightarrow> r_get R r' key' = r_get R r key'"
proof -
  from assms have i: "r_incrby R key 1 r = Some (n, r')"
    by (auto simp: allocate_single_seq_def split: option.splits)
  from incrby_Some(1) [OF i] incrby_value [OF i]
  show "\<exists>c. counter_value (r_get R r key) = Some c \<and> n = c + 1
           \<and> counter_value (r_get R r' key) = Some n"
    by auto
  show "key' \<noteq> key \<Longrightarrow> r_get R r' key' = r_get R r key'"
    using incrby_Some(2) [OF i, of key'] by simp
qed

lemma allocate_single_seq_Inl: "allocate_single_seq R key r = (Inl e, r') \<Longrightarrow> r' = r"
  by (auto simp: allocate_single_seq_def split: option.splits)

lemma floor_seq_lua_Some:
  assumes "floor_seq_lua R key floor r = Some (n, r')"
  shows "\<exists>c. counter_value (r_get R r key) = Some c \<and> n = max c floor + 1"
    and "n \<le> u64_max \<Longrightarrow> counter_value (r_get R r' key) = Some n"
    and "key' \<noteq> key \<Longrightarrow> r_get R r' key' = r_get R r key'"
  using assms
  by (auto simp: floor_seq_lua_def get_set counter_value_def parse_u64_to_decimal Let_def max_def
      split: if_splits option.splits)

lemma allocate_batch_Some:
  assumes "allocate_batch R a conv tenant r = (Inr ns, r')" and "0 < batch_size a"
  shows "\<exists>c. counter_value (r_get R r (build_redis_key tenant conv)) = Some c
           \<and> ns = [c + 1 ..< c + batch_size a + 1]
           \<and> counter_value (r_get R r' (build_redis_key tenant conv)) = Some (c + batch_size a)"
    and "key' \<noteq> build_redis_key tenant conv \<Longrightarrow> r_get R r' key' = r_get R r key'"
proof -
  from assms(1) obtain v where
    i: "r_incrby R (build_redis_key tenant conv) (batch_size a) r = Some (v, r')"
    and ns: "ns = [v - batch_size a + 1 ..< v + 1]"
    by (auto simp: allocate_batch_def allocate_batch_range_def range_new_def Let_def
        split: option.splits)
  from incrby_Some(1) [OF i] incrby_value [OF i] ns
  show "\<exists>c. counter_value (r_get R r (build_redis_key tenant conv)) = Some c
           \<and> ns = [c + 1 ..< c + batch_size a + 1]
           \<and> counter_value (r_get R r' (build_redis_key tenant conv)) = Some (c + batch_size a)"
    by auto
  show "key' \<noteq> build_redis_key tenant conv \<Longrightarrow> r_get R r' key' = r_get R r key'"
    using incrby_Some(2) [OF i, of key'] by simp
qed

text \<open>
  What a successful operation on one conversation gives for every conversation: the one it names
  advances, every other one is left alone.
\<close>

lemma conv_counter_step:
  assumes t: "is_valid_tenant_id t" and tc: "is_valid_tenant_id (fst tc)"
    and frame: "\<And>key'. key' \<noteq> build_redis_key t cv \<Longrightarrow> r_get R r' key' = r_get R r key'"
    and step: "counter_value (r_get R r (build_redis_key t cv)) = Some c0"
      "advances c0 ns c1" "counter_value (r_get R r' (build_redis_key t cv)) = Some c1"
    and out: "issued_to tc out = (if tc = (t, cv) then ns else [])"
    and c: "conv_counter R r tc = Some c"
  shows "\<exists>c'. conv_counter R r' tc = Some c' \<and> advances c (issued_to tc out) c'"
proof (cases "tc = (t, cv)")
  case True
  with step out c show ?thesis by (simp add: conv_counter_def)
next
  case False
  then have "build_redis_key (fst tc) (snd tc) \<noteq> build_redis_key t cv"
    using build_redis_key_inject [OF tc t] by (cases tc) auto
  then have "conv_counter R r' tc = conv_counter R r tc"
    by (simp add: conv_counter_def frame)
  with False out c show ?thesis by simp
qed

lemma allocate_seq_step:
  assumes "is_valid_tenant_id t" "is_valid_tenant_id (fst tc)" "conv_counter R r tc = Some c"
    and a: "allocate_seq R cv t r = (Inr n, r')"
  shows "\<exists>c'. conv_counter R r' tc = Some c' \<and> advances c (issued_to tc [((t, cv), n)]) c'"
proof -
  note a' = allocate_single_seq_Some [OF a [unfolded allocate_seq_def]]
  from a'(1) obtain c0 where c0: "counter_value (r_get R r (build_redis_key t cv)) = Some c0"
    "advances c0 [n] n" "counter_value (r_get R r' (build_redis_key t cv)) = Some n" by auto
  show ?thesis
    by (rule conv_counter_step [OF assms(1,2) _ c0 _ assms(3)]) (auto intro: a'(2))
qed

lemma allocate_floor_step:
  assumes "is_valid_tenant_id t" "is_valid_tenant_id (fst tc)" "conv_counter R r tc = Some c"
    and a: "allocate_seq_with_floor R cv t floor r = (Inr n, r')" and small: "n \<le> u64_max"
  shows "\<exists>c'. conv_counter R r' tc = Some c' \<and> advances c (issued_to tc [((t, cv), n)]) c'"
proof (cases "floor = 0")
  case True
  with a have "allocate_seq R cv t r = (Inr n, r')" by (simp add: allocate_seq_with_floor_def)
  from allocate_seq_step [OF assms(1-3) this] show ?thesis .
next
  case False
  with a have l: "floor_seq_lua R (build_redis_key t cv) floor r = Some (n, r')"
    by (auto simp: allocate_seq_with_floor_def split: option.splits)
  note a' = floor_seq_lua_Some [OF l]
  from a'(1) obtain c0 where c0: "counter_value (r_get R r (build_redis_key t cv)) = Some c0"
    "advances c0 [n] n" by auto
  show ?thesis
    by (rule conv_counter_step [OF assms(1,2) _ c0 a'(2) [OF small] _ assms(3)])
      (auto intro: a'(3))
qed

lemma allocate_batch_step:
  assumes "is_valid_tenant_id t" "is_valid_tenant_id (fst tc)" "conv_counter R r tc = Some c"
    and a: "allocate_batch R (allocator_new b) cv t r = (Inr ns, r')"
  shows "\<exists>c'. conv_counter R r' tc = Some c' \<and> advances c (issued_to tc (map (Pair (t, cv)) ns)) c'"
proof -
  have pos: "0 < batch_size (allocator_new b)" by (simp add: allocator_new_def)
  note a' = allocate_batch_Some [OF a pos]
  from a'(1) obtain c0 where c0: "counter_value (r_get R r (build_redis_key t cv)) = Some c0"
    "advances c0 ns (c0 + batch_size (allocator_new b))"
    "counter_value (r_get R r' (build_redis_key t cv)) = Some (c0 + batch_size (allocator_new b))"
    using advances_upt [OF pos] by auto
  show ?thesis
    by (rule conv_counter_step [OF assms(1,2) _ c0 _ assms(3)]) (auto intro: a'(2))
qed

lemma allocate_errors_keep_state:
  "allocate_seq R cv t r = (Inl e, r') \<Longrightarrow> r' = r"
  "allocate_seq_with_floor R cv t floor r = (Inl e, r') \<Longrightarrow> r' = r"
  "allocate_batch R a cv t r = (Inl e, r') \<Longrightarrow> r' = r"
  by (auto simp: seq_defs split: option.splits if_splits prod.splits sum.splits)

lemma run_request_advances:
  assumes q: "is_valid_tenant_id (request_tenant q)" and run: "run_request R q r = (out, r')"
    and tc: "is_valid_tenant_id (fst tc)" and c: "conv_counter R r tc = Some c"
    and small: "\<forall>e \<in> set out. snd e \<le> lua_exact_max"
  shows "\<exists>c'. conv_counter R r' tc = Some c' \<and> advances c (issued_to tc out) c'"
proof (cases q)
  case (ReqSeq t cv)
  with q run c tc show ?thesis
    by (auto split: prod.splits sum.splits dest: allocate_errors_keep_state
        simp del: issued_to_simps intro!: allocate_seq_step)
       (auto dest: allocate_errors_keep_state)
next
  case (ReqFloor t cv fl)
  with q run c tc small show ?thesis
    by (auto split: prod.splits sum.splits simp del: issued_to_simps
        intro!: allocate_floor_step)
       (auto dest: allocate_errors_keep_state)
next
  case (ReqBatch b t cv)
  with q run c tc show ?thesis
    by (auto split: prod.splits sum.splits simp del: issued_to_simps issued_to_map_Pair
        intro!: allocate_batch_step)
       (auto dest: allocate_errors_keep_state)
qed

lemma run_requests_advances:
  "\<forall>q \<in> set qs. is_valid_tenant_id (request_tenant q) \<Longrightarrow> run_requests R qs r = (out, r') \<Longrightarrow>
   is_valid_tenant_id (fst tc) \<Longrightarrow> conv_counter R r tc = Some c \<Longrightarrow>
   \<forall>e \<in> set out. snd e \<le> lua_exact_max \<Longrightarrow>
   \<exists>c'. conv_counter R r' tc = Some c' \<and> advances c (issued_to tc out) c'"
proof (induction qs arbitrary: r c out)
  case Nil
  then show ?case by auto
next
  case (Cons q qs)
  obtain out1 r1 where q: "run_request R q r = (out1, r1)" by fastforce
  from Cons.prems(2) q obtain out2 where qs: "run_requests R qs r1 = (out2, r')"
    and out: "out = out1 @ out2" by (auto split: prod.splits)
  from Cons.prems out run_request_advances [OF _ q Cons.prems(3,4)] obtain c1
    where c1: "conv_counter R r1 tc = Some c1" "advances c (issued_to tc out1) c1" by auto
  from Cons.IH [OF _ qs Cons.prems(3) c1(1)] Cons.prems(1,5) out obtain c2
    where "conv_counter R r' tc = Some c2" "advances c1 (issued_to tc out2) c2" by auto
  with c1 out show ?case by (auto intro: advances_append)
qed

end

section \<open>Properties\<close>

text \<open>
  C5: whatever requests the instances send, in whatever order they reach the server (single numbers,
  numbers above a floor, batches; successful or failed), the numbers a conversation receives are
  strictly increasing and above its counter at the start, also when many conversations and tenants
  share the server.
\<close>

theorem requests_strictly_increasing:
  assumes "redis_server R"
    and "\<forall>q \<in> set qs. is_valid_tenant_id (request_tenant q)" and "is_valid_tenant_id t"
    and "conv_counter R r (t, cv) = Some c" and "run_requests R qs r = (out, r')"
    and "\<forall>e \<in> set out. snd e \<le> lua_exact_max"
  shows "sorted_wrt (<) (c # issued_to (t, cv) out)
         \<and> conv_counter R r' (t, cv) = Some (last (c # issued_to (t, cv) out))"
  using redis_server.run_requests_advances [OF assms(1,2,5) _ assms(4,6)] assms(3)
  by (auto simp: advances_def)

theorem requests_strictly_increasing_witness:
  "issued_to (''t'', ''a'')
     (fst (run_requests mem_redis
        [ReqSeq ''t'' ''a'', ReqSeq ''t'' ''b'', ReqFloor ''t'' ''a'' 7, ReqBatch 3 ''t'' ''a'', ReqSeq ''t'' ''a'']
        mem_init)) = [1, 8, 9, 10, 11, 12]
   \<and> sorted_wrt (<) (0 # issued_to (''t'', ''a'')
     (fst (run_requests mem_redis
        [ReqSeq ''t'' ''a'', ReqSeq ''t'' ''b'', ReqFloor ''t'' ''a'' 7, ReqBatch 3 ''t'' ''a'', ReqSeq ''t'' ''a'']
        mem_init)))"
proof -
  let ?qs = "[ReqSeq ''t'' ''a'', ReqSeq ''t'' ''b'', ReqFloor ''t'' ''a'' 7, ReqBatch 3 ''t'' ''a'', ReqSeq ''t'' ''a'']"
  have "is_valid_tenant_id ''t''" by code_simp
  then have valid: "\<forall>q \<in> set ?qs. is_valid_tenant_id (request_tenant q)" "is_valid_tenant_id ''t''"
    by simp_all
  have c: "conv_counter mem_redis mem_init (''t'', ''a'') = Some 0" by code_simp
  have out: "fst (run_requests mem_redis ?qs mem_init) =
      [((''t'', ''a''), 1), ((''t'', ''b''), 1), ((''t'', ''a''), 8), ((''t'', ''a''), 9),
       ((''t'', ''a''), 10), ((''t'', ''a''), 11), ((''t'', ''a''), 12)]"
    by code_simp
  obtain r' where run: "run_requests mem_redis ?qs mem_init =
      (fst (run_requests mem_redis ?qs mem_init), r')"
    by (metis prod.collapse)
  have small: "\<forall>e \<in> set (fst (run_requests mem_redis ?qs mem_init)). snd e \<le> lua_exact_max"
    unfolding out by simp
  from requests_strictly_increasing [OF mem.redis_server_axioms valid c run small] out
  show ?thesis by simp
qed

text \<open>
  A floor-guarded allocation gives exactly what the reference \<open>seq_after_floor\<close> gives for the
  counter's value and the floor (so it is above both, and no number above a recovered floor is
  reused), stores it as the counter's value without expiry, and leaves every other key alone.
\<close>

theorem floor_allocation_reference:
  assumes "redis_server R" and "counter_value (r_get R r (build_redis_key t cv)) = Some c"
    and "c < lua_exact_max" and "floor < lua_exact_max" and "0 < floor"
  shows "\<exists>r'. allocate_seq_with_floor R cv t floor r = (Ok (seq_after_floor c floor), r')
     \<and> c < seq_after_floor c floor \<and> floor < seq_after_floor c floor
     \<and> counter_value (r_get R r' (build_redis_key t cv)) = Some (seq_after_floor c floor)
     \<and> r_pttl R r' (build_redis_key t cv) = None
     \<and> (\<forall>key'. key' \<noteq> build_redis_key t cv \<longrightarrow> r_get R r' key' = r_get R r key')"
proof -
  have "seq_after_floor c floor = max c floor + 1" "max c floor + 1 \<le> u64_max"
    using assms(3,4) by (simp_all add: seq_after_floor_def sat_add_u64_exact)
  with assms(2,5) show ?thesis
    using redis_server.get_set [OF assms(1)] redis_server.pttl_set [OF assms(1)]
    by (auto simp: allocate_seq_with_floor_def floor_seq_lua_def Let_def max_def counter_value_def
        parse_u64_to_decimal)
qed

theorem floor_allocation_reference_witness:
  "\<exists>r'. allocate_seq_with_floor mem_redis ''c'' ''t'' 41 mem_init = (Ok (seq_after_floor 0 41), r')"
proof -
  have "counter_value (r_get mem_redis mem_init (build_redis_key ''t'' ''c'')) = Some 0"
    by code_simp
  from floor_allocation_reference [OF mem.redis_server_axioms this, of 41] show ?thesis by auto
qed

text \<open>
  A batch allocation returns exactly the numbers that draining the allocated range one
  \<open>take_next\<close> at a time hands out, batch-size many, starting right above the counter.
\<close>

theorem batch_is_drained_range:
  assumes "redis_server R" and "0 < batch_size a"
    and "allocate_batch R a cv t r = (Ok ns, r')"
  shows "\<exists>c rng. counter_value (r_get R r (build_redis_key t cv)) = Some c
     \<and> allocate_batch_range R a (build_redis_key t cv) r = (Ok rng, r')
     \<and> ns = [c + 1 ..< c + batch_size a + 1] \<and> length ns = batch_size a
     \<and> drain (batch_size a) rng = ns \<and> take_next (range_new (c + batch_size a + 1) (sr_end rng))
         = (None, range_new (c + batch_size a + 1) (sr_end rng))"
proof -
  from redis_server.allocate_batch_Some(1) [OF assms(1,3,2)] obtain c where
    c: "counter_value (r_get R r (build_redis_key t cv)) = Some c"
      "ns = [c + 1 ..< c + batch_size a + 1]" by blast
  from assms(3) obtain v where
    i: "r_incrby R (build_redis_key t cv) (batch_size a) r = Some (v, r')"
    by (auto simp: allocate_batch_def allocate_batch_range_def Let_def split: option.splits)
  from redis_server.incrby_Some(1) [OF assms(1) i] redis_server.incrby_value [OF assms(1) i] c
  have v: "v = c + batch_size a" "v \<le> redis_int_max" by auto
  with i have "allocate_batch_range R a (build_redis_key t cv) r = (Ok (range_new (c + 1) v), r')"
    by (simp add: allocate_batch_range_def)
  moreover have "drain (batch_size a) (range_new (c + 1) v) = ns"
    using drain_eq [of "range_new (c + 1) v" "batch_size a"] v c(2) by (simp add: range_new_def)
  ultimately show ?thesis
    using c v(1) by (auto simp: take_next_def range_new_def)
qed

theorem batch_is_drained_range_witness:
  "\<exists>rng r'. allocate_batch_range mem_redis (allocator_new 3) (build_redis_key ''t'' ''c'') mem_init
     = (Ok rng, r') \<and> drain 3 rng = [1, 2, 3]"
proof -
  let ?a = "allocate_batch mem_redis (allocator_new 3) ''c'' ''t'' mem_init"
  have f: "fst ?a = Ok [1, 2, 3]" by code_simp
  have b: "batch_size (allocator_new 3) = 3" by (simp add: allocator_new_def)
  have "?a = (Ok [1, 2, 3], snd ?a)" by (metis f prod.collapse)
  from batch_is_drained_range [OF mem.redis_server_axioms _ this] b show ?thesis by auto
qed

end
