(* ===== verification/Leased_Allocator.thy ===== *)
theory Leased_Allocator
  imports Seq_Allocator
begin

text \<open>
  \<^verbatim>\<open>crates/flare-im-seq/src/leased_allocator.rs\<close>: the owner node of a conversation hands out numbers
  from a local segment; a Redis lease with a fencing token makes one node the owner at a time. The
  theory models the allocator, the Redis backend with its Lua script, and the system of any number of
  nodes with their own clocks, and shows that the numbers of a conversation are handed out once and,
  when the local margin covers the delay between reading the clock and handing out, in increasing
  order across all nodes.
\<close>

section \<open>Data\<close>

datatype lease_outcome = Granted nat nat nat | LeaseNotOwner

datatype seq_allocation = Allocated nat | NotOwner

record conv_state =
  segment :: sequence_range
  fencing_token :: nat
  local_valid_until_ms :: nat

record leased_cfg =
  node_id :: string
  segment_size :: nat
  lease_ttl_ms :: nat
  local_margin_ms :: nat

definition leased_new :: "string \<Rightarrow> nat \<Rightarrow> nat \<Rightarrow> nat \<Rightarrow> leased_cfg" where
  "leased_new node seg lease_ttl local_margin =
     (let ttl = max lease_ttl 1 in
      \<lparr>node_id = node, segment_size = max seg 1, lease_ttl_ms = ttl,
       local_margin_ms = min local_margin (ttl - 1)\<rparr>)"

type_synonym 'b lease_backend =
  "string \<Rightarrow> string \<Rightarrow> nat option \<Rightarrow> nat \<Rightarrow> nat \<Rightarrow> 'b \<Rightarrow> lease_outcome result \<times> 'b"

section \<open>The allocator\<close>

text \<open>
  \<^verbatim>\<open>LeasedSegmentAllocator::allocate\<close>. The clock is read first; the state lock is held for the rest,
  also across the backend call.
\<close>

definition fast_path :: "(string \<rightharpoonup> conv_state) \<Rightarrow> nat \<Rightarrow> string \<Rightarrow> (nat \<times> (string \<rightharpoonup> conv_state)) option" where
  "fast_path state now conv_key =
     (case state conv_key of
        None \<Rightarrow> None
      | Some cs \<Rightarrow>
          if now < local_valid_until_ms cs
          then (case take_next (segment cs) of
                  (None, _) \<Rightarrow> None
                | (Some seq, seg') \<Rightarrow> Some (seq, state(conv_key \<mapsto> cs\<lparr>segment := seg'\<rparr>)))
          else None)"

definition allocate ::
  "leased_cfg \<Rightarrow> 'b lease_backend \<Rightarrow> nat \<Rightarrow> string \<Rightarrow> (string \<rightharpoonup> conv_state) \<Rightarrow> 'b \<Rightarrow>
     seq_allocation result \<times> (string \<rightharpoonup> conv_state) \<times> 'b" where
  "allocate cfg backend now conv_key state b =
     (case fast_path state now conv_key of
        Some (seq, state') \<Rightarrow> (Ok (Allocated seq), state', b)
      | None \<Rightarrow>
          let expected_token = map_option fencing_token (state conv_key) in
          (case backend conv_key (node_id cfg) expected_token (lease_ttl_ms cfg) (segment_size cfg) b of
             (Inl e, b') \<Rightarrow> (Err e, state, b')
           | (Inr LeaseNotOwner, b') \<Rightarrow> (Ok NotOwner, state(conv_key := None), b')
           | (Inr (Granted token start end'), b') \<Rightarrow>
               (case take_next (range_new start end') of
                  (None, _) \<Rightarrow> (Ok NotOwner, state(conv_key := None), b')
                | (Some seq, seg') \<Rightarrow>
                    let valid_until = sat_add_u64 now (lease_ttl_ms cfg - local_margin_ms cfg) in
                    (Ok (Allocated seq),
                     state(conv_key \<mapsto> \<lparr>segment = seg', fencing_token = token,
                                       local_valid_until_ms = valid_until\<rparr>), b'))))"

section \<open>The Redis backend\<close>

text \<open>\<^verbatim>\<open>RedisSeqLeaseBackend::keys\<close>.\<close>

definition lease_key :: "string \<Rightarrow> string" where "lease_key conv_key = ''seqlease:'' @ conv_key"
definition fence_key :: "string \<Rightarrow> string" where "fence_key conv_key = ''seqfence:'' @ conv_key"
definition lease_seq_key :: "string \<Rightarrow> string" where "lease_seq_key conv_key = ''seq:'' @ conv_key"

text \<open>
  \<^verbatim>\<open>LEASE_REFILL_LUA\<close>. The reply is the returned integer array, or \<open>None\<close> when the script raises; a
  raised script keeps what it wrote before. \<open>string.find\<close> splits the lease at its first colon;
  \<open>tonumber\<close> of a value that is no decimal integer is \<open>nil\<close>, which ends the returned array early.
  Lua computes with doubles, exact below \<open>lua_exact_max\<close>, and prints a number appended to a string
  with fourteen digits: the definition is the script while the sequence counter stays below the first
  bound and the fencing counter below \<open>lua_print_max\<close> (\<open>within_lua\<close> below, a hypothesis of the properties).
\<close>

fun find_colon :: "string \<Rightarrow> (string \<times> string) option" where
  "find_colon [] = None"
| "find_colon (c # cs) =
     (if c = CHR '':'' then Some ([], cs)
      else map_option (\<lambda>(a, b). (c # a, b)) (find_colon cs))"

definition lease_refill_lua ::
  "'r redis_cmds \<Rightarrow> string \<Rightarrow> string \<Rightarrow> string \<Rightarrow> string \<Rightarrow> nat \<Rightarrow> nat \<Rightarrow> nat option \<Rightarrow> 'r \<Rightarrow>
     nat list option \<times> 'r" where
  "lease_refill_lua R lkey fkey skey node ttl_ms seg expected r =
     (case r_get R r lkey of
        Some lease \<Rightarrow>
          (case find_colon lease of
             None \<Rightarrow> (None, r)
           | Some (owner, rest) \<Rightarrow>
               let token = parse_u64 rest in
               if owner \<noteq> node then (Some [0, 0, 0, 0], r)
               else if (case expected of None \<Rightarrow> False | Some e \<Rightarrow> token \<noteq> Some e)
                 then (Some [0, 0, 0, 0], r)
               else let r1 = r_pexpire R lkey ttl_ms r in
                 (case r_incrby R skey seg r1 of
                    None \<Rightarrow> (None, r1)
                  | Some (endseq, r2) \<Rightarrow>
                      (case token of
                         None \<Rightarrow> (Some [1], r2)
                       | Some t \<Rightarrow> (Some [1, t, endseq - seg + 1, endseq], r2))))
      | None \<Rightarrow>
          (case r_incrby R fkey 1 r of
             None \<Rightarrow> (None, r)
           | Some (token, r1) \<Rightarrow>
               let r2 = r_set R lkey (node @ '':'' @ to_decimal token) (Some ttl_ms) r1 in
               (case r_incrby R skey seg r2 of
                  None \<Rightarrow> (None, r2)
                | Some (endseq, r3) \<Rightarrow> (Some [1, token, endseq - seg + 1, endseq], r3))))"

definition acquire_and_refill :: "'r redis_cmds \<Rightarrow> 'r lease_backend" where
  "acquire_and_refill R conv_key node expected_token lease_ttl seg r =
     (case lease_refill_lua R (lease_key conv_key) (fence_key conv_key) (lease_seq_key conv_key)
             node lease_ttl seg expected_token r of
        (None, r') \<Rightarrow> (Err (FlareError SystemError ''seq lease lua invoke failed''), r')
      | (Some [g, token, start, end'], r') \<Rightarrow>
          if g = 1 then (Ok (Granted token start end'), r') else (Ok LeaseNotOwner, r')
      | (Some _, r') \<Rightarrow> (Ok LeaseNotOwner, r'))"

section \<open>The system of nodes\<close>

text \<open>
  Global time, the server, each node's local table and the numbers handed out so far (newest first,
  each with its conversation key). Node \<open>n\<close> reads its monotonic clock as global time plus its own
  offset \<open>off n\<close>. An allocation reads the clock at some time \<open>t0\<close> at most \<open>delay\<close> before it takes
  effect: the wait for the table lock and for the server. \<open>cfg\<close> gives the nodes of the deployment.
\<close>

record 'r lease_sys =
  ls_redis :: 'r
  ls_time :: nat
  ls_nodes :: "string \<Rightarrow> (string \<rightharpoonup> conv_state)"
  ls_issued :: "(string \<times> nat) list"

fun record_issue :: "string \<Rightarrow> seq_allocation result \<Rightarrow> (string \<times> nat) list \<Rightarrow> (string \<times> nat) list" where
  "record_issue k (Inr (Allocated q)) out = (k, q) # out"
| "record_issue k _ out = out"

inductive lease_step ::
  "'r redis_cmds \<Rightarrow> (string \<rightharpoonup> leased_cfg) \<Rightarrow> (string \<Rightarrow> nat) \<Rightarrow> nat \<Rightarrow> 'r lease_sys \<Rightarrow> 'r lease_sys \<Rightarrow> bool"
  for R cfg off delay where
  time_passes: "lease_step R cfg off delay s
     (s\<lparr>ls_redis := r_elapse R d (ls_redis s), ls_time := ls_time s + d\<rparr>)"
| allocates: "cfg n = Some c \<Longrightarrow> t0 \<le> ls_time s \<Longrightarrow> ls_time s \<le> t0 + delay \<Longrightarrow>
     allocate c (acquire_and_refill R) (t0 + off n) k (ls_nodes s n) (ls_redis s)
       = (res, st', r') \<Longrightarrow>
     lease_step R cfg off delay s
       (s\<lparr>ls_redis := r', ls_nodes := (ls_nodes s)(n := st'),
          ls_issued := record_issue k res (ls_issued s)\<rparr>)"

inductive lease_reachable ::
  "'r redis_cmds \<Rightarrow> (string \<rightharpoonup> leased_cfg) \<Rightarrow> (string \<Rightarrow> nat) \<Rightarrow> nat \<Rightarrow> 'r \<Rightarrow> 'r lease_sys \<Rightarrow> bool"
  for R cfg off delay r0 where
  start: "lease_reachable R cfg off delay r0
     \<lparr>ls_redis = r0, ls_time = 0, ls_nodes = (\<lambda>_. Map.empty), ls_issued = []\<rparr>"
| step: "lease_reachable R cfg off delay r0 s \<Longrightarrow> lease_step R cfg off delay s s' \<Longrightarrow>
     lease_reachable R cfg off delay r0 s'"

inductive_cases lease_stepE: "lease_step R cfg off delay s s'"

definition issued_seqs :: "string \<Rightarrow> (string \<times> nat) list \<Rightarrow> nat list" where
  "issued_seqs k out = map snd (filter (\<lambda>e. fst e = k) out)"

lemma issued_seqs_simps [simp]:
  "issued_seqs k [] = []"
  "issued_seqs k (e # out) = (if fst e = k then snd e # issued_seqs k out else issued_seqs k out)"
  by (simp_all add: issued_seqs_def)

text \<open>
  A deployment: the allocators are built by \<open>leased_new\<close>, and node identifiers carry no colon (the
  script splits the lease value at its first colon).
\<close>

definition deployment_ok :: "(string \<rightharpoonup> leased_cfg) \<Rightarrow> bool" where
  "deployment_ok cfg \<longleftrightarrow> (\<forall>n c. cfg n = Some c \<longrightarrow>
     CHR '':'' \<notin> set n \<and> (\<exists>sz ttl margin. c = leased_new n sz ttl margin))"

text \<open>The server a deployment starts on: sequence and fencing counters are numbers kept without expiry.\<close>

definition counters_ok :: "'r redis_cmds \<Rightarrow> 'r \<Rightarrow> bool" where
  "counters_ok R r \<longleftrightarrow> (\<forall>k. r_pttl R r (lease_seq_key k) = None
     \<and> counter_value (r_get R r (lease_seq_key k)) \<noteq> None
     \<and> r_pttl R r (fence_key k) = None \<and> counter_value (r_get R r (fence_key k)) \<noteq> None)"

section \<open>Facts about the allocator and the script\<close>

lemma lease_keys_distinct [simp]:
  "lease_key k \<noteq> fence_key k'" "fence_key k \<noteq> lease_key k'"
  "lease_key k \<noteq> lease_seq_key k'" "lease_seq_key k \<noteq> lease_key k'"
  "fence_key k \<noteq> lease_seq_key k'" "lease_seq_key k \<noteq> fence_key k'"
  "lease_key k = lease_key k' \<longleftrightarrow> k = k'" "fence_key k = fence_key k' \<longleftrightarrow> k = k'"
  "lease_seq_key k = lease_seq_key k' \<longleftrightarrow> k = k'"
  by (simp_all add: lease_key_def fence_key_def lease_seq_key_def)

lemma lease_seq_key_build: "lease_seq_key (tenant @ '':'' @ conv) = build_redis_key tenant conv"
  by (simp add: lease_seq_key_def build_redis_key_def)

lemma find_colon_append: "CHR '':'' \<notin> set a \<Longrightarrow> find_colon (a @ CHR '':'' # b) = Some (a, b)"
  by (induction a) auto

lemma leased_new_facts:
  "node_id (leased_new n sz ttl m) = n" "0 < segment_size (leased_new n sz ttl m)"
  "0 < lease_ttl_ms (leased_new n sz ttl m)"
  "local_margin_ms (leased_new n sz ttl m) < lease_ttl_ms (leased_new n sz ttl m)"
  by (auto simp: leased_new_def Let_def)

text \<open>The owner named by the lease of a conversation, its remaining time, and its counter.\<close>

definition lease_owner :: "'r redis_cmds \<Rightarrow> 'r \<Rightarrow> string \<Rightarrow> string option" where
  "lease_owner R r k =
     (case r_get R r (lease_key k) of None \<Rightarrow> None | Some l \<Rightarrow> map_option fst (find_colon l))"

definition seq_counter :: "'r redis_cmds \<Rightarrow> 'r \<Rightarrow> string \<Rightarrow> nat option" where
  "seq_counter R r k = counter_value (r_get R r (lease_seq_key k))"

definition fence_counter :: "'r redis_cmds \<Rightarrow> 'r \<Rightarrow> string \<Rightarrow> nat option" where
  "fence_counter R r k = counter_value (r_get R r (fence_key k))"

text \<open>The counters of a conversation are in the range where the script is exact.\<close>

abbreviation lua_print_max :: nat where "lua_print_max \<equiv> 10 ^ 14"

definition within_lua :: "'r redis_cmds \<Rightarrow> 'r \<Rightarrow> string \<Rightarrow> bool" where
  "within_lua R r k \<longleftrightarrow> (case seq_counter R r k of Some c \<Rightarrow> c < lua_exact_max | None \<Rightarrow> False)
     \<and> (case fence_counter R r k of Some f \<Rightarrow> f < lua_print_max | None \<Rightarrow> False)"

abbreviation lease_script :: "'r redis_cmds \<Rightarrow> string \<Rightarrow> string \<Rightarrow> nat \<Rightarrow> nat \<Rightarrow> nat option \<Rightarrow> 'r \<Rightarrow>
    nat list option \<times> 'r" where
  "lease_script R k \<equiv> lease_refill_lua R (lease_key k) (fence_key k) (lease_seq_key k)"

lemma lease_owner_None: "r_get R r (lease_key k) = None \<Longrightarrow> lease_owner R r k = None"
  by (simp add: lease_owner_def)

context redis_server
begin

text \<open>A lease held by another node refuses and changes nothing.\<close>

lemma lease_script_other_owner:
  assumes "lease_owner R r k = Some n" "n \<noteq> m"
  shows "lease_script R k m ttl sz e r = (Some [0, 0, 0, 0], r)"
  using assms
  by (auto simp: lease_refill_lua_def lease_owner_def Let_def split: option.splits)

text \<open>The script touches its own three keys only, and never gives the counter a lifetime.\<close>

lemma lease_script_frame:
  assumes "lease_script R k m ttl sz e r = (res, r')" "0 < ttl"
  shows "k' \<noteq> k \<Longrightarrow> lease_owner R r' k' = lease_owner R r k'"
    and "k' \<noteq> k \<Longrightarrow> seq_counter R r' k' = seq_counter R r k'"
    and "k' \<noteq> k \<Longrightarrow> r_pttl R r' (lease_key k') = r_pttl R r (lease_key k')"
    and "r_pttl R r' (lease_seq_key k') = r_pttl R r (lease_seq_key k')"
  using assms
  by (auto simp: lease_refill_lua_def Let_def get_set pttl_set get_pexpire pttl_pexpire incrby_Some
      lease_owner_def seq_counter_def split: option.splits if_splits prod.splits)

text \<open>A grant: the next segment above the counter, and the lease is the caller's for its lifetime.\<close>

lemma incrby_segment:
  assumes "r_incrby R key sz r = Some (v, r')"
  shows "\<exists>c. counter_value (r_get R r key) = Some c \<and> v = c + sz
     \<and> counter_value (r_get R r' key) = Some (c + sz) \<and> c + sz \<le> redis_int_max"
  using incrby_Some(1) [OF assms] incrby_value [OF assms] by auto

lemma lease_script_granted:
  assumes "lease_script R k m ttl sz e r = (Some [1, tok, st, en], r')" "0 < ttl"
    and "CHR '':'' \<notin> set m"
  shows "\<exists>c. seq_counter R r k = Some c \<and> st = c + 1 \<and> en = c + sz
           \<and> seq_counter R r' k = Some en \<and> en \<le> redis_int_max"
    and "lease_owner R r' k = Some m" and "r_pttl R r' (lease_key k) = Some ttl"
proof -
  have "\<exists>r1. r_incrby R (lease_seq_key k) sz r1 = Some (en, r') \<and> st = en - sz + 1
      \<and> r_get R r1 (lease_seq_key k) = r_get R r (lease_seq_key k)"
    using assms(1,2)
    by (auto simp: lease_refill_lua_def Let_def split: option.splits if_splits prod.splits)
      (rule exI, rule conjI, assumption, simp add: get_set get_pexpire incrby_Some)+
  then obtain r1 where r1: "r_incrby R (lease_seq_key k) sz r1 = Some (en, r')"
    "st = en - sz + 1" "r_get R r1 (lease_seq_key k) = r_get R r (lease_seq_key k)" by blast
  from incrby_segment [OF r1(1)] r1(2,3)
  show "\<exists>c. seq_counter R r k = Some c \<and> st = c + 1 \<and> en = c + sz
           \<and> seq_counter R r' k = Some en \<and> en \<le> redis_int_max"
    by (auto simp: seq_counter_def)
  show "lease_owner R r' k = Some m" and "r_pttl R r' (lease_key k) = Some ttl"
    using assms
    by (auto simp: lease_refill_lua_def Let_def get_set pttl_set get_pexpire pttl_pexpire
        incrby_Some lease_owner_def find_colon_append
        split: option.splits if_splits prod.splits)
qed

text \<open>Every outcome keeps the counter or moves it up; a raised script keeps it.\<close>

lemma lease_script_counter:
  assumes "lease_script R k m ttl sz e r = (res, r')" "0 < ttl" "seq_counter R r k = Some c"
  shows "\<exists>c' \<ge> c. seq_counter R r' k = Some c'"
    and "res = None \<Longrightarrow> seq_counter R r' k = Some c"
proof -
  have inc: "\<exists>c' \<ge> c. seq_counter R r2 k = Some c'"
    if "r_incrby R (lease_seq_key k) sz r1 = Some (v, r2)"
      "r_get R r1 (lease_seq_key k) = r_get R r (lease_seq_key k)" for r1 r2 v
    using incrby_segment [OF that(1)] that(2) assms(3) by (auto simp: seq_counter_def)
  show "\<exists>c' \<ge> c. seq_counter R r' k = Some c'"
    using assms
    by (auto simp: lease_refill_lua_def Let_def split: option.splits if_splits prod.splits)
      ((rule inc, assumption, simp add: get_set get_pexpire incrby_Some)
        | (simp add: seq_counter_def get_set get_pexpire incrby_Some))+
  show "res = None \<Longrightarrow> seq_counter R r' k = Some c"
    using assms
    by (auto simp: lease_refill_lua_def Let_def get_set get_pexpire incrby_Some seq_counter_def
        split: option.splits if_splits prod.splits)
qed

text \<open>The same of the fencing counter.\<close>

lemma lease_script_fence:
  assumes "lease_script R k m ttl sz e r = (res, r')" "0 < ttl" "fence_counter R r k' = Some f"
  shows "\<exists>f' \<ge> f. fence_counter R r' k' = Some f'"
    and "r_pttl R r' (fence_key k') = r_pttl R r (fence_key k')"
proof -
  have "r_get R r' (fence_key k') = r_get R r (fence_key k')
      \<or> (\<exists>v r1. r_incrby R (fence_key k) 1 r = Some (v, r1) \<and> r_get R r' (fence_key k') = r_get R r1 (fence_key k'))"
    using assms(1,2)
    by (auto simp: lease_refill_lua_def Let_def get_set get_pexpire incrby_Some(2)
        split: option.splits if_splits prod.splits)
  then show "\<exists>f' \<ge> f. fence_counter R r' k' = Some f'"
  proof (elim disjE exE conjE)
    fix v r1 assume inc: "r_incrby R (fence_key k) 1 r = Some (v, r1)" "r_get R r' (fence_key k') = r_get R r1 (fence_key k')"
    from incrby_segment [OF inc(1)] incrby_Some(2) [OF inc(1), of "fence_key k'"] inc(2) assms(3) show ?thesis
      by (cases "k' = k") (auto simp: fence_counter_def)
  qed (use assms(3) in \<open>simp add: fence_counter_def\<close>)
  show "r_pttl R r' (fence_key k') = r_pttl R r (fence_key k')"
    using assms(1,2)
    by (auto simp: lease_refill_lua_def Let_def get_set pttl_set get_pexpire pttl_pexpire incrby_Some
        split: option.splits if_splits prod.splits)
qed

lemma lease_script_raised_own:
  assumes "lease_script R k m ttl sz e r = (None, r')" "0 < ttl" "lease_owner R r k = Some m"
  shows "lease_owner R r' k = Some m" and "r_pttl R r' (lease_key k) = Some ttl"
  using assms
  by (auto simp: lease_refill_lua_def Let_def get_pexpire pttl_pexpire lease_owner_def
      split: option.splits if_splits prod.splits)

lemma fast_path_Some:
  assumes "fast_path st now k = Some (q, st')"
    and "\<And>cs. st k = Some cs \<Longrightarrow> sr_end (segment cs) < u64_max"
  shows "\<exists>cs. st k = Some cs \<and> now < local_valid_until_ms cs
     \<and> sr_next (segment cs) \<le> sr_end (segment cs) \<and> q = sr_next (segment cs)
     \<and> st' = st(k \<mapsto> cs\<lparr>segment := \<lparr>sr_next = q + 1, sr_end = sr_end (segment cs)\<rparr>\<rparr>)"
  using assms
  by (fastforce simp: fast_path_def take_next_def sat_add_u64_exact
      split: option.splits if_splits prod.splits)

lemma acquire_and_refill_script:
  assumes "acquire_and_refill R k m e ttl sz r = (res, r')"
  shows "\<exists>reply. lease_script R k m ttl sz e r = (reply, r')
     \<and> (case res of Inl _ \<Rightarrow> reply = None
        | Inr (Granted tok st en) \<Rightarrow> reply = Some [1, tok, st, en]
        | Inr LeaseNotOwner \<Rightarrow> reply \<noteq> None)"
  using assms
  by (auto simp: acquire_and_refill_def split: prod.splits option.splits list.splits if_splits)

lemma allocate_frame:
  assumes "allocate cfg (acquire_and_refill R) now k st r = (res, st', r')" "0 < lease_ttl_ms cfg"
  shows "k' \<noteq> k \<Longrightarrow> lease_owner R r' k' = lease_owner R r k'"
    and "k' \<noteq> k \<Longrightarrow> seq_counter R r' k' = seq_counter R r k'"
    and "k' \<noteq> k \<Longrightarrow> r_pttl R r' (lease_key k') = r_pttl R r (lease_key k')"
    and "r_pttl R r' (lease_seq_key k') = r_pttl R r (lease_seq_key k')"
    and "k' \<noteq> k \<Longrightarrow> st' k' = st k'"
proof -
  have "r' = r \<or> (\<exists>e reply. lease_script R k (node_id cfg) (lease_ttl_ms cfg) (segment_size cfg) e r
      = (reply, r'))"
    using assms(1)
    by (auto simp: allocate_def Let_def split: option.splits prod.splits sum.splits
        lease_outcome.splits dest: acquire_and_refill_script)
  with lease_script_frame [OF _ assms(2)]
  show "k' \<noteq> k \<Longrightarrow> lease_owner R r' k' = lease_owner R r k'"
    and "k' \<noteq> k \<Longrightarrow> seq_counter R r' k' = seq_counter R r k'"
    and "k' \<noteq> k \<Longrightarrow> r_pttl R r' (lease_key k') = r_pttl R r (lease_key k')"
    and "r_pttl R r' (lease_seq_key k') = r_pttl R r (lease_seq_key k')"
    by metis+
  show "k' \<noteq> k \<Longrightarrow> st' k' = st k'"
    using assms(1)
    by (auto simp: allocate_def fast_path_def Let_def split: option.splits prod.splits sum.splits
        lease_outcome.splits if_splits)
qed

lemma allocate_cases [consumes 6, case_names fast grant refuse fail]:
  assumes alloc: "allocate cfg (acquire_and_refill R) now k st r = (res, st', r')"
    and cfg: "CHR '':'' \<notin> set (node_id cfg)" "0 < lease_ttl_ms cfg" "0 < segment_size cfg"
    and bound: "\<forall>cs. st k = Some cs \<longrightarrow> sr_end (segment cs) < u64_max"
    and cnt: "seq_counter R r k = Some c"
  obtains
    (fast) cs where "st k = Some cs" "now < local_valid_until_ms cs"
      "sr_next (segment cs) \<le> sr_end (segment cs)"
      "res = Ok (Allocated (sr_next (segment cs)))"
      "st' = st(k \<mapsto> cs\<lparr>segment := \<lparr>sr_next = sr_next (segment cs) + 1,
                                      sr_end = sr_end (segment cs)\<rparr>\<rparr>)"
      "r' = r"
  | (grant) tok where "res = Ok (Allocated (c + 1))"
      "st' = st(k \<mapsto> \<lparr>segment = \<lparr>sr_next = c + 2, sr_end = c + segment_size cfg\<rparr>,
         fencing_token = tok,
         local_valid_until_ms = sat_add_u64 now (lease_ttl_ms cfg - local_margin_ms cfg)\<rparr>)"
      "seq_counter R r' k = Some (c + segment_size cfg)" "c + segment_size cfg \<le> redis_int_max"
      "lease_owner R r' k = Some (node_id cfg)" "r_pttl R r' (lease_key k) = Some (lease_ttl_ms cfg)"
      "\<forall>n. lease_owner R r k = Some n \<longrightarrow> n = node_id cfg"
  | (refuse) c' where "res = Ok NotOwner" "st' = st(k := None)" "seq_counter R r' k = Some c'"
      "c \<le> c'" "\<forall>n. lease_owner R r k = Some n \<longrightarrow> n \<noteq> node_id cfg \<longrightarrow> r' = r"
  | (fail) e where "res = Err e" "st' = st" "seq_counter R r' k = Some c"
      "\<forall>n. lease_owner R r k = Some n \<longrightarrow> n \<noteq> node_id cfg \<longrightarrow> r' = r"
      "lease_owner R r k = Some (node_id cfg) \<longrightarrow>
         lease_owner R r' k = Some (node_id cfg) \<and> r_pttl R r' (lease_key k) = Some (lease_ttl_ms cfg)"
proof (cases "fast_path st now k")
  case (Some p)
  then obtain q st1 where p: "fast_path st now k = Some (q, st1)" by (cases p) auto
  then have eq: "res = Ok (Allocated q)" "st' = st1" "r' = r" using alloc by (simp_all add: allocate_def)
  from fast_path_Some [OF p] bound eq show ?thesis using fast by blast
next
  case None
  let ?e = "map_option fencing_token (st k)"
  obtain out r1 where b: "acquire_and_refill R k (node_id cfg) ?e (lease_ttl_ms cfg)
      (segment_size cfg) r = (out, r1)" by fastforce
  from acquire_and_refill_script [OF b] obtain reply where
    sc: "lease_script R k (node_id cfg) (lease_ttl_ms cfg) (segment_size cfg) ?e r = (reply, r1)"
    and reply: "case out of Inl _ \<Rightarrow> reply = None
        | Inr (Granted tok st en) \<Rightarrow> reply = Some [1, tok, st, en]
        | Inr LeaseNotOwner \<Rightarrow> reply \<noteq> None" by blast
  have other: "\<forall>n. lease_owner R r k = Some n \<longrightarrow> n \<noteq> node_id cfg \<longrightarrow> r1 = r"
    using sc lease_script_other_owner by fastforce
  show ?thesis
  proof (cases out)
    case (Inl e)
    with reply have "reply = None" by simp
    with sc lease_script_counter(2) [OF _ cfg(2) cnt] lease_script_raised_own [OF _ cfg(2)] other
      alloc None b Inl show ?thesis
      by (intro fail [of e]) (auto simp: allocate_def Let_def)
  next
    case (Inr o')
    show ?thesis
    proof (cases o')
      case LeaseNotOwner
      obtain c' where "c' \<ge> c" "seq_counter R r1 k = Some c'"
        using lease_script_counter(1) [OF sc cfg(2) cnt] by blast
      with LeaseNotOwner Inr alloc None b other show ?thesis
        by (intro refuse [of c']) (auto simp: allocate_def Let_def)
    next
      case (Granted tok st0 en)
      with Inr reply have "reply = Some [1, tok, st0, en]" by simp
      note g = lease_script_granted [OF sc [unfolded this] cfg(2,1)]
      from g(1) cnt have seg: "st0 = c + 1" "en = c + segment_size cfg"
        "seq_counter R r1 k = Some (c + segment_size cfg)" "c + segment_size cfg \<le> redis_int_max"
        by auto
      have "take_next (range_new st0 en) =
          (Some (c + 1), \<lparr>sr_next = c + 2, sr_end = c + segment_size cfg\<rparr>)"
        using seg cfg(3) by (simp add: take_next_def range_new_def sat_add_u64_exact)
      moreover have "\<forall>n. lease_owner R r k = Some n \<longrightarrow> n = node_id cfg"
        using sc lease_script_other_owner \<open>reply = _\<close> by fastforce
      ultimately show ?thesis
        using g(2,3) seg(3,4) alloc None b Inr Granted
        by (intro grant [of tok]) (auto simp: allocate_def Let_def)
    qed
  qed
qed

end


section \<open>Numbers are handed out once\<close>

text \<open>
  Segments held by the nodes are pairwise disjoint, disjoint from what was handed out, and below the
  counter. This needs no assumption on clocks or delays.
\<close>

definition remaining :: "conv_state option \<Rightarrow> nat set" where
  "remaining cs = (case cs of None \<Rightarrow> {} | Some cs \<Rightarrow> {sr_next (segment cs) .. sr_end (segment cs)})"

definition disjoint_use :: "nat \<Rightarrow> nat list \<Rightarrow> (string \<Rightarrow> nat set) \<Rightarrow> bool" where
  "disjoint_use c out held \<longleftrightarrow>
     distinct out \<and> (\<forall>q \<in> set out. q \<le> c) \<and>
     (\<forall>n. held n \<subseteq> {..c} \<and> held n \<inter> set out = {}) \<and>
     (\<forall>n n'. n \<noteq> n' \<longrightarrow> held n \<inter> held n' = {})"

lemma disjoint_use_take:
  assumes "disjoint_use c out held" "q \<in> held n" "h \<subseteq> held n - {q}"
  shows "disjoint_use c (q # out) (held(n := h))"
  using assms unfolding disjoint_use_def by (auto 0 3) blast+

lemma disjoint_use_grant:
  assumes "disjoint_use c out held" "c + 1 \<le> c'" "h \<subseteq> {c + 2 .. c'}"
  shows "disjoint_use c' ((c + 1) # out) (held(n := h))"
proof -
  have below: "\<forall>n. \<forall>x \<in> held n. x \<le> c" "\<forall>x \<in> set out. x \<le> c"
    using assms(1) by (auto simp: disjoint_use_def)
  have above: "\<forall>x \<in> h. c + 2 \<le> x \<and> x \<le> c'" using assms(3) by auto
  have "h \<inter> held m = {}" and "h \<inter> set out = {}" "c + 1 \<notin> h" "c + 1 \<notin> set out" "c + 1 \<notin> held m" for m
    using below above by fastforce+
  with assms(1,2) below above show ?thesis
    unfolding disjoint_use_def by (auto 0 3) blast
qed

lemma disjoint_use_mono:
  assumes "disjoint_use c out held" "c \<le> c'" "\<And>n. held' n \<subseteq> held n"
  shows "disjoint_use c' out held'"
proof -
  have "held' n \<inter> held' m = {}" if "n \<noteq> m" for n m
    using assms(1) assms(3) [of n] assms(3) [of m] that unfolding disjoint_use_def by blast
  moreover have "held' n \<subseteq> {..c'}" "held' n \<inter> set out = {}" for n
    using assms(1,2) assms(3) [of n] unfolding disjoint_use_def by (auto 0 3)
  ultimately show ?thesis
    using assms(1,2) unfolding disjoint_use_def by (auto intro: order_trans)
qed

definition unique_inv :: "'r redis_cmds \<Rightarrow> 'r lease_sys \<Rightarrow> string \<Rightarrow> bool" where
  "unique_inv R s k \<longleftrightarrow>
     r_pttl R (ls_redis s) (lease_seq_key k) = None \<and>
     (\<forall>n cs. ls_nodes s n k = Some cs \<longrightarrow> sr_end (segment cs) < u64_max) \<and>
     (\<exists>c. seq_counter R (ls_redis s) k = Some c \<and>
       disjoint_use c (issued_seqs k (ls_issued s)) (\<lambda>n. remaining (ls_nodes s n k)))"

lemma record_issue_other:
  "k' \<noteq> k \<Longrightarrow> issued_seqs k (record_issue k' res out) = issued_seqs k out"
  by (cases "(k', res, out)" rule: record_issue.cases) auto

text \<open>Both counters of a conversation grew, and neither expires.\<close>

definition grown :: "'r redis_cmds \<Rightarrow> 'r \<Rightarrow> 'r \<Rightarrow> string \<Rightarrow> bool" where
  "grown R r r' k \<longleftrightarrow> (\<exists>c c'. seq_counter R r k = Some c \<and> seq_counter R r' k = Some c' \<and> c \<le> c')
     \<and> (\<exists>f f'. fence_counter R r k = Some f \<and> fence_counter R r' k = Some f' \<and> f \<le> f')
     \<and> r_pttl R r' (lease_seq_key k) = None \<and> r_pttl R r' (fence_key k) = None"

locale leased_cluster = redis_server +
  fixes cfg :: "string \<rightharpoonup> leased_cfg" and off :: "string \<Rightarrow> nat" and delay :: nat
  assumes deployment: "deployment_ok cfg"
begin

lemma node_cfg:
  assumes "cfg n = Some c"
  shows "node_id c = n" "CHR '':'' \<notin> set (node_id c)" "0 < lease_ttl_ms c" "0 < segment_size c"
    "local_margin_ms c < lease_ttl_ms c"
proof -
  from assms deployment obtain sz ttl margin
    where "CHR '':'' \<notin> set n" "c = leased_new n sz ttl margin"
    unfolding deployment_ok_def by blast
  then show "node_id c = n" "CHR '':'' \<notin> set (node_id c)" "0 < lease_ttl_ms c"
    "0 < segment_size c" "local_margin_ms c < lease_ttl_ms c"
    by (simp_all add: leased_new_facts)
qed

lemma unique_inv_elapse:
  "unique_inv R s k \<Longrightarrow>
   unique_inv R (s\<lparr>ls_redis := r_elapse R d (ls_redis s), ls_time := ls_time s + d\<rparr>) k"
  by (simp add: unique_inv_def seq_counter_def get_elapse pttl_elapse)

lemma unique_inv_allocate:
  assumes inv: "unique_inv R s k" and n: "cfg n = Some c"
    and alloc: "allocate c (acquire_and_refill R) now k' (ls_nodes s n) (ls_redis s) = (res, st', r')"
  shows "unique_inv R (s\<lparr>ls_redis := r', ls_nodes := (ls_nodes s)(n := st'),
          ls_issued := record_issue k' res (ls_issued s)\<rparr>) k"
proof (cases "k' = k")
  case False
  have "((ls_nodes s)(n := st')) m k = ls_nodes s m k" for m
    using allocate_frame(5) [OF alloc node_cfg(3) [OF n]] False by auto
  then show ?thesis
    using inv allocate_frame(2,4) [OF alloc node_cfg(3) [OF n]] False
    by (simp add: unique_inv_def record_issue_other)
next
  case True
  let ?held = "\<lambda>n. remaining (ls_nodes s n k)"
  from inv obtain ctr where ctr: "seq_counter R (ls_redis s) k = Some ctr"
    and use: "disjoint_use ctr (issued_seqs k (ls_issued s)) ?held"
    and bound: "\<forall>n cs. ls_nodes s n k = Some cs \<longrightarrow> sr_end (segment cs) < u64_max"
    by (auto simp: unique_inv_def)
  have pttl: "r_pttl R r' (lease_seq_key k) = None"
    using inv allocate_frame(4) [OF alloc node_cfg(3) [OF n]] by (simp add: unique_inv_def)
  have held: "(\<lambda>m. remaining (((ls_nodes s)(n := st')) m k)) = ?held(n := remaining (st' k))"
    by (rule ext) simp
  have intro: ?thesis
    if "seq_counter R r' k = Some c'" "\<forall>cs. st' k = Some cs \<longrightarrow> sr_end (segment cs) < u64_max"
      "disjoint_use c' (issued_seqs k (record_issue k res (ls_issued s)))
         (?held(n := remaining (st' k)))" for c'
    using that bound pttl True held
    by (simp add: unique_inv_def fun_upd_def)
  from alloc [unfolded True] node_cfg(2-4) [OF n] spec [OF bound, of n] ctr show ?thesis
  proof (cases rule: allocate_cases)
    case (fast cs)
    from fast(3) have "sr_next (segment cs) \<in> ?held n"
      "remaining (st' k) \<subseteq> ?held n - {sr_next (segment cs)}"
      by (auto simp: remaining_def fast(1,5))
    from intro [of ctr] disjoint_use_take [OF use this] fast ctr bound show ?thesis by simp
  next
    case (grant tok)
    have "remaining (st' k) \<subseteq> {ctr + 2 .. ctr + segment_size c}"
      by (simp add: remaining_def grant(2))
    from intro disjoint_use_grant [OF use _ this, of n] node_cfg(4) [OF n] grant
    show ?thesis by simp
  next
    case (refuse c')
    have "remaining (st' k) = {}" by (simp add: remaining_def refuse(2))
    then have "disjoint_use c' (issued_seqs k (ls_issued s)) (?held(n := remaining (st' k)))"
      by (intro disjoint_use_mono [OF use refuse(4)]) auto
    with intro refuse show ?thesis by simp
  next
    case (fail e)
    have "?held(n := remaining (st' k)) = ?held" by (simp add: fail(2) fun_upd_idem)
    with intro use ctr bound fail show ?thesis by simp
  qed
qed

lemma unique_inv_step: "lease_step R cfg off delay s s' \<Longrightarrow> unique_inv R s k \<Longrightarrow> unique_inv R s' k"
  by (induction rule: lease_step.induct) (auto intro: unique_inv_elapse unique_inv_allocate)

lemma unique_inv_reachable:
  assumes "lease_reachable R cfg off delay r0 s" and "counters_ok R r0"
  shows "unique_inv R s k"
  using assms
proof (induction rule: lease_reachable.induct)
  case start
  then obtain c where "seq_counter R r0 k = Some c" "r_pttl R r0 (lease_seq_key k) = None"
    by (auto simp: counters_ok_def seq_counter_def)
  then show ?case by (simp add: unique_inv_def disjoint_use_def remaining_def)
next
  case (step s s')
  then show ?case by (blast intro: unique_inv_step)
qed

text \<open>
  Counters only grow: a run that ends within the exact range of the script was within it all along.
\<close>

lemma grown_trans:
  assumes "grown R r r1 k" "grown R r1 r2 k"
  shows "grown R r r2 k"
proof -
  from assms(1) obtain c c1 f f1 where 1: "seq_counter R r k = Some c" "seq_counter R r1 k = Some c1" "c \<le> c1"
    "fence_counter R r k = Some f" "fence_counter R r1 k = Some f1" "f \<le> f1" unfolding grown_def by blast
  with assms(2) obtain c2 f2 where 2: "seq_counter R r2 k = Some c2" "c1 \<le> c2" "fence_counter R r2 k = Some f2" "f1 \<le> f2"
    "r_pttl R r2 (lease_seq_key k) = None" "r_pttl R r2 (fence_key k) = None" unfolding grown_def by auto
  from 1(3,6) 2(2,4) have "c \<le> c2" "f \<le> f2" by simp_all
  with 1(1,4) 2(1,3,5,6) show ?thesis unfolding grown_def by blast
qed

lemma grown_script:
  assumes "lease_script R k' m ttl sz e r = (res, r')" "0 < ttl" "grown R r r k"
  shows "grown R r r' k"
proof -
  from assms(3) obtain c f where c: "seq_counter R r k = Some c" "fence_counter R r k = Some f" by (auto simp: grown_def)
  have "\<exists>c' \<ge> c. seq_counter R r' k = Some c'"
    using lease_script_counter(1) [OF assms(1,2)] lease_script_frame(2) [OF assms(1,2)] c(1)
    by (cases "k = k'") auto
  with c lease_script_fence [OF assms(1,2) c(2)] lease_script_frame(4) [OF assms(1,2), of k] assms(3)
  show ?thesis by (auto simp: grown_def)
qed

lemma grown_step:
  assumes "lease_step R cfg off delay s s'" "grown R (ls_redis s) (ls_redis s) k"
  shows "grown R (ls_redis s) (ls_redis s') k"
  using assms
proof (cases rule: lease_step.cases)
  case (time_passes d)
  with assms(2) show ?thesis
    by (auto simp: grown_def seq_counter_def fence_counter_def get_elapse pttl_elapse)
next
  case (allocates n c t0 k' res st' r')
  have "r' = ls_redis s \<or> (\<exists>e reply. lease_script R k' (node_id c) (lease_ttl_ms c) (segment_size c) e (ls_redis s)
      = (reply, r'))"
    using allocates(5)
    by (auto simp: allocate_def Let_def split: option.splits prod.splits sum.splits
        lease_outcome.splits dest: acquire_and_refill_script)
  with grown_script [OF _ node_cfg(3) [OF allocates(2)] assms(2)] assms(2) allocates(1) show ?thesis by auto
qed

lemma grown_start: "counters_ok R r0 \<Longrightarrow> grown R r0 r0 k"
  unfolding counters_ok_def grown_def seq_counter_def fence_counter_def by (metis not_None_eq order_refl)

lemma grown_reachable:
  assumes "lease_reachable R cfg off delay r0 s" "counters_ok R r0"
  shows "grown R r0 (ls_redis s) k"
  using assms
proof (induction rule: lease_reachable.induct)
  case (step s s')
  then have "grown R r0 (ls_redis s) k" by blast
  then have "grown R (ls_redis s) (ls_redis s) k" by (auto simp: grown_def)
  from grown_trans [OF \<open>grown R r0 (ls_redis s) k\<close> grown_step [OF step.hyps(2) this]] show ?case .
qed (simp add: grown_start)

lemma within_lua_before:
  assumes "lease_reachable R cfg off delay r0 s" "counters_ok R r0" "lease_step R cfg off delay s s'"
    and "within_lua R (ls_redis s') k"
  shows "within_lua R (ls_redis s) k"
proof -
  have "grown R (ls_redis s) (ls_redis s) k" using grown_reachable [OF assms(1,2), of k] by (auto simp: grown_def)
  from grown_step [OF assms(3) this] assms(4) show ?thesis by (auto simp: grown_def within_lua_def)
qed

lemma issued_distinct:
  assumes "lease_reachable R cfg off delay r0 s" and "counters_ok R r0"
  shows "distinct (issued_seqs k (ls_issued s))"
  using unique_inv_reachable [OF assms] by (auto simp: unique_inv_def disjoint_use_def)

end

section \<open>Numbers are handed out in order\<close>

text \<open>
  A node whose cached segment may still serve an allocation (one whose clock reading is at most
  \<open>delay\<close> old) holds the lease, the lease outlives that possibility, and the next number of its
  segment is above everything handed out. Every cached validity ends a margin before the lifetime
  counted from now.
\<close>

definition may_serve :: "(string \<Rightarrow> nat) \<Rightarrow> nat \<Rightarrow> 'r lease_sys \<Rightarrow> string \<Rightarrow> conv_state \<Rightarrow> bool" where
  "may_serve off delay s n cs \<longleftrightarrow> ls_time s + off n < local_valid_until_ms cs + delay"

definition served_by_owner ::
  "'r redis_cmds \<Rightarrow> (string \<Rightarrow> nat) \<Rightarrow> nat \<Rightarrow> 'r lease_sys \<Rightarrow> string \<Rightarrow> string \<Rightarrow> conv_state \<Rightarrow> bool" where
  "served_by_owner R off delay s k n cs \<longleftrightarrow>
     lease_owner R (ls_redis s) k = Some n \<and>
     (\<exists>rem. r_pttl R (ls_redis s) (lease_key k) = Some rem
        \<and> local_valid_until_ms cs + delay \<le> ls_time s + off n + rem) \<and>
     (\<forall>q \<in> set (issued_seqs k (ls_issued s)). q < sr_next (segment cs))"

definition order_inv ::
  "'r redis_cmds \<Rightarrow> (string \<rightharpoonup> leased_cfg) \<Rightarrow> (string \<Rightarrow> nat) \<Rightarrow> nat \<Rightarrow> 'r lease_sys \<Rightarrow> string \<Rightarrow> bool" where
  "order_inv R cfg off delay s k \<longleftrightarrow>
     sorted_wrt (>) (issued_seqs k (ls_issued s)) \<and>
     (\<forall>n cs. ls_nodes s n k = Some cs \<longrightarrow>
        (\<exists>c. cfg n = Some c \<and>
           local_valid_until_ms cs + local_margin_ms c \<le> ls_time s + off n + lease_ttl_ms c) \<and>
        (may_serve off delay s n cs \<longrightarrow> served_by_owner R off delay s k n cs))"

locale punctual_cluster = leased_cluster +
  assumes margin: "cfg n = Some c \<Longrightarrow> delay \<le> local_margin_ms c"
begin

lemma order_inv_elapse:
  assumes "order_inv R cfg off delay s k"
  shows "order_inv R cfg off delay
    (s\<lparr>ls_redis := r_elapse R d (ls_redis s), ls_time := ls_time s + d\<rparr>) k" (is "order_inv R cfg off delay ?s k")
proof -
  have "served_by_owner R off delay ?s k n cs"
    if "ls_nodes s n k = Some cs" "may_serve off delay ?s n cs" for n cs
  proof -
    from that(2) have "may_serve off delay s n cs" by (simp add: may_serve_def)
    with assms that(1) obtain rem where
      o: "lease_owner R (ls_redis s) k = Some n"
        "r_pttl R (ls_redis s) (lease_key k) = Some rem"
        "local_valid_until_ms cs + delay \<le> ls_time s + off n + rem"
        "\<forall>q \<in> set (issued_seqs k (ls_issued s)). q < sr_next (segment cs)"
      unfolding order_inv_def served_by_owner_def by blast
    with that(2) have "d < rem" by (simp add: may_serve_def)
    with o show ?thesis
      by (simp add: served_by_owner_def lease_owner_def get_elapse pttl_elapse)
  qed
  moreover have "\<exists>c. cfg n = Some c \<and>
      local_valid_until_ms cs + local_margin_ms c \<le> ls_time s + d + off n + lease_ttl_ms c"
    if "ls_nodes s n k = Some cs" for n cs
    using assms that unfolding order_inv_def by fastforce
  ultimately show ?thesis
    using assms by (simp add: order_inv_def)
qed

lemma order_inv_allocate:
  assumes inv: "order_inv R cfg off delay s k" and uniq: "unique_inv R s k"
    and n: "cfg n = Some c" and t0: "t0 \<le> ls_time s" "ls_time s \<le> t0 + delay"
    and alloc: "allocate c (acquire_and_refill R) (t0 + off n) k' (ls_nodes s n) (ls_redis s)
      = (res, st', r')"
  shows "order_inv R cfg off delay (s\<lparr>ls_redis := r', ls_nodes := (ls_nodes s)(n := st'),
          ls_issued := record_issue k' res (ls_issued s)\<rparr>) k" (is "order_inv R cfg off delay ?s k")
proof (cases "k' = k")
  case False
  have "ls_nodes ?s m k = ls_nodes s m k" for m
    using allocate_frame(5) [OF alloc node_cfg(3) [OF n]] False by auto
  then show ?thesis
    using inv allocate_frame(1,3) [OF alloc node_cfg(3) [OF n], of k] False
    by (simp add: order_inv_def served_by_owner_def may_serve_def record_issue_other)
next
  case True
  from uniq obtain ctr where ctr: "seq_counter R (ls_redis s) k = Some ctr"
    and below: "\<forall>q \<in> set (issued_seqs k (ls_issued s)). q \<le> ctr"
    and bound: "\<forall>n cs. ls_nodes s n k = Some cs \<longrightarrow> sr_end (segment cs) < u64_max"
    by (auto simp: unique_inv_def disjoint_use_def)
  have sorted: "sorted_wrt (>) (issued_seqs k (ls_issued s))"
    and valid: "\<And>m cs. ls_nodes s m k = Some cs \<Longrightarrow> \<exists>c. cfg m = Some c \<and>
           local_valid_until_ms cs + local_margin_ms c \<le> ls_time s + off m + lease_ttl_ms c"
    and served: "\<And>m cs. ls_nodes s m k = Some cs \<Longrightarrow> may_serve off delay s m cs \<Longrightarrow>
           served_by_owner R off delay s k m cs"
    using inv by (auto simp: order_inv_def)
  have intro: ?thesis
    if "sorted_wrt (>) (issued_seqs k (ls_issued ?s))"
      "\<And>cs. st' k = Some cs \<Longrightarrow>
         local_valid_until_ms cs + local_margin_ms c \<le> ls_time s + off n + lease_ttl_ms c"
      "\<And>cs. st' k = Some cs \<Longrightarrow> may_serve off delay s n cs \<Longrightarrow> served_by_owner R off delay ?s k n cs"
      "\<And>m cs. m \<noteq> n \<Longrightarrow> served_by_owner R off delay s k m cs \<Longrightarrow> served_by_owner R off delay ?s k m cs"
    using that valid served n unfolding order_inv_def by (auto simp: may_serve_def)
  from alloc [unfolded True] node_cfg(2-4) [OF n] spec [OF bound, of n] ctr show ?thesis
  proof (cases rule: allocate_cases)
    case (fast cs)
    then have "may_serve off delay s n cs" using t0 by (simp add: may_serve_def)
    with fast(1) have own: "served_by_owner R off delay s k n cs" by (rule served)
    show ?thesis
      using own valid [OF fast(1)] n fast sorted True
      by (intro intro) (auto simp: served_by_owner_def may_serve_def)
  next
    case (grant tok)
    have "sat_add_u64 (t0 + off n) (lease_ttl_ms c - local_margin_ms c) + local_margin_ms c
        \<le> t0 + off n + lease_ttl_ms c"
      using node_cfg(5) [OF n] by (simp add: sat_add_u64_def)
    moreover have "q < ctr + 1" "q < ctr + 2" if "q \<in> set (issued_seqs k (ls_issued s))" for q
      using that below by force+
    ultimately show ?thesis
      using grant sorted True t0 margin [OF n] node_cfg(1) [OF n]
      by (intro intro) (auto simp: served_by_owner_def)
  next
    case (refuse c')
    then show ?thesis
      using sorted True node_cfg(1) [OF n] by (intro intro) (auto simp: served_by_owner_def)
  next
    case (fail e)
    then show ?thesis
      using sorted True node_cfg(1) [OF n] valid served n margin [OF n]
      by (intro intro) (fastforce simp: served_by_owner_def)+
  qed
qed

lemma order_inv_reachable:
  assumes "lease_reachable R cfg off delay r0 s" and "counters_ok R r0"
  shows "order_inv R cfg off delay s k"
  using assms
proof (induction rule: lease_reachable.induct)
  case start
  then show ?case by (simp add: order_inv_def)
next
  case (step s s')
  have "unique_inv R s k" using step unique_inv_reachable by blast
  with step show ?case
    by (auto elim!: lease_stepE intro: order_inv_elapse order_inv_allocate)
qed

lemma issued_in_order:
  assumes "lease_reachable R cfg off delay r0 s" and "counters_ok R r0"
  shows "sorted_wrt (>) (issued_seqs k (ls_issued s))"
  using order_inv_reachable [OF assms] by (auto simp: order_inv_def)

end

section \<open>Deployments on the reference server\<close>

text \<open>
  The allocators of a cluster, each built by \<open>leased_new\<close> from its segment size, lifetime and margin;
  \<open>deploy_punctual\<close> takes the nodes whose margin covers the delay.
\<close>

definition deploy :: "(string \<rightharpoonup> nat \<times> nat \<times> nat) \<Rightarrow> string \<rightharpoonup> leased_cfg" where
  "deploy specs n = (if CHR '':'' \<in> set n then None
     else map_option (\<lambda>(sz, ttl, m). leased_new n sz ttl m) (specs n))"

definition deploy_punctual :: "nat \<Rightarrow> (string \<rightharpoonup> nat \<times> nat \<times> nat) \<Rightarrow> string \<rightharpoonup> leased_cfg" where
  "deploy_punctual delay specs n =
     (case deploy specs n of Some c \<Rightarrow> if delay \<le> local_margin_ms c then Some c else None | None \<Rightarrow> None)"

lemma deployment_ok_deploy: "deployment_ok (deploy specs)" "deployment_ok (deploy_punctual delay specs)"
  by (auto simp: deployment_ok_def deploy_def deploy_punctual_def split: if_splits option.splits)

lemma deploy_punctual_margin: "deploy_punctual delay specs n = Some c \<Longrightarrow> delay \<le> local_margin_ms c"
  by (auto simp: deploy_punctual_def split: if_splits option.splits)

interpretation lc: leased_cluster mem_redis "deploy specs" off delay for specs off delay
  by unfold_locales (rule deployment_ok_deploy)

interpretation pc: punctual_cluster mem_redis "deploy_punctual delay specs" off delay for specs off delay
  by unfold_locales (auto intro: deployment_ok_deploy deploy_punctual_margin)

text \<open>The allocation step as a function, to run the system on concrete inputs.\<close>

definition lease_do ::
  "'r redis_cmds \<Rightarrow> (string \<rightharpoonup> leased_cfg) \<Rightarrow> (string \<Rightarrow> nat) \<Rightarrow> string \<Rightarrow> string \<Rightarrow> 'r lease_sys \<Rightarrow> 'r lease_sys" where
  "lease_do R cfg off n k s =
     (case cfg n of None \<Rightarrow> s | Some c \<Rightarrow>
        (case allocate c (acquire_and_refill R) (ls_time s + off n) k (ls_nodes s n) (ls_redis s) of
           (res, st', r') \<Rightarrow> s\<lparr>ls_redis := r', ls_nodes := (ls_nodes s)(n := st'),
              ls_issued := record_issue k res (ls_issued s)\<rparr>))"

definition lease_wait :: "'r redis_cmds \<Rightarrow> nat \<Rightarrow> 'r lease_sys \<Rightarrow> 'r lease_sys" where
  "lease_wait R d s = s\<lparr>ls_redis := r_elapse R d (ls_redis s), ls_time := ls_time s + d\<rparr>"

definition lease_start :: "'r \<Rightarrow> 'r lease_sys" where
  "lease_start r0 = \<lparr>ls_redis = r0, ls_time = 0, ls_nodes = (\<lambda>_. Map.empty), ls_issued = []\<rparr>"

lemma lease_runs [intro]:
  "lease_reachable R cfg off delay r0 (lease_start r0)"
  "lease_reachable R cfg off delay r0 s \<Longrightarrow> lease_reachable R cfg off delay r0 (lease_wait R d s)"
  "lease_reachable R cfg off delay r0 s \<Longrightarrow> lease_reachable R cfg off delay r0 (lease_do R cfg off n k s)"
  unfolding lease_start_def lease_wait_def lease_do_def
  by (auto intro: lease_reachable.start lease_reachable.step [OF _ time_passes]
      lease_reachable.step [OF _ allocates] split: option.splits prod.splits)

lemma counters_ok_mem_init: "counters_ok mem_redis mem_init"
  by (simp add: counters_ok_def mem_defs mem_init_def counter_value_def)

text \<open>
  Two nodes take turns on one conversation: the first serves two numbers of its segment, the second
  is refused while the lease runs, and takes over after it has run out.
\<close>

definition two_nodes :: "string \<rightharpoonup> leased_cfg" where
  "two_nodes = deploy [''a'' \<mapsto> (5, 100, 20), ''b'' \<mapsto> (5, 100, 20)]"

definition handover :: "mem_state lease_sys" where
  "handover =
     (let go = lease_do mem_redis two_nodes (\<lambda>_. 0); k = ''t:c'' in
      go ''b'' k (lease_wait mem_redis 100 (go ''b'' k (go ''a'' k (go ''a'' k (lease_start mem_init))))))"

lemma two_nodes_ok: "deployment_ok two_nodes" "two_nodes n = Some c \<Longrightarrow> 20 \<le> local_margin_ms c"
  by (auto simp: two_nodes_def deployment_ok_deploy deploy_def leased_new_def Let_def
      split: if_splits)

lemma handover_reachable: "lease_reachable mem_redis two_nodes (\<lambda>_. 0) 20 mem_init handover"
  unfolding handover_def Let_def by (intro lease_runs)

lemma handover_issued: "issued_seqs ''t:c'' (ls_issued handover) = [6, 2, 1]"
  by code_simp

lemma handover_within: "within_lua mem_redis (ls_redis handover) ''t:c''"
  by code_simp

section \<open>Properties\<close>

text \<open>
  C6: across any number of nodes, with any clock offsets, delays and lease expiries, no sequence
  number of a conversation is handed out twice, as long as its counter stays below \<open>2^53\<close> and its
  fencing counter below \<open>10^14\<close>, where the numbers of the Lua script are exact.
\<close>

theorem leased_numbers_unique:
  assumes "redis_server R" and "deployment_ok cfg" and "counters_ok R r0"
    and "lease_reachable R cfg off delay r0 s" and "within_lua R (ls_redis s) k"
  shows "distinct (issued_seqs k (ls_issued s))"
proof -
  have "leased_cluster R cfg"
    using assms(1,2) by (simp add: leased_cluster_def leased_cluster_axioms_def)
  from leased_cluster.issued_distinct [OF this assms(4,3)] show ?thesis .
qed

theorem leased_numbers_unique_witness: "distinct (issued_seqs ''t:c'' (ls_issued handover))"
  by (rule leased_numbers_unique [OF mem.redis_server_axioms two_nodes_ok(1) counters_ok_mem_init
        handover_reachable handover_within])

text \<open>
  C7: when the local margin of every node covers the delay between reading its clock and handing out
  a number, the numbers of a conversation are handed out in strictly increasing order across all
  nodes: a node whose lease has run out never serves a number after its successor started. As before
  this is while the counters are in the range where the numbers of the Lua script are exact.
\<close>

theorem leased_numbers_in_order:
  assumes "redis_server R" and "deployment_ok cfg" and "counters_ok R r0"
    and "\<forall>n c. cfg n = Some c \<longrightarrow> delay \<le> local_margin_ms c"
    and "lease_reachable R cfg off delay r0 s" and "within_lua R (ls_redis s) k"
  shows "sorted_wrt (>) (issued_seqs k (ls_issued s))"
proof -
  have "punctual_cluster R cfg delay"
    using assms(1,2,4)
    by (simp add: punctual_cluster_def leased_cluster_def leased_cluster_axioms_def
        punctual_cluster_axioms_def)
  from punctual_cluster.issued_in_order [OF this assms(5,3)] show ?thesis .
qed

theorem leased_numbers_in_order_witness:
  "sorted_wrt (>) (issued_seqs ''t:c'' (ls_issued handover))
   \<and> issued_seqs ''t:c'' (ls_issued handover) = [6, 2, 1]"
  using leased_numbers_in_order [OF mem.redis_server_axioms two_nodes_ok(1) counters_ok_mem_init
      _ handover_reachable handover_within] two_nodes_ok(2) handover_issued by blast

end
