(* ===== verification/Message_Model.thy ===== *)
theory Message_Model
  imports Tenant_Contract
begin

text \<open>
  The message as the ingest pipeline sees it: the fields of the protocol message that the modelled
  code reads or writes, the conversation types of
  \<^verbatim>\<open>crates/flare-im-message-pipeline/src/model/mod.rs\<close>, and of \<^verbatim>\<open>flare-message-ingest/src/domain\<close> the
  enums (\<^verbatim>\<open>enums/\<close>), the type inference (\<^verbatim>\<open>model/message_kind.rs\<close>), the preparation of a submission
  (\<^verbatim>\<open>model/message_submission.rs\<close>) and the ledger look-back policy (\<^verbatim>\<open>model/ledger_lookback.rs\<close>).
  Byte strings are \<open>char\<close> lists, like text; the field \<open>m_message_type\<close> holds the enum value whose
  number the code stores.
\<close>

section \<open>Enums\<close>

datatype message_category = Temporary | Notification | Operation | Normal

fun category_needs_persistence :: "message_category \<Rightarrow> bool" where
  "category_needs_persistence Temporary = False"
| "category_needs_persistence Notification = False"
| "category_needs_persistence Operation = True"
| "category_needs_persistence Normal = True"

fun category_needs_wal :: "message_category \<Rightarrow> bool" where
  "category_needs_wal Temporary = False"
| "category_needs_wal Notification = False"
| "category_needs_wal Operation = True"
| "category_needs_wal Normal = True"

datatype persistence_mode = Auto | ForcePersistence | ForcePushOnly

fun should_push_only :: "persistence_mode \<Rightarrow> bool \<Rightarrow> bool" where
  "should_push_only Auto is_temporary = is_temporary"
| "should_push_only ForcePersistence is_temporary = False"
| "should_push_only ForcePushOnly is_temporary = True"

datatype message_fsm_state = Init | Sent | Edited | Recalled | DeletedHard | DeletedSoft

fun fsm_as_str :: "message_fsm_state \<Rightarrow> string" where
  "fsm_as_str Init = ''INIT''"
| "fsm_as_str Sent = ''SENT''"
| "fsm_as_str Edited = ''EDITED''"
| "fsm_as_str Recalled = ''RECALLED''"
| "fsm_as_str DeletedHard = ''DELETED_HARD''"
| "fsm_as_str DeletedSoft = ''DELETED_SOFT''"

definition fsm_parse_db_value :: "string \<Rightarrow> string + message_fsm_state" where
  "fsm_parse_db_value s =
     (if s = ''INIT'' then Inr Init
      else if s = ''SENT'' then Inr Sent
      else if s = ''EDITED'' then Inr Edited
      else if s = ''RECALLED'' then Inr Recalled
      else if s = ''DELETED_HARD'' then Inr DeletedHard
      else if s = ''DELETED_SOFT'' then Inr DeletedSoft
      else Inl (''Invalid message FSM state: '' @ s))"

definition is_terminal :: "message_fsm_state \<Rightarrow> bool" where
  "is_terminal s \<longleftrightarrow> s \<in> {Recalled, DeletedHard}"

definition can_edit :: "message_fsm_state \<Rightarrow> bool" where
  "can_edit s \<longleftrightarrow> s \<in> {Sent, Edited}"

definition can_recall :: "message_fsm_state \<Rightarrow> bool" where
  "can_recall s \<longleftrightarrow> s \<in> {Sent, Edited}"

definition can_delete_hard :: "message_fsm_state \<Rightarrow> bool" where
  "can_delete_hard s \<longleftrightarrow> s \<in> {Sent, Edited}"

definition can_delete_soft :: "message_fsm_state \<Rightarrow> bool" where
  "can_delete_soft s \<longleftrightarrow> s \<in> {Sent, Edited, Recalled}"

datatype conversation_type =
    CtUnspecified | Single | Group | Ai | System | Customer | Temp | Channel | Broadcast

definition conversation_type_from_proto :: "int \<Rightarrow> conversation_type" where
  "conversation_type_from_proto v =
     (if v = 1 then Single else if v = 2 then Group else if v = 3 then Ai else if v = 4 then System
      else if v = 5 then Customer else if v = 6 then Temp else if v = 7 then Channel
      else if v = 8 then Broadcast else CtUnspecified)"

fun conversation_type_as_int :: "conversation_type \<Rightarrow> int" where
  "conversation_type_as_int CtUnspecified = 0"
| "conversation_type_as_int Single = 1"
| "conversation_type_as_int Group = 2"
| "conversation_type_as_int Ai = 3"
| "conversation_type_as_int System = 4"
| "conversation_type_as_int Customer = 5"
| "conversation_type_as_int Temp = 6"
| "conversation_type_as_int Channel = 7"
| "conversation_type_as_int Broadcast = 8"

definition needs_member_lookup :: "conversation_type \<Rightarrow> bool" where
  "needs_member_lookup t \<longleftrightarrow> t \<in> {Group, Ai, Customer, System, Channel, Broadcast}"

datatype send_ack_durability_level =
    Unspecified | TransientAccepted | WalAccepted | BrokerAccepted | Persisted

section \<open>The message\<close>

datatype message_type =
    MtUnspecified | MtText | MtImage | MtVideo | MtAudio | MtFile | MtLocation | MtCard | MtCustom
  | MtSticker | MtEmoji | MtSystem | MtNotification | MtForward | MtLinkCard | MtAppCard
  | MtRichText | MtImageGroup | MtQuote | MtPlaceholder | MtOther int

record app_card =
  card_app_id :: string
  card_type :: string
  card_payload_schema :: string
  card_title :: string
  card_summary :: string
  card_payload :: string
  card_subtitle :: string
  card_thumbnail_url :: string
  card_actions :: "string list"
  card_attributes :: "string \<rightharpoonup> string"

text \<open>
  The content variants the code names; \<open>OtherContent\<close> stands for the remaining ones, as \<open>MtOther\<close> does
  for message type numbers the code does not name. Payloads no modelled code looks into are one
  opaque byte string; a system content has its event kind, body, attributes and payload.
\<close>

datatype content =
    Text string | Image string | Video string | Audio string | File string | Location string
  | Card string | NotificationContent bool string | Custom string string | Forward string
  | Thread string | LinkCard string | AppCard app_card | RichText string | ImageGroup string
  | Sticker string | Emoji string | Quote string | Placeholder string
  | SystemContent string string "string \<rightharpoonup> string" string | OtherContent string

text \<open>
  The retention mode: the variants the code names, the protocol's other variants, and numbers that are none.
\<close>

datatype retention_mode =
    RetentionUnspecified | RetentionNone | RetentionAfterRead | RetentionVariant int | RetentionUnknown int

record retention_policy =
  rp_mode :: retention_mode
  rp_trigger_after_read :: bool
  rp_expire_after_seconds :: "int option"
  rp_expire_at :: "int option"
  rp_visibility_redacted :: bool
  rp_attributes :: "string \<rightharpoonup> string"

datatype retention_lifecycle =
    LifecycleUnspecified | LifecycleNone | LifecycleActive | LifecycleScheduled | LifecycleExpired
  | LifecyclePurged | LifecycleOther int

record retention_state =
  rt_lifecycle :: retention_lifecycle
  rt_content_visibility :: int
  rt_first_triggered_at :: "int option"
  rt_expire_at :: "int option"
  rt_expired_at :: "int option"
  rt_purged_at :: "int option"
  rt_triggered_by_user_id :: "string option"

record message =
  m_server_id :: string
  m_client_msg_id :: string
  m_conversation_id :: string
  m_sender_id :: string
  m_channel_id :: string
  m_source :: int
  m_conversation_type :: int
  m_status :: int
  m_message_type :: message_type
  m_content :: "content option option"
  m_attributes :: "string \<rightharpoonup> string"
  m_extensions :: "string \<rightharpoonup> string"
  m_conversation_seq :: nat
  m_message_seq :: "nat option"
  m_created_at :: int
  m_retention_policy :: "retention_policy option"
  m_retention_state :: "retention_state option"
  m_sender_name :: string
  m_sender_avatar :: string
  m_thread_id :: "string option"
  m_offline_push_info :: "string option"

text \<open>The protocol's default message, every field empty.\<close>

definition default_message :: message where
  "default_message = \<lparr>m_server_id = [], m_client_msg_id = [], m_conversation_id = [],
     m_sender_id = [], m_channel_id = [], m_source = 0, m_conversation_type = 0, m_status = 0,
     m_message_type = MtUnspecified, m_content = None, m_attributes = Map.empty,
     m_extensions = Map.empty, m_conversation_seq = 0, m_message_seq = None, m_created_at = 0,
     m_retention_policy = None, m_retention_state = None, m_sender_name = [], m_sender_avatar = [],
     m_thread_id = None, m_offline_push_info = None\<rparr>"

section \<open>Type inference\<close>

text \<open>
  \<^verbatim>\<open>String::from_utf8\<close>: the bytes are well-formed UTF-8 (no surrogates, no overlong forms, at most
  U+10FFFF).
\<close>

definition byte :: "char \<Rightarrow> nat" where "byte c = of_char c"

definition cont :: "char \<Rightarrow> bool" where "cont c \<longleftrightarrow> 128 \<le> byte c \<and> byte c \<le> 191"

fun valid_utf8 :: "string \<Rightarrow> bool" where
  "valid_utf8 [] = True"
| "valid_utf8 (a # s) =
     (let n = byte a in
      if n < 128 then valid_utf8 s
      else if 194 \<le> n \<and> n \<le> 223 then
        (case s of b # t \<Rightarrow> cont b \<and> valid_utf8 t | [] \<Rightarrow> False)
      else if 224 \<le> n \<and> n \<le> 239 then
        (case s of b # c # t \<Rightarrow>
             cont b \<and> cont c \<and> (n = 224 \<longrightarrow> 160 \<le> byte b) \<and> (n = 237 \<longrightarrow> byte b \<le> 159) \<and> valid_utf8 t
         | _ \<Rightarrow> False)
      else if 240 \<le> n \<and> n \<le> 244 then
        (case s of b # c # d # t \<Rightarrow>
             cont b \<and> cont c \<and> cont d \<and> (n = 240 \<longrightarrow> 144 \<le> byte b) \<and> (n = 244 \<longrightarrow> byte b \<le> 143)
             \<and> valid_utf8 t
         | _ \<Rightarrow> False)
      else False)"

definition from_utf8 :: "string \<Rightarrow> string option" where
  "from_utf8 bytes = (if valid_utf8 bytes then Some bytes else None)"

definition extension_string :: "message \<Rightarrow> string \<Rightarrow> string option" where
  "extension_string m key =
     (case m_extensions m key of None \<Rightarrow> None
      | Some bytes \<Rightarrow> (case from_utf8 bytes of None \<Rightarrow> None
                       | Some v \<Rightarrow> if v = [] then None else Some v))"

definition notification_persistent :: "message \<Rightarrow> bool option" where
  "notification_persistent m =
     (case m_content m of
        Some (Some (NotificationContent persistent _)) \<Rightarrow> Some persistent
      | _ \<Rightarrow> None)"

fun content_label :: "content \<Rightarrow> string" where
  "content_label (Text _) = ''text''"
| "content_label (Image _) = ''image''"
| "content_label (Video _) = ''video''"
| "content_label (Audio _) = ''audio''"
| "content_label (File _) = ''file''"
| "content_label (Location _) = ''location''"
| "content_label (Card _) = ''card''"
| "content_label (NotificationContent _ _) = ''notification''"
| "content_label (Custom type _) = (if type = [] then ''custom'' else type)"
| "content_label (Forward _) = ''forward''"
| "content_label (Thread _) = ''thread''"
| "content_label (LinkCard _) = ''link_card''"
| "content_label (AppCard _) = ''app_card''"
| "content_label (RichText _) = ''rich_text''"
| "content_label (ImageGroup _) = ''image_group''"
| "content_label (Sticker _) = ''sticker''"
| "content_label (Emoji _) = ''emoji''"
| "content_label (Quote _) = ''quote''"
| "content_label (Placeholder _) = ''placeholder''"
| "content_label (SystemContent _ _ _ _) = ''custom''"
| "content_label (OtherContent _) = ''custom''"

definition type_label :: "message \<Rightarrow> string" where
  "type_label m =
     (case extension_string m ''message_type'' of
        Some l \<Rightarrow> l
      | None \<Rightarrow> (case m_content m of
                   None \<Rightarrow> ''custom''
                 | Some None \<Rightarrow> ''custom''
                 | Some (Some c) \<Rightarrow> content_label c))"

definition type_of_label :: "string \<Rightarrow> message_type" where
  "type_of_label l =
     (if l \<in> {''text'', ''text/plain'', ''plain_text''} then MtText
      else if l = ''image'' then MtImage
      else if l = ''video'' then MtVideo
      else if l = ''audio'' then MtAudio
      else if l = ''file'' then MtFile
      else if l = ''location'' then MtLocation
      else if l = ''card'' then MtCard
      else if l \<in> {''custom'', ''json'', ''command'', ''event''} then MtCustom
      else if l = ''sticker'' then MtSticker
      else if l = ''emoji'' then MtEmoji
      else if l = ''system'' then MtSystem
      else if l = ''notification'' then MtNotification
      else if l \<in> {''typing'', ''system_event''} then MtUnspecified
      else if l \<in> {''recall'', ''operation'', ''read''} then MtUnspecified
      else if l = ''forward'' then MtForward
      else if l \<in> {''link_card'', ''linkcard''} then MtLinkCard
      else if l \<in> {''merge_forward'', ''mergeforward''} then MtForward
      else if l \<in> {''app_card'', ''appcard''} then MtAppCard
      else if l \<in> {''rich_text'', ''richtext''} then MtRichText
      else if l \<in> {''image_group'', ''imagegroup''} then MtImageGroup
      else if l = ''quote'' then MtQuote
      else if l = ''placeholder'' then MtPlaceholder
      else MtUnspecified)"

definition determine_category :: "message_type \<Rightarrow> string \<Rightarrow> string option \<Rightarrow> message_category" where
  "determine_category mtype label notification_type =
     (if label \<in> {''typing'', ''system_event''} then Temporary
      else if label = ''operation'' \<or> label = ''recall'' \<or> label = ''read'' then Operation
      else if mtype = MtNotification then
        (if notification_type = Some ''message_operation'' then Operation else Notification)
      else if label = ''notification'' then Notification
      else Normal)"

record message_profile =
  mp_message_type :: message_type
  mp_label :: string
  mp_category :: message_category

text \<open>\<^verbatim>\<open>MessageProfile::ensure\<close>: the profile, and the message with its type field set.\<close>

definition profile_ensure :: "message \<Rightarrow> message_profile \<times> message" where
  "profile_ensure m =
     (let label = type_label m;
          mtype = type_of_label label;
          m' = m\<lparr>m_message_type := mtype\<rparr>
      in (\<lparr>mp_message_type = mtype, mp_label = label,
           mp_category = determine_category mtype label (extension_string m' ''notification_type'')\<rparr>,
          m'))"

abbreviation is_temporary :: "message_profile \<Rightarrow> bool" where
  "is_temporary p \<equiv> mp_category p = Temporary"

abbreviation is_operation :: "message_profile \<Rightarrow> bool" where
  "is_operation p \<equiv> mp_category p = Operation"

abbreviation is_notification :: "message_profile \<Rightarrow> bool" where
  "is_notification p \<equiv> mp_category p = Notification"

section \<open>Preparing a submission\<close>

definition SERVER_OWNED_ATTRIBUTES :: "string list" where
  "SERVER_OWNED_ATTRIBUTES =
     [''pluginSharedStateJson'', ''pluginSharedStateVersion'', ''pluginSharedEntity'', ''pluginCardUnbound'']"

record message_defaults =
  md_business_type :: string
  md_conversation_type :: conversation_type
  md_sender_type :: string
  md_tenant_id :: "string option"

record timeline_metadata =
  tl_emit_ts :: "int option"
  tl_ingestion_ts :: int
  tl_persisted_ts :: "int option"
  tl_dispatched_ts :: "int option"
  tl_acked_ts :: "int option"
  tl_read_ts :: "int option"
  tl_deleted_ts :: "int option"

definition default_timeline :: timeline_metadata where
  "default_timeline = \<lparr>tl_emit_ts = None, tl_ingestion_ts = 0, tl_persisted_ts = None, tl_dispatched_ts = None,
     tl_acked_ts = None, tl_read_ts = None, tl_deleted_ts = None\<rparr>"

record message_submission =
  ms_message :: message
  ms_message_id :: string
  ms_timeline :: timeline_metadata

definition source_of_sender_type :: "string \<Rightarrow> int" where
  "source_of_sender_type t =
     (if t = ''user'' then 1 else if t = ''system'' then 2 else if t = ''bot'' then 3
      else if t = ''admin'' then 4 else 1)"

definition remove_keys :: "string list \<Rightarrow> (string \<rightharpoonup> string) \<Rightarrow> (string \<rightharpoonup> string)" where
  "remove_keys ks m = foldl (\<lambda>m k. m(k := None)) m ks"

text \<open>
  \<^verbatim>\<open>MessageSubmission::prepare\<close>, with the fresh UUID and the server time as arguments: the server's
  own id replaces a client-given one (kept as an extension), then the defaults, then what only the
  server may set.
\<close>

definition take_server_id :: "string \<Rightarrow> message \<Rightarrow> message" where
  "take_server_id uuid request =
     (let client_provided = (if m_server_id request \<noteq> [] then Some (m_server_id request) else None);
          r = request\<lparr>m_server_id := uuid\<rparr>;
          r = (case client_provided of
                 Some old \<Rightarrow> r\<lparr>m_extensions := (m_extensions r)(''original_server_id'' \<mapsto> old)\<rparr>
               | None \<Rightarrow> r)
      in if m_client_msg_id r = [] then r\<lparr>m_client_msg_id := m_server_id r\<rparr> else r)"

definition fill_defaults :: "message_defaults \<Rightarrow> message \<Rightarrow> message" where
  "fill_defaults defaults r =
     r\<lparr>m_source := (if m_source r = 0 then source_of_sender_type (md_sender_type defaults) else m_source r),
       m_conversation_type := (if m_conversation_type r = 0
          then conversation_type_as_int (md_conversation_type defaults) else m_conversation_type r),
       m_status := (if m_status r = 0 then 1 else m_status r)\<rparr>"

definition strip_client_claims :: "message \<Rightarrow> message" where
  "strip_client_claims r =
     r\<lparr>m_attributes := remove_keys SERVER_OWNED_ATTRIBUTES (m_attributes r),
       m_extensions := remove_keys SERVER_OWNED_ATTRIBUTES (m_extensions r),
       m_conversation_seq := 0, m_message_seq := None\<rparr>"

definition prepare :: "string \<Rightarrow> int \<Rightarrow> message_defaults \<Rightarrow> message \<Rightarrow> message_submission result" where
  "prepare uuid now defaults request =
     (if m_conversation_id request = [] then
        Err (FlareError BadRequest ''conversation_id is required'')
      else if m_sender_id request = [] then
        Err (FlareError BadRequest ''sender_id is required'')
      else
        let r = strip_client_claims (fill_defaults defaults (take_server_id uuid request));
            r = snd (profile_ensure r);
            emit_ts = (if m_created_at r > 0 then Some (m_created_at r) else None);
            r = r\<lparr>m_created_at := now\<rparr>
        in Ok \<lparr>ms_message = r, ms_message_id = m_server_id r,
               ms_timeline = default_timeline\<lparr>tl_emit_ts := emit_ts, tl_ingestion_ts := now\<rparr>\<rparr>)"

section \<open>Ledger look-back\<close>

text \<open>\<^verbatim>\<open>LedgerLookbackPolicy\<close>; the duration is in milliseconds and fits an \<open>i64\<close>.\<close>

datatype lookback_reason = StaleClientTime

definition CLIENT_CLOCK_MARGIN_MS :: nat where "CLIENT_CLOCK_MARGIN_MS = 300000"

definition lookback_reason_of :: "nat \<Rightarrow> int \<Rightarrow> int \<Rightarrow> lookback_reason option" where
  "lookback_reason_of redis_result_ttl_ms client_created_at_ms now_ms =
     (if client_created_at_ms \<le> 0 then None
      else let window = int (redis_result_ttl_ms - CLIENT_CLOCK_MARGIN_MS);
               window_ms = (if window \<le> i64_max then window else i64_max)
           in if client_created_at_ms < sat_sub_i64 now_ms window_ms then Some StaleClientTime
              else None)"

section \<open>Facts\<close>

lemma fsm_parse_as_str [simp]: "fsm_parse_db_value (fsm_as_str s) = Inr s"
  by (cases s) (simp_all add: fsm_parse_db_value_def)

lemma conversation_type_from_as_int [simp]:
  "conversation_type_from_proto (conversation_type_as_int t) = t"
  by (cases t) (simp_all add: conversation_type_from_proto_def)

lemma remove_keys_apply: "remove_keys ks m k = (if k \<in> set ks then None else m k)"
  by (induction ks arbitrary: m) (simp_all add: remove_keys_def)

text \<open>The profile depends on the extensions and the content only.\<close>

lemma extension_string_cong: "m_extensions m = m_extensions m' \<Longrightarrow> extension_string m = extension_string m'"
  by (rule ext) (simp add: extension_string_def)

lemma type_label_cong:
  "m_extensions m = m_extensions m' \<Longrightarrow> m_content m = m_content m' \<Longrightarrow> type_label m = type_label m'"
  using extension_string_cong [of m m'] by (simp add: type_label_def cong: option.case_cong)

lemma profile_ensure_fst:
  "fst (profile_ensure m) = \<lparr>mp_message_type = type_of_label (type_label m), mp_label = type_label m,
     mp_category = determine_category (type_of_label (type_label m)) (type_label m)
       (extension_string m ''notification_type'')\<rparr>"
  using extension_string_cong [of "m\<lparr>m_message_type := t\<rparr>" m for t]
  by (simp add: profile_ensure_def Let_def)

lemma profile_ensure_cong:
  assumes "m_extensions m = m_extensions m'" and "m_content m = m_content m'"
  shows "fst (profile_ensure m) = fst (profile_ensure m')"
  using type_label_cong [OF assms] extension_string_cong [OF assms(1)]
  by (simp add: profile_ensure_fst)

lemma profile_ensure_keeps:
  "snd (profile_ensure m) = m\<lparr>m_message_type := type_of_label (type_label m)\<rparr>"
  "m_extensions (snd (profile_ensure m)) = m_extensions m"
  "m_content (snd (profile_ensure m)) = m_content m"
  "m_conversation_id (snd (profile_ensure m)) = m_conversation_id m"
  "m_server_id (snd (profile_ensure m)) = m_server_id m"
  by (simp_all add: profile_ensure_def Let_def)

lemma profile_ensure_idem: "profile_ensure (snd (profile_ensure m)) = profile_ensure m"
  by (rule prod_eqI)
    (simp_all add: profile_ensure_keeps profile_ensure_cong [of "m\<lparr>m_message_type := t\<rparr>" m for t]
      type_label_cong [of "m\<lparr>m_message_type := t\<rparr>" m for t])

lemma type_of_label_Notification: "type_of_label l = MtNotification \<longleftrightarrow> l = ''notification''"
  by (simp add: type_of_label_def)

text \<open>The category of a message is decided by its label and, for notifications, by one extension.\<close>

lemma profile_category:
  assumes p: "p = fst (profile_ensure m)"
  shows "is_temporary p \<longleftrightarrow> mp_label p \<in> {''typing'', ''system_event''}"
    and "is_operation p \<longleftrightarrow> mp_label p \<in> {''operation'', ''recall'', ''read''}
       \<or> mp_label p = ''notification''
         \<and> extension_string m ''notification_type'' = Some ''message_operation''"
    and "is_notification p \<longleftrightarrow> mp_label p = ''notification''
       \<and> extension_string m ''notification_type'' \<noteq> Some ''message_operation''"
  by (auto simp: p profile_ensure_fst determine_category_def type_of_label_Notification)

lemma take_server_id_fields [simp]:
  "m_server_id (take_server_id uuid r) = uuid"
  "m_client_msg_id (take_server_id uuid r) = (if m_client_msg_id r = [] then uuid else m_client_msg_id r)"
  "m_extensions (take_server_id uuid r) = (if m_server_id r = [] then m_extensions r
        else (m_extensions r)(''original_server_id'' \<mapsto> m_server_id r))"
  "m_conversation_id (take_server_id uuid r) = m_conversation_id r"
  "m_sender_id (take_server_id uuid r) = m_sender_id r"
  "m_attributes (take_server_id uuid r) = m_attributes r"
  "m_content (take_server_id uuid r) = m_content r"
  "m_created_at (take_server_id uuid r) = m_created_at r"
  by (simp_all add: take_server_id_def Let_def)

lemma prepare_Ok:
  assumes "prepare uuid now d req = Ok sub"
  shows "m_conversation_id req \<noteq> []" "m_sender_id req \<noteq> []"
    "m_server_id (ms_message sub) = uuid" "ms_message_id sub = uuid"
    "m_conversation_id (ms_message sub) = m_conversation_id req"
    "m_sender_id (ms_message sub) = m_sender_id req"
    "m_conversation_seq (ms_message sub) = 0" "m_message_seq (ms_message sub) = None"
    "m_created_at (ms_message sub) = now" "m_content (ms_message sub) = m_content req"
    "m_attributes (ms_message sub) = remove_keys SERVER_OWNED_ATTRIBUTES (m_attributes req)"
    "m_client_msg_id (ms_message sub) = (if m_client_msg_id req = [] then uuid else m_client_msg_id req)"
    "m_extensions (ms_message sub) = remove_keys SERVER_OWNED_ATTRIBUTES
       (if m_server_id req = [] then m_extensions req
        else (m_extensions req)(''original_server_id'' \<mapsto> m_server_id req))"
    "tl_emit_ts (ms_timeline sub) = (if m_created_at req > 0 then Some (m_created_at req) else None)"
proof -
  show ids: "m_conversation_id req \<noteq> []" "m_sender_id req \<noteq> []"
    using assms by (simp_all add: prepare_def split: if_split_asm)
  let ?r = "snd (profile_ensure (strip_client_claims (fill_defaults d (take_server_id uuid req))))"
  have "sub = \<lparr>ms_message = ?r\<lparr>m_created_at := now\<rparr>, ms_message_id = m_server_id ?r,
      ms_timeline = default_timeline\<lparr>tl_emit_ts := (if m_created_at ?r > 0 then Some (m_created_at ?r) else None),
        tl_ingestion_ts := now\<rparr>\<rparr>"
    using assms ids by (simp add: prepare_def Let_def)
  then show "m_server_id (ms_message sub) = uuid" "ms_message_id sub = uuid"
    "m_conversation_id (ms_message sub) = m_conversation_id req"
    "m_sender_id (ms_message sub) = m_sender_id req"
    "m_conversation_seq (ms_message sub) = 0" "m_message_seq (ms_message sub) = None"
    "m_created_at (ms_message sub) = now" "m_content (ms_message sub) = m_content req"
    "m_attributes (ms_message sub) = remove_keys SERVER_OWNED_ATTRIBUTES (m_attributes req)"
    "m_client_msg_id (ms_message sub) = (if m_client_msg_id req = [] then uuid else m_client_msg_id req)"
    "m_extensions (ms_message sub) = remove_keys SERVER_OWNED_ATTRIBUTES
       (if m_server_id req = [] then m_extensions req
        else (m_extensions req)(''original_server_id'' \<mapsto> m_server_id req))"
    "tl_emit_ts (ms_timeline sub) = (if m_created_at req > 0 then Some (m_created_at req) else None)"
    by (simp_all add: profile_ensure_keeps(1) strip_client_claims_def fill_defaults_def)
qed

lemma prepare_Err:
  "prepare uuid now d req = Err e \<longleftrightarrow>
     m_conversation_id req = [] \<and> e = FlareError BadRequest ''conversation_id is required'' \<or>
     m_conversation_id req \<noteq> [] \<and> m_sender_id req = [] \<and> e = FlareError BadRequest ''sender_id is required''"
  by (auto simp: prepare_def Let_def)

section \<open>Properties\<close>

text \<open>
  A prepared submission carries nothing a client may not set: the id is the server's fresh one
  (a client-given id survives only as the extension \<open>original_server_id\<close>), no sequence is preset, the
  creation time is the server's (the client's is kept in the timeline), the four attributes only the
  server writes are gone from attributes and extensions, and every other attribute, the content,
  the sender and the conversation are the client's. It is refused exactly when the conversation or
  the sender is missing.
\<close>

theorem prepare_server_authoritative:
  "(case prepare uuid now d req of
      Inl e \<Rightarrow> m_conversation_id req = [] \<or> m_sender_id req = []
    | Inr sub \<Rightarrow>
       (let m = ms_message sub in
         m_conversation_id req \<noteq> [] \<and> m_sender_id req \<noteq> []
         \<and> m_server_id m = uuid \<and> ms_message_id sub = uuid \<and> m_created_at m = now
         \<and> m_conversation_seq m = 0 \<and> m_message_seq m = None
         \<and> (\<forall>k. m_attributes m k = (if k \<in> set SERVER_OWNED_ATTRIBUTES then None else m_attributes req k))
         \<and> (\<forall>k. m_extensions m k = (if k \<in> set SERVER_OWNED_ATTRIBUTES then None
               else if k = ''original_server_id'' \<and> m_server_id req \<noteq> [] then Some (m_server_id req)
               else m_extensions req k))
         \<and> m_content m = m_content req \<and> m_sender_id m = m_sender_id req
         \<and> m_conversation_id m = m_conversation_id req
         \<and> tl_emit_ts (ms_timeline sub)
             = (if 0 < m_created_at req then Some (m_created_at req) else None)))"
proof (cases "prepare uuid now d req")
  case (Inl e)
  then have "m_conversation_id req = [] \<or> m_sender_id req = []" using prepare_Err by blast
  with Inl show ?thesis by simp
next
  case (Inr sub)
  then show ?thesis by (simp add: prepare_Ok [OF Inr] remove_keys_apply Let_def)
qed

text \<open>
  The category of a message, which decides whether it is stored, follows from its label (the
  \<open>message_type\<close> extension if it is non-empty text, else the content's kind) and, for notifications, from the
  \<open>notification_type\<close> extension; a prepared message keeps its category when it is profiled again
  after the sequence is set.
\<close>

theorem profile_categories:
  "mp_category (fst (profile_ensure m)) =
     (if type_label m \<in> {''typing'', ''system_event''} then Temporary
      else if type_label m \<in> {''operation'', ''recall'', ''read''} then Operation
      else if type_label m = ''notification''
        then (if extension_string m ''notification_type'' = Some ''message_operation''
              then Operation else Notification)
      else Normal)
   \<and> fst (profile_ensure ((snd (profile_ensure m))\<lparr>m_conversation_seq := n\<rparr>)) = fst (profile_ensure m)"
proof
  show "mp_category (fst (profile_ensure m)) =
     (if type_label m \<in> {''typing'', ''system_event''} then Temporary
      else if type_label m \<in> {''operation'', ''recall'', ''read''} then Operation
      else if type_label m = ''notification''
        then (if extension_string m ''notification_type'' = Some ''message_operation''
              then Operation else Notification)
      else Normal)"
    by (simp add: profile_ensure_fst determine_category_def type_of_label_Notification)
  show "fst (profile_ensure ((snd (profile_ensure m))\<lparr>m_conversation_seq := n\<rparr>)) = fst (profile_ensure m)"
    by (rule profile_ensure_cong) (simp_all add: profile_ensure_keeps)
qed

text \<open>
  The stored name of a message state is read back as that state and no other text is accepted;
  a recalled or hard-deleted message can be neither edited, recalled nor hard-deleted again.
\<close>

theorem fsm_state_roundtrip:
  "(fsm_parse_db_value s = Inr st) = (s = fsm_as_str st)
   \<and> (is_terminal st \<longrightarrow> \<not> (can_edit st \<or> can_recall st \<or> can_delete_hard st))"
proof
  have "s = fsm_as_str st" if "fsm_parse_db_value s = Inr st"
    using that by (cases st) (simp_all add: fsm_parse_db_value_def split: if_split_asm)
  then show "(fsm_parse_db_value s = Inr st) = (s = fsm_as_str st)" by auto
  show "is_terminal st \<longrightarrow> \<not> (can_edit st \<or> can_recall st \<or> can_delete_hard st)"
    by (auto simp: is_terminal_def can_edit_def can_recall_def can_delete_hard_def)
qed

theorem fsm_state_roundtrip_witness:
  "\<not> (can_edit Recalled \<or> can_recall Recalled \<or> can_delete_hard Recalled)
   \<and> fsm_parse_db_value ''DELETED_SOFT'' = Inr DeletedSoft"
  using fsm_state_roundtrip [of "''DELETED_SOFT''" Recalled] fsm_state_roundtrip [of "''DELETED_SOFT''" DeletedSoft]
  by (simp add: is_terminal_def)

text \<open>
  A resend whose first result has left Redis always looks into the ledger: the first send
  happened at \<open>t_first\<close>, its result has expired \<open>(t_first + ttl \<le> now)\<close>, and the client's clock was
  less than five minutes fast. A send younger than the window never does.
\<close>

theorem lookback_covers_expired_results:
  assumes "0 < created" and "CLIENT_CLOCK_MARGIN_MS \<le> ttl" and "int ttl \<le> i64_max"
    and "0 \<le> now" and "now \<le> i64_max"
  shows "(created < t_first + int CLIENT_CLOCK_MARGIN_MS \<and> t_first + int ttl \<le> now \<longrightarrow>
           lookback_reason_of ttl created now = Some StaleClientTime)
    \<and> (now - (int ttl - int CLIENT_CLOCK_MARGIN_MS) \<le> created \<longrightarrow>
           lookback_reason_of ttl created now = None)"
proof -
  have w: "int (ttl - CLIENT_CLOCK_MARGIN_MS) = int ttl - int CLIENT_CLOCK_MARGIN_MS"
    using assms(2) by simp
  have s: "sat_sub_i64 now (int ttl - int CLIENT_CLOCK_MARGIN_MS) = now - (int ttl - int CLIENT_CLOCK_MARGIN_MS)"
    using assms(2-5) by (intro sat_sub_i64_exact) (simp_all add: CLIENT_CLOCK_MARGIN_MS_def)
  have m: "int ttl - int CLIENT_CLOCK_MARGIN_MS \<le> i64_max" using assms(3) by simp
  show ?thesis
    using assms(1) s m by (simp add: lookback_reason_of_def w Let_def)
qed

theorem lookback_covers_expired_results_witness:
  "lookback_reason_of 3600000 1700000000000 1700003700000 = Some StaleClientTime
   \<and> lookback_reason_of 3600000 1700003640000 1700003700000 = None"
  using lookback_covers_expired_results [of 1700000000000 3600000 1700003700000 1700000000000]
    lookback_covers_expired_results [of 1700003640000 3600000 1700003700000 0]
  by (simp add: CLIENT_CLOCK_MARGIN_MS_def)

end
