(* ===== verification/Ingest_Idempotency.thy ===== *)
theory Ingest_Idempotency
  imports Redis_Server Message_Model
begin

text \<open>
  The send deduplication of the ingest boundary: the contract
  \<^verbatim>\<open>flare-message-ingest/src/domain/repository/ingest_idempotency.rs\<close> and its Redis implementation
  \<^verbatim>\<open>infrastructure/persistence/redis_idempotency.rs\<close>. The contract is the locale \<open>idempotency_store\<close>:
  the operations on a store state and an abstract view of each key. The Redis store is shown to
  satisfy it, for any Redis server.
\<close>

section \<open>The contract\<close>

record idempotent_record =
  ir_server_id :: string
  ir_conversation_seq :: nat
  ir_durability :: send_ack_durability_level
  ir_fingerprint :: string

datatype idempotency_begin = Fresh | Replay idempotent_record | InFlight

text \<open>
  The trait's operations, on an explicit store state. What the contract says of a call that fails:
  whether the store applied it is not known, so the key is as before or as after a success.
\<close>

record 's idem_store =
  is_begin :: "string \<Rightarrow> 's \<Rightarrow> idempotency_begin result \<times> 's"
  is_commit :: "string \<Rightarrow> idempotent_record \<Rightarrow> 's \<Rightarrow> unit result \<times> 's"
  is_rollback :: "string \<Rightarrow> 's \<Rightarrow> unit result \<times> 's"

datatype key_view = Free | Pending | Done idempotent_record

fun begin_of_view :: "key_view \<Rightarrow> idempotency_begin" where
  "begin_of_view Free = Fresh"
| "begin_of_view Pending = InFlight"
| "begin_of_view (Done rec) = Replay rec"

fun view_after_begin :: "key_view \<Rightarrow> key_view" where
  "view_after_begin Free = Pending"
| "view_after_begin v = v"

text \<open>
  A record the store can hold: a server id (never empty), a sequence number that fits \<open>u64\<close>, and no
  separator in the text fields.
\<close>

definition record_ok :: "idempotent_record \<Rightarrow> bool" where
  "record_ok rec \<longleftrightarrow> ir_server_id rec \<noteq> [] \<and> CHR ''|'' \<notin> set (ir_server_id rec)
     \<and> CHR ''|'' \<notin> set (ir_fingerprint rec) \<and> ir_conversation_seq rec \<le> u64_max"

locale idempotency_store =
  fixes S :: "'s idem_store" and view :: "'s \<Rightarrow> string \<Rightarrow> key_view"
  assumes begin_ok: "is_begin S k s = (Ok b, s') \<Longrightarrow>
      b = begin_of_view (view s k) \<and> view s' = (view s)(k := view_after_begin (view s k))"
    and commit_ok: "record_ok rec \<Longrightarrow> is_commit S k rec s = (Ok (), s') \<Longrightarrow>
      view s' = (view s)(k := Done rec)"
    and rollback_ok: "is_rollback S k s = (Ok (), s') \<Longrightarrow> view s' = (view s)(k := Free)"
    and begin_err: "is_begin S k s = (Err e, s') \<Longrightarrow>
      view s' = view s \<or> view s' = (view s)(k := view_after_begin (view s k))"
    and commit_err: "record_ok rec \<Longrightarrow> is_commit S k rec s = (Err e, s') \<Longrightarrow>
      view s' = view s \<or> view s' = (view s)(k := Done rec)"
    and rollback_err: "is_rollback S k s = (Err e, s') \<Longrightarrow>
      view s' = view s \<or> view s' = (view s)(k := Free)"
begin

lemma begin_either: "view (snd (is_begin S k s)) \<in> {view s, (view s)(k := view_after_begin (view s k))}"
  using begin_ok [of k s _ "snd (is_begin S k s)"] begin_err [of k s _ "snd (is_begin S k s)"]
  by (cases "fst (is_begin S k s)") (auto simp: prod_eq_iff)

lemma commit_either: "record_ok rec \<Longrightarrow> view (snd (is_commit S k rec s)) \<in> {view s, (view s)(k := Done rec)}"
  using commit_ok [of rec k s "snd (is_commit S k rec s)"] commit_err [of rec k s _ "snd (is_commit S k rec s)"]
  by (cases "fst (is_commit S k rec s)") (auto simp: prod_eq_iff)

lemma rollback_either: "view (snd (is_rollback S k s)) \<in> {view s, (view s)(k := Free)}"
  using rollback_ok [of k s "snd (is_rollback S k s)"] rollback_err [of k s _ "snd (is_rollback S k s)"]
  by (cases "fst (is_rollback S k s)") (auto simp: prod_eq_iff)

lemma begin_Fresh: "is_begin S k s = (Ok Fresh, s') \<Longrightarrow> view s k = Free \<and> view s' = (view s)(k := Pending)"
  using begin_ok [of k s Fresh s'] by (cases "view s k") auto

lemma begin_Replay: "is_begin S k s = (Ok (Replay rec), s') \<Longrightarrow> view s k = Done rec \<and> view s' = view s"
  using begin_ok [of k s "Replay rec" s'] by (cases "view s k") (auto simp: fun_upd_idem)

lemma begin_InFlight: "is_begin S k s = (Ok InFlight, s') \<Longrightarrow> view s k = Pending \<and> view s' = view s"
  using begin_ok [of k s InFlight s'] by (cases "view s k") (auto simp: fun_upd_idem)

end

section \<open>The Redis store\<close>

text \<open>
  The numbers of the durability levels are the protocol's: a parameter. What the code relies on is
  that a number written is read back as its level, and that the numbers are 32-bit.
\<close>

record durability_codec =
  dc_code :: "send_ack_durability_level \<Rightarrow> int"
  dc_try_from :: "int \<Rightarrow> send_ack_durability_level option"

definition codec_ok :: "durability_codec \<Rightarrow> bool" where
  "codec_ok dc \<longleftrightarrow> (\<forall>d. dc_try_from dc (dc_code dc d) = Some d
     \<and> - (2 ^ 31) \<le> dc_code dc d \<and> dc_code dc d < 2 ^ 31)"

definition PENDING_MARKER :: string where "PENDING_MARKER = ''PENDING''"

record redis_idempotency =
  ri_reserve_ttl_secs :: nat
  ri_result_ttl_secs :: nat

definition redis_idempotency_new :: "nat \<Rightarrow> nat \<Rightarrow> redis_idempotency" where
  "redis_idempotency_new reserve result =
     \<lparr>ri_reserve_ttl_secs = max reserve 1, ri_result_ttl_secs = max result 1\<rparr>"

definition idem_encode :: "durability_codec \<Rightarrow> idempotent_record \<Rightarrow> string" where
  "idem_encode dc rec =
     (let encoded = ir_server_id rec @ ''|'' @ to_decimal (ir_conversation_seq rec) @ ''|''
            @ show_int (dc_code dc (ir_durability rec))
      in if ir_fingerprint rec \<noteq> [] then encoded @ ''|'' @ ir_fingerprint rec else encoded)"

definition decode_durability :: "durability_codec \<Rightarrow> string list \<Rightarrow> send_ack_durability_level" where
  "decode_durability dc parts =
     (case parts of [] \<Rightarrow> Persisted
      | raw # _ \<Rightarrow> (case parse_i32 raw of None \<Rightarrow> Persisted
                    | Some n \<Rightarrow> (case dc_try_from dc n of None \<Rightarrow> Persisted | Some d \<Rightarrow> d)))"

definition idem_decode :: "durability_codec \<Rightarrow> string \<Rightarrow> idempotent_record option" where
  "idem_decode dc value =
     (case split_by (\<lambda>c. c = CHR ''|'') value of
        server_id # seq # rest \<Rightarrow>
          if server_id = [] then None
          else (case parse_u64 seq of None \<Rightarrow> None
                | Some n \<Rightarrow>
                    if length rest > 2 then None
                    else Some \<lparr>ir_server_id = server_id, ir_conversation_seq = n,
                               ir_durability = decode_durability dc rest,
                               ir_fingerprint = (case rest of _ # f # _ \<Rightarrow> f | _ \<Rightarrow> [])\<rparr>)
      | _ \<Rightarrow> None)"

text \<open>
  One command whose answer carries nothing: the error of the connection or of the command becomes a
  system error with its text.
\<close>

definition redis_error :: "string \<Rightarrow> flare_error" where
  "redis_error e = FlareError SystemError e"

definition send_cmd :: "cmd_end \<Rightarrow> ('r \<Rightarrow> 'r) \<Rightarrow> 'r \<Rightarrow> unit result \<times> 'r" where
  "send_cmd fate f r =
     ((case cmd_error fate of None \<Rightarrow> Ok () | Some e \<Rightarrow> Err (redis_error e)), cmd_effect fate f r)"

definition begin_of_value :: "durability_codec \<Rightarrow> string \<Rightarrow> idempotency_begin" where
  "begin_of_value dc value =
     (if value = PENDING_MARKER then InFlight
      else (case idem_decode dc value of Some rec \<Rightarrow> Replay rec | None \<Rightarrow> InFlight))"

text \<open>
  \<^verbatim>\<open>begin\<close>. Each round is described by how its \<open>SET NX\<close> ends, by what happens to the server before the
  \<open>GET\<close> (others are served, time passes) and by how the \<open>GET\<close> ends. A \<open>SET NX\<close> whose answer is lost has
  reserved the key all the same. A key that expired in between starts the next round; the list running
  out is a call that has not returned. A connection that cannot be opened is a failed first command.
\<close>

type_synonym 'r begin_round = "cmd_end \<times> ('r \<Rightarrow> 'r) \<times> cmd_end"

abbreviation quiet_round :: "'r begin_round" where "quiet_round \<equiv> (CmdDone, id, CmdDone)"

fun idem_begin :: "'r redis_cmds \<Rightarrow> durability_codec \<Rightarrow> redis_idempotency \<Rightarrow> string \<Rightarrow> 'r begin_round list \<Rightarrow> 'r
     \<Rightarrow> (idempotency_begin result \<times> 'r) option" where
  "idem_begin R dc cfg key [] r = None"
| "idem_begin R dc cfg key ((set_end, env, get_end) # rounds) r =
     (let setnx = r_setnx R key PENDING_MARKER (ri_reserve_ttl_secs cfg * 1000) in
      case cmd_error set_end of
        Some e \<Rightarrow> Some (Err (redis_error e), cmd_effect set_end (\<lambda>r. snd (setnx r)) r)
      | None \<Rightarrow>
          (case setnx r of
             (True, r') \<Rightarrow> Some (Ok Fresh, r')
           | (False, r') \<Rightarrow>
               let r'' = env r' in
               (case cmd_error get_end of
                  Some e \<Rightarrow> Some (Err (redis_error e), r'')
                | None \<Rightarrow>
                    (case r_get R r'' key of
                       None \<Rightarrow> idem_begin R dc cfg key rounds r''
                     | Some value \<Rightarrow> Some (Ok (begin_of_value dc value), r'')))))"

definition idem_commit :: "'r redis_cmds \<Rightarrow> durability_codec \<Rightarrow> redis_idempotency \<Rightarrow> string \<Rightarrow>
     idempotent_record \<Rightarrow> cmd_end \<Rightarrow> 'r \<Rightarrow> unit result \<times> 'r" where
  "idem_commit R dc cfg key rec fate r =
     send_cmd fate (r_set R key (idem_encode dc rec) (Some (ri_result_ttl_secs cfg * 1000))) r"

definition idem_rollback :: "'r redis_cmds \<Rightarrow> string \<Rightarrow> cmd_end \<Rightarrow> 'r \<Rightarrow> unit result \<times> 'r" where
  "idem_rollback R key fate r = send_cmd fate (r_del R key) r"

text \<open>
  The store as the handler calls it, when nothing else touches the key during one call. How each command
  ends is a parameter, an arbitrary function of its key and the server.
\<close>

record 'r idem_ends =
  ie_setnx_end :: "string \<Rightarrow> 'r \<Rightarrow> cmd_end"
  ie_get_end :: "string \<Rightarrow> 'r \<Rightarrow> cmd_end"
  ie_set_end :: "string \<Rightarrow> 'r \<Rightarrow> cmd_end"
  ie_del_end :: "string \<Rightarrow> 'r \<Rightarrow> cmd_end"

definition all_answered :: "'r idem_ends" where
  "all_answered = \<lparr>ie_setnx_end = (\<lambda>_ _. CmdDone), ie_get_end = (\<lambda>_ _. CmdDone),
     ie_set_end = (\<lambda>_ _. CmdDone), ie_del_end = (\<lambda>_ _. CmdDone)\<rparr>"

definition redis_idem_store :: "'r redis_cmds \<Rightarrow> durability_codec \<Rightarrow> redis_idempotency \<Rightarrow> 'r idem_ends \<Rightarrow>
     'r idem_store" where
  "redis_idem_store R dc cfg F =
     \<lparr>is_begin = (\<lambda>key r. case idem_begin R dc cfg key [(ie_setnx_end F key r, id, ie_get_end F key r)] r of
                    Some res \<Rightarrow> res | None \<Rightarrow> (Err (redis_error ''not returned''), r)),
      is_commit = (\<lambda>key rec r. idem_commit R dc cfg key rec (ie_set_end F key r) r),
      is_rollback = (\<lambda>key r. idem_rollback R key (ie_del_end F key r) r)\<rparr>"

definition redis_view :: "'r redis_cmds \<Rightarrow> durability_codec \<Rightarrow> 'r \<Rightarrow> string \<Rightarrow> key_view" where
  "redis_view R dc r key =
     (case r_get R r key of None \<Rightarrow> Free
      | Some v \<Rightarrow> (case begin_of_value dc v of Replay rec \<Rightarrow> Done rec | _ \<Rightarrow> Pending))"

text \<open>Attempts on one key, with time passing between them; the answers in order.\<close>

datatype attempt_event = TryBegin | Wait nat

fun run_attempts :: "'r redis_cmds \<Rightarrow> durability_codec \<Rightarrow> redis_idempotency \<Rightarrow> string \<Rightarrow>
     attempt_event list \<Rightarrow> 'r \<Rightarrow> idempotency_begin result list" where
  "run_attempts R dc cfg key [] r = []"
| "run_attempts R dc cfg key (TryBegin # evs) r =
     (case idem_begin R dc cfg key [quiet_round] r of
        None \<Rightarrow> []
      | Some (res, r') \<Rightarrow> res # run_attempts R dc cfg key evs r')"
| "run_attempts R dc cfg key (Wait d # evs) r = run_attempts R dc cfg key evs (r_elapse R d r)"

fun total_wait :: "attempt_event list \<Rightarrow> nat" where
  "total_wait [] = 0"
| "total_wait (TryBegin # evs) = total_wait evs"
| "total_wait (Wait d # evs) = d + total_wait evs"

section \<open>Facts\<close>

lemma encode_not_pending: "idem_encode dc rec \<noteq> PENDING_MARKER"
proof -
  have "CHR ''|'' \<in> set (idem_encode dc rec)" by (simp add: idem_encode_def Let_def)
  moreover have "CHR ''|'' \<notin> set PENDING_MARKER" by (simp add: PENDING_MARKER_def)
  ultimately show ?thesis by metis
qed

lemma encode_split:
  assumes "record_ok rec"
  shows "split_by (\<lambda>c. c = CHR ''|'') (idem_encode dc rec) =
     [ir_server_id rec, to_decimal (ir_conversation_seq rec), show_int (dc_code dc (ir_durability rec))]
       @ (if ir_fingerprint rec = [] then [] else [ir_fingerprint rec])"
proof -
  let ?p = "\<lambda>c. c = CHR ''|''"
  have clean: "\<forall>c \<in> set (ir_server_id rec). \<not> ?p c" "\<forall>c \<in> set (to_decimal (ir_conversation_seq rec)). \<not> ?p c"
    "\<forall>c \<in> set (show_int (dc_code dc (ir_durability rec))). \<not> ?p c" "\<forall>c \<in> set (ir_fingerprint rec). \<not> ?p c"
    using assms by (auto simp: record_ok_def)
  note sep = split_by_append_sep [of _ ?p "CHR ''|''"]
  show ?thesis
    using clean by (simp add: idem_encode_def Let_def sep split_by_none)
qed

lemma decode_encode:
  assumes "record_ok rec" and "codec_ok dc"
  shows "idem_decode dc (idem_encode dc rec) = Some rec"
proof -
  have "parse_i32 (show_int (dc_code dc (ir_durability rec))) = Some (dc_code dc (ir_durability rec))"
    "dc_try_from dc (dc_code dc (ir_durability rec)) = Some (ir_durability rec)"
    using assms(2) by (auto simp: codec_ok_def intro: parse_i32_show_int)
  moreover have "ir_server_id rec \<noteq> []" "ir_conversation_seq rec \<le> u64_max"
    using assms(1) by (auto simp: record_ok_def)
  ultimately show ?thesis
    by (simp add: idem_decode_def encode_split [OF assms(1)] decode_durability_def
        parse_u64_to_decimal)
qed

text \<open>Old records carry no durability: they count as persisted.\<close>

lemma decode_old_record:
  assumes "sid \<noteq> []" "CHR ''|'' \<notin> set sid" "n \<le> u64_max"
  shows "idem_decode dc (sid @ ''|'' @ to_decimal n) =
     Some \<lparr>ir_server_id = sid, ir_conversation_seq = n, ir_durability = Persisted, ir_fingerprint = []\<rparr>"
proof -
  have "\<forall>c \<in> set sid. c \<noteq> CHR ''|''" "\<forall>c \<in> set (to_decimal n). c \<noteq> CHR ''|''"
    using assms(2) to_decimal_no_sep(2) [of n] by metis+
  then show ?thesis
    using assms split_by_append_sep [of sid "\<lambda>c. c = CHR ''|''" "CHR ''|''"]
    by (simp add: idem_decode_def decode_durability_def split_by_none parse_u64_to_decimal)
qed

context redis_server
begin

lemma idem_begin_quiet:
  assumes "0 < ri_reserve_ttl_secs cfg"
  shows "idem_begin R dc cfg key (quiet_round # rounds) r = Some
     (case r_get R r key of
        None \<Rightarrow> (Ok Fresh, r_set R key PENDING_MARKER (Some (ri_reserve_ttl_secs cfg * 1000)) r)
      | Some v \<Rightarrow> (Ok (begin_of_value dc v), r))"
  using assms by (auto simp: setnx_free setnx_taken split: option.splits)

text \<open>A round in which nothing else happens to the server, however its commands end.\<close>

lemma idem_begin_round:
  assumes "0 < ri_reserve_ttl_secs cfg"
  shows "idem_begin R dc cfg key ((f, id, g) # rounds) r = Some
     (let reserved = (case r_get R r key of
            None \<Rightarrow> r_set R key PENDING_MARKER (Some (ri_reserve_ttl_secs cfg * 1000)) r | Some v \<Rightarrow> r)
      in case cmd_error f of Some e \<Rightarrow> (Err (redis_error e), cmd_effect f (\<lambda>_. reserved) r)
         | None \<Rightarrow> (case r_get R r key of None \<Rightarrow> (Ok Fresh, reserved)
              | Some v \<Rightarrow> (case cmd_error g of Some e \<Rightarrow> (Err (redis_error e), r)
                             | None \<Rightarrow> (Ok (begin_of_value dc v), r))))"
  using assms
  by (cases "r_get R r key"; cases f; cases g) (simp_all add: setnx_free setnx_taken)

lemma redis_view_begin: "begin_of_view (redis_view R dc r key) =
    (case r_get R r key of None \<Rightarrow> Fresh | Some v \<Rightarrow> begin_of_value dc v)"
  by (auto simp: redis_view_def begin_of_value_def split: option.splits)

lemma redis_view_cong: "r_get R r' key = r_get R r key \<Longrightarrow> redis_view R dc r' key = redis_view R dc r key"
  by (simp add: redis_view_def)

text \<open>What the two writes of the store do to the view.\<close>

lemma redis_view_set:
  assumes "codec_ok dc" and "record_ok rec" and "0 < ttl"
  shows "redis_view R dc (r_set R k (idem_encode dc rec) (Some ttl) s) = (redis_view R dc s)(k := Done rec)"
  using assms(3) decode_encode [OF assms(2,1)] encode_not_pending [of dc rec]
  by (auto simp: redis_view_def get_set begin_of_value_def fun_eq_iff)

lemma redis_view_reserve:
  assumes "0 < ttl"
  shows "redis_view R dc (case r_get R s k of None \<Rightarrow> r_set R k PENDING_MARKER (Some ttl) s | Some v \<Rightarrow> s)
     = (redis_view R dc s)(k := view_after_begin (redis_view R dc s k))"
proof (cases "r_get R s k")
  case None
  with assms show ?thesis by (auto simp: redis_view_def get_set begin_of_value_def fun_eq_iff)
next
  case (Some v)
  then have "view_after_begin (redis_view R dc s k) = redis_view R dc s k"
    by (cases "begin_of_value dc v") (simp_all add: redis_view_def)
  with Some show ?thesis by (simp add: fun_upd_idem)
qed

lemma redis_view_del: "redis_view R dc (r_del R k s) = (redis_view R dc s)(k := Free)"
  by (auto simp: redis_view_def get_del fun_eq_iff)

lemma send_cmd_Ok: "send_cmd fate f r = (Ok (), r') \<Longrightarrow> r' = f r"
  by (cases fate) (simp_all add: send_cmd_def)

lemma send_cmd_either: "send_cmd fate f r = (res, r') \<Longrightarrow> r' = r \<or> r' = f r"
  using cmd_effect_cases(1) [of fate f r] by (auto simp: send_cmd_def)

text \<open>The Redis store keeps the contract, for any configuration built by its constructor and however its commands end.\<close>

lemma redis_idempotency_store:
  assumes dc: "codec_ok dc" and cfg: "cfg = redis_idempotency_new reserve result"
  shows "idempotency_store (redis_idem_store R dc cfg F) (redis_view R dc)"
proof
  have pos: "0 < ri_reserve_ttl_secs cfg" "0 < ri_result_ttl_secs cfg"
    by (simp_all add: cfg redis_idempotency_new_def)
  then have ttl: "0 < ri_reserve_ttl_secs cfg * 1000" "0 < ri_result_ttl_secs cfg * 1000" by simp_all
  fix k s s' b rec e
  let ?reserved = "case r_get R s k of
      None \<Rightarrow> r_set R k PENDING_MARKER (Some (ri_reserve_ttl_secs cfg * 1000)) s | Some v \<Rightarrow> s"
  note beg = redis_idem_store_def idem_begin_round [OF pos(1)] Let_def
  show "b = begin_of_view (redis_view R dc s k) \<and>
      redis_view R dc s' = (redis_view R dc s)(k := view_after_begin (redis_view R dc s k))"
    if "is_begin (redis_idem_store R dc cfg F) k s = (Ok b, s')"
  proof -
    from that have "s' = ?reserved" "b = (case r_get R s k of None \<Rightarrow> Fresh | Some v \<Rightarrow> begin_of_value dc v)"
      by (auto simp: beg simp del: idem_begin.simps split: option.splits)
    then show ?thesis using redis_view_reserve [OF ttl(1)] redis_view_begin by simp
  qed
  show "redis_view R dc s' = redis_view R dc s \<or>
      redis_view R dc s' = (redis_view R dc s)(k := view_after_begin (redis_view R dc s k))"
    if "is_begin (redis_idem_store R dc cfg F) k s = (Err e, s')"
  proof -
    from that have "s' = s \<or> s' = ?reserved"
      using cmd_effect_cases(1) [of "ie_setnx_end F k s" "\<lambda>_. ?reserved" s]
      by (auto simp: beg simp del: idem_begin.simps split: option.splits)
    then show ?thesis using redis_view_reserve [OF ttl(1)] by metis
  qed
  note com = redis_idem_store_def idem_commit_def idem_rollback_def
  show "redis_view R dc s' = (redis_view R dc s)(k := Done rec)"
    if "record_ok rec" "is_commit (redis_idem_store R dc cfg F) k rec s = (Ok (), s')"
    using send_cmd_Ok redis_view_set [OF dc that(1) ttl(2), of k s] that(2) by (fastforce simp: com)
  show "redis_view R dc s' = redis_view R dc s \<or> redis_view R dc s' = (redis_view R dc s)(k := Done rec)"
    if "record_ok rec" "is_commit (redis_idem_store R dc cfg F) k rec s = (Err e, s')"
    using send_cmd_either [of _ _ s "Err e" s'] redis_view_set [OF dc that(1) ttl(2), of k s] that(2)
    by (auto simp: com)
  show "redis_view R dc s' = (redis_view R dc s)(k := Free)"
    if "is_rollback (redis_idem_store R dc cfg F) k s = (Ok (), s')"
    using send_cmd_Ok redis_view_del [of dc k s] that by (fastforce simp: com)
  show "redis_view R dc s' = redis_view R dc s \<or> redis_view R dc s' = (redis_view R dc s)(k := Free)"
    if "is_rollback (redis_idem_store R dc cfg F) k s = (Err e, s')"
    using send_cmd_either [of _ _ s "Err e" s'] redis_view_del [of dc k s] that by (auto simp: com)
qed

text \<open>While a key holds a value and its lifetime lasts, every attempt gets the answer of that value.\<close>

lemma run_attempts_held:
  assumes "0 < ri_reserve_ttl_secs cfg"
    and "r_get R r key = Some v" and "r_pttl R r key = Some t" and "total_wait evs < t"
  shows "set (run_attempts R dc cfg key evs r) \<subseteq> {Ok (begin_of_value dc v)}"
  using assms(2-)
proof (induction evs arbitrary: r t)
  case Nil
  then show ?case by simp
next
  case (Cons ev evs)
  show ?case
  proof (cases ev)
    case TryBegin
    with Cons assms(1) show ?thesis
      by (simp add: idem_begin_quiet del: idem_begin.simps)
  next
    case (Wait d)
    with Cons.prems have "d < t" "total_wait evs < t - d" by auto
    with Cons.prems Wait show ?thesis
      using Cons.IH [of "r_elapse R d r" "t - d"] by (simp add: get_elapse pttl_elapse)
  qed
qed

end

section \<open>On the reference server\<close>

text \<open>The protocol's numbering as the code's tests show it, completed in declaration order.\<close>

definition example_codec :: durability_codec where
  "example_codec = \<lparr>
     dc_code = (\<lambda>d. case d of Unspecified \<Rightarrow> 0 | TransientAccepted \<Rightarrow> 1 | WalAccepted \<Rightarrow> 2
                  | BrokerAccepted \<Rightarrow> 3 | Persisted \<Rightarrow> 4),
     dc_try_from = (\<lambda>n. if n = 0 then Some Unspecified else if n = 1 then Some TransientAccepted
        else if n = 2 then Some WalAccepted else if n = 3 then Some BrokerAccepted
        else if n = 4 then Some Persisted else None)\<rparr>"

lemma example_codec_ok: "codec_ok example_codec"
proof -
  have "dc_try_from example_codec (dc_code example_codec d) = Some d
     \<and> - (2 ^ 31) \<le> dc_code example_codec d \<and> dc_code example_codec d < 2 ^ 31" for d
    by (cases d) (simp_all add: example_codec_def)
  then show ?thesis by (simp add: codec_ok_def)
qed

interpretation redis_idem: idempotency_store
    "redis_idem_store mem_redis example_codec (redis_idempotency_new reserve result) F"
    "redis_view mem_redis example_codec" for reserve result F
  by (rule mem.redis_idempotency_store [OF example_codec_ok refl])

section \<open>Properties\<close>

text \<open>
  A committed send result is read back exactly: server id, sequence number, durability and
  fingerprint, and its stored form is never mistaken for the pending marker.
\<close>

theorem idem_record_roundtrip:
  assumes "record_ok rec" and "codec_ok dc"
  shows "idem_decode dc (idem_encode dc rec) = Some rec \<and> idem_encode dc rec \<noteq> PENDING_MARKER"
  using decode_encode [OF assms] encode_not_pending by blast

definition example_record :: idempotent_record where
  "example_record = \<lparr>ir_server_id = ''srv-9'', ir_conversation_seq = 3, ir_durability = Persisted,
     ir_fingerprint = ''pcard2-abc''\<rparr>"

lemma example_record_ok: "record_ok example_record"
  by (simp add: record_ok_def example_record_def)

theorem idem_record_roundtrip_witness:
  "idem_decode example_codec (idem_encode example_codec example_record) = Some example_record"
  using idem_record_roundtrip [OF example_record_ok example_codec_ok] by blast

text \<open>
  C36: the Redis store implements the deduplication contract, over any Redis server: \<open>begin\<close> is fresh
  exactly on a free key and then reserves it, a reserved key answers in-flight, a committed key
  replays its record, a rolled back key is free again. Each command may end answered, failed, or
  applied with its answer lost: an operation that fails leaves its key as it was or as a success would
  have left it, and no operation touches another key.
\<close>

theorem redis_store_refines_contract:
  assumes "redis_server R" and "codec_ok dc"
  shows "idempotency_store (redis_idem_store R dc (redis_idempotency_new reserve result) F) (redis_view R dc)"
  using redis_server.redis_idempotency_store [OF assms(1,2) refl] .

theorem redis_store_refines_contract_witness:
  "idempotency_store (redis_idem_store mem_redis example_codec (redis_idempotency_new 180 3600)
       (all_answered\<lparr>ie_setnx_end := (\<lambda>_ _. CmdLost ''reset'')\<rparr>))
     (redis_view mem_redis example_codec)"
  by (rule redis_store_refines_contract [OF mem.redis_server_axioms example_codec_ok])

text \<open>
  The deduplication windows. From a reservation on, every further attempt within the reservation
  lifetime is told the send is in flight; from a commit on, every attempt within the result
  lifetime gets the first result back, however the attempts and the passing time interleave.
\<close>

theorem dedup_windows:
  assumes "redis_server R" and "codec_ok dc" and "record_ok rec"
    and "cfg = redis_idempotency_new reserve result"
  shows "(r_get R r key = None \<and> total_wait evs < max reserve 1 * 1000 \<longrightarrow>
            (case idem_begin R dc cfg key [quiet_round] r of
               Some (res, r') \<Rightarrow> res = Ok Fresh \<and> set (run_attempts R dc cfg key evs r') \<subseteq> {Ok InFlight}
             | None \<Rightarrow> False))
    \<and> (total_wait evs < max result 1 * 1000 \<longrightarrow>
            (case idem_commit R dc cfg key rec CmdDone r of
               (res, r') \<Rightarrow> res = Ok () \<and> set (run_attempts R dc cfg key evs r') \<subseteq> {Ok (Replay rec)}))"
proof -
  have cfg: "ri_reserve_ttl_secs cfg = max reserve 1" "0 < ri_reserve_ttl_secs cfg"
    "ri_result_ttl_secs cfg = max result 1"
    by (simp_all add: assms(4) redis_idempotency_new_def)
  note held = redis_server.run_attempts_held [OF assms(1) cfg(2)]
  note redis = redis_server.get_set [OF assms(1)] redis_server.pttl_set [OF assms(1)]
    redis_server.idem_begin_quiet [OF assms(1) cfg(2)]
  have "begin_of_value dc PENDING_MARKER = InFlight" "begin_of_value dc (idem_encode dc rec) = Replay rec"
    using decode_encode [OF assms(3,2)] encode_not_pending by (simp_all add: begin_of_value_def)
  moreover have "max reserve 1 * 1000 \<noteq> 0" "max result 1 * 1000 \<noteq> 0" by auto
  ultimately show ?thesis
    using held [of "r_set R key PENDING_MARKER (Some (max reserve 1 * 1000)) r" key PENDING_MARKER
        "max reserve 1 * 1000" evs dc]
      held [of "r_set R key (idem_encode dc rec) (Some (max result 1 * 1000)) r" key
        "idem_encode dc rec" "max result 1 * 1000" evs dc]
    by (simp add: redis cfg idem_commit_def send_cmd_def del: idem_begin.simps)
qed

theorem dedup_windows_witness:
  "(case idem_begin mem_redis example_codec (redis_idempotency_new 180 3600) ''k'' [quiet_round] mem_init of
      Some (res, r') \<Rightarrow> res = Ok Fresh \<and> set (run_attempts mem_redis example_codec
          (redis_idempotency_new 180 3600) ''k'' [TryBegin, Wait 5000, TryBegin] r') \<subseteq> {Ok InFlight}
    | None \<Rightarrow> False)
   \<and> (case idem_commit mem_redis example_codec (redis_idempotency_new 180 3600) ''k'' example_record CmdDone mem_init of
        (res, r') \<Rightarrow> res = Ok () \<and> set (run_attempts mem_redis example_codec
          (redis_idempotency_new 180 3600) ''k'' [Wait 5000, TryBegin] r') \<subseteq> {Ok (Replay example_record)})"
proof -
  have "r_get mem_redis mem_init ''k'' = None" by code_simp
  then show ?thesis
    using dedup_windows [OF mem.redis_server_axioms example_codec_ok example_record_ok refl, of mem_init "''k''"
        "[TryBegin, Wait 5000, TryBegin]" 180 3600]
      dedup_windows [OF mem.redis_server_axioms example_codec_ok example_record_ok refl, of mem_init "''k''"
        "[Wait 5000, TryBegin]" 180 3600]
    by simp
qed

end
