(* ===== verification/Rate_Limiter.thy ===== *)
theory Rate_Limiter
  imports Message_Model "HOL-Library.AList"
begin

text \<open>
  \<^verbatim>\<open>flare-message-ingest/src/application/handlers/send_rate_limiter.rs\<close>: the fixed-window limiter of the
  send boundary. The table is an association list with distinct keys; the order in which the hash
  table lists its keys when it is over capacity is the parameter \<open>victims\<close>: the keys dropped for a
  number of entries to drop.
\<close>

section \<open>Configuration and state\<close>

record send_rate_limit_config =
  rl_enabled :: bool
  rl_tenant_per_second :: nat
  rl_tenant_sender_per_second :: nat
  rl_tenant_conversation_per_second :: nat
  rl_window_ms :: nat
  rl_max_tracked_keys :: nat

definition is_effective :: "send_rate_limit_config \<Rightarrow> bool" where
  "is_effective c \<longleftrightarrow> rl_enabled c \<and>
     (rl_tenant_per_second c > 0 \<or> rl_tenant_sender_per_second c > 0
      \<or> rl_tenant_conversation_per_second c > 0)"

definition rl_normalized :: "send_rate_limit_config \<Rightarrow> send_rate_limit_config" where
  "rl_normalized c =
     (let c = (if rl_window_ms c = 0 then c\<lparr>rl_window_ms := 1000\<rparr> else c);
          c = (if rl_max_tracked_keys c = 0 then c\<lparr>rl_max_tracked_keys := 200000\<rparr> else c)
      in c\<lparr>rl_max_tracked_keys := max (rl_max_tracked_keys c) 1024\<rparr>)"

record window_counter =
  window_start_ms :: nat
  wc_count :: nat

type_synonym rl_state = "(string \<times> window_counter) list"
type_synonym rl_victims = "nat \<Rightarrow> rl_state \<Rightarrow> string list"

datatype rate_limit_scope = ScopeTenant | ScopeTenantSender | ScopeTenantConversation

fun scope_label :: "rate_limit_scope \<Rightarrow> string" where
  "scope_label ScopeTenant = ''tenant''"
| "scope_label ScopeTenantSender = ''tenant_sender''"
| "scope_label ScopeTenantConversation = ''tenant_conversation''"

record rate_limit_check =
  rc_key :: string
  rc_scope :: rate_limit_scope
  rc_limit :: nat

section \<open>Operations\<close>

definition non_empty_or :: "string \<Rightarrow> string \<Rightarrow> string" where
  "non_empty_or value fallback = (let t = trim value in if t = [] then fallback else t)"

definition rate_limit_error :: "rate_limit_scope \<Rightarrow> nat \<Rightarrow> nat \<Rightarrow> flare_error" where
  "rate_limit_error scope limit window_ms =
     FlareError MessageRateLimitExceeded ''message send rate limit exceeded''"

definition build_checks :: "send_rate_limit_config \<Rightarrow> string \<Rightarrow> nat \<Rightarrow> message \<Rightarrow> rate_limit_check list" where
  "build_checks cfg tenant_id tenant_send_qps m =
     (if \<not> rl_enabled cfg then []
      else
        let tenant = non_empty_or tenant_id ''0'';
            sender = non_empty_or (m_sender_id m) ''_'';
            conversation = non_empty_or (m_conversation_id m) ''_'';
            tenant_limit = (if tenant_send_qps > 0 then tenant_send_qps else rl_tenant_per_second cfg)
        in (if tenant_limit > 0
            then [\<lparr>rc_key = ''tenant:'' @ tenant, rc_scope = ScopeTenant, rc_limit = tenant_limit\<rparr>] else [])
         @ (if rl_tenant_sender_per_second cfg > 0
            then [\<lparr>rc_key = ''tenant_sender:'' @ tenant @ '':'' @ sender, rc_scope = ScopeTenantSender,
                   rc_limit = rl_tenant_sender_per_second cfg\<rparr>] else [])
         @ (if rl_tenant_conversation_per_second cfg > 0
            then [\<lparr>rc_key = ''tenant_conversation:'' @ tenant @ '':'' @ conversation,
                   rc_scope = ScopeTenantConversation,
                   rc_limit = rl_tenant_conversation_per_second cfg\<rparr>] else []))"

definition trim_state :: "rl_victims \<Rightarrow> nat \<Rightarrow> nat \<Rightarrow> nat \<Rightarrow> rl_state \<Rightarrow> rl_state" where
  "trim_state victims now_ms window_ms max_keys st =
     (if length st \<le> max_keys then st
      else
        let oldest_live_window = now_ms - sat_mul_u64 window_ms 2;
            st' = filter (\<lambda>(k, c). oldest_live_window \<le> window_start_ms c) st
        in if length st' \<le> max_keys then st'
           else foldl (\<lambda>s k. AList.delete k s) st' (victims (length st' - max_keys) st'))"

definition current_count :: "nat \<Rightarrow> rl_state \<Rightarrow> string \<Rightarrow> nat" where
  "current_count ws st key =
     (case map_of st key of
        Some c \<Rightarrow> if window_start_ms c = ws then wc_count c else 0
      | None \<Rightarrow> 0)"

definition bump :: "nat \<Rightarrow> rl_state \<Rightarrow> rate_limit_check \<Rightarrow> rl_state" where
  "bump ws st check =
     (let c = (case map_of st (rc_key check) of Some c \<Rightarrow> c | None \<Rightarrow> \<lparr>window_start_ms = ws, wc_count = 0\<rparr>);
          c = (if window_start_ms c \<noteq> ws then \<lparr>window_start_ms = ws, wc_count = 0\<rparr> else c)
      in AList.update (rc_key check) (c\<lparr>wc_count := sat_add_u32 (wc_count c) 1\<rparr>) st)"

definition window_of :: "send_rate_limit_config \<Rightarrow> nat \<Rightarrow> nat" where
  "window_of cfg now_ms = (let w = max (rl_window_ms cfg) 1 in now_ms div w * w)"

definition check_at_millis :: "send_rate_limit_config \<Rightarrow> rl_victims \<Rightarrow> nat \<Rightarrow> string \<Rightarrow> nat \<Rightarrow> message \<Rightarrow>
     rl_state \<Rightarrow> unit result \<times> rl_state" where
  "check_at_millis cfg victims now_ms tenant_id tenant_send_qps m st =
     (let checks = build_checks cfg tenant_id tenant_send_qps m in
      if checks = [] then (Ok (), st)
      else
        let window_ms = max (rl_window_ms cfg) 1;
            ws = window_of cfg now_ms;
            trim = trim_state victims now_ms window_ms (rl_max_tracked_keys cfg);
            st = trim st
        in (case find (\<lambda>c. rc_limit c \<le> current_count ws st (rc_key c)) checks of
              Some c \<Rightarrow> (Err (rate_limit_error (rc_scope c) (rc_limit c) window_ms), st)
            | None \<Rightarrow> (Ok (), trim (foldl (bump ws) st checks))))"

definition rl_check :: "send_rate_limit_config \<Rightarrow> rl_victims \<Rightarrow> nat \<Rightarrow> string \<Rightarrow> nat \<Rightarrow> message \<Rightarrow>
     rl_state \<Rightarrow> unit result \<times> rl_state" where
  "rl_check cfg victims now_ms tenant_id tenant_send_qps m st =
     (if \<not> rl_enabled cfg then (Ok (), st)
      else if \<not> is_effective cfg \<and> tenant_send_qps = 0 then (Ok (), st)
      else check_at_millis cfg victims now_ms tenant_id tenant_send_qps m st)"

section \<open>Runs\<close>

text \<open>
  A run of requests; the log lists, for each accepted request, its window and each of its keys.
\<close>

record rl_request =
  rr_now :: nat
  rr_tenant :: string
  rr_qps :: nat
  rr_message :: message

abbreviation request_checks :: "send_rate_limit_config \<Rightarrow> rl_request \<Rightarrow> rate_limit_check list" where
  "request_checks cfg q \<equiv> build_checks cfg (rr_tenant q) (rr_qps q) (rr_message q)"

fun run_limiter :: "send_rate_limit_config \<Rightarrow> rl_victims \<Rightarrow> rl_request list \<Rightarrow> rl_state \<Rightarrow>
     (nat \<times> string) list" where
  "run_limiter cfg victims [] st = []"
| "run_limiter cfg victims (q # qs) st =
     (case rl_check cfg victims (rr_now q) (rr_tenant q) (rr_qps q) (rr_message q) st of
        (Inl e, st') \<Rightarrow> run_limiter cfg victims qs st'
      | (Inr _, st') \<Rightarrow>
          map (\<lambda>c. (window_of cfg (rr_now q), rc_key c)) (request_checks cfg q)
            @ run_limiter cfg victims qs st')"

text \<open>
  The oldest window that counts as live, and the keys of the requests up to \<open>now\<close> whose windows are live
  then: the entries the table cannot do without.
\<close>

definition live_from :: "send_rate_limit_config \<Rightarrow> nat \<Rightarrow> nat" where
  "live_from cfg now = now - sat_mul_u64 (max (rl_window_ms cfg) 1) 2"

definition recent_keys :: "send_rate_limit_config \<Rightarrow> rl_request list \<Rightarrow> nat \<Rightarrow> string set" where
  "recent_keys cfg qs now = set (concat (map (\<lambda>q. map rc_key (request_checks cfg q))
     (filter (\<lambda>q. live_from cfg now \<le> window_of cfg (rr_now q) \<and> rr_now q \<le> now) qs)))"

section \<open>Facts\<close>

lemma build_checks_distinct: "distinct (map rc_key (build_checks cfg t q m))"
  by (simp add: build_checks_def Let_def)

lemma rl_check_checks:
  "rl_check cfg victims now t q m st =
     (if build_checks cfg t q m = [] then (Ok (), st) else check_at_millis cfg victims now t q m st)"
proof (cases "rl_enabled cfg \<and> (is_effective cfg \<or> q \<noteq> 0)")
  case True
  then show ?thesis by (auto simp: rl_check_def check_at_millis_def)
next
  case False
  then have "build_checks cfg t q m = []" by (auto simp: build_checks_def is_effective_def Let_def)
  with False show ?thesis by (auto simp: rl_check_def)
qed

lemma current_count_bump:
  "current_count ws (bump ws st c) k =
     (if k = rc_key c then sat_add_u32 (current_count ws st k) 1 else current_count ws st k)"
  by (auto simp: current_count_def bump_def Let_def update_conv' split: option.splits)

lemma current_count_bumps:
  assumes "distinct (map rc_key cs)" and "\<forall>c \<in> set cs. current_count ws st (rc_key c) < u32_max"
  shows "current_count ws (foldl (bump ws) st cs) k =
     current_count ws st k + count_list (map rc_key cs) k"
  using assms
proof (induction cs arbitrary: st)
  case Nil
  then show ?case by simp
next
  case (Cons c cs)
  have "\<forall>c' \<in> set cs. current_count ws (bump ws st c) (rc_key c') < u32_max"
    using Cons.prems by (fastforce simp: current_count_bump image_iff)
  then have "current_count ws (foldl (bump ws) st (c # cs)) k =
      current_count ws (bump ws st c) k + count_list (map rc_key cs) k"
    using Cons by simp
  then show ?case
    using Cons.prems by (auto simp: current_count_bump sat_add_u32_exact)
qed

lemma foldl_bump_keys:
  "distinct (map fst st) \<Longrightarrow> distinct (map fst (foldl (bump ws) st cs))
     \<and> fst ` set (foldl (bump ws) st cs) = fst ` set st \<union> rc_key ` set cs"
  by (induction cs arbitrary: st)
    (auto simp: bump_def Let_def distinct_update dom_update image_Un)

text \<open>Counters never run ahead of the current window while time does not go back.\<close>

definition starts_by :: "nat \<Rightarrow> rl_state \<Rightarrow> bool" where
  "starts_by ws st \<longleftrightarrow> (\<forall>k c. map_of st k = Some c \<longrightarrow> window_start_ms c \<le> ws)"

lemma starts_by_bump1: "starts_by ws st \<Longrightarrow> starts_by ws (bump ws st c)"
  by (auto simp: starts_by_def bump_def Let_def update_conv' split: option.splits if_splits)

lemma starts_by_bump: "starts_by ws st \<Longrightarrow> starts_by ws (foldl (bump ws) st cs)"
  by (induction cs arbitrary: st) (simp_all add: starts_by_bump1)

lemma current_count_later: "starts_by ws st \<Longrightarrow> ws < ws' \<Longrightarrow> current_count ws' st k = 0"
  by (fastforce simp: starts_by_def current_count_def split: option.splits)

lemma window_of_mono: "a \<le> b \<Longrightarrow> window_of cfg a \<le> window_of cfg b"
  by (auto simp: window_of_def Let_def intro!: mult_le_mono div_le_mono)

text \<open>
  The limiter state agrees with the log of what it let through: in the newest window the counters are
  the numbers of accepted requests.
\<close>

definition limiter_inv :: "nat \<Rightarrow> rl_state \<Rightarrow> (nat \<times> string) list \<Rightarrow> bool" where
  "limiter_inv ws st log \<longleftrightarrow> distinct (map fst st) \<and> starts_by ws st
     \<and> (\<forall>e \<in> set log. fst e \<le> ws) \<and> (\<forall>k. current_count ws st k = count_list log (ws, k))"

lemma limiter_inv_later: "limiter_inv ws st log \<Longrightarrow> ws \<le> ws' \<Longrightarrow> limiter_inv ws' st log"
proof (cases "ws = ws'")
  case False
  assume inv: "limiter_inv ws st log" and "ws \<le> ws'"
  with False have lt: "ws < ws'" by simp
  have "(ws', k) \<notin> set log" for k using inv lt by (force simp: limiter_inv_def)
  moreover have "starts_by ws' st" "\<forall>e \<in> set log. fst e \<le> ws'" "distinct (map fst st)"
    using inv lt by (fastforce simp: limiter_inv_def starts_by_def)+
  moreover have "current_count ws' st k = 0" for k
    using inv lt by (intro current_count_later) (auto simp: limiter_inv_def)
  ultimately show ?thesis by (simp add: limiter_inv_def count_list_0_iff)
qed simp

lemma count_list_distinct: "distinct xs \<Longrightarrow> count_list xs x = (if x \<in> set xs then 1 else 0)"
  by (induction xs) (auto simp: count_list_0_iff)

lemma count_list_map_Pair: "count_list (map (\<lambda>c. (ws, f c)) cs) (ws, k) = count_list (map f cs) k"
  by (induction cs) auto

lemma limiter_inv_accept:
  assumes inv: "limiter_inv ws st log" and cs: "distinct (map rc_key cs)"
    and below: "\<forall>c \<in> set cs. current_count ws st (rc_key c) < rc_limit c \<and> rc_limit c \<le> u32_max"
  shows "limiter_inv ws (foldl (bump ws) st cs) (log @ map (\<lambda>c. (ws, rc_key c)) cs)"
proof -
  have "\<forall>c \<in> set cs. current_count ws st (rc_key c) < u32_max" using below by fastforce
  note counts = current_count_bumps [OF cs this]
  show ?thesis
    using inv foldl_bump_keys [of st ws cs] starts_by_bump [of ws st cs]
    by (auto simp: limiter_inv_def counts count_list_map_Pair count_list_append)
qed

text \<open>Every counter of the table comes from a request of the run.\<close>

definition sourced :: "send_rate_limit_config \<Rightarrow> rl_request list \<Rightarrow> nat \<Rightarrow> rl_state \<Rightarrow> bool" where
  "sourced cfg qs now st \<longleftrightarrow> (\<forall>k c. map_of st k = Some c \<longrightarrow>
     (\<exists>q \<in> set qs. k \<in> rc_key ` set (request_checks cfg q) \<and> window_start_ms c = window_of cfg (rr_now q) \<and> rr_now q \<le> now))"

lemma sourced_later: "sourced cfg qs now st \<Longrightarrow> now \<le> now' \<Longrightarrow> sourced cfg qs now' st"
  unfolding sourced_def by (meson order_trans)

lemma sourced_bump1:
  assumes "sourced cfg qs now st" "q \<in> set qs" "c \<in> set (request_checks cfg q)" "rr_now q \<le> now"
  shows "sourced cfg qs now (bump (window_of cfg (rr_now q)) st c)"
  using assms unfolding sourced_def
  by (auto simp: bump_def Let_def update_conv' split: option.splits if_splits)

lemma sourced_bump:
  assumes "sourced cfg qs now st" "q \<in> set qs" "set cs \<subseteq> set (request_checks cfg q)" "rr_now q \<le> now"
  shows "sourced cfg qs now (foldl (bump (window_of cfg (rr_now q))) st cs)"
  using assms by (induction cs arbitrary: st) (simp_all add: sourced_bump1)

text \<open>
  Trimming. When the keys with live windows fit the table, it drops dead counters only: the counters of
  the current window stay.
\<close>

lemma map_of_live:
  "distinct (map fst st) \<Longrightarrow> map_of (filter (\<lambda>(k, c). P c) st) k =
     (case map_of st k of Some c \<Rightarrow> if P c then Some c else None | None \<Rightarrow> None)"
proof (induction st)
  case (Cons x st)
  obtain k' c' where x: "x = (k', c')" by fastforce
  have "map_of st k = None" if "k = k'"
    using Cons.prems x that by (auto simp: map_of_eq_None_iff)
  with Cons x show ?case by (auto split: option.splits)
qed simp

lemma window_live:
  assumes "rl_window_ms cfg \<le> u64_max"
  shows "live_from cfg now \<le> window_of cfg now"
proof -
  let ?w = "max (rl_window_ms cfg) 1"
  have "?w \<le> sat_mul_u64 ?w 2" using assms by (auto simp: sat_mul_u64_def)
  moreover have "now - ?w \<le> now div ?w * ?w"
    using div_mult_mod_eq [of now ?w] mod_less_divisor [of ?w now] by linarith
  ultimately show ?thesis
    unfolding live_from_def window_of_def Let_def using order_trans [OF diff_le_mono2] by blast
qed

lemma trim_state_cases:
  assumes "distinct (map fst st)" and "sourced cfg qs now st" and "card (recent_keys cfg qs now) \<le> n"
  shows "trim_state victims now (max (rl_window_ms cfg) 1) n st
     \<in> {st, filter (\<lambda>(k, c). live_from cfg now \<le> window_start_ms c) st}"
proof -
  let ?st = "filter (\<lambda>(k, c). live_from cfg now \<le> window_start_ms c) st"
  have "fst ` set ?st \<subseteq> recent_keys cfg qs now"
  proof
    fix k assume "k \<in> fst ` set ?st"
    then obtain c where "(k, c) \<in> set st" "live_from cfg now \<le> window_start_ms c" by auto
    with assms(1,2) show "k \<in> recent_keys cfg qs now"
      by (fastforce simp: recent_keys_def sourced_def)
  qed
  from card_mono [OF _ this] have "card (fst ` set ?st) \<le> n" using assms(3) by (simp add: recent_keys_def)
  moreover have "distinct (map fst ?st)" by (rule distinct_map_filter [OF assms(1)])
  ultimately have "length ?st \<le> n" using distinct_card [of "map fst ?st"] by simp
  then show ?thesis by (simp add: trim_state_def Let_def live_from_def)
qed

lemma trim_state_keeps:
  assumes inv: "limiter_inv ws st log" and src: "sourced cfg qs now st" and room: "card (recent_keys cfg qs now) \<le> n"
    and ws: "live_from cfg now \<le> ws"
    and st': "st' = trim_state victims now (max (rl_window_ms cfg) 1) n st"
  shows "limiter_inv ws st' log \<and> sourced cfg qs now st'"
proof (cases "st' = st")
  case False
  have d: "distinct (map fst st)" using inv by (simp add: limiter_inv_def)
  from trim_state_cases [OF d src room, of victims] False
  have eq: "st' = filter (\<lambda>(k, c). live_from cfg now \<le> window_start_ms c) st" by (simp add: st')
  note m = map_of_live [OF d, of "\<lambda>c. live_from cfg now \<le> window_start_ms c"]
  have "current_count ws st' k = current_count ws st k" for k
    using ws by (auto simp: current_count_def eq m split: option.splits)
  moreover have "starts_by ws st'" "sourced cfg qs now st'"
    using inv src by (auto simp: limiter_inv_def starts_by_def sourced_def eq m split: option.splits if_splits)
  moreover have "distinct (map fst st')" using distinct_map_filter [OF d] by (simp add: eq)
  ultimately show ?thesis using inv by (simp add: limiter_inv_def)
qed (use inv src in simp)

text \<open>One request against a table that has room for the keys with live windows.\<close>

lemma rl_check_step:
  assumes inv: "limiter_inv ws st log" and later: "ws \<le> window_of cfg (rr_now q)"
    and src: "sourced cfg qs (rr_now q) st" and q: "q \<in> set qs" and w: "rl_window_ms cfg \<le> u64_max"
    and room: "card (recent_keys cfg qs (rr_now q)) \<le> rl_max_tracked_keys cfg"
    and lim: "\<forall>c \<in> set (request_checks cfg q). rc_limit c \<le> u32_max"
    and run: "rl_check cfg victims (rr_now q) (rr_tenant q) (rr_qps q) (rr_message q) st = (res, st')"
  obtains e where "res = Err e" "limiter_inv (window_of cfg (rr_now q)) st' log" "sourced cfg qs (rr_now q) st'"
  | "res = Ok ()" "sourced cfg qs (rr_now q) st'"
    "limiter_inv (window_of cfg (rr_now q)) st' (log @ map (\<lambda>c. (window_of cfg (rr_now q), rc_key c)) (request_checks cfg q))"
    "\<forall>c \<in> set (request_checks cfg q). count_list log (window_of cfg (rr_now q), rc_key c) < rc_limit c"
proof (cases "request_checks cfg q = []")
  case True
  with run have "res = Ok ()" "st' = st" by (simp_all add: rl_check_checks)
  with that(2) True limiter_inv_later [OF inv later] src show thesis by simp
next
  case False
  let ?ws = "window_of cfg (rr_now q)" let ?cs = "request_checks cfg q"
  let ?trim = "trim_state victims (rr_now q) (max (rl_window_ms cfg) 1) (rl_max_tracked_keys cfg)"
  note keeps = trim_state_keeps [OF _ _ room window_live [OF w] refl, of _ _ victims]
  have 1: "limiter_inv ?ws (?trim st) log" "sourced cfg qs (rr_now q) (?trim st)"
    using keeps [OF limiter_inv_later [OF inv later] src] by blast+
  from run False have r: "(case find (\<lambda>c. rc_limit c \<le> current_count ?ws (?trim st) (rc_key c)) ?cs of
      Some c \<Rightarrow> (Err (rate_limit_error (rc_scope c) (rc_limit c) (max (rl_window_ms cfg) 1)), ?trim st)
    | None \<Rightarrow> (Ok (), ?trim (foldl (bump ?ws) (?trim st) ?cs))) = (res, st')"
    by (simp add: rl_check_checks check_at_millis_def Let_def del: One_nat_def)
  show thesis
  proof (cases "find (\<lambda>c. rc_limit c \<le> current_count ?ws (?trim st) (rc_key c)) ?cs")
    case (Some c)
    with r that(1) 1 show thesis by auto
  next
    case None
    then have below: "\<forall>c \<in> set ?cs. current_count ?ws (?trim st) (rc_key c) < rc_limit c"
      by (auto simp: find_None_iff)
    have 2: "limiter_inv ?ws (foldl (bump ?ws) (?trim st) ?cs) (log @ map (\<lambda>c. (?ws, rc_key c)) ?cs)"
      by (rule limiter_inv_accept [OF 1(1) build_checks_distinct]) (use below lim in auto)
    have "sourced cfg qs (rr_now q) (foldl (bump ?ws) (?trim st) ?cs)"
      by (rule sourced_bump [OF 1(2) q]) simp_all
    from keeps [OF 2 this] None r that(2) below 1(1) show thesis by (simp add: limiter_inv_def)
  qed
qed

lemma run_limiter_bound:
  assumes "limiter_inv ws0 st log" and "\<forall>q \<in> set qs. ws0 \<le> window_of cfg (rr_now q)"
    and "sorted (map rr_now qs)" and "\<forall>q \<in> set qs. sourced cfg Q (rr_now q) st" and "set qs \<subseteq> set Q"
    and "rl_window_ms cfg \<le> u64_max"
    and "\<forall>q \<in> set Q. card (recent_keys cfg Q (rr_now q)) \<le> rl_max_tracked_keys cfg"
    and "\<forall>q \<in> set Q. \<forall>c \<in> set (request_checks cfg q). rc_limit c \<le> u32_max"
    and "\<forall>q \<in> set Q. \<forall>c \<in> set (request_checks cfg q). rc_key c = k \<longrightarrow> rc_limit c \<le> L"
    and "count_list log (ws, k) \<le> L"
  shows "count_list (log @ run_limiter cfg victims qs st) (ws, k) \<le> L"
  using assms
proof (induction qs arbitrary: ws0 st log)
  case Nil
  then show ?case by simp
next
  case (Cons q qs)
  obtain res st' where run: "rl_check cfg victims (rr_now q) (rr_tenant q) (rr_qps q) (rr_message q) st = (res, st')"
    by fastforce
  let ?ws = "window_of cfg (rr_now q)" let ?cs = "request_checks cfg q"
  have later: "\<forall>q' \<in> set qs. ?ws \<le> window_of cfg (rr_now q')" "\<forall>q' \<in> set qs. rr_now q \<le> rr_now q'"
    "sorted (map rr_now qs)" "set qs \<subseteq> set Q"
    using Cons.prems(3,5) by (auto intro: window_of_mono)
  have prems: "ws0 \<le> ?ws" "sourced cfg Q (rr_now q) st" "q \<in> set Q"
    "card (recent_keys cfg Q (rr_now q)) \<le> rl_max_tracked_keys cfg" "\<forall>c \<in> set ?cs. rc_limit c \<le> u32_max"
    using Cons.prems(2,4,5,7,8) by auto
  have src: "\<forall>q' \<in> set qs. sourced cfg Q (rr_now q') st'" if "sourced cfg Q (rr_now q) st'"
    using sourced_later [OF that] later(2) by blast
  note IH = Cons.IH [OF _ later(1,3) src later(4) Cons.prems(6-9)]
  show ?case
  proof (rule rl_check_step [OF Cons.prems(1) prems(1-3) Cons.prems(6) prems(4,5) run])
    fix e assume "res = Err e" "limiter_inv ?ws st' log" "sourced cfg Q (rr_now q) st'"
    with run IH [of log] Cons.prems(10) show ?thesis by simp
  next
    let ?log = "log @ map (\<lambda>c. (?ws, rc_key c)) ?cs"
    assume ok: "res = Ok ()" "sourced cfg Q (rr_now q) st'" "limiter_inv ?ws st' ?log"
      "\<forall>c \<in> set ?cs. count_list log (?ws, rc_key c) < rc_limit c"
    have "count_list ?log (ws, k) \<le> L"
    proof (cases "ws = ?ws \<and> k \<in> rc_key ` set ?cs")
      case True
      then obtain c where "c \<in> set ?cs" "k = rc_key c" by auto
      with ok(4) Cons.prems(9) prems(3) True have "count_list log (ws, k) < L" by fastforce
      moreover have "count_list (map rc_key ?cs) k = 1"
        using True by (simp add: count_list_distinct [OF build_checks_distinct])
      ultimately show ?thesis using True by (simp add: count_list_append count_list_map_Pair)
    next
      case False
      then have "(ws, k) \<notin> set (map (\<lambda>c. (?ws, rc_key c)) ?cs)" by auto
      then show ?thesis using Cons.prems(10) by (simp add: count_list_append count_list_0_iff)
    qed
    from IH [OF ok(3,2) this] run ok(1) show ?thesis by simp
  qed
qed

section \<open>Properties\<close>

text \<open>
  C40: while the clock does not go back, and at each request the keys whose windows are live then (those
  that began at most two windows ago) fit the table, no more requests are let through for a key (a
  tenant, a tenant's sender or a tenant's conversation) in one window than the largest limit applied
  to that key, however many dead windows the table drops to make room. Limits taken from the tenant's
  projected quota may change from request to request. With more live keys than the table holds, the
  limiter drops live counters and counts them anew.
\<close>

theorem window_limit_respected:
  assumes "sorted (map rr_now qs)" and "rl_window_ms cfg \<le> u64_max"
    and "\<forall>q \<in> set qs. card (recent_keys cfg qs (rr_now q)) \<le> rl_max_tracked_keys cfg"
    and "\<forall>q \<in> set qs. \<forall>c \<in> set (request_checks cfg q). rc_limit c \<le> u32_max"
    and "\<forall>q \<in> set qs. \<forall>c \<in> set (request_checks cfg q). rc_key c = k \<longrightarrow> rc_limit c \<le> L"
  shows "count_list (run_limiter cfg victims qs []) (ws, k) \<le> L"
proof -
  have "limiter_inv 0 [] []" "\<forall>q \<in> set qs. sourced cfg qs (rr_now q) []"
    by (simp_all add: limiter_inv_def starts_by_def current_count_def sourced_def)
  from run_limiter_bound [OF this(1) _ assms(1) this(2) _ assms(2-5), of ws victims] show ?thesis by simp
qed

text \<open>
  A table for one key: the counter of the first sender is dropped when the second one comes, five seconds
  later.
\<close>

definition example_limits :: send_rate_limit_config where
  "example_limits = \<lparr>rl_enabled = True, rl_tenant_per_second = 0,
     rl_tenant_sender_per_second = 2, rl_tenant_conversation_per_second = 0, rl_window_ms = 1000,
     rl_max_tracked_keys = 1\<rparr>"

definition example_burst :: "rl_request list" where
  "example_burst = map (\<lambda>(t, u). \<lparr>rr_now = t, rr_tenant = ''t'', rr_qps = 0,
     rr_message = default_message\<lparr>m_sender_id := u\<rparr>\<rparr>) [(0, ''u''), (10, ''u''), (20, ''u''), (5000, ''v'')]"

theorem window_limit_respected_witness:
  "count_list (run_limiter example_limits (\<lambda>_ _. []) example_burst []) (0, ''tenant_sender:t:u'') \<le> 2
   \<and> run_limiter example_limits (\<lambda>_ _. []) example_burst [] =
       [(0, ''tenant_sender:t:u''), (0, ''tenant_sender:t:u''), (5000, ''tenant_sender:t:v'')]"
proof
  have "sorted (map rr_now example_burst)" by (simp add: example_burst_def)
  moreover have "list_all (\<lambda>q. card (recent_keys example_limits example_burst (rr_now q)) \<le> rl_max_tracked_keys example_limits)
      example_burst" by code_simp
  moreover have "list_all (\<lambda>q. list_all (\<lambda>c. rc_limit c = 2) (request_checks example_limits q)) example_burst" by code_simp
  moreover have "rl_window_ms example_limits \<le> u64_max" by (simp add: example_limits_def)
  ultimately show "count_list (run_limiter example_limits (\<lambda>_ _. []) example_burst []) (0, ''tenant_sender:t:u'') \<le> 2"
    by (intro window_limit_respected) (simp_all add: list_all_iff)
  show "run_limiter example_limits (\<lambda>_ _. []) example_burst [] =
       [(0, ''tenant_sender:t:u''), (0, ''tenant_sender:t:u''), (5000, ''tenant_sender:t:v'')]"
    by code_simp
qed

lemma sep_tail_neq:
  assumes "CHR '':'' \<notin> set t" "CHR '':'' \<notin> set t'" "t \<noteq> t'"
  shows "t @ CHR '':'' # a \<noteq> t' @ CHR '':'' # b"
  using append_sep_inject [OF assms(1,2)] assms(3) by blast

text \<open>
  Tenants do not share limiter keys: two requests under different valid tenants have no key in
  common, so neither can use up the other's allowance.
\<close>

theorem limiter_tenants_isolated:
  assumes "is_valid_tenant_id t" and "is_valid_tenant_id t'" and "t \<noteq> t'"
  shows "rc_key ` set (build_checks cfg t q m) \<inter> rc_key ` set (build_checks cfg t' q' m') = {}"
proof -
  have n: "non_empty_or t ''0'' = t" "non_empty_or t' ''0'' = t'"
    using assms valid_tenant_no_ws
    by (auto simp: non_empty_or_def Let_def trim_no_ws is_valid_tenant_id_def)
  note neq = sep_tail_neq [OF valid_tenant_no_sep [OF assms(1)] valid_tenant_no_sep [OF assms(2)] assms(3)]
  show ?thesis
    using neq assms(3) by (auto simp: build_checks_def n Let_def split: if_splits)
qed

theorem limiter_tenants_isolated_witness:
  "rc_key ` set (build_checks example_limits ''a'' 5 default_message) \<inter>
   rc_key ` set (build_checks example_limits ''b'' 5 default_message) = {}"
proof -
  have "is_valid_tenant_id ''a''" "is_valid_tenant_id ''b''" by code_simp+
  from limiter_tenants_isolated [OF this] show ?thesis by simp
qed

end
