(* ===== verification/Send_Entry.thy ===== *)
theory Send_Entry
  imports Message_Model
begin

text \<open>
  Who may send what: the platform identities of \<^verbatim>\<open>crates/flare-im-service-kit/src/plugin_platform.rs\<close> and
  \<^verbatim>\<open>platform_send.rs\<close>, and the entry check \<^verbatim>\<open>authorize_message_claims\<close> of
  \<^verbatim>\<open>flare-message-ingest/src/interface/grpc/send_handler.rs\<close>. SHA-256 with its hex encoding is the
  parameter \<open>sha\<close>; what the code relies on is that it does not collide.
\<close>

section \<open>Identities\<close>

datatype signed_actor_type = ActorUser | ActorTenantAdmin | ActorService | ActorSystem | ActorOther

record signed_claims =
  cl_actor_type :: signed_actor_type
  cl_actor_id :: string
  cl_tenant_id :: string
  cl_roles :: "string list"
  cl_credential_id :: "string option"
  cl_request_id :: string
  cl_kid :: string

text \<open>The key ids are constants of the server core library: parameters.\<close>

record key_ids =
  kid_capability :: string
  kid_api_gateway :: string

definition PLUGIN_CARD_TYPE :: string where "PLUGIN_CARD_TYPE = ''flare.plugin.message.v1''"
definition PLUGIN_CARD_PAYLOAD_SCHEMA :: string where
  "PLUGIN_CARD_PAYLOAD_SCHEMA = ''flare.plugin.message/v1''"
definition CARD_POST_ROLE :: string where "CARD_POST_ROLE = ''plugin.card.post''"
definition CARD_CLIENT_MSG_ID_PREFIX :: string where "CARD_CLIENT_MSG_ID_PREFIX = ''pcard-''"
definition STATE_PUBLISH_ROLE :: string where "STATE_PUBLISH_ROLE = ''plugin.state.publish''"
definition STATE_PUBLISHER_ID :: string where "STATE_PUBLISHER_ID = ''flare-capability''"
definition SYSTEM_MESSAGE_SCOPE :: string where "SYSTEM_MESSAGE_SCOPE = ''platform.messages.send''"

abbreviation source_user :: int where "source_user \<equiv> 1"
abbreviation source_system :: int where "source_system \<equiv> 2"

definition is_ascii_uppercase :: "char \<Rightarrow> bool" where
  "is_ascii_uppercase c \<longleftrightarrow> 65 \<le> byte c \<and> byte c \<le> 90"

definition is_ascii_digit :: "char \<Rightarrow> bool" where
  "is_ascii_digit c \<longleftrightarrow> 48 \<le> byte c \<and> byte c \<le> 57"

definition is_platform_system_sender :: "key_ids \<Rightarrow> signed_claims \<Rightarrow> bool" where
  "is_platform_system_sender K claims \<longleftrightarrow>
     cl_actor_type claims = ActorService \<and> cl_kid claims = kid_api_gateway K
     \<and> cl_roles claims = [SYSTEM_MESSAGE_SCOPE]
     \<and> (case cl_credential_id claims of None \<Rightarrow> False
        | Some cid \<Rightarrow> length cid = 12
            \<and> list_all (\<lambda>b. is_ascii_uppercase b \<or> (50 \<le> byte b \<and> byte b \<le> 55)) cid)"

section \<open>Plugin cards\<close>

definition is_error_code :: "string \<Rightarrow> bool" where
  "is_error_code code \<longleftrightarrow> code \<noteq> [] \<and> length code \<le> 64
     \<and> list_all (\<lambda>b. is_ascii_uppercase b \<or> is_ascii_digit b \<or> b = CHR ''_'') code"

definition top_level_plugin_card :: "message \<Rightarrow> app_card option" where
  "top_level_plugin_card m =
     (case m_content m of
        Some (Some (AppCard ac)) \<Rightarrow> if card_type ac = PLUGIN_CARD_TYPE then Some ac else None
      | _ \<Rightarrow> None)"

definition eq_ignore_ascii_case :: "string \<Rightarrow> string \<Rightarrow> bool" where
  "eq_ignore_ascii_case a b \<longleftrightarrow> to_ascii_lowercase a = to_ascii_lowercase b"

definition is_plugin_card_type :: "string \<Rightarrow> bool" where
  "is_plugin_card_type value \<longleftrightarrow> eq_ignore_ascii_case (trim value) PLUGIN_CARD_TYPE"

definition claims_plugin_card :: "content option option \<Rightarrow> bool" where
  "claims_plugin_card content =
     (case content of
        Some (Some (AppCard ac)) \<Rightarrow> is_plugin_card_type (card_type ac)
      | Some (Some (Custom type _)) \<Rightarrow> is_plugin_card_type type
      | _ \<Rightarrow> False)"

definition message_claims_plugin_card :: "message \<Rightarrow> bool" where
  "message_claims_plugin_card m = claims_plugin_card (m_content m)"

definition is_reserved_client_msg_id :: "string \<Rightarrow> bool" where
  "is_reserved_client_msg_id cid \<longleftrightarrow>
     (let t = trim cid; n = length CARD_CLIENT_MSG_ID_PREFIX in
      n \<le> length t \<and> eq_ignore_ascii_case (take n t) CARD_CLIENT_MSG_ID_PREFIX)"

definition is_plugin_state_publisher :: "key_ids \<Rightarrow> signed_claims \<Rightarrow> bool" where
  "is_plugin_state_publisher K claims \<longleftrightarrow>
     cl_kid claims = kid_capability K \<and> cl_actor_type claims = ActorSystem
     \<and> cl_actor_id claims = STATE_PUBLISHER_ID \<and> cl_roles claims = [STATE_PUBLISH_ROLE]
     \<and> cl_credential_id claims = None"

definition is_card_post_context :: "key_ids \<Rightarrow> signed_claims \<Rightarrow> bool" where
  "is_card_post_context K claims \<longleftrightarrow> cl_kid claims = kid_capability K"

text \<open>A digest field: the length as eight big-endian bytes, then the bytes.\<close>

fun be_bytes :: "nat \<Rightarrow> nat \<Rightarrow> string" where
  "be_bytes 0 n = []"
| "be_bytes (Suc k) n = be_bytes k (n div 256) @ [char_of (n mod 256)]"

definition digest_field :: "string \<Rightarrow> string" where
  "digest_field value = be_bytes 8 (length value) @ value"

definition card_post_fields :: "string \<Rightarrow> message \<Rightarrow> app_card \<Rightarrow> string list" where
  "card_post_fields tenant_id m ac =
     [tenant_id, m_sender_id m, m_conversation_id m, m_client_msg_id m,
      show_int (m_conversation_type m), m_channel_id m, card_app_id ac, card_type ac,
      card_payload_schema ac, card_title ac, card_summary ac, card_payload ac]"

definition card_post_input :: "string \<Rightarrow> message \<Rightarrow> string option" where
  "card_post_input tenant_id m =
     (case top_level_plugin_card m of
        None \<Rightarrow> None
      | Some ac \<Rightarrow> Some (concat (map digest_field (card_post_fields tenant_id m ac))))"

definition card_post_request_id :: "(string \<Rightarrow> string) \<Rightarrow> string \<Rightarrow> message \<Rightarrow> string option" where
  "card_post_request_id sha tenant_id m =
     (case card_post_input tenant_id m of None \<Rightarrow> None | Some input \<Rightarrow> Some (''pcard2-'' @ sha input))"

definition verify_card_post :: "key_ids \<Rightarrow> (string \<Rightarrow> string) \<Rightarrow> signed_claims \<Rightarrow> message \<Rightarrow> string + unit" where
  "verify_card_post K sha claims m =
     (if cl_kid claims \<noteq> kid_capability K \<or> cl_actor_type claims \<noteq> ActorUser
         \<or> cl_roles claims \<noteq> [CARD_POST_ROLE] \<or> cl_credential_id claims \<noteq> None
      then Inl ''not a platform card post identity''
      else (case top_level_plugin_card m of
              None \<Rightarrow> Inl ''a card post carries a plugin card only''
            | Some ac \<Rightarrow>
                if m_sender_id m \<noteq> cl_actor_id claims \<or> m_source m \<noteq> source_user
                   \<or> m_message_type m \<noteq> MtAppCard \<or> m_attributes m \<noteq> Map.empty
                   \<or> \<not> starts_with (m_client_msg_id m) CARD_CLIENT_MSG_ID_PREFIX
                   \<or> m_conversation_id m = [] \<or> card_app_id ac = []
                   \<or> card_payload_schema ac \<noteq> PLUGIN_CARD_PAYLOAD_SCHEMA
                   \<or> card_subtitle ac \<noteq> [] \<or> card_thumbnail_url ac \<noteq> []
                   \<or> card_actions ac \<noteq> [] \<or> card_attributes ac \<noteq> Map.empty
                then Inl ''card post does not match the platform card shape''
                else if m_server_id m \<noteq> [] \<or> m_conversation_seq m \<noteq> 0 \<or> m_message_seq m \<noteq> None
                   \<or> m_created_at m \<noteq> 0 \<or> m_status m \<noteq> 0 \<or> m_sender_name m \<noteq> []
                   \<or> m_sender_avatar m \<noteq> [] \<or> m_thread_id m \<noteq> None \<or> m_retention_policy m \<noteq> None
                   \<or> m_retention_state m \<noteq> None \<or> m_offline_push_info m \<noteq> None
                   \<or> m_extensions m \<noteq> Map.empty
                then Inl ''card post sets a field the platform never sets''
                else if card_post_request_id sha (cl_tenant_id claims) m \<noteq> Some (cl_request_id claims)
                then Inl ''card post is not the one the context was signed for''
                else Inr ()))"

section \<open>The entry check\<close>

datatype status_code = StUnauthenticated | StPermissionDenied | StUnavailable | StInvalidArgument

datatype status = Status status_code string

abbreviation denied :: "string \<Rightarrow> status + 'a" where
  "denied msg \<equiv> Inl (Status StPermissionDenied msg)"

definition attribute_mismatch :: "message \<Rightarrow> string \<Rightarrow> string \<Rightarrow> bool" where
  "attribute_mismatch m key expected \<longleftrightarrow>
     (case m_attributes m key of None \<Rightarrow> False | Some actual \<Rightarrow> actual \<noteq> expected)"

definition platform_system_content_ok :: "content option option \<Rightarrow> bool" where
  "platform_system_content_ok c =
     (case c of
        Some (Some (SystemContent event_kind body attributes payload)) \<Rightarrow>
          starts_with event_kind ''platform.''
          \<and> (let kind = drop (length ''platform.'') event_kind in
               kind \<noteq> [] \<and> length kind \<le> 64
               \<and> list_all (\<lambda>b. is_ascii_alphanumeric b \<or> b = CHR ''_'' \<or> b = CHR ''-'') kind)
          \<and> trim body \<noteq> [] \<and> length body \<le> 8192 \<and> attributes = Map.empty \<and> payload = []
      | _ \<Rightarrow> False)"

definition authorize_message_claims ::
  "key_ids \<Rightarrow> (string \<Rightarrow> string) \<Rightarrow> signed_claims \<Rightarrow> message \<Rightarrow> bool \<Rightarrow> status + unit" where
  "authorize_message_claims K sha claims m system_only =
     (if cl_tenant_id claims \<noteq> normalize_tenant_id (cl_tenant_id claims) then
        denied ''non-canonical tenant identity''
      else if m_attributes m ''x-social-internal-send-token'' \<noteq> None then
        denied ''legacy internal send credential forbidden''
      else if attribute_mismatch m ''x-tenant-id'' (cl_tenant_id claims)
           \<or> attribute_mismatch m ''tenant_id'' (cl_tenant_id claims)
           \<or> attribute_mismatch m ''x-request-id'' (cl_request_id claims) then
        denied ''message identity attribute mismatch''
      else if is_card_post_context K claims then
        (if system_only then denied ''invalid platform plugin card''
         else (case verify_card_post K sha claims m of
                 Inl _ \<Rightarrow> denied ''invalid platform plugin card'' | Inr u \<Rightarrow> Inr u))
      else if message_claims_plugin_card m then denied ''PLUGIN_CARD_PLATFORM_ONLY''
      else if is_reserved_client_msg_id (m_client_msg_id m) then denied ''PLUGIN_CARD_PLATFORM_ONLY''
      else if cl_actor_type claims = ActorUser \<and> \<not> system_only then
        (if m_sender_id m \<noteq> cl_actor_id claims \<or> m_source m \<noteq> source_user
            \<or> m_message_type m \<in> {MtSystem, MtNotification}
            \<or> m_attributes m ''message_type'' \<in> {Some ''system'', Some ''notification''}
            \<or> attribute_mismatch m ''x-user-id'' (cl_actor_id claims)
         then denied ''message sender does not match signed user'' else Inr ())
      else if cl_actor_type claims = ActorService \<and> is_platform_system_sender K claims then
        (if \<not> system_only \<or> m_source m \<noteq> source_system \<or> m_message_type m \<noteq> MtSystem
            \<or> m_sender_id m \<noteq> cl_actor_id claims \<or> m_attributes m \<noteq> Map.empty
            \<or> \<not> platform_system_content_ok (m_content m)
         then denied ''invalid platform system message'' else Inr ())
      else if cl_actor_type claims = ActorService \<and> cl_actor_id claims = ''flare-social-bridge'' then
        (if \<not> system_only \<and> m_message_type m \<notin> {MtSystem, MtNotification} then
           denied ''service may only send internal messages''
         else
           let expected_type = (if system_only then MtSystem else m_message_type m) in
           if m_source m \<noteq> source_system \<or> m_message_type m \<noteq> expected_type
              \<or> trim (m_sender_id m) = [] \<or> m_attributes m ''x-user-id'' \<noteq> None
           then denied ''invalid signed bridge message'' else Inr ())
      else denied ''actor not permitted to send message'')"

definition authorize_message ::
  "key_ids \<Rightarrow> (string \<Rightarrow> string) \<Rightarrow> signed_claims option \<Rightarrow> message \<Rightarrow> bool \<Rightarrow> status + unit" where
  "authorize_message K sha claims m system_only =
     (case claims of
        None \<Rightarrow> Inl (Status StUnauthenticated ''signed message identity required'')
      | Some claims \<Rightarrow> authorize_message_claims K sha claims m system_only)"

definition request_conversation_matches ::
  "key_ids \<Rightarrow> signed_claims option \<Rightarrow> string \<Rightarrow> message \<Rightarrow> status + unit" where
  "request_conversation_matches K claims request_conversation_id m =
     (let card_post = (case claims of None \<Rightarrow> False | Some c \<Rightarrow> is_card_post_context K c) in
      if card_post \<and> request_conversation_id \<noteq> [] \<and> request_conversation_id \<noteq> m_conversation_id m
      then denied ''invalid platform plugin card'' else Inr ())"

section \<open>The digest names its fields\<close>

lemma length_be_bytes [simp]: "length (be_bytes k n) = k"
  by (induction k arbitrary: n) auto

lemma be_bytes_inject: "n < 256 ^ k \<Longrightarrow> n' < 256 ^ k \<Longrightarrow> be_bytes k n = be_bytes k n' \<Longrightarrow> n = n'"
proof (induction k arbitrary: n n')
  case 0
  then show ?case by simp
next
  case (Suc k)
  have "n div 256 < 256 ^ k" "n' div 256 < 256 ^ k"
    using Suc.prems(1,2) by (auto simp: less_mult_imp_div_less mult.commute)
  moreover from Suc.prems(3) have "be_bytes k (n div 256) = be_bytes k (n' div 256)"
    and c: "char_of (n mod 256) = (char_of (n' mod 256) :: char)" by auto
  ultimately have "n div 256 = n' div 256" using Suc.IH by blast
  moreover from arg_cong [OF c, of "of_char :: char \<Rightarrow> nat"] have "n mod 256 = n' mod 256"
    by simp
  ultimately show ?case by (metis div_mult_mod_eq)
qed

lemma digest_field_inject:
  assumes "length a < 2 ^ 64" "length b < 2 ^ 64" "digest_field a @ s = digest_field b @ t"
  shows "a = b \<and> s = t"
proof -
  have "be_bytes 8 (length a) = be_bytes 8 (length b)" and r: "a @ s = b @ t"
    using assms(3) by (simp_all add: digest_field_def)
  moreover have "(256::nat) ^ 8 = 2 ^ 64" by simp
  ultimately have "length a = length b" using be_bytes_inject [of "length a" 8 "length b"] assms(1,2) by simp
  with r show ?thesis by simp
qed

lemma digest_fields_inject:
  assumes "length xs = length ys" "\<forall>x \<in> set xs \<union> set ys. length x < 2 ^ 64"
    and "concat (map digest_field xs) = concat (map digest_field ys)"
  shows "xs = ys"
  using assms
proof (induction xs ys rule: list_induct2)
  case Nil
  then show ?case by simp
next
  case (Cons x xs y ys)
  have "x = y \<and> concat (map digest_field xs) = concat (map digest_field ys)"
    using Cons.prems by (intro digest_field_inject) auto
  with Cons show ?case by auto
qed

lemma show_int_inject: "show_int i = show_int j \<Longrightarrow> i = j"
proof -
  assume e: "show_int i = show_int j"
  have "i < 0 \<longleftrightarrow> j < 0"
  proof -
    have "show_int k \<noteq> [] \<and> (hd (show_int k) = CHR ''-'' \<longleftrightarrow> k < 0)" for k
      using hd_to_decimal(1) by (simp add: show_int_def)
    from this [of i] this [of j] e show ?thesis by metis
  qed
  with e show "i = j" by (auto simp: show_int_def to_decimal_inject split: if_splits)
qed

text \<open>Fields of a card post that fit the length prefix.\<close>

definition fields_fit :: "string \<Rightarrow> message \<Rightarrow> bool" where
  "fields_fit tenant m \<longleftrightarrow>
     (case top_level_plugin_card m of None \<Rightarrow> True
      | Some ac \<Rightarrow> \<forall>x \<in> set (card_post_fields tenant m ac). length x < 2 ^ 64)"

lemma verify_card_post_Ok:
  assumes "verify_card_post K sha claims m = Inr ()"
  shows "\<exists>ac. m_content m = Some (Some (AppCard ac)) \<and> card_type ac = PLUGIN_CARD_TYPE
     \<and> ac = \<lparr>card_app_id = card_app_id ac, card_type = PLUGIN_CARD_TYPE,
          card_payload_schema = PLUGIN_CARD_PAYLOAD_SCHEMA, card_title = card_title ac,
          card_summary = card_summary ac, card_payload = card_payload ac, card_subtitle = [],
          card_thumbnail_url = [], card_actions = [], card_attributes = Map.empty\<rparr>
     \<and> m = default_message\<lparr>m_client_msg_id := m_client_msg_id m, m_conversation_id := m_conversation_id m,
          m_sender_id := cl_actor_id claims, m_channel_id := m_channel_id m, m_source := source_user,
          m_conversation_type := m_conversation_type m, m_message_type := MtAppCard,
          m_content := m_content m\<rparr>
     \<and> cl_request_id claims = ''pcard2-'' @
         sha (concat (map digest_field (card_post_fields (cl_tenant_id claims) m ac)))"
  using assms
  by (auto simp: verify_card_post_def top_level_plugin_card_def card_post_request_id_def card_post_input_def default_message_def
      split: if_split_asm option.splits content.splits)

section \<open>Properties\<close>

text \<open>
  A card post context authorizes one message. Two messages that the same signed context is
  accepted for are the same message in every field (the digest covers every field that may vary, and
  its length-prefixed encoding is unambiguous), as long as the hash does not collide on them.
\<close>

theorem card_post_authorizes_one_message:
  assumes "verify_card_post K sha claims m = Inr ()" and "verify_card_post K sha claims m' = Inr ()"
    and no_collision: "\<forall>x y. card_post_input (cl_tenant_id claims) m = Some x
       \<and> card_post_input (cl_tenant_id claims) m' = Some y \<and> sha x = sha y \<longrightarrow> x = y"
    and "fields_fit (cl_tenant_id claims) m" and "fields_fit (cl_tenant_id claims) m'"
  shows "m = m'"
proof -
  from verify_card_post_Ok [OF assms(1)] obtain c where c: "m_content m = Some (Some (AppCard c))"
    "card_type c = PLUGIN_CARD_TYPE"
    "c = \<lparr>card_app_id = card_app_id c, card_type = PLUGIN_CARD_TYPE,
          card_payload_schema = PLUGIN_CARD_PAYLOAD_SCHEMA, card_title = card_title c,
          card_summary = card_summary c, card_payload = card_payload c, card_subtitle = [],
          card_thumbnail_url = [], card_actions = [], card_attributes = Map.empty\<rparr>"
    "m = default_message\<lparr>m_client_msg_id := m_client_msg_id m, m_conversation_id := m_conversation_id m,
          m_sender_id := cl_actor_id claims, m_channel_id := m_channel_id m, m_source := source_user,
          m_conversation_type := m_conversation_type m, m_message_type := MtAppCard,
          m_content := m_content m\<rparr>"
    "cl_request_id claims = ''pcard2-'' @
         sha (concat (map digest_field (card_post_fields (cl_tenant_id claims) m c)))" by blast
  from verify_card_post_Ok [OF assms(2)] obtain d where d: "m_content m' = Some (Some (AppCard d))"
    "card_type d = PLUGIN_CARD_TYPE"
    "d = \<lparr>card_app_id = card_app_id d, card_type = PLUGIN_CARD_TYPE,
          card_payload_schema = PLUGIN_CARD_PAYLOAD_SCHEMA, card_title = card_title d,
          card_summary = card_summary d, card_payload = card_payload d, card_subtitle = [],
          card_thumbnail_url = [], card_actions = [], card_attributes = Map.empty\<rparr>"
    "m' = default_message\<lparr>m_client_msg_id := m_client_msg_id m', m_conversation_id := m_conversation_id m',
          m_sender_id := cl_actor_id claims, m_channel_id := m_channel_id m', m_source := source_user,
          m_conversation_type := m_conversation_type m', m_message_type := MtAppCard,
          m_content := m_content m'\<rparr>"
    "cl_request_id claims = ''pcard2-'' @
         sha (concat (map digest_field (card_post_fields (cl_tenant_id claims) m' d)))" by blast
  have "card_post_fields (cl_tenant_id claims) m c = card_post_fields (cl_tenant_id claims) m' d"
  proof (rule digest_fields_inject)
    show "\<forall>x \<in> set (card_post_fields (cl_tenant_id claims) m c) \<union> set (card_post_fields (cl_tenant_id claims) m' d).
        length x < 2 ^ 64"
      using assms(4,5) c(1,2) d(1,2) by (auto simp: fields_fit_def top_level_plugin_card_def)
    show "concat (map digest_field (card_post_fields (cl_tenant_id claims) m c)) =
        concat (map digest_field (card_post_fields (cl_tenant_id claims) m' d))" (is "?x = ?y")
    proof -
      have "card_post_input (cl_tenant_id claims) m = Some ?x" "card_post_input (cl_tenant_id claims) m' = Some ?y"
        using c(1,2) d(1,2) by (simp_all add: card_post_input_def top_level_plugin_card_def)
      moreover have "sha ?x = sha ?y" using c(5) d(5) by (metis same_append_eq)
      ultimately show "?x = ?y" using no_collision by blast
    qed
  qed (simp add: card_post_fields_def)
  then have eqs: "m_conversation_id m = m_conversation_id m'" "m_client_msg_id m = m_client_msg_id m'"
    "m_conversation_type m = m_conversation_type m'" "m_channel_id m = m_channel_id m'"
    "card_app_id c = card_app_id d" "card_title c = card_title d" "card_summary c = card_summary d"
    "card_payload c = card_payload d"
    by (auto simp: card_post_fields_def intro: show_int_inject)
  have "c = d" using c(3) d(3) eqs(5-) by metis
  then have "m_content m = m_content m'" using c(1) d(1) by simp
  then show ?thesis using c(4) d(4) eqs(1-4) by metis
qed

definition example_keys :: key_ids where
  "example_keys = \<lparr>kid_capability = ''capability'', kid_api_gateway = ''api-gateway''\<rparr>"

definition example_card_post :: message where
  "example_card_post = default_message\<lparr>m_sender_id := ''alice'', m_conversation_id := ''2-group'',
     m_client_msg_id := ''pcard-1'', m_source := source_user, m_message_type := MtAppCard,
     m_content := Some (Some (AppCard \<lparr>card_app_id = ''example.poll'', card_type = PLUGIN_CARD_TYPE,
       card_payload_schema = PLUGIN_CARD_PAYLOAD_SCHEMA, card_title = [], card_summary = [],
       card_payload = ''{}'', card_subtitle = [], card_thumbnail_url = [], card_actions = [],
       card_attributes = Map.empty\<rparr>))\<rparr>"

definition example_card_claims :: signed_claims where
  "example_card_claims = \<lparr>cl_actor_type = ActorUser, cl_actor_id = ''alice'', cl_tenant_id = ''app-a'',
     cl_roles = [CARD_POST_ROLE], cl_credential_id = None,
     cl_request_id = the (card_post_request_id (\<lambda>x. x) ''app-a'' example_card_post), cl_kid = ''capability''\<rparr>"

lemma example_card_post_ok:
  "verify_card_post example_keys (\<lambda>x. x) example_card_claims example_card_post = Inr ()"
  by (simp add: verify_card_post_def example_keys_def example_card_claims_def example_card_post_def
      default_message_def top_level_plugin_card_def card_post_request_id_def card_post_input_def starts_with_def
      CARD_CLIENT_MSG_ID_PREFIX_def)

lemma example_card_fits:
  "fields_fit (cl_tenant_id example_card_claims) (example_card_post\<lparr>m_client_msg_id := ''pcard-'' @ [c]\<rparr>)"
  by (simp add: fields_fit_def top_level_plugin_card_def example_card_post_def example_card_claims_def
      card_post_fields_def default_message_def PLUGIN_CARD_TYPE_def PLUGIN_CARD_PAYLOAD_SCHEMA_def
      show_int_def to_decimal.simps)

theorem card_post_authorizes_one_message_witness:
  "verify_card_post example_keys (\<lambda>x. x) example_card_claims example_card_post = Inr ()
   \<and> verify_card_post example_keys (\<lambda>x. x) example_card_claims
        (example_card_post\<lparr>m_client_msg_id := ''pcard-2''\<rparr>) \<noteq> Inr ()"
proof
  show ok: "verify_card_post example_keys (\<lambda>x. x) example_card_claims example_card_post = Inr ()"
    by (rule example_card_post_ok)
  have same: "example_card_post\<lparr>m_client_msg_id := ''pcard-1''\<rparr> = example_card_post"
    by (simp add: example_card_post_def)
  show "verify_card_post example_keys (\<lambda>x. x) example_card_claims
        (example_card_post\<lparr>m_client_msg_id := ''pcard-2''\<rparr>) \<noteq> Inr ()"
  proof
    assume "verify_card_post example_keys (\<lambda>x. x) example_card_claims
        (example_card_post\<lparr>m_client_msg_id := ''pcard-2''\<rparr>) = Inr ()"
    from card_post_authorizes_one_message [OF ok this] example_card_fits [of "CHR ''1''"]
      example_card_fits [of "CHR ''2''"] same
    have "example_card_post = example_card_post\<lparr>m_client_msg_id := ''pcard-2''\<rparr>" by simp
    from arg_cong [OF this, of m_client_msg_id] show False by (simp add: example_card_post_def)
  qed
qed

lemma verify_card_post_sender:
  assumes "verify_card_post K sha claims m = Inr ()"
  shows "m_sender_id m = cl_actor_id claims" "m_source m = source_user" "m_message_type m = MtAppCard"
  using assms by (simp_all add: verify_card_post_def split: if_split_asm option.splits)

lemma authorize_claims_tenant:
  assumes "authorize_message_claims K sha c m system_only = Inr ()"
  shows "normalize_tenant_id (cl_tenant_id c) = cl_tenant_id c"
    and "\<not> attribute_mismatch m ''tenant_id'' (cl_tenant_id c)"
    and "\<not> attribute_mismatch m ''x-tenant-id'' (cl_tenant_id c)"
  using assms by (simp_all add: authorize_message_claims_def split: if_split_asm)

text \<open>
  What the entry admits. A message is admitted for a signed user only as that user, under the
  context's tenant, with the user source and not typed as a system message or notification; anything
  that would render as a plugin card, or uses a client id of the platform's card namespace, is
  admitted only as the card the platform's own context was signed for; without a signed identity
  nothing is admitted.
\<close>

theorem entry_admits_only_signed_identity:
  assumes "authorize_message K sha claims m system_only = Inr ()"
  shows "\<exists>c. claims = Some c \<and> normalize_tenant_id (cl_tenant_id c) = cl_tenant_id c
     \<and> m_attributes m ''tenant_id'' \<in> {None, Some (cl_tenant_id c)}
     \<and> m_attributes m ''x-tenant-id'' \<in> {None, Some (cl_tenant_id c)}
     \<and> (message_claims_plugin_card m \<or> is_reserved_client_msg_id (m_client_msg_id m) \<longrightarrow>
          is_card_post_context K c \<and> verify_card_post K sha c m = Inr ())
     \<and> (cl_actor_type c = ActorUser \<longrightarrow>
          m_sender_id m = cl_actor_id c \<and> m_source m = source_user
          \<and> m_message_type m \<notin> {MtSystem, MtNotification} \<and> \<not> system_only)"
proof -
  from assms obtain c where c: "claims = Some c" "authorize_message_claims K sha c m system_only = Inr ()"
    by (auto simp: authorize_message_def split: option.splits)
  have attrs: "normalize_tenant_id (cl_tenant_id c) = cl_tenant_id c"
    "m_attributes m ''tenant_id'' \<in> {None, Some (cl_tenant_id c)}"
    "m_attributes m ''x-tenant-id'' \<in> {None, Some (cl_tenant_id c)}"
    using authorize_claims_tenant [OF c(2)] by (auto simp: attribute_mismatch_def split: option.splits)
  show ?thesis
  proof (cases "is_card_post_context K c")
    case True
    with c(2) have v: "verify_card_post K sha c m = Inr ()" "\<not> system_only"
      by (auto simp: authorize_message_claims_def split: if_split_asm sum.splits)
    from verify_card_post_sender [OF v(1)] True v c(1) attrs show ?thesis by auto
  next
    case False
    with c(2) have n: "\<not> message_claims_plugin_card m" "\<not> is_reserved_client_msg_id (m_client_msg_id m)"
      by (auto simp: authorize_message_claims_def split: if_split_asm)
    have "m_sender_id m = cl_actor_id c \<and> m_source m = source_user
          \<and> m_message_type m \<notin> {MtSystem, MtNotification} \<and> \<not> system_only" if "cl_actor_type c = ActorUser"
      using that c(2) False n by (auto simp: authorize_message_claims_def split: if_split_asm)
    with n c(1) attrs show ?thesis by auto
  qed
qed

definition example_user_claims :: signed_claims where
  "example_user_claims = \<lparr>cl_actor_type = ActorUser, cl_actor_id = ''alice'', cl_tenant_id = ''app-a'',
     cl_roles = [], cl_credential_id = None, cl_request_id = ''req'', cl_kid = ''cell''\<rparr>"

definition example_user_message :: message where
  "example_user_message = default_message\<lparr>m_sender_id := ''alice'', m_conversation_id := ''2-group'',
     m_client_msg_id := ''cm-1'', m_source := source_user, m_message_type := MtText,
     m_content := Some (Some (Text ''hi''))\<rparr>"

lemma example_tenant_canonical: "normalize_tenant_id ''app-a'' = ''app-a''"
proof -
  have "is_valid_tenant_id ''app-a''" by code_simp
  then show ?thesis by (simp add: normalize_tenant_id_valid)
qed

lemma example_user_message_ok:
  "authorize_message example_keys sha (Some example_user_claims) example_user_message False = Inr ()"
  by (simp add: authorize_message_def authorize_message_claims_def example_keys_def example_user_claims_def
      example_user_message_def default_message_def example_tenant_canonical attribute_mismatch_def
      is_card_post_context_def message_claims_plugin_card_def claims_plugin_card_def
      is_reserved_client_msg_id_def eq_ignore_ascii_case_def CARD_CLIENT_MSG_ID_PREFIX_def Let_def
      trim_def trim_start_def is_ws_def)

theorem entry_admits_only_signed_identity_witness:
  "authorize_message example_keys (\<lambda>x. x) (Some example_user_claims) example_user_message False = Inr ()
   \<and> m_sender_id example_user_message = cl_actor_id example_user_claims"
  using entry_admits_only_signed_identity [OF example_user_message_ok, of "\<lambda>x. x"] example_user_message_ok
  by (auto simp: example_user_claims_def)

definition relabelled :: "string \<Rightarrow> message" where
  "relabelled l = example_user_message\<lparr>m_extensions := [''message_type'' \<mapsto> l]\<rparr>"

lemma relabelled_admitted:
  "authorize_message example_keys sha (Some example_user_claims) (relabelled l) False = Inr ()"
  by (simp add: authorize_message_def authorize_message_claims_def example_keys_def example_user_claims_def
      relabelled_def example_user_message_def default_message_def example_tenant_canonical attribute_mismatch_def
      is_card_post_context_def message_claims_plugin_card_def claims_plugin_card_def
      is_reserved_client_msg_id_def eq_ignore_ascii_case_def CARD_CLIENT_MSG_ID_PREFIX_def Let_def
      trim_def trim_start_def is_ws_def)

text \<open>
  The entry looks at the type field and one attribute, but the type is inferred again from the
  \<open>message_type\<close> extension and the content when the submission is prepared. A signed user can
  therefore have a message admitted that the pipeline then treats as a system message or a
  notification, the two types the entry refuses from users.
\<close>

theorem user_can_send_internal_types:
  "\<exists>claims m m'. cl_actor_type claims = ActorUser
     \<and> authorize_message example_keys sha (Some claims) m False = Inr ()
     \<and> authorize_message example_keys sha (Some claims) m' False = Inr ()
     \<and> (\<exists>sub. prepare uuid now d m = Ok sub \<and> m_message_type (ms_message sub) = MtSystem)
     \<and> (\<exists>sub. prepare uuid now d m' = Ok sub \<and> m_message_type (ms_message sub) = MtNotification
          \<and> is_notification (fst (profile_ensure (ms_message sub))))"
proof -
  have ext: "extension_string (relabelled l) ''message_type'' = Some l" if "valid_utf8 l" "l \<noteq> []" for l
    using that by (simp add: extension_string_def relabelled_def from_utf8_def)
  have u: "valid_utf8 ''system''" "valid_utf8 ''notification''" by code_simp+
  have prep: "\<exists>sub. prepare uuid now d (relabelled l) = Ok sub \<and> m_message_type (ms_message sub) = type_of_label l
      \<and> fst (profile_ensure (ms_message sub)) = fst (profile_ensure (relabelled l))"
    if l: "valid_utf8 l" "l \<noteq> []" for l
  proof -
    let ?r = "strip_client_claims (fill_defaults d (take_server_id uuid (relabelled l)))"
    have req: "m_conversation_id (relabelled l) \<noteq> []" "m_sender_id (relabelled l) \<noteq> []"
      by (simp_all add: relabelled_def example_user_message_def)
    then obtain sub where s: "prepare uuid now d (relabelled l) = Ok sub" by (simp add: prepare_def Let_def)
    note f = prepare_Ok [OF s]
    have e: "m_extensions (ms_message sub) = m_extensions (relabelled l)"
      unfolding f(13)
      by (auto simp: remove_keys_apply relabelled_def example_user_message_def default_message_def
          SERVER_OWNED_ATTRIBUTES_def fun_eq_iff)
    have c: "fst (profile_ensure (ms_message sub)) = fst (profile_ensure (relabelled l))"
      by (rule profile_ensure_cong [OF e f(10)])
    have "type_label ?r = type_label (ms_message sub)"
      using s req by (intro type_label_cong) (auto simp: prepare_def Let_def profile_ensure_keeps)
    moreover have "type_label (ms_message sub) = l"
      using type_label_cong [OF e f(10)] ext [OF l] by (simp add: type_label_def)
    moreover have "m_message_type (ms_message sub) = type_of_label (type_label ?r)"
      using s req by (auto simp: prepare_def Let_def profile_ensure_keeps)
    ultimately show ?thesis using s c by auto
  qed
  have "is_notification (fst (profile_ensure (relabelled ''notification'')))"
    using profile_category(3) [OF refl, of "relabelled ''notification''"] ext [OF u(2)]
    by (simp add: profile_ensure_fst type_label_def extension_string_def relabelled_def example_user_message_def
        default_message_def)
  with prep [OF u(1)] prep [OF u(2)] relabelled_admitted [of sha "''system''"]
    relabelled_admitted [of sha "''notification''"]
  show ?thesis
    by (intro exI [of _ example_user_claims] exI [of _ "relabelled ''system''"]
        exI [of _ "relabelled ''notification''"])
      (auto simp: example_user_claims_def type_of_label_def)
qed

end
