(* ===== verification/Message_Validation.thy ===== *)
theory Message_Validation
  imports Send_Entry
begin

text \<open>
  \<^verbatim>\<open>crates/flare-im-message-pipeline/src/validation/mod.rs\<close>: validation results, the message and event
  strategies and their short-circuiting composition, and \<^verbatim>\<open>validate_message\<close> of the ingest service. The
  size of a message on the wire is the protobuf encoder's: the parameter \<open>encoded_len\<close>.
\<close>

section \<open>Results\<close>

record validation_result =
  vr_is_valid :: bool
  vr_errors :: "string list"
  vr_warnings :: "string list"

definition vr_valid :: validation_result where
  "vr_valid = \<lparr>vr_is_valid = True, vr_errors = [], vr_warnings = []\<rparr>"

definition vr_invalid :: "string \<Rightarrow> validation_result" where
  "vr_invalid e = \<lparr>vr_is_valid = False, vr_errors = [e], vr_warnings = []\<rparr>"

definition vr_with_warning :: "validation_result \<Rightarrow> string \<Rightarrow> validation_result" where
  "vr_with_warning r warning = r\<lparr>vr_warnings := vr_warnings r @ [warning]\<rparr>"

definition vr_merge :: "validation_result \<Rightarrow> validation_result \<Rightarrow> validation_result" where
  "vr_merge a b = \<lparr>vr_is_valid = (vr_is_valid a \<and> vr_is_valid b), vr_errors = vr_errors a @ vr_errors b,
     vr_warnings = vr_warnings a @ vr_warnings b\<rparr>"

text \<open>A strategy: the context (the verified claims, tenant, conversation) and the item to check.\<close>

record validation_context =
  vc_claims :: "signed_claims option"
  vc_tenant_id :: string
  vc_conversation_id :: string

type_synonym 'm strategy = "validation_context \<Rightarrow> 'm \<Rightarrow> validation_result result"

section \<open>Message strategies\<close>

definition default_max_message_size :: nat where "default_max_message_size = 10 * 1024 * 1024"

definition size_validate :: "(message \<Rightarrow> nat) \<Rightarrow> nat \<Rightarrow> message strategy" where
  "size_validate encoded_len max_message_size c m =
     (if encoded_len m > max_message_size
      then Ok (vr_invalid (''Message size '' @ to_decimal (encoded_len m) @
             '' bytes exceeds maximum allowed size '' @ to_decimal max_message_size @ '' bytes''))
      else Ok vr_valid)"

definition required_fields_validate :: "message strategy" where
  "required_fields_validate c m =
     (let r = vr_valid;
          r = (if m_conversation_id m = [] then vr_merge r (vr_invalid ''conversation_id is required'') else r);
          r = (if m_sender_id m = [] then vr_merge r (vr_invalid ''sender_id is required'') else r);
          r = (if m_conversation_type m = conversation_type_as_int Single \<and> m_channel_id m = []
               then vr_merge r (vr_invalid ''channel_id (receiver_id) is required for single chat'') else r)
      in Ok r)"

section \<open>Event strategies\<close>

text \<open>
  The event types the code names; \<open>EtOther\<close> is another declared type with its name and \<open>EtInvalid\<close> a
  number that is none.
\<close>

datatype event_type =
    EventMessage | EventMessageRecall | EventMessageEdit | EventMessageDelete | EventReadReceipt
  | EventConversationUpdate | EventConversationDelete | EventReaction | EventPin | EventUnpin
  | EventMark | EventUnmark | EventMessageRetentionScheduled | EventMessageRetentionExpired
  | EventMessageRetentionPurged | EventCustom | EventMessagePluginState | EtOther string | EtInvalid int

record plugin_state_event =
  ps_server_msg_id :: string
  ps_plugin_id :: string
  ps_entity :: string
  ps_version :: nat
  ps_values_json :: string

record recall_event =
  rce_server_msg_id :: string
  rce_reason :: string
  rce_time_limit_seconds :: "int option"
  rce_allow_admin_recall :: "bool option"

record edit_event =
  ede_server_msg_id :: string
  ede_new_content :: "content option option"
  ede_reason :: string
  ede_show_edited_mark :: bool

record delete_event =
  dle_server_msg_id :: string
  dle_delete_type :: "int option"
  dle_scope :: "int option"
  dle_target_user_id :: "string option"
  dle_reason :: "string option"
  dle_notify_others :: "bool option"

record read_event =
  rde_conversation_id :: string
  rde_read_seq :: nat
  rde_user_id :: string
  rde_message_ids :: "string list"
  rde_read_at :: "int option"

record reaction_event =
  rxe_server_msg_id :: string
  rxe_user_id :: string
  rxe_emoji :: string
  rxe_action :: int

record pin_event =
  pne_server_msg_id :: string
  pne_pinned_by :: string
  pne_reason :: "string option"
  pne_expire_at :: "int option"
  pne_scope :: int

record unpin_event =
  une_server_msg_id :: string
  une_unpinned_by :: string
  une_scope :: int

record mark_event =
  mke_server_msg_id :: string
  mke_user_id :: string
  mke_mark_type :: int
  mke_color :: string

record unmark_event =
  ume_server_msg_id :: string
  ume_user_id :: string
  ume_mark_type :: int

text \<open>The three retention events differ in the name of their time field only.\<close>

record retention_event =
  rte_conversation_id :: string
  rte_server_msg_id :: string
  rte_reader_id :: "string option"
  rte_state :: "retention_state option"
  rte_at :: int

text \<open>The payload of an event; a custom event has attributes and opaque bytes, the conversation events are opaque.\<close>

datatype event_payload =
    PluginState plugin_state_event | MessagePayload message | EvRecall recall_event | EvEdit edit_event | EvDelete delete_event
  | EvRead read_event | EvReaction reaction_event | EvPin pin_event | EvUnpin unpin_event | EvMark mark_event | EvUnmark unmark_event
  | EvConversation string | EvConversationDelete string | EvRetentionScheduled retention_event | EvRetentionExpired retention_event
  | EvRetentionPurged retention_event | EvCustom "string \<rightharpoonup> string" string

record event =
  ev_type :: event_type
  ev_event_id :: string
  ev_conversation_id :: string
  ev_conversation_seq :: nat
  ev_created_at :: int
  ev_request_id :: "string option"
  ev_payload :: "event_payload option"

definition all_supported :: "event_type list" where
  "all_supported = [EventMessage, EventMessageRecall, EventMessageEdit, EventMessageDelete, EventReadReceipt,
     EventConversationUpdate, EventConversationDelete, EventReaction, EventPin, EventUnpin, EventMark,
     EventUnmark, EventMessageRetentionScheduled, EventMessageRetentionExpired, EventMessageRetentionPurged,
     EventCustom, EventMessagePluginState]"

text \<open>The derived debug names, which the error text quotes.\<close>

fun event_type_debug :: "event_type \<Rightarrow> string" where
  "event_type_debug EventMessage = ''EventMessage''"
| "event_type_debug EventMessageRecall = ''EventMessageRecall''"
| "event_type_debug EventMessageEdit = ''EventMessageEdit''"
| "event_type_debug EventMessageDelete = ''EventMessageDelete''"
| "event_type_debug EventReadReceipt = ''EventReadReceipt''"
| "event_type_debug EventConversationUpdate = ''EventConversationUpdate''"
| "event_type_debug EventConversationDelete = ''EventConversationDelete''"
| "event_type_debug EventReaction = ''EventReaction''"
| "event_type_debug EventPin = ''EventPin''"
| "event_type_debug EventUnpin = ''EventUnpin''"
| "event_type_debug EventMark = ''EventMark''"
| "event_type_debug EventUnmark = ''EventUnmark''"
| "event_type_debug EventMessageRetentionScheduled = ''EventMessageRetentionScheduled''"
| "event_type_debug EventMessageRetentionExpired = ''EventMessageRetentionExpired''"
| "event_type_debug EventMessageRetentionPurged = ''EventMessageRetentionPurged''"
| "event_type_debug EventCustom = ''EventCustom''"
| "event_type_debug EventMessagePluginState = ''EventMessagePluginState''"
| "event_type_debug (EtOther name) = name"
| "event_type_debug (EtInvalid n) = show_int n"

definition event_type_validate :: "event_type list \<Rightarrow> event strategy" where
  "event_type_validate allowed_types c e =
     (case ev_type e of
        EtInvalid n \<Rightarrow> Ok (vr_invalid (''Invalid event type: '' @ show_int n))
      | et \<Rightarrow> if List.member allowed_types et then Ok vr_valid
              else Ok (vr_invalid (''Event type '' @ event_type_debug et @ '' is not allowed'')))"

definition event_required_fields_validate :: "event strategy" where
  "event_required_fields_validate c e =
     (let r = vr_valid;
          r = (if ev_conversation_id e = []
               then vr_merge r (vr_invalid ''conversation_id is required for event'') else r);
          r = (if ev_event_id e = [] then vr_merge r (vr_invalid ''event_id is required for event'') else r)
      in Ok r)"

definition MAX_PLUGIN_STATE_VALUES_BYTES :: nat where "MAX_PLUGIN_STATE_VALUES_BYTES = 8 * 1024"

definition entity_ok :: "string \<Rightarrow> bool" where
  "entity_ok entity \<longleftrightarrow> entity \<noteq> [] \<and> length entity \<le> 128
     \<and> list_all (\<lambda>b. is_ascii_alphanumeric b \<or> b \<in> {CHR ''.'', CHR ''_'', CHR ''-'', CHR '':''}) entity"

definition plugin_state_validate :: "key_ids \<Rightarrow> event strategy" where
  "plugin_state_validate K c e =
     (let is_plugin_state = (ev_type e = EventMessagePluginState);
          from_system = (case vc_claims c of None \<Rightarrow> False | Some claims \<Rightarrow> is_plugin_state_publisher K claims)
      in (case ev_payload e of
            Some (PluginState state) \<Rightarrow>
              if is_plugin_state \<and> \<not> from_system then
                Ok (vr_invalid ''plugin state is published by the system only'')
              else if is_plugin_state then
                (if ps_server_msg_id state = [] \<or> ps_plugin_id state = [] \<or> length (ps_plugin_id state) > 128
                    \<or> \<not> entity_ok (ps_entity state) \<or> ps_version state = 0
                    \<or> int (ps_version state) > i64_max
                    \<or> length (ps_values_json state) > MAX_PLUGIN_STATE_VALUES_BYTES
                 then Ok (vr_invalid ''invalid plugin state event'') else Ok vr_valid)
              else Ok (vr_invalid ''plugin state type and payload disagree'')
          | _ \<Rightarrow>
              if is_plugin_state then Ok (vr_invalid ''plugin state type and payload disagree'')
              else Ok vr_valid))"

section \<open>Composition\<close>

fun composite_loop :: "'m strategy list \<Rightarrow> validation_context \<Rightarrow> 'm \<Rightarrow> validation_result \<Rightarrow>
     validation_result result" where
  "composite_loop [] c m acc = Ok acc"
| "composite_loop (s # ss) c m acc =
     (case s c m of
        Inl e \<Rightarrow> Err e
      | Inr r \<Rightarrow> (let acc = vr_merge acc r in if \<not> vr_is_valid acc then Ok acc else composite_loop ss c m acc))"

definition composite_validate :: "'m strategy list \<Rightarrow> 'm strategy" where
  "composite_validate ss c m = composite_loop ss c m vr_valid"

definition default_message_composite :: "(message \<Rightarrow> nat) \<Rightarrow> message strategy list" where
  "default_message_composite encoded_len =
     [size_validate encoded_len default_max_message_size, required_fields_validate]"

definition default_event_composite :: "key_ids \<Rightarrow> event strategy list" where
  "default_event_composite K =
     [event_type_validate all_supported, event_required_fields_validate, plugin_state_validate K]"

text \<open>\<^verbatim>\<open>MessageIngestService::validate_message\<close>.\<close>

definition validate_message :: "message strategy \<Rightarrow> signed_claims option \<Rightarrow> string \<Rightarrow> message \<Rightarrow> unit result" where
  "validate_message strategy claims tenant_id m =
     (case strategy \<lparr>vc_claims = claims, vc_tenant_id = tenant_id, vc_conversation_id = m_conversation_id m\<rparr> m of
        Inl e \<Rightarrow> Err (FlareError InvalidParameter (''Message validation failed: '' @ err_msg e))
      | Inr r \<Rightarrow> if \<not> vr_is_valid r then Err (FlareError InvalidParameter ''Message validation failed'') else Ok ())"

section \<open>Facts\<close>

lemma vr_simps [simp]:
  "vr_is_valid vr_valid" "\<not> vr_is_valid (vr_invalid e)"
  "vr_is_valid (vr_merge a b) \<longleftrightarrow> vr_is_valid a \<and> vr_is_valid b"
  by (simp_all add: vr_valid_def vr_invalid_def vr_merge_def)

lemma composite_loop_valid:
  "(\<exists>r. composite_loop ss c m acc = Ok r \<and> vr_is_valid r) \<longleftrightarrow>
     vr_is_valid acc \<and> (\<forall>s \<in> set ss. \<exists>r. s c m = Ok r \<and> vr_is_valid r)"
proof (induction ss arbitrary: acc)
  case (Cons s ss)
  show ?case
  proof (cases "s c m")
    case (Inr r)
    with Cons [of "vr_merge acc r"] show ?thesis by (auto simp: Let_def)
  qed simp
qed simp

lemma composite_valid:
  "(\<exists>r. composite_validate ss c m = Ok r \<and> vr_is_valid r) \<longleftrightarrow>
     (\<forall>s \<in> set ss. \<exists>r. s c m = Ok r \<and> vr_is_valid r)"
  by (simp add: composite_validate_def composite_loop_valid)

lemma size_validate_ok: "(\<exists>r. size_validate len n c m = Ok r \<and> vr_is_valid r) \<longleftrightarrow> len m \<le> n"
  by (simp add: size_validate_def not_less)

lemma required_fields_ok:
  "(\<exists>r. required_fields_validate c m = Ok r \<and> vr_is_valid r) \<longleftrightarrow>
     m_conversation_id m \<noteq> [] \<and> m_sender_id m \<noteq> [] \<and> (m_conversation_type m = 1 \<longrightarrow> m_channel_id m \<noteq> [])"
  by (auto simp: required_fields_validate_def Let_def)

lemma event_type_ok:
  "(\<exists>r. event_type_validate allowed c e = Ok r \<and> vr_is_valid r) \<longleftrightarrow>
     ev_type e \<in> set allowed \<and> (\<forall>n. ev_type e \<noteq> EtInvalid n)"
  by (cases "ev_type e") (simp_all add: event_type_validate_def List.member_iff)

lemma event_required_ok:
  "(\<exists>r. event_required_fields_validate c e = Ok r \<and> vr_is_valid r) \<longleftrightarrow>
     ev_conversation_id e \<noteq> [] \<and> ev_event_id e \<noteq> []"
  by (auto simp: event_required_fields_validate_def Let_def)

lemma plugin_state_ok:
  assumes "plugin_state_validate K c e = Ok r" and "vr_is_valid r"
  shows "(ev_type e = EventMessagePluginState \<longleftrightarrow> (\<exists>s. ev_payload e = Some (PluginState s)))
     \<and> (\<forall>s. ev_payload e = Some (PluginState s) \<longrightarrow>
          (\<exists>claims. vc_claims c = Some claims \<and> is_plugin_state_publisher K claims)
          \<and> ps_server_msg_id s \<noteq> [] \<and> ps_plugin_id s \<noteq> [] \<and> length (ps_plugin_id s) \<le> 128
          \<and> entity_ok (ps_entity s) \<and> 1 \<le> ps_version s \<and> int (ps_version s) \<le> i64_max
          \<and> length (ps_values_json s) \<le> 8192)"
  using assms
  by (auto simp: plugin_state_validate_def MAX_PLUGIN_STATE_VALUES_BYTES_def Let_def
      split: option.splits event_payload.splits if_split_asm)

lemma validate_message_Ok:
  "validate_message (composite_validate ss) claims t m = Ok () \<longleftrightarrow>
     (\<forall>s \<in> set ss. \<exists>r. s \<lparr>vc_claims = claims, vc_tenant_id = t, vc_conversation_id = m_conversation_id m\<rparr> m = Ok r
        \<and> vr_is_valid r)"
  unfolding composite_valid [symmetric] by (auto simp: validate_message_def split: sum.splits)

section \<open>Properties\<close>

text \<open>
  With the default strategies exactly the messages that fit 10 MiB and name a conversation, a sender
  and, in a single chat, a receiver are accepted.
\<close>

theorem default_message_validation:
  "validate_message (composite_validate (default_message_composite len)) claims t m = Ok () \<longleftrightarrow>
     len m \<le> 10485760 \<and> m_conversation_id m \<noteq> [] \<and> m_sender_id m \<noteq> []
     \<and> (if m_conversation_type m = 1 then m_channel_id m \<noteq> [] else True)"
  by (auto simp: validate_message_Ok default_message_composite_def size_validate_ok required_fields_ok
      default_max_message_size_def)

text \<open>
  A plugin's shared state changes only through events of the platform. An event the default
  strategies accept has the plugin state type exactly when it carries a plugin state, and then its
  context is the signed publisher identity, its ids are present, and its version is between 1 and the
  largest \<open>i64\<close>; so a member of the conversation cannot forge a state or freeze a card with a version
  the platform could never exceed.
\<close>

theorem plugin_state_from_platform_only:
  assumes "composite_validate (default_event_composite K) c e = Ok r" and "vr_is_valid r"
  shows "ev_type e \<in> set all_supported
     \<and> (ev_type e = EventMessagePluginState \<longleftrightarrow> (\<exists>s. ev_payload e = Some (PluginState s)))
     \<and> (\<forall>s. ev_payload e = Some (PluginState s) \<longrightarrow>
          (\<exists>claims. vc_claims c = Some claims \<and> cl_kid claims = kid_capability K
             \<and> cl_actor_type claims = ActorSystem \<and> cl_roles claims = [STATE_PUBLISH_ROLE])
          \<and> ps_server_msg_id s \<noteq> [] \<and> ps_plugin_id s \<noteq> [] \<and> entity_ok (ps_entity s)
          \<and> 1 \<le> ps_version s \<and> int (ps_version s) \<le> i64_max \<and> length (ps_values_json s) \<le> 8192)"
proof -
  from assms composite_valid [of "default_event_composite K" c e]
  have all: "\<forall>s \<in> set (default_event_composite K). \<exists>r. s c e = Ok r \<and> vr_is_valid r" by blast
  then have t: "ev_type e \<in> set all_supported" and "\<exists>r. plugin_state_validate K c e = Ok r \<and> vr_is_valid r"
    using event_type_ok [of all_supported c e] by (auto simp: default_event_composite_def)
  then obtain r' where "plugin_state_validate K c e = Ok r'" "vr_is_valid r'" by blast
  from plugin_state_ok [OF this] t show ?thesis by (auto simp: is_plugin_state_publisher_def)
qed

definition publisher_claims :: signed_claims where
  "publisher_claims = \<lparr>cl_actor_type = ActorSystem, cl_actor_id = ''flare-capability'', cl_tenant_id = ''0'',
     cl_roles = [''plugin.state.publish''], cl_credential_id = None, cl_request_id = ''r'', cl_kid = ''capability''\<rparr>"

definition example_state_event :: event where
  "example_state_event = \<lparr>ev_type = EventMessagePluginState, ev_event_id = ''e1'', ev_conversation_id = ''c1'',
     ev_conversation_seq = 7, ev_created_at = 5, ev_request_id = None,
     ev_payload = Some (PluginState \<lparr>ps_server_msg_id = ''s1'', ps_plugin_id = ''poll'', ps_entity = ''poll:1'',
       ps_version = 3, ps_values_json = ''{}''\<rparr>)\<rparr>"

theorem plugin_state_from_platform_only_witness:
  "composite_validate (default_event_composite example_keys)
     \<lparr>vc_claims = Some publisher_claims, vc_tenant_id = ''0'', vc_conversation_id = ''c1''\<rparr> example_state_event
     = Ok vr_valid
   \<and> (\<exists>claims. Some publisher_claims = Some claims \<and> cl_kid claims = kid_capability example_keys)"
proof -
  have r: "composite_validate (default_event_composite example_keys)
     \<lparr>vc_claims = Some publisher_claims, vc_tenant_id = ''0'', vc_conversation_id = ''c1''\<rparr> example_state_event
     = Ok vr_valid" by code_simp
  from plugin_state_from_platform_only [OF r] r show ?thesis by (auto simp: example_state_event_def)
qed

end
