(* ===== verification/Wal_Store.thy ===== *)
theory Wal_Store
  imports Message_Model "HOL-Library.Product_Lexorder"
begin

text \<open>
  The write-ahead log of the ingest service: the contract
  \<^verbatim>\<open>flare-message-ingest/src/domain/repository/wal_repository.rs\<close> as the locale \<open>wal_repository\<close>, and the
  Redis implementation \<^verbatim>\<open>infrastructure/persistence/redis_wal.rs\<close> (a hash of entries and a sorted set
  of pending ids scored by the time from which they may be claimed). The protobuf and base64
  encoding of a message is a parameter (with its type of encoded payloads); a hash value is an entry or a text that does not parse.
\<close>

section \<open>Contract\<close>

record wal_pending_message =
  wp_write_proof :: "string option"
  wp_message_id :: string
  wp_tenant_id :: string
  wp_message :: message

record 'w wal_ops =
  wal_append :: "message_submission \<Rightarrow> string \<Rightarrow> string option \<Rightarrow> 'w \<Rightarrow> unit result \<times> 'w"
  wal_find :: "string \<Rightarrow> 'w \<Rightarrow> message option result"
  wal_list :: "nat \<Rightarrow> 'w \<Rightarrow> wal_pending_message list result \<times> 'w"
  wal_remove :: "string \<Rightarrow> 'w \<Rightarrow> unit result \<times> 'w"

definition pending_of :: "message_submission \<Rightarrow> string \<Rightarrow> string option \<Rightarrow> wal_pending_message" where
  "pending_of sub tenant proof = \<lparr>wp_write_proof = proof, wp_message_id = m_server_id (ms_message sub),
     wp_tenant_id = tenant, wp_message = ms_message sub\<rparr>"

text \<open>
  What clients rely on: appended entries are there under the message's server id until removed,
  nothing else changes them, and what is listed is there.
\<close>

locale wal_repository =
  fixes W :: "'w wal_ops" and entries :: "'w \<Rightarrow> string \<rightharpoonup> wal_pending_message"
  assumes append_ok: "wal_append W sub t p w = (Ok (), w') \<Longrightarrow>
      entries w' = (entries w)(m_server_id (ms_message sub) \<mapsto> pending_of sub t p)"
    and append_err: "wal_append W sub t p w = (Err e, w') \<Longrightarrow> entries w' = entries w"
    and list_keeps: "wal_list W n w = (res, w') \<Longrightarrow> entries w' = entries w"
    and list_sound: "wal_list W n w = (Ok ps, w') \<Longrightarrow> q \<in> set ps \<Longrightarrow>
      entries w (wp_message_id q) = Some q"
    and remove_ok: "wal_remove W k w = (Ok (), w') \<Longrightarrow> entries w' = (entries w)(k := None)"
    and remove_err: "wal_remove W k w = (Err e, w') \<Longrightarrow> entries w' = entries w"

section \<open>The Redis log\<close>

record 'e wal_entry =
  we_write_proof :: "string option"
  we_message_id :: string
  we_tenant_id :: string
  we_encoded :: 'e
  we_persisted :: bool

datatype 'e wal_value = Entry "'e wal_entry" | Garbage

record 'e wal_redis =
  wr_hash :: "string \<rightharpoonup> 'e wal_value"
  wr_pending :: "(string \<times> int) list"
  wr_now :: int
  wr_expires_at :: "int option"

record wal_config =
  wk_hash_key :: "string option"
  wk_ttl_seconds :: nat
  wk_claim_lease_ms :: nat
  wk_connected :: bool

record 'e message_codec =
  mc_encode :: "message \<Rightarrow> 'e"
  mc_decode :: "'e \<Rightarrow> message option"

definition message_codec_ok :: "'e message_codec \<Rightarrow> bool" where
  "message_codec_ok mc \<longleftrightarrow> (\<forall>m. mc_decode mc (mc_encode mc m) = Some m)"

definition configured_wal_key :: "wal_config \<Rightarrow> string option" where
  "configured_wal_key cfg =
     (case wk_hash_key cfg of None \<Rightarrow> None | Some k \<Rightarrow> if trim k = [] then None else Some (trim k))"

definition replay_claim_lease_ms :: "wal_config \<Rightarrow> int" where
  "replay_claim_lease_ms cfg = int (max (wk_claim_lease_ms cfg) 1000)"

definition wal_conn_error :: flare_error where
  "wal_conn_error = FlareError SystemError ''redis connection failed''"

text \<open>\<^verbatim>\<open>ZADD\<close> and \<^verbatim>\<open>ZREM\<close> on the pending set.\<close>

definition zadd :: "string \<Rightarrow> int \<Rightarrow> (string \<times> int) list \<Rightarrow> (string \<times> int) list" where
  "zadd m score z = (m, score) # filter (\<lambda>e. fst e \<noteq> m) z"

definition zrem :: "string \<Rightarrow> (string \<times> int) list \<Rightarrow> (string \<times> int) list" where
  "zrem m z = filter (\<lambda>e. fst e \<noteq> m) z"

text \<open>Keys whose time has come are gone; both keys carry the same deadline.\<close>

definition wal_live :: "'e wal_redis \<Rightarrow> 'e wal_redis" where
  "wal_live w =
     (case wr_expires_at w of
        Some t \<Rightarrow> if t \<le> wr_now w then w\<lparr>wr_hash := Map.empty, wr_pending := [], wr_expires_at := None\<rparr> else w
      | None \<Rightarrow> w)"

definition redis_wal_append :: "'e message_codec \<Rightarrow> wal_config \<Rightarrow> message_submission \<Rightarrow> string \<Rightarrow> string option \<Rightarrow>
     'e wal_redis \<Rightarrow> unit result \<times> 'e wal_redis" where
  "redis_wal_append mc cfg sub tenant proof w =
     (case configured_wal_key cfg of
        None \<Rightarrow> (Err (FlareError SystemError ''Redis WAL hash key is required for durable message append''), w)
      | Some _ \<Rightarrow>
          if \<not> wk_connected cfg then (Err wal_conn_error, w)
          else
            let w = wal_live w;
                mid = m_server_id (ms_message sub);
                entry = \<lparr>we_write_proof = proof, we_message_id = mid, we_tenant_id = tenant,
                         we_encoded = mc_encode mc (ms_message sub), we_persisted = False\<rparr>
            in (Ok (), w\<lparr>wr_hash := (wr_hash w)(mid \<mapsto> Entry entry),
                        wr_pending := zadd mid (wr_now w) (wr_pending w),
                        wr_expires_at := (if wk_ttl_seconds cfg > 0
                          then Some (wr_now w + int (wk_ttl_seconds cfg) * 1000)
                          else wr_expires_at w)\<rparr>))"

text \<open>\<^verbatim>\<open>ZRANGEBYSCORE\<close> up to the given score: by score, then by member.\<close>

definition zrange_by_score :: "int \<Rightarrow> nat \<Rightarrow> (string \<times> int) list \<Rightarrow> string list" where
  "zrange_by_score max_score limit z =
     take limit (map fst (sort_key (\<lambda>(m, s). (s, m)) (filter (\<lambda>(m, s). s \<le> max_score) z)))"

text \<open>\<^verbatim>\<open>CLAIM_PENDING_SCRIPT\<close>.\<close>

fun claim_each :: "(string \<rightharpoonup> 'e wal_value) \<Rightarrow> int \<Rightarrow> string list \<Rightarrow> (string \<times> int) list \<Rightarrow>
     string list \<times> (string \<times> int) list" where
  "claim_each h lease_until [] z = ([], z)"
| "claim_each h lease_until (m # ms) z =
     (if h m \<noteq> None
      then (let (claimed, z') = claim_each h lease_until ms (zadd m lease_until z) in (m # claimed, z'))
      else claim_each h lease_until ms (zrem m z))"

definition claim_pending_ids :: "wal_config \<Rightarrow> nat \<Rightarrow> 'e wal_redis \<Rightarrow> string list \<times> 'e wal_redis" where
  "claim_pending_ids cfg limit w =
     (let (claimed, z) = claim_each (wr_hash w) (wr_now w + replay_claim_lease_ms cfg)
            (zrange_by_score (wr_now w) limit (wr_pending w)) (wr_pending w)
      in (claimed, w\<lparr>wr_pending := z\<rparr>))"

text \<open>The loop of \<^verbatim>\<open>list_pending\<close> over the claimed ids and the values read for them.\<close>

fun collect_pending :: "'e message_codec \<Rightarrow> (string \<times> 'e wal_value option) list \<Rightarrow> 'e wal_redis \<Rightarrow>
     wal_pending_message list \<times> 'e wal_redis" where
  "collect_pending mc [] w = ([], w)"
| "collect_pending mc ((mid, None) # rest) w =
     collect_pending mc rest (w\<lparr>wr_pending := zrem mid (wr_pending w)\<rparr>)"
| "collect_pending mc ((mid, Some Garbage) # rest) w = collect_pending mc rest w"
| "collect_pending mc ((mid, Some (Entry e)) # rest) w =
     (if we_persisted e
      then collect_pending mc rest
             (w\<lparr>wr_hash := (wr_hash w)(mid := None), wr_pending := zrem mid (wr_pending w)\<rparr>)
      else (case mc_decode mc (we_encoded e) of
              None \<Rightarrow> collect_pending mc rest w
            | Some m \<Rightarrow>
                let (ps, w') = collect_pending mc rest w
                in (\<lparr>wp_write_proof = we_write_proof e, wp_message_id = mid,
                     wp_tenant_id = we_tenant_id e, wp_message = m\<rparr> # ps, w')))"

definition redis_wal_list :: "'e message_codec \<Rightarrow> wal_config \<Rightarrow> nat \<Rightarrow> 'e wal_redis \<Rightarrow>
     wal_pending_message list result \<times> 'e wal_redis" where
  "redis_wal_list mc cfg limit w =
     (if limit = 0 then (Ok [], w)
      else (case configured_wal_key cfg of
              None \<Rightarrow> (Ok [], w)
            | Some _ \<Rightarrow>
                if \<not> wk_connected cfg then (Err wal_conn_error, w)
                else
                  let (claimed, w) = claim_pending_ids cfg limit (wal_live w) in
                  if claimed = [] then (Ok [], w)
                  else (case collect_pending mc (map (\<lambda>m. (m, wr_hash w m)) claimed) w of
                          (ps, w') \<Rightarrow> (Ok ps, w'))))"

definition redis_wal_remove :: "wal_config \<Rightarrow> string \<Rightarrow> 'e wal_redis \<Rightarrow> unit result \<times> 'e wal_redis" where
  "redis_wal_remove cfg mid w =
     (case configured_wal_key cfg of
        None \<Rightarrow> (Ok (), w)
      | Some _ \<Rightarrow>
          if \<not> wk_connected cfg then (Err wal_conn_error, w)
          else let w = wal_live w in
            (Ok (), w\<lparr>wr_hash := (wr_hash w)(mid := None), wr_pending := zrem mid (wr_pending w)\<rparr>))"

definition decode_value :: "'e message_codec \<Rightarrow> 'e wal_value \<Rightarrow> message result" where
  "decode_value mc v =
     (case v of
        Garbage \<Rightarrow> Err (FlareError SystemError ''Failed to deserialize WAL entry'')
      | Entry e \<Rightarrow> (case mc_decode mc (we_encoded e) of
                     None \<Rightarrow> Err (FlareError SystemError ''Failed to decode Message from WAL'')
                   | Some m \<Rightarrow> Ok m))"

text \<open>
  \<^verbatim>\<open>find_by_message_id\<close>: by server id, else the first entry whose client-given id it is. \<open>scan\<close> is the
  order in which the hash lists its fields.
\<close>

definition redis_wal_find :: "'e message_codec \<Rightarrow> wal_config \<Rightarrow> string list \<Rightarrow> string \<Rightarrow> 'e wal_redis \<Rightarrow>
     message option result" where
  "redis_wal_find mc cfg scan mid w =
     (case configured_wal_key cfg of
        None \<Rightarrow> Ok None
      | Some _ \<Rightarrow>
          if \<not> wk_connected cfg then Err wal_conn_error
          else
            let h = wr_hash (wal_live w) in
            (case h mid of
               Some v \<Rightarrow> (case decode_value mc v of Inl e \<Rightarrow> Err e | Inr m \<Rightarrow> Ok (Some m))
             | None \<Rightarrow>
                 Ok (List.find (\<lambda>m. m_extensions m ''original_server_id'' = Some mid)
                       (concat (map (\<lambda>k. case h k of None \<Rightarrow> []
                                  | Some v \<Rightarrow> (case decode_value mc v of Inl e \<Rightarrow> [] | Inr m \<Rightarrow> [m])) scan)))))"

definition redis_wal :: "'e message_codec \<Rightarrow> wal_config \<Rightarrow> string list \<Rightarrow> 'e wal_redis wal_ops" where
  "redis_wal mc cfg scan = \<lparr>wal_append = redis_wal_append mc cfg, wal_find = redis_wal_find mc cfg scan,
     wal_list = redis_wal_list mc cfg, wal_remove = redis_wal_remove cfg\<rparr>"

text \<open>The entries a replay can recover: stored, not marked persisted, and decodable.\<close>

definition wal_entries :: "'e message_codec \<Rightarrow> 'e wal_redis \<Rightarrow> string \<rightharpoonup> wal_pending_message" where
  "wal_entries mc w mid =
     (case wr_hash (wal_live w) mid of
        Some (Entry e) \<Rightarrow>
          if we_persisted e then None
          else map_option (\<lambda>m. \<lparr>wp_write_proof = we_write_proof e, wp_message_id = mid,
                               wp_tenant_id = we_tenant_id e, wp_message = m\<rparr>) (mc_decode mc (we_encoded e))
      | _ \<Rightarrow> None)"

section \<open>The log without Redis\<close>

text \<open>\<^verbatim>\<open>NoopWalRepository\<close>: nothing is kept, and a message that needs a proof is refused.\<close>

definition noop_wal :: "unit wal_ops" where
  "noop_wal = \<lparr>
     wal_append = (\<lambda>sub tenant proof w. if proof \<noteq> None
        then (Err (FlareError SystemError ''machine messages require a durable WAL''), w) else (Ok (), w)),
     wal_find = (\<lambda>mid w. Ok None), wal_list = (\<lambda>n w. (Ok [], w)), wal_remove = (\<lambda>mid w. (Ok (), w))\<rparr>"

section \<open>The Redis log keeps the contract\<close>

lemma wal_live_idem [simp]: "wal_live (wal_live w) = wal_live w"
  by (simp add: wal_live_def split: option.splits)

lemma wal_live_upd:
  "wal_live ((wal_live w)\<lparr>wr_pending := z\<rparr>) = (wal_live w)\<lparr>wr_pending := z\<rparr>"
  "wal_live ((wal_live w)\<lparr>wr_hash := h, wr_pending := z\<rparr>) = (wal_live w)\<lparr>wr_hash := h, wr_pending := z\<rparr>"
  by (simp_all add: wal_live_def split: option.splits)

lemma wal_entries_cong:
  assumes "\<And>k. wr_hash (wal_live w') k = wr_hash (wal_live w) k"
  shows "wal_entries mc w' = wal_entries mc w"
  by (rule ext) (simp add: wal_entries_def assms)

text \<open>Collecting removes entries marked persisted only, and answers recoverable entries only.\<close>

definition hash_view :: "'e message_codec \<Rightarrow> (string \<rightharpoonup> 'e wal_value) \<Rightarrow> string \<rightharpoonup> wal_pending_message" where
  "hash_view mc h mid =
     (case h mid of
        Some (Entry e) \<Rightarrow>
          if we_persisted e then None
          else map_option (\<lambda>m. \<lparr>wp_write_proof = we_write_proof e, wp_message_id = mid,
                               wp_tenant_id = we_tenant_id e, wp_message = m\<rparr>) (mc_decode mc (we_encoded e))
      | _ \<Rightarrow> None)"

lemma wal_entries_hash: "wal_entries mc w = hash_view mc (wr_hash (wal_live w))"
  by (rule ext) (simp add: wal_entries_def hash_view_def)

lemma hash_view_upd: "hash_view mc (h(k := v)) = (hash_view mc h)(k := hash_view mc (\<lambda>_. v) k)"
  by (rule ext) (auto simp: hash_view_def)

lemma hash_view_del: "hash_view mc (h(k := None)) = (hash_view mc h)(k := None)"
  by (simp add: hash_view_upd) (simp add: hash_view_def)

lemma collect_pending_view:
  assumes "collect_pending mc vs w = (ps, w')" and "\<forall>(k, v) \<in> set vs. hash_view mc (\<lambda>_. v) k = hash_view mc (wr_hash w) k"
  shows "hash_view mc (wr_hash w') = hash_view mc (wr_hash w)
     \<and> wr_now w' = wr_now w \<and> wr_expires_at w' = wr_expires_at w
     \<and> ps = List.map_filter (\<lambda>(k, v). hash_view mc (wr_hash w) k) vs"
  using assms
proof (induction mc vs w arbitrary: ps w' rule: collect_pending.induct)
  case (1 mc w)
  then show ?case by (simp add: List.map_filter_def)
next
  case (2 mc mid rest w)
  then have "hash_view mc (wr_hash w) mid = None" by (auto simp: hash_view_def)
  with 2 show ?case by (simp add: map_filter_simps)
next
  case (3 mc mid rest w)
  then have "hash_view mc (wr_hash w) mid = None" by (auto simp: hash_view_def)
  with 3 show ?case by (simp add: map_filter_simps)
next
  case (4 mc mid e rest w)
  show ?case
  proof (cases "we_persisted e")
    case True
    with 4 have none: "hash_view mc (wr_hash w) mid = None" by (auto simp: hash_view_def)
    then have same: "hash_view mc ((wr_hash w)(mid := None)) = hash_view mc (wr_hash w)"
      by (simp add: hash_view_del fun_upd_idem)
    let ?w = "w\<lparr>wr_hash := (wr_hash w)(mid := None), wr_pending := zrem mid (wr_pending w)\<rparr>"
    have "\<forall>(k, v) \<in> set rest. hash_view mc (\<lambda>_. v) k = hash_view mc (wr_hash ?w) k"
      using "4.prems"(2) by (simp add: same)
    from "4.IH"(1) [OF True _ this, of ps w'] "4.prems"(1) True none show ?thesis
      by (simp add: map_filter_simps same same [unfolded fun_upd_def])
  next
    case False
    show ?thesis
    proof (cases "mc_decode mc (we_encoded e)")
      case None
      with False "4.prems" have none: "hash_view mc (wr_hash w) mid = None" by (auto simp: hash_view_def)
      from "4.IH"(2) [OF False None] "4.prems" False None none show ?thesis
        by (simp add: map_filter_simps)
    next
      case (Some m)
      obtain ps1 w1 where r: "collect_pending mc rest w = (ps1, w1)" by fastforce
      have v: "hash_view mc (wr_hash w) mid = Some \<lparr>wp_write_proof = we_write_proof e, wp_message_id = mid,
          wp_tenant_id = we_tenant_id e, wp_message = m\<rparr>"
        using False Some "4.prems"(2) by (auto simp: hash_view_def)
      from "4.IH"(3) [OF False Some r] "4.prems" False Some r v show ?thesis
        by (simp add: map_filter_simps)
    qed
  qed
qed

lemma claim_each_claimed: "fst (claim_each h u ms z) = filter (\<lambda>m. h m \<noteq> None) ms"
  by (induction ms arbitrary: z) (auto split: prod.splits dest: arg_cong [of _ _ fst])

lemma claim_pending_ids_state:
  assumes "claim_pending_ids cfg limit w = (claimed, w')"
  shows "\<exists>z. w' = w\<lparr>wr_pending := z\<rparr>"
    and "claimed = filter (\<lambda>m. wr_hash w m \<noteq> None) (zrange_by_score (wr_now w) limit (wr_pending w))"
  using assms claim_each_claimed [of "wr_hash w"]
  by (auto simp: claim_pending_ids_def split: prod.splits) (metis fst_conv)

lemma redis_wal_list_Ok:
  assumes "configured_wal_key cfg \<noteq> None" "wk_connected cfg" "0 < limit"
    and "redis_wal_list mc cfg limit w = (res, w')"
  shows "wal_entries mc w' = wal_entries mc w" and
    "res = Ok (List.map_filter (wal_entries mc w) (filter (\<lambda>m. wr_hash (wal_live w) m \<noteq> None)
       (zrange_by_score (wr_now w) limit (wr_pending (wal_live w)))))" (is "res = Ok ?ps")
proof -
  let ?w = "wal_live w"
  obtain claimed w1 where c: "claim_pending_ids cfg limit ?w = (claimed, w1)" by fastforce
  from claim_pending_ids_state [OF c] obtain z where w1: "w1 = ?w\<lparr>wr_pending := z\<rparr>"
    and cl: "claimed = filter (\<lambda>m. wr_hash ?w m \<noteq> None) (zrange_by_score (wr_now ?w) limit (wr_pending ?w))"
    by blast
  have now: "wr_now ?w = wr_now w" by (simp add: wal_live_def split: option.splits)
  obtain ps w2 where col: "collect_pending mc (map (\<lambda>m. (m, wr_hash w1 m)) claimed) w1 = (ps, w2)" by fastforce
  have "\<forall>(k, v) \<in> set (map (\<lambda>m. (m, wr_hash w1 m)) claimed).
      hash_view mc (\<lambda>_. v) k = hash_view mc (wr_hash w1) k"
    by (auto simp: hash_view_def)
  from collect_pending_view [OF col this] have v: "hash_view mc (wr_hash w2) = hash_view mc (wr_hash ?w)"
    "wr_now w2 = wr_now ?w" "wr_expires_at w2 = wr_expires_at ?w"
    "ps = List.map_filter (wal_entries mc w) claimed"
    by (simp_all add: w1 wal_entries_hash List.map_filter_def filter_map comp_def)
  have live: "wal_live w2 = w2"
    using arg_cong [OF wal_live_idem, of wr_hash] v(2,3)
    by (auto simp: wal_live_def split: option.splits if_splits)
  have "res = Ok ps \<and> w' = w2 \<or> claimed = [] \<and> res = Ok [] \<and> w' = w1"
    using assms c col by (auto simp: redis_wal_list_def split: option.splits if_splits)
  then show "wal_entries mc w' = wal_entries mc w" "res = Ok ?ps"
    using v live cl now by (auto simp: w1 wal_entries_hash wal_live_upd map_filter_simps)
qed

lemma redis_wal_repository:
  assumes mc: "message_codec_ok mc" and key: "configured_wal_key cfg \<noteq> None"
  shows "wal_repository (redis_wal mc cfg scan) (wal_entries mc)"
proof
  fix sub t pr w w' e n res ps q k
  obtain key where key': "configured_wal_key cfg = Some key" using key by blast
  show "wal_entries mc w' = (wal_entries mc w)(m_server_id (ms_message sub) \<mapsto> pending_of sub t pr)"
    if "wal_append (redis_wal mc cfg scan) sub t pr w = (Ok (), w')"
  proof -
    let ?w = "wal_live w"
    have up: "wk_connected cfg" using that key' by (auto simp: redis_wal_def redis_wal_append_def split: if_splits)
    obtain entry where en: "entry = \<lparr>we_write_proof = pr, we_message_id = m_server_id (ms_message sub),
        we_tenant_id = t, we_encoded = mc_encode mc (ms_message sub), we_persisted = False\<rparr>" by blast
    with that up key' have w': "wr_hash w' = (wr_hash ?w)(m_server_id (ms_message sub) \<mapsto> Entry entry)"
      "wr_now w' = wr_now ?w" "wr_expires_at w' = (if wk_ttl_seconds cfg > 0
         then Some (wr_now ?w + int (wk_ttl_seconds cfg) * 1000) else wr_expires_at ?w)"
      by (auto simp: redis_wal_def redis_wal_append_def Let_def)
    then have "wal_live w' = w'"
      by (auto simp: wal_live_def split: option.splits if_splits)
    with w' en mc show ?thesis
      by (simp add: wal_entries_hash hash_view_upd) (simp add: hash_view_def message_codec_ok_def pending_of_def)
  qed
  show "wal_entries mc w' = wal_entries mc w"
    if "wal_append (redis_wal mc cfg scan) sub t pr w = (Err e, w')"
    using that key' by (auto simp: redis_wal_def redis_wal_append_def Let_def split: if_splits)
  show "wal_entries mc w' = wal_entries mc w"
    if "wal_list (redis_wal mc cfg scan) n w = (res, w')"
  proof (cases "n = 0 \<or> \<not> wk_connected cfg")
    case True
    with that key' have "w' = w" by (auto simp: redis_wal_def redis_wal_list_def split: if_splits)
    then show ?thesis by simp
  next
    case False
    then have "0 < n" "wk_connected cfg" by auto
    with that redis_wal_list_Ok(1) [OF key, of n mc w res w'] show ?thesis by (simp add: redis_wal_def)
  qed
  show "wal_entries mc w (wp_message_id q) = Some q"
    if "wal_list (redis_wal mc cfg scan) n w = (Ok ps, w')" "q \<in> set ps"
  proof -
    have nz: "0 < n" "wk_connected cfg"
      using that key' by (auto simp: redis_wal_def redis_wal_list_def split: if_splits)
    with that redis_wal_list_Ok(2) [OF key nz(2,1), of mc w "Ok ps" w'] obtain m where
      "wal_entries mc w m = Some q" by (auto simp: redis_wal_def List.map_filter_def)
    then show ?thesis
      by (auto simp: wal_entries_def split: option.splits wal_value.splits if_splits)
  qed
  show "wal_entries mc w' = (wal_entries mc w)(k := None)"
    if "wal_remove (redis_wal mc cfg scan) k w = (Ok (), w')"
    using that key'
    by (auto simp: redis_wal_def redis_wal_remove_def Let_def wal_entries_hash wal_live_upd hash_view_del
        split: if_splits)
  show "wal_entries mc w' = wal_entries mc w"
    if "wal_remove (redis_wal mc cfg scan) k w = (Err e, w')"
    using that key' by (auto simp: redis_wal_def redis_wal_remove_def Let_def split: if_splits)
qed

section \<open>Every logged entry stays claimable\<close>

text \<open>Each entry of the hash has its id in the pending set, so a replay can find it.\<close>

definition indexed :: "'e wal_redis \<Rightarrow> bool" where
  "indexed w \<longleftrightarrow> (\<forall>k. wr_hash (wal_live w) k \<noteq> None \<longrightarrow> k \<in> fst ` set (wr_pending (wal_live w)))"

lemma zadd_keys: "fst ` set (zadd m s z) = insert m (fst ` set z)"
  by (auto simp: zadd_def)

lemma zrem_keys: "fst ` set (zrem m z) = fst ` set z - {m}"
  by (auto simp: zrem_def)

lemma claim_each_keys:
  "k \<in> fst ` set z \<Longrightarrow> h k \<noteq> None \<Longrightarrow> k \<in> fst ` set (snd (claim_each h u ms z))"
proof (induction ms arbitrary: z)
  case Nil
  then show ?case by simp
next
  case (Cons m ms)
  show ?case
  proof (cases "h m = None")
    case True
    with Cons.prems have "k \<in> fst ` set (zrem m z)" by (auto simp: zrem_keys)
    from Cons.IH [OF this Cons.prems(2)] True show ?thesis by simp
  next
    case False
    from Cons.prems have "k \<in> fst ` set (zadd m u z)" by (simp add: zadd_keys)
    from Cons.IH [OF this Cons.prems(2)] False show ?thesis by (simp add: case_prod_beta Let_def)
  qed
qed

lemma collect_pending_hash:
  "collect_pending mc vs w = (ps, w') \<Longrightarrow> wr_hash w' k \<noteq> None \<Longrightarrow> wr_hash w k \<noteq> None"
  by (induction mc vs w arbitrary: ps w' rule: collect_pending.induct)
    (fastforce split: if_splits option.splits prod.splits)+

lemma collect_pending_keys:
  "collect_pending mc vs w = (ps, w') \<Longrightarrow> wr_hash w' k \<noteq> None \<Longrightarrow>
   \<forall>(k, v) \<in> set vs. v = None \<longrightarrow> wr_hash w k = None \<Longrightarrow>
   k \<in> fst ` set (wr_pending w) \<Longrightarrow> k \<in> fst ` set (wr_pending w')"
proof (induction mc vs w arbitrary: ps w' rule: collect_pending.induct)
  case (2 mc mid rest w)
  let ?w = "w\<lparr>wr_pending := zrem mid (wr_pending w)\<rparr>"
  have "collect_pending mc rest ?w = (ps, w')" using "2.prems"(1) by simp
  moreover from collect_pending_hash [OF this "2.prems"(2)] "2.prems"(3) have "k \<noteq> mid" by auto
  ultimately show ?case using 2 by (auto simp: zrem_keys)
next
  case (4 mc mid e rest w)
  show ?case
  proof (cases "we_persisted e")
    case True
    let ?w = "w\<lparr>wr_hash := (wr_hash w)(mid := None), wr_pending := zrem mid (wr_pending w)\<rparr>"
    have c: "collect_pending mc rest ?w = (ps, w')" using True "4.prems"(1) by simp
    from collect_pending_hash [OF this "4.prems"(2)] have "k \<noteq> mid" by auto
    moreover have "\<forall>(k, v) \<in> set rest. v = None \<longrightarrow> wr_hash ?w k = None" using "4.prems"(3) by auto
    ultimately show ?thesis
      using "4.IH"(1) [OF True c "4.prems"(2)] "4.prems"(4) by (simp add: zrem_keys)
  next
    case False
    with 4 show ?thesis by (auto split: option.splits prod.splits)
  qed
qed auto

lemma indexed_append:
  "redis_wal_append mc cfg sub t pr w = (res, w') \<Longrightarrow> indexed w \<Longrightarrow> indexed w'"
proof (cases "res = Ok ()")
  case True
  assume r: "redis_wal_append mc cfg sub t pr w = (res, w')" and i: "indexed w"
  let ?w = "wal_live w" let ?m = "m_server_id (ms_message sub)"
  have "\<exists>e. wr_hash w' = (wr_hash ?w)(?m \<mapsto> e)" "wr_pending w' = zadd ?m (wr_now ?w) (wr_pending ?w)"
    using r True by (auto simp: redis_wal_append_def Let_def split: option.splits if_splits)
  moreover have "wr_hash (wal_live w') = wr_hash w' \<and> wr_pending (wal_live w') = wr_pending w' \<or>
      wr_hash (wal_live w') = Map.empty"
    by (simp add: wal_live_def split: option.splits)
  ultimately show ?thesis using i by (auto simp: indexed_def zadd_keys split: if_splits)
next
  case False
  assume r: "redis_wal_append mc cfg sub t pr w = (res, w')" and i: "indexed w"
  with False show ?thesis
    by (auto simp: redis_wal_append_def Let_def split: option.splits if_splits)
qed

lemma indexed_list:
  assumes r: "redis_wal_list mc cfg limit w = (res, w')" and i: "indexed w"
  shows "indexed w'"
proof -
  let ?w = "wal_live w"
  obtain claimed w1 where c: "claim_pending_ids cfg limit ?w = (claimed, w1)" by fastforce
  have w1: "wr_hash w1 = wr_hash ?w" "k \<in> fst ` set (wr_pending ?w) \<Longrightarrow> wr_hash ?w k \<noteq> None \<Longrightarrow>
      k \<in> fst ` set (wr_pending w1)" for k
    using c claim_each_keys [of k "wr_pending ?w" "wr_hash ?w"]
    by (auto simp: claim_pending_ids_def split: prod.splits) (metis snd_conv)
  obtain ps w2 where col: "collect_pending mc (map (\<lambda>m. (m, wr_hash w1 m)) claimed) w1 = (ps, w2)" by fastforce
  have w2: "k \<in> fst ` set (wr_pending w2)" if "wr_hash w2 k \<noteq> None" for k
  proof -
    have "wr_hash ?w k \<noteq> None" using collect_pending_hash [OF col that] w1(1) by simp
    with i w1(2) have "k \<in> fst ` set (wr_pending w1)" by (simp add: indexed_def)
    from collect_pending_keys [OF col that _ this] show ?thesis by auto
  qed
  have "w' = w \<or> w' = w1 \<or> w' = w2"
    using r c col by (auto simp: redis_wal_list_def split: option.splits if_splits)
  moreover have "indexed v" if "\<And>k. wr_hash v k \<noteq> None \<Longrightarrow> k \<in> fst ` set (wr_pending v)" for v
    using that by (auto simp: indexed_def wal_live_def split: option.splits if_splits)
  ultimately show ?thesis using i w1 w2 by (metis indexed_def)
qed

lemma indexed_remove:
  "redis_wal_remove cfg k w = (res, w') \<Longrightarrow> indexed w \<Longrightarrow> indexed w'"
  by (auto simp: redis_wal_remove_def Let_def indexed_def wal_live_upd zrem_keys
      split: option.splits if_splits)

text \<open>With room for the whole pending set, every entry due is listed.\<close>

lemma zrange_complete:
  assumes "length z \<le> limit"
  shows "set (zrange_by_score t limit z) = {m. \<exists>s. (m, s) \<in> set z \<and> s \<le> t}"
proof -
  have "length (filter (\<lambda>(m, s). s \<le> t) z) \<le> limit"
    using assms length_filter_le le_trans by blast
  then have "set (zrange_by_score t limit z) = fst ` {e \<in> set z. snd e \<le> t}"
    by (simp add: zrange_by_score_def case_prod_beta)
  then show ?thesis by force
qed

section \<open>Properties\<close>

text \<open>
  The operations as events on the log, with time passing; \<open>run_wal\<close> executes them in order.
\<close>

datatype wal_event =
    EvAppend message_submission string "string option"
  | EvList nat
  | EvRemove string
  | EvTime nat

fun wal_event_step :: "'e message_codec \<Rightarrow> wal_config \<Rightarrow> 'e wal_redis \<Rightarrow> wal_event \<Rightarrow> 'e wal_redis" where
  "wal_event_step mc cfg w (EvAppend sub t pr) = snd (redis_wal_append mc cfg sub t pr w)"
| "wal_event_step mc cfg w (EvList n) = snd (redis_wal_list mc cfg n w)"
| "wal_event_step mc cfg w (EvRemove k) = snd (redis_wal_remove cfg k w)"
| "wal_event_step mc cfg w (EvTime d) = w\<lparr>wr_now := wr_now w + int d\<rparr>"

definition run_wal :: "'e message_codec \<Rightarrow> wal_config \<Rightarrow> 'e wal_redis \<Rightarrow> wal_event list \<Rightarrow> 'e wal_redis" where
  "run_wal mc cfg w evs = foldl (wal_event_step mc cfg) w evs"

lemma indexed_step: "indexed w \<Longrightarrow> indexed (wal_event_step mc cfg w ev)"
proof (cases ev)
  case (EvTime d)
  assume "indexed w"
  with EvTime show ?thesis
    by (auto simp: indexed_def wal_live_def split: option.splits if_splits)
qed (auto intro: indexed_append indexed_list indexed_remove prod.collapse [symmetric])

lemma indexed_run: "indexed w \<Longrightarrow> indexed (run_wal mc cfg w evs)"
  unfolding run_wal_def by (induction evs arbitrary: w) (simp_all add: indexed_step)

text \<open>Without a lifetime on the log, only an append or a removal of its own id touches an entry.\<close>

definition touches :: "string \<Rightarrow> wal_event \<Rightarrow> bool" where
  "touches k ev \<longleftrightarrow> (case ev of EvAppend sub _ _ \<Rightarrow> m_server_id (ms_message sub) = k | EvRemove k' \<Rightarrow> k' = k
     | _ \<Rightarrow> False)"

lemma collect_pending_expires: "wr_expires_at (snd (collect_pending mc vs w)) = wr_expires_at w"
  by (induction mc vs w rule: collect_pending.induct) (simp_all add: case_prod_beta Let_def split: option.splits)

lemma expires_step:
  assumes "wk_ttl_seconds cfg = 0" "wr_expires_at w = None"
  shows "wr_expires_at (wal_event_step mc cfg w ev) = None"
proof (cases ev)
  case (EvList n)
  obtain claimed w1 where c: "claim_pending_ids cfg n w = (claimed, w1)" by fastforce
  have w1: "wr_expires_at w1 = None" using claim_pending_ids_state(1) [OF c] assms(2) by auto
  have "wr_expires_at (snd (collect_pending mc (map (\<lambda>m. (m, wr_hash w1 m)) claimed) w1)) = None"
    using w1 by (simp add: collect_pending_expires)
  with assms(2) c w1 EvList show ?thesis
    by (auto simp: redis_wal_list_def wal_live_def case_prod_beta split: option.splits)
qed (use assms in \<open>auto simp: redis_wal_append_def redis_wal_remove_def wal_live_def Let_def split: option.splits\<close>)

lemma entries_step:
  assumes mc: "message_codec_ok mc" and key: "configured_wal_key cfg \<noteq> None"
    and ttl: "wk_ttl_seconds cfg = 0" "wr_expires_at w = None" and "\<not> touches k ev"
  shows "wal_entries mc (wal_event_step mc cfg w ev) k = wal_entries mc w k"
proof -
  note R = redis_wal_repository [OF mc key, of "[]"]
  show ?thesis
  proof (cases ev)
    case (EvAppend sub t pr)
    obtain res w' where r: "wal_append (redis_wal mc cfg []) sub t pr w = (res, w')" by fastforce
    then have w': "wal_event_step mc cfg w ev = w'" using EvAppend by (simp add: redis_wal_def)
    show ?thesis
    proof (cases res)
      case (Inl e)
      with wal_repository.append_err [OF R] r w' show ?thesis by simp
    next
      case (Inr u)
      with wal_repository.append_ok [OF R] r w' EvAppend assms(5) show ?thesis by (simp add: touches_def)
    qed
  next
    case (EvList n)
    then show ?thesis
      using wal_repository.list_keeps [OF R, of n w, OF prod.collapse [symmetric]] by (simp add: redis_wal_def)
  next
    case (EvRemove k')
    obtain res w' where r: "wal_remove (redis_wal mc cfg []) k' w = (res, w')" by fastforce
    then have w': "wal_event_step mc cfg w ev = w'" using EvRemove by (simp add: redis_wal_def)
    show ?thesis
    proof (cases res)
      case (Inl e)
      with wal_repository.remove_err [OF R] r w' show ?thesis by simp
    next
      case (Inr u)
      with wal_repository.remove_ok [OF R] r w' EvRemove assms(5) show ?thesis by (simp add: touches_def)
    qed
  next
    case (EvTime d)
    then show ?thesis using ttl by (simp add: wal_entries_def wal_live_def)
  qed
qed

text \<open>
  The log loses nothing. An entry that was logged stays recoverable through any later sequence of
  appends, replay listings, removals of other entries and passing time (with no lifetime configured
  on the log), and a listing with room for the pending set answers every recoverable entry whose
  claim is due.
\<close>

theorem wal_keeps_logged_entries:
  assumes "message_codec_ok mc" and "configured_wal_key cfg \<noteq> None" and "wk_connected cfg"
    and "wk_ttl_seconds cfg = 0" and "wr_expires_at w = None" and "indexed w"
    and "wal_entries mc w k = Some p" and "\<forall>ev \<in> set evs. \<not> touches k ev"
  shows "(let w' = run_wal mc cfg w evs in
     wal_entries mc w' k = Some p \<and>
     (\<exists>s. (k, s) \<in> set (wr_pending w') \<and>
       (\<forall>limit ps w''. length (wr_pending w') \<le> limit \<and> s \<le> wr_now w'
          \<and> redis_wal_list mc cfg limit w' = (Ok ps, w'') \<longrightarrow> p \<in> set ps)))"
proof -
  let ?w = "run_wal mc cfg w evs"
  have "wal_entries mc ?w k = Some p \<and> wr_expires_at ?w = None"
    using assms(5,7,8) unfolding run_wal_def
    by (induction evs arbitrary: w)
      (simp_all add: expires_step [OF assms(4)] entries_step [OF assms(1,2,4)])
  then have e: "wal_entries mc ?w k = Some p" and x: "wal_live ?w = ?w"
    by (simp_all add: wal_live_def)
  have h: "wr_hash ?w k \<noteq> None" using e x by (auto simp: wal_entries_def split: option.splits)
  with indexed_run [OF assms(6), of mc cfg evs] x obtain s where s: "(k, s) \<in> set (wr_pending ?w)"
    by (fastforce simp: indexed_def)
  have "p \<in> set ps" if l: "length (wr_pending ?w) \<le> limit" "s \<le> wr_now ?w"
    "redis_wal_list mc cfg limit ?w = (Ok ps, w'')" for limit ps w''
  proof -
    have pos: "0 < limit" using s l(1) by (cases "wr_pending ?w") auto
    have "k \<in> set (zrange_by_score (wr_now ?w) limit (wr_pending ?w))"
      using zrange_complete [OF l(1)] s l(2) by blast
    with redis_wal_list_Ok(2) [OF assms(2,3) pos l(3)] e h x show ?thesis
      by (force simp: List.map_filter_def)
  qed
  with e s show ?thesis by (auto simp: Let_def)
qed

text \<open>The identity encoding, and a log that holds one entry from time 0 on.\<close>

definition plain_codec :: "message message_codec" where
  "plain_codec = \<lparr>mc_encode = (\<lambda>m. m), mc_decode = Some\<rparr>"

lemma plain_codec_ok: "message_codec_ok plain_codec"
  by (simp add: message_codec_ok_def plain_codec_def)

definition log_config :: "nat \<Rightarrow> nat \<Rightarrow> bool \<Rightarrow> wal_config" where
  "log_config ttl lease up = \<lparr>wk_hash_key = Some ''flare:wal'', wk_ttl_seconds = ttl, wk_claim_lease_ms = lease,
     wk_connected = up\<rparr>"

lemma log_config_key: "configured_wal_key (log_config ttl lease up) \<noteq> None"
proof -
  have "trim ''flare:wal'' = ''flare:wal''" by code_simp
  then show ?thesis by (simp add: configured_wal_key_def log_config_def)
qed

interpretation redis_log: wal_repository "redis_wal plain_codec (log_config ttl lease up) scan"
    "wal_entries plain_codec" for ttl lease up scan
  by (rule redis_wal_repository [OF plain_codec_ok log_config_key])

definition empty_log :: "message wal_redis" where
  "empty_log = \<lparr>wr_hash = Map.empty, wr_pending = [], wr_now = 0, wr_expires_at = None\<rparr>"

definition example_submission :: message_submission where
  "example_submission = \<lparr>ms_message = default_message\<lparr>m_server_id := ''s1''\<rparr>, ms_message_id = ''s1'',
     ms_timeline = default_timeline\<rparr>"

definition example_log :: "message wal_redis" where
  "example_log = snd (redis_wal_append plain_codec (log_config 0 30000 True) example_submission ''t'' None empty_log)"

lemma example_log_facts:
  "wr_expires_at example_log = None" "indexed example_log"
  "wal_entries plain_codec example_log ''s1'' = Some (pending_of example_submission ''t'' None)"
proof -
  have r: "redis_wal_append plain_codec (log_config 0 30000 True) example_submission ''t'' None empty_log =
      (Ok (), example_log)"
    using log_config_key [of 0 30000 True]
    by (auto simp: example_log_def redis_wal_append_def log_config_def Let_def)
  show "indexed example_log"
    by (rule indexed_append [OF r]) (simp add: indexed_def empty_log_def wal_live_def)
  show "wal_entries plain_codec example_log ''s1'' = Some (pending_of example_submission ''t'' None)"
    using redis_log.append_ok [of 0 30000 True "[]" example_submission "''t''" None empty_log example_log] r
    by (simp add: redis_wal_def example_submission_def)
  show "wr_expires_at example_log = None"
    using expires_step [of "log_config 0 30000 True" empty_log plain_codec "EvAppend example_submission ''t'' None",
        unfolded wal_event_step.simps, folded example_log_def]
    by (simp add: log_config_def empty_log_def)
qed

theorem wal_keeps_logged_entries_witness:
  "wal_entries plain_codec (run_wal plain_codec (log_config 0 30000 True) example_log
     [EvTime 5, EvList 10, EvTime 60000, EvRemove ''s2'']) ''s1'' = Some (pending_of example_submission ''t'' None)"
  using wal_keeps_logged_entries [OF plain_codec_ok log_config_key [of 0 30000 True] _ _ example_log_facts,
      of "[EvTime 5, EvList 10, EvTime 60000, EvRemove ''s2'']"]
  by (simp add: log_config_def touches_def Let_def)

text \<open>
  The Redis log implements the log contract: an append stores exactly the submitted message with
  its tenant and proof under its server id, a removal removes that entry alone, a listing changes no
  entry and answers stored entries only, and a failed operation changes nothing.
\<close>

theorem redis_wal_refines_contract:
  assumes "message_codec_ok mc" and "configured_wal_key cfg \<noteq> None"
  shows "wal_repository (redis_wal mc cfg scan) (wal_entries mc)"
  using redis_wal_repository [OF assms] .

theorem redis_wal_refines_contract_witness:
  "wal_repository (redis_wal plain_codec (log_config 0 30000 True) []) (wal_entries plain_codec)"
  by (rule redis_wal_refines_contract [OF plain_codec_ok log_config_key])

end
