(* ===== verification/Ingest_Service.thy ===== *)
theory Ingest_Service
  imports Seq_Allocator Wal_Store
begin

text \<open>
  \<^verbatim>\<open>flare-message-ingest/src/domain/service/message_ingest_service.rs\<close>: sequence allocation with the
  persisted floor, the log write, recipient resolution (with
  \<^verbatim>\<open>crates/flare-im-message-pipeline/src/persistence/recipient_repository.rs\<close> and the sync inbox ids of
  \<^verbatim>\<open>crates/flare-im-contracts/src/constants/sync_inbox.rs\<close>) and publication. The other services it calls
  (storage reader, conversation service, write proofs, the message queue) are the fields of
  \<open>ingest_env\<close>; the world holds the sequence server, the floor cache, the log and the queue, with the
  list of publications the queue accepted, newest first.
\<close>

section \<open>World and collaborators\<close>

datatype seq_floor_state = Checked | FailedAt nat

datatype floor_reply = FloorIs nat | FloorFailed flare_error | FloorTimedOut

datatype publication =
    PublishBoth message "string list" string bool
  | PushOnly message "string list" string
  | PersistOnly message string

record ('r, 'w, 'b) ingest_world =
  iw_redis :: 'r
  iw_floor_state :: "string \<rightharpoonup> seq_floor_state"
  iw_wal :: 'w
  iw_queue :: 'b
  iw_published :: "publication list"

record ('r, 'w, 'b) ingest_env =
  ie_redis :: "'r redis_cmds"
  ie_floor_provider :: "(string \<Rightarrow> string \<Rightarrow> floor_reply) option"
  ie_wal :: "'w wal_ops"
  ie_write_proof :: "message \<Rightarrow> string option result"
  ie_requires_proof :: "message \<Rightarrow> bool"
  ie_members :: "string \<Rightarrow> string list result"
  ie_queue :: "publication \<Rightarrow> 'b \<Rightarrow> unit result \<times> 'b"

section \<open>Sequence allocation\<close>

datatype seq_alloc_plan = PlainIncr | FirstTouchFloor

definition plan_seq_alloc :: "bool \<Rightarrow> bool \<Rightarrow> seq_alloc_plan" where
  "plan_seq_alloc has_provider already_checked =
     (if has_provider \<and> \<not> already_checked then FirstTouchFloor else PlainIncr)"

definition SEQ_FLOOR_FAILURE_BACKOFF_MS :: nat where "SEQ_FLOOR_FAILURE_BACKOFF_MS = 30000"

definition on_redis :: "('r \<Rightarrow> 'a \<times> 'r) \<Rightarrow> ('r, 'w, 'b) ingest_world \<Rightarrow> 'a \<times> ('r, 'w, 'b) ingest_world" where
  "on_redis op w = (case op (iw_redis w) of (res, r) \<Rightarrow> (res, w\<lparr>iw_redis := r\<rparr>))"

definition floor_cache_key :: "string \<Rightarrow> string \<Rightarrow> string" where
  "floor_cache_key tenant_id conversation_id = tenant_id @ ''::'' @ conversation_id"

definition first_touch_floor_alloc ::
  "('r, 'w, 'b) ingest_env \<Rightarrow> nat \<Rightarrow> string \<Rightarrow> string \<Rightarrow> string \<Rightarrow> ('r, 'w, 'b) ingest_world \<Rightarrow>
     nat result \<times> ('r, 'w, 'b) ingest_world" where
  "first_touch_floor_alloc E now tenant_id conversation_id cache_key w =
     (let plain = on_redis (allocate_seq (ie_redis E) conversation_id tenant_id);
          failed = (\<lambda>w. w\<lparr>iw_floor_state := (iw_floor_state w)(cache_key \<mapsto> FailedAt now)\<rparr>)
      in (case ie_floor_provider E of
            None \<Rightarrow> plain w
          | Some provider \<Rightarrow>
              (case provider tenant_id conversation_id of
                 FloorFailed e \<Rightarrow> plain (failed w)
               | FloorTimedOut \<Rightarrow> plain (failed w)
               | FloorIs floor \<Rightarrow>
                   (case on_redis (allocate_seq_with_floor (ie_redis E) conversation_id tenant_id floor) w of
                      (Inl e, w') \<Rightarrow> (Inl e, w')
                    | (Inr seq, w') \<Rightarrow>
                        (Ok seq, w'\<lparr>iw_floor_state := (iw_floor_state w')(cache_key \<mapsto> Checked)\<rparr>)))))"

definition already_checked :: "nat \<Rightarrow> seq_floor_state option \<Rightarrow> bool" where
  "already_checked now st =
     (case st of
        Some Checked \<Rightarrow> True
      | Some (FailedAt at) \<Rightarrow> now - at < SEQ_FLOOR_FAILURE_BACKOFF_MS
      | None \<Rightarrow> False)"

definition allocate_conversation_seq ::
  "('r, 'w, 'b) ingest_env \<Rightarrow> nat \<Rightarrow> string \<Rightarrow> string \<Rightarrow> ('r, 'w, 'b) ingest_world \<Rightarrow>
     nat result \<times> ('r, 'w, 'b) ingest_world" where
  "allocate_conversation_seq E now tenant_id conversation_id w =
     (let cache_key = floor_cache_key tenant_id conversation_id;
          checked = already_checked now (iw_floor_state w cache_key)
      in (case plan_seq_alloc (\<not> Option.is_none (ie_floor_provider E)) checked of
            PlainIncr \<Rightarrow>
              (case on_redis (allocate_seq (ie_redis E) conversation_id tenant_id) w of
                 (Inl e, w') \<Rightarrow> (Inl e, w')
               | (Inr seq, w') \<Rightarrow>
                   if seq = 1 \<and> iw_floor_state w' cache_key = Some Checked
                   then first_touch_floor_alloc E now tenant_id conversation_id cache_key w'
                   else (Ok seq, w'))
          | FirstTouchFloor \<Rightarrow> first_touch_floor_alloc E now tenant_id conversation_id cache_key w))"

definition allocate_seq_for_submission ::
  "('r, 'w, 'b) ingest_env \<Rightarrow> nat \<Rightarrow> string \<Rightarrow> message_submission \<Rightarrow> ('r, 'w, 'b) ingest_world \<Rightarrow>
     (message_submission \<times> message_profile) result \<times> ('r, 'w, 'b) ingest_world" where
  "allocate_seq_for_submission E now tenant_id sub w =
     (case allocate_conversation_seq E now tenant_id (m_conversation_id (ms_message sub)) w of
        (Inl e, w') \<Rightarrow>
          (Err (FlareError InternalError (''allocate seq failed for conversation_id='' @
             m_conversation_id (ms_message sub) @ '': '' @ err_msg e)), w')
      | (Inr session_seq, w') \<Rightarrow>
          let sub' = sub\<lparr>ms_message := (ms_message sub)\<lparr>m_conversation_seq := session_seq\<rparr>\<rparr>
          in (Ok (sub', fst (profile_ensure (ms_message sub'))), w'))"

section \<open>The log\<close>

definition should_write_wal :: "message_profile \<Rightarrow> persistence_mode \<Rightarrow> bool" where
  "should_write_wal profile mode = (\<not> should_push_only mode (is_temporary profile))"

definition write_wal_if_needed ::
  "('r, 'w, 'b) ingest_env \<Rightarrow> message_submission \<Rightarrow> message_profile \<Rightarrow> persistence_mode \<Rightarrow> string \<Rightarrow>
     ('r, 'w, 'b) ingest_world \<Rightarrow> unit result \<times> ('r, 'w, 'b) ingest_world" where
  "write_wal_if_needed E sub profile mode tenant_id w =
     (if should_write_wal profile mode then
        (case ie_write_proof E (ms_message sub) of
           Inl e \<Rightarrow> (Err e, w)
         | Inr proof \<Rightarrow>
             if ie_requires_proof E (ms_message sub) \<and> proof = None then
               (Err (FlareError ConfigurationError ''machine WAL provenance unavailable''), w)
             else (case wal_append (ie_wal E) sub tenant_id proof (iw_wal w) of
                     (Inl e, l) \<Rightarrow>
                       (Err (FlareError InternalError (''Failed to append WAL entry: '' @ err_msg e)),
                        w\<lparr>iw_wal := l\<rparr>)
                   | (Inr _, l) \<Rightarrow> (Ok (), w\<lparr>iw_wal := l\<rparr>)))
      else (Ok (), w))"

definition remove_wal_after_broker_accept ::
  "('r, 'w, 'b) ingest_env \<Rightarrow> message_submission \<Rightarrow> ('r, 'w, 'b) ingest_world \<Rightarrow>
     unit result \<times> ('r, 'w, 'b) ingest_world" where
  "remove_wal_after_broker_accept E sub w =
     (case wal_remove (ie_wal E) (ms_message_id sub) (iw_wal w) of
        (Inl e, l) \<Rightarrow>
          (Err (FlareError InternalError (''Failed to remove WAL entry after broker accept: '' @ err_msg e)),
           w\<lparr>iw_wal := l\<rparr>)
      | (Inr _, l) \<Rightarrow> (Ok (), w\<lparr>iw_wal := l\<rparr>))"

section \<open>Recipients\<close>

definition SYNC_INBOX_CONVERSATION_PREFIX :: string where "SYNC_INBOX_CONVERSATION_PREFIX = ''sync:''"

definition sync_inbox_conversation_id :: "string \<Rightarrow> string" where
  "sync_inbox_conversation_id user_id = SYNC_INBOX_CONVERSATION_PREFIX @ trim user_id"

definition is_sync_inbox_conversation_id :: "string \<Rightarrow> bool" where
  "is_sync_inbox_conversation_id cid = starts_with cid SYNC_INBOX_CONVERSATION_PREFIX"

definition sync_inbox_recipient :: "string \<Rightarrow> string option" where
  "sync_inbox_recipient cid =
     (if starts_with cid SYNC_INBOX_CONVERSATION_PREFIX
      then (let rest = trim (drop (length SYNC_INBOX_CONVERSATION_PREFIX) cid)
            in if rest = [] then None else Some rest)
      else None)"

definition explicit_single_chat_recipient :: "string option \<Rightarrow> string \<Rightarrow> string option" where
  "explicit_single_chat_recipient channel_id sender_id =
     (case map_option trim channel_id of
        None \<Rightarrow> None
      | Some cid \<Rightarrow> if cid = [] then None else if cid \<noteq> sender_id then Some cid else None)"

definition get_conversation_members :: "('r, 'w, 'b) ingest_env \<Rightarrow> string \<Rightarrow> string list result" where
  "get_conversation_members E cid =
     (case ie_members E cid of Inr members \<Rightarrow> Ok members | Inl e \<Rightarrow> Ok [])"

definition sort_dedup :: "string list \<Rightarrow> string list" where
  "sort_dedup xs = remdups_adj (sort xs)"

definition get_message_recipients ::
  "('r, 'w, 'b) ingest_env \<Rightarrow> string \<Rightarrow> conversation_type \<Rightarrow> string option \<Rightarrow> string \<Rightarrow> string list result" where
  "get_message_recipients E cid ctype channel_id sender_id =
     (case sync_inbox_recipient cid of
        Some r \<Rightarrow> Ok [r]
      | None \<Rightarrow>
          if ctype = Single then
            (case explicit_single_chat_recipient channel_id sender_id of
               Some r \<Rightarrow> Ok [r]
             | None \<Rightarrow> and_then (get_conversation_members E cid)
                 (\<lambda>members. Ok (sort_dedup (filter (\<lambda>u. u \<noteq> [] \<and> u \<noteq> sender_id) (map trim members)))))
          else and_then (get_conversation_members E cid)
                 (\<lambda>members. Ok (filter (\<lambda>u. u \<noteq> sender_id) members)))"

definition is_hint_separator :: "char \<Rightarrow> bool" where
  "is_hint_separator c \<longleftrightarrow> c \<in> {CHR '','', CHR '';'', CHR '' '', char_of (10::nat), char_of (9::nat)}"

definition recipient_hints_from_message_attributes :: "message \<Rightarrow> string list" where
  "recipient_hints_from_message_attributes m =
     (case m_attributes m ''group_member_ids'' of
        None \<Rightarrow> []
      | Some raw \<Rightarrow>
          sort_dedup (filter (\<lambda>u. u \<noteq> [] \<and> u \<noteq> m_sender_id m) (map trim (split_by is_hint_separator raw))))"

definition get_recipient_user_ids :: "('r, 'w, 'b) ingest_env \<Rightarrow> message \<Rightarrow> string list result" where
  "get_recipient_user_ids E m =
     (let ctype = conversation_type_from_proto (m_conversation_type m) in
      (case get_message_recipients E (m_conversation_id m) ctype
              (if m_channel_id m = [] then None else Some (m_channel_id m)) (m_sender_id m) of
         Inl e \<Rightarrow> Err (FlareError InternalError (''Failed to get message recipients: '' @ err_msg e))
       | Inr recipients \<Rightarrow>
           Ok (if recipients = [] \<and> ctype \<noteq> Single
               then recipient_hints_from_message_attributes m else recipients)))"

definition resolve_persistent_message_recipients ::
  "('r, 'w, 'b) ingest_env \<Rightarrow> message \<Rightarrow> (string list \<times> bool) result" where
  "resolve_persistent_message_recipients E m =
     (if needs_member_lookup (conversation_type_from_proto (m_conversation_type m)) then Ok ([], True)
      else and_then (get_recipient_user_ids E m) (\<lambda>recipients. Ok (recipients, False)))"

definition normalize_single_chat_routing :: "message \<Rightarrow> string list \<Rightarrow> message" where
  "normalize_single_chat_routing m recipients =
     (if conversation_type_from_proto (m_conversation_type m) \<noteq> Single then m
      else (case List.find (\<lambda>u. u \<noteq> [] \<and> u \<noteq> trim (m_sender_id m)) (map trim recipients) of
              None \<Rightarrow> m
            | Some peer \<Rightarrow> if trim (m_channel_id m) \<noteq> peer then m\<lparr>m_channel_id := peer\<rparr> else m))"

section \<open>Publication\<close>

definition mq_publish :: "('r, 'w, 'b) ingest_env \<Rightarrow> publication \<Rightarrow> ('r, 'w, 'b) ingest_world \<Rightarrow>
     unit result \<times> ('r, 'w, 'b) ingest_world" where
  "mq_publish E p w =
     (case ie_queue E p (iw_queue w) of
        (Inl e, q) \<Rightarrow> (Err e, w\<lparr>iw_queue := q\<rparr>)
      | (Inr _, q) \<Rightarrow> (Ok (), w\<lparr>iw_queue := q, iw_published := p # iw_published w\<rparr>))"

definition push_only_with_recipients ::
  "('r, 'w, 'b) ingest_env \<Rightarrow> message \<Rightarrow> string list \<Rightarrow> ('r, 'w, 'b) ingest_world \<Rightarrow>
     unit result \<times> ('r, 'w, 'b) ingest_world" where
  "push_only_with_recipients E m recipients w =
     (let m = normalize_single_chat_routing m recipients
      in mq_publish E (PushOnly m recipients (m_conversation_id m)) w)"

definition push_only :: "('r, 'w, 'b) ingest_env \<Rightarrow> message \<Rightarrow> ('r, 'w, 'b) ingest_world \<Rightarrow>
     unit result \<times> ('r, 'w, 'b) ingest_world" where
  "push_only E m w =
     (case get_recipient_user_ids E m of
        Inl e \<Rightarrow> (Err e, w)
      | Inr recipients \<Rightarrow>
          push_only_with_recipients E (normalize_single_chat_routing m recipients) recipients w)"

definition persistence_only :: "('r, 'w, 'b) ingest_env \<Rightarrow> message \<Rightarrow> ('r, 'w, 'b) ingest_world \<Rightarrow>
     unit result \<times> ('r, 'w, 'b) ingest_world" where
  "persistence_only E m w = mq_publish E (PersistOnly m (m_conversation_id m)) w"

definition persist_and_push_with_recipients ::
  "('r, 'w, 'b) ingest_env \<Rightarrow> message \<Rightarrow> string list \<Rightarrow> ('r, 'w, 'b) ingest_world \<Rightarrow>
     unit result \<times> ('r, 'w, 'b) ingest_world" where
  "persist_and_push_with_recipients E m recipients w =
     (let m = normalize_single_chat_routing m recipients in
      (case mq_publish E (PersistOnly m (m_conversation_id m)) w of
         (Inl e, w') \<Rightarrow> (Inl e, w')
       | (Inr _, w') \<Rightarrow> mq_publish E (PushOnly m recipients (m_conversation_id m)) w'))"

definition push_message ::
  "('r, 'w, 'b) ingest_env \<Rightarrow> message_submission \<Rightarrow> message_profile \<Rightarrow> persistence_mode \<Rightarrow>
     ('r, 'w, 'b) ingest_world \<Rightarrow> unit result \<times> ('r, 'w, 'b) ingest_world" where
  "push_message E sub profile mode w =
     (if should_push_only mode (is_temporary profile) then push_only E (ms_message sub) w
      else (case resolve_persistent_message_recipients E (ms_message sub) of
              Inl e \<Rightarrow> (Err e, w)
            | Inr (recipients, large) \<Rightarrow>
                let m = (if large then ms_message sub
                         else normalize_single_chat_routing (ms_message sub) recipients)
                in mq_publish E (PublishBoth m recipients (m_conversation_id m) large) w))"

section \<open>Facts\<close>

lemma sync_inbox_roundtrip:
  "trim user \<noteq> [] \<Longrightarrow> sync_inbox_recipient (sync_inbox_conversation_id user) = Some (trim user)"
  "is_sync_inbox_conversation_id (sync_inbox_conversation_id user)"
  by (simp_all add: sync_inbox_recipient_def sync_inbox_conversation_id_def is_sync_inbox_conversation_id_def
      starts_with_def SYNC_INBOX_CONVERSATION_PREFIX_def)

lemma set_sort_dedup [simp]: "set (sort_dedup xs) = set xs"
  by (simp add: sort_dedup_def)

lemma distinct_remdups_adj_sorted: "sorted (xs :: 'a :: linorder list) \<Longrightarrow> distinct (remdups_adj xs)"
proof (induction xs rule: remdups_adj.induct)
  case (3 x y xs)
  then show ?case by (cases "x = y") force+
qed simp_all

lemma distinct_sort_dedup: "distinct (sort_dedup xs)"
  by (simp add: sort_dedup_def distinct_remdups_adj_sorted)

lemma explicit_recipient_Some:
  "explicit_single_chat_recipient ch s = Some r \<Longrightarrow> r \<noteq> [] \<and> r \<noteq> s"
  by (auto simp: explicit_single_chat_recipient_def split: option.splits if_splits)

lemma get_message_recipients_Ok:
  assumes "get_message_recipients E cid ctype ch s = Ok rs" and "sync_inbox_recipient cid = None"
  shows "s \<notin> set rs" and "ctype = Single \<Longrightarrow> distinct rs \<and> [] \<notin> set rs"
  using assms explicit_recipient_Some [of ch s]
  by (auto simp: get_message_recipients_def and_then_eq_Ok distinct_sort_dedup split: if_splits option.splits)

lemma mq_publish_cases:
  assumes "mq_publish E p w = (res, w')"
  shows "(res = Ok () \<and> iw_published w' = p # iw_published w \<or> (\<exists>e. res = Err e) \<and> iw_published w' = iw_published w)
    \<and> iw_wal w' = iw_wal w \<and> iw_redis w' = iw_redis w \<and> iw_floor_state w' = iw_floor_state w"
  using assms by (auto simp: mq_publish_def split: prod.splits sum.splits)

lemma normalize_routing_keeps:
  "m_conversation_id (normalize_single_chat_routing m rs) = m_conversation_id m"
  "m_server_id (normalize_single_chat_routing m rs) = m_server_id m"
  "m_conversation_seq (normalize_single_chat_routing m rs) = m_conversation_seq m"
  "m_conversation_type (normalize_single_chat_routing m rs) = m_conversation_type m"
  "m_sender_id (normalize_single_chat_routing m rs) = m_sender_id m"
  by (simp_all add: normalize_single_chat_routing_def split: option.splits)

text \<open>The message a publication carries.\<close>

fun publication_message :: "publication \<Rightarrow> message" where
  "publication_message (PublishBoth m rs c l) = m"
| "publication_message (PushOnly m rs c) = m"
| "publication_message (PersistOnly m c) = m"

fun publication_stores :: "publication \<Rightarrow> bool" where
  "publication_stores (PublishBoth m rs c l) = True"
| "publication_stores (PushOnly m rs c) = False"
| "publication_stores (PersistOnly m c) = True"

lemma push_message_Ok:
  assumes "push_message E sub p mode w = (Ok (), w')"
  shows "\<exists>pub. iw_published w' = pub # iw_published w
     \<and> m_server_id (publication_message pub) = m_server_id (ms_message sub)
     \<and> m_conversation_id (publication_message pub) = m_conversation_id (ms_message sub)
     \<and> m_conversation_seq (publication_message pub) = m_conversation_seq (ms_message sub)
     \<and> (publication_stores pub \<longleftrightarrow> \<not> should_push_only mode (is_temporary p))"
  using assms
  by (auto simp: push_message_def push_only_def push_only_with_recipients_def Let_def normalize_routing_keeps
      split: if_split_asm sum.splits prod.splits dest!: mq_publish_cases)

lemma push_message_Err:
  assumes "push_message E sub p mode w = (Err e, w')"
  shows "iw_published w' = iw_published w"
  using assms
  by (auto simp: push_message_def push_only_def push_only_with_recipients_def Let_def
      split: if_split_asm sum.splits prod.splits dest!: mq_publish_cases)

lemma push_message_frame:
  assumes "push_message E sub p mode w = (res, w')"
  shows "iw_wal w' = iw_wal w" and "iw_redis w' = iw_redis w" and "iw_floor_state w' = iw_floor_state w"
  using assms
  by (auto simp: push_message_def push_only_def push_only_with_recipients_def Let_def
      split: if_split_asm sum.splits prod.splits dest!: mq_publish_cases)

context redis_server
begin

text \<open>A plain and a floor-guarded allocation on a readable counter.\<close>

lemma allocate_seq_ok:
  assumes "conv_counter R r (t, cv) = Some c" and "c + 1 \<le> redis_int_max"
  shows "\<exists>r'. allocate_seq R cv t r = (Ok (c + 1), r') \<and> conv_counter R r' (t, cv) = Some (c + 1)"
proof -
  have "counter_value (r_get R r (build_redis_key t cv)) = Some c" using assms(1) by (simp add: conv_counter_def)
  from incrby_ok [OF this assms(2)] obtain r' where
    r': "r_incrby R (build_redis_key t cv) 1 r = Some (c + 1, r')"
      "r_get R r' (build_redis_key t cv) = Some (to_decimal (c + 1))" by auto
  with assms(2) show ?thesis
    by (auto simp: allocate_seq_def allocate_single_seq_def conv_counter_def simp del: One_nat_def)
qed

lemma allocate_floor_ok:
  assumes "conv_counter R r (t, cv) = Some c" and "c < lua_exact_max" and "f < lua_exact_max"
  shows "\<exists>n r'. allocate_seq_with_floor R cv t f r = (Ok n, r') \<and> conv_counter R r' (t, cv) = Some n
     \<and> c < n \<and> f < n"
proof (cases "f = 0")
  case True
  with allocate_seq_ok [OF assms(1)] assms(2) show ?thesis
    by (auto simp: allocate_seq_with_floor_def)
next
  case False
  have c: "counter_value (r_get R r (build_redis_key t cv)) = Some c" using assms(1) by (simp add: conv_counter_def)
  obtain n r' where l: "floor_seq_lua R (build_redis_key t cv) f r = Some (n, r')"
    using c by (simp add: floor_seq_lua_def Let_def)
  from floor_seq_lua_Some(1) [OF l] c have n: "n = max c f + 1" by auto
  with assms(2,3) have "n \<le> u64_max" by simp
  from floor_seq_lua_Some(2) [OF l this] l n False show ?thesis
    by (auto simp: allocate_seq_with_floor_def conv_counter_def max_def)
qed

lemma first_touch_ok:
  assumes "ie_redis E = R" and "ie_floor_provider E = Some p" and "p t cv = FloorIs f"
    and "conv_counter R (iw_redis w) (t, cv) = Some c" and "c < lua_exact_max" and "f < lua_exact_max"
  shows "\<exists>n w'. first_touch_floor_alloc E now t cv key w = (Ok n, w') \<and> f < n \<and> c < n
     \<and> conv_counter R (iw_redis w') (t, cv) = Some n \<and> iw_floor_state w' key = Some Checked"
  using allocate_floor_ok [OF assms(4-6)] assms(1-3)
  by (auto simp: first_touch_floor_alloc_def on_redis_def Let_def)

end

section \<open>Properties\<close>

text \<open>
  C35: after Redis lost a conversation's counter (or the service never saw the conversation), the next
  number allocated is above everything persisted, and above the counter: the first touch asks the
  storage for the highest persisted number, and a counter that starts again at 1 on a conversation
  already checked is recognised and floored again. The storage answers (\<open>FloorIs f\<close>), no failed
  lookup is in its back-off period, and a checked conversation's counter was either kept or lost
  as a whole; the numbers are below \<open>2^53\<close>. Otherwise the code falls back to a plain increment.
\<close>

theorem lost_counter_recovers:
  assumes "redis_server (ie_redis E)" and "ie_floor_provider E = Some p" and "p t cv = FloorIs f"
    and "conv_counter (ie_redis E) (iw_redis w) (t, cv) = Some c"
    and "c + 1 < lua_exact_max" and "f < lua_exact_max"
    and "\<forall>at. iw_floor_state w (floor_cache_key t cv) = Some (FailedAt at)
           \<longrightarrow> SEQ_FLOOR_FAILURE_BACKOFF_MS \<le> now - at"
    and "iw_floor_state w (floor_cache_key t cv) = Some Checked \<longrightarrow> c = 0 \<or> f \<le> c"
  shows "\<exists>n w'. allocate_conversation_seq E now t cv w = (Ok n, w') \<and> f < n \<and> c < n
     \<and> conv_counter (ie_redis E) (iw_redis w') (t, cv) = Some n
     \<and> iw_floor_state w' (floor_cache_key t cv) = Some Checked"
proof (cases "iw_floor_state w (floor_cache_key t cv) = Some Checked")
  case False
  then have "\<not> already_checked now (iw_floor_state w (floor_cache_key t cv))"
    using assms(7) by (auto simp: already_checked_def split: option.splits seq_floor_state.splits)
  with redis_server.first_touch_ok [OF assms(1) refl assms(2-4) _ assms(6)] assms(2,5) show ?thesis
    by (simp add: allocate_conversation_seq_def plan_seq_alloc_def Option.is_none_def Let_def)
next
  case True
  from redis_server.allocate_seq_ok [OF assms(1,4)] assms(5) obtain r' where
    r': "allocate_seq (ie_redis E) cv t (iw_redis w) = (Ok (c + 1), r')"
      "conv_counter (ie_redis E) r' (t, cv) = Some (c + 1)" by auto
  let ?w = "w\<lparr>iw_redis := r'\<rparr>"
  have first: "\<exists>n w'. first_touch_floor_alloc E now t cv (floor_cache_key t cv) ?w = (Ok n, w') \<and> f < n \<and> c + 1 < n
     \<and> conv_counter (ie_redis E) (iw_redis w') (t, cv) = Some n
     \<and> iw_floor_state w' (floor_cache_key t cv) = Some Checked"
    using redis_server.first_touch_ok [OF assms(1) refl assms(2,3), of ?w "c + 1"] r'(2) assms(5,6) by simp
  have a: "allocate_conversation_seq E now t cv w =
      (if c = 0 then first_touch_floor_alloc E now t cv (floor_cache_key t cv) ?w else (Ok (c + 1), ?w))"
    using r'(1) True
    by (simp add: allocate_conversation_seq_def plan_seq_alloc_def Option.is_none_def already_checked_def on_redis_def Let_def)
  show ?thesis
  proof (cases "c = 0")
    case True
    with a first show ?thesis by auto
  next
    case False
    with a r'(2) assms(8) \<open>iw_floor_state w _ = Some Checked\<close> show ?thesis by auto
  qed
qed

text \<open>
  A message's recipients never include its sender (outside the sync inboxes, whose id names the
  recipient), and in a single chat they are distinct and non-empty and the message is routed to the
  other party: if some recipient is not the sender, the channel names one of them.
\<close>

theorem recipients_exclude_sender:
  assumes "get_recipient_user_ids E m = Ok rs" and "sync_inbox_recipient (m_conversation_id m) = None"
  shows "m_sender_id m \<notin> set rs
     \<and> (conversation_type_from_proto (m_conversation_type m) = Single \<longrightarrow>
          distinct rs \<and> [] \<notin> set rs
          \<and> (\<forall>u \<in> set rs. trim u \<noteq> [] \<and> trim u \<noteq> trim (m_sender_id m) \<longrightarrow>
               (\<exists>v \<in> set rs. trim v \<noteq> trim (m_sender_id m) \<and> trim v \<noteq> []
                  \<and> trim (m_channel_id (normalize_single_chat_routing m rs)) = trim v)))"
proof -
  let ?ct = "conversation_type_from_proto (m_conversation_type m)"
  from assms(1) obtain rs0 where
    r0: "get_message_recipients E (m_conversation_id m) ?ct (if m_channel_id m = [] then None else Some (m_channel_id m))
      (m_sender_id m) = Ok rs0"
    and rs: "rs = (if rs0 = [] \<and> ?ct \<noteq> Single then recipient_hints_from_message_attributes m else rs0)"
    by (auto simp: get_recipient_user_ids_def Let_def split: sum.splits)
  note r1 = get_message_recipients_Ok [OF r0 assms(2)]
  have "m_sender_id m \<notin> set (recipient_hints_from_message_attributes m)"
    by (auto simp: recipient_hints_from_message_attributes_def split: option.splits)
  with r1 rs have "m_sender_id m \<notin> set rs" "?ct = Single \<Longrightarrow> distinct rs \<and> [] \<notin> set rs" by auto
  moreover have "\<exists>v \<in> set rs. trim v \<noteq> trim (m_sender_id m) \<and> trim v \<noteq> []
      \<and> trim (m_channel_id (normalize_single_chat_routing m rs)) = trim v"
    if s: "?ct = Single" and u: "u \<in> set rs" "trim u \<noteq> []" "trim u \<noteq> trim (m_sender_id m)" for u
  proof (cases "List.find (\<lambda>u. u \<noteq> [] \<and> u \<noteq> trim (m_sender_id m)) (map trim rs)")
    case None
    with u show ?thesis by (auto simp: find_None_iff)
  next
    case (Some peer)
    then have "peer \<in> trim ` set rs" "peer \<noteq> []" "peer \<noteq> trim (m_sender_id m)"
      by (auto simp: find_Some_iff)
    then show ?thesis
      using Some s by (auto simp: normalize_single_chat_routing_def)
  qed
  ultimately show ?thesis by blast
qed

text \<open>A small deployment: storage knows 41 messages, two members, and a queue that accepts.\<close>

type_synonym example_world = "(mem_state, message wal_redis, unit) ingest_world"

definition example_env :: "(mem_state, message wal_redis, unit) ingest_env" where
  "example_env = \<lparr>ie_redis = mem_redis, ie_floor_provider = Some (\<lambda>t c. FloorIs 41),
     ie_wal = redis_wal plain_codec (log_config 0 30000 True) [], ie_write_proof = (\<lambda>m. Ok None),
     ie_requires_proof = (\<lambda>m. False), ie_members = (\<lambda>c. Ok [''alice'', ''bob'']),
     ie_queue = (\<lambda>p q. (Ok (), q))\<rparr>"

definition example_world :: example_world where
  "example_world = \<lparr>iw_redis = mem_init, iw_floor_state = [''t::c'' \<mapsto> Checked], iw_wal = empty_log,
     iw_queue = (), iw_published = []\<rparr>"

theorem lost_counter_recovers_witness:
  "\<exists>n w'. allocate_conversation_seq example_env 0 ''t'' ''c'' example_world = (Ok n, w') \<and> 41 < n"
proof -
  have "conv_counter (ie_redis example_env) (iw_redis example_world) (''t'', ''c'') = Some 0"
    by code_simp
  with lost_counter_recovers [of example_env "\<lambda>t c. FloorIs 41" "''t''" "''c''" 41 example_world 0 0]
    mem.redis_server_axioms
  show ?thesis by (auto simp: example_env_def example_world_def floor_cache_key_def)
qed

theorem recipients_exclude_sender_witness:
  "''alice'' \<notin> set [''bob''] \<and> get_recipient_user_ids example_env (default_message\<lparr>m_sender_id := ''alice'',
     m_conversation_id := ''1-x'', m_conversation_type := 1\<rparr>) = Ok [''bob'']"
proof -
  let ?m = "default_message\<lparr>m_sender_id := ''alice'', m_conversation_id := ''1-x'', m_conversation_type := 1\<rparr>"
  have r: "get_recipient_user_ids example_env ?m = Ok [''bob'']" by code_simp
  have "sync_inbox_recipient (m_conversation_id ?m) = None" by code_simp
  from recipients_exclude_sender [OF r this] r show ?thesis by simp
qed

text \<open>
  Publishing. On success exactly one publication of the message (its server id, conversation and
  sequence number) reaches the queue, for storage exactly when the mode does not make the message push-only;
  on failure none is recorded. The log and the sequence counters are never touched, and a membership
  conversation is published without materialising its members.
\<close>

theorem push_message_publishes_once:
  "case push_message E sub p mode w of
     (Inl e, w') \<Rightarrow> iw_published w' = iw_published w \<and> iw_wal w' = iw_wal w \<and> iw_redis w' = iw_redis w
   | (Inr _, w') \<Rightarrow> iw_wal w' = iw_wal w \<and> iw_redis w' = iw_redis w
       \<and> (\<exists>pub. iw_published w' = pub # iw_published w
            \<and> m_server_id (publication_message pub) = m_server_id (ms_message sub)
            \<and> m_conversation_id (publication_message pub) = m_conversation_id (ms_message sub)
            \<and> m_conversation_seq (publication_message pub) = m_conversation_seq (ms_message sub)
            \<and> publication_stores pub = (\<not> should_push_only mode (is_temporary p))
            \<and> (if publication_stores pub
                  \<and> needs_member_lookup (conversation_type_from_proto (m_conversation_type (ms_message sub)))
               then pub = PublishBoth (ms_message sub) [] (m_conversation_id (ms_message sub)) True else True))"
proof -
  obtain res w' where r: "push_message E sub p mode w = (res, w')" by fastforce
  show ?thesis
  proof (cases res)
    case (Inl e)
    with r push_message_Err push_message_frame [OF r] show ?thesis by auto
  next
    case (Inr u)
    from push_message_Ok r Inr obtain pub where pub: "iw_published w' = pub # iw_published w"
      "m_server_id (publication_message pub) = m_server_id (ms_message sub)"
      "m_conversation_id (publication_message pub) = m_conversation_id (ms_message sub)"
      "m_conversation_seq (publication_message pub) = m_conversation_seq (ms_message sub)"
      "publication_stores pub \<longleftrightarrow> \<not> should_push_only mode (is_temporary p)" by (cases u) blast
    have "pub = PublishBoth (ms_message sub) [] (m_conversation_id (ms_message sub)) True"
      if "publication_stores pub" "needs_member_lookup (conversation_type_from_proto (m_conversation_type (ms_message sub)))"
      using that pub(1,5) r Inr
      by (auto simp: push_message_def resolve_persistent_message_recipients_def Let_def dest!: mq_publish_cases)
    with pub r Inr push_message_frame [OF r] show ?thesis by auto
  qed
qed

text \<open>
  A fan-out of a persistent message reaches the push stream only after the storage stream accepted
  it: a push is never recorded without the store before it.
\<close>

theorem storage_before_push:
  "case persist_and_push_with_recipients E m rs w of
     (res, w') \<Rightarrow>
       (let m' = normalize_single_chat_routing m rs;
            stored = PersistOnly m' (m_conversation_id m); pushed = PushOnly m' rs (m_conversation_id m)
        in if res = Ok () then iw_published w' = pushed # stored # iw_published w
           else iw_published w' \<in> {iw_published w, stored # iw_published w})"
proof -
  let ?m = "normalize_single_chat_routing m rs"
  obtain res1 w1 where r1: "mq_publish E (PersistOnly ?m (m_conversation_id m)) w = (res1, w1)" by fastforce
  obtain res2 w2 where r2: "mq_publish E (PushOnly ?m rs (m_conversation_id m)) w1 = (res2, w2)" by fastforce
  show ?thesis
    using mq_publish_cases [OF r1] mq_publish_cases [OF r2] r1 r2
    by (auto simp: persist_and_push_with_recipients_def normalize_routing_keeps Let_def)
qed

end
