(* ===== verification/Conversation_Ensure.thy ===== *)
theory Conversation_Ensure
  imports Ingest_Service
begin

text \<open>
  \<^verbatim>\<open>flare-message-ingest/src/domain/service/conversation_ensure_service.rs\<close>: before a message is logged
  its conversation is ensured, by a call to the conversation service or by an event, with a cache of
  recent successes. The conversation service and the event publisher are parameters. The state is the
  cache (each key with the time its entry ends) and the list of calls made, newest first.
\<close>

section \<open>Requests\<close>

datatype session_creation_mode = Sync | Async

definition mode_from_config_value :: "string \<Rightarrow> session_creation_mode" where
  "mode_from_config_value s = (if to_ascii_lowercase s = ''async'' then Async else Sync)"

record conversation_ensure_request =
  er_conversation_id :: string
  er_conversation_type :: int
  er_business_type :: string
  er_participants :: "string list"
  er_stored_channel_id :: string
  er_tenant_id :: string

definition parse_group_member_ids :: "string \<Rightarrow> string list" where
  "parse_group_member_ids raw = filter (\<lambda>u. u \<noteq> []) (map trim (split_by is_hint_separator raw))"

definition persisted_conversation_channel_id :: "int \<Rightarrow> string \<Rightarrow> string" where
  "persisted_conversation_channel_id ctype channel_id =
     (if conversation_type_from_proto ctype = Single then [] else channel_id)"

definition build_conversation_ensure_request_from_message :: "message \<Rightarrow> string \<Rightarrow> conversation_ensure_request" where
  "build_conversation_ensure_request_from_message m tenant_id =
     (let participants = [m_sender_id m];
          participants = (if m_conversation_type m = conversation_type_as_int Single \<and> m_channel_id m \<noteq> []
              \<and> m_channel_id m \<noteq> m_sender_id m
            then participants @ [m_channel_id m] else participants);
          participants = (if m_conversation_type m = conversation_type_as_int Group
            then (case m_attributes m ''group_member_ids'' of
                    Some member_ids \<Rightarrow> participants @ parse_group_member_ids member_ids
                  | None \<Rightarrow> participants)
            else participants)
      in \<lparr>er_conversation_id = m_conversation_id m, er_conversation_type = m_conversation_type m,
          er_business_type = (case m_attributes m ''business_type'' of Some b \<Rightarrow> b | None \<Rightarrow> []),
          er_participants = sort_dedup (filter (\<lambda>u. trim u \<noteq> []) participants),
          er_stored_channel_id = persisted_conversation_channel_id (m_conversation_type m) (m_channel_id m),
          er_tenant_id = tenant_id\<rparr>)"

section \<open>The service\<close>

text \<open>The request context: tenant, request id and trace id.\<close>

record call_ctx =
  cc_tenant_id :: "string option"
  cc_request_id :: string
  cc_trace_id :: string

datatype ensure_reply = EnsureOk | EnsureFailed flare_error | EnsureTimedOut

datatype ensure_call =
    RpcEnsure call_ctx conversation_ensure_request
  | EventEnsure conversation_ensure_request

record ensure_state =
  es_cache :: "string \<rightharpoonup> nat"
  es_calls :: "ensure_call list"

record ensure_service =
  es_mode :: session_creation_mode
  es_repository :: "(call_ctx \<Rightarrow> conversation_ensure_request \<Rightarrow> ensure_reply) option"
  es_publisher :: "(conversation_ensure_request \<Rightarrow> unit result) option"
  es_cache_ttl :: "nat option"

definition ensure_with_cache :: "(call_ctx \<Rightarrow> conversation_ensure_request \<Rightarrow> ensure_reply) option \<Rightarrow>
     session_creation_mode \<Rightarrow> (conversation_ensure_request \<Rightarrow> unit result) option \<Rightarrow> nat \<Rightarrow> nat \<Rightarrow> ensure_service" where
  "ensure_with_cache repository mode publisher cache_capacity cache_ttl =
     \<lparr>es_mode = mode, es_repository = repository, es_publisher = publisher,
      es_cache_ttl = (if cache_capacity = 0 \<or> cache_ttl = 0 then None else Some cache_ttl)\<rparr>"

definition ensure_new :: "(call_ctx \<Rightarrow> conversation_ensure_request \<Rightarrow> ensure_reply) option \<Rightarrow>
     session_creation_mode \<Rightarrow> (conversation_ensure_request \<Rightarrow> unit result) option \<Rightarrow> ensure_service" where
  "ensure_new repository mode publisher = ensure_with_cache repository mode publisher 100000 30000"

fun join_with :: "string \<Rightarrow> string list \<Rightarrow> string" where
  "join_with sep [] = []"
| "join_with sep [x] = x"
| "join_with sep (x # y # ys) = x @ sep @ join_with sep (y # ys)"

definition ensure_cache_key :: "conversation_ensure_request \<Rightarrow> string option" where
  "ensure_cache_key q =
     (if trim (er_conversation_id q) = [] then None
      else
        let participants = sort_dedup (filter (\<lambda>u. trim u \<noteq> []) (er_participants q)) in
        if er_conversation_type q = conversation_type_as_int Single then
          (if length participants < 2 then None
           else Some (er_tenant_id q @ ''|'' @ er_conversation_id q @ ''|'' @ er_business_type q @ ''|''
                  @ join_with '','' participants))
        else Some (''grp|'' @ er_tenant_id q @ ''|'' @ er_conversation_id q @ ''|'' @ er_business_type q))"

definition ensure_ctx :: "string \<Rightarrow> call_ctx \<Rightarrow> conversation_ensure_request \<Rightarrow> call_ctx" where
  "ensure_ctx uuid ctx q =
     (let c = (if cc_tenant_id ctx = None then ctx\<lparr>cc_tenant_id := Some (er_tenant_id q)\<rparr> else ctx) in
      if cc_request_id c = []
      then \<lparr>cc_tenant_id = Some (case cc_tenant_id ctx of Some t \<Rightarrow> t | None \<Rightarrow> er_tenant_id q),
            cc_request_id = uuid, cc_trace_id = cc_trace_id c\<rparr>
      else c)"

definition ensure_conversation_sync :: "ensure_service \<Rightarrow> string \<Rightarrow> call_ctx \<Rightarrow> conversation_ensure_request \<Rightarrow>
     ensure_state \<Rightarrow> bool result \<times> ensure_state" where
  "ensure_conversation_sync S uuid ctx q st =
     (case es_repository S of
        None \<Rightarrow> (Err (FlareError ConfigurationError ''conversation repository not configured for sync ensure''), st)
      | Some repo \<Rightarrow>
          let c = ensure_ctx uuid ctx q; st = st\<lparr>es_calls := RpcEnsure c q # es_calls st\<rparr> in
          (case repo c q of
             EnsureOk \<Rightarrow> (Ok True, st)
           | EnsureFailed e \<Rightarrow> (Err e, st)
           | EnsureTimedOut \<Rightarrow> (Err (FlareError ServiceUnavailable ''conversation ensure timed out''), st)))"

definition ensure_conversation_async :: "ensure_service \<Rightarrow> conversation_ensure_request \<Rightarrow> ensure_state \<Rightarrow>
     bool result \<times> ensure_state" where
  "ensure_conversation_async S q st =
     (case es_publisher S of
        None \<Rightarrow> (Ok False, st)
      | Some publish \<Rightarrow>
          let st = st\<lparr>es_calls := EventEnsure q # es_calls st\<rparr> in
          (case publish q of Inl e \<Rightarrow> (Err e, st) | Inr _ \<Rightarrow> (Ok True, st)))"

definition ensure_by_mode :: "ensure_service \<Rightarrow> string \<Rightarrow> call_ctx \<Rightarrow> conversation_ensure_request \<Rightarrow>
     ensure_state \<Rightarrow> bool result \<times> ensure_state" where
  "ensure_by_mode S uuid ctx q st =
     (case es_mode S of
        Sync \<Rightarrow> ensure_conversation_sync S uuid ctx q st
      | Async \<Rightarrow> ensure_conversation_async S q st)"

text \<open>
  \<^verbatim>\<open>ensure_conversation\<close> at time \<open>now\<close>: a live cache entry answers at once; otherwise the ensure runs, and
  only its success is cached.
\<close>

definition ensure_conversation :: "ensure_service \<Rightarrow> nat \<Rightarrow> string \<Rightarrow> call_ctx \<Rightarrow> conversation_ensure_request \<Rightarrow>
     ensure_state \<Rightarrow> unit result \<times> ensure_state" where
  "ensure_conversation S now uuid ctx q st =
     (case (es_cache_ttl S, ensure_cache_key q) of
        (Some ttl, Some key) \<Rightarrow>
          if (case es_cache st key of Some until \<Rightarrow> now < until | None \<Rightarrow> False) then (Ok (), st)
          else (case ensure_by_mode S uuid ctx q st of
                  (Inl e, st) \<Rightarrow> (Err e, st)
                | (Inr _, st) \<Rightarrow> (Ok (), st\<lparr>es_cache := (es_cache st)(key \<mapsto> now + ttl)\<rparr>))
      | _ \<Rightarrow> (case ensure_by_mode S uuid ctx q st of
                (Inl e, st) \<Rightarrow> (Err e, st)
              | (Inr _, st) \<Rightarrow> (Ok (), st)))"

section \<open>Facts\<close>

lemma ensure_by_mode_state:
  assumes "ensure_by_mode S uuid ctx q st = (res, st')"
  shows "es_cache st' = es_cache st \<and> length (es_calls st') \<le> Suc (length (es_calls st))"
  using assms
  by (auto simp: ensure_by_mode_def ensure_conversation_sync_def ensure_conversation_async_def Let_def
      split: session_creation_mode.splits option.splits ensure_reply.splits sum.splits)

lemma ensure_ctx_tenant: "cc_tenant_id (ensure_ctx uuid ctx q) =
    Some (case cc_tenant_id ctx of Some t \<Rightarrow> t | None \<Rightarrow> er_tenant_id q)"
  by (auto simp: ensure_ctx_def Let_def split: option.splits)

lemma ensure_hit:
  assumes "es_cache_ttl S = Some ttl" "ensure_cache_key q = Some key" "es_cache st key = Some until" "now < until"
  shows "ensure_conversation S now uuid ctx q st = (Ok (), st)"
  using assms by (simp add: ensure_conversation_def)

text \<open>A run of requests, each with the time, a fresh request id and its context.\<close>

record ensure_attempt =
  ea_now :: nat
  ea_uuid :: string
  ea_ctx :: call_ctx
  ea_request :: conversation_ensure_request

definition run_ensures :: "ensure_service \<Rightarrow> ensure_attempt list \<Rightarrow> ensure_state \<Rightarrow> ensure_state" where
  "run_ensures S as st =
     foldl (\<lambda>st a. snd (ensure_conversation S (ea_now a) (ea_uuid a) (ea_ctx a) (ea_request a) st)) st as"

lemma ensure_cache_step:
  assumes "ensure_conversation S now uuid ctx q st = (res, st')"
  shows "es_cache st' = es_cache st \<or> (\<exists>ttl key. es_cache_ttl S = Some ttl \<and> ensure_cache_key q = Some key
     \<and> es_cache st' = (es_cache st)(key \<mapsto> now + ttl))"
  using assms
  by (auto simp: ensure_conversation_def split: option.splits if_split_asm prod.splits sum.splits
      dest!: ensure_by_mode_state)

text \<open>While time does not go back before \<open>t\<close>, an entry that lasts until \<open>t + ttl\<close> keeps doing so.\<close>

lemma ensure_entry_kept:
  assumes "es_cache_ttl S = Some ttl" "es_cache st key = Some u" "t + ttl \<le> u" "t \<le> now"
    and "ensure_conversation S now uuid ctx q st = (res, st')"
  shows "\<exists>u. es_cache st' key = Some u \<and> t + ttl \<le> u"
  using ensure_cache_step [OF assms(5)] assms(1-4) by (auto split: if_splits)

lemma run_ensures_entry_kept:
  assumes "es_cache_ttl S = Some ttl" "es_cache st key = Some u" "t + ttl \<le> u" "\<forall>a \<in> set as. t \<le> ea_now a"
  shows "\<exists>u. es_cache (run_ensures S as st) key = Some u \<and> t + ttl \<le> u"
  using assms
proof (induction as arbitrary: st u)
  case Nil
  then show ?case by (simp add: run_ensures_def)
next
  case (Cons a as)
  from Cons.prems(4) ensure_entry_kept [OF Cons.prems(1-3) _ prod.collapse [symmetric], of "ea_now a" "ea_uuid a"
      "ea_ctx a" "ea_request a"]
  obtain u' where "es_cache (snd (ensure_conversation S (ea_now a) (ea_uuid a) (ea_ctx a) (ea_request a) st)) key
      = Some u'" "t + ttl \<le> u'" by auto
  from Cons.IH [OF Cons.prems(1) this] Cons.prems(4) show ?case by (simp add: run_ensures_def)
qed

lemma ensure_miss_Ok:
  assumes "es_cache_ttl S = Some ttl" "ensure_cache_key q = Some key" "es_cache st key = None"
    and "ensure_conversation S now uuid ctx q st = (Ok (), st')"
  shows "es_cache st' key = Some (now + ttl)"
  using assms by (auto simp: ensure_conversation_def split: prod.splits sum.splits)

section \<open>Properties\<close>

text \<open>
  The participants the conversation is created with: sorted, distinct, none blank, all of them the
  sender, the other party of a single chat or a listed group member; the sender is among them unless
  blank, a single chat never has more than two, and only other chats keep the message's channel id.
\<close>

theorem ensure_request_participants:
  "(let q = build_conversation_ensure_request_from_message m t; ps = er_participants q in
     sorted ps \<and> distinct ps \<and> list_all (\<lambda>u. trim u \<noteq> []) ps
     \<and> (m_sender_id m \<in> set ps \<longleftrightarrow> trim (m_sender_id m) \<noteq> [])
     \<and> set ps \<subseteq> {m_sender_id m}
          \<union> (if m_conversation_type m = 1 then {m_channel_id m} else {})
          \<union> (if m_conversation_type m = 2 then
               (case m_attributes m ''group_member_ids'' of Some ids \<Rightarrow> set (parse_group_member_ids ids) | None \<Rightarrow> {})
             else {})
     \<and> (if m_conversation_type m = 1 then length ps \<le> 2 \<and> er_stored_channel_id q = []
        else er_stored_channel_id q = m_channel_id m))"
proof -
  let ?q = "build_conversation_ensure_request_from_message m t"
  have sorted: "sorted (remdups_adj (sort xs))" for xs :: "string list" by simp
  obtain ps0 where ps: "er_participants ?q = sort_dedup (filter (\<lambda>u. trim u \<noteq> []) ps0)"
    and s0: "m_sender_id m \<in> set ps0"
      "set ps0 \<subseteq> {m_sender_id m} \<union> (if m_conversation_type m = 1 then {m_channel_id m} else {})
          \<union> (if m_conversation_type m = 2 then
               (case m_attributes m ''group_member_ids'' of Some ids \<Rightarrow> set (parse_group_member_ids ids) | None \<Rightarrow> {})
             else {})"
    by (auto simp: build_conversation_ensure_request_from_message_def Let_def split: option.splits)
  have "sorted (er_participants ?q)" by (simp add: ps sort_dedup_def)
  moreover have "distinct (er_participants ?q)" by (simp add: ps distinct_sort_dedup)
  moreover have set: "set (er_participants ?q) = {u \<in> set ps0. trim u \<noteq> []}" by (simp add: ps)
  moreover have "length (er_participants ?q) \<le> 2" if "m_conversation_type m = 1"
  proof -
    have "card (set (er_participants ?q)) \<le> card {m_sender_id m, m_channel_id m}"
      using s0 that set by (intro card_mono) auto
    also have "\<dots> \<le> 2" by (simp add: card_insert_if)
    finally show ?thesis using \<open>distinct (er_participants ?q)\<close> by (simp add: distinct_card)
  qed
  moreover have "er_stored_channel_id ?q = (if m_conversation_type m = 1 then [] else m_channel_id m)"
    by (simp add: build_conversation_ensure_request_from_message_def persisted_conversation_channel_id_def
        conversation_type_from_proto_def Let_def)
  ultimately show ?thesis
    using s0 by (auto simp: Let_def list_all_iff)
qed

text \<open>
  A conversation is ensured at most once per cache lifetime: after a success nothing, whatever
  other requests run in between, makes a request with the same cache key call the conversation service
  or publish an event until the lifetime is over.
\<close>

theorem ensured_once_per_ttl:
  assumes "S = ensure_with_cache repo mode pub cap ttl" and "0 < cap" and "0 < ttl"
    and "ensure_cache_key q = Some key" and "es_cache st key = None"
    and "ensure_conversation S t u c q st = (Ok (), st1)"
    and "\<forall>a \<in> set as. t \<le> ea_now a" and "ensure_cache_key q' = Some key" and "t' < t + ttl"
  shows "ensure_conversation S t' u' c' q' (run_ensures S as st1) = (Ok (), run_ensures S as st1)"
proof -
  have ttl: "es_cache_ttl S = Some ttl" using assms(1-3) by (simp add: ensure_with_cache_def)
  from run_ensures_entry_kept [OF ttl ensure_miss_Ok [OF ttl assms(4-6)] le_refl assms(7)]
  obtain v where "es_cache (run_ensures S as st1) key = Some v" "t + ttl \<le> v" by blast
  with ensure_hit [OF ttl assms(8)] assms(9) show ?thesis by simp
qed

text \<open>An event-based deployment and a request of a group.\<close>

definition example_ensure :: ensure_service where
  "example_ensure = ensure_with_cache None Async (Some (\<lambda>q. Ok ())) 100000 30000"

definition example_ensure_request :: "string \<Rightarrow> conversation_ensure_request" where
  "example_ensure_request t = \<lparr>er_conversation_id = ''g1'', er_conversation_type = 2, er_business_type = [],
     er_participants = [''alice''], er_stored_channel_id = ''g1'', er_tenant_id = t\<rparr>"

definition example_ctx :: call_ctx where
  "example_ctx = \<lparr>cc_tenant_id = Some ''0'', cc_request_id = ''r'', cc_trace_id = []\<rparr>"

definition ensure_init :: ensure_state where
  "ensure_init = \<lparr>es_cache = Map.empty, es_calls = []\<rparr>"

theorem ensured_once_per_ttl_witness:
  "(let st1 = snd (ensure_conversation example_ensure 5 [] example_ctx (example_ensure_request ''0'') ensure_init)
    in ensure_conversation example_ensure 20000 [] example_ctx (example_ensure_request ''0'')
         (run_ensures example_ensure [\<lparr>ea_now = 7, ea_uuid = [], ea_ctx = example_ctx,
            ea_request = example_ensure_request ''t''\<rparr>] st1)
       = (Ok (), run_ensures example_ensure [\<lparr>ea_now = 7, ea_uuid = [], ea_ctx = example_ctx,
            ea_request = example_ensure_request ''t''\<rparr>] st1))"
proof -
  have k: "ensure_cache_key (example_ensure_request ''0'') = Some ''grp|0|g1|''" by code_simp
  have r: "fst (ensure_conversation example_ensure 5 [] example_ctx (example_ensure_request ''0'') ensure_init) = Ok ()"
    by code_simp
  show ?thesis
    using ensured_once_per_ttl [OF example_ensure_def _ _ k, of ensure_init 5 "[]" example_ctx] r k
    by (auto simp: Let_def ensure_init_def prod_eq_iff)
qed

text \<open>
  A failure to ensure is the sender's answer, with the error code the conversation service gave
  (a missing answer counts as temporarily unavailable), and is not remembered: the cache is
  unchanged, so the next message tries again.
\<close>

theorem ensure_failure_passes_through:
  assumes "ensure_conversation S now uuid ctx q st = (Err e, st')"
  shows "es_cache st' = es_cache st
     \<and> (case es_mode S of
          Sync \<Rightarrow> (case es_repository S of
             None \<Rightarrow> err_code e = ConfigurationError
           | Some repo \<Rightarrow> (let c = ensure_ctx uuid ctx q in
                es_calls st' = RpcEnsure c q # es_calls st
                \<and> cc_tenant_id c = Some (case cc_tenant_id ctx of Some t \<Rightarrow> t | None \<Rightarrow> er_tenant_id q)
                \<and> (repo c q = EnsureFailed e \<or> repo c q = EnsureTimedOut \<and> err_code e = ServiceUnavailable)))
        | Async \<Rightarrow> (\<exists>publish. es_publisher S = Some publish \<and> publish q = Err e
             \<and> es_calls st' = EventEnsure q # es_calls st))"
proof -
  have "ensure_by_mode S uuid ctx q st = (Err e, st')"
    using assms by (auto simp: ensure_conversation_def split: option.splits if_split_asm prod.splits sum.splits)
  then show ?thesis
    using ensure_by_mode_state [of S uuid ctx q st "Err e" st']
    by (auto simp: ensure_by_mode_def ensure_conversation_sync_def ensure_conversation_async_def Let_def
        ensure_ctx_tenant split: session_creation_mode.splits option.splits ensure_reply.splits sum.splits)
qed

theorem ensure_failure_passes_through_witness:
  "(case ensure_conversation (ensure_new (Some (\<lambda>c q. EnsureTimedOut)) Sync None) 5 ''u'' example_ctx
        (example_ensure_request ''0'') ensure_init of
      (res, st') \<Rightarrow> res = Err (FlareError ServiceUnavailable ''conversation ensure timed out'')
         \<and> es_cache st' = es_cache ensure_init)"
proof -
  let ?S = "ensure_new (Some (\<lambda>c q. EnsureTimedOut)) Sync None"
  obtain res st' where r: "ensure_conversation ?S 5 ''u'' example_ctx (example_ensure_request ''0'') ensure_init
      = (res, st')" by fastforce
  have "fst (ensure_conversation ?S 5 ''u'' example_ctx (example_ensure_request ''0'') ensure_init)
      = Err (FlareError ServiceUnavailable ''conversation ensure timed out'')" by code_simp
  with r have "res = Err (FlareError ServiceUnavailable ''conversation ensure timed out'')" by simp
  with r ensure_failure_passes_through [of ?S 5 "''u''" example_ctx "example_ensure_request ''0''" ensure_init _ st']
  show ?thesis by simp
qed

end
