(* ===== verification/Ingest_Handler.thy ===== *)
theory Ingest_Handler
  imports Ingest_Idempotency Rate_Limiter Message_Validation Conversation_Ensure
begin

text \<open>
  \<^verbatim>\<open>flare-message-ingest/src/application/handlers/message_ingest_handler.rs\<close>: the send command, from the
  tenant gate to the acknowledgement. A call is a computation on the handler's world that returns, fails,
  or is dropped: the caller may disconnect while the call waits for a stage, before or after the stage
  has taken effect. The idempotency reservation lives in the world while the call holds it, so that
  what its destructor does on each way out is part of the model. The deployed hooks, the message
  decorator, the tenant projection and the ledger are parameters; metrics and logs are left out.
\<close>

section \<open>Calls that can be dropped\<close>

datatype 'a run = Ret 'a | Fail flare_error | Cancelled

datatype send_stage =
    StTenant | StBegin | StLedger | StValidate | StPreSend | StPrepare | StEnsure | StDecorate
  | StAllocate | StWal | StPublish | StCleanup | StPostSend | StSettle

datatype cancel_point = BeforeEffect | AfterEffect

text \<open>What happens around one call: time, fresh ids, and where it is dropped or times out.\<close>

record send_run =
  sr_now :: nat
  sr_uuid :: string
  sr_request_uuid :: string
  sr_cancel :: "send_stage \<Rightarrow> cancel_point option"
  sr_publish_timeout :: "cancel_point option"
  sr_cleanup_permit :: bool
  sr_in_runtime :: bool

type_synonym ('w, 'a) call = "'w \<Rightarrow> 'a run \<times> 'w"

definition ret :: "'a \<Rightarrow> ('w, 'a) call" where "ret a w = (Ret a, w)"

definition of_result :: "'a result \<Rightarrow> ('w, 'a) call" where
  "of_result r w = (case r of Inl e \<Rightarrow> (Fail e, w) | Inr a \<Rightarrow> (Ret a, w))"

definition bind :: "('w, 'a) call \<Rightarrow> ('a \<Rightarrow> ('w, 'b) call) \<Rightarrow> ('w, 'b) call" where
  "bind c f w = (case c w of (Ret a, w') \<Rightarrow> f a w' | (Fail e, w') \<Rightarrow> (Fail e, w') | (Cancelled, w') \<Rightarrow> (Cancelled, w'))"

definition stage :: "send_run \<Rightarrow> send_stage \<Rightarrow> ('w \<Rightarrow> 'a result \<times> 'w) \<Rightarrow> ('w, 'a) call" where
  "stage run s op w =
     (case sr_cancel run s of
        Some BeforeEffect \<Rightarrow> (Cancelled, w)
      | Some AfterEffect \<Rightarrow> (Cancelled, snd (op w))
      | None \<Rightarrow> (case op w of (res, w') \<Rightarrow> of_result res w'))"

section \<open>State and collaborators\<close>

record send_message_command =
  cmd_message :: message
  cmd_conversation_id :: string
  cmd_burn_enabled :: bool
  cmd_burn_after_read_seconds :: "int option"

record send_message_outcome =
  out_message_id :: string
  out_conversation_seq :: nat
  out_durability :: send_ack_durability_level

datatype reservation_state = Reserved | Accepted idempotent_record | Settled

record reservation =
  rs_key :: string
  rs_fingerprint :: string
  rs_state :: reservation_state

record ('r, 'w, 'b, 's) handler_world =
  hw_ingest :: "('r, 'w, 'b) ingest_world"
  hw_idem :: 's
  hw_limiter :: rl_state
  hw_ensure :: ensure_state
  hw_usage :: "(string \<times> string) list"
  hw_reservation :: "reservation option"

record ledger_record =
  lr_conversation_id :: string
  lr_server_id :: string
  lr_conversation_seq :: nat
  lr_durability :: send_ack_durability_level

datatype ledger_reply = LedgerAnswer "ledger_record option" | LedgerError flare_error | LedgerTimedOut

record ('r, 'w, 'b, 's) handler_env =
  he_ingest :: "('r, 'w, 'b) ingest_env"
  he_defaults :: message_defaults
  he_validation :: "message strategy"
  he_idempotency :: "'s idem_store option"
  he_ledger :: "((string \<Rightarrow> string \<Rightarrow> string \<Rightarrow> ledger_reply) \<times> nat) option"
  he_limiter :: "(send_rate_limit_config \<times> rl_victims) option"
  he_tenant_lookup :: "string \<Rightarrow> tenant_lookup"
  he_tenant_policy :: tenant_access_policy
  he_pre_send :: "message \<Rightarrow> bool \<Rightarrow> message result"
  he_post_send :: "message_submission \<Rightarrow> unit result"
  he_decorate :: "message \<Rightarrow> message result"
  he_ensure :: ensure_service
  he_publish_timeout :: "nat option"
  he_keys :: key_ids

record send_ctx =
  sx_call :: call_ctx
  sx_device_id :: "string option"
  sx_claims :: "signed_claims option"

section \<open>Keys and small decisions\<close>

definition card_post_idempotency_key :: "string \<Rightarrow> message \<Rightarrow> string option" where
  "card_post_idempotency_key tenant_id m =
     (let cid = trim (m_client_msg_id m) in
      if cid = [] then None
      else Some (''idem-pcard:'' @ tenant_id @ '':'' @ trim (m_sender_id m) @ '':''
             @ trim (m_conversation_id m) @ '':'' @ cid))"

definition card_post_fingerprint :: "key_ids \<Rightarrow> send_ctx \<Rightarrow> string option" where
  "card_post_fingerprint K ctx =
     (case sx_claims ctx of
        None \<Rightarrow> None
      | Some claims \<Rightarrow> if is_card_post_context K claims then Some (cl_request_id claims) else None)"

definition idempotency_key :: "string \<Rightarrow> string option \<Rightarrow> message \<Rightarrow> string option" where
  "idempotency_key tenant_id device_id m =
     (let cid = trim (m_client_msg_id m) in
      if cid = [] then None
      else
        let conversation_id = trim (m_conversation_id m); sender_id = trim (m_sender_id m);
            plain = ''idem:'' @ tenant_id @ '':'' @ sender_id @ '':'' @ conversation_id @ '':'' @ cid
        in (case map_option trim device_id of
              None \<Rightarrow> Some plain
            | Some d \<Rightarrow> if d = [] then Some plain
                else Some (''idem:'' @ tenant_id @ '':'' @ sender_id @ '':device:'' @ d @ '':'' @ conversation_id
                       @ '':'' @ cid)))"

definition send_ack_durability :: "message_profile \<Rightarrow> persistence_mode \<Rightarrow> send_ack_durability_level" where
  "send_ack_durability profile mode =
     (if should_push_only mode (is_temporary profile) then TransientAccepted else Persisted)"

definition usage_category :: "message_profile \<Rightarrow> string" where
  "usage_category profile =
     (if is_temporary profile then ''temporary'' else if is_notification profile then ''notification''
      else if is_operation profile then ''operation'' else ''normal'')"

definition recoverable_publish_failure_outcome ::
  "message_submission \<Rightarrow> send_ack_durability_level \<Rightarrow> send_message_outcome option" where
  "recoverable_publish_failure_outcome sub durability =
     (if durability = TransientAccepted then None
      else Some \<lparr>out_message_id = ms_message_id sub, out_conversation_seq = m_conversation_seq (ms_message sub),
             out_durability = WalAccepted\<rparr>)"

fun durability_label :: "send_ack_durability_level \<Rightarrow> string" where
  "durability_label Unspecified = ''unspecified''"
| "durability_label WalAccepted = ''wal_accepted''"
| "durability_label BrokerAccepted = ''broker_accepted''"
| "durability_label Persisted = ''persisted''"
| "durability_label TransientAccepted = ''transient_accepted''"

definition record_of :: "send_message_outcome \<Rightarrow> string \<Rightarrow> idempotent_record" where
  "record_of out fingerprint = \<lparr>ir_server_id = out_message_id out, ir_conversation_seq = out_conversation_seq out,
     ir_durability = out_durability out, ir_fingerprint = fingerprint\<rparr>"

definition outcome_of_record :: "idempotent_record \<Rightarrow> send_message_outcome" where
  "outcome_of_record rec = \<lparr>out_message_id = ir_server_id rec, out_conversation_seq = ir_conversation_seq rec,
     out_durability = ir_durability rec\<rparr>"

definition MESSAGE_TENANT_ATTRIBUTES :: "string list" where
  "MESSAGE_TENANT_ATTRIBUTES = [''tenant_id'', ''x-tenant-id'']"

definition ensure_tenant_attributes_match :: "message \<Rightarrow> string \<Rightarrow> unit result" where
  "ensure_tenant_attributes_match m tenant_id =
     (if \<exists>key \<in> set MESSAGE_TENANT_ATTRIBUTES.
           (case m_attributes m key of Some declared \<Rightarrow> declared \<noteq> tenant_id | None \<Rightarrow> False)
      then Err (FlareError PermissionDenied ''message attributes declare another tenant'') else Ok ())"

definition after_pre_send :: "message \<Rightarrow> message option \<Rightarrow> string \<Rightarrow> message result" where
  "after_pre_send hooked card_post conversation_id =
     (case card_post of
        Some signed \<Rightarrow> Ok signed
      | None \<Rightarrow>
          if m_conversation_id hooked \<noteq> conversation_id then
            Err (FlareError PermissionDenied ''a pre-send hook may not move a message to another conversation'')
          else if message_claims_plugin_card hooked then
            Err (FlareError PermissionDenied ''PLUGIN_CARD_PLATFORM_ONLY'')
          else Ok hooked)"

text \<open>Burn after reading: the policy a message is given, or the refusal of a delay that is not positive.\<close>

definition apply_burn :: "send_message_command \<Rightarrow> message result" where
  "apply_burn cmd =
     (let m = cmd_message cmd;
          burn_enabled = (cmd_burn_enabled cmd \<or> m_retention_policy m \<noteq> None);
          seconds = (case cmd_burn_after_read_seconds cmd of
                       Some s \<Rightarrow> Some s
                     | None \<Rightarrow> (case m_retention_policy m of Some p \<Rightarrow> rp_expire_after_seconds p | None \<Rightarrow> None))
      in if burn_enabled then
           (case seconds of
              Some s \<Rightarrow>
                if s > 0 then
                  Ok (m\<lparr>m_retention_policy := Some \<lparr>rp_mode = RetentionAfterRead, rp_trigger_after_read = True,
                        rp_expire_after_seconds = Some s, rp_expire_at = None, rp_visibility_redacted = True,
                        rp_attributes = Map.empty\<rparr>, m_retention_state := None\<rparr>)
                else Err (FlareError InvalidParameter ''burn_after_read_seconds must be positive when burn is enabled'')
            | None \<Rightarrow> Err (FlareError InvalidParameter ''burn_after_read_seconds must be positive when burn is enabled''))
         else Ok m)"

text \<open>Whether the caller is a user whose pre-send hooks run: not for the bridge or a platform sender.\<close>

definition executes_user_pre_send :: "key_ids \<Rightarrow> signed_claims option \<Rightarrow> bool" where
  "executes_user_pre_send K claims =
     (\<not> (case claims of None \<Rightarrow> False
         | Some c \<Rightarrow> cl_actor_type c = ActorService
             \<and> (cl_actor_id c = ''flare-social-bridge'' \<or> is_platform_system_sender K c)))"

definition ingest_persistence_mode :: "message_profile \<Rightarrow> message \<Rightarrow> persistence_mode" where
  "ingest_persistence_mode profile m =
     (if is_temporary profile then ForcePushOnly
      else if is_notification profile then
        (case notification_persistent m of Some False \<Rightarrow> ForcePushOnly | _ \<Rightarrow> Auto)
      else Auto)"

section \<open>The reservation\<close>

definition reservation_new :: "string \<Rightarrow> string \<Rightarrow> reservation" where
  "reservation_new key fingerprint = \<lparr>rs_key = key, rs_fingerprint = fingerprint, rs_state = Reserved\<rparr>"

definition replace_state :: "reservation_state \<Rightarrow> ('r, 'w, 'b, 's) handler_world \<Rightarrow> ('r, 'w, 'b, 's) handler_world" where
  "replace_state next w = w\<lparr>hw_reservation := map_option (rs_state_update (\<lambda>_. next)) (hw_reservation w)\<rparr>"

definition mark_accepted :: "send_message_outcome \<Rightarrow> ('r, 'w, 'b, 's) handler_world \<Rightarrow> ('r, 'w, 'b, 's) handler_world" where
  "mark_accepted out w =
     (case hw_reservation w of
        None \<Rightarrow> w
      | Some g \<Rightarrow> replace_state (Accepted (record_of out (rs_fingerprint g))) w)"

definition on_idem :: "('s \<Rightarrow> 'a \<times> 's) \<Rightarrow> ('r, 'w, 'b, 's) handler_world \<Rightarrow> 'a \<times> ('r, 'w, 'b, 's) handler_world" where
  "on_idem op w = (case op (hw_idem w) of (res, s) \<Rightarrow> (res, w\<lparr>hw_idem := s\<rparr>))"

text \<open>An operation whose error is only logged.\<close>

definition ignore_error :: "('w \<Rightarrow> 'a result \<times> 'w) \<Rightarrow> 'w \<Rightarrow> unit result \<times> 'w" where
  "ignore_error op w = (Ok (), snd (op w))"

definition settle :: "'s idem_store \<Rightarrow> send_run \<Rightarrow> send_message_outcome result \<Rightarrow>
     (('r, 'w, 'b, 's) handler_world, unit) call" where
  "settle store run result w =
     (case hw_reservation w of
        None \<Rightarrow> ret () w
      | Some g \<Rightarrow>
          bind (\<lambda>w. case result of
                  Inr out \<Rightarrow>
                    let rec = record_of out (rs_fingerprint g)
                    in stage run StSettle (ignore_error (on_idem (is_commit store (rs_key g) rec)))
                         (replace_state (Accepted rec) w)
                | Inl _ \<Rightarrow>
                    stage run StSettle (ignore_error (on_idem (is_rollback store (rs_key g))))
                      (replace_state Reserved w))
            (\<lambda>_ w. ret () (replace_state Settled w)) w)"

text \<open>The destructor: what is not settled is committed or rolled back by a task of its own.\<close>

definition drop_reservation :: "'s idem_store \<Rightarrow> send_run \<Rightarrow> ('r, 'w, 'b, 's) handler_world \<Rightarrow>
     ('r, 'w, 'b, 's) handler_world" where
  "drop_reservation store run w =
     (case hw_reservation w of
        None \<Rightarrow> w
      | Some g \<Rightarrow>
          let w = w\<lparr>hw_reservation := None\<rparr> in
          if rs_state g = Settled \<or> \<not> sr_in_runtime run then w
          else (case rs_state g of
                  Accepted rec \<Rightarrow> snd (on_idem (is_commit store (rs_key g) rec) w)
                | _ \<Rightarrow> snd (on_idem (is_rollback store (rs_key g)) w)))"

section \<open>The ledger\<close>

definition replay_from_ledger :: "('r, 'w, 'b, 's) handler_env \<Rightarrow> send_run \<Rightarrow> string \<Rightarrow> message \<Rightarrow>
     send_message_outcome option result" where
  "replay_from_ledger E run tenant_id m =
     (case he_ledger E of
        None \<Rightarrow> Ok None
      | Some (ledger_find, result_ttl_ms) \<Rightarrow>
          (case lookback_reason_of result_ttl_ms (m_created_at m) (int (sr_now run)) of
             None \<Rightarrow> Ok None
           | Some _ \<Rightarrow>
               (case ledger_find (normalize_tenant_id tenant_id) (m_sender_id m) (m_client_msg_id m) of
                  LedgerAnswer (Some rec) \<Rightarrow>
                    if lr_conversation_id rec = m_conversation_id m
                    then Ok (Some \<lparr>out_message_id = lr_server_id rec, out_conversation_seq = lr_conversation_seq rec,
                                   out_durability = lr_durability rec\<rparr>)
                    else Ok None
                | LedgerAnswer None \<Rightarrow> Ok None
                | _ \<Rightarrow> Err (FlareError ServiceUnavailable ''idempotency ledger unavailable; retry shortly''))))"

section \<open>The pipeline\<close>

definition on_ingest :: "(('r, 'w, 'b) ingest_world \<Rightarrow> 'a \<times> ('r, 'w, 'b) ingest_world) \<Rightarrow>
     ('r, 'w, 'b, 's) handler_world \<Rightarrow> 'a \<times> ('r, 'w, 'b, 's) handler_world" where
  "on_ingest op w = (case op (hw_ingest w) of (res, i) \<Rightarrow> (res, w\<lparr>hw_ingest := i\<rparr>))"

definition on_ensure :: "(ensure_state \<Rightarrow> 'a \<times> ensure_state) \<Rightarrow>
     ('r, 'w, 'b, 's) handler_world \<Rightarrow> 'a \<times> ('r, 'w, 'b, 's) handler_world" where
  "on_ensure op w = (case op (hw_ensure w) of (res, s) \<Rightarrow> (res, w\<lparr>hw_ensure := s\<rparr>))"

definition on_limiter :: "(rl_state \<Rightarrow> 'a \<times> rl_state) \<Rightarrow>
     ('r, 'w, 'b, 's) handler_world \<Rightarrow> 'a \<times> ('r, 'w, 'b, 's) handler_world" where
  "on_limiter op w = (case op (hw_limiter w) of (res, s) \<Rightarrow> (res, w\<lparr>hw_limiter := s\<rparr>))"

text \<open>With a timeout configured the stage may be given up, whether or not it took effect.\<close>

definition apply_stage_timeout :: "nat option \<Rightarrow> cancel_point option \<Rightarrow> ('w \<Rightarrow> 'a result \<times> 'w) \<Rightarrow>
     'w \<Rightarrow> 'a result \<times> 'w" where
  "apply_stage_timeout timeout late op w =
     (case (timeout, late) of
        (Some _, Some BeforeEffect) \<Rightarrow> (Err (FlareError OperationTimeout ''message send stage timed out''), w)
      | (Some _, Some AfterEffect) \<Rightarrow> (Err (FlareError OperationTimeout ''message send stage timed out''), snd (op w))
      | _ \<Rightarrow> op w)"

definition prepare_submission :: "('r, 'w, 'b, 's) handler_env \<Rightarrow> send_run \<Rightarrow> message \<Rightarrow> message_submission result" where
  "prepare_submission E run m =
     (case prepare (sr_uuid run) (int (sr_now run)) (he_defaults E) m of
        Inl e \<Rightarrow> Err (FlareError InvalidParameter (''Failed to prepare message: '' @ err_msg e))
      | Inr sub \<Rightarrow> Ok sub)"

definition decorate_message :: "('r, 'w, 'b, 's) handler_env \<Rightarrow> message \<Rightarrow> message result" where
  "decorate_message E m =
     (case he_decorate E m of
        Inl e \<Rightarrow> Err (FlareError InternalError (''Message decorator failed: '' @ err_msg e))
      | Inr d \<Rightarrow> Ok d)"

text \<open>Steps 9 to 11: publish, then account, clean the log and run the post-send hooks.\<close>

definition publish_and_finish :: "('r, 'w, 'b, 's) handler_env \<Rightarrow> send_run \<Rightarrow> string \<Rightarrow> message_submission \<Rightarrow>
     message_profile \<Rightarrow> persistence_mode \<Rightarrow> (('r, 'w, 'b, 's) handler_world, send_message_outcome) call" where
  "publish_and_finish E run tenant_id sub profile mode w =
     (let durability = send_ack_durability profile mode in
      (case stage run StPublish (on_ingest (apply_stage_timeout (he_publish_timeout E) (sr_publish_timeout run)
              (push_message (he_ingest E) sub profile mode))) w of
         (Cancelled, w) \<Rightarrow> (Cancelled, w)
       | (Fail e, w) \<Rightarrow>
           (case recoverable_publish_failure_outcome sub durability of
              Some out \<Rightarrow> (Ret out, w) | None \<Rightarrow> (Fail e, w))
       | (Ret _, w) \<Rightarrow>
           let out = \<lparr>out_message_id = ms_message_id sub, out_conversation_seq = m_conversation_seq (ms_message sub),
                    out_durability = durability\<rparr>;
               w = mark_accepted out w;
               w = w\<lparr>hw_usage := (tenant_id, usage_category profile) # hw_usage w\<rparr>;
               cleanup = ignore_error (on_ingest (remove_wal_after_broker_accept (he_ingest E) sub))
           in bind (if durability = TransientAccepted then ret ()
                    else if sr_cleanup_permit run then (\<lambda>w. ret () (snd (cleanup w)))
                    else stage run StCleanup cleanup)
                (\<lambda>_. bind (stage run StPostSend (ignore_error (\<lambda>w. (he_post_send E sub, w))))
                   (\<lambda>_. ret out)) w))"

text \<open>Steps 7 and 8: the persistence mode and the log, then publication.\<close>

definition log_and_publish :: "('r, 'w, 'b, 's) handler_env \<Rightarrow> send_run \<Rightarrow> string \<Rightarrow> message_submission \<Rightarrow>
     message_profile \<Rightarrow> (('r, 'w, 'b, 's) handler_world, send_message_outcome) call" where
  "log_and_publish E run tenant_id sub profile =
     (let mode = ingest_persistence_mode profile (ms_message sub) in
      bind (stage run StWal (on_ingest (write_wal_if_needed (he_ingest E) sub profile mode tenant_id)))
      (\<lambda>_ w.
         let w = (case recoverable_publish_failure_outcome sub (send_ack_durability profile mode) of
                    Some out \<Rightarrow> mark_accepted out w | None \<Rightarrow> w)
         in publish_and_finish E run tenant_id sub profile mode w))"

text \<open>Steps 4 to 6 on a prepared submission: ensure, decorate, number.\<close>

definition ensure_stage :: "('r, 'w, 'b, 's) handler_env \<Rightarrow> send_run \<Rightarrow> send_ctx \<Rightarrow> string \<Rightarrow> message \<Rightarrow>
     (('r, 'w, 'b, 's) handler_world, unit) call" where
  "ensure_stage E run ctx tenant_id m =
     (if is_sync_inbox_conversation_id (m_conversation_id m) then ret ()
      else stage run StEnsure (on_ensure (ensure_conversation (he_ensure E) (sr_now run) (sr_request_uuid run)
             (sx_call ctx) (build_conversation_ensure_request_from_message m tenant_id))))"

definition submit :: "('r, 'w, 'b, 's) handler_env \<Rightarrow> send_run \<Rightarrow> send_ctx \<Rightarrow> string \<Rightarrow> message_submission \<Rightarrow>
     (('r, 'w, 'b, 's) handler_world, send_message_outcome) call" where
  "submit E run ctx tenant_id sub =
     bind (ensure_stage E run ctx tenant_id (ms_message sub))
      (\<lambda>_. bind (stage run StDecorate (\<lambda>w. (decorate_message E (ms_message sub), w)))
      (\<lambda>m. bind (stage run StAllocate (on_ingest (allocate_seq_for_submission (he_ingest E) (sr_now run) tenant_id
                   (sub\<lparr>ms_message := m\<rparr>))))
      (\<lambda>(sub, profile). log_and_publish E run tenant_id sub profile)))"

definition ingest_send_inner :: "('r, 'w, 'b, 's) handler_env \<Rightarrow> send_run \<Rightarrow> send_ctx \<Rightarrow> send_message_command \<Rightarrow>
     string \<Rightarrow> (('r, 'w, 'b, 's) handler_world, send_message_outcome) call" where
  "ingest_send_inner E run ctx cmd tenant_id =
     bind (of_result (apply_burn cmd))
      (\<lambda>m. bind (stage run StValidate (\<lambda>w. (validate_message (he_validation E) (sx_claims ctx) tenant_id m, w)))
      (\<lambda>_. let card_post = (if card_post_fingerprint (he_keys E) ctx \<noteq> None then Some m else None) in
           bind (stage run StPreSend (\<lambda>w. (he_pre_send E m (executes_user_pre_send (he_keys E) (sx_claims ctx)), w)))
      (\<lambda>hooked. bind (of_result (after_pre_send hooked card_post (m_conversation_id m)))
      (\<lambda>m. bind (of_result (ensure_tenant_attributes_match m tenant_id))
      (\<lambda>_. bind (stage run StPrepare (\<lambda>w. (prepare_submission E run m, w)))
      (\<lambda>sub. submit E run ctx tenant_id sub))))))"

section \<open>The send command\<close>

definition send_tenant :: "send_ctx \<Rightarrow> string option" where
  "send_tenant ctx =
     (case cc_tenant_id (sx_call ctx) of
        None \<Rightarrow> None | Some t \<Rightarrow> if trim t = [] then None else Some t)"

definition send_idempotency_key :: "('r, 'w, 'b, 's) handler_env \<Rightarrow> send_ctx \<Rightarrow> string \<Rightarrow> message \<Rightarrow> string option" where
  "send_idempotency_key E ctx tenant_id m =
     (case he_idempotency E of
        None \<Rightarrow> None
      | Some _ \<Rightarrow>
          (case card_post_fingerprint (he_keys E) ctx of
             Some _ \<Rightarrow> card_post_idempotency_key tenant_id m
           | None \<Rightarrow> idempotency_key tenant_id
               (case sx_device_id ctx of Some d \<Rightarrow> if d = [] then None else Some d | None \<Rightarrow> None) m))"

definition limited_send :: "('r, 'w, 'b, 's) handler_env \<Rightarrow> send_run \<Rightarrow> send_ctx \<Rightarrow> send_message_command \<Rightarrow>
     string \<Rightarrow> tenant_lookup \<Rightarrow> (('r, 'w, 'b, 's) handler_world, send_message_outcome) call" where
  "limited_send E run ctx cmd tenant_id lookup =
     bind (case he_limiter E of
             None \<Rightarrow> ret ()
           | Some (cfg, victims) \<Rightarrow>
               (\<lambda>w. case on_limiter (rl_check cfg victims (sr_now run) tenant_id (send_qps (core_quota lookup))
                        (cmd_message cmd)) w of (res, w) \<Rightarrow> of_result res w))
      (\<lambda>_ w. case ingest_send_inner E run ctx cmd tenant_id w of
               (Cancelled, w) \<Rightarrow> (Cancelled, w)
             | (Ret out, w) \<Rightarrow>
                 (case he_idempotency E of
                    None \<Rightarrow> ret out w | Some store \<Rightarrow> bind (settle store run (Ok out)) (\<lambda>_. ret out) w)
             | (Fail e, w) \<Rightarrow>
                 (case he_idempotency E of
                    None \<Rightarrow> (Fail e, w)
                  | Some store \<Rightarrow> bind (settle store run (Err e)) (\<lambda>_ w. (Fail e, w)) w))"

text \<open>The part of the call during which it holds a reservation.\<close>

definition reserved_send :: "('r, 'w, 'b, 's) handler_env \<Rightarrow> send_run \<Rightarrow> send_ctx \<Rightarrow> send_message_command \<Rightarrow>
     string \<Rightarrow> tenant_lookup \<Rightarrow> 's idem_store \<Rightarrow> string \<Rightarrow> (('r, 'w, 'b, 's) handler_world, send_message_outcome) call" where
  "reserved_send E run ctx cmd tenant_id lookup store fingerprint w =
     (case (if fingerprint = [] then stage run StLedger (\<lambda>w. (replay_from_ledger E run tenant_id (cmd_message cmd), w)) w
            else ret None w) of
        (Cancelled, w) \<Rightarrow> (Cancelled, w)
      | (Fail e, w) \<Rightarrow> bind (settle store run (Err e)) (\<lambda>_ w. (Fail e, w)) w
      | (Ret (Some out), w) \<Rightarrow> bind (settle store run (Ok out)) (\<lambda>_. ret out) w
      | (Ret None, w) \<Rightarrow> limited_send E run ctx cmd tenant_id lookup w)"

definition handle_send_message_inner :: "('r, 'w, 'b, 's) handler_env \<Rightarrow> send_run \<Rightarrow> send_ctx \<Rightarrow>
     send_message_command \<Rightarrow> (('r, 'w, 'b, 's) handler_world, send_message_outcome) call" where
  "handle_send_message_inner E run ctx cmd w =
     (case send_tenant ctx of
        None \<Rightarrow> (Fail (FlareError InvalidParameter ''tenant required to send a message''), w)
      | Some tenant_id \<Rightarrow>
          bind (stage run StTenant (\<lambda>w. (Ok (he_tenant_lookup E tenant_id), w)))
           (\<lambda>lookup. bind (of_result (tenant_gate lookup (he_tenant_policy E)))
           (\<lambda>_ w.
              let fingerprint = (case card_post_fingerprint (he_keys E) ctx of Some f \<Rightarrow> f | None \<Rightarrow> []) in
              (case (he_idempotency E, send_idempotency_key E ctx tenant_id (cmd_message cmd)) of
                 (Some store, Some key) \<Rightarrow>
                   bind (stage run StBegin (on_idem (is_begin store key)))
                    (\<lambda>b w. case b of
                       Replay rec \<Rightarrow>
                         if ir_fingerprint rec \<noteq> fingerprint
                         then (Fail (FlareError PermissionDenied ''client message id already used by another send''), w)
                         else ret (outcome_of_record rec) w
                     | InFlight \<Rightarrow>
                         (Fail (FlareError ServiceUnavailable ''duplicate send in progress; retry shortly''), w)
                     | Fresh \<Rightarrow>
                         (case reserved_send E run ctx cmd tenant_id lookup store fingerprint
                                 (w\<lparr>hw_reservation := Some (reservation_new key fingerprint)\<rparr>) of
                            (res, w) \<Rightarrow> (res, drop_reservation store run w))) w
               | _ \<Rightarrow> limited_send E run ctx cmd tenant_id lookup w))) w)"

definition handle_send_message :: "('r, 'w, 'b, 's) handler_env \<Rightarrow> send_run \<Rightarrow> send_ctx \<Rightarrow>
     send_message_command \<Rightarrow> (('r, 'w, 'b, 's) handler_world, send_message_outcome) call" where
  "handle_send_message E run ctx cmd w = handle_send_message_inner E run ctx cmd w"

section \<open>The other commands\<close>

record send_system_message_command =
  sys_conversation_id :: string
  sys_message :: message
  sys_message_type :: string

definition send_system_message :: "('r, 'w, 'b, 's) handler_env \<Rightarrow> send_run \<Rightarrow> send_ctx \<Rightarrow>
     send_system_message_command \<Rightarrow> (('r, 'w, 'b, 's) handler_world, string) call" where
  "send_system_message E run ctx cmd =
     bind (handle_send_message E run ctx \<lparr>cmd_message = sys_message cmd, cmd_conversation_id = sys_conversation_id cmd,
             cmd_burn_enabled = False, cmd_burn_after_read_seconds = None\<rparr>)
       (\<lambda>out. ret (out_message_id out))"

definition MAX_BATCH_SEND_SIZE :: nat where "MAX_BATCH_SEND_SIZE = 1024"

definition validate_batch_send_size :: "nat \<Rightarrow> unit result" where
  "validate_batch_send_size n =
     (if n > MAX_BATCH_SEND_SIZE
      then Err (FlareError InvalidParameter ''batch_send_message batch size exceeds limit'') else Ok ())"

definition validate_send_ack_message_id :: "string \<Rightarrow> string result" where
  "validate_send_ack_message_id message_id =
     (let t = trim message_id in
      if t = [] then Err (FlareError InvalidParameter ''send_ack message_id is required'') else Ok t)"

definition send_ack :: "string \<Rightarrow> unit result" where
  "send_ack message_id =
     (case validate_send_ack_message_id message_id of
        Inl e \<Rightarrow> Err e
      | Inr _ \<Rightarrow> Err (FlareError OperationNotSupported ''send_ack durable state update is not implemented''))"

text \<open>
  The batch runs its commands (at most 32 at a time) and answers in their order; \<open>batch_run\<close> is the
  schedule that finishes each before starting the next.
\<close>

fun batch_run :: "('r, 'w, 'b, 's) handler_env \<Rightarrow> send_ctx \<Rightarrow> (send_run \<times> send_message_command) list \<Rightarrow>
     ('r, 'w, 'b, 's) handler_world \<Rightarrow> send_message_outcome run list \<times> ('r, 'w, 'b, 's) handler_world" where
  "batch_run E ctx [] w = ([], w)"
| "batch_run E ctx ((run, cmd) # rest) w =
     (case handle_send_message E run ctx cmd w of
        (res, w) \<Rightarrow> (case batch_run E ctx rest w of (ress, w) \<Rightarrow> (res # ress, w)))"

definition batch_send_message :: "('r, 'w, 'b, 's) handler_env \<Rightarrow> send_ctx \<Rightarrow> (send_run \<times> send_message_command) list \<Rightarrow>
     ('r, 'w, 'b, 's) handler_world \<Rightarrow> send_message_outcome run list result \<times> ('r, 'w, 'b, 's) handler_world" where
  "batch_send_message E ctx msgs w =
     (if msgs = [] then (Ok [], w)
      else (case validate_batch_send_size (length msgs) of
              Inl e \<Rightarrow> (Err e, w)
            | Inr _ \<Rightarrow> (case batch_run E ctx msgs w of (ress, w) \<Rightarrow> (Ok ress, w))))"

section \<open>Reasoning about calls\<close>

text \<open>
  \<open>valid P c Q X\<close>: from a world with \<open>P\<close>, a call that returns ends with \<open>Q\<close>, one that fails or is dropped
  ends with \<open>X\<close>.
\<close>

definition valid :: "('w \<Rightarrow> bool) \<Rightarrow> ('w, 'a) call \<Rightarrow> ('a \<Rightarrow> 'w \<Rightarrow> bool) \<Rightarrow> ('w \<Rightarrow> bool) \<Rightarrow> bool" where
  "valid P c Q X \<longleftrightarrow> (\<forall>w. P w \<longrightarrow> (case c w of (Ret a, w') \<Rightarrow> Q a w' | (Fail e, w') \<Rightarrow> X w' | (Cancelled, w') \<Rightarrow> X w'))"

lemma validI:
  assumes "\<And>w a w'. P w \<Longrightarrow> c w = (Ret a, w') \<Longrightarrow> Q a w'"
    and "\<And>w e w'. P w \<Longrightarrow> c w = (Fail e, w') \<Longrightarrow> X w'"
    and "\<And>w w'. P w \<Longrightarrow> c w = (Cancelled, w') \<Longrightarrow> X w'"
  shows "valid P c Q X"
  using assms by (auto simp: valid_def split: prod.splits run.splits)

lemma validD:
  assumes "valid P c Q X" "P w"
  shows "c w = (Ret a, w') \<Longrightarrow> Q a w'" and "c w = (Fail e, w') \<Longrightarrow> X w'" and "c w = (Cancelled, w') \<Longrightarrow> X w'"
  using assms by (auto simp: valid_def split: prod.splits run.splits)

lemma valid_bind:
  assumes "valid P c Q X" and "\<And>a. valid (Q a) (f a) R X"
  shows "valid P (bind c f) R X"
proof (rule validI)
  fix w w' assume P: "P w"
  note c = validD [OF assms(1) P]
  show "R a w'" if "bind c f w = (Ret a, w')" for a
    using that validD(1) [OF assms(2)] c by (auto simp: bind_def split: prod.splits run.splits)
  show "X w'" if "bind c f w = (Fail e, w')" for e
    using that validD(2) [OF assms(2)] c by (auto simp: bind_def split: prod.splits run.splits)
  show "X w'" if "bind c f w = (Cancelled, w')"
    using that validD(3) [OF assms(2)] c by (auto simp: bind_def split: prod.splits run.splits)
qed

lemma valid_ret: "(\<And>w. P w \<Longrightarrow> Q a w) \<Longrightarrow> valid P (ret a) Q X"
  by (simp add: valid_def ret_def)

lemma valid_of_result:
  "(\<And>w a. P w \<Longrightarrow> r = Ok a \<Longrightarrow> Q a w) \<Longrightarrow> (\<And>w. P w \<Longrightarrow> X w) \<Longrightarrow> valid P (of_result r) Q X"
  by (cases r) (simp_all add: valid_def of_result_def)

lemma valid_stage:
  assumes "\<And>w. P w \<Longrightarrow> X w" and "\<And>w. P w \<Longrightarrow> X (snd (op w))"
    and "\<And>w a w'. P w \<Longrightarrow> op w = (Ok a, w') \<Longrightarrow> Q a w'"
  shows "valid P (stage run s op) Q X"
  unfolding valid_def
proof (intro allI impI)
  fix w assume "P w"
  with assms(1,2) [of w] assms(3) [of w]
  show "case stage run s op w of (Ret a, w') \<Rightarrow> Q a w' | (Fail e, w') \<Rightarrow> X w' | (Cancelled, w') \<Rightarrow> X w'"
    by (cases "op w"; cases "sr_cancel run s"; cases "fst (op w)"; cases "the (sr_cancel run s)")
      (auto simp: stage_def of_result_def)
qed

lemma valid_conseq:
  "valid P c Q X \<Longrightarrow> (\<And>w. P' w \<Longrightarrow> P w) \<Longrightarrow> (\<And>a w. Q a w \<Longrightarrow> Q' a w) \<Longrightarrow> (\<And>w. X w \<Longrightarrow> X' w)
     \<Longrightarrow> valid P' c Q' X'"
  by (fastforce simp: valid_def split: prod.splits run.splits)

text \<open>A stage that looks at the world but does not change it.\<close>

lemma valid_pure_stage:
  assumes "\<And>w. P w \<Longrightarrow> X w" and "\<And>w a. P w \<Longrightarrow> r = Ok a \<Longrightarrow> Q a w"
  shows "valid P (stage run s (\<lambda>w. (r, w))) Q X"
  by (rule valid_stage) (use assms in auto)

end
