(* ===== verification/Send_Reservation.thy ===== *)
theory Send_Reservation
  imports Ingest_Handler
begin

text \<open>
  The reservation of a client message id through the send pipeline, run stage by stage with the rules
  for \<open>valid\<close>. In every deployment (locale \<open>ingest_deployment\<close>) what a call commits rests on the log or
  on a publication; where moreover the store answers (locale \<open>answering_deployment\<close>) a call ends with
  its reservation committed or released.
\<close>

section \<open>A deployment\<close>

text \<open>
  What a committed result rests on: a stored publication for a persisted one, the log or a stored
  publication for one accepted by the log, a publication for a transient one; each with the result's
  server id and sequence number.
\<close>

definition published_as :: "('r, 'w, 'b) ingest_world \<Rightarrow> idempotent_record \<Rightarrow> bool \<Rightarrow> bool" where
  "published_as i rec stores \<longleftrightarrow> (\<exists>p \<in> set (iw_published i). m_server_id (publication_message p) = ir_server_id rec
     \<and> m_conversation_seq (publication_message p) = ir_conversation_seq rec \<and> (publication_stores p \<longleftrightarrow> stores))"

definition logged_as :: "('w \<Rightarrow> string \<rightharpoonup> wal_pending_message) \<Rightarrow> ('r, 'w, 'b) ingest_world \<Rightarrow> idempotent_record \<Rightarrow> bool" where
  "logged_as ents i rec \<longleftrightarrow> (\<exists>q. ents (iw_wal i) (ir_server_id rec) = Some q
     \<and> m_conversation_seq (wp_message q) = ir_conversation_seq rec)"

definition backed :: "('w \<Rightarrow> string \<rightharpoonup> wal_pending_message) \<Rightarrow> ('r, 'w, 'b) ingest_world \<Rightarrow> idempotent_record \<Rightarrow> bool" where
  "backed ents i rec \<longleftrightarrow>
     (if ir_durability rec = Persisted then published_as i rec True
      else if ir_durability rec = WalAccepted then logged_as ents i rec
      else ir_durability rec = TransientAccepted \<and> published_as i rec False)"

text \<open>
  A deployment with the deduplication store and the log configured, whose decorator keeps the server id, whose ledger holds results the store can hold, and whose sequence
  numbers are 64-bit (as their type says).
\<close>

locale ingest_deployment =
  idem: idempotency_store S view + log: wal_repository "ie_wal (he_ingest E)" ents
  for E :: "('r, 'w, 'b, 's) handler_env" and S :: "'s idem_store" and view :: "'s \<Rightarrow> string \<Rightarrow> key_view"
    and ents :: "'w \<Rightarrow> string \<rightharpoonup> wal_pending_message" +
  assumes store_configured: "he_idempotency E = Some S"
    and decorate_keeps_id: "he_decorate E m = Ok d \<Longrightarrow> m_server_id d = m_server_id m"
    and ledger_ok: "replay_from_ledger E run t m = Ok (Some out) \<Longrightarrow> record_ok (record_of out [])"
    and seq_fits: "allocate_conversation_seq (he_ingest E) now t cv i = (Ok n, i') \<Longrightarrow> n \<le> u64_max"

text \<open>A call's fresh id and fingerprint: hex and dashes, so no field separator.\<close>

definition call_texts_ok :: "send_run \<Rightarrow> string \<Rightarrow> bool" where
  "call_texts_ok run fp \<longleftrightarrow> sr_uuid run \<noteq> [] \<and> CHR ''|'' \<notin> set (sr_uuid run) \<and> CHR ''|'' \<notin> set fp"

definition good_record :: "('w \<Rightarrow> string \<rightharpoonup> wal_pending_message) \<Rightarrow> string \<Rightarrow> ('r, 'w, 'b) ingest_world \<Rightarrow>
     idempotent_record \<Rightarrow> bool" where
  "good_record ents fp i rec \<longleftrightarrow> record_ok rec \<and> ir_fingerprint rec = fp \<and> backed ents i rec"

text \<open>The worlds of a call that holds the reservation of \<open>key\<close>, before and at its ends.\<close>

definition holds :: "'s \<Rightarrow> string \<Rightarrow> string \<Rightarrow> reservation_state \<Rightarrow> ('r, 'w, 'b, 's) handler_world \<Rightarrow> bool" where
  "holds s key fp st w \<longleftrightarrow> hw_idem w = s
     \<and> hw_reservation w = Some \<lparr>rs_key = key, rs_fingerprint = fp, rs_state = st\<rparr>"

definition open_end :: "('w \<Rightarrow> string \<rightharpoonup> wal_pending_message) \<Rightarrow> 's \<Rightarrow> string \<Rightarrow> string \<Rightarrow>
     ('r, 'w, 'b, 's) handler_world \<Rightarrow> bool" where
  "open_end ents s key fp w \<longleftrightarrow> (\<exists>st. holds s key fp st w \<and>
     (st = Reserved \<or> (\<exists>rec. st = Accepted rec \<and> good_record ents fp (hw_ingest w) rec)))"

definition good_end :: "('w \<Rightarrow> string \<rightharpoonup> wal_pending_message) \<Rightarrow> 's \<Rightarrow> string \<Rightarrow> string \<Rightarrow> send_message_outcome \<Rightarrow>
     ('r, 'w, 'b, 's) handler_world \<Rightarrow> bool" where
  "good_end ents s key fp out w \<longleftrightarrow> open_end ents s key fp w \<and> good_record ents fp (hw_ingest w) (record_of out fp)"

lemma open_end_Reserved: "holds s key fp Reserved w \<Longrightarrow> open_end ents s key fp w"
  by (auto simp: open_end_def)

lemma holds_frame [simp]:
  "holds s key fp st (w\<lparr>hw_ingest := i\<rparr>) = holds s key fp st w"
  "holds s key fp st (w\<lparr>hw_limiter := l\<rparr>) = holds s key fp st w"
  "holds s key fp st (w\<lparr>hw_ensure := e\<rparr>) = holds s key fp st w"
  "holds s key fp st (w\<lparr>hw_usage := u\<rparr>) = holds s key fp st w"
  by (simp_all add: holds_def)

lemma mark_accepted_holds:
  "holds s key fp st w \<Longrightarrow> holds s key fp (Accepted (record_of out fp)) (mark_accepted out w)
     \<and> hw_ingest (mark_accepted out w) = hw_ingest w"
  by (simp add: holds_def mark_accepted_def replace_state_def)

section \<open>The service operations under the pipeline\<close>

lemma first_touch_frame:
  assumes "first_touch_floor_alloc E now t cv key i = (res, i')"
  shows "iw_wal i' = iw_wal i \<and> iw_published i' = iw_published i"
  using assms
  by (auto simp: first_touch_floor_alloc_def on_redis_def Let_def
      split: option.splits floor_reply.splits prod.splits sum.splits)

lemma allocate_conversation_seq_frame:
  assumes "allocate_conversation_seq E now t cv i = (res, i')"
  shows "iw_wal i' = iw_wal i \<and> iw_published i' = iw_published i"
proof -
  obtain r1 i1 where o: "on_redis (allocate_seq (ie_redis E) cv t) i = (r1, i1)" by fastforce
  then have "iw_wal i1 = iw_wal i \<and> iw_published i1 = iw_published i"
    by (auto simp: on_redis_def split: prod.splits)
  with assms o first_touch_frame [of E now t cv _ i res i'] first_touch_frame [of E now t cv _ i1 res i']
  show ?thesis
    by (auto simp: allocate_conversation_seq_def Let_def split: seq_alloc_plan.splits sum.splits if_split_asm)
qed

lemma allocate_seq_for_submission_frame:
  assumes "allocate_seq_for_submission E now t sub i = (res, i')"
  shows "iw_wal i' = iw_wal i \<and> iw_published i' = iw_published i"
  using assms allocate_conversation_seq_frame
  by (fastforce simp: allocate_seq_for_submission_def Let_def split: prod.splits sum.splits)

lemma allocate_seq_for_submission_Ok:
  assumes "allocate_seq_for_submission E now t sub i = (Ok (sub', p), i')"
  shows "\<exists>n. allocate_conversation_seq E now t (m_conversation_id (ms_message sub)) i = (Ok n, i')
     \<and> sub' = sub\<lparr>ms_message := (ms_message sub)\<lparr>m_conversation_seq := n\<rparr>\<rparr>
     \<and> p = fst (profile_ensure (ms_message sub'))"
  using assms by (auto simp: allocate_seq_for_submission_def Let_def split: prod.splits sum.splits)

lemma write_wal_published:
  assumes "write_wal_if_needed E sub p mode t i = (res, i')"
  shows "iw_published i' = iw_published i"
  using assms by (auto simp: write_wal_if_needed_def split: if_split_asm sum.splits prod.splits)

lemma remove_wal_published:
  "iw_published (snd (remove_wal_after_broker_accept E sub i)) = iw_published i"
  by (simp add: remove_wal_after_broker_accept_def split: prod.splits sum.splits)

text \<open>Publishing with a timeout: the log is untouched, publications are only added, and success adds the message.\<close>

lemma timed_push:
  assumes "apply_stage_timeout timeout late (push_message E sub p mode) i = (res, i')"
  shows "iw_wal i' = iw_wal i" and "set (iw_published i) \<subseteq> set (iw_published i')"
    and "res = Ok () \<Longrightarrow> \<exists>pub \<in> set (iw_published i').
       m_server_id (publication_message pub) = m_server_id (ms_message sub)
       \<and> m_conversation_seq (publication_message pub) = m_conversation_seq (ms_message sub)
       \<and> (publication_stores pub \<longleftrightarrow> \<not> should_push_only mode (is_temporary p))"
proof -
  obtain r j where push: "push_message E sub p mode i = (r, j)" by fastforce
  have "i' = i \<or> i' = j" and ok: "res = Ok () \<Longrightarrow> r = Ok () \<and> i' = j"
    using assms push
    by (auto simp: apply_stage_timeout_def split: option.splits cancel_point.splits)
  moreover have "iw_wal j = iw_wal i" "set (iw_published i) \<subseteq> set (iw_published j)"
    using push_message_frame [OF push] push_message_Err [of E sub p mode i _ j] push_message_Ok [of E sub p mode i j] push
    by (cases r; fastforce)+
  ultimately show "iw_wal i' = iw_wal i" "set (iw_published i) \<subseteq> set (iw_published i')" by auto
  show "\<exists>pub \<in> set (iw_published i').
       m_server_id (publication_message pub) = m_server_id (ms_message sub)
       \<and> m_conversation_seq (publication_message pub) = m_conversation_seq (ms_message sub)
       \<and> (publication_stores pub \<longleftrightarrow> \<not> should_push_only mode (is_temporary p))" if "res = Ok ()"
    using ok [OF that] push_message_Ok [of E sub p mode i j] push by (metis list.set_intros(1))
qed

lemma good_record_mono:
  assumes "good_record ents fp i rec" "iw_wal i' = iw_wal i" "set (iw_published i) \<subseteq> set (iw_published i')"
  shows "good_record ents fp i' rec"
  using assms by (auto simp: good_record_def backed_def published_as_def logged_as_def split: if_splits)

lemma open_end_mono:
  assumes "open_end ents s key fp w" "iw_wal i' = iw_wal (hw_ingest w)"
    "set (iw_published (hw_ingest w)) \<subseteq> set (iw_published i')"
  shows "open_end ents s key fp (w\<lparr>hw_ingest := i'\<rparr>)"
  using assms good_record_mono [of ents fp "hw_ingest w" _ i'] by (auto simp: open_end_def)

text \<open>The error of a stage answered by a result of its own.\<close>

lemma valid_recover:
  assumes c: "valid P c Q Y" and Y: "\<And>w. Y w \<Longrightarrow> X w"
    and h: "\<And>w. Y w \<Longrightarrow> case h of Some out \<Rightarrow> R out w | None \<Rightarrow> True"
    and f: "\<And>a. valid (Q a) (f a) R X"
  shows "valid P (\<lambda>w. case c w of (Cancelled, w) \<Rightarrow> (Cancelled, w)
     | (Fail e, w) \<Rightarrow> (case h of Some out \<Rightarrow> (Ret out, w) | None \<Rightarrow> (Fail e, w))
     | (Ret a, w) \<Rightarrow> f a w) R X"
  unfolding valid_def
proof (intro allI impI)
  fix w assume P: "P w"
  obtain r w1 where r: "c w = (r, w1)" by fastforce
  show "case (case c w of (Cancelled, w) \<Rightarrow> (Cancelled, w)
     | (Fail e, w) \<Rightarrow> (case h of Some out \<Rightarrow> (Ret out, w) | None \<Rightarrow> (Fail e, w))
     | (Ret a, w) \<Rightarrow> f a w) of (Ret a, w') \<Rightarrow> R a w' | (Fail e, w') \<Rightarrow> X w' | (Cancelled, w') \<Rightarrow> X w'"
  proof (cases r)
    case (Ret a)
    with r validD(1) [OF c P] f [of a] show ?thesis by (simp add: valid_def)
  next
    case (Fail e)
    with r validD(2) [OF c P] h [of w1] Y show ?thesis by (cases h) auto
  next
    case Cancelled
    with r validD(3) [OF c P] Y show ?thesis by simp
  qed
qed

lemma valid_pre_step: "valid P (\<lambda>w. c (g w)) Q X" if "valid P' c Q X" "\<And>w. P w \<Longrightarrow> P' (g w)"
  using that by (simp add: valid_def)

lemma snd_on_ingest [simp]: "snd (on_ingest op w) = w\<lparr>hw_ingest := snd (op (hw_ingest w))\<rparr>"
  by (simp add: on_ingest_def split: prod.splits)

lemma on_ingest_Ok: "on_ingest op w = (res, w') \<Longrightarrow> \<exists>i'. op (hw_ingest w) = (res, i') \<and> w' = w\<lparr>hw_ingest := i'\<rparr>"
  by (auto simp: on_ingest_def split: prod.splits)

text \<open>The world after a successful publication: the accepted result is published.\<close>

definition accepted_published :: "'s \<Rightarrow> string \<Rightarrow> string \<Rightarrow> idempotent_record \<Rightarrow> ('r, 'w, 'b, 's) handler_world \<Rightarrow> bool" where
  "accepted_published s key fp rec w \<longleftrightarrow> holds s key fp (Accepted rec) w \<and> record_ok rec \<and> ir_fingerprint rec = fp
     \<and> ir_durability rec \<in> {Persisted, TransientAccepted}
     \<and> published_as (hw_ingest w) rec (ir_durability rec = Persisted)"

lemma accepted_published_good:
  "accepted_published s key fp rec w \<Longrightarrow> good_record ents fp (hw_ingest w) rec"
  by (auto simp: accepted_published_def good_record_def backed_def)

lemma accepted_published_open:
  "accepted_published s key fp rec w \<Longrightarrow> open_end ents s key fp w"
  using accepted_published_good [of s key fp rec w ents]
  by (auto simp: accepted_published_def open_end_def)

lemma accepted_published_frame:
  "iw_published i = iw_published (hw_ingest w) \<Longrightarrow>
     accepted_published s key fp rec (w\<lparr>hw_ingest := i\<rparr>) = accepted_published s key fp rec w"
  "accepted_published s key fp rec (w\<lparr>hw_usage := u\<rparr>) = accepted_published s key fp rec w"
  by (simp_all add: accepted_published_def published_as_def)

text \<open>Steps 10 and 11 leave such a world as it is.\<close>

lemma finish_valid:
  fixes E :: "('r, 'w, 'b, 's) handler_env" and s :: 's
  assumes "rec = record_of out fp"
  shows "valid (accepted_published s key fp rec)
     (bind (if d = TransientAccepted then ret ()
            else if sr_cleanup_permit run
              then (\<lambda>w. ret () (snd (ignore_error (on_ingest (remove_wal_after_broker_accept (he_ingest E) sub)) w)))
            else stage run StCleanup (ignore_error (on_ingest (remove_wal_after_broker_accept (he_ingest E) sub))))
       (\<lambda>_. bind (stage run StPostSend (ignore_error (\<lambda>w. (he_post_send E sub, w)))) (\<lambda>_. ret out)))
     (good_end ents s key fp) (open_end ents s key fp)"
proof -
  let ?A = "accepted_published s key fp rec :: ('r, 'w, 'b, 's) handler_world \<Rightarrow> bool"
  let ?X = "open_end ents s key fp :: ('r, 'w, 'b, 's) handler_world \<Rightarrow> bool"
  have clean: "?A (snd (ignore_error (on_ingest (remove_wal_after_broker_accept (he_ingest E) sub)) w)) = ?A w" for w
    by (simp add: ignore_error_def accepted_published_frame(1) remove_wal_published)
  have open_A: "?A w \<Longrightarrow> ?X w" for w by (rule accepted_published_open)
  have 1: "valid ?A (ret ()) (\<lambda>_. ?A) ?X" by (rule valid_ret)
  have 2: "valid ?A (\<lambda>w. ret () (snd (ignore_error (on_ingest (remove_wal_after_broker_accept (he_ingest E) sub)) w)))
      (\<lambda>_. ?A) ?X"
    by (rule valid_pre_step [OF 1]) (simp add: clean)
  have 3: "valid ?A (stage run StCleanup (ignore_error (on_ingest (remove_wal_after_broker_accept (he_ingest E) sub))))
      (\<lambda>_. ?A) ?X"
  proof (rule valid_stage)
    fix w :: "('r, 'w, 'b, 's) handler_world" assume A: "?A w"
    then show "?X w" by (rule open_A)
    from A clean open_A show "?X (snd (ignore_error (on_ingest (remove_wal_after_broker_accept (he_ingest E) sub)) w))"
      by blast
    show "?A w'" if "ignore_error (on_ingest (remove_wal_after_broker_accept (he_ingest E) sub)) w = (Ok a, w')" for a w'
      using clean [of w] A that by simp
  qed
  have 4: "valid ?A (bind (stage run StPostSend (ignore_error (\<lambda>w. (he_post_send E sub, w)))) (\<lambda>_. ret out))
      (good_end ents s key fp) ?X"
  proof (rule valid_bind)
    show "valid ?A (stage run StPostSend (ignore_error (\<lambda>w. (he_post_send E sub, w)))) (\<lambda>_. ?A) ?X"
      by (rule valid_stage) (auto simp: ignore_error_def open_A)
    show "valid ?A (ret out) (good_end ents s key fp) ?X"
      by (rule valid_ret) (auto simp: good_end_def open_A assms accepted_published_good)
  qed
  show ?thesis by (rule valid_bind) (use 1 2 3 4 in auto)
qed

text \<open>A submission of the call: it carries the call's fresh id, and a number that fits.\<close>

definition of_call :: "send_run \<Rightarrow> message_submission \<Rightarrow> bool" where
  "of_call run sub \<longleftrightarrow> ms_message_id sub = sr_uuid run \<and> m_server_id (ms_message sub) = sr_uuid run"

definition numbered :: "message_submission \<Rightarrow> bool" where
  "numbered sub \<longleftrightarrow> m_conversation_seq (ms_message sub) \<le> u64_max"

abbreviation outcome_as :: "message_submission \<Rightarrow> send_ack_durability_level \<Rightarrow> send_message_outcome" where
  "outcome_as sub d \<equiv> \<lparr>out_message_id = ms_message_id sub, out_conversation_seq = m_conversation_seq (ms_message sub),
     out_durability = d\<rparr>"

lemma record_of_call_ok:
  "of_call run sub \<Longrightarrow> numbered sub \<Longrightarrow> call_texts_ok run fp \<Longrightarrow> record_ok (record_of (outcome_as sub d) fp)"
  by (simp add: of_call_def numbered_def call_texts_ok_def record_ok_def record_of_def)

text \<open>The world before publication: a result that survives a failed publication is already marked and logged.\<close>

definition before_publish :: "('w \<Rightarrow> string \<rightharpoonup> wal_pending_message) \<Rightarrow> 's \<Rightarrow> string \<Rightarrow> string \<Rightarrow>
     send_message_outcome option \<Rightarrow> ('r, 'w, 'b, 's) handler_world \<Rightarrow> bool" where
  "before_publish ents s key fp recover w \<longleftrightarrow> open_end ents s key fp w
     \<and> (case recover of Some out \<Rightarrow> good_record ents fp (hw_ingest w) (record_of out fp) | None \<Rightarrow> True)"

lemma publish_and_finish_valid:
  fixes E :: "('r, 'w, 'b, 's) handler_env" and s :: 's
  assumes sub: "of_call run sub" "numbered sub" and texts: "call_texts_ok run fp"
  shows "valid (before_publish ents s key fp (recoverable_publish_failure_outcome sub (send_ack_durability p mode)))
     (publish_and_finish E run t sub p mode) (good_end ents s key fp) (open_end ents s key fp)"
proof -
  let ?d = "send_ack_durability p mode"
  let ?h = "recoverable_publish_failure_outcome sub ?d"
  let ?rec = "record_of (outcome_as sub ?d) fp"
  let ?P = "before_publish ents s key fp ?h :: ('r, 'w, 'b, 's) handler_world \<Rightarrow> bool"
  let ?op = "on_ingest (apply_stage_timeout (he_publish_timeout E) (sr_publish_timeout run)
      (push_message (he_ingest E) sub p mode)) :: ('r, 'w, 'b, 's) handler_world \<Rightarrow> _"
  let ?Q = "\<lambda>w :: ('r, 'w, 'b, 's) handler_world. \<exists>st. holds s key fp st w
      \<and> published_as (hw_ingest w) ?rec (?d = Persisted)"
  have mono: "?P (w\<lparr>hw_ingest := i'\<rparr>)" if P: "?P w" and push: "apply_stage_timeout (he_publish_timeout E)
      (sr_publish_timeout run) (push_message (he_ingest E) sub p mode) (hw_ingest w) = (res, i')" for w res i'
    using P open_end_mono [OF _ timed_push(1,2) [OF push]] good_record_mono [OF _ timed_push(1,2) [OF push]]
    by (auto simp: before_publish_def split: option.splits)
  have pub: "?Q w'" if P: "?P w" and op: "?op w = (Ok a, w')" for w a w'
  proof -
    from on_ingest_Ok [OF op] obtain i' where i': "apply_stage_timeout (he_publish_timeout E) (sr_publish_timeout run)
        (push_message (he_ingest E) sub p mode) (hw_ingest w) = (Ok a, i')" "w' = w\<lparr>hw_ingest := i'\<rparr>" by blast
    from timed_push(3) [OF i'(1)] have "published_as i' ?rec (?d = Persisted)"
      using sub(1) by (auto simp: published_as_def record_of_def send_ack_durability_def of_call_def)
    with P i'(2) show ?thesis by (auto simp: before_publish_def open_end_def)
  qed
  have stage: "valid ?P (stage run StPublish ?op) (\<lambda>_. ?Q) ?P"
    by (rule valid_stage) (use mono pub in \<open>auto simp: prod_eq_iff\<close>)
  let ?step = "\<lambda>w :: ('r, 'w, 'b, 's) handler_world.
      (mark_accepted (outcome_as sub ?d) w)\<lparr>hw_usage := (t, usage_category p) # hw_usage (mark_accepted (outcome_as sub ?d) w)\<rparr>"
  have fields: "ir_fingerprint ?rec = fp" "ir_durability ?rec = ?d" "?d \<in> {Persisted, TransientAccepted}"
    by (simp_all add: record_of_def send_ack_durability_def)
  have marked: "accepted_published s key fp ?rec (?step w)" if Q: "?Q w" for w
  proof -
    from Q obtain st where st: "holds s key fp st w" and p: "published_as (hw_ingest w) ?rec (?d = Persisted)" by blast
    from mark_accepted_holds [OF st] p fields record_of_call_ok [OF sub texts]
    show ?thesis unfolding accepted_published_frame(2) by (simp add: accepted_published_def)
  qed
  have rest: "valid ?Q (\<lambda>w. bind (if ?d = TransientAccepted then ret ()
            else if sr_cleanup_permit run
              then (\<lambda>w. ret () (snd (ignore_error (on_ingest (remove_wal_after_broker_accept (he_ingest E) sub)) w)))
            else stage run StCleanup (ignore_error (on_ingest (remove_wal_after_broker_accept (he_ingest E) sub))))
       (\<lambda>_. bind (stage run StPostSend (ignore_error (\<lambda>w. (he_post_send E sub, w)))) (\<lambda>_. ret (outcome_as sub ?d))) (?step w))
     (good_end ents s key fp) (open_end ents s key fp)"
    by (rule valid_pre_step [OF finish_valid [OF refl] marked])
  have recovered: "case ?h of Some out \<Rightarrow> good_end ents s key fp out w | None \<Rightarrow> True"
    if "?P w" for w
    using that by (auto simp: before_publish_def good_end_def split: option.splits)
  show ?thesis
    unfolding publish_and_finish_def Let_def
    by (rule valid_recover [OF stage _ recovered rest]) (auto simp: before_publish_def)
qed

lemma on_ensure_frame: "on_ensure op w = (res, w') \<Longrightarrow> \<exists>e. w' = w\<lparr>hw_ensure := e\<rparr>"
  by (auto simp: on_ensure_def split: prod.splits)

lemma on_limiter_frame: "on_limiter op w = (res, w') \<Longrightarrow> \<exists>l. w' = w\<lparr>hw_limiter := l\<rparr>"
  by (auto simp: on_limiter_def split: prod.splits)

text \<open>
  How a call that reserved \<open>key\<close> leaves the store, compared with the view \<open>v\<close> before it: its result
  committed, the key free, or, dropped, one of the two; \<open>replayed\<close> tells the results the ledger gave.
\<close>

definition settled_end :: "('s \<Rightarrow> string \<Rightarrow> key_view) \<Rightarrow> ('w \<Rightarrow> string \<rightharpoonup> wal_pending_message) \<Rightarrow>
     (string \<Rightarrow> key_view) \<Rightarrow> string \<Rightarrow> string \<Rightarrow> (send_message_outcome \<Rightarrow> bool) \<Rightarrow> send_message_outcome run \<Rightarrow>
     ('r, 'w, 'b, 's) handler_world \<Rightarrow> bool" where
  "settled_end view ents v key fp replayed res w \<longleftrightarrow>
     (let committed = (\<lambda>out. view (hw_idem w) = v(key := Done (record_of out fp))
            \<and> (replayed out \<or> backed ents (hw_ingest w) (record_of out fp)));
          free = (view (hw_idem w) = v(key := Free))
      in case res of Ret out \<Rightarrow> committed out | Fail e \<Rightarrow> free | Cancelled \<Rightarrow> free \<or> (\<exists>out. committed out))"

lemma record_of_surj: "ir_fingerprint rec = fp \<Longrightarrow> \<exists>out. rec = record_of out fp"
  by (rule exI [where x = "outcome_of_record rec"]) (simp add: record_of_def outcome_of_record_def)

text \<open>
  The ends of a call that holds the reservation of \<open>key\<close>: settled with a result, settled with an error,
  dropped at an open end, or refused by the limiter; each followed by the destructor. \<open>Q\<close> is what is
  claimed of all of them.
\<close>

definition ends_in :: "'s idem_store \<Rightarrow> ('w \<Rightarrow> string \<rightharpoonup> wal_pending_message) \<Rightarrow> send_run \<Rightarrow> 's \<Rightarrow> string \<Rightarrow> string \<Rightarrow>
     (send_message_outcome \<Rightarrow> bool) \<Rightarrow> (send_message_outcome run \<Rightarrow> ('r, 'w, 'b, 's) handler_world \<Rightarrow> bool) \<Rightarrow> bool" where
  "ends_in S ents run s key fp replayed Q \<longleftrightarrow>
     (\<forall>st w out res w'. holds s key fp st w \<longrightarrow> record_ok (record_of out fp)
        \<longrightarrow> replayed out \<or> backed ents (hw_ingest w) (record_of out fp)
        \<longrightarrow> bind (settle S run (Ok out)) (\<lambda>_. ret out) w = (res, w') \<longrightarrow> Q res (drop_reservation S run w'))
     \<and> (\<forall>st w e res w'. holds s key fp st w
        \<longrightarrow> bind (settle S run (Err e)) (\<lambda>_ w. (Fail e, w)) w = (res, w') \<longrightarrow> Q res (drop_reservation S run w'))
     \<and> (\<forall>w. open_end ents s key fp w \<longrightarrow> Q Cancelled (drop_reservation S run w))
     \<and> (\<forall>w e. holds s key fp Reserved w \<longrightarrow> Q (Fail e) (drop_reservation S run w))"

lemma ends_inD:
  assumes "ends_in S ents run s key fp replayed Q"
  shows "holds s key fp st w \<Longrightarrow> record_ok (record_of out fp)
      \<Longrightarrow> replayed out \<or> backed ents (hw_ingest w) (record_of out fp)
      \<Longrightarrow> bind (settle S run (Ok out)) (\<lambda>_. ret out) w = (res, w') \<Longrightarrow> Q res (drop_reservation S run w')"
    and "holds s key fp st w \<Longrightarrow> bind (settle S run (Err e)) (\<lambda>_ w. (Fail e, w)) w = (res, w')
      \<Longrightarrow> Q res (drop_reservation S run w')"
    and "open_end ents s key fp w \<Longrightarrow> Q Cancelled (drop_reservation S run w)"
    and "holds s key fp Reserved w \<Longrightarrow> Q (Fail e) (drop_reservation S run w)"
  using assms unfolding ends_in_def by blast+

lemma ends_inI:
  assumes "\<And>st w out res w'. holds s key fp st w \<Longrightarrow> record_ok (record_of out fp)
      \<Longrightarrow> replayed out \<or> backed ents (hw_ingest w) (record_of out fp)
      \<Longrightarrow> bind (settle S run (Ok out)) (\<lambda>_. ret out) w = (res, w') \<Longrightarrow> Q res (drop_reservation S run w')"
    and "\<And>st w e res w'. holds s key fp st w \<Longrightarrow> bind (settle S run (Err e)) (\<lambda>_ w. (Fail e, w)) w = (res, w')
      \<Longrightarrow> Q res (drop_reservation S run w')"
    and "\<And>w. open_end ents s key fp w \<Longrightarrow> Q Cancelled (drop_reservation S run w)"
    and "\<And>w e. holds s key fp Reserved w \<Longrightarrow> Q (Fail e) (drop_reservation S run w)"
  shows "ends_in S ents run s key fp replayed Q"
  using assms unfolding ends_in_def by blast

text \<open>
  A store that moved at one key: to the key as it was, to a free key, or to a result with the property
  \<open>P\<close>; and the results a call may leave: backed ones and, without a fingerprint, those of the ledger.
\<close>

definition store_moves :: "(string \<Rightarrow> key_view) \<Rightarrow> string \<Rightarrow> (idempotent_record \<Rightarrow> bool) \<Rightarrow> (string \<Rightarrow> key_view) \<Rightarrow> bool" where
  "store_moves v key P v' \<longleftrightarrow> (\<forall>k. k \<noteq> key \<longrightarrow> v' k = v k)
     \<and> (v' key = v key \<or> v' key = Free \<or> (\<exists>rec. P rec \<and> v' key = Done rec))"

lemma store_moves_refl: "store_moves v key P v"
  by (simp add: store_moves_def)

lemma store_moves_trans: "store_moves u key P v \<Longrightarrow> store_moves v key P v' \<Longrightarrow> store_moves u key P v'"
  by (auto simp: store_moves_def)

definition rests_on :: "('w \<Rightarrow> string \<rightharpoonup> wal_pending_message) \<Rightarrow> string \<Rightarrow> (send_message_outcome \<Rightarrow> bool) \<Rightarrow>
     ('r, 'w, 'b) ingest_world \<Rightarrow> idempotent_record \<Rightarrow> bool" where
  "rests_on ents fp replayed i rec \<longleftrightarrow> (\<exists>out. rec = record_of out fp \<and> replayed out) \<or> backed ents i rec"

context ingest_deployment
begin

lemma write_wal_logged:
  assumes "write_wal_if_needed (he_ingest E) sub p mode t i = (Ok (), i')" and "should_write_wal p mode"
  shows "\<exists>pr. ents (iw_wal i') (m_server_id (ms_message sub)) = Some (pending_of sub t pr)"
  using assms log.append_ok [of sub t _ "iw_wal i"]
  by (auto simp: write_wal_if_needed_def split: if_split_asm sum.splits prod.splits)

text \<open>Step 8: what a failed publication could answer is logged.\<close>

lemma wal_stage_valid:
  fixes s :: 's
  assumes sub: "of_call run sub" "numbered sub" and texts: "call_texts_ok run fp"
    and h: "h = recoverable_publish_failure_outcome sub (send_ack_durability p mode)"
  shows "valid (holds s key fp Reserved)
     (stage run StWal (on_ingest (write_wal_if_needed (he_ingest E) sub p mode t)))
     (\<lambda>_ w. holds s key fp Reserved w \<and> (case h of Some out \<Rightarrow> good_record ents fp (hw_ingest w) (record_of out fp) | None \<Rightarrow> True))
     (open_end ents s key fp)"
proof (rule valid_stage)
  fix w :: "('r, 'w, 'b, 's) handler_world" and a w'
  assume H: "holds s key fp Reserved w"
  then show "open_end ents s key fp w"
    and "open_end ents s key fp (snd (on_ingest (write_wal_if_needed (he_ingest E) sub p mode t) w))"
    by (auto intro: open_end_Reserved)
  assume "on_ingest (write_wal_if_needed (he_ingest E) sub p mode t) w = (Ok a, w')"
  from on_ingest_Ok [OF this] obtain i' where
    i': "write_wal_if_needed (he_ingest E) sub p mode t (hw_ingest w) = (Ok (), i')" "w' = w\<lparr>hw_ingest := i'\<rparr>" by auto
  have "good_record ents fp i' (record_of out fp)" if out: "h = Some out" for out
  proof -
    from out h have o: "out = outcome_as sub WalAccepted" and "should_write_wal p mode"
      by (auto simp: recoverable_publish_failure_outcome_def send_ack_durability_def should_write_wal_def
          split: if_splits)
    from write_wal_logged [OF i'(1) this(2)] have "logged_as ents i' (record_of out fp)"
      using sub(1) by (auto simp: o logged_as_def record_of_def of_call_def pending_of_def)
    with record_of_call_ok [OF sub texts] show ?thesis
      by (simp add: good_record_def backed_def o) (simp add: record_of_def)
  qed
  with H i'(2) show "holds s key fp Reserved w' \<and>
      (case h of Some out \<Rightarrow> good_record ents fp (hw_ingest w') (record_of out fp) | None \<Rightarrow> True)"
    by (auto split: option.splits)
qed

lemma marked_before_publish:
  assumes "holds s key fp Reserved w"
    "case h of Some out \<Rightarrow> good_record ents fp (hw_ingest w) (record_of out fp) | None \<Rightarrow> True"
  shows "before_publish ents s key fp h (case h of Some out \<Rightarrow> mark_accepted out w | None \<Rightarrow> w)"
  using assms mark_accepted_holds [OF assms(1)]
  by (fastforce simp: before_publish_def open_end_def split: option.splits)

lemma log_and_publish_valid:
  fixes s :: 's
  assumes ok: "of_call run sub" "numbered sub" and texts: "call_texts_ok run fp"
  shows "valid (holds s key fp Reserved) (log_and_publish E run t sub p) (good_end ents s key fp) (open_end ents s key fp)"
  unfolding log_and_publish_def Let_def
  by (rule valid_bind [OF wal_stage_valid [OF ok texts refl] valid_pre_step [OF publish_and_finish_valid [OF ok texts]]])
    (elim conjE, rule marked_before_publish)

lemma ensure_stage_valid:
  fixes s :: 's
  shows "valid (holds s key fp Reserved) (ensure_stage E run ctx t m) (\<lambda>_. holds s key fp Reserved) (open_end ents s key fp)"
proof (cases "is_sync_inbox_conversation_id (m_conversation_id m)")
  case True
  then show ?thesis by (simp add: ensure_stage_def valid_ret)
next
  case False
  have "holds s key fp st (snd (on_ensure op w)) = holds s key fp st w" for st op and w :: "('r, 'w, 'b, 's) handler_world"
    by (simp add: on_ensure_def split: prod.splits)
  with False show ?thesis
    unfolding ensure_stage_def if_not_P [OF False]
    by (intro valid_stage) (auto intro: open_end_Reserved simp: prod_eq_iff)
qed

lemma allocate_stage_valid:
  fixes s :: 's
  assumes "of_call run sub" and "m_server_id m = sr_uuid run"
  shows "valid (holds s key fp Reserved)
     (stage run StAllocate (on_ingest (allocate_seq_for_submission (he_ingest E) now t (sub\<lparr>ms_message := m\<rparr>))))
     (\<lambda>a w. holds s key fp Reserved w \<and> of_call run (fst a) \<and> numbered (fst a)) (open_end ents s key fp)"
  using assms seq_fits
  by (auto intro!: valid_stage open_end_Reserved dest!: on_ingest_Ok allocate_seq_for_submission_Ok
      simp: of_call_def numbered_def)

lemma submit_valid:
  fixes s :: 's
  assumes sub: "of_call run sub" and texts: "call_texts_ok run fp"
  shows "valid (holds s key fp Reserved) (submit E run ctx t sub) (good_end ents s key fp) (open_end ents s key fp)"
proof -
  let ?R = "holds s key fp Reserved :: ('r, 'w, 'b, 's) handler_world \<Rightarrow> bool"
  let ?X = "open_end ents s key fp :: ('r, 'w, 'b, 's) handler_world \<Rightarrow> bool"
  let ?G = "good_end ents s key fp :: _ \<Rightarrow> ('r, 'w, 'b, 's) handler_world \<Rightarrow> bool"
  have log: "valid (\<lambda>w. ?R w \<and> of_call run (fst a) \<and> numbered (fst a))
      (case a of (sub, profile) \<Rightarrow> log_and_publish E run t sub profile) ?G ?X" for a
    using log_and_publish_valid [of run "fst a" fp] texts by (cases a) (auto simp: valid_def)
  have alloc: "valid (\<lambda>w. ?R w \<and> m_server_id m = sr_uuid run)
      (bind (stage run StAllocate (on_ingest (allocate_seq_for_submission (he_ingest E) (sr_now run) t (sub\<lparr>ms_message := m\<rparr>))))
        (\<lambda>(sub, profile). log_and_publish E run t sub profile)) ?G ?X" for m
    using valid_bind [OF allocate_stage_valid [OF sub] log, of m] by (auto simp: valid_def)
  have dec: "valid ?R (stage run StDecorate (\<lambda>w. (decorate_message E (ms_message sub), w)))
      (\<lambda>m w. ?R w \<and> m_server_id m = sr_uuid run) ?X"
    by (rule valid_pure_stage)
      (use sub decorate_keeps_id in \<open>auto simp: open_end_Reserved decorate_message_def of_call_def split: sum.splits\<close>)
  show ?thesis
    unfolding submit_def by (rule valid_bind [OF ensure_stage_valid valid_bind [OF dec alloc]])
qed

lemma ingest_send_inner_valid:
  fixes s :: 's
  assumes texts: "call_texts_ok run fp"
  shows "valid (holds s key fp Reserved) (ingest_send_inner E run ctx cmd t) (good_end ents s key fp) (open_end ents s key fp)"
proof -
  let ?R = "holds s key fp Reserved :: ('r, 'w, 'b, 's) handler_world \<Rightarrow> bool"
  let ?X = "open_end ents s key fp :: ('r, 'w, 'b, 's) handler_world \<Rightarrow> bool"
  have RX: "?R w \<Longrightarrow> ?X w" for w by (rule open_end_Reserved)
  have pure: "valid ?R (of_result r) (\<lambda>_. ?R) ?X" "valid ?R (stage run st (\<lambda>w. (r, w))) (\<lambda>_. ?R) ?X"
    for st and r :: "'x result"
    by (rule valid_of_result valid_pure_stage; simp add: RX)+
  have prep: "valid ?R (stage run StPrepare (\<lambda>w. (prepare_submission E run m, w)))
      (\<lambda>sub w. ?R w \<and> of_call run sub) ?X" for m
    by (rule valid_pure_stage)
      (use prepare_Ok in \<open>auto simp: RX prepare_submission_def of_call_def split: sum.splits\<close>)
  have sub: "valid (\<lambda>w. ?R w \<and> of_call run sub) (submit E run ctx t sub) (good_end ents s key fp) ?X" for sub
    using submit_valid [OF _ texts, of sub] by (auto simp: valid_def)
  show ?thesis
    unfolding ingest_send_inner_def Let_def
    by (intro valid_bind [OF pure(1)] valid_bind [OF pure(2)] valid_bind [OF prep] sub)
qed

text \<open>Leaving the call: what the destructor and the settlement do.\<close>

lemma drop_reservation_frame:
  "hw_ingest (drop_reservation S run w) = hw_ingest w" "hw_reservation (drop_reservation S run w) = None"
  by (auto simp: drop_reservation_def on_idem_def Let_def split: option.splits prod.splits reservation_state.splits)

lemma drop_settled: "holds s key fp Settled w \<Longrightarrow> hw_idem (drop_reservation S run w) = s"
  by (simp add: drop_reservation_def holds_def Let_def)

lemma stage_settle_cases:
  assumes "stage run StSettle (ignore_error (on_idem op)) w = (r, w')"
  shows "(r = Ret () \<and> w' = w\<lparr>hw_idem := snd (op (hw_idem w))\<rparr>)
     \<or> (r = Cancelled \<and> (w' = w \<or> w' = w\<lparr>hw_idem := snd (op (hw_idem w))\<rparr>))"
  using assms
  by (auto simp: stage_def ignore_error_def of_result_def on_idem_def split: option.splits cancel_point.splits prod.splits)

lemma replace_state_holds: "holds s key fp st w \<Longrightarrow> holds s key fp st' (replace_state st' w)"
  by (simp add: holds_def replace_state_def)

lemma replace_state_ingest [simp]: "hw_ingest (replace_state st w) = hw_ingest w" "hw_idem (replace_state st w) = hw_idem w"
  by (simp_all add: replace_state_def)

lemma holds_idem: "holds s key fp st w \<Longrightarrow> holds s' key fp st (w\<lparr>hw_idem := s'\<rparr>)"
  by (simp add: holds_def)

lemma drop_reservation_cases:
  assumes "holds s key fp st w"
  shows "hw_idem (drop_reservation S run w) = s
     \<or> (st = Reserved \<and> hw_idem (drop_reservation S run w) = snd (is_rollback S key s))
     \<or> (\<exists>rec. st = Accepted rec \<and> hw_idem (drop_reservation S run w) = snd (is_commit S key rec s))"
  using assms
  by (cases st) (auto simp: drop_reservation_def holds_def on_idem_def Let_def split: prod.splits)

lemma open_end_holds: "open_end ents s key fp w \<Longrightarrow> \<exists>st. holds s key fp st w"
  by (auto simp: open_end_def)

lemma limited_send_ends:
  assumes h: "holds s key fp Reserved w" and ends: "ends_in S ents run s key fp replayed Q" and texts: "call_texts_ok run fp"
    and r: "limited_send E run ctx cmd t lookup w = (res, w')"
  shows "Q res (drop_reservation S run w')"
proof -
  let ?limit = "case he_limiter E of None \<Rightarrow> ret ()
      | Some (cfg, victims) \<Rightarrow> (\<lambda>w. case on_limiter (rl_check cfg victims (sr_now run) t (send_qps (core_quota lookup))
           (cmd_message cmd)) w of (res, w) \<Rightarrow> of_result res w)"
  have "\<exists>r1 w1. ?limit w = (r1, w1) \<and> (r1 = Ret () \<or> (\<exists>e. r1 = Fail e)) \<and> holds s key fp Reserved w1"
    using h by (auto simp: ret_def of_result_def on_limiter_def split: option.splits prod.splits sum.splits)
  then obtain r1 w1 where l: "?limit w = (r1, w1)" "r1 = Ret () \<or> (\<exists>e. r1 = Fail e)" and h1: "holds s key fp Reserved w1"
    by blast
  show ?thesis
  proof (cases "r1 = Ret ()")
    case False
    with l r ends_inD(4) [OF ends h1] show ?thesis by (auto simp: limited_send_def bind_def)
  next
    case True
    obtain r2 w2 where i: "ingest_send_inner E run ctx cmd t w1 = (r2, w2)" by fastforce
    note v = validD [OF ingest_send_inner_valid [OF texts] h1]
    have r': "(res, w') = (case (r2, w2) of (Cancelled, w) \<Rightarrow> (Cancelled, w)
        | (Ret out, w) \<Rightarrow> bind (settle S run (Ok out)) (\<lambda>_. ret out) w
        | (Fail e, w) \<Rightarrow> bind (settle S run (Err e)) (\<lambda>_ w. (Fail e, w)) w)"
      using r l True i by (simp add: limited_send_def bind_def store_configured split: run.splits)
    show ?thesis
    proof (cases r2)
      case (Ret out)
      with v(1) i have g: "good_end ents s key fp out w2" by simp
      then obtain st where "holds s key fp st w2" using open_end_holds [of s key fp w2] by (auto simp: good_end_def)
      moreover from g have "record_ok (record_of out fp)" "backed ents (hw_ingest w2) (record_of out fp)"
        by (auto simp: good_end_def good_record_def)
      ultimately show ?thesis using ends_inD(1) [OF ends, of st w2 out res w'] r' Ret by simp
    next
      case (Fail e)
      with v(2) i have "open_end ents s key fp w2" by simp
      from open_end_holds [OF this] obtain st where "holds s key fp st w2" ..
      from ends_inD(2) [OF ends this] r' Fail show ?thesis by simp
    next
      case Cancelled
      with v(3) i have "open_end ents s key fp w2" by simp
      from ends_inD(3) [OF ends this] r' Cancelled show ?thesis by simp
    qed
  qed
qed

lemma reserved_send_ends:
  assumes h: "holds s key fp Reserved w" and ends: "ends_in S ents run s key fp replayed Q" and texts: "call_texts_ok run fp"
    and r: "reserved_send E run ctx cmd t lookup S fp w = (res, w')"
    and replayed: "\<And>out. replayed out \<longleftrightarrow> fp = [] \<and> replay_from_ledger E run t (cmd_message cmd) = Ok (Some out)"
  shows "Q res (drop_reservation S run w')"
proof -
  obtain r1 w1 where l: "(if fp = [] then stage run StLedger (\<lambda>w. (replay_from_ledger E run t (cmd_message cmd), w)) w
      else ret None w) = (r1, w1)" by fastforce
  have w1: "w1 = w" and out: "\<And>out. r1 = Ret (Some out) \<Longrightarrow> replayed out"
    using l replayed by (auto simp: stage_def ret_def of_result_def split: if_split_asm option.splits cancel_point.splits sum.splits)
  have res: "(res, w') = (case r1 of Cancelled \<Rightarrow> (Cancelled, w)
      | Fail e \<Rightarrow> bind (settle S run (Err e)) (\<lambda>_ w. (Fail e, w)) w
      | Ret None \<Rightarrow> limited_send E run ctx cmd t lookup w
      | Ret (Some out) \<Rightarrow> bind (settle S run (Ok out)) (\<lambda>_. ret out) w)"
    using r l w1 by (simp add: reserved_send_def split: run.splits option.splits)
  show ?thesis
  proof (cases r1)
    case (Ret o')
    show ?thesis
    proof (cases o')
      case None
      with Ret res limited_send_ends [OF h ends texts] show ?thesis by simp
    next
      case (Some out)
      with Ret out have L: "replayed out" by simp
      with replayed ledger_ok have "record_ok (record_of out fp)" by blast
      from ends_inD(1) [OF ends h this] L res Ret Some show ?thesis by simp
    qed
  next
    case (Fail e)
    with res ends_inD(2) [OF ends h] show ?thesis by simp
  next
    case Cancelled
    with res ends_inD(3) [OF ends open_end_Reserved [OF h]] show ?thesis by simp
  qed
qed

text \<open>
  What no failure of the store, no drop and no missing runtime can change: a call that holds the
  reservation moves its key at most to free or to a result that is backed or came from the ledger.
\<close>

lemma commit_moves: "record_ok rec \<Longrightarrow> P rec \<Longrightarrow> store_moves (view s) key P (view (snd (is_commit S key rec s)))"
  using idem.commit_either [of rec key s] by (auto simp: store_moves_def)

lemma rollback_moves: "store_moves (view s) key P (view (snd (is_rollback S key s)))"
  using idem.rollback_either [of key s] by (auto simp: store_moves_def)

lemma drop_moves:
  assumes "holds s key fp st w" and "\<And>rec. st = Accepted rec \<Longrightarrow> record_ok rec \<and> P rec"
  shows "store_moves (view s) key P (view (hw_idem (drop_reservation S run w)))"
  using drop_reservation_cases [OF assms(1), of run]
proof (elim disjE conjE exE)
  fix rec assume "st = Accepted rec" "hw_idem (drop_reservation S run w) = snd (is_commit S key rec s)"
  with assms(2) commit_moves [of rec P s key] show ?thesis by simp
qed (simp_all add: rollback_moves store_moves_refl)

lemma settle_moves:
  assumes h: "holds s key fp st w" and r: "settle S run result w = (res, w')"
    and ok: "\<And>out. result = Ok out \<Longrightarrow> record_ok (record_of out fp) \<and> P (record_of out fp)"
  shows "hw_ingest w' = hw_ingest w \<and> store_moves (view s) key P (view (hw_idem (drop_reservation S run w')))"
proof -
  define st' where "st' = (case result of Inr out \<Rightarrow> Accepted (record_of out fp) | Inl e \<Rightarrow> Reserved)"
  define op where "op = (case result of Inr out \<Rightarrow> is_commit S key (record_of out fp) | Inl e \<Rightarrow> is_rollback S key)"
  let ?w = "replace_state st' w"
  have acc: "holds s key fp st' ?w" by (rule replace_state_holds [OF h])
  have P: "\<And>rec. st' = Accepted rec \<Longrightarrow> record_ok rec \<and> P rec"
    using ok by (auto simp: st'_def split: sum.splits)
  have mv: "store_moves (view s) key P (view (snd (op s)))"
    using ok commit_moves rollback_moves by (auto simp: op_def split: sum.splits)
  obtain r1 w1 where sg: "stage run StSettle (ignore_error (on_idem op)) ?w = (r1, w1)" by fastforce
  have res: "w' = (case r1 of Ret _ \<Rightarrow> replace_state Settled w1 | _ \<Rightarrow> w1)"
    using r sg h by (cases result)
      (auto simp: settle_def bind_def ret_def Let_def st'_def op_def holds_def split: run.splits)
  from stage_settle_cases [OF sg] acc consider "r1 = Ret ()" "w1 = ?w\<lparr>hw_idem := snd (op s)\<rparr>"
    | "r1 = Cancelled" "w1 = ?w" | "r1 = Cancelled" "w1 = ?w\<lparr>hw_idem := snd (op s)\<rparr>"
    by (auto simp: holds_def)
  then show ?thesis
  proof cases
    case 1
    with res drop_settled [OF replace_state_holds [OF holds_idem [OF acc]]] mv show ?thesis by simp
  next
    case 2
    with res drop_moves [OF acc P] show ?thesis by simp
  next
    case 3
    with res drop_moves [OF holds_idem [OF acc] P, of "snd (op s)"] store_moves_trans [OF mv] show ?thesis by simp
  qed
qed

lemma bind_settle_moves:
  assumes "holds s key fp st w" and "bind (settle S run result) (\<lambda>_ w. (x, w)) w = (res, w')"
    and "\<And>out. result = Ok out \<Longrightarrow> record_ok (record_of out fp) \<and> P (record_of out fp)"
  shows "hw_ingest w' = hw_ingest w \<and> store_moves (view s) key P (view (hw_idem (drop_reservation S run w')))"
proof -
  obtain r1 w1 where r: "settle S run result w = (r1, w1)" by fastforce
  with assms(2) have "w' = w1" by (cases r1) (auto simp: bind_def)
  with settle_moves [OF assms(1) r, of P] assms(3) show ?thesis by blast
qed

lemma moves_ends:
  fixes s :: 's
  shows "ends_in S ents run s key fp replayed (\<lambda>res (w :: ('r, 'w, 'b, 's) handler_world). store_moves (view s) key
     (rests_on ents fp replayed (hw_ingest w)) (view (hw_idem w)))"
proof (rule ends_inI)
  fix st out res and w w' :: "('r, 'w, 'b, 's) handler_world"
  assume h: "holds s key fp st w" "record_ok (record_of out fp)" "replayed out \<or> backed ents (hw_ingest w) (record_of out fp)"
    and r: "bind (settle S run (Ok out)) (\<lambda>_. ret out) w = (res, w')"
  show "store_moves (view s) key (rests_on ents fp replayed (hw_ingest (drop_reservation S run w')))
      (view (hw_idem (drop_reservation S run w')))"
  proof -
    from h(3) have "rests_on ents fp replayed (hw_ingest w) (record_of out fp)" by (auto simp: rests_on_def)
    with bind_settle_moves [OF h(1) r [unfolded ret_def [abs_def]], of "rests_on ents fp replayed (hw_ingest w)"] h(2)
    show ?thesis by (simp add: drop_reservation_frame)
  qed
next
  fix st e res and w w' :: "('r, 'w, 'b, 's) handler_world"
  assume h: "holds s key fp st w" and r: "bind (settle S run (Err e)) (\<lambda>_ w. (Fail e, w)) w = (res, w')"
  show "store_moves (view s) key (rests_on ents fp replayed (hw_ingest (drop_reservation S run w')))
      (view (hw_idem (drop_reservation S run w')))"
    using bind_settle_moves [OF h r, of "rests_on ents fp replayed (hw_ingest w)"]
    by (auto simp: drop_reservation_frame)
next
  fix w :: "('r, 'w, 'b, 's) handler_world" assume "open_end ents s key fp w"
  then obtain st where "holds s key fp st w" "\<And>rec. st = Accepted rec \<Longrightarrow> good_record ents fp (hw_ingest w) rec"
    by (auto simp: open_end_def)
  then show "store_moves (view s) key (rests_on ents fp replayed (hw_ingest (drop_reservation S run w)))
      (view (hw_idem (drop_reservation S run w)))"
    using drop_moves [of s key fp st w "rests_on ents fp replayed (hw_ingest w)" run]
    by (auto simp: drop_reservation_frame rests_on_def good_record_def)
next
  fix e and w :: "('r, 'w, 'b, 's) handler_world" assume "holds s key fp Reserved w"
  then show "store_moves (view s) key (rests_on ents fp replayed (hw_ingest (drop_reservation S run w)))
      (view (hw_idem (drop_reservation S run w)))"
    using drop_moves [of s key fp Reserved w] by simp
qed

text \<open>The whole command on a key without a result: what it leaves there is backed.\<close>

lemma handle_send_moves:
  assumes t: "send_tenant ctx = Some t" and key: "send_idempotency_key E ctx t (cmd_message cmd) = Some key"
    and fp: "fp = (case card_post_fingerprint (he_keys E) ctx of Some f \<Rightarrow> f | None \<Rightarrow> [])"
    and texts: "call_texts_ok run fp" and free: "view (hw_idem w) key = Free"
    and r: "handle_send_message E run ctx cmd w = (res, w')"
    and replayed: "\<And>out. replayed out \<longleftrightarrow> fp = [] \<and> replay_from_ledger E run t (cmd_message cmd) = Ok (Some out)"
    and fin: "view (hw_idem w') key = Done rec"
  shows "rests_on ents fp replayed (hw_ingest w') rec"
proof -
  obtain b s1 where b: "is_begin S key (hw_idem w) = (b, s1)" by fastforce
  have s1: "view s1 key \<noteq> Done rec" using idem.begin_either [of key "hw_idem w"] b free by auto
  let ?w = "w\<lparr>hw_idem := s1, hw_reservation := Some (reservation_new key fp)\<rparr>"
  have "hw_idem w' = hw_idem w \<or> hw_idem w' = s1 \<or> (b = Ok Fresh \<and>
      (\<exists>w2. reserved_send E run ctx cmd t (he_tenant_lookup E t) S fp ?w = (res, w2) \<and> w' = drop_reservation S run w2))"
    using r t key b
    by (auto simp: handle_send_message_def handle_send_message_inner_def bind_def stage_def of_result_def ret_def
        store_configured on_idem_def Let_def fp
        split: option.splits cancel_point.splits sum.splits prod.splits idempotency_begin.splits if_split_asm)
  with s1 free fin obtain w2 where r2: "reserved_send E run ctx cmd t (he_tenant_lookup E t) S fp ?w = (res, w2)"
      and w': "w' = drop_reservation S run w2" by auto
  have h: "holds s1 key fp Reserved ?w" by (simp add: holds_def reservation_new_def)
  from reserved_send_ends [OF h moves_ends texts r2 replayed] s1 fin show ?thesis
    by (auto simp: w' store_moves_def)
qed

end

text \<open>
  A deployment whose store answers: every command of the deduplication store is applied and its answer
  arrives.
\<close>

locale answering_deployment = ingest_deployment E S view ents
  for E :: "('r, 'w, 'b, 's) handler_env" and S :: "'s idem_store" and view :: "'s \<Rightarrow> string \<Rightarrow> key_view"
    and ents :: "'w \<Rightarrow> string \<rightharpoonup> wal_pending_message" +
  assumes begin_up: "\<exists>b. fst (is_begin S k s) = Ok b"
    and commit_up: "fst (is_commit S k rec s) = Ok ()"
    and rollback_up: "fst (is_rollback S k s) = Ok ()"
begin

lemma commit_view: "record_ok rec \<Longrightarrow> view (snd (is_commit S k rec s)) = (view s)(k := Done rec)"
  using idem.commit_ok [of rec k s "snd (is_commit S k rec s)"] commit_up [of k rec s] by (simp add: prod_eq_iff)

lemma rollback_view: "view (snd (is_rollback S k s)) = (view s)(k := Free)"
  using idem.rollback_ok [of k s "snd (is_rollback S k s)"] rollback_up [of k s] by (simp add: prod_eq_iff)

lemma drop_reserved:
  "holds s key fp Reserved w \<Longrightarrow> sr_in_runtime run \<Longrightarrow> view (hw_idem (drop_reservation S run w)) = (view s)(key := Free)"
  by (simp add: drop_reservation_def holds_def on_idem_def Let_def rollback_view split: prod.splits)
    (metis rollback_view snd_conv)

lemma drop_accepted:
  "holds s key fp (Accepted rec) w \<Longrightarrow> sr_in_runtime run \<Longrightarrow> record_ok rec \<Longrightarrow>
     view (hw_idem (drop_reservation S run w)) = (view s)(key := Done rec)"
  by (simp add: drop_reservation_def holds_def on_idem_def Let_def split: prod.splits)
    (metis commit_view snd_conv)

text \<open>The settlement: interrupted or not, what the destructor then leaves.\<close>

lemma settle_Ok_drop:
  assumes h: "holds s key fp st w" and rt: "sr_in_runtime run" and ok: "record_ok (record_of out fp)"
    and r: "settle S run (Ok out) w = (res, w')"
  shows "(res = Ret () \<or> res = Cancelled) \<and> hw_ingest w' = hw_ingest w
     \<and> view (hw_idem (drop_reservation S run w')) = (view s)(key := Done (record_of out fp))"
proof -
  let ?rec = "record_of out fp" let ?w = "replace_state (Accepted (record_of out fp)) w"
  have g: "hw_reservation w = Some \<lparr>rs_key = key, rs_fingerprint = fp, rs_state = st\<rparr>" "hw_idem w = s"
    using h by (auto simp: holds_def)
  have acc: "holds s key fp (Accepted ?rec) ?w" by (rule replace_state_holds [OF h])
  let ?s = "snd (is_commit S key ?rec s)"
  have v: "view ?s = (view s)(key := Done ?rec)" by (rule commit_view [OF ok])
  obtain r1 w1 where st: "stage run StSettle (ignore_error (on_idem (is_commit S key ?rec))) ?w = (r1, w1)" by fastforce
  have res: "(res, w') = (case r1 of Ret _ \<Rightarrow> (Ret (), replace_state Settled w1) | Fail e \<Rightarrow> (Fail e, w1) | Cancelled \<Rightarrow> (Cancelled, w1))"
    using r st by (simp add: settle_def g bind_def ret_def Let_def split: run.splits)
  from stage_settle_cases [OF st] consider
      "r1 = Ret ()" "w1 = ?w\<lparr>hw_idem := ?s\<rparr>" | "r1 = Cancelled" "w1 = ?w" | "r1 = Cancelled" "w1 = ?w\<lparr>hw_idem := ?s\<rparr>"
    using acc by (auto simp: holds_def)
  then show ?thesis
  proof cases
    case 1
    with res drop_settled [OF replace_state_holds [OF holds_idem [OF acc]]] v show ?thesis by simp
  next
    case 2
    with res drop_accepted [OF acc rt ok] show ?thesis by simp
  next
    case 3
    with res drop_accepted [OF holds_idem [OF acc] rt ok, of ?s] v show ?thesis by simp
  qed
qed

lemma settle_Err_drop:
  assumes h: "holds s key fp st w" and rt: "sr_in_runtime run"
    and r: "settle S run (Err e) w = (res, w')"
  shows "(res = Ret () \<or> res = Cancelled) \<and> hw_ingest w' = hw_ingest w
     \<and> view (hw_idem (drop_reservation S run w')) = (view s)(key := Free)"
proof -
  let ?w = "replace_state Reserved w"
  have g: "hw_reservation w = Some \<lparr>rs_key = key, rs_fingerprint = fp, rs_state = st\<rparr>" "hw_idem w = s"
    using h by (auto simp: holds_def)
  have acc: "holds s key fp Reserved ?w" by (rule replace_state_holds [OF h])
  let ?s = "snd (is_rollback S key s)"
  have v: "view ?s = (view s)(key := Free)" by (rule rollback_view)
  obtain r1 w1 where st: "stage run StSettle (ignore_error (on_idem (is_rollback S key))) ?w = (r1, w1)" by fastforce
  have res: "(res, w') = (case r1 of Ret _ \<Rightarrow> (Ret (), replace_state Settled w1) | Fail e \<Rightarrow> (Fail e, w1) | Cancelled \<Rightarrow> (Cancelled, w1))"
    using r st by (simp add: settle_def g bind_def ret_def Let_def split: run.splits)
  from stage_settle_cases [OF st] consider
      "r1 = Ret ()" "w1 = ?w\<lparr>hw_idem := ?s\<rparr>" | "r1 = Cancelled" "w1 = ?w" | "r1 = Cancelled" "w1 = ?w\<lparr>hw_idem := ?s\<rparr>"
    using acc by (auto simp: holds_def)
  then show ?thesis
  proof cases
    case 1
    with res drop_settled [OF replace_state_holds [OF holds_idem [OF acc]]] v show ?thesis by simp
  next
    case 2
    with res drop_reserved [OF acc rt] show ?thesis by simp
  next
    case 3
    with res drop_reserved [OF holds_idem [OF acc] rt, of ?s] v show ?thesis by simp
  qed
qed

lemma open_end_drop:
  assumes "open_end ents s key fp w" and rt: "sr_in_runtime run"
  shows "settled_end view ents (view s) key fp replayed Cancelled (drop_reservation S run w)"
proof -
  from assms(1) consider "holds s key fp Reserved w"
    | rec where "holds s key fp (Accepted rec) w" "good_record ents fp (hw_ingest w) rec"
    by (auto simp: open_end_def)
  then show ?thesis
  proof cases
    case 1
    from drop_reserved [OF 1 rt] show ?thesis by (simp add: settled_end_def)
  next
    case (2 rec)
    then obtain out where "rec = record_of out fp" using record_of_surj by (metis good_record_def)
    with 2 drop_accepted [OF 2(1) rt] show ?thesis
      by (auto simp: settled_end_def good_record_def drop_reservation_frame Let_def)
  qed
qed

lemma settle_Ok_end:
  assumes "holds s key fp st w" "sr_in_runtime run" "record_ok (record_of out fp)"
    and "replayed out \<or> backed ents (hw_ingest w) (record_of out fp)"
    and "bind (settle S run (Ok out)) (\<lambda>_. ret out) w = (res, w')"
  shows "settled_end view ents (view s) key fp replayed res (drop_reservation S run w')"
proof -
  obtain r1 w1 where r: "settle S run (Ok out) w = (r1, w1)" by fastforce
  from settle_Ok_drop [OF assms(1-3) r] assms(4,5) r show ?thesis
    by (auto simp: bind_def ret_def settled_end_def drop_reservation_frame Let_def)
qed

lemma settle_Err_end:
  assumes "holds s key fp st w" "sr_in_runtime run"
    and "bind (settle S run (Err e)) (\<lambda>_ w. (Fail e, w)) w = (res, w')"
  shows "settled_end view ents (view s) key fp replayed res (drop_reservation S run w')"
proof -
  obtain r1 w1 where r: "settle S run (Err e) w = (r1, w1)" by fastforce
  from settle_Err_drop [OF assms(1,2) r] assms(3) r show ?thesis
    by (auto simp: bind_def settled_end_def Let_def)
qed

lemma settled_ends:
  fixes s :: 's
  assumes rt: "sr_in_runtime run"
  shows "ends_in S ents run s key fp replayed
     (settled_end view ents (view s) key fp replayed :: _ \<Rightarrow> ('r, 'w, 'b, 's) handler_world \<Rightarrow> bool)"
proof (rule ends_inI)
  fix e and w :: "('r, 'w, 'b, 's) handler_world" assume "holds s key fp Reserved w"
  from drop_reserved [OF this rt] show "settled_end view ents (view s) key fp replayed (Fail e) (drop_reservation S run w)"
    by (simp add: settled_end_def)
qed (rule settle_Ok_end [OF _ rt] settle_Err_end [OF _ rt] open_end_drop [OF _ rt]; assumption)+

text \<open>The whole command on a free key.\<close>

lemma handle_send_end:
  assumes t: "send_tenant ctx = Some t" and key: "send_idempotency_key E ctx t (cmd_message cmd) = Some key"
    and fp: "fp = (case card_post_fingerprint (he_keys E) ctx of Some f \<Rightarrow> f | None \<Rightarrow> [])"
    and texts: "call_texts_ok run fp" and rt: "sr_in_runtime run" and beg: "sr_cancel run StBegin = None"
    and free: "view (hw_idem w) key = Free"
    and r: "handle_send_message E run ctx cmd w = (res, w')"
    and replayed: "\<And>out. replayed out \<longleftrightarrow> fp = [] \<and> replay_from_ledger E run t (cmd_message cmd) = Ok (Some out)"
  shows "settled_end view ents (view (hw_idem w)) key fp replayed res w'"
proof -
  let ?lookup = "he_tenant_lookup E t"
  let ?v = "view (hw_idem w)"
  have unchanged: "settled_end view ents ?v key fp replayed res w'" if "hw_idem w' = hw_idem w" "\<And>out. res \<noteq> Ret out"
    using that fun_upd_idem [of "view (hw_idem w)", OF free] by (auto simp: settled_end_def Let_def split: run.splits)
  show ?thesis
  proof (cases "sr_cancel run StTenant = None \<and> tenant_gate ?lookup (he_tenant_policy E) = Ok ()")
    case False
    with r t have "w' = w \<and> (\<forall>out. res \<noteq> Ret out)"
      by (cases "tenant_gate ?lookup (he_tenant_policy E)")
        (auto simp: handle_send_message_def handle_send_message_inner_def bind_def stage_def of_result_def
          split: option.splits cancel_point.splits)
    with unchanged show ?thesis by blast
  next
    case True
    obtain b s1 where b: "is_begin S key (hw_idem w) = (b, s1)" by fastforce
    show ?thesis
    proof (cases b)
      case (Inl e)
      with b begin_up [of key "hw_idem w"] show ?thesis by simp
    next
      case (Inr b')
      with idem.begin_ok [of key "hw_idem w" b' s1] b free
      have b': "b' = Fresh" and v1: "view s1 = ?v(key := Pending)" by auto
      let ?w = "w\<lparr>hw_idem := s1, hw_reservation := Some (reservation_new key fp)\<rparr>"
      have h: "holds s1 key fp Reserved ?w" by (simp add: holds_def reservation_new_def)
      obtain r2 w2 where r2: "reserved_send E run ctx cmd t ?lookup S fp ?w = (r2, w2)" by fastforce
      have "res = r2" "w' = drop_reservation S run w2"
        using True r t key b Inr b' beg r2
        by (auto simp: handle_send_message_def handle_send_message_inner_def bind_def stage_def of_result_def
            store_configured on_idem_def Let_def fp)
      with reserved_send_ends [OF h settled_ends [OF rt] texts r2 replayed] show ?thesis by (simp add: settled_end_def v1)
    qed
  qed
qed

end

section \<open>A small deployment\<close>

text \<open>
  The deduplication store and the sequence counters on in-memory servers, the log on the Redis log over
  plain entries; queue, conversation service and hooks that accept everything.
\<close>

definition example_ingest :: "(mem_state, message wal_redis, unit) ingest_env" where
  "example_ingest = example_env\<lparr>ie_floor_provider := None\<rparr>"

definition example_store :: "mem_state idem_store" where
  "example_store = redis_idem_store mem_redis example_codec (redis_idempotency_new 180 3600) all_answered"

definition example_handler :: "(mem_state, message wal_redis, unit, mem_state) handler_env" where
  "example_handler = \<lparr>he_ingest = example_ingest,
     he_defaults = \<lparr>md_business_type = [], md_conversation_type = Single, md_sender_type = ''user'', md_tenant_id = None\<rparr>,
     he_validation = composite_validate (default_message_composite (\<lambda>m. 0)),
     he_idempotency = Some example_store, he_ledger = None, he_limiter = None,
     he_tenant_lookup = (\<lambda>t. if t = ''gone''
       then Known \<lparr>snap_tenant_id = t, snap_status = Suspended,
              snap_quota = \<lparr>max_users = 0, max_groups = 0, max_group_members = 0, quota_core = default_core_quota\<rparr>,
              snap_version = 1\<rparr> else Unknown),
     he_tenant_policy = Lenient, he_pre_send = (\<lambda>m b. Ok m), he_post_send = (\<lambda>sub. Ok ()), he_decorate = Ok,
     he_ensure = example_ensure, he_publish_timeout = Some 5000, he_keys = example_keys\<rparr>"

definition example_run :: send_run where
  "example_run = \<lparr>sr_now = 1000, sr_uuid = ''srv-1'', sr_request_uuid = ''req-1'', sr_cancel = (\<lambda>s. None),
     sr_publish_timeout = None, sr_cleanup_permit = True, sr_in_runtime = True\<rparr>"

definition example_send_ctx :: "string \<Rightarrow> send_ctx" where
  "example_send_ctx t = \<lparr>sx_call = \<lparr>cc_tenant_id = Some t, cc_request_id = ''r'', cc_trace_id = []\<rparr>,
     sx_device_id = None, sx_claims = None\<rparr>"

definition example_cmd :: send_message_command where
  "example_cmd = \<lparr>cmd_message = default_message\<lparr>m_client_msg_id := ''c-1'', m_conversation_id := ''1-x'',
       m_sender_id := ''alice'', m_channel_id := ''bob'', m_conversation_type := 1,
       m_content := Some (Some (Text ''hi''))\<rparr>,
     cmd_conversation_id = ''1-x'', cmd_burn_enabled = False, cmd_burn_after_read_seconds = None\<rparr>"

definition example_handler_world :: "(mem_state, message wal_redis, unit, mem_state) handler_world" where
  "example_handler_world = \<lparr>hw_ingest = \<lparr>iw_redis = mem_init, iw_floor_state = Map.empty, iw_wal = empty_log,
       iw_queue = (), iw_published = []\<rparr>,
     hw_idem = mem_init, hw_limiter = [], hw_ensure = ensure_init, hw_usage = [], hw_reservation = None\<rparr>"

lemma allocate_seq_fits: "allocate_seq mem_redis cv t r = (Ok n, r') \<Longrightarrow> n \<le> u64_max"
  using mem.incrby_Some(1) [of "build_redis_key t cv" 1 r n r']
  by (auto simp: allocate_seq_def allocate_single_seq_def split: option.splits)

lemma example_seq_fits:
  "allocate_conversation_seq example_ingest now t cv i = (Ok n, i') \<Longrightarrow> n \<le> u64_max"
  using allocate_seq_fits
  by (auto simp: allocate_conversation_seq_def first_touch_floor_alloc_def example_ingest_def example_env_def plan_seq_alloc_def Option.is_none_def
      on_redis_def Let_def split: prod.splits sum.splits if_split_asm)

interpretation example_deployment: ingest_deployment example_handler example_store
    "redis_view mem_redis example_codec" "wal_entries plain_codec"
proof (intro ingest_deployment.intro ingest_deployment_axioms.intro)
  show "idempotency_store example_store (redis_view mem_redis example_codec)"
    unfolding example_store_def by (rule redis_idem.idempotency_store_axioms)
  show "wal_repository (ie_wal (he_ingest example_handler)) (wal_entries plain_codec)"
    using redis_log.wal_repository_axioms [of 0 30000 True "[]"]
    by (simp add: example_handler_def example_ingest_def example_env_def)
  show "n \<le> u64_max" if "allocate_conversation_seq (he_ingest example_handler) now t cv i = (Ok n, i')" for now t cv i n i'
    using that example_seq_fits by (simp add: example_handler_def)
qed (simp_all add: example_handler_def replay_from_ledger_def)

interpretation example_answering: answering_deployment example_handler example_store
    "redis_view mem_redis example_codec" "wal_entries plain_codec"
proof
  show "\<exists>b. fst (is_begin example_store k s) = Ok b" for k s
    using mem.idem_begin_quiet [of "redis_idempotency_new 180 3600" example_codec k "[]" s]
    by (auto simp: example_store_def redis_idem_store_def all_answered_def redis_idempotency_new_def
        simp del: idem_begin.simps split: option.splits)
  show "fst (is_commit example_store k rec s) = Ok ()" "fst (is_rollback example_store k s) = Ok ()" for k rec s
    by (simp_all add: example_store_def redis_idem_store_def all_answered_def idem_commit_def idem_rollback_def send_cmd_def)
qed

end
