(* ===== verification/Send_Guarantees.thy ===== *)
theory Send_Guarantees
  imports Send_Reservation
begin

text \<open>
  What the send command guarantees, whatever it is interrupted by: admission comes first, a duplicate
  gets the first result, a store that answers is left without a reservation, a committed result is backed by the log
  or a publication, and a call publishes at most its own message in its own conversation.
\<close>

section \<open>What a send publishes\<close>

text \<open>Nothing, or one publication with the given server id and conversation.\<close>

definition sent_only :: "('r, 'w, 'b) ingest_world \<Rightarrow> string \<Rightarrow> string \<Rightarrow> ('r, 'w, 'b, 's) handler_world \<Rightarrow> bool" where
  "sent_only i0 sid cid w \<longleftrightarrow> iw_published (hw_ingest w) = iw_published i0
     \<or> (\<exists>p. iw_published (hw_ingest w) = p # iw_published i0 \<and> m_server_id (publication_message p) = sid
          \<and> m_conversation_id (publication_message p) = cid)"

definition unsent :: "('r, 'w, 'b) ingest_world \<Rightarrow> ('r, 'w, 'b, 's) handler_world \<Rightarrow> bool" where
  "unsent i0 w \<longleftrightarrow> iw_published (hw_ingest w) = iw_published i0"

definition decorator_keeps_identity :: "('r, 'w, 'b, 's) handler_env \<Rightarrow> bool" where
  "decorator_keeps_identity E \<longleftrightarrow> (\<forall>m d. he_decorate E m = Ok d \<longrightarrow>
     m_server_id d = m_server_id m \<and> m_conversation_id d = m_conversation_id m)"

lemma unsent_sent_only: "unsent i0 w \<Longrightarrow> sent_only i0 sid cid w"
  by (simp add: unsent_def sent_only_def)

lemma sent_only_cong:
  "iw_published (hw_ingest w') = iw_published (hw_ingest w) \<Longrightarrow> sent_only i0 sid cid w' = sent_only i0 sid cid w"
  by (simp add: sent_only_def)

lemma published_frames [simp]:
  "hw_ingest (mark_accepted out w) = hw_ingest w"
  "hw_ingest (replace_state st w) = hw_ingest w"
  "hw_ingest (snd (on_idem op1 w)) = hw_ingest w"
  "hw_ingest (snd (on_ensure op2 w)) = hw_ingest w"
  "hw_ingest (drop_reservation S run w) = hw_ingest w"
  by (auto simp: mark_accepted_def replace_state_def on_idem_def on_ensure_def drop_reservation_def Let_def
      split: option.splits prod.splits reservation_state.splits)

lemma timed_push_sent:
  assumes "apply_stage_timeout timeout late (push_message E sub p mode) i = (res, i')"
  shows "iw_published i' = iw_published i \<or> (\<exists>pub. iw_published i' = pub # iw_published i
     \<and> m_server_id (publication_message pub) = m_server_id (ms_message sub)
     \<and> m_conversation_id (publication_message pub) = m_conversation_id (ms_message sub))"
proof -
  obtain r j where push: "push_message E sub p mode i = (r, j)" by fastforce
  then have "i' = i \<or> i' = j"
    using assms by (auto simp: apply_stage_timeout_def split: option.splits cancel_point.splits)
  moreover have "iw_published j = iw_published i \<or> (\<exists>pub. iw_published j = pub # iw_published i
     \<and> m_server_id (publication_message pub) = m_server_id (ms_message sub)
     \<and> m_conversation_id (publication_message pub) = m_conversation_id (ms_message sub))"
    using push_message_Err [of E sub p mode i _ j] push_message_Ok [of E sub p mode i j] push by (cases r) fastforce+
  ultimately show ?thesis by blast
qed

lemma publish_and_finish_sent:
  fixes i0 :: "('r, 'w, 'b) ingest_world" and E :: "('r, 'w, 'b, 's) handler_env"
  assumes "m_server_id (ms_message sub) = sid" "m_conversation_id (ms_message sub) = cid"
  shows "valid (unsent i0) (publish_and_finish E run t sub p mode) (\<lambda>_. sent_only i0 sid cid) (sent_only i0 sid cid)"
proof -
  let ?N = "sent_only i0 sid cid :: ('r, 'w, 'b, 's) handler_world \<Rightarrow> bool"
  let ?op = "on_ingest (apply_stage_timeout (he_publish_timeout E) (sr_publish_timeout run)
      (push_message (he_ingest E) sub p mode)) :: ('r, 'w, 'b, 's) handler_world \<Rightarrow> _"
  have op: "?N w'" if "unsent i0 w" "?op w = (r, w')" for w r w'
    using that timed_push_sent assms
    by (fastforce simp: unsent_def sent_only_def dest!: on_ingest_Ok)
  have stage: "valid (unsent i0) (stage run StPublish ?op) (\<lambda>_. ?N) ?N"
    by (rule valid_stage) (use op in \<open>auto simp: unsent_sent_only prod_eq_iff\<close>)
  let ?cleanup = "ignore_error (on_ingest (remove_wal_after_broker_accept (he_ingest E) sub))
      :: ('r, 'w, 'b, 's) handler_world \<Rightarrow> _"
  have clean: "?N (snd (?cleanup w)) = ?N w" for w
    by (rule sent_only_cong) (simp add: ignore_error_def remove_wal_published)
  have rest: "valid ?N (bind (if b then ret () else if sr_cleanup_permit run then (\<lambda>w. ret () (snd (?cleanup w)))
        else stage run StCleanup ?cleanup)
       (\<lambda>_. bind (stage run StPostSend (ignore_error (\<lambda>w. (he_post_send E sub, w)))) (\<lambda>_. ret out))) (\<lambda>_. ?N) ?N" for b out
  proof (rule valid_bind)
    show "valid ?N (if b then ret () else if sr_cleanup_permit run then (\<lambda>w. ret () (snd (?cleanup w)))
        else stage run StCleanup ?cleanup) (\<lambda>_. ?N) ?N"
    proof -
      have 1: "valid ?N (ret ()) (\<lambda>_. ?N) ?N" by (rule valid_ret)
      have 2: "valid ?N (\<lambda>w. ret () (snd (?cleanup w))) (\<lambda>_. ?N) ?N"
        by (rule valid_pre_step [OF 1]) (simp only: clean)
      have 3: "valid ?N (stage run StCleanup ?cleanup) (\<lambda>_. ?N) ?N"
      proof (rule valid_stage)
        fix w a w' assume N: "?N w"
        then show "?N w" "?N (snd (?cleanup w))" by (simp_all only: clean)
        show "?N w'" if "?cleanup w = (Ok a, w')" using clean [of w] N that by simp
      qed
      from 1 2 3 show ?thesis by auto
    qed
    show "valid ?N (bind (stage run StPostSend (ignore_error (\<lambda>w. (he_post_send E sub, w)))) (\<lambda>_. ret out)) (\<lambda>_. ?N) ?N"
      by (rule valid_bind [OF valid_stage valid_ret]) (auto simp: ignore_error_def)
  qed
  show ?thesis
    unfolding publish_and_finish_def Let_def
    by (rule valid_recover [OF stage _ _ valid_pre_step [OF rest]])
      (auto split: option.splits simp: sent_only_def)
qed

lemma unsent_ingest_stage:
  assumes "\<And>i r i'. op i = (r, i') \<Longrightarrow> iw_published i' = iw_published i"
  shows "valid (unsent i0) (stage run st (on_ingest op)) (\<lambda>_. unsent i0) (sent_only i0 sid cid)"
  by (rule valid_stage)
    (auto simp: unsent_def sent_only_def on_ingest_def split: prod.splits dest!: assms)

lemma submit_sent:
  fixes i0 :: "('r, 'w, 'b) ingest_world" and E :: "('r, 'w, 'b, 's) handler_env"
  assumes dec: "decorator_keeps_identity E"
    and sub: "m_server_id (ms_message sub) = sid" "m_conversation_id (ms_message sub) = cid"
  shows "valid (unsent i0) (submit E run ctx t sub) (\<lambda>_. sent_only i0 sid cid) (sent_only i0 sid cid)"
proof -
  let ?U = "unsent i0 :: ('r, 'w, 'b, 's) handler_world \<Rightarrow> bool"
  let ?N = "sent_only i0 sid cid :: ('r, 'w, 'b, 's) handler_world \<Rightarrow> bool"
  let ?ids = "\<lambda>m. m_server_id m = sid \<and> m_conversation_id m = cid"
  have ens: "valid ?U (ensure_stage E run ctx t (ms_message sub)) (\<lambda>_. ?U) ?N"
  proof -
    have "valid ?U (stage run StEnsure (on_ensure op)) (\<lambda>_. ?U) ?N" for op :: "ensure_state \<Rightarrow> unit result \<times> ensure_state"
    proof (rule valid_stage)
      fix w :: "('r, 'w, 'b, 's) handler_world" and a w' assume U: "?U w"
      then show "?N w" "?N (snd (on_ensure op w))" by (auto simp: unsent_def sent_only_def)
      show "?U w'" if "on_ensure op w = (Ok a, w')" using U published_frames(4) [of op w] that by (simp add: unsent_def)
    qed
    then show ?thesis by (simp add: ensure_stage_def valid_ret)
  qed
  have dstage: "valid ?U (stage run StDecorate (\<lambda>w. (decorate_message E (ms_message sub), w))) (\<lambda>m w. ?U w \<and> ?ids m) ?N"
    by (rule valid_pure_stage)
      (use dec sub in \<open>auto simp: unsent_sent_only decorate_message_def decorator_keeps_identity_def split: sum.splits\<close>)
  have log: "valid (\<lambda>w. ?U w \<and> ?ids (ms_message (fst a)))
      (case a of (sub, p) \<Rightarrow> log_and_publish E run t sub p) (\<lambda>_. ?N) ?N" for a
  proof (cases "?ids (ms_message (fst a))")
    case True
    have "valid ?U (log_and_publish E run t (fst a) (snd a)) (\<lambda>_. ?N) ?N"
      unfolding log_and_publish_def Let_def
    proof (rule valid_bind [OF unsent_ingest_stage valid_pre_step [OF publish_and_finish_sent]])
      show "iw_published i' = iw_published i"
        if "write_wal_if_needed (he_ingest E) (fst a) (snd a) mode t i = (r, i')" for mode i r i'
        by (rule write_wal_published [OF that])
    qed (use True in \<open>auto simp: unsent_def split: option.splits\<close>)
    then show ?thesis by (cases a) (auto simp: valid_def)
  qed (auto simp: valid_def)
  have alloc: "valid (\<lambda>w. ?U w \<and> ?ids m)
      (bind (stage run StAllocate (on_ingest (allocate_seq_for_submission (he_ingest E) (sr_now run) t (sub\<lparr>ms_message := m\<rparr>))))
        (\<lambda>(sub, profile). log_and_publish E run t sub profile)) (\<lambda>_. ?N) ?N" for m
  proof (rule valid_bind [OF _ log], rule valid_stage)
    fix w :: "('r, 'w, 'b, 's) handler_world" and a w'
    assume P: "?U w \<and> ?ids m"
    then show "?N w" by (simp add: unsent_sent_only)
    let ?op = "allocate_seq_for_submission (he_ingest E) (sr_now run) t (sub\<lparr>ms_message := m\<rparr>)"
    have U: "?U (snd (on_ingest ?op w))"
      using P by (simp add: unsent_def allocate_seq_for_submission_frame [OF prod.collapse [symmetric]])
    then show "?N (snd (on_ingest ?op w))" by (rule unsent_sent_only)
    show "?U w' \<and> ?ids (ms_message (fst a))" if r: "on_ingest ?op w = (Ok a, w')"
    proof -
      obtain sub' p where "a = (sub', p)" by fastforce
      with on_ingest_Ok [OF r] allocate_seq_for_submission_Ok P have "?ids (ms_message (fst a))" by fastforce
      with U r show ?thesis by simp
    qed
  qed
  show ?thesis unfolding submit_def by (rule valid_bind [OF ens valid_bind [OF dstage alloc]])
qed

lemma apply_burn_keeps: "apply_burn cmd = Ok m \<Longrightarrow> m_conversation_id m = m_conversation_id (cmd_message cmd)"
  by (auto simp: apply_burn_def Let_def split: if_split_asm option.splits)

lemma after_pre_send_keeps:
  "after_pre_send hooked card_post cid = Ok m \<Longrightarrow> (\<And>signed. card_post = Some signed \<Longrightarrow> m_conversation_id signed = cid)
     \<Longrightarrow> m_conversation_id m = cid"
  by (auto simp: after_pre_send_def split: option.splits if_split_asm)

lemma ingest_send_inner_sent:
  fixes i0 :: "('r, 'w, 'b) ingest_world" and E :: "('r, 'w, 'b, 's) handler_env"
  assumes dec: "decorator_keeps_identity E" and cid: "m_conversation_id (cmd_message cmd) = cid"
  shows "valid (unsent i0) (ingest_send_inner E run ctx cmd t) (\<lambda>_. sent_only i0 (sr_uuid run) cid)
     (sent_only i0 (sr_uuid run) cid)"
proof -
  let ?U = "unsent i0 :: ('r, 'w, 'b, 's) handler_world \<Rightarrow> bool"
  let ?N = "sent_only i0 (sr_uuid run) cid :: ('r, 'w, 'b, 's) handler_world \<Rightarrow> bool"
  let ?M = "\<lambda>m w. ?U w \<and> m_conversation_id m = cid"
  have UN: "?U w \<Longrightarrow> ?N w" for w by (rule unsent_sent_only)
  have burn: "valid ?U (of_result (apply_burn cmd)) ?M ?N"
    by (rule valid_of_result) (auto simp: UN cid dest: apply_burn_keeps)
  have pure: "valid (?M m) (of_result r) (\<lambda>_. ?M m) ?N" "valid (?M m) (stage run st (\<lambda>w. (r, w))) (\<lambda>_. ?M m) ?N"
    for m st and r :: "'x result"
    by (rule valid_of_result valid_pure_stage; simp add: UN)+
  have hook: "valid (?M m) (of_result (after_pre_send hooked
      (if card_post_fingerprint (he_keys E) ctx \<noteq> None then Some m else None) (m_conversation_id m))) ?M ?N" for m hooked
    by (rule valid_of_result) (auto simp: UN dest: after_pre_send_keeps split: if_split_asm)
  have prep: "valid (?M m) (stage run StPrepare (\<lambda>w. (prepare_submission E run m, w)))
      (\<lambda>sub w. ?U w \<and> m_server_id (ms_message sub) = sr_uuid run \<and> m_conversation_id (ms_message sub) = cid) ?N" for m
    by (rule valid_pure_stage)
      (use prepare_Ok in \<open>auto simp: UN prepare_submission_def split: sum.splits\<close>)
  have sub: "valid (\<lambda>w. ?U w \<and> m_server_id (ms_message sub) = sr_uuid run \<and> m_conversation_id (ms_message sub) = cid)
      (submit E run ctx t sub) (\<lambda>_. ?N) ?N" for sub
    using submit_sent [OF dec, of sub "sr_uuid run" cid] by (auto simp: valid_def)
  show ?thesis
    unfolding ingest_send_inner_def Let_def
    by (rule valid_bind [OF burn], rule valid_bind [OF pure(2)], rule valid_bind [OF pure(2)], rule valid_bind [OF hook],
        rule valid_bind [OF pure(1)], rule valid_bind [OF prep sub])
qed

lemma settle_ingest:
  assumes "settle store run r w = (res, w')"
  shows "hw_ingest w' = hw_ingest w"
proof -
  have st: "hw_ingest v' = hw_ingest v" if "stage run StSettle (ignore_error (on_idem op)) v = (x, v')" for op v x v'
    using that by (auto simp: stage_def ignore_error_def of_result_def on_idem_def
        split: option.splits cancel_point.splits prod.splits)
  show ?thesis
  proof (cases "hw_reservation w")
    case None
    with assms show ?thesis by (simp add: settle_def ret_def)
  next
    case (Some g)
    with assms show ?thesis
      by (cases r) (auto simp: settle_def bind_def ret_def Let_def split: prod.splits run.splits dest!: st)
  qed
qed

lemma bind_settle_ingest:
  assumes "bind (settle store run r) (\<lambda>_ w. (x, w)) w = (res, w')"
  shows "hw_ingest w' = hw_ingest w"
  using assms settle_ingest [of store run r w] by (auto simp: bind_def split: prod.splits run.splits)

lemma limited_send_sent:
  assumes dec: "decorator_keeps_identity E" and U: "unsent i0 w"
    and r: "limited_send E run ctx cmd t lookup w = (res, w')"
  shows "sent_only i0 (sr_uuid run) (m_conversation_id (cmd_message cmd)) w'"
proof -
  let ?N = "sent_only i0 (sr_uuid run) (m_conversation_id (cmd_message cmd))"
  let ?limit = "case he_limiter E of None \<Rightarrow> ret ()
      | Some (cfg, victims) \<Rightarrow> (\<lambda>w. case on_limiter (rl_check cfg victims (sr_now run) t (send_qps (core_quota lookup))
           (cmd_message cmd)) w of (res, w) \<Rightarrow> of_result res w)"
  obtain r1 w1 where l: "?limit w = (r1, w1)" by fastforce
  then have i1: "hw_ingest w1 = hw_ingest w"
    by (auto simp: ret_def of_result_def on_limiter_def split: option.splits prod.splits sum.splits)
  obtain r2 w2 where i: "ingest_send_inner E run ctx cmd t w1 = (r2, w2)" by fastforce
  have "unsent i0 w1" using U i1 by (simp add: unsent_def)
  from validD [OF ingest_send_inner_sent [OF dec refl] this] i have N2: "?N w2" by (cases r2) auto
  have "hw_ingest w' = hw_ingest w1 \<or> hw_ingest w' = hw_ingest w2"
    using r l i
    by (auto simp: limited_send_def bind_def [of ?limit] ret_def [abs_def] split: run.splits option.splits
        dest: bind_settle_ingest)
  then show ?thesis
    using N2 U i1 by (auto simp: sent_only_def unsent_def)
qed

lemma reserved_send_sent:
  assumes dec: "decorator_keeps_identity E" and U: "unsent i0 w"
    and r: "reserved_send E run ctx cmd t lookup S fp w = (res, w')"
  shows "sent_only i0 (sr_uuid run) (m_conversation_id (cmd_message cmd)) w'"
proof -
  obtain r1 w1 where l: "(if fp = [] then stage run StLedger (\<lambda>w. (replay_from_ledger E run t (cmd_message cmd), w)) w
      else ret None w) = (r1, w1)" by fastforce
  have w1: "w1 = w"
    using l by (auto simp: stage_def ret_def of_result_def split: if_split_asm option.splits cancel_point.splits sum.splits)
  then have "hw_ingest w' = hw_ingest w \<or> limited_send E run ctx cmd t lookup w = (res, w')"
    using r l
    by (auto simp: reserved_send_def ret_def [abs_def] split: run.splits option.splits dest: bind_settle_ingest)
  then show ?thesis
  proof
    assume "hw_ingest w' = hw_ingest w"
    with U show ?thesis by (simp add: sent_only_def unsent_def)
  qed (rule limited_send_sent [OF dec U])
qed

lemmas handle_send_defs = handle_send_message_def handle_send_message_inner_def bind_def stage_def of_result_def

section \<open>Calls that return\<close>

text \<open>Total correctness: the call returns, with a value and world that satisfy \<open>Q\<close>.\<close>

definition returns :: "('w, 'a) call \<Rightarrow> 'w \<Rightarrow> ('a \<Rightarrow> 'w \<Rightarrow> bool) \<Rightarrow> bool" where
  "returns c w Q \<longleftrightarrow> (\<exists>a w'. c w = (Ret a, w') \<and> Q a w')"

lemma returns_bind: "returns c w (\<lambda>a w'. returns (f a) w' Q) \<Longrightarrow> returns (bind c f) w Q"
  by (auto simp: returns_def bind_def)

lemma returns_ret: "Q a w \<Longrightarrow> returns (ret a) w Q"
  by (simp add: returns_def ret_def)

lemma returns_of_result: "r = Ok a \<Longrightarrow> Q a w \<Longrightarrow> returns (of_result r) w Q"
  by (simp add: returns_def of_result_def)

lemma returns_stage: "sr_cancel run st = None \<Longrightarrow> op w = (Ok a, w') \<Longrightarrow> Q a w' \<Longrightarrow> returns (stage run st op) w Q"
  by (auto simp: returns_def stage_def of_result_def)

lemma returns_conseq: "returns c w Q \<Longrightarrow> (\<And>a w'. Q a w' \<Longrightarrow> Q' a w') \<Longrightarrow> returns c w Q'"
  by (auto simp: returns_def)

lemma returns_pre: "returns c (g w) Q \<Longrightarrow> returns (\<lambda>w. c (g w)) w Q"
  by (simp add: returns_def)

lemma returns_fst: "returns c w (\<lambda>a _. P a) \<longleftrightarrow> (\<exists>a. fst (c w) = Ret a \<and> P a)"
  by (cases "c w") (auto simp: returns_def)

text \<open>Once the message is logged, the send is acknowledged whatever the broker does.\<close>

lemma publish_returns:
  fixes E :: "('r, 'w, 'b, 's) handler_env"
  assumes up: "\<And>st. sr_cancel run st = None" and "\<not> should_push_only mode (is_temporary p)"
  shows "returns (publish_and_finish E run t sub p mode) w (\<lambda>out w'.
     out_message_id out = ms_message_id sub \<and> out_conversation_seq out = m_conversation_seq (ms_message sub)
     \<and> out_durability out \<in> {Persisted, WalAccepted})"
proof -
  have d: "send_ack_durability p mode = Persisted" using assms(2) by (simp add: send_ack_durability_def)
  let ?c = "stage run StPublish (on_ingest (apply_stage_timeout (he_publish_timeout E) (sr_publish_timeout run)
      (push_message (he_ingest E) sub p mode)))"
  obtain r w1 where r: "?c w = (r, w1)" by fastforce
  have "r \<noteq> Cancelled" using r up by (auto simp: stage_def of_result_def split: prod.splits sum.splits)
  moreover have finish: "fst (bind (if sr_cleanup_permit run then (\<lambda>w. ret () (snd (ignore_error op w)))
         else stage run StCleanup (ignore_error op))
       (\<lambda>_. bind (stage run StPostSend (ignore_error op')) (\<lambda>_. ret out)) v) = Ret out"
    for op :: "('r, 'w, 'b, 's) handler_world \<Rightarrow> unit result \<times> _" and op' :: "_ \<Rightarrow> unit result \<times> _" and out v
    by (simp add: bind_def stage_def of_result_def ignore_error_def ret_def up)
  ultimately show ?thesis
    using r unfolding returns_fst
    by (cases r) (simp_all add: publish_and_finish_def recoverable_publish_failure_outcome_def d finish Let_def)
qed

lemma log_and_publish_returns:
  assumes up: "\<And>st. sr_cancel run st = None"
    and persistent: "\<not> should_push_only (ingest_persistence_mode p (ms_message sub)) (is_temporary p)"
    and "ie_write_proof (he_ingest E) (ms_message sub) = Ok pr"
    and "ie_requires_proof (he_ingest E) (ms_message sub) \<longrightarrow> pr \<noteq> None"
    and append: "fst (wal_append (ie_wal (he_ingest E)) sub t pr (iw_wal (hw_ingest w))) = Ok ()"
  shows "returns (log_and_publish E run t sub p) w (\<lambda>out w'.
     out_message_id out = ms_message_id sub \<and> out_conversation_seq out = m_conversation_seq (ms_message sub)
     \<and> out_durability out \<in> {Persisted, WalAccepted})"
proof -
  let ?mode = "ingest_persistence_mode p (ms_message sub)"
  obtain l where l: "wal_append (ie_wal (he_ingest E)) sub t pr (iw_wal (hw_ingest w)) = (Ok (), l)"
    using append by (metis prod.collapse)
  have "on_ingest (write_wal_if_needed (he_ingest E) sub p ?mode t) w
      = (Ok (), w\<lparr>hw_ingest := (hw_ingest w)\<lparr>iw_wal := l\<rparr>\<rparr>)"
    using assms(3,4) persistent l by (simp add: on_ingest_def write_wal_if_needed_def should_write_wal_def)
  then show ?thesis
    unfolding log_and_publish_def Let_def
    by (intro returns_bind returns_stage [OF up] returns_pre [OF publish_returns [OF up persistent]])
qed

text \<open>
  The stages before the conversation is touched accept the command and prepare \<open>sub\<close>; the services
  after them answer. Nothing is said of the broker.
\<close>

definition stages_accept :: "('r, 'w, 'b, 's) handler_env \<Rightarrow> send_run \<Rightarrow> send_ctx \<Rightarrow> send_message_command \<Rightarrow> string \<Rightarrow>
     message_submission \<Rightarrow> bool" where
  "stages_accept E run ctx cmd t sub \<longleftrightarrow> (\<exists>m hooked m'. apply_burn cmd = Ok m
     \<and> validate_message (he_validation E) (sx_claims ctx) t m = Ok ()
     \<and> he_pre_send E m (executes_user_pre_send (he_keys E) (sx_claims ctx)) = Ok hooked
     \<and> after_pre_send hooked (if card_post_fingerprint (he_keys E) ctx \<noteq> None then Some m else None)
         (m_conversation_id m) = Ok m'
     \<and> ensure_tenant_attributes_match m' t = Ok () \<and> prepare_submission E run m' = Ok sub)"

definition services_up :: "('r, 'w, 'b, 's) handler_env \<Rightarrow> send_run \<Rightarrow> send_ctx \<Rightarrow> string \<Rightarrow> message_submission \<Rightarrow>
     message \<Rightarrow> ('r, 'w, 'b, 's) handler_world \<Rightarrow> bool" where
  "services_up E run ctx t sub d w \<longleftrightarrow>
     fst (ensure_conversation (he_ensure E) (sr_now run) (sr_request_uuid run) (sx_call ctx)
        (build_conversation_ensure_request_from_message (ms_message sub) t) (hw_ensure w)) = Ok ()
     \<and> he_decorate E (ms_message sub) = Ok d
     \<and> (case allocate_conversation_seq (he_ingest E) (sr_now run) t (m_conversation_id d) (hw_ingest w) of
          (Inl e, i) \<Rightarrow> False
        | (Inr n, i) \<Rightarrow>
            (let s' = sub\<lparr>ms_message := d\<lparr>m_conversation_seq := n\<rparr>\<rparr> in
             case ie_write_proof (he_ingest E) (ms_message s') of
               Inl e \<Rightarrow> False
             | Inr pr \<Rightarrow> (ie_requires_proof (he_ingest E) (ms_message s') \<longrightarrow> pr \<noteq> None)
                 \<and> fst (wal_append (ie_wal (he_ingest E)) s' t pr (iw_wal i)) = Ok ()))"

definition stored_message :: "message \<Rightarrow> bool" where
  "stored_message m \<longleftrightarrow> \<not> should_push_only (ingest_persistence_mode (fst (profile_ensure m)) m)
     (is_temporary (fst (profile_ensure m)))"

lemma stored_message_cong: "m_extensions m = m_extensions m' \<Longrightarrow> m_content m = m_content m' \<Longrightarrow>
    stored_message m = stored_message m'"
  using profile_ensure_cong [of m m']
  by (simp add: stored_message_def ingest_persistence_mode_def notification_persistent_def)

definition acknowledged :: "string \<Rightarrow> send_message_outcome \<Rightarrow> bool" where
  "acknowledged sid out \<longleftrightarrow> out_message_id out = sid \<and> out_durability out \<in> {Persisted, WalAccepted}"

lemma submit_returns:
  fixes w :: "('r, 'w, 'b, 's) handler_world"
  assumes up: "\<And>st. sr_cancel run st = None" and E: "services_up E run ctx t sub d w" and "stored_message d"
  shows "returns (submit E run ctx t sub) w (\<lambda>out _. acknowledged (ms_message_id sub) out)"
proof -
  have ens: "returns (ensure_stage E run ctx t (ms_message sub)) w (\<lambda>_ w'. hw_ingest w' = hw_ingest w)"
  proof (cases "is_sync_inbox_conversation_id (m_conversation_id (ms_message sub))")
    case True
    then show ?thesis by (simp add: ensure_stage_def returns_def ret_def)
  next
    case False
    obtain r s where "ensure_conversation (he_ensure E) (sr_now run) (sr_request_uuid run) (sx_call ctx)
        (build_conversation_ensure_request_from_message (ms_message sub) t) (hw_ensure w) = (r, s)" by fastforce
    with E have "on_ensure (ensure_conversation (he_ensure E) (sr_now run) (sr_request_uuid run) (sx_call ctx)
        (build_conversation_ensure_request_from_message (ms_message sub) t)) w = (Ok (), w\<lparr>hw_ensure := s\<rparr>)"
      by (simp add: on_ensure_def services_up_def)
    from returns_stage [where op = "on_ensure _", OF up this] False show ?thesis
      by (simp add: ensure_stage_def)
  qed
  have dec: "decorate_message E (ms_message sub) = Ok d" using E by (simp add: decorate_message_def services_up_def)
  obtain n i where al: "allocate_conversation_seq (he_ingest E) (sr_now run) t (m_conversation_id d) (hw_ingest w) = (Ok n, i)"
    using E by (auto simp: services_up_def split: prod.splits sum.splits)
  let ?m = "d\<lparr>m_conversation_seq := n\<rparr>"
  let ?s = "sub\<lparr>ms_message := ?m\<rparr>"
  obtain pr where pr: "ie_write_proof (he_ingest E) ?m = Ok pr" "ie_requires_proof (he_ingest E) ?m \<longrightarrow> pr \<noteq> None"
      "fst (wal_append (ie_wal (he_ingest E)) ?s t pr (iw_wal i)) = Ok ()"
    using E al by (auto simp: services_up_def Let_def split: sum.splits)
  have st: "stored_message ?m" using stored_message_cong [of ?m d] assms(3) by simp
  have alloc: "on_ingest (allocate_seq_for_submission (he_ingest E) (sr_now run) t (sub\<lparr>ms_message := d\<rparr>)) w' =
      (Ok (?s, fst (profile_ensure ?m)), w'\<lparr>hw_ingest := i\<rparr>)" if "hw_ingest w' = hw_ingest w" for w'
    using al that by (simp add: on_ingest_def allocate_seq_for_submission_def Let_def)
  have log: "returns (log_and_publish E run t ?s (fst (profile_ensure ?m))) w' (\<lambda>out _. acknowledged (ms_message_id sub) out)"
    if "iw_wal (hw_ingest w') = iw_wal i" for w'
    by (rule returns_conseq [OF log_and_publish_returns [OF up, where pr = pr]])
      (use st pr that in \<open>auto simp: stored_message_def acknowledged_def\<close>)
  show ?thesis
    unfolding submit_def
  proof (rule returns_bind, rule returns_conseq [OF ens])
    fix w' :: "('r, 'w, 'b, 's) handler_world" assume w': "hw_ingest w' = hw_ingest w"
    show "returns (bind (stage run StDecorate (\<lambda>w. (decorate_message E (ms_message sub), w))) (\<lambda>m. bind (stage run StAllocate
        (on_ingest (allocate_seq_for_submission (he_ingest E) (sr_now run) t (sub\<lparr>ms_message := m\<rparr>))))
        (\<lambda>(sub, profile). log_and_publish E run t sub profile))) w' (\<lambda>out _. acknowledged (ms_message_id sub) out)"
      by (rule returns_bind, rule returns_stage [where a = d and w' = w', OF up], simp only: dec,
          rule returns_bind, rule returns_stage [OF up], rule alloc [OF w'], simp only: prod.case, rule log, simp)
  qed
qed

lemma ingest_send_inner_returns:
  assumes up: "\<And>st. sr_cancel run st = None" and acc: "stages_accept E run ctx cmd t sub"
    and "services_up E run ctx t sub d w" and "stored_message d"
  shows "returns (ingest_send_inner E run ctx cmd t) w (\<lambda>out _. acknowledged (sr_uuid run) out)"
proof -
  from acc obtain m hooked m' where a: "apply_burn cmd = Ok m"
     "validate_message (he_validation E) (sx_claims ctx) t m = Ok ()"
     "he_pre_send E m (executes_user_pre_send (he_keys E) (sx_claims ctx)) = Ok hooked"
     "after_pre_send hooked (if card_post_fingerprint (he_keys E) ctx \<noteq> None then Some m else None)
         (m_conversation_id m) = Ok m'"
     "ensure_tenant_attributes_match m' t = Ok ()" "prepare_submission E run m' = Ok sub"
    unfolding stages_accept_def by blast
  have "prepare (sr_uuid run) (int (sr_now run)) (he_defaults E) m' = Ok sub"
    using a(6) by (simp add: prepare_submission_def split: sum.splits)
  then have id: "ms_message_id sub = sr_uuid run" by (rule prepare_Ok(4))
  note sub = submit_returns [OF up assms(3,4), unfolded id]
  show ?thesis
    unfolding ingest_send_inner_def Let_def
    by (rule returns_bind, rule returns_of_result [OF a(1)], rule returns_bind, rule returns_stage [OF up],
        simp only: a(2), rule returns_bind, rule returns_stage [OF up], simp only: a(3), rule returns_bind,
        rule returns_of_result [OF a(4)], rule returns_bind, rule returns_of_result [OF a(5)], rule returns_bind,
        rule returns_stage [OF up], simp only: a(6), rule sub)
qed

text \<open>The call around the stages: the limiter lets the message through and the key, if any, is free.\<close>

definition limiter_admits :: "('r, 'w, 'b, 's) handler_env \<Rightarrow> send_run \<Rightarrow> send_message_command \<Rightarrow> string \<Rightarrow> rl_state \<Rightarrow> bool" where
  "limiter_admits E run cmd t l \<longleftrightarrow>
     (case he_limiter E of None \<Rightarrow> True
      | Some (cfg, victims) \<Rightarrow>
          fst (rl_check cfg victims (sr_now run) t (send_qps (core_quota (he_tenant_lookup E t))) (cmd_message cmd) l) = Ok ())"

definition key_is_new :: "('r, 'w, 'b, 's) handler_env \<Rightarrow> send_run \<Rightarrow> send_ctx \<Rightarrow> send_message_command \<Rightarrow> string \<Rightarrow> 's \<Rightarrow> bool" where
  "key_is_new E run ctx cmd t s \<longleftrightarrow>
     (case (he_idempotency E, send_idempotency_key E ctx t (cmd_message cmd)) of
        (Some S, Some key) \<Rightarrow> fst (is_begin S key s) = Ok Fresh \<and> replay_from_ledger E run t (cmd_message cmd) = Ok None
      | _ \<Rightarrow> True)"

lemma settle_returns:
  assumes up: "\<And>st. sr_cancel run st = None"
  shows "fst (bind (settle S run r) (\<lambda>_. ret a) w) = Ret a"
  by (simp add: settle_def bind_def ret_def stage_def up ignore_error_def of_result_def on_idem_def Let_def
      split: option.splits prod.splits sum.splits)

lemma services_up_cong: "hw_ensure w' = hw_ensure w \<Longrightarrow> hw_ingest w' = hw_ingest w \<Longrightarrow>
    services_up E run ctx t sub d w' = services_up E run ctx t sub d w"
  by (simp add: services_up_def)

lemma limited_send_returns:
  assumes up: "\<And>st. sr_cancel run st = None" and lim: "limiter_admits E run cmd t (hw_limiter w)"
    and acc: "stages_accept E run ctx cmd t sub" and srv: "services_up E run ctx t sub d w" and "stored_message d"
  shows "returns (limited_send E run ctx cmd t (he_tenant_lookup E t)) w (\<lambda>out _. acknowledged (sr_uuid run) out)"
proof -
  have inner: "\<exists>out v'. ingest_send_inner E run ctx cmd t v = (Ret out, v') \<and> acknowledged (sr_uuid run) out"
    if "hw_ensure v = hw_ensure w" "hw_ingest v = hw_ingest w" for v
    using ingest_send_inner_returns [OF up acc _ assms(5)] services_up_cong [OF that] srv
    by (fastforce simp: returns_def)
  have limit: "\<exists>v. (case he_limiter E of None \<Rightarrow> ret ()
       | Some (cfg, victims) \<Rightarrow> (\<lambda>w. case on_limiter (rl_check cfg victims (sr_now run) t
            (send_qps (core_quota (he_tenant_lookup E t))) (cmd_message cmd)) w of (res, w) \<Rightarrow> of_result res w)) w = (Ret (), v)
       \<and> hw_ensure v = hw_ensure w \<and> hw_ingest v = hw_ingest w"
    using lim by (auto simp: limiter_admits_def ret_def on_limiter_def of_result_def split: option.splits prod.splits)
  then obtain v where v: "(case he_limiter E of None \<Rightarrow> ret ()
       | Some (cfg, victims) \<Rightarrow> (\<lambda>w. case on_limiter (rl_check cfg victims (sr_now run) t
            (send_qps (core_quota (he_tenant_lookup E t))) (cmd_message cmd)) w of (res, w) \<Rightarrow> of_result res w)) w = (Ret (), v)"
       "hw_ensure v = hw_ensure w" "hw_ingest v = hw_ingest w" by blast
  from inner [OF v(2,3)] obtain out v' where i: "ingest_send_inner E run ctx cmd t v = (Ret out, v')"
      "acknowledged (sr_uuid run) out" by blast
  show ?thesis
    unfolding returns_fst limited_send_def
    by (simp add: bind_def [of "case he_limiter E of None \<Rightarrow> ret () | Some z \<Rightarrow> _ z"] v(1) i settle_returns [OF up]
        ret_def [of out] split: option.split)
qed

lemma handle_send_returns:
  assumes up: "\<And>st. sr_cancel run st = None" and t: "send_tenant ctx = Some t"
    and adm: "admits_connection (he_tenant_lookup E t) (he_tenant_policy E)"
    and new: "key_is_new E run ctx cmd t (hw_idem w)" and lim: "limiter_admits E run cmd t (hw_limiter w)"
    and acc: "stages_accept E run ctx cmd t sub" and srv: "services_up E run ctx t sub d w" and "stored_message d"
  shows "returns (handle_send_message E run ctx cmd) w (\<lambda>out _. acknowledged (sr_uuid run) out)"
proof -
  have ls: "\<exists>out v'. limited_send E run ctx cmd t (he_tenant_lookup E t) v = (Ret out, v') \<and> acknowledged (sr_uuid run) out"
    if "hw_ensure v = hw_ensure w" "hw_ingest v = hw_ingest w" "hw_limiter v = hw_limiter w" for v
    using limited_send_returns [OF up _ acc _ assms(8), of v] lim srv services_up_cong [OF that(1,2)] that(3)
    by (simp add: returns_def)
  have gate: "tenant_gate (he_tenant_lookup E t) (he_tenant_policy E) = Ok ()"
    using adm by (simp add: tenant_gate_cases(1))
  show ?thesis
  proof (cases "\<exists>S key. he_idempotency E = Some S \<and> send_idempotency_key E ctx t (cmd_message cmd) = Some key")
    case False
    then show ?thesis
      using ls [of w] by (auto simp: returns_fst handle_send_defs t up gate Let_def split: option.splits)
  next
    case True
    then obtain S key where k: "he_idempotency E = Some S" "send_idempotency_key E ctx t (cmd_message cmd) = Some key" by blast
    with new obtain s1 where b: "is_begin S key (hw_idem w) = (Ok Fresh, s1)" and led: "replay_from_ledger E run t (cmd_message cmd) = Ok None"
      by (cases "is_begin S key (hw_idem w)") (auto simp: key_is_new_def)
    have res: "\<exists>out v'. reserved_send E run ctx cmd t (he_tenant_lookup E t) S fp v = (Ret out, v') \<and> acknowledged (sr_uuid run) out"
      if "hw_ensure v = hw_ensure w" "hw_ingest v = hw_ingest w" "hw_limiter v = hw_limiter w" for v fp
      using ls [OF that] by (simp add: reserved_send_def stage_def up led of_result_def ret_def)
    let ?v = "\<lambda>fp. w\<lparr>hw_idem := s1, hw_reservation := Some (reservation_new key fp)\<rparr>"
    let ?fp = "case card_post_fingerprint (he_keys E) ctx of Some f \<Rightarrow> f | None \<Rightarrow> []"
    from res [of "?v ?fp" ?fp] obtain out v' where
      r: "reserved_send E run ctx cmd t (he_tenant_lookup E t) S ?fp (?v ?fp) = (Ret out, v')" "acknowledged (sr_uuid run) out"
      by auto
    then show ?thesis
      by (simp add: returns_fst handle_send_defs t up gate Let_def k on_idem_def b)
  qed
qed

section \<open>A concrete send\<close>

definition example_sub :: message_submission where
  "example_sub = projr (prepare_submission example_handler example_run (cmd_message example_cmd))"

definition example_key :: string where "example_key = ''idem:t1:alice:1-x:c-1''"

definition example_done_world :: "(mem_state, message wal_redis, unit, mem_state) handler_world" where
  "example_done_world = example_handler_world\<lparr>hw_idem :=
     snd (is_commit example_store example_key (example_record\<lparr>ir_fingerprint := []\<rparr>) (hw_idem example_handler_world))\<rparr>"

lemma example_call:
  "send_tenant (example_send_ctx ''t1'') = Some ''t1''"
  "card_post_fingerprint (he_keys example_handler) (example_send_ctx ''t1'') = None"
  "admits_connection (he_tenant_lookup example_handler ''t1'') (he_tenant_policy example_handler)"
  by code_simp+

lemma example_call_key:
  "send_idempotency_key example_handler (example_send_ctx ''t1'') ''t1'' (cmd_message example_cmd) = Some example_key"
  by code_simp

lemma example_free: "redis_view mem_redis example_codec (hw_idem example_handler_world) k = Free"
  by (simp add: redis_view_def example_handler_world_def mem_redis_def mem_init_def mem_get_def mem_live_def)

lemma example_texts: "call_texts_ok (example_run\<lparr>sr_cancel := c\<rparr>) []" "sr_in_runtime (example_run\<lparr>sr_cancel := c\<rparr>)"
  by (simp_all add: call_texts_ok_def example_run_def)

lemma example_no_ledger: "replay_from_ledger example_handler run t m = Ok None"
  by (simp add: replay_from_ledger_def example_handler_def)

lemma example_accepts: "stages_accept example_handler example_run (example_send_ctx ''t1'') example_cmd ''t1'' example_sub"
proof -
  have burn: "apply_burn example_cmd = Ok (cmd_message example_cmd)" 
    by (simp add: apply_burn_def example_cmd_def default_message_def Let_def)
  have val: "validate_message (he_validation example_handler) (sx_claims (example_send_ctx ''t1'')) ''t1'' (cmd_message example_cmd) = Ok ()"
    by code_simp
  have att: "ensure_tenant_attributes_match (cmd_message example_cmd) ''t1'' = Ok ()" by code_simp
  have "sum.isl (prepare_submission example_handler example_run (cmd_message example_cmd)) = False" by code_simp
  then have prep: "prepare_submission example_handler example_run (cmd_message example_cmd) = Ok example_sub"
    by (cases "prepare_submission example_handler example_run (cmd_message example_cmd)") (simp_all add: example_sub_def)
  have pre: "he_pre_send example_handler m b = Ok m" for m b by (simp add: example_handler_def)
  have "\<not> message_claims_plugin_card (cmd_message example_cmd)" by code_simp
  then show ?thesis
    unfolding stages_accept_def
    using burn val att prep by (intro exI [where x = "cmd_message example_cmd"]) (simp add: example_call pre after_pre_send_def)
qed

lemma example_services: "services_up example_handler example_run (example_send_ctx ''t1'') ''t1'' example_sub (ms_message example_sub)
    example_handler_world"
proof -
  let ?E = example_handler and ?m = "ms_message example_sub"
  have "fst (ensure_conversation (he_ensure ?E) (sr_now example_run) (sr_request_uuid example_run) (sx_call (example_send_ctx ''t1''))
      (build_conversation_ensure_request_from_message ?m ''t1'') (hw_ensure example_handler_world)) = Ok ()"
    by code_simp
  moreover have "he_decorate ?E ?m = Ok ?m" by (simp add: example_handler_def)
  moreover have "case allocate_conversation_seq (he_ingest ?E) (sr_now example_run) ''t1'' (m_conversation_id ?m)
        (hw_ingest example_handler_world) of
      (Inl e, i) \<Rightarrow> False
    | (Inr n, i) \<Rightarrow> sum.isl (fst (wal_append (ie_wal (he_ingest ?E)) (example_sub\<lparr>ms_message := ?m\<lparr>m_conversation_seq := n\<rparr>\<rparr>) ''t1'' None
         (iw_wal i))) = False"
    by code_simp
  moreover have "ie_write_proof (he_ingest ?E) m = Ok None" "\<not> ie_requires_proof (he_ingest ?E) m" for m
    by (simp_all add: example_handler_def example_ingest_def example_env_def)
  ultimately show ?thesis
    by (simp add: services_up_def Let_def sum.case_eq_if split: prod.splits) (metis (full_types) old.unit.exhaust sum.collapse(2))
qed

lemma example_stored: "stored_message (ms_message example_sub)"
  by code_simp

lemma example_begin: "fst (is_begin example_store example_key (hw_idem example_handler_world)) = Ok Fresh"
  by code_simp

lemma example_uncancelled: "sr_cancel example_run st = None" "sr_uuid example_run = ''srv-1''"
  by (simp_all add: example_run_def)

lemma example_new: "key_is_new example_handler example_run (example_send_ctx ''t1'') example_cmd ''t1'' (hw_idem example_handler_world)"
  by (simp add: key_is_new_def example_begin example_no_ledger example_call_key example_deployment.store_configured)

lemma example_limit: "limiter_admits example_handler example_run example_cmd ''t1'' l"
  by (simp add: limiter_admits_def example_handler_def)

lemmas example_admitted = example_call(1,3) example_new example_limit example_accepts example_services example_stored

lemma example_send_returns:
  "\<exists>out w'. handle_send_message example_handler example_run (example_send_ctx ''t1'') example_cmd example_handler_world = (Ret out, w')
     \<and> acknowledged ''srv-1'' out"
  using handle_send_returns [OF example_uncancelled(1) example_admitted] by (simp add: returns_def example_uncancelled)

section \<open>Properties\<close>

text \<open>
  C37: admission comes first. Without a tenant, or when the tenant gate refuses it, a send ends without
  a result and changes nothing at all: not the deduplication store (so an old result cannot be
  replayed to a revoked tenant), no counter, limiter, log or publication.
\<close>

theorem refused_tenant_changes_nothing:
  assumes "case send_tenant ctx of None \<Rightarrow> True
     | Some t \<Rightarrow> \<not> admits_connection (he_tenant_lookup E t) (he_tenant_policy E)"
  shows "snd (handle_send_message E run ctx cmd w) = w
     \<and> (fst (handle_send_message E run ctx cmd w) = Cancelled
        \<or> (\<exists>e. fst (handle_send_message E run ctx cmd w) = Fail e
             \<and> err_code e \<in> {InvalidParameter, PermissionDenied, ServiceUnavailable}))"
proof (cases "send_tenant ctx")
  case None
  then show ?thesis by (simp add: handle_send_defs)
next
  case (Some t)
  with assms have "tenant_gate (he_tenant_lookup E t) (he_tenant_policy E) \<noteq> Ok ()"
    by (simp add: tenant_gate_cases(1))
  with Some show ?thesis
    by (cases "tenant_gate (he_tenant_lookup E t) (he_tenant_policy E)")
      (auto simp: handle_send_defs tenant_gate_def split: option.splits cancel_point.splits if_split_asm)
qed

theorem refused_tenant_changes_nothing_witness:
  "snd (handle_send_message example_handler example_run (example_send_ctx ''gone'') example_cmd example_handler_world)
     = example_handler_world"
proof -
  have "send_tenant (example_send_ctx ''gone'') = Some ''gone''" by code_simp
  then show ?thesis
    using refused_tenant_changes_nothing [where ctx = "example_send_ctx ''gone''" and E = example_handler]
    by (simp add: example_handler_def)
qed

text \<open>
  C26: a resend. While the deduplication store holds the first result of a key, a send with that key
  returns that result, with its server id, sequence number and durability, if its fingerprint matches,
  and is refused otherwise; while the first send is still running it is told to retry. In none of the
  cases is a number allocated, an entry logged or anything published.
\<close>

theorem resend_returns_first_result:
  assumes "idempotency_store S view" and "he_idempotency E = Some S"
    and "send_tenant ctx = Some t" and "admits_connection (he_tenant_lookup E t) (he_tenant_policy E)"
    and "send_idempotency_key E ctx t (cmd_message cmd) = Some key"
    and "fp = (case card_post_fingerprint (he_keys E) ctx of Some f \<Rightarrow> f | None \<Rightarrow> [])"
    and "sr_cancel run StTenant = None" and "sr_cancel run StBegin = None"
    and "is_begin S key (hw_idem w) = (Ok b, s')" and "view (hw_idem w) key \<noteq> Free"
  shows "view s' = view (hw_idem w)
     \<and> handle_send_message E run ctx cmd w =
       ((case view (hw_idem w) key of
           Done rec \<Rightarrow> if ir_fingerprint rec = fp then Ret (outcome_of_record rec)
             else Fail (FlareError PermissionDenied ''client message id already used by another send'')
         | _ \<Rightarrow> Fail (FlareError ServiceUnavailable ''duplicate send in progress; retry shortly'')),
        w\<lparr>hw_idem := s'\<rparr>)"
proof -
  from idempotency_store.begin_ok [OF assms(1,9)]
  have b: "b = begin_of_view (view (hw_idem w) key)" and v: "view s' = (view (hw_idem w))(key := view_after_begin (view (hw_idem w) key))"
    by auto
  have gate: "tenant_gate (he_tenant_lookup E t) (he_tenant_policy E) = Ok ()"
    using assms(4) by (simp add: tenant_gate_cases(1))
  have "view s' = view (hw_idem w)"
    using v assms(10) by (cases "view (hw_idem w) key") (auto simp: fun_upd_idem)
  then show ?thesis
    using assms(2,3,5-10) b gate
    by (cases "view (hw_idem w) key")
      (auto simp: handle_send_defs ret_def on_idem_def Let_def outcome_of_record_def)
qed

theorem resend_returns_first_result_witness:
  "fst (handle_send_message example_handler example_run (example_send_ctx ''t1'') example_cmd example_done_world)
     = Ret (outcome_of_record (example_record\<lparr>ir_fingerprint := []\<rparr>))"
proof -
  let ?v = "redis_view mem_redis example_codec" and ?rec = "example_record\<lparr>ir_fingerprint := []\<rparr>"
  have "redis_view mem_redis example_codec (hw_idem example_done_world) = (?v (hw_idem example_handler_world))(example_key := Done ?rec)"
    using example_deployment.idem.commit_ok [of ?rec example_key] example_answering.commit_up
    by (simp add: example_done_world_def prod_eq_iff record_ok_def example_record_def)
  then have view: "?v (hw_idem example_done_world) example_key = Done ?rec" by simp
  have "sum.isl (fst (is_begin example_store example_key (hw_idem example_done_world))) = False" by code_simp
  then obtain b s' where b: "is_begin example_store example_key (hw_idem example_done_world) = (Ok b, s')"
    by (metis prod.collapse sum.collapse(2))
  show ?thesis
    using resend_returns_first_result [OF example_deployment.idem.idempotency_store_axioms example_deployment.store_configured
        example_call(1,3) example_call_key refl, where run = example_run and w = example_done_world, OF _ _ b] view
    by (simp add: example_run_def example_call)
qed

text \<open>
  C4: while the deduplication store answers its commands, a send does not leave the reservation of its
  client message id behind. A send that finds the key free ends, wherever the caller drops it after
  the call of \<open>begin\<close>, with the key committed to its result or free again: committed to exactly the
  returned result when it succeeds, free when it fails, so that a resend is not told "in progress" for
  a send that is over. No other key changes. The drop is one inside the runtime: outside it, in a drop
  inside the call of \<open>begin\<close>, or when the store fails to commit or roll back, the reservation stays until
  its lifetime ends.
\<close>

theorem reservation_always_settled:
  assumes "answering_deployment E S view ents" and "send_tenant ctx = Some t"
    and "send_idempotency_key E ctx t (cmd_message cmd) = Some key"
    and "fp = (case card_post_fingerprint (he_keys E) ctx of Some f \<Rightarrow> f | None \<Rightarrow> [])"
    and "call_texts_ok run fp" and "sr_in_runtime run" and "sr_cancel run StBegin = None"
    and "view (hw_idem w) key = Free" and "handle_send_message E run ctx cmd w = (res, w')"
  shows "(\<forall>k. k \<noteq> key \<longrightarrow> view (hw_idem w') k = view (hw_idem w) k)
     \<and> (case res of Ret out \<Rightarrow> view (hw_idem w') key = Done (record_of out fp)
        | Fail e \<Rightarrow> view (hw_idem w') key = Free
        | Cancelled \<Rightarrow> view (hw_idem w') key \<noteq> Pending)"
  using answering_deployment.handle_send_end [OF assms refl]
  by (cases res) (auto simp: settled_end_def Let_def)

theorem reservation_always_settled_witness:
  "case handle_send_message example_handler (example_run\<lparr>sr_cancel := (\<lambda>s. if s = StPublish then Some AfterEffect else None)\<rparr>)
        (example_send_ctx ''t1'') example_cmd example_handler_world of
     (res, w') \<Rightarrow> (res = Cancelled \<longrightarrow> redis_view mem_redis example_codec (hw_idem w') example_key \<noteq> Pending)"
proof -
  let ?run = "example_run\<lparr>sr_cancel := (\<lambda>s. if s = StPublish then Some AfterEffect else None)\<rparr>"
  obtain res w' where r: "handle_send_message example_handler ?run (example_send_ctx ''t1'') example_cmd example_handler_world = (res, w')"
    by fastforce
  have b: "sr_cancel ?run StBegin = None" by simp
  show ?thesis
    using reservation_always_settled [OF example_answering.answering_deployment_axioms example_call(1) example_call_key refl _
        example_texts(2) b example_free r] example_texts(1)
    unfolding r by (cases res) (simp_all add: example_call)
qed

text \<open>
  C2: what is committed is not lost. When a send that finds its key free, and that the ledger does not
  answer, leaves a result committed for the key, then the result is backed: persisted results by a
  publication for storage, results accepted by the log by the log entry of the message, transient ones
  by a push-only publication; each with the committed server id and sequence number. This holds
  wherever the caller drops the call, inside a runtime or not, whatever the broker answers, and even
  when commands of the deduplication store fail or are applied with their answers lost.
\<close>

theorem committed_result_is_backed:
  assumes "ingest_deployment E S view ents" and "send_tenant ctx = Some t"
    and "send_idempotency_key E ctx t (cmd_message cmd) = Some key"
    and "fp = (case card_post_fingerprint (he_keys E) ctx of Some f \<Rightarrow> f | None \<Rightarrow> [])"
    and "call_texts_ok run fp"
    and "view (hw_idem w) key = Free" and "handle_send_message E run ctx cmd w = (res, w')"
    and "\<forall>out. replay_from_ledger E run t (cmd_message cmd) \<noteq> Ok (Some out)"
    and "view (hw_idem w') key = Done rec"
  shows "case ir_durability rec of
       Persisted \<Rightarrow> \<exists>p \<in> set (iw_published (hw_ingest w')). publication_stores p
           \<and> m_server_id (publication_message p) = ir_server_id rec
           \<and> m_conversation_seq (publication_message p) = ir_conversation_seq rec
     | WalAccepted \<Rightarrow> \<exists>q. ents (iw_wal (hw_ingest w')) (ir_server_id rec) = Some q
           \<and> m_conversation_seq (wp_message q) = ir_conversation_seq rec
     | TransientAccepted \<Rightarrow> \<exists>p \<in> set (iw_published (hw_ingest w')). \<not> publication_stores p
           \<and> m_server_id (publication_message p) = ir_server_id rec
           \<and> m_conversation_seq (publication_message p) = ir_conversation_seq rec
     | _ \<Rightarrow> False"
proof -
  have "backed ents (hw_ingest w') rec"
    using ingest_deployment.handle_send_moves [OF assms(1-7) refl assms(9)] assms(8) by (simp add: rests_on_def)
  then show ?thesis
    by (cases "ir_durability rec") (auto simp: backed_def published_as_def logged_as_def)
qed

theorem committed_result_is_backed_witness:
  "\<exists>out. case handle_send_message example_handler example_run (example_send_ctx ''t1'') example_cmd example_handler_world of
     (res, w') \<Rightarrow> res = Ret out
       \<and> (out_durability out = WalAccepted \<longrightarrow> wal_entries plain_codec (iw_wal (hw_ingest w')) (out_message_id out) \<noteq> None)"
proof -
  obtain out w' where r: "handle_send_message example_handler example_run (example_send_ctx ''t1'') example_cmd example_handler_world
      = (Ret out, w')" using example_send_returns by blast
  note h = example_call(1) example_call_key refl
  have texts: "call_texts_ok example_run []" "sr_in_runtime example_run" "sr_cancel example_run StBegin = None"
    using example_texts [of "sr_cancel example_run"] by (simp_all add: example_run_def)
  have "redis_view mem_redis example_codec (hw_idem w') example_key = Done (record_of out [])"
    using example_answering.handle_send_end [OF h _ texts(2,3) example_free r refl] texts(1)
    by (simp add: settled_end_def example_call Let_def)
  with committed_result_is_backed [OF example_deployment.ingest_deployment_axioms h _ example_free r] texts(1) r show ?thesis
    by (fastforce simp: example_call example_no_ledger record_of_def)
qed

text \<open>
  C16: a send publishes its own message and nothing else. Whatever the hooks return, and wherever the
  call ends, at most one publication is added, with the id the server drew for this call and in the
  conversation the command named: a hook cannot move a message to another conversation. The decorator,
  the last collaborator that sees the message, is taken to keep its server id and conversation.
\<close>

theorem one_publication_per_send:
  assumes "decorator_keeps_identity E" and "handle_send_message E run ctx cmd w = (res, w')"
  shows "iw_published (hw_ingest w') = iw_published (hw_ingest w)
     \<or> (\<exists>p. iw_published (hw_ingest w') = p # iw_published (hw_ingest w)
          \<and> m_server_id (publication_message p) = sr_uuid run
          \<and> m_conversation_id (publication_message p) = m_conversation_id (cmd_message cmd))"
proof -
  let ?N = "sent_only (hw_ingest w) (sr_uuid run) (m_conversation_id (cmd_message cmd))"
  have U: "unsent (hw_ingest w) w" by (simp add: unsent_def)
  consider "hw_ingest w' = hw_ingest w"
    | t lookup where "limited_send E run ctx cmd t lookup w = (res, w')"
    | t lookup S fp v w2 where "reserved_send E run ctx cmd t lookup S fp v = (res, w2)" "hw_ingest v = hw_ingest w"
        "w' = drop_reservation S run w2"
    using assms(2)
    by (auto simp: handle_send_defs ret_def on_idem_def Let_def
        split: option.splits cancel_point.splits sum.splits prod.splits idempotency_begin.splits if_split_asm)
  then have "?N w'"
  proof cases
    case 1
    then show ?thesis by (simp add: sent_only_def)
  next
    case 2
    then show ?thesis by (rule limited_send_sent [OF assms(1) U])
  next
    case 3
    then have "?N w2" by (intro reserved_send_sent [OF assms(1) _ 3(1)]) (simp add: unsent_def)
    with 3(3) show ?thesis by (simp add: sent_only_def)
  qed
  then show ?thesis by (simp add: sent_only_def)
qed

theorem one_publication_per_send_witness:
  "case handle_send_message example_handler example_run (example_send_ctx ''t1'') example_cmd example_handler_world of
     (res, w') \<Rightarrow> length (iw_published (hw_ingest w')) \<le> 1"
proof -
  have "decorator_keeps_identity example_handler" by (simp add: decorator_keeps_identity_def example_handler_def)
  from one_publication_per_send [OF this] show ?thesis
    by (fastforce simp: example_handler_world_def split: prod.splits)
qed

text \<open>
  C27: a broker outage does not fail a send. When nobody drops the call, the tenant is admitted, the key
  is new, the limiter, the checks and the hooks let a stored message through, and the conversation
  service, the counter and the log answer, then the send returns a result with the drawn server id and
  a durable level, whatever the broker answers and however long it takes.
\<close>

theorem send_acknowledged_despite_broker:
  assumes "\<forall>st. sr_cancel run st = None" and "send_tenant ctx = Some t"
    and "admits_connection (he_tenant_lookup E t) (he_tenant_policy E)"
    and "key_is_new E run ctx cmd t (hw_idem w)" and "limiter_admits E run cmd t (hw_limiter w)"
    and "stages_accept E run ctx cmd t sub" and "services_up E run ctx t sub d w" and "stored_message d"
  shows "\<exists>out w'. handle_send_message E run ctx cmd w = (Ret out, w')
     \<and> out_message_id out = sr_uuid run \<and> out_durability out \<in> {Persisted, WalAccepted}"
  using handle_send_returns [OF spec [OF assms(1)] assms(2-8)] by (simp add: returns_def acknowledged_def)

theorem send_acknowledged_despite_broker_witness:
  "\<exists>out w'. handle_send_message example_handler example_run (example_send_ctx ''t1'') example_cmd example_handler_world = (Ret out, w')
     \<and> out_message_id out = ''srv-1''"
  using send_acknowledged_despite_broker [OF _ example_admitted] by (fastforce simp: example_uncancelled)

end
