(* ===== verification/Write_Proof.thy ===== *)
theory Write_Proof
  imports Ingest_Handler "HOL-Library.Countable"
begin

text \<open>
  Provenance of machine messages (\<^verbatim>\<open>crates/flare-im-service-kit/src/audit_effects/write_proof.rs\<close>): the
  producer signs a receipt that binds the finished message to the verified machine call, the log
  keeps the token, and the storage writer checks it again. Base64, JSON, SHA-256, Ed25519 and the generated
  protobuf encoder are parameters; \<open>proof_lib_ok\<close> is what the code relies on.
\<close>

section \<open>The libraries\<close>

record receipt =
  rcp_app :: string
  rcp_request_id :: string
  rcp_actor :: string
  rcp_key :: string
  rcp_scope :: string
  rcp_message_id :: string
  rcp_conversation :: string
  rcp_digest :: string

record ('sk, 'vk, 'sig) proof_lib =
  pl_b64 :: "string \<Rightarrow> string"
  pl_unb64 :: "string \<Rightarrow> string option"
  pl_receipt_json :: "receipt \<Rightarrow> string option"
  pl_receipt_parse :: "string \<Rightarrow> receipt option"
  pl_encode :: "message \<Rightarrow> string"
  pl_parts_json :: "string \<Rightarrow> (string \<rightharpoonup> string) \<Rightarrow> (string \<rightharpoonup> string) \<Rightarrow> (string \<rightharpoonup> string) \<Rightarrow>
     (string \<rightharpoonup> string) option \<Rightarrow> string option"
  pl_sha256_hex :: "string \<Rightarrow> string"
  pl_sign :: "'sk \<Rightarrow> string \<Rightarrow> 'sig"
  pl_verify :: "'vk \<Rightarrow> string \<Rightarrow> 'sig \<Rightarrow> bool"
  pl_sig_bytes :: "'sig \<Rightarrow> string"
  pl_sig_from_slice :: "string \<Rightarrow> 'sig option"

definition proof_lib_ok :: "('sk, 'vk, 'sig) proof_lib \<Rightarrow> 'sk \<Rightarrow> 'vk \<Rightarrow> bool" where
  "proof_lib_ok L sk vk \<longleftrightarrow>
     (\<forall>b. pl_unb64 L (pl_b64 L b) = Some b \<and> CHR ''.'' \<notin> set (pl_b64 L b))
     \<and> (\<forall>r j. pl_receipt_json L r = Some j \<longrightarrow> pl_receipt_parse L j = Some r)
     \<and> (\<forall>s. pl_sig_from_slice L (pl_sig_bytes L s) = Some s)
     \<and> (\<forall>b. pl_verify L vk b (pl_sign L sk b))"

section \<open>Receipts\<close>

definition WRITE_PROOF_HEADER :: string where "WRITE_PROOF_HEADER = ''x-flare-write-proof''"

definition PROOF_DOMAIN :: string where
  "PROOF_DOMAIN = ''flare.writer.machine.commit.v1'' @ [CHR 0x00]"

definition requires_proof :: "message \<Rightarrow> bool" where
  "requires_proof m =
     (case m_content m of
        Some (Some (SystemContent event_kind body attributes payload)) \<Rightarrow> starts_with event_kind ''platform.''
      | _ \<Rightarrow> False)"

definition strip_maps :: "message \<Rightarrow> message" where
  "strip_maps m =
     m\<lparr>m_attributes := Map.empty, m_extensions := Map.empty,
       m_retention_policy := map_option (\<lambda>p. p\<lparr>rp_attributes := Map.empty\<rparr>) (m_retention_policy m),
       m_content := (case m_content m of
          Some (Some (SystemContent k b a p)) \<Rightarrow> Some (Some (SystemContent k b Map.empty p)) | c \<Rightarrow> c)\<rparr>"

definition digest :: "('sk, 'vk, 'sig) proof_lib \<Rightarrow> message \<Rightarrow> string + string" where
  "digest L m =
     (case m_content m of
        Some (Some (SystemContent event_kind body system_attributes payload)) \<Rightarrow>
          (case pl_parts_json L (pl_b64 L (pl_encode L (strip_maps m))) (m_attributes m) (m_extensions m)
                  system_attributes (map_option rp_attributes (m_retention_policy m)) of
             None \<Rightarrow> Inl ''invalid proof message''
           | Some bytes \<Rightarrow> Inr (pl_sha256_hex L bytes))
      | _ \<Rightarrow> Inl ''system write proof required'')"

text \<open>
  A call context: its tenant and user, the verified claims and the recovered proof it carries as data, and the
  headers \<^verbatim>\<open>context_to_mq_metadata\<close> writes for it.
\<close>

record recovered_write =
  rw_verified :: receipt
  rw_token :: string

record mq_ctx =
  mx_tenant_id :: "string option"
  mx_user_id :: "string option"
  mx_claims :: "signed_claims option"
  mx_recovered :: "recovered_write option"
  mx_metadata :: "string \<rightharpoonup> string"

definition machine_claims :: "key_ids \<Rightarrow> mq_ctx \<Rightarrow> signed_claims option" where
  "machine_claims K ctx =
     (case mx_claims ctx of None \<Rightarrow> None | Some c \<Rightarrow> if is_platform_system_sender K c then Some c else None)"

definition receipt_for :: "signed_claims \<Rightarrow> string \<Rightarrow> message \<Rightarrow> string \<Rightarrow> receipt" where
  "receipt_for claims key m d =
     \<lparr>rcp_app = cl_tenant_id claims, rcp_request_id = cl_request_id claims, rcp_actor = cl_actor_id claims,
      rcp_key = key, rcp_scope = SYSTEM_MESSAGE_SCOPE, rcp_message_id = m_server_id m,
      rcp_conversation = m_conversation_id m, rcp_digest = d\<rparr>"

definition stamp :: "('sk, 'vk, 'sig) proof_lib \<Rightarrow> key_ids \<Rightarrow> 'sk \<Rightarrow> mq_ctx \<Rightarrow> message \<Rightarrow> string + string" where
  "stamp L K sk ctx m =
     (case machine_claims K ctx of
        None \<Rightarrow> Inl ''verified machine required for write proof''
      | Some claims \<Rightarrow>
          if \<not> requires_proof m \<or> m_sender_id m \<noteq> cl_actor_id claims \<or> m_server_id m = []
          then Inl ''write proof message mismatch''
          else (case cl_credential_id claims of
                  None \<Rightarrow> Inl ''machine key missing''
                | Some key \<Rightarrow>
                    (case digest L m of
                       Inl e \<Rightarrow> Inl e
                     | Inr d \<Rightarrow>
                         (case pl_receipt_json L (receipt_for claims key m d) of
                            None \<Rightarrow> Inl ''write proof serialization failed''
                          | Some body \<Rightarrow>
                              Inr (pl_b64 L body @ ''.'' @
                                   pl_b64 L (pl_sig_bytes L (pl_sign L sk (PROOF_DOMAIN @ body))))))))"

definition MAX_PROOF_BYTES :: nat where "MAX_PROOF_BYTES = 8192"

text \<open>\<^verbatim>\<open>split_once('.')\<close>: before and after the first dot.\<close>

definition split_once :: "char \<Rightarrow> string \<Rightarrow> (string \<times> string) option" where
  "split_once c s = (if c \<in> set s then Some (takeWhile (\<lambda>x. x \<noteq> c) s, tl (dropWhile (\<lambda>x. x \<noteq> c) s)) else None)"

definition verify :: "('sk, 'vk, 'sig) proof_lib \<Rightarrow> 'vk \<Rightarrow> string \<Rightarrow> string \<Rightarrow> message \<Rightarrow> string + receipt" where
  "verify L vk token app m =
     (if length token > MAX_PROOF_BYTES then Inl ''write proof too large''
      else (case split_once CHR ''.'' token of
        None \<Rightarrow> Inl ''invalid write proof''
      | Some (body64, sig64) \<Rightarrow>
          (case (pl_unb64 L body64, Option.bind (pl_unb64 L sig64) (pl_sig_from_slice L)) of
             (Some body, Some sig) \<Rightarrow>
               if \<not> pl_verify L vk (PROOF_DOMAIN @ body) sig then Inl ''invalid write proof signature''
               else (case pl_receipt_parse L body of
                       None \<Rightarrow> Inl ''invalid write proof body''
                     | Some r \<Rightarrow>
                         if rcp_app r \<noteq> app \<or> app = [] \<or> app = ''*'' \<or> rcp_actor r \<noteq> m_sender_id m
                            \<or> rcp_message_id r \<noteq> m_server_id m \<or> rcp_conversation r \<noteq> m_conversation_id m
                         then Inl ''write proof binding mismatch''
                         else (case digest L m of
                                 Inl e \<Rightarrow> Inl e
                               | Inr d \<Rightarrow>
                                   if rcp_digest r \<noteq> d \<or> rcp_scope r \<noteq> SYSTEM_MESSAGE_SCOPE \<or> \<not> requires_proof m
                                   then Inl ''write proof binding mismatch'' else Inr r))
           | _ \<Rightarrow> Inl ''invalid write proof'')))"

definition recover :: "('sk, 'vk, 'sig) proof_lib \<Rightarrow> 'vk \<Rightarrow> string \<Rightarrow> string \<Rightarrow> message \<Rightarrow> string + recovered_write" where
  "recover L vk token app m =
     (case verify L vk token app m of
        Inl e \<Rightarrow> Inl e | Inr r \<Rightarrow> Inr \<lparr>rw_verified = r, rw_token = token\<rparr>)"

definition queue_headers :: "('sk, 'vk, 'sig) proof_lib \<Rightarrow> key_ids \<Rightarrow> mq_ctx \<Rightarrow> message \<Rightarrow> 'sk option \<Rightarrow>
     (string \<rightharpoonup> string) \<Rightarrow> string + (string \<rightharpoonup> string)" where
  "queue_headers L K ctx m signer headers =
     (let headers = headers(WRITE_PROOF_HEADER := None) in
      if requires_proof m then
        (case mx_recovered ctx of
           Some rec \<Rightarrow>
             if mx_tenant_id ctx \<noteq> Some (rcp_app (rw_verified rec)) then Inl ''recovered write binding mismatch''
             else (case digest L m of
                     Inl e \<Rightarrow> Inl e
                   | Inr d \<Rightarrow> if rcp_digest (rw_verified rec) \<noteq> d then Inl ''recovered write binding mismatch''
                       else Inr (headers(WRITE_PROOF_HEADER \<mapsto> rw_token rec)))
         | None \<Rightarrow>
             (case signer of
                None \<Rightarrow> Inl ''machine write proof signer unavailable''
              | Some sk \<Rightarrow>
                  (case stamp L K sk ctx m of
                     Inl e \<Rightarrow> Inl e | Inr token \<Rightarrow> Inr (headers(WRITE_PROOF_HEADER \<mapsto> token)))))
      else Inr headers)"

section \<open>Collision freedom\<close>

definition system_attributes :: "message \<Rightarrow> (string \<rightharpoonup> string) option" where
  "system_attributes m =
     (case m_content m of Some (Some (SystemContent k b a p)) \<Rightarrow> Some a | _ \<Rightarrow> None)"

definition finite_maps :: "message \<Rightarrow> bool" where
  "finite_maps m \<longleftrightarrow> finite (dom (m_attributes m)) \<and> finite (dom (m_extensions m))
     \<and> (\<forall>a. system_attributes m = Some a \<longrightarrow> finite (dom a))
     \<and> (\<forall>p. m_retention_policy m = Some p \<longrightarrow> finite (dom (rp_attributes p)))"

text \<open>
  SHA-256, JSON and the protobuf encoding tell different inputs apart (hash maps are finite; the
  encoder is only applied to system messages whose maps were taken out).
\<close>

fun finite_parts :: "string \<times> (string \<rightharpoonup> string) \<times> (string \<rightharpoonup> string) \<times> (string \<rightharpoonup> string) \<times> (string \<rightharpoonup> string) option \<Rightarrow> bool" where
  "finite_parts (e, a, x, s, r) \<longleftrightarrow> finite (dom a) \<and> finite (dom x) \<and> finite (dom s) \<and> (\<forall>q. r = Some q \<longrightarrow> finite (dom q))"

fun parts_json :: "('sk, 'vk, 'sig) proof_lib \<Rightarrow>
     string \<times> (string \<rightharpoonup> string) \<times> (string \<rightharpoonup> string) \<times> (string \<rightharpoonup> string) \<times> (string \<rightharpoonup> string) option \<Rightarrow> string option" where
  "parts_json L (e, a, x, s, r) = pl_parts_json L e a x s r"

definition collision_free :: "('sk, 'vk, 'sig) proof_lib \<Rightarrow> bool" where
  "collision_free L \<longleftrightarrow> inj (pl_sha256_hex L) \<and> inj (pl_b64 L)
     \<and> inj_on (pl_encode L) {strip_maps m | m. system_attributes m \<noteq> None}
     \<and> inj_on (parts_json L) {p. finite_parts p \<and> parts_json L p \<noteq> None}"

section \<open>What a receipt binds\<close>

lemma split_once_append: "c \<notin> set a \<Longrightarrow> split_once c (a @ c # b) = Some (a, b)"
  by (auto simp: split_once_def takeWhile_append dropWhile_append)

lemma digest_System: "digest L m = Inr d \<Longrightarrow> \<exists>k b a p. m_content m = Some (Some (SystemContent k b a p))"
  by (auto simp: digest_def split: option.splits content.splits)

lemma requires_proof_System: "requires_proof m \<Longrightarrow> \<exists>k b a p. m_content m = Some (Some (SystemContent k b a p))"
  by (auto simp: requires_proof_def split: option.splits content.splits)

lemma stamp_Inr:
  assumes "stamp L K sk ctx m = Inr token"
  obtains claims key d body where "machine_claims K ctx = Some claims" "requires_proof m"
    "m_sender_id m = cl_actor_id claims" "m_server_id m \<noteq> []" "cl_credential_id claims = Some key"
    "digest L m = Inr d" "pl_receipt_json L (receipt_for claims key m d) = Some body"
    "token = pl_b64 L body @ ''.'' @ pl_b64 L (pl_sig_bytes L (pl_sign L sk (PROOF_DOMAIN @ body)))"
  using assms by (auto simp: stamp_def split: option.splits if_split_asm sum.splits)

lemma verify_Inr:
  assumes "verify L vk token app m = Inr r"
  shows "rcp_app r = app \<and> app \<noteq> [] \<and> app \<noteq> ''*'' \<and> rcp_actor r = m_sender_id m \<and> rcp_message_id r = m_server_id m
    \<and> rcp_conversation r = m_conversation_id m \<and> digest L m = Inr (rcp_digest r)
    \<and> rcp_scope r = SYSTEM_MESSAGE_SCOPE \<and> requires_proof m"
  using assms by (auto simp: verify_def split: if_split_asm option.splits prod.splits sum.splits)

lemma verify_receipt_unique: "verify L vk token app m = Inr r \<Longrightarrow> verify L vk token app' m' = Inr r' \<Longrightarrow> r = r'"
  by (auto simp: verify_def split: if_split_asm option.splits prod.splits sum.splits)

lemma strip_maps_inject:
  assumes "strip_maps m = strip_maps m'" "m_attributes m = m_attributes m'" "m_extensions m = m_extensions m'"
    and c: "m_content m = Some (Some (SystemContent k b a p))" "m_content m' = Some (Some (SystemContent k' b' a p'))"
    and r: "map_option rp_attributes (m_retention_policy m) = map_option rp_attributes (m_retention_policy m')"
  shows "m = m'"
proof -
  have "map_option (rp_attributes_update (\<lambda>_. Map.empty)) (m_retention_policy m)
      = map_option (rp_attributes_update (\<lambda>_. Map.empty)) (m_retention_policy m')"
    using arg_cong [OF assms(1), of m_retention_policy] by (simp add: strip_maps_def)
  with r have "m_retention_policy m = m_retention_policy m'"
    by (cases "m_retention_policy m"; cases "m_retention_policy m'"; cases "the (m_retention_policy m)";
        cases "the (m_retention_policy m')") auto
  then show ?thesis
    using assms(1-3) c unfolding strip_maps_def by (cases m; cases m') auto
qed

lemma digest_inject:
  assumes L: "collision_free L" and fin: "finite_maps m" "finite_maps m'"
    and d: "digest L m = Inr d" "digest L m' = Inr d"
  shows "m = m'"
proof -
  from digest_System [OF d(1)] digest_System [OF d(2)] obtain k b a p k' b' a' p'
    where c: "m_content m = Some (Some (SystemContent k b a p))" "m_content m' = Some (Some (SystemContent k' b' a' p'))"
    by blast
  let ?p = "\<lambda>m a. (pl_b64 L (pl_encode L (strip_maps m)), m_attributes m, m_extensions m, a,
       map_option rp_attributes (m_retention_policy m))"
  from d c L obtain j where j: "parts_json L (?p m a) = Some j" "parts_json L (?p m' a') = Some j"
    by (auto simp: digest_def collision_free_def inj_eq split: option.splits)
  have fp: "finite_parts (?p m a)" "finite_parts (?p m' a')"
    using fin c by (auto simp: finite_maps_def system_attributes_def)
  have "?p m a = ?p m' a'"
    by (rule inj_onD [of "parts_json L" "{p. finite_parts p \<and> parts_json L p \<noteq> None}"])
      (use L j fp in \<open>auto simp: collision_free_def simp del: finite_parts.simps parts_json.simps\<close>)
  then have eq: "pl_b64 L (pl_encode L (strip_maps m)) = pl_b64 L (pl_encode L (strip_maps m'))"
      "m_attributes m = m_attributes m'" "m_extensions m = m_extensions m'" "a = a'"
      "map_option rp_attributes (m_retention_policy m) = map_option rp_attributes (m_retention_policy m')"
    by simp_all
  have "strip_maps m = strip_maps m'"
  proof (rule inj_onD [of "pl_encode L"])
    show "inj_on (pl_encode L) {strip_maps m | m. system_attributes m \<noteq> None}" using L by (simp add: collision_free_def)
    show "pl_encode L (strip_maps m) = pl_encode L (strip_maps m')"
      using eq(1) L by (simp add: collision_free_def inj_eq)
  qed (use c in \<open>auto simp: system_attributes_def\<close>)
  then show ?thesis using strip_maps_inject [of m m' k b a p k' b' p'] c eq by simp
qed

lemma stamp_verify:
  assumes L: "proof_lib_ok L sk vk" and s: "stamp L K sk ctx m = Inr token" and n: "length token \<le> MAX_PROOF_BYTES"
    and app: "machine_claims K ctx = Some claims" "cl_tenant_id claims \<notin> {[], ''*''}"
  shows "\<exists>key d. verify L vk token (cl_tenant_id claims) m = Inr (receipt_for claims key m d)
     \<and> cl_credential_id claims = Some key"
proof (rule stamp_Inr [OF s])
  fix claims' key d body
  assume c: "machine_claims K ctx = Some claims'" and m: "requires_proof m" "m_sender_id m = cl_actor_id claims'"
    "m_server_id m \<noteq> []" "cl_credential_id claims' = Some key" and d: "digest L m = Inr d"
    and j: "pl_receipt_json L (receipt_for claims' key m d) = Some body"
    and t: "token = pl_b64 L body @ ''.'' @ pl_b64 L (pl_sig_bytes L (pl_sign L sk (PROOF_DOMAIN @ body)))"
  have "split_once CHR ''.'' token = Some (pl_b64 L body, pl_b64 L (pl_sig_bytes L (pl_sign L sk (PROOF_DOMAIN @ body))))"
    using L t by (simp add: proof_lib_ok_def split_once_append)
  moreover have "pl_receipt_parse L body = Some (receipt_for claims key m d)"
    using L j c app(1) by (simp add: proof_lib_ok_def)
  ultimately show ?thesis
    using L n m d app c by (auto simp: verify_def proof_lib_ok_def receipt_for_def)
qed

section \<open>A library instance\<close>

definition hex_char :: "nat \<Rightarrow> char" where "hex_char n = char_of (n + 65)"

definition hex_encode :: "string \<Rightarrow> string" where
  "hex_encode s = concat (map (\<lambda>c. [hex_char (of_char c div 16), hex_char (of_char c mod 16)]) s)"

fun hex_decode :: "string \<Rightarrow> string option" where
  "hex_decode [] = Some []"
| "hex_decode (a # b # s) = map_option (Cons (char_of ((of_char a - 65) * 16 + (of_char b - 65) :: nat))) (hex_decode s)"
| "hex_decode [a] = None"

lemma of_hex_char: "n < 16 \<Longrightarrow> (of_char (hex_char n) :: nat) = n + 65"
  by (simp add: hex_char_def of_char_of)

lemma hex_roundtrip: "hex_decode (hex_encode s) = Some s"
proof (induction s)
  case (Cons c s)
  have "(of_char c :: nat) div 16 < 16" using nat_of_char_less_256 [of c] by linarith
  then show ?case using Cons by (simp add: hex_encode_def of_hex_char)
qed (simp add: hex_encode_def)

lemma hex_encode_chars: "c \<in> set (hex_encode s) \<Longrightarrow> 65 \<le> (of_char c :: nat)"
proof -
  have "(of_char d :: nat) div 16 < 16" for d using nat_of_char_less_256 [of d] by linarith
  then show "c \<in> set (hex_encode s) \<Longrightarrow> ?thesis" by (auto simp: hex_encode_def of_hex_char)
qed

lemma hex_encode_special: "c \<in> {CHR ''.'', CHR '',''} \<Longrightarrow> c \<notin> set (hex_encode s)"
  using hex_encode_chars [of c s] by auto

definition receipt_fields :: "receipt \<Rightarrow> string list" where
  "receipt_fields r = [rcp_app r, rcp_request_id r, rcp_actor r, rcp_key r, rcp_scope r, rcp_message_id r, rcp_conversation r,
     rcp_digest r]"

fun receipt_of_fields :: "string option list \<Rightarrow> receipt option" where
  "receipt_of_fields [Some a, Some q, Some u, Some k, Some s, Some i, Some c, Some d] =
     Some \<lparr>rcp_app = a, rcp_request_id = q, rcp_actor = u, rcp_key = k, rcp_scope = s, rcp_message_id = i,
       rcp_conversation = c, rcp_digest = d\<rparr>"
| "receipt_of_fields _ = None"

definition plain_proof_lib :: "(string, string, string) proof_lib" where
  "plain_proof_lib = \<lparr>pl_b64 = hex_encode, pl_unb64 = hex_decode,
     pl_receipt_json = (\<lambda>r. Some (concat (map (\<lambda>f. hex_encode f @ '','') (receipt_fields r)))),
     pl_receipt_parse = (\<lambda>j. receipt_of_fields (map hex_decode (butlast (split_by (\<lambda>c. c = CHR '','') j)))),
     pl_encode = (\<lambda>m. m_server_id m @ ''/'' @ m_channel_id m), pl_parts_json = (\<lambda>e a x s r. Some e), pl_sha256_hex = id,
     pl_sign = (\<lambda>k b. k @ take 8 b), pl_verify = (\<lambda>k b s. s = k @ take 8 b), pl_sig_bytes = id, pl_sig_from_slice = Some\<rparr>"

lemma hex_comma: "\<forall>c \<in> set (hex_encode f). c \<noteq> CHR '',''"
  using hex_encode_special [of "CHR '',''" f] by auto

lemma split_fields:
  "split_by (\<lambda>c. c = CHR '','') (concat (map (\<lambda>f. hex_encode f @ '','') fs)) = map hex_encode fs @ [[]]"
  by (induction fs) (simp_all add: split_by_append_sep hex_comma)

lemma plain_proof_lib_ok: "proof_lib_ok plain_proof_lib k k"
proof -
  have "receipt_of_fields (map hex_decode (map hex_encode (receipt_fields r))) = Some r" for r
    by (simp add: receipt_fields_def hex_roundtrip)
  then show ?thesis
    by (simp add: proof_lib_ok_def plain_proof_lib_def hex_roundtrip hex_encode_special split_fields butlast_append
        del: map_map)
qed

text \<open>An injective instance: the encoder numbers the stripped messages, a finite map is numbered by a list.\<close>

instance message_type :: countable by countable_datatype

instance retention_mode :: countable by countable_datatype

instance retention_lifecycle :: countable by countable_datatype

definition map_pairs :: "(string \<rightharpoonup> string) \<Rightarrow> (string \<times> string) list" where
  "map_pairs m = (SOME xs. map_of xs = m)"

lemma finite_map_list: "finite (dom m) \<Longrightarrow> \<exists>xs. map_of xs = m"
proof (induction m rule: finite_Map_induct)
  case empty
  have "map_of [] = Map.empty" by simp
  then show ?case by (rule exI)
next
  case (update k v m)
  then obtain xs where "map_of xs = m" by blast
  then have "map_of ((k, v) # xs) = m(k \<mapsto> v)" by simp
  then show ?case by (rule exI)
qed

lemma map_of_map_pairs: "finite (dom m) \<Longrightarrow> map_of (map_pairs m) = m"
  unfolding map_pairs_def by (rule someI_ex) (rule finite_map_list)

lemma map_pairs_inject: "finite (dom m) \<Longrightarrow> finite (dom m') \<Longrightarrow> map_pairs m = map_pairs m' \<Longrightarrow> m = m'"
  by (metis map_of_map_pairs)

lemma map_option_pairs_inject:
  "map_option map_pairs r = map_option map_pairs r' \<Longrightarrow> \<forall>q. r = Some q \<longrightarrow> finite (dom q) \<Longrightarrow>
     \<forall>q. r' = Some q \<longrightarrow> finite (dom q) \<Longrightarrow> r = r'"
  by (cases r; cases r') (auto dest: map_pairs_inject)

definition plain_parts :: "message \<Rightarrow> (string \<times> string \<times> string \<times> string \<times> string \<times> int \<times> int \<times> int \<times> message_type) \<times>
     (string \<times> string \<times> string) option \<times> (nat \<times> nat option \<times> int) \<times> (retention_mode \<times> bool \<times> int option \<times> int option \<times> bool) option \<times>
     ((retention_lifecycle \<times> int \<times> int option \<times> int option \<times> int option \<times> int option \<times> string option) option \<times>
       string \<times> string \<times> string option \<times> string option)" where
  "plain_parts m = ((m_server_id m, m_client_msg_id m, m_conversation_id m, m_sender_id m, m_channel_id m, m_source m,
       m_conversation_type m, m_status m, m_message_type m),
     (case m_content m of Some (Some (SystemContent k b a p)) \<Rightarrow> Some (k, b, p) | _ \<Rightarrow> None),
     (m_conversation_seq m, m_message_seq m, m_created_at m),
     map_option (\<lambda>p. (rp_mode p, rp_trigger_after_read p, rp_expire_after_seconds p, rp_expire_at p,
        rp_visibility_redacted p)) (m_retention_policy m),
     (map_option (\<lambda>r. (rt_lifecycle r, rt_content_visibility r, rt_first_triggered_at r, rt_expire_at r, rt_expired_at r,
        rt_purged_at r, rt_triggered_by_user_id r)) (m_retention_state m), m_sender_name m, m_sender_avatar m, m_thread_id m, m_offline_push_info m))"


definition numbered_proof_lib :: "receipt \<Rightarrow> (string, string, string) proof_lib" where
  "numbered_proof_lib r = plain_proof_lib\<lparr>pl_encode := (\<lambda>m. to_decimal (to_nat (plain_parts m))),
     pl_parts_json := (\<lambda>e a x s q. Some (to_decimal (to_nat (e, map_pairs a, map_pairs x, map_pairs s, map_option map_pairs q)))),
     pl_receipt_parse := (\<lambda>j. Some r)\<rparr>"

lemma inj_hex_encode: "inj hex_encode"
  by (rule injI) (metis hex_roundtrip option.inject)

lemma plain_parts_inject:
  assumes "system_attributes m \<noteq> None" "system_attributes m' \<noteq> None" "plain_parts (strip_maps m) = plain_parts (strip_maps m')"
  shows "strip_maps m = strip_maps m'"
proof -
  have c: "\<exists>k b p. m_content (strip_maps m) = Some (Some (SystemContent k b Map.empty p))"
    if "system_attributes m \<noteq> None" for m
    using that by (auto simp: strip_maps_def system_attributes_def split: option.splits content.splits)
  from c [OF assms(1)] c [OF assms(2)] assms(3) have content: "m_content (strip_maps m) = m_content (strip_maps m')"
    by (auto simp: plain_parts_def)
  have attrs: "m_attributes (strip_maps n) = Map.empty" "m_extensions (strip_maps n) = Map.empty"
    "p \<in> set_option (m_retention_policy (strip_maps n)) \<Longrightarrow> rp_attributes p = Map.empty" for n p
    by (auto simp: strip_maps_def)
  have "m_retention_policy (strip_maps m) = m_retention_policy (strip_maps m')"
    using assms(3) attrs(3) [of "the (m_retention_policy (strip_maps m))" m]
      attrs(3) [of "the (m_retention_policy (strip_maps m'))" m']
    by (cases "m_retention_policy (strip_maps m)"; cases "m_retention_policy (strip_maps m')";
        cases "the (m_retention_policy (strip_maps m))"; cases "the (m_retention_policy (strip_maps m'))")
      (auto simp: plain_parts_def)
  moreover have "m_retention_state (strip_maps m) = m_retention_state (strip_maps m')"
    using assms(3) by (cases "m_retention_state (strip_maps m)"; cases "m_retention_state (strip_maps m')";
        cases "the (m_retention_state (strip_maps m))"; cases "the (m_retention_state (strip_maps m'))")
      (auto simp: plain_parts_def)
  ultimately show ?thesis using content attrs(1,2) assms(3)
    by (intro message.equality) (simp_all add: plain_parts_def)
qed

lemma numbered_collision_free: "collision_free (numbered_proof_lib r)"
proof -
  have "inj_on (pl_encode (numbered_proof_lib r)) {strip_maps m | m. system_attributes m \<noteq> None}"
    by (rule inj_onI) (use plain_parts_inject in \<open>fastforce simp: numbered_proof_lib_def to_decimal_inject\<close>)
  moreover have "inj_on (parts_json (numbered_proof_lib r)) {p. finite_parts p \<and> parts_json (numbered_proof_lib r) p \<noteq> None}"
  proof (rule inj_onI)
    fix p p'
    assume "p \<in> {p. finite_parts p \<and> parts_json (numbered_proof_lib r) p \<noteq> None}"
      "p' \<in> {p. finite_parts p \<and> parts_json (numbered_proof_lib r) p \<noteq> None}"
      "parts_json (numbered_proof_lib r) p = parts_json (numbered_proof_lib r) p'"
    then show "p = p'"
      using map_pairs_inject by (cases p rule: finite_parts.cases; cases p' rule: finite_parts.cases)
        (auto simp: numbered_proof_lib_def to_decimal_inject dest: map_option_pairs_inject)
  qed
  ultimately show ?thesis
    by (simp add: collision_free_def inj_hex_encode) (simp add: numbered_proof_lib_def plain_proof_lib_def inj_hex_encode)
qed

section \<open>Properties\<close>

text \<open>
  What the producer signs, the checker accepts. A token stamped on a machine message verifies for
  the tenant of the signed call and that message, and the receipt names the machine, its credential,
  the message and its conversation, as long as the token fits the checker's size limit.
\<close>

theorem stamped_proof_verifies:
  assumes "proof_lib_ok L sk vk" and "stamp L K sk ctx m = Inr token" and "length token \<le> MAX_PROOF_BYTES"
    and "mx_claims ctx = Some claims" and "cl_tenant_id claims \<notin> {[], ''*''}"
  shows "\<exists>r. verify L vk token (cl_tenant_id claims) m = Inr r
     \<and> is_platform_system_sender K claims \<and> rcp_actor r = cl_actor_id claims \<and> rcp_message_id r = m_server_id m
     \<and> rcp_conversation r = m_conversation_id m \<and> cl_credential_id claims = Some (rcp_key r)"
proof -
  from stamp_Inr [OF assms(2)] obtain claims' where "machine_claims K ctx = Some claims'" by metis
  with assms(4) have m: "machine_claims K ctx = Some claims" "is_platform_system_sender K claims"
    by (auto simp: machine_claims_def split: if_split_asm)
  from stamp_verify [OF assms(1-3) m(1) assms(5)] obtain key' d' where
    "verify L vk token (cl_tenant_id claims) m = Inr (receipt_for claims key' m d')" "cl_credential_id claims = Some key'"
    by blast
  with m show ?thesis by (simp add: receipt_for_def)
qed

definition machine_example_claims :: signed_claims where
  "machine_example_claims = \<lparr>cl_actor_type = ActorService, cl_actor_id = ''ops-bot'', cl_tenant_id = ''t1'',
     cl_roles = [SYSTEM_MESSAGE_SCOPE], cl_credential_id = Some ''ABCDEFGH2345'', cl_request_id = ''r1'', cl_kid = ''api-gateway''\<rparr>"

definition machine_example_ctx :: mq_ctx where
  "machine_example_ctx = \<lparr>mx_tenant_id = Some ''t1'', mx_user_id = None, mx_claims = Some machine_example_claims, mx_recovered = None,
     mx_metadata = [''x-tenant-id'' \<mapsto> ''t1'']\<rparr>"

definition machine_example_message :: message where
  "machine_example_message = default_message\<lparr>m_server_id := ''srv-7'', m_conversation_id := ''1-x'', m_sender_id := ''ops-bot'',
     m_conversation_type := 1, m_message_type := MtSystem, m_source := source_system,
     m_content := Some (Some (SystemContent ''platform.notice'' ''maintenance'' Map.empty []))\<rparr>"

theorem stamped_proof_verifies_witness:
  "\<exists>token r. stamp plain_proof_lib example_keys ''k'' machine_example_ctx machine_example_message = Inr token
     \<and> verify plain_proof_lib ''k'' token ''t1'' machine_example_message = Inr r \<and> rcp_key r = ''ABCDEFGH2345''"
proof -
  have "case stamp plain_proof_lib example_keys ''k'' machine_example_ctx machine_example_message of
      Inl e \<Rightarrow> False | Inr token \<Rightarrow> length token \<le> MAX_PROOF_BYTES" by code_simp
  then obtain token where t: "stamp plain_proof_lib example_keys ''k'' machine_example_ctx machine_example_message = Inr token"
    and n: "length token \<le> MAX_PROOF_BYTES" by (auto split: sum.splits)
  show ?thesis
    using stamped_proof_verifies [OF plain_proof_lib_ok t n, of machine_example_claims] t
    by (auto simp: machine_example_ctx_def machine_example_claims_def)
qed

text \<open>
  A proof is for one message of one tenant. When the digest functions are free of collisions, a
  token that verifies twice verifies for the same tenant and the very same message: no field, attribute,
  extension or routing of a logged or queued machine message can be altered under its proof.
\<close>

theorem proof_fixes_message:
  assumes "collision_free L" and "finite_maps m" and "finite_maps m'"
    and "verify L vk token app m = Inr r" and "verify L vk token app' m' = Inr r'"
  shows "app = app' \<and> m = m'"
proof -
  have "r = r'" by (rule verify_receipt_unique [OF assms(4,5)])
  with verify_Inr [OF assms(4)] verify_Inr [OF assms(5)] digest_inject [OF assms(1-3)] show ?thesis by auto
qed

definition example_receipt :: "string \<Rightarrow> receipt" where
  "example_receipt d = receipt_for machine_example_claims ''ABCDEFGH2345'' machine_example_message d"

definition example_token :: string where
  "example_token = ''.'' @ hex_encode (''k'' @ take 8 PROOF_DOMAIN)"

lemma example_token_verifies:
  "\<exists>d. verify (numbered_proof_lib (example_receipt d)) ''k'' example_token ''t1'' machine_example_message = Inr (example_receipt d)"
proof -
  let ?m = machine_example_message
  have "\<exists>d. \<forall>r. digest (numbered_proof_lib r) ?m = Inr d"
    by (simp add: digest_def machine_example_message_def numbered_proof_lib_def plain_proof_lib_def)
  then obtain d where d: "\<And>r. digest (numbered_proof_lib r) ?m = Inr d" by blast
  have "length example_token \<le> MAX_PROOF_BYTES" by code_simp
  moreover have "split_once CHR ''.'' example_token = Some ([], hex_encode (''k'' @ take 8 PROOF_DOMAIN))"
    using split_once_append [of "CHR ''.''" "[]"] by (simp add: example_token_def)
  moreover have "take 8 (PROOF_DOMAIN @ []) = take 8 PROOF_DOMAIN" by simp
  ultimately show ?thesis
    using d by (intro exI [of _ d]) (simp add: verify_def numbered_proof_lib_def plain_proof_lib_def hex_roundtrip
        example_receipt_def receipt_for_def machine_example_message_def machine_example_claims_def requires_proof_def
        starts_with_def)
qed

theorem proof_fixes_message_witness:
  "\<exists>d e. verify (numbered_proof_lib (example_receipt d)) ''k'' example_token ''t1'' machine_example_message = Inr (example_receipt d)
     \<and> verify (numbered_proof_lib (example_receipt d)) ''k'' example_token ''t1''
         (machine_example_message\<lparr>m_channel_id := ''mallory''\<rparr>) = Inl e"
proof -
  obtain d where v: "verify (numbered_proof_lib (example_receipt d)) ''k'' example_token ''t1'' machine_example_message
      = Inr (example_receipt d)" using example_token_verifies by blast
  have fin: "finite_maps machine_example_message" "finite_maps (machine_example_message\<lparr>m_channel_id := ''mallory''\<rparr>)"
    by (simp_all add: finite_maps_def machine_example_message_def default_message_def system_attributes_def)
  have "verify (numbered_proof_lib (example_receipt d)) ''k'' example_token ''t1''
      (machine_example_message\<lparr>m_channel_id := ''mallory''\<rparr>) \<noteq> Inr r" for r
  proof
    assume "verify (numbered_proof_lib (example_receipt d)) ''k'' example_token ''t1''
      (machine_example_message\<lparr>m_channel_id := ''mallory''\<rparr>) = Inr r"
    from proof_fixes_message [OF numbered_collision_free fin v this] show False
      by (auto simp: machine_example_message_def default_message_def dest: arg_cong [where f = m_channel_id])
  qed
  then show ?thesis
    using v by (cases "verify (numbered_proof_lib (example_receipt d)) ''k'' example_token ''t1''
      (machine_example_message\<lparr>m_channel_id := ''mallory''\<rparr>)") auto
qed

end
