(* ===== verification/Push_Repository.thy ===== *)
theory Push_Repository
  imports Write_Proof Message_Validation
begin

text \<open>
  Publishing to the message queue (\<^verbatim>\<open>crates/flare-im-message-pipeline/src/messaging/push_repository.rs\<close> and
  the envelope builders of \<^verbatim>\<open>crates/flare-im-contracts\<close>): headers from the call context, the proof of machine
  messages, size limits and topics. The producer, the encoded size and the JSON of a string map are
  parameters; ids and clock readings are inputs of the call.
\<close>

section \<open>Envelopes and records\<close>

datatype payload_kind = KindMessage | KindEvent | KindOther int

datatype mq_payload = PayMessage message | PayEvent event

record mq_envelope =
  me_envelope_id :: string
  me_recipients :: "string list"
  me_conversation_id :: string
  me_seq :: nat
  me_produced_at :: int
  me_payload_kind :: payload_kind
  me_headers :: "string \<rightharpoonup> string"
  me_push_only :: bool
  me_persistence_only :: bool
  me_large_conversation :: bool
  me_payload :: "mq_payload option"

record push_envelope =
  pe_envelope_id :: string
  pe_tenant_id :: string
  pe_trace_id :: string
  pe_headers :: "string \<rightharpoonup> string"
  pe_created_at :: int
  pe_content :: string

datatype mq_body = BodyMq mq_envelope | BodyPush push_envelope

record mq_record =
  mr_topic :: string
  mr_key :: "string option"
  mr_body :: mq_body
  mr_headers :: "string \<rightharpoonup> string"

record ('sk, 'vk, 'sig, 'q) push_repo =
  pr_lib :: "('sk, 'vk, 'sig) proof_lib"
  pr_keys :: key_ids
  pr_signer :: "'sk option"
  pr_send :: "mq_record \<Rightarrow> 'q \<Rightarrow> unit result \<times> 'q"
  pr_size :: "mq_body \<Rightarrow> nat"
  pr_map_json :: "(string \<rightharpoonup> string) \<Rightarrow> string"

record mq_call =
  mqc_uuid :: string
  mqc_now :: int
  mqc_produced_at :: int

text \<open>The producer's state, and what it accepted (newest first).\<close>

record 'q mq_world =
  mq_state :: 'q
  mq_sent :: "mq_record list"

definition TOPIC_MESSAGE_MAIN :: string where "TOPIC_MESSAGE_MAIN = ''flare.im.message.main''"
definition TOPIC_MESSAGE_CREATED :: string where "TOPIC_MESSAGE_CREATED = ''flare.im.message.storage''"
definition TOPIC_MESSAGE_EVENTS :: string where "TOPIC_MESSAGE_EVENTS = ''flare.im.message.events''"
definition TOPIC_PUSH_MESSAGES :: string where "TOPIC_PUSH_MESSAGES = ''flare.im.push.messages''"
definition TOPIC_PUSH_EVENTS :: string where "TOPIC_PUSH_EVENTS = ''flare.im.push.events''"
definition TOPIC_PUSH_ENVELOPE :: string where "TOPIC_PUSH_ENVELOPE = ''flare.im.push.envelope''"

definition mq_envelope_for_main_queue_message_with_headers ::
  "mq_call \<Rightarrow> message \<Rightarrow> string list \<Rightarrow> (string \<rightharpoonup> string) \<Rightarrow> bool \<Rightarrow> mq_envelope" where
  "mq_envelope_for_main_queue_message_with_headers c m recipients headers large =
     \<lparr>me_envelope_id = mqc_uuid c, me_recipients = recipients, me_conversation_id = m_conversation_id m,
      me_seq = m_conversation_seq m, me_produced_at = mqc_produced_at c, me_payload_kind = KindMessage,
      me_headers = headers, me_push_only = False, me_persistence_only = False, me_large_conversation = large,
      me_payload = Some (PayMessage m)\<rparr>"

definition mq_envelope_for_main_queue_event_with_headers ::
  "mq_call \<Rightarrow> event \<Rightarrow> string list \<Rightarrow> (string \<rightharpoonup> string) \<Rightarrow> mq_envelope" where
  "mq_envelope_for_main_queue_event_with_headers c e recipients headers =
     \<lparr>me_envelope_id = mqc_uuid c, me_recipients = recipients, me_conversation_id = ev_conversation_id e,
      me_seq = ev_conversation_seq e, me_produced_at = mqc_produced_at c, me_payload_kind = KindEvent,
      me_headers = headers, me_push_only = False, me_persistence_only = False, me_large_conversation = False,
      me_payload = Some (PayEvent e)\<rparr>"

section \<open>Headers\<close>

definition or_insert :: "string \<Rightarrow> string \<Rightarrow> (string \<rightharpoonup> string) \<Rightarrow> string \<rightharpoonup> string" where
  "or_insert k v h = (case h k of None \<Rightarrow> h(k \<mapsto> v) | Some _ \<Rightarrow> h)"

definition embed_timeline_in_extra_map :: "((string \<rightharpoonup> string) \<Rightarrow> string) \<Rightarrow> timeline_metadata \<Rightarrow>
     (string \<rightharpoonup> string) \<Rightarrow> string \<rightharpoonup> string" where
  "embed_timeline_in_extra_map json t extra =
     (let put = (\<lambda>k v m. case v of None \<Rightarrow> m | Some i \<Rightarrow> m(k \<mapsto> show_int i));
          m = put ''emit_ts'' (tl_emit_ts t) Map.empty;
          m = m(''ingestion_ts'' \<mapsto> show_int (tl_ingestion_ts t));
          m = put ''persisted_ts'' (tl_persisted_ts t) m;
          m = put ''dispatched_ts'' (tl_dispatched_ts t) m;
          m = put ''acked_ts'' (tl_acked_ts t) m;
          m = put ''read_ts'' (tl_read_ts t) m;
          m = put ''deleted_ts'' (tl_deleted_ts t) m
      in extra(''timeline'' \<mapsto> json m))"

definition missing_tenant_error :: flare_error where
  "missing_tenant_error = FlareError InvalidParameter ''tenant required to publish to the message queue''"

definition build_headers_from_ctx :: "mq_ctx \<Rightarrow> (string \<rightharpoonup> string) result" where
  "build_headers_from_ctx ctx =
     (case normalize_optional_tenant_id (mx_tenant_id ctx) of
        None \<Rightarrow> Err missing_tenant_error
      | Some tenant_id \<Rightarrow> Ok ((mx_metadata ctx)(''x-tenant-id'' \<mapsto> tenant_id)))"

definition build_timeline_headers :: "('sk, 'vk, 'sig, 'q) push_repo \<Rightarrow> mq_call \<Rightarrow> mq_ctx \<Rightarrow> int option \<Rightarrow>
     (string \<rightharpoonup> string) result" where
  "build_timeline_headers R c ctx emit_ts =
     and_then (build_headers_from_ctx ctx) (\<lambda>headers.
       Ok (embed_timeline_in_extra_map (pr_map_json R)
             (default_timeline\<lparr>tl_emit_ts := emit_ts, tl_ingestion_ts := mqc_now c\<rparr>) headers))"

definition positive_ts :: "int \<Rightarrow> int option" where
  "positive_ts ts = (if ts > 0 then Some ts else None)"

definition message_headers :: "('sk, 'vk, 'sig, 'q) push_repo \<Rightarrow> mq_call \<Rightarrow> mq_ctx \<Rightarrow> message \<Rightarrow>
     (string \<rightharpoonup> string) result" where
  "message_headers R c ctx m =
     and_then (build_timeline_headers R c ctx (positive_ts (m_created_at m))) (\<lambda>headers.
       (case queue_headers (pr_lib R) (pr_keys R) ctx m (pr_signer R) headers of
          Inl e \<Rightarrow> Err (FlareError SystemError e) | Inr h \<Rightarrow> Ok h))"

definition event_headers :: "('sk, 'vk, 'sig, 'q) push_repo \<Rightarrow> mq_call \<Rightarrow> mq_ctx \<Rightarrow> event \<Rightarrow>
     (string \<rightharpoonup> string) result" where
  "event_headers R c ctx e = build_timeline_headers R c ctx (positive_ts (ev_created_at e))"

definition finalize_mq_headers :: "mq_envelope \<Rightarrow> mq_envelope" where
  "finalize_mq_headers mq =
     mq\<lparr>me_headers := or_insert ''x-conversation-seq'' (to_decimal (me_seq mq))
         (or_insert ''x-conversation-id'' (me_conversation_id mq)
           (or_insert ''x-produced-at-ms'' (show_int (me_produced_at mq))
             (or_insert ''x-envelope-id'' (me_envelope_id mq) (me_headers mq))))\<rparr>"

definition agreed_tenant :: "string option list \<Rightarrow> string result" where
  "agreed_tenant sources =
     (case concat (map (\<lambda>s. case s of None \<Rightarrow> [] | Some t \<Rightarrow> [t]) sources) of
        [] \<Rightarrow> Err missing_tenant_error
      | tenant_id # rest \<Rightarrow>
          if list_ex (\<lambda>other. other \<noteq> tenant_id) rest
          then Err (FlareError InvalidParameter ''push envelope tenant differs from its context tenant'')
          else Ok tenant_id)"

definition envelope_headers :: "mq_call \<Rightarrow> mq_ctx \<Rightarrow> push_envelope \<Rightarrow> (push_envelope \<times> (string \<rightharpoonup> string)) result" where
  "envelope_headers c ctx env =
     (let env = (if trim (pe_envelope_id env) = [] then env\<lparr>pe_envelope_id := mqc_uuid c\<rparr> else env) in
      and_then (agreed_tenant [normalize_optional_tenant_id (Some (pe_tenant_id env)),
                  normalize_optional_tenant_id (pe_headers env ''x-tenant-id''),
                  normalize_optional_tenant_id (mx_tenant_id ctx)])
       (\<lambda>tenant_id.
          let headers = (mx_metadata ctx ++ pe_headers env)(''x-tenant-id'' \<mapsto> tenant_id);
              env = env\<lparr>pe_tenant_id := tenant_id\<rparr>;
              env = (case headers ''x-trace-id'' of
                       Some t \<Rightarrow> if trim (pe_trace_id env) = [] then env\<lparr>pe_trace_id := t\<rparr> else env
                     | None \<Rightarrow> env);
              headers = or_insert ''x-produced-at-ms'' (show_int (pe_created_at env))
                          (or_insert ''x-envelope-id'' (pe_envelope_id env) headers)
          in Ok (env\<lparr>pe_headers := headers\<rparr>, headers)))"

section \<open>Events that announce a message\<close>

definition message_event :: "message \<Rightarrow> bool \<Rightarrow> event" where
  "message_event m include_payload =
     (let kind = (if include_payload then ''message-inline'' else ''message-ping'') in
      \<lparr>ev_type = EventMessage,
       ev_event_id = (if trim (m_server_id m) = []
         then kind @ '':'' @ m_conversation_id m @ '':'' @ to_decimal (m_conversation_seq m)
         else kind @ '':'' @ m_server_id m),
       ev_conversation_id = m_conversation_id m, ev_conversation_seq = m_conversation_seq m,
       ev_created_at = m_created_at m, ev_request_id = None,
       ev_payload = (if include_payload then Some (MessagePayload m) else None)\<rparr>)"

section \<open>Sending\<close>

definition MAX_MESSAGE_SIZE :: nat where "MAX_MESSAGE_SIZE = 10 * 1024 * 1024"

definition producer_send :: "('sk, 'vk, 'sig, 'q) push_repo \<Rightarrow> string \<Rightarrow> string \<Rightarrow> mq_body \<Rightarrow> (string \<rightharpoonup> string) \<Rightarrow>
     'q mq_world \<Rightarrow> unit result \<times> 'q mq_world" where
  "producer_send R topic key body headers w =
     (let rec = \<lparr>mr_topic = topic, mr_key = Some key, mr_body = body, mr_headers = headers\<rparr> in
      case pr_send R rec (mq_state w) of
        (Inl e, q) \<Rightarrow> (Err e, w\<lparr>mq_state := q\<rparr>)
      | (Inr _, q) \<Rightarrow> (Ok (), w\<lparr>mq_state := q, mq_sent := rec # mq_sent w\<rparr>))"

definition send_mq :: "('sk, 'vk, 'sig, 'q) push_repo \<Rightarrow> string \<Rightarrow> string \<Rightarrow> mq_envelope \<Rightarrow> string \<Rightarrow>
     'q mq_world \<Rightarrow> unit result \<times> 'q mq_world" where
  "send_mq R topic conversation_id mq too_large w =
     (let mq = finalize_mq_headers mq in
      if pr_size R (BodyMq mq) > MAX_MESSAGE_SIZE then (Err (FlareError InvalidParameter too_large), w)
      else producer_send R topic conversation_id (BodyMq mq) (me_headers mq) w)"

definition with_headers :: "(string \<rightharpoonup> string) result \<Rightarrow> ((string \<rightharpoonup> string) \<Rightarrow> 'w \<Rightarrow> 'a result \<times> 'w) \<Rightarrow> 'w \<Rightarrow> 'a result \<times> 'w" where
  "with_headers r f w = (case r of Inl e \<Rightarrow> (Err e, w) | Inr h \<Rightarrow> f h w)"

definition mark :: "string \<Rightarrow> mq_envelope \<Rightarrow> mq_envelope" where
  "mark k mq = mq\<lparr>me_headers := (me_headers mq)(k \<mapsto> ''true'')\<rparr>"

definition prepare_write_proof :: "('sk, 'vk, 'sig, 'q) push_repo \<Rightarrow> mq_call \<Rightarrow> mq_ctx \<Rightarrow> message \<Rightarrow> string option result" where
  "prepare_write_proof R c ctx m = and_then (message_headers R c ctx m) (\<lambda>h. Ok (h WRITE_PROOF_HEADER))"

definition publish_message :: "('sk, 'vk, 'sig, 'q) push_repo \<Rightarrow> mq_call \<Rightarrow> mq_ctx \<Rightarrow> message \<Rightarrow> string list \<Rightarrow> string \<Rightarrow>
     bool \<Rightarrow> 'q mq_world \<Rightarrow> unit result \<times> 'q mq_world" where
  "publish_message R c ctx m recipients conversation_id large =
     with_headers (message_headers R c ctx m) (\<lambda>h.
       send_mq R TOPIC_MESSAGE_MAIN conversation_id
         (mq_envelope_for_main_queue_message_with_headers c m recipients h large) ''message payload too large'')"

definition publish_event :: "('sk, 'vk, 'sig, 'q) push_repo \<Rightarrow> mq_call \<Rightarrow> mq_ctx \<Rightarrow> event \<Rightarrow> string list \<Rightarrow> string \<Rightarrow>
     'q mq_world \<Rightarrow> unit result \<times> 'q mq_world" where
  "publish_event R c ctx e recipients conversation_id =
     with_headers (event_headers R c ctx e) (\<lambda>h.
       send_mq R TOPIC_MESSAGE_MAIN conversation_id
         (mq_envelope_for_main_queue_event_with_headers c e recipients h) ''event payload too large'')"

definition push_only_message :: "('sk, 'vk, 'sig, 'q) push_repo \<Rightarrow> mq_call \<Rightarrow> mq_ctx \<Rightarrow> message \<Rightarrow> string list \<Rightarrow> string \<Rightarrow>
     'q mq_world \<Rightarrow> unit result \<times> 'q mq_world" where
  "push_only_message R c ctx m recipients conversation_id =
     with_headers (message_headers R c ctx m) (\<lambda>h.
       send_mq R TOPIC_PUSH_MESSAGES conversation_id
         (mark ''push-only'' ((mq_envelope_for_main_queue_message_with_headers c m recipients h False)\<lparr>me_push_only := True\<rparr>))
         ''message payload too large'')"

definition push_only_event :: "('sk, 'vk, 'sig, 'q) push_repo \<Rightarrow> mq_call \<Rightarrow> mq_ctx \<Rightarrow> event \<Rightarrow> string list \<Rightarrow> string \<Rightarrow>
     'q mq_world \<Rightarrow> unit result \<times> 'q mq_world" where
  "push_only_event R c ctx e recipients conversation_id =
     with_headers (event_headers R c ctx e) (\<lambda>h.
       send_mq R TOPIC_PUSH_EVENTS conversation_id
         (mark ''push-only'' ((mq_envelope_for_main_queue_event_with_headers c e recipients h)\<lparr>me_push_only := True\<rparr>))
         ''event payload too large'')"

definition persistence_only_message :: "('sk, 'vk, 'sig, 'q) push_repo \<Rightarrow> mq_call \<Rightarrow> mq_ctx \<Rightarrow> message \<Rightarrow> string \<Rightarrow>
     'q mq_world \<Rightarrow> unit result \<times> 'q mq_world" where
  "persistence_only_message R c ctx m conversation_id =
     with_headers (message_headers R c ctx m) (\<lambda>h.
       send_mq R TOPIC_MESSAGE_CREATED conversation_id
         (mark ''persistence-only''
            ((mq_envelope_for_main_queue_message_with_headers c m [] h False)\<lparr>me_persistence_only := True\<rparr>))
         ''message payload too large'')"

definition persistence_only_event :: "('sk, 'vk, 'sig, 'q) push_repo \<Rightarrow> mq_call \<Rightarrow> mq_ctx \<Rightarrow> event \<Rightarrow> string \<Rightarrow>
     'q mq_world \<Rightarrow> unit result \<times> 'q mq_world" where
  "persistence_only_event R c ctx e conversation_id =
     with_headers (event_headers R c ctx e) (\<lambda>h.
       send_mq R TOPIC_MESSAGE_EVENTS conversation_id
         (mark ''persistence-only''
            ((mq_envelope_for_main_queue_event_with_headers c e [] h)\<lparr>me_persistence_only := True\<rparr>))
         ''event payload too large'')"

text \<open>The two announcements the fan-out sends: a bare ping, or the message inline.\<close>

definition delivery_headers :: "string \<Rightarrow> string \<Rightarrow> mq_envelope \<Rightarrow> mq_envelope" where
  "delivery_headers mode truncated mq =
     mq\<lparr>me_headers := (me_headers mq)(''x-flare-delivery-mode'' \<mapsto> mode, ''x-flare-inline-events-truncated'' \<mapsto> truncated)\<rparr>"

definition push_only_message_ping :: "('sk, 'vk, 'sig, 'q) push_repo \<Rightarrow> mq_call \<Rightarrow> mq_ctx \<Rightarrow> message \<Rightarrow> string list \<Rightarrow>
     string \<Rightarrow> bool \<Rightarrow> 'q mq_world \<Rightarrow> unit result \<times> 'q mq_world" where
  "push_only_message_ping R c ctx m recipients conversation_id large =
     (let e = message_event m False in
      with_headers (event_headers R c ctx e) (\<lambda>h.
        send_mq R TOPIC_PUSH_EVENTS conversation_id
          (delivery_headers ''ping'' ''true'' (mark ''push-only''
             ((mq_envelope_for_main_queue_event_with_headers c e recipients h)
                \<lparr>me_push_only := True, me_large_conversation := large\<rparr>)))
          ''message ping payload too large''))"

definition push_only_message_inline_event :: "('sk, 'vk, 'sig, 'q) push_repo \<Rightarrow> mq_call \<Rightarrow> mq_ctx \<Rightarrow> message \<Rightarrow>
     string list \<Rightarrow> string \<Rightarrow> 'q mq_world \<Rightarrow> unit result \<times> 'q mq_world" where
  "push_only_message_inline_event R c ctx m recipients conversation_id =
     (let e = message_event m True in
      with_headers (event_headers R c ctx e) (\<lambda>h.
        send_mq R TOPIC_PUSH_EVENTS conversation_id
          (delivery_headers ''ping_with_inline'' ''false'' (mark ''push-only''
             ((mq_envelope_for_main_queue_event_with_headers c e recipients h)\<lparr>me_push_only := True\<rparr>)))
          ''message inline event payload too large''))"

definition publish_push_envelope :: "('sk, 'vk, 'sig, 'q) push_repo \<Rightarrow> mq_call \<Rightarrow> mq_ctx \<Rightarrow> push_envelope \<Rightarrow>
     'q mq_world \<Rightarrow> unit result \<times> 'q mq_world" where
  "publish_push_envelope R c ctx env w =
     (case envelope_headers c ctx env of
        Inl e \<Rightarrow> (Err e, w)
      | Inr (env, headers) \<Rightarrow>
          if pr_size R (BodyPush env) > MAX_MESSAGE_SIZE then (Err (FlareError InvalidParameter ''push envelope too large''), w)
          else producer_send R TOPIC_PUSH_ENVELOPE (pe_envelope_id env) (BodyPush env) headers w)"

section \<open>What headers carry\<close>

lemma or_insert_other [simp]: "k \<noteq> k' \<Longrightarrow> or_insert k' v h k = h k"
  by (simp add: or_insert_def split: option.splits)

lemma embed_timeline_other [simp]: "k \<noteq> ''timeline'' \<Longrightarrow> embed_timeline_in_extra_map json t h k = h k"
  by (simp add: embed_timeline_in_extra_map_def Let_def)

lemma finalize_frame [simp]:
  "k \<notin> {''x-conversation-seq'', ''x-conversation-id'', ''x-produced-at-ms'', ''x-envelope-id''} \<Longrightarrow>
     me_headers (finalize_mq_headers mq) k = me_headers mq k"
  "me_payload (finalize_mq_headers mq) = me_payload mq" "me_payload_kind (finalize_mq_headers mq) = me_payload_kind mq"
  "me_recipients (finalize_mq_headers mq) = me_recipients mq" "me_conversation_id (finalize_mq_headers mq) = me_conversation_id mq"
  "me_envelope_id (finalize_mq_headers mq) = me_envelope_id mq" "me_large_conversation (finalize_mq_headers mq) = me_large_conversation mq"
  by (simp_all add: finalize_mq_headers_def)

lemma build_timeline_headers_Ok:
  "build_timeline_headers R c ctx ts = Ok h \<Longrightarrow> \<exists>t. normalize_optional_tenant_id (mx_tenant_id ctx) = Some t \<and> h ''x-tenant-id'' = Some t"
  by (auto simp: build_timeline_headers_def build_headers_from_ctx_def and_then_eq_Ok split: option.splits)

lemma queue_headers_Inr:
  assumes "queue_headers L K ctx m signer h = Inr h'"
  shows "k \<noteq> WRITE_PROOF_HEADER \<Longrightarrow> h' k = h k"
    and "\<not> requires_proof m \<Longrightarrow> h' WRITE_PROOF_HEADER = None"
    and "requires_proof m \<Longrightarrow> \<exists>token. h' WRITE_PROOF_HEADER = Some token \<and>
       (case mx_recovered ctx of
          Some rec \<Rightarrow> token = rw_token rec \<and> mx_tenant_id ctx = Some (rcp_app (rw_verified rec))
            \<and> digest L m = Inr (rcp_digest (rw_verified rec))
        | None \<Rightarrow> \<exists>sk. signer = Some sk \<and> stamp L K sk ctx m = Inr token)"
  using assms by (auto simp: queue_headers_def Let_def split: if_split_asm option.splits sum.splits)

lemma tenant_header_not_proof [simp]: "''x-tenant-id'' \<noteq> WRITE_PROOF_HEADER"
  by (simp add: WRITE_PROOF_HEADER_def)

lemma message_headers_Ok:
  assumes "message_headers R c ctx m = Ok h"
  shows "\<exists>t. normalize_optional_tenant_id (mx_tenant_id ctx) = Some t \<and> h ''x-tenant-id'' = Some t"
    and "\<exists>h0. queue_headers (pr_lib R) (pr_keys R) ctx m (pr_signer R) h0 = Inr h"
proof -
  from assms obtain h0 where h0: "build_timeline_headers R c ctx (positive_ts (m_created_at m)) = Ok h0"
    and q: "(case queue_headers (pr_lib R) (pr_keys R) ctx m (pr_signer R) h0 of
      Inl e \<Rightarrow> Err (FlareError SystemError e) | Inr h \<Rightarrow> Ok h) = Ok h"
    unfolding message_headers_def and_then_eq_Ok by blast
  from q have h: "queue_headers (pr_lib R) (pr_keys R) ctx m (pr_signer R) h0 = Inr h"
    by (cases "queue_headers (pr_lib R) (pr_keys R) ctx m (pr_signer R) h0") simp_all
  from build_timeline_headers_Ok [OF h0] queue_headers_Inr(1) [OF h tenant_header_not_proof] h
  show "\<exists>t. normalize_optional_tenant_id (mx_tenant_id ctx) = Some t \<and> h ''x-tenant-id'' = Some t"
    "\<exists>h0. queue_headers (pr_lib R) (pr_keys R) ctx m (pr_signer R) h0 = Inr h" by auto
qed

definition present_tenants :: "string option list \<Rightarrow> string list" where
  "present_tenants sources = concat (map (\<lambda>s. case s of None \<Rightarrow> [] | Some t \<Rightarrow> [t]) sources)"

lemma set_present_tenants: "u \<in> set (present_tenants sources) \<longleftrightarrow> Some u \<in> set sources"
  by (induction sources) (auto simp: present_tenants_def split: option.splits)

lemma agreed_tenant_Ok:
  assumes "agreed_tenant sources = Ok t" "Some u \<in> set sources"
  shows "u = t"
proof -
  from assms(1) obtain rest where p: "present_tenants sources = t # rest" and "\<not> list_ex (\<lambda>other. other \<noteq> t) rest"
    unfolding agreed_tenant_def present_tenants_def [symmetric]
    by (cases "present_tenants sources") (simp_all split: if_split_asm)
  then have "\<forall>v \<in> set (present_tenants sources). v = t" by (auto simp: list_ex_iff)
  with assms(2) show ?thesis using set_present_tenants [of u sources] by blast
qed

lemma envelope_headers_Ok:
  assumes "envelope_headers c ctx env = Ok (env', h)"
  shows "\<exists>t srcs. agreed_tenant srcs = Ok t \<and> normalize_optional_tenant_id (mx_tenant_id ctx) \<in> set srcs
     \<and> h ''x-tenant-id'' = Some t \<and> pe_headers env' = h \<and> pe_tenant_id env' = t"
proof -
  let ?srcs = "[normalize_optional_tenant_id (Some (pe_tenant_id env)), normalize_optional_tenant_id (pe_headers env ''x-tenant-id''),
     normalize_optional_tenant_id (mx_tenant_id ctx)]"
  have "\<exists>t. agreed_tenant ?srcs = Ok t \<and> h ''x-tenant-id'' = Some t \<and> pe_headers env' = h \<and> pe_tenant_id env' = t"
    using assms
    by (cases "trim (pe_envelope_id env) = []"; cases "trim (pe_trace_id env) = []";
        cases "(mx_metadata ctx ++ pe_headers env) ''x-trace-id''")
      (auto simp: envelope_headers_def and_then_eq_Ok Let_def)
  then show ?thesis by (intro exI [of _ "the (h ''x-tenant-id'')"] exI [of _ ?srcs]) auto
qed

section \<open>What is sent\<close>

datatype push_op =
    OpPublishMessage message "string list" string bool
  | OpPublishEvent event "string list" string
  | OpPushMessage message "string list" string
  | OpPushEvent event "string list" string
  | OpStoreMessage message string
  | OpStoreEvent event string
  | OpPing message "string list" string bool
  | OpInline message "string list" string
  | OpEnvelope push_envelope

fun run_push_op :: "('sk, 'vk, 'sig, 'q) push_repo \<Rightarrow> mq_call \<Rightarrow> mq_ctx \<Rightarrow> push_op \<Rightarrow> 'q mq_world \<Rightarrow>
     unit result \<times> 'q mq_world" where
  "run_push_op R c ctx (OpPublishMessage m rs cid large) = publish_message R c ctx m rs cid large"
| "run_push_op R c ctx (OpPublishEvent e rs cid) = publish_event R c ctx e rs cid"
| "run_push_op R c ctx (OpPushMessage m rs cid) = push_only_message R c ctx m rs cid"
| "run_push_op R c ctx (OpPushEvent e rs cid) = push_only_event R c ctx e rs cid"
| "run_push_op R c ctx (OpStoreMessage m cid) = persistence_only_message R c ctx m cid"
| "run_push_op R c ctx (OpStoreEvent e cid) = persistence_only_event R c ctx e cid"
| "run_push_op R c ctx (OpPing m rs cid large) = push_only_message_ping R c ctx m rs cid large"
| "run_push_op R c ctx (OpInline m rs cid) = push_only_message_inline_event R c ctx m rs cid"
| "run_push_op R c ctx (OpEnvelope env) = publish_push_envelope R c ctx env"

fun body_tenant :: "mq_body \<Rightarrow> string option" where
  "body_tenant (BodyMq mq) = me_headers mq ''x-tenant-id''"
| "body_tenant (BodyPush env) = (if pe_headers env ''x-tenant-id'' = Some (pe_tenant_id env) then Some (pe_tenant_id env) else None)"

text \<open>A record that may be sent for \<open>t\<close>.\<close>

definition sendable :: "('sk, 'vk, 'sig, 'q) push_repo \<Rightarrow> string \<Rightarrow> mq_record \<Rightarrow> bool" where
  "sendable R t rec \<longleftrightarrow> mr_headers rec ''x-tenant-id'' = Some t \<and> body_tenant (mr_body rec) = Some t
     \<and> pr_size R (mr_body rec) \<le> MAX_MESSAGE_SIZE"

definition sends :: "('sk, 'vk, 'sig, 'q) push_repo \<Rightarrow> (string \<Rightarrow> bool) \<Rightarrow> ('q mq_world \<Rightarrow> unit result \<times> 'q mq_world) \<Rightarrow> bool" where
  "sends R P f \<longleftrightarrow> (\<forall>w res w'. f w = (res, w') \<longrightarrow>
     (res \<noteq> Ok () \<and> mq_sent w' = mq_sent w)
     \<or> (\<exists>rec t. res = Ok () \<and> mq_sent w' = rec # mq_sent w \<and> sendable R t rec \<and> P t))"

lemma sendsI_Err: "f = (\<lambda>w. (Err e, w)) \<Longrightarrow> sends R P f"
  by (simp add: sends_def)

lemma producer_sends:
  assumes "sendable R t \<lparr>mr_topic = topic, mr_key = Some key, mr_body = body, mr_headers = h\<rparr>" "P t"
  shows "sends R P (producer_send R topic key body h)"
  using assms by (fastforce simp: sends_def producer_send_def Let_def split: prod.splits sum.splits)

lemma send_mq_sends:
  assumes "me_headers mq ''x-tenant-id'' = Some t" "P t"
  shows "sends R P (send_mq R topic key mq too_large)"
proof (cases "pr_size R (BodyMq (finalize_mq_headers mq)) > MAX_MESSAGE_SIZE")
  case True
  then show ?thesis by (intro sendsI_Err) (simp add: send_mq_def fun_eq_iff)
next
  case False
  have "send_mq R topic key mq too_large =
      producer_send R topic key (BodyMq (finalize_mq_headers mq)) (me_headers (finalize_mq_headers mq))"
    using False by (simp add: send_mq_def fun_eq_iff Let_def)
  then show ?thesis
    using producer_sends [of R t topic key] assms False by (simp add: sendable_def)
qed

lemma with_headers_sends: "(\<And>h. r = Ok h \<Longrightarrow> sends R P (f h)) \<Longrightarrow> sends R P (with_headers r f)"
  by (cases r) (simp_all add: sends_def with_headers_def)

lemma publish_push_envelope_sends:
  "sends R (\<lambda>t. \<forall>u. normalize_optional_tenant_id (mx_tenant_id ctx) = Some u \<longrightarrow> u = t) (publish_push_envelope R c ctx env)"
proof (cases "envelope_headers c ctx env")
  case (Inl e)
  then show ?thesis by (simp add: sends_def publish_push_envelope_def)
next
  case (Inr r)
  then obtain env' h where h: "envelope_headers c ctx env = Ok (env', h)" by (cases r) auto
  from envelope_headers_Ok [OF h] obtain t srcs where t: "agreed_tenant srcs = Ok t" "normalize_optional_tenant_id (mx_tenant_id ctx) \<in> set srcs"
      "h ''x-tenant-id'' = Some t" "pe_headers env' = h" "pe_tenant_id env' = t"
    by blast
  have P: "\<forall>u. normalize_optional_tenant_id (mx_tenant_id ctx) = Some u \<longrightarrow> u = t"
    using agreed_tenant_Ok [OF t(1)] t(2) by metis
  show ?thesis
  proof (cases "pr_size R (BodyPush env') > MAX_MESSAGE_SIZE")
    case True
    with h show ?thesis by (simp add: sends_def publish_push_envelope_def)
  next
    case False
    then have "publish_push_envelope R c ctx env = producer_send R TOPIC_PUSH_ENVELOPE (pe_envelope_id env') (BodyPush env') h"
      using h by (simp add: publish_push_envelope_def fun_eq_iff)
    then show ?thesis
      using producer_sends [of R t TOPIC_PUSH_ENVELOPE] t(3-5) False P by (simp add: sendable_def)
  qed
qed

lemmas envelope_defs = mq_envelope_for_main_queue_message_with_headers_def mq_envelope_for_main_queue_event_with_headers_def
  mark_def delivery_headers_def

definition op_tenant_ok :: "mq_ctx \<Rightarrow> push_op \<Rightarrow> string \<Rightarrow> bool" where
  "op_tenant_ok ctx op t =
     (case op of
        OpEnvelope env \<Rightarrow> (case normalize_optional_tenant_id (mx_tenant_id ctx) of None \<Rightarrow> True | Some u \<Rightarrow> u = t)
      | _ \<Rightarrow> normalize_optional_tenant_id (mx_tenant_id ctx) = Some t)"

lemma message_op_sends:
  assumes "\<And>h. me_headers (f h) ''x-tenant-id'' = h ''x-tenant-id''"
    and "\<And>t. normalize_optional_tenant_id (mx_tenant_id ctx) = Some t \<Longrightarrow> P t"
  shows "sends R P (with_headers (message_headers R c ctx m) (\<lambda>h. send_mq R topic key (f h) e))"
proof (rule with_headers_sends)
  fix h assume "message_headers R c ctx m = Ok h"
  from message_headers_Ok(1) [OF this] obtain t where "normalize_optional_tenant_id (mx_tenant_id ctx) = Some t"
    "h ''x-tenant-id'' = Some t" by blast
  then show "sends R P (send_mq R topic key (f h) e)" by (intro send_mq_sends [of _ t]) (simp_all add: assms)
qed

lemma event_op_sends:
  assumes "\<And>h. me_headers (f h) ''x-tenant-id'' = h ''x-tenant-id''"
    and "\<And>t. normalize_optional_tenant_id (mx_tenant_id ctx) = Some t \<Longrightarrow> P t"
  shows "sends R P (with_headers (event_headers R c ctx x) (\<lambda>h. send_mq R topic key (f h) e))"
proof (rule with_headers_sends)
  fix h assume "event_headers R c ctx x = Ok h"
  from build_timeline_headers_Ok [OF this [unfolded event_headers_def]] obtain t where
    "normalize_optional_tenant_id (mx_tenant_id ctx) = Some t" "h ''x-tenant-id'' = Some t" by blast
  then show "sends R P (send_mq R topic key (f h) e)" by (intro send_mq_sends [of _ t]) (simp_all add: assms)
qed

lemma run_push_op_sends: "sends R (op_tenant_ok ctx op) (run_push_op R c ctx op)"
proof (cases op)
  case (OpEnvelope env)
  have "op_tenant_ok ctx op = (\<lambda>t. \<forall>u. normalize_optional_tenant_id (mx_tenant_id ctx) = Some u \<longrightarrow> u = t)"
    by (auto simp: OpEnvelope op_tenant_ok_def fun_eq_iff split: option.splits)
  with publish_push_envelope_sends [of R ctx c env] OpEnvelope show ?thesis by simp
qed (simp_all add: publish_message_def publish_event_def push_only_message_def push_only_event_def persistence_only_message_def
    persistence_only_event_def push_only_message_ping_def push_only_message_inline_event_def message_op_sends event_op_sends
    envelope_defs op_tenant_ok_def Let_def)

section \<open>Properties\<close>

text \<open>
  C28: nothing is published outside its tenant. Every operation of the repository either fails and sends
  nothing, or sends exactly one record, within the size limit, whose queue headers and body both name
  the same tenant: the tenant of the context (a missing one is an error, never replaced by a default),
  and for a push envelope the one tenant on which the envelope, its headers and the context agree.
\<close>

theorem published_under_context_tenant:
  assumes "run_push_op R c ctx op w = (res, w')"
  shows "(res \<noteq> Ok () \<and> mq_sent w' = mq_sent w)
     \<or> (\<exists>rec t. res = Ok () \<and> mq_sent w' = rec # mq_sent w \<and> op_tenant_ok ctx op t
          \<and> mr_headers rec ''x-tenant-id'' = Some t \<and> body_tenant (mr_body rec) = Some t
          \<and> pr_size R (mr_body rec) \<le> MAX_MESSAGE_SIZE)"
  using run_push_op_sends [of R ctx op c] assms by (fastforce simp: sends_def sendable_def)

definition example_repo :: "(string, string, string, unit) push_repo" where
  "example_repo = \<lparr>pr_lib = plain_proof_lib, pr_keys = example_keys, pr_signer = Some ''k'',
     pr_send = (\<lambda>r q. (Ok (), q)), pr_size = (\<lambda>b. 100), pr_map_json = (\<lambda>m. ''{}'')\<rparr>"

definition example_mq_call :: mq_call where
  "example_mq_call = \<lparr>mqc_uuid = ''env-1'', mqc_now = 1000, mqc_produced_at = 1001\<rparr>"

theorem published_under_context_tenant_witness:
  "\<exists>rec w'. run_push_op example_repo example_mq_call machine_example_ctx (OpStoreMessage machine_example_message ''1-x'')
       \<lparr>mq_state = (), mq_sent = []\<rparr> = (Ok (), w') \<and> mq_sent w' = [rec] \<and> mr_headers rec ''x-tenant-id'' = Some ''t1''"
proof -
  let ?run = "run_push_op example_repo example_mq_call machine_example_ctx (OpStoreMessage machine_example_message ''1-x'')
       \<lparr>mq_state = (), mq_sent = []\<rparr>"
  obtain w' where r: "?run = (fst ?run, w')" by (metis prod.collapse)
  have "fst ?run = Ok ()" by code_simp
  moreover have "normalize_optional_tenant_id (mx_tenant_id machine_example_ctx) = Some ''t1''" by code_simp
  ultimately show ?thesis
    using published_under_context_tenant [OF r] r by (auto simp: op_tenant_ok_def)
qed

end
