(* ===== verification/Message_Fanout.thy ===== *)
theory Message_Fanout
  imports Push_Repository
begin

text \<open>
  The orchestrator's consumer of the main topic: \<^verbatim>\<open>flare-orchestrator/src/interface/mq/storage_consumer.rs\<close>,
  \<^verbatim>\<open>application/handlers/storage_handler.rs\<close>, \<^verbatim>\<open>domain/service/message_fanout_service.rs\<close>, the fan-out
  of \<^verbatim>\<open>domain/service/event_domain_service.rs\<close> and the compensation tasks of
  \<^verbatim>\<open>domain/repository/user_sync_compensation_repository.rs\<close>. The sync index, the task queue and
  \<^verbatim>\<open>context_from_mq_metadata\<close> are parameters. Metrics are left out.
\<close>

section \<open>Compensation tasks\<close>

datatype compensation_kind = EagerUserChanges | ConversationVersionBump

record compensation_task =
  ct_task_id :: string
  ct_tenant_id :: string
  ct_kind :: compensation_kind
  ct_user_ids :: "string list"
  ct_conversation_id :: string
  ct_max_conversation_seq :: nat
  ct_occurred_at_ms :: int
  ct_due_at_ms :: int
  ct_attempts :: nat
  ct_last_error :: "string option"

definition task_new :: "string \<Rightarrow> compensation_kind \<Rightarrow> string list \<Rightarrow> string \<Rightarrow> nat \<Rightarrow> int \<Rightarrow> int \<Rightarrow> compensation_task" where
  "task_new tenant_id kind user_ids conversation_id seq occurred due =
     (let label = (case kind of EagerUserChanges \<Rightarrow> ''eager'' | ConversationVersionBump \<Rightarrow> ''conversation_version'') in
      \<lparr>ct_task_id = tenant_id @ '':'' @ label @ '':'' @ conversation_id @ '':'' @ to_decimal seq,
       ct_tenant_id = tenant_id, ct_kind = kind, ct_user_ids = user_ids, ct_conversation_id = conversation_id,
       ct_max_conversation_seq = seq, ct_occurred_at_ms = occurred, ct_due_at_ms = due, ct_attempts = 0,
       ct_last_error = None\<rparr>)"

definition normalized_user_ids :: "string list \<Rightarrow> string list" where
  "normalized_user_ids user_ids = sort_dedup (filter (\<lambda>u. u \<noteq> []) (map trim user_ids))"

definition task_tenant_id :: "mq_ctx \<Rightarrow> string option" where
  "task_tenant_id ctx = normalize_optional_tenant_id (mx_tenant_id ctx)"

definition eager_user_changes :: "mq_ctx \<Rightarrow> string list \<Rightarrow> string \<Rightarrow> nat \<Rightarrow> int \<Rightarrow> int \<Rightarrow> compensation_task option" where
  "eager_user_changes ctx user_ids conversation_id seq occurred due =
     (let conversation_id = trim conversation_id in
      if conversation_id = [] then None
      else (let user_ids = normalized_user_ids user_ids in
            if user_ids = [] then None
            else map_option (\<lambda>t. task_new t EagerUserChanges user_ids conversation_id seq occurred due)
                   (task_tenant_id ctx)))"

definition conversation_version_bump :: "mq_ctx \<Rightarrow> string \<Rightarrow> nat \<Rightarrow> int \<Rightarrow> int \<Rightarrow> compensation_task option" where
  "conversation_version_bump ctx conversation_id seq occurred due =
     (let conversation_id = trim conversation_id in
      if conversation_id = [] then None
      else map_option (\<lambda>t. task_new t ConversationVersionBump [] conversation_id seq occurred due)
             (task_tenant_id ctx))"

section \<open>Fan-out\<close>

record 'x user_sync_index =
  ux_change :: "mq_ctx \<Rightarrow> string list \<Rightarrow> string \<Rightarrow> nat \<Rightarrow> int \<Rightarrow> 'x \<Rightarrow> unit result \<times> 'x"
  ux_bump :: "mq_ctx \<Rightarrow> string \<Rightarrow> nat \<Rightarrow> int \<Rightarrow> 'x \<Rightarrow> nat result \<times> 'x"

record ('sk, 'vk, 'sig, 'q, 'x, 'c) fanout_service =
  fs_repo :: "('sk, 'vk, 'sig, 'q) push_repo"
  fs_index :: "'x user_sync_index option"
  fs_compensation :: "(compensation_task \<Rightarrow> 'c \<Rightarrow> unit result \<times> 'c) option"
  fs_inline_enabled :: bool

record ('q, 'x, 'c) fanout_world =
  fw_mq :: "'q mq_world"
  fw_index :: 'x
  fw_queue :: 'c
  fw_tasks :: "compensation_task list"

record fanout_call =
  fc_store :: mq_call
  fc_push :: mq_call
  fc_due_at :: int

definition on_mq :: "('q mq_world \<Rightarrow> 'a \<times> 'q mq_world) \<Rightarrow> ('q, 'x, 'c) fanout_world \<Rightarrow> 'a \<times> ('q, 'x, 'c) fanout_world" where
  "on_mq f w = (case f (fw_mq w) of (r, m) \<Rightarrow> (r, w\<lparr>fw_mq := m\<rparr>))"

definition on_index :: "('x \<Rightarrow> 'a \<times> 'x) \<Rightarrow> ('q, 'x, 'c) fanout_world \<Rightarrow> 'a \<times> ('q, 'x, 'c) fanout_world" where
  "on_index f w = (case f (fw_index w) of (r, x) \<Rightarrow> (r, w\<lparr>fw_index := x\<rparr>))"

definition enqueue_task :: "('sk, 'vk, 'sig, 'q, 'x, 'c) fanout_service \<Rightarrow> compensation_task option \<Rightarrow>
     ('q, 'x, 'c) fanout_world \<Rightarrow> ('q, 'x, 'c) fanout_world" where
  "enqueue_task S task w =
     (case (fs_compensation S, task) of
        (Some enqueue, Some t) \<Rightarrow>
          (case enqueue t (fw_queue w) of
             (Inl e, c) \<Rightarrow> w\<lparr>fw_queue := c\<rparr>
           | (Inr _, c) \<Rightarrow> w\<lparr>fw_queue := c, fw_tasks := t # fw_tasks w\<rparr>)
      | _ \<Rightarrow> w)"

definition fanout_normalize_routing :: "message \<Rightarrow> string list \<Rightarrow> message" where
  "fanout_normalize_routing m recipients =
     (if conversation_type_from_proto (m_conversation_type m) \<noteq> Single then m
      else (case List.find (\<lambda>u. u \<noteq> [] \<and> u \<noteq> trim (m_sender_id m)) (map trim recipients) of
              None \<Rightarrow> m
            | Some peer \<Rightarrow> if trim (m_channel_id m) \<noteq> peer then m\<lparr>m_channel_id := peer\<rparr> else m))"

definition message_compensation :: "mq_ctx \<Rightarrow> string list \<Rightarrow> string \<Rightarrow> nat \<Rightarrow> int \<Rightarrow> bool \<Rightarrow> int \<Rightarrow> compensation_task option" where
  "message_compensation ctx recipients conversation_id seq occurred large due =
     (if large then conversation_version_bump ctx conversation_id seq occurred due
      else eager_user_changes ctx recipients conversation_id seq occurred due)"

definition record_message_change :: "('sk, 'vk, 'sig, 'q, 'x, 'c) fanout_service \<Rightarrow> int \<Rightarrow> mq_ctx \<Rightarrow> message \<Rightarrow>
     string list \<Rightarrow> bool \<Rightarrow> ('q, 'x, 'c) fanout_world \<Rightarrow> ('q, 'x, 'c) fanout_world" where
  "record_message_change S due ctx m recipients large w =
     (let cid = m_conversation_id m; seq = m_conversation_seq m; at = m_created_at m in
      case fs_index S of
        None \<Rightarrow> w
      | Some ix \<Rightarrow>
          (case (if large
                 then (case on_index (ux_bump ix ctx cid seq at) w of (r, w) \<Rightarrow> (map_sum (\<lambda>e. e) (\<lambda>v. ()) r, w))
                 else on_index (ux_change ix ctx recipients cid seq at) w) of
             (Inr _, w) \<Rightarrow> w
           | (Inl e, w) \<Rightarrow> enqueue_task S (message_compensation ctx recipients cid seq at large due) w))"

definition fanout_message :: "('sk, 'vk, 'sig, 'q, 'x, 'c) fanout_service \<Rightarrow> fanout_call \<Rightarrow> mq_ctx \<Rightarrow> message \<Rightarrow>
     string list \<Rightarrow> bool \<Rightarrow> ('q, 'x, 'c) fanout_world \<Rightarrow> unit result \<times> ('q, 'x, 'c) fanout_world" where
  "fanout_message S c ctx m recipients large w =
     (let m = (if large then m else fanout_normalize_routing m recipients);
          cid = m_conversation_id m
      in (case on_mq (persistence_only_message (fs_repo S) (fc_store c) ctx m cid) w of
            (Inl e, w) \<Rightarrow> (Err e, w)
          | (Inr _, w) \<Rightarrow>
              let w = record_message_change S (fc_due_at c) ctx m recipients large w;
                  push_recipients = (if large then [] else recipients)
              in if \<not> fs_inline_enabled S
                 then on_mq (push_only_message_ping (fs_repo S) (fc_push c) ctx m push_recipients cid large) w
                 else on_mq (push_only_message_inline_event (fs_repo S) (fc_push c) ctx m push_recipients cid) w))"

section \<open>Events\<close>

definition is_member_based_conversation :: "string \<Rightarrow> bool" where
  "is_member_based_conversation conversation_id =
     (case trim conversation_id of
        [] \<Rightarrow> False
      | b # _ \<Rightarrow> b \<in> {CHR ''2'', CHR ''3'', CHR ''4'', CHR ''5'', CHR ''7'', CHR ''8''})"

definition record_event_change :: "('sk, 'vk, 'sig, 'q, 'x, 'c) fanout_service \<Rightarrow> int \<Rightarrow> mq_ctx \<Rightarrow> event \<Rightarrow>
     string list \<Rightarrow> ('q, 'x, 'c) fanout_world \<Rightarrow> ('q, 'x, 'c) fanout_world" where
  "record_event_change S due ctx e recipients w =
     (let cid = ev_conversation_id e; seq = ev_conversation_seq e; at = ev_created_at e in
      case fs_index S of
        None \<Rightarrow> w
      | Some ix \<Rightarrow>
          (case (if is_member_based_conversation cid
                 then (case on_index (ux_bump ix ctx cid seq at) w of (r, w) \<Rightarrow> (map_sum (\<lambda>e. e) (\<lambda>v. ()) r, w))
                 else on_index (ux_change ix ctx recipients cid seq at) w) of
             (Inr _, w) \<Rightarrow> w
           | (Inl e, w) \<Rightarrow> enqueue_task S (eager_user_changes ctx recipients cid seq at due) w))"

definition fanout_event :: "('sk, 'vk, 'sig, 'q, 'x, 'c) fanout_service \<Rightarrow> fanout_call \<Rightarrow> mq_ctx \<Rightarrow> event \<Rightarrow>
     string list \<Rightarrow> ('q, 'x, 'c) fanout_world \<Rightarrow> unit result \<times> ('q, 'x, 'c) fanout_world" where
  "fanout_event S c ctx e recipients w =
     (let cid = ev_conversation_id e in
      case on_mq (persistence_only_event (fs_repo S) (fc_store c) ctx e cid) w of
        (Inl err, w) \<Rightarrow> (Err err, w)
      | (Inr _, w) \<Rightarrow>
          on_mq (push_only_event (fs_repo S) (fc_push c) ctx e recipients cid)
            (record_event_change S (fc_due_at c) ctx e recipients w))"

section \<open>The consumer\<close>

definition handle_envelope :: "('sk, 'vk, 'sig, 'q, 'x, 'c) fanout_service \<Rightarrow> fanout_call \<Rightarrow> mq_ctx \<Rightarrow> mq_envelope \<Rightarrow>
     ('q, 'x, 'c) fanout_world \<Rightarrow> unit result \<times> ('q, 'x, 'c) fanout_world" where
  "handle_envelope S c ctx env w =
     (case me_payload_kind env of
        KindMessage \<Rightarrow>
          (case me_payload env of
             Some (PayMessage m) \<Rightarrow> fanout_message S c ctx m (me_recipients env) (me_large_conversation env) w
           | _ \<Rightarrow> (Err (FlareError SystemError ''Message payload is missing in MqEnvelope''), w))
      | KindEvent \<Rightarrow>
          (case me_payload env of
             Some (PayEvent e) \<Rightarrow> fanout_event S c ctx e (me_recipients env) w
           | _ \<Rightarrow> (Err (FlareError SystemError ''Event payload is missing in MqEnvelope''), w))
      | KindOther k \<Rightarrow> (Ok (), w))"

text \<open>A delivery: the transport's headers and the payload, which may not decode.\<close>

record delivery =
  dl_headers :: "string \<rightharpoonup> string"
  dl_envelope :: "mq_envelope option"

datatype consumer_error = Deserialization string | DeadLetter string | HandlerError string

definition envelope_context :: "((string \<rightharpoonup> string) \<Rightarrow> mq_ctx) \<Rightarrow> delivery \<Rightarrow> mq_envelope \<Rightarrow> consumer_error + mq_ctx" where
  "envelope_context of_metadata d env =
     (let ctx = of_metadata (dl_headers d ++ me_headers env) in
      if normalize_optional_tenant_id (mx_tenant_id ctx) = None
      then Inl (DeadLetter ''main queue envelope without a tenant header'') else Inr ctx)"

definition consume_main :: "((string \<rightharpoonup> string) \<Rightarrow> mq_ctx) \<Rightarrow> ('sk, 'vk, 'sig, 'q, 'x, 'c) fanout_service \<Rightarrow> fanout_call \<Rightarrow>
     delivery \<Rightarrow> ('q, 'x, 'c) fanout_world \<Rightarrow> (consumer_error + unit) \<times> ('q, 'x, 'c) fanout_world" where
  "consume_main of_metadata S c d w =
     (case dl_envelope d of
        None \<Rightarrow> (Inl (Deserialization ''Failed to deserialize MqEnvelope''), w)
      | Some env \<Rightarrow>
          (case envelope_context of_metadata d env of
             Inl e \<Rightarrow> (Inl e, w)
           | Inr ctx \<Rightarrow>
               (case handle_envelope S c ctx env w of
                  (Inr _, w) \<Rightarrow> (Inr (), w)
                | (Inl e, w) \<Rightarrow> (Inl (HandlerError (''StorageHandler error: '' @ err_msg e)), w))))"

text \<open>
  What the consumers rely on of \<^verbatim>\<open>context_from_mq_metadata\<close>: the tenant is the header, and headers
  carry neither verified claims nor a recovered proof.
\<close>

definition reads_metadata :: "((string \<rightharpoonup> string) \<Rightarrow> mq_ctx) \<Rightarrow> bool" where
  "reads_metadata of_metadata \<longleftrightarrow> (\<forall>h. mx_tenant_id (of_metadata h) = h ''x-tenant-id''
     \<and> mx_claims (of_metadata h) = None \<and> mx_recovered (of_metadata h) = None)"

section \<open>What the fan-out sends\<close>

lemma fanout_normalize_is_ingest_normalize: "fanout_normalize_routing = normalize_single_chat_routing"
  by (simp add: fun_eq_iff fanout_normalize_routing_def normalize_single_chat_routing_def)

lemma enqueue_task_mq [simp]: "fw_mq (enqueue_task S t w) = fw_mq w"
  by (simp add: enqueue_task_def split: option.splits prod.splits sum.splits)

lemma on_index_mq: "on_index f w = (r, w') \<Longrightarrow> fw_mq w' = fw_mq w \<and> fw_tasks w' = fw_tasks w \<and> fw_queue w' = fw_queue w"
  by (auto simp: on_index_def split: prod.splits)

lemma record_change_mq [simp]:
  "fw_mq (record_message_change S due ctx m rs large w) = fw_mq w"
  "fw_mq (record_event_change S due ctx e rs w) = fw_mq w"
  by (auto simp: record_message_change_def record_event_change_def Let_def split: option.splits prod.splits sum.splits
      dest!: on_index_mq)

text \<open>The record of a message for storage, and of its announcement.\<close>

definition store_record :: "message \<Rightarrow> mq_record \<Rightarrow> bool" where
  "store_record m rec \<longleftrightarrow> mr_topic rec = TOPIC_MESSAGE_CREATED \<and> mr_key rec = Some (m_conversation_id m)
     \<and> (\<exists>mq. mr_body rec = BodyMq mq \<and> me_payload mq = Some (PayMessage m) \<and> me_payload_kind mq = KindMessage
          \<and> me_persistence_only mq \<and> me_recipients mq = [] \<and> mr_headers rec = me_headers mq)"

definition announce_record :: "message \<Rightarrow> string list \<Rightarrow> mq_record \<Rightarrow> bool" where
  "announce_record m rs rec \<longleftrightarrow> mr_topic rec = TOPIC_PUSH_EVENTS \<and> mr_key rec = Some (m_conversation_id m)
     \<and> (\<exists>mq b. mr_body rec = BodyMq mq \<and> me_payload mq = Some (PayEvent (message_event m b)) \<and> me_push_only mq
          \<and> me_recipients mq = rs)"

lemma send_mq_result:
  assumes "send_mq R topic key mq too_large w = (res, w')"
  shows "(res \<noteq> Ok () \<and> mq_sent w' = mq_sent w) \<or> (res = Ok () \<and> mq_sent w' =
     \<lparr>mr_topic = topic, mr_key = Some key, mr_body = BodyMq (finalize_mq_headers mq), mr_headers = me_headers (finalize_mq_headers mq)\<rparr>
       # mq_sent w)"
  using assms by (auto simp: send_mq_def producer_send_def Let_def split: if_split_asm prod.splits sum.splits)

lemma finalize_flags [simp]: "me_persistence_only (finalize_mq_headers mq) = me_persistence_only mq"
    "me_push_only (finalize_mq_headers mq) = me_push_only mq"
  by (simp_all add: finalize_mq_headers_def)

lemma store_result:
  assumes "persistence_only_message R c ctx m (m_conversation_id m) w = (res, w')"
  shows "(res \<noteq> Ok () \<and> mq_sent w' = mq_sent w) \<or> (\<exists>rec h. res = Ok () \<and> mq_sent w' = rec # mq_sent w \<and> store_record m rec
     \<and> message_headers R c ctx m = Ok h)"
  using assms
  by (auto simp: persistence_only_message_def with_headers_def store_record_def envelope_defs split: sum.splits
      dest!: send_mq_result)

lemma announce_result:
  assumes "push_only_message_ping R c ctx m rs (m_conversation_id m) large w = (res, w')
     \<or> push_only_message_inline_event R c ctx m rs (m_conversation_id m) w = (res, w')"
  shows "(res \<noteq> Ok () \<and> mq_sent w' = mq_sent w) \<or> (\<exists>rec. res = Ok () \<and> mq_sent w' = rec # mq_sent w \<and> announce_record m rs rec)"
  using assms
  by (auto simp: push_only_message_ping_def push_only_message_inline_event_def with_headers_def announce_record_def
      envelope_defs Let_def split: sum.splits dest!: send_mq_result)

lemma record_message_change_compensates:
  assumes ix: "fs_index S = Some ix" and enq: "fs_compensation S = Some enq" and up: "\<And>t q. fst (enq t q) = Ok ()"
    and fails: "if large then \<forall>x. \<exists>e. fst (ux_bump ix ctx (m_conversation_id m) (m_conversation_seq m) (m_created_at m) x) = Err e
      else \<forall>x. \<exists>e. fst (ux_change ix ctx rs (m_conversation_id m) (m_conversation_seq m) (m_created_at m) x) = Err e"
    and task: "message_compensation ctx rs (m_conversation_id m) (m_conversation_seq m) (m_created_at m) large due = Some task"
  shows "fw_tasks (record_message_change S due ctx m rs large w) = task # fw_tasks w"
proof -
  have en: "fw_tasks (enqueue_task S (Some task) v) = task # fw_tasks v" for v
    using up [of task "fw_queue v"] by (auto simp: enqueue_task_def enq split: prod.splits sum.splits)
  let ?r = "if large
      then (case on_index (ux_bump ix ctx (m_conversation_id m) (m_conversation_seq m) (m_created_at m)) w of
              (r, w) \<Rightarrow> (map_sum (\<lambda>e. e) (\<lambda>v. ()) r, w))
      else on_index (ux_change ix ctx rs (m_conversation_id m) (m_conversation_seq m) (m_created_at m)) w"
  have "\<exists>e v. ?r = (Err e, v) \<and> fw_tasks v = fw_tasks w"
  proof (cases large)
    case True
    with fails obtain e where "fst (ux_bump ix ctx (m_conversation_id m) (m_conversation_seq m) (m_created_at m) (fw_index w)) = Err e"
      by auto
    with True show ?thesis by (auto simp: on_index_def split: prod.splits)
  next
    case False
    with fails obtain e where "fst (ux_change ix ctx rs (m_conversation_id m) (m_conversation_seq m) (m_created_at m) (fw_index w)) = Err e"
      by auto
    with False show ?thesis by (auto simp: on_index_def split: prod.splits)
  qed
  then obtain e v where "?r = (Err e, v)" "fw_tasks v = fw_tasks w" by blast
  then show ?thesis by (simp add: record_message_change_def ix Let_def task en)
qed

lemma set_normalized_user_ids: "set (normalized_user_ids rs) = {trim u | u. u \<in> set rs \<and> trim u \<noteq> []}"
  by (auto simp: normalized_user_ids_def)

text \<open>A context without verified claims and without a recovered proof cannot publish a machine message.\<close>

lemma queue_headers_no_provenance:
  "mx_claims ctx = None \<Longrightarrow> mx_recovered ctx = None \<Longrightarrow> requires_proof m \<Longrightarrow> \<exists>e. queue_headers L K ctx m signer h = Inl e"
  by (auto simp: queue_headers_def stamp_def machine_claims_def Let_def split: option.splits)

lemma message_headers_no_provenance:
  assumes "mx_claims ctx = None" "mx_recovered ctx = None" "requires_proof m"
  shows "\<exists>e. message_headers R c ctx m = Err e"
proof (cases "build_timeline_headers R c ctx (positive_ts (m_created_at m))")
  case (Inr h)
  with queue_headers_no_provenance [OF assms, of "pr_lib R" "pr_keys R" "pr_signer R" h] show ?thesis
    by (auto simp: message_headers_def)
qed (simp add: message_headers_def)

lemma requires_proof_routing [simp]: "requires_proof (fanout_normalize_routing m rs) = requires_proof m"
  by (auto simp: requires_proof_def fanout_normalize_routing_def split: option.splits)

lemma fanout_no_provenance:
  assumes "mx_claims ctx = None" "mx_recovered ctx = None" "requires_proof m"
  shows "\<exists>e. fanout_message S c ctx m rs large w = (Err e, w)"
proof -
  let ?m = "if large then m else fanout_normalize_routing m rs"
  have "requires_proof ?m" using assms(3) by simp
  from message_headers_no_provenance [OF assms(1,2) this] obtain e where
    "message_headers (fs_repo S) (fc_store c) ctx ?m = Err e" by blast
  then have "persistence_only_message (fs_repo S) (fc_store c) ctx ?m (m_conversation_id ?m) (fw_mq w) = (Err e, fw_mq w)"
    by (simp add: persistence_only_message_def with_headers_def)
  then show ?thesis by (simp add: fanout_message_def on_mq_def Let_def)
qed

text \<open>The fan-out in two steps: the storage record, then the announcement on what that left.\<close>

lemma fanout_message_steps:
  assumes "fanout_message S c ctx m rs large w = (res, w')"
    and "m' = (if large then m else fanout_normalize_routing m rs)"
    and st: "persistence_only_message (fs_repo S) (fc_store c) ctx m' (m_conversation_id m') (fw_mq w) = (r1, q1)"
  shows "(r1 \<noteq> Ok () \<and> res \<noteq> Ok () \<and> mq_sent (fw_mq w') = mq_sent (fw_mq w) \<and> fw_tasks w' = fw_tasks w \<and> fw_index w' = fw_index w)
     \<or> (\<exists>rec. r1 = Ok () \<and> store_record m' rec \<and> mq_sent q1 = rec # mq_sent (fw_mq w)
          \<and> ((res \<noteq> Ok () \<and> mq_sent (fw_mq w') = mq_sent q1)
             \<or> (\<exists>an. res = Ok () \<and> announce_record m' (if large then [] else rs) an \<and> mq_sent (fw_mq w') = an # mq_sent q1)))"
proof -
  let ?rs = "if large then [] else rs"
  let ?v = "record_message_change S (fc_due_at c) ctx m' rs large (w\<lparr>fw_mq := q1\<rparr>)"
  show ?thesis
  proof (cases r1)
    case (Inl e)
    with store_result [OF st] assms show ?thesis
      by (auto simp: fanout_message_def on_mq_def Let_def)
  next
    case (Inr u)
    with store_result [OF st] obtain rec where rec: "store_record m' rec" "mq_sent q1 = rec # mq_sent (fw_mq w)" by auto
    obtain r2 q2 where an: "(if \<not> fs_inline_enabled S
        then push_only_message_ping (fs_repo S) (fc_push c) ctx m' ?rs (m_conversation_id m') large (fw_mq ?v)
        else push_only_message_inline_event (fs_repo S) (fc_push c) ctx m' ?rs (m_conversation_id m') (fw_mq ?v)) = (r2, q2)"
      by fastforce
    then have "(r2 \<noteq> Ok () \<and> mq_sent q2 = mq_sent q1) \<or> (\<exists>a. r2 = Ok () \<and> mq_sent q2 = a # mq_sent q1 \<and> announce_record m' ?rs a)"
      using announce_result [of "fs_repo S" "fc_push c" ctx m' ?rs large q1 r2 q2] by (simp split: if_split_asm)
    moreover have "res = r2 \<and> fw_mq w' = q2"
      using assms st Inr an
      by (cases "fs_inline_enabled S") (auto simp: fanout_message_def on_mq_def Let_def split: prod.splits)
    ultimately show ?thesis using rec Inr by auto
  qed
qed

section \<open>A concrete service\<close>

definition example_fanout :: "(string, string, string, unit, unit, unit) fanout_service" where
  "example_fanout = \<lparr>fs_repo = example_repo,
     fs_index = Some \<lparr>ux_change = (\<lambda>ctx rs cid n at x. (Err (FlareError ServiceUnavailable ''index down''), x)),
       ux_bump = (\<lambda>ctx cid n at x. (Err (FlareError ServiceUnavailable ''index down''), x))\<rparr>,
     fs_compensation = Some (\<lambda>t q. (Ok (), q)), fs_inline_enabled = True\<rparr>"

definition example_fanout_call :: fanout_call where
  "example_fanout_call = \<lparr>fc_store = example_mq_call, fc_push = example_mq_call, fc_due_at = 5\<rparr>"

definition example_fanout_world :: "(unit, unit, unit) fanout_world" where
  "example_fanout_world = \<lparr>fw_mq = \<lparr>mq_state = (), mq_sent = []\<rparr>, fw_index = (), fw_queue = (), fw_tasks = []\<rparr>"

definition plain_of_metadata :: "(string \<rightharpoonup> string) \<Rightarrow> mq_ctx" where
  "plain_of_metadata h = \<lparr>mx_tenant_id = h ''x-tenant-id'', mx_user_id = h ''x-user-id'', mx_claims = None, mx_recovered = None, mx_metadata = h\<rparr>"

lemma plain_reads_metadata: "reads_metadata plain_of_metadata"
  by (simp add: reads_metadata_def plain_of_metadata_def)

definition example_text :: message where
  "example_text = default_message\<lparr>m_server_id := ''srv-1'', m_conversation_id := ''1-x'', m_sender_id := ''alice'',
     m_channel_id := ''bob'', m_conversation_type := 1, m_conversation_seq := 7, m_content := Some (Some (Text ''hi''))\<rparr>"

section \<open>Properties\<close>

text \<open>
  C29: storage comes first. A message is announced to its recipients only after the record for the
  storage writer was accepted; when that fails nothing is sent, no index is touched and no task is
  queued, and the delivery is retried. A large conversation is announced without a recipient list.
\<close>

theorem fanout_stores_before_announcing:
  assumes "fanout_message S c ctx m rs large w = (res, w')"
    and "m' = (if large then m else fanout_normalize_routing m rs)"
  shows "(res \<noteq> Ok () \<and> mq_sent (fw_mq w') = mq_sent (fw_mq w) \<and> fw_tasks w' = fw_tasks w \<and> fw_index w' = fw_index w)
     \<or> (\<exists>st. store_record m' st \<and> res \<noteq> Ok () \<and> mq_sent (fw_mq w') = st # mq_sent (fw_mq w))
     \<or> (\<exists>st an. store_record m' st \<and> announce_record m' (if large then [] else rs) an \<and> res = Ok ()
          \<and> mq_sent (fw_mq w') = an # st # mq_sent (fw_mq w))"
proof -
  obtain r1 q1 where st: "persistence_only_message (fs_repo S) (fc_store c) ctx m' (m_conversation_id m') (fw_mq w) = (r1, q1)"
    by fastforce
  from fanout_message_steps [OF assms st] show ?thesis by auto
qed

theorem fanout_stores_before_announcing_witness:
  "\<exists>st an. announce_record example_text [''bob''] an \<and> store_record example_text st
     \<and> mq_sent (fw_mq (snd (fanout_message example_fanout example_fanout_call (plain_of_metadata [''x-tenant-id'' \<mapsto> ''t1''])
          example_text [''bob''] False example_fanout_world))) = [an, st]"
proof -
  let ?run = "fanout_message example_fanout example_fanout_call (plain_of_metadata [''x-tenant-id'' \<mapsto> ''t1''])
      example_text [''bob''] False example_fanout_world"
  obtain w' where r: "?run = (fst ?run, w')" by (metis prod.collapse)
  have n: "fanout_normalize_routing example_text [''bob''] = example_text"
    by (simp add: fanout_normalize_routing_def example_text_def trim_no_ws is_ws_def)
  have "fst ?run = Ok ()" by code_simp
  moreover have "mq_sent (fw_mq example_fanout_world) = []" by (simp add: example_fanout_world_def)
  ultimately show ?thesis
    using fanout_stores_before_announcing [OF r refl] r n by (auto simp: prod_eq_iff)
qed

text \<open>
  A lost index update is made up for. When a message was stored but the sync index refused the
  update, the fan-out goes on and queues one compensation task with the tenant, conversation and
  sequence number of the message: a version bump for a large conversation, otherwise a change for
  every recipient.
\<close>

theorem failed_index_update_compensated:
  assumes "fanout_message S c ctx m rs large w = (res, w')"
    and "m' = (if large then m else fanout_normalize_routing m rs)"
    and "fst (persistence_only_message (fs_repo S) (fc_store c) ctx m' (m_conversation_id m') (fw_mq w)) = Ok ()"
    and "fs_index S = Some ix" and "fs_compensation S = Some enq" and "\<forall>t q. fst (enq t q) = Ok ()"
    and "if large then \<forall>x. \<exists>e. fst (ux_bump ix ctx (m_conversation_id m') (m_conversation_seq m') (m_created_at m') x) = Err e
      else \<forall>x. \<exists>e. fst (ux_change ix ctx rs (m_conversation_id m') (m_conversation_seq m') (m_created_at m') x) = Err e"
    and "trim (m_conversation_id m') \<noteq> []" and "large \<or> (\<exists>u \<in> set rs. trim u \<noteq> [])"
  shows "\<exists>task. fw_tasks w' = task # fw_tasks w
     \<and> normalize_optional_tenant_id (mx_tenant_id ctx) = Some (ct_tenant_id task)
     \<and> ct_conversation_id task = trim (m_conversation_id m') \<and> ct_max_conversation_seq task = m_conversation_seq m'
     \<and> (if large then ct_kind task = ConversationVersionBump
        else ct_kind task = EagerUserChanges \<and> set (ct_user_ids task) = {trim u | u. u \<in> set rs \<and> trim u \<noteq> []})"
proof -
  obtain q1 where st: "persistence_only_message (fs_repo S) (fc_store c) ctx m' (m_conversation_id m') (fw_mq w) = (Ok (), q1)"
    using assms(3) by (metis prod.collapse)
  from store_result [OF st] obtain h where "message_headers (fs_repo S) (fc_store c) ctx m' = Ok h" by auto
  from message_headers_Ok(1) [OF this] obtain t where t: "normalize_optional_tenant_id (mx_tenant_id ctx) = Some t" by blast
  have "normalized_user_ids rs \<noteq> []" if "\<not> large"
    using assms(9) that set_normalized_user_ids [of rs] by (metis (mono_tags, lifting) empty_iff list.set(1) mem_Collect_eq)
  then obtain task where task: "message_compensation ctx rs (m_conversation_id m') (m_conversation_seq m') (m_created_at m') large
      (fc_due_at c) = Some task" and k: "ct_tenant_id task = t" "ct_conversation_id task = trim (m_conversation_id m')"
      "ct_max_conversation_seq task = m_conversation_seq m'"
      "if large then ct_kind task = ConversationVersionBump
       else ct_kind task = EagerUserChanges \<and> ct_user_ids task = normalized_user_ids rs"
    using t assms(8)
    by (cases large) (simp_all add: message_compensation_def conversation_version_bump_def eager_user_changes_def task_tenant_id_def
        task_new_def Let_def)
  let ?v = "record_message_change S (fc_due_at c) ctx m' rs large (w\<lparr>fw_mq := q1\<rparr>)"
  have "fw_tasks w' = fw_tasks ?v"
    using assms(1,2) st by (auto simp: fanout_message_def on_mq_def Let_def split: if_split_asm prod.splits)
  also have "\<dots> = task # fw_tasks w"
    using record_message_change_compensates [OF assms(4,5) _ assms(7) task] assms(6) by simp
  finally show ?thesis using k t set_normalized_user_ids [of rs] by (cases large) auto
qed

theorem failed_index_update_compensated_witness:
  "\<exists>task. fw_tasks (snd (fanout_message example_fanout example_fanout_call (plain_of_metadata [''x-tenant-id'' \<mapsto> ''t1''])
       example_text [''bob''] False example_fanout_world)) = [task]
     \<and> ct_tenant_id task = ''t1'' \<and> ct_max_conversation_seq task = 7 \<and> ct_kind task = EagerUserChanges"
proof -
  let ?ctx = "plain_of_metadata [''x-tenant-id'' \<mapsto> ''t1'']"
  obtain res w' where r: "fanout_message example_fanout example_fanout_call ?ctx example_text [''bob''] False example_fanout_world = (res, w')"
    by fastforce
  have n: "example_text = (if False then example_text else fanout_normalize_routing example_text [''bob''])"
    by (simp add: fanout_normalize_routing_def example_text_def trim_no_ws is_ws_def)
  have st: "fst (persistence_only_message (fs_repo example_fanout) (fc_store example_fanout_call) ?ctx example_text
      (m_conversation_id example_text) (fw_mq example_fanout_world)) = Ok ()" by code_simp
  have t: "normalize_optional_tenant_id (mx_tenant_id ?ctx) = Some ''t1''" "trim (m_conversation_id example_text) \<noteq> []"
      "trim ''bob'' \<noteq> []" "m_conversation_seq example_text = 7" "fw_tasks example_fanout_world = []"
    by code_simp+
  from failed_index_update_compensated [OF r n st] t r show ?thesis
    by (fastforce simp: example_fanout_def)
qed

text \<open>
  Machine messages stop at the fan-out. The proof a machine message needs can only be made from the
  verified call or from a recovered proof; the orchestrator rebuilds its context from headers, which carry neither,
  so the storage publication is refused with an error on every delivery: nothing reaches the storage
  writer or the recipients.
\<close>

theorem machine_message_stops_at_fanout:
  assumes "reads_metadata of_metadata" and "dl_envelope d = Some env" and "me_payload_kind env = KindMessage"
    and "me_payload env = Some (PayMessage m)" and "requires_proof m"
  shows "\<exists>e. consume_main of_metadata S c d w = (Inl e, w)"
proof -
  let ?ctx = "of_metadata (dl_headers d ++ me_headers env)"
  have "mx_claims ?ctx = None" "mx_recovered ?ctx = None" using assms(1) by (simp_all add: reads_metadata_def)
  from fanout_no_provenance [OF this assms(5)] obtain e where
    "fanout_message S c ?ctx m (me_recipients env) (me_large_conversation env) w = (Err e, w)" by blast
  with assms(2-4) show ?thesis
    by (cases "normalize_optional_tenant_id (mx_tenant_id ?ctx)")
      (simp_all add: consume_main_def handle_envelope_def envelope_context_def Let_def)
qed

definition machine_delivery :: delivery where
  "machine_delivery = \<lparr>dl_headers = [''x-tenant-id'' \<mapsto> ''t1''],
     dl_envelope = Some (mq_envelope_for_main_queue_message_with_headers example_mq_call machine_example_message [''alice'']
       [''x-tenant-id'' \<mapsto> ''t1''] False)\<rparr>"

theorem machine_message_stops_at_fanout_witness:
  "\<exists>e. consume_main plain_of_metadata example_fanout example_fanout_call machine_delivery example_fanout_world
     = (Inl e, example_fanout_world)"
proof -
  let ?env = "mq_envelope_for_main_queue_message_with_headers example_mq_call machine_example_message [''alice'']
       [''x-tenant-id'' \<mapsto> ''t1''] False"
  have "dl_envelope machine_delivery = Some ?env" by (simp add: machine_delivery_def)
  moreover have "me_payload_kind ?env = KindMessage" "me_payload ?env = Some (PayMessage machine_example_message)"
    by (simp_all add: mq_envelope_for_main_queue_message_with_headers_def)
  moreover have "requires_proof machine_example_message" by code_simp
  ultimately show ?thesis by (rule machine_message_stops_at_fanout [OF plain_reads_metadata])
qed

text \<open>
  An event of a group conversation has no recipient list; when the version bump fails, the task the
  event path builds is the per-user one, which is empty: the change is not compensated.
\<close>

lemma event_bump_not_compensated:
  "fw_tasks (record_event_change S due ctx e [] w) = fw_tasks w"
proof -
  have "eager_user_changes ctx [] cid seq at due = None" for cid seq at
    by (simp add: eager_user_changes_def normalized_user_ids_def sort_dedup_def Let_def)
  then show ?thesis
    by (auto simp: record_event_change_def enqueue_task_def Let_def split: option.splits prod.splits sum.splits
        dest!: on_index_mq)
qed

end
