(* ===== verification/Store_Consumer.thy ===== *)
theory Store_Consumer
  imports Message_Fanout "HOL-Library.Multiset" "HOL-Library.Product_Lexorder" "HOL-Library.Option_ord"
begin

text \<open>
  The storage writer's consumer (\<^verbatim>\<open>flare-storage/writer/src/interface/messaging/message_consumer.rs\<close>): which
  deliveries are stored and under which tenant, and how a batch is split into groups before it is
  written. The command keeps the message in its queue form; the writer's own message type and the
  JSON of tags are not opened up.
\<close>

section \<open>Commands\<close>

record store_command =
  scd_conversation_id :: string
  scd_message :: "message option"
  scd_sync :: bool
  scd_tenant :: "(string \<times> string option) option"
  scd_tags :: "string \<rightharpoonup> string"
  scd_metadata :: "string \<rightharpoonup> string"

definition EXTRA_KEY_SYNC :: string where "EXTRA_KEY_SYNC = ''__sync''"
definition EXTRA_KEY_TAGS :: string where "EXTRA_KEY_TAGS = ''__tags''"

definition message_command_from_proto :: "(string \<Rightarrow> (string \<rightharpoonup> string) option) \<Rightarrow> message \<Rightarrow> store_command" where
  "message_command_from_proto parse_map m =
     (let bare = (m_attributes m)(EXTRA_KEY_SYNC := None, EXTRA_KEY_TAGS := None) in
      \<lparr>scd_conversation_id = m_conversation_id m, scd_message = Some (m\<lparr>m_attributes := bare\<rparr>),
       scd_sync = (m_attributes m EXTRA_KEY_SYNC = Some ''true''), scd_tenant = None,
       scd_tags = (case Option.bind (m_attributes m EXTRA_KEY_TAGS) parse_map of None \<Rightarrow> Map.empty | Some t \<Rightarrow> t),
       scd_metadata = bare\<rparr>)"

section \<open>Decoding\<close>

record decoded_store_message =
  ds_ctx :: mq_ctx
  ds_proof :: "receipt option"
  ds_tenant_id :: string
  ds_command :: store_command
  ds_envelope_id :: string
  ds_conversation_id :: string

record ('sk, 'vk, 'sig) store_consumer =
  sc_of_metadata :: "(string \<rightharpoonup> string) \<Rightarrow> mq_ctx"
  sc_parse_map :: "string \<Rightarrow> (string \<rightharpoonup> string) option"
  sc_lib :: "('sk, 'vk, 'sig) proof_lib"
  sc_verifier :: "'vk option"

definition check_proof :: "('sk, 'vk, 'sig) store_consumer \<Rightarrow> string option \<Rightarrow> string \<Rightarrow> message \<Rightarrow>
     consumer_error + receipt option" where
  "check_proof C proof tenant_id m =
     (if requires_proof m \<or> proof \<noteq> None then
        (case (sc_verifier C, proof) of
           (Some v, Some token) \<Rightarrow>
             (case verify (sc_lib C) v token tenant_id m of
                Inl e \<Rightarrow> Inl (DeadLetter ''machine write proof rejected'') | Inr r \<Rightarrow> Inr (Some r))
         | _ \<Rightarrow> Inl (DeadLetter ''machine write proof unavailable''))
      else Inr None)"

definition decode_store_message :: "('sk, 'vk, 'sig) store_consumer \<Rightarrow> delivery \<Rightarrow>
     consumer_error + decoded_store_message option" where
  "decode_store_message C d =
     (case dl_envelope d of
        None \<Rightarrow> Inl (Deserialization ''Failed to deserialize MqEnvelope'')
      | Some env \<Rightarrow>
          if me_payload_kind env \<noteq> KindMessage then Inr None
          else (case me_payload env of
             Some (PayMessage m) \<Rightarrow>
               let merged = dl_headers d ++ me_headers env;
                   proof = merged WRITE_PROOF_HEADER;
                   merged = merged(WRITE_PROOF_HEADER := None);
                   ctx = sc_of_metadata C merged
               in (case normalize_optional_tenant_id (mx_tenant_id ctx) of
                     None \<Rightarrow> Inl (DeadLetter ''stored message without a tenant header'')
                   | Some tenant_id \<Rightarrow>
                       (case check_proof C proof tenant_id m of
                          Inl e \<Rightarrow> Inl e
                        | Inr receipt \<Rightarrow>
                            let cmd = message_command_from_proto (sc_parse_map C) m;
                                cmd = cmd\<lparr>scd_metadata := scd_metadata cmd ++ merged,
                                          scd_tenant := Some (tenant_id, mx_user_id ctx)\<rparr>
                            in Inr (Some \<lparr>ds_ctx = ctx, ds_proof = receipt, ds_tenant_id = tenant_id, ds_command = cmd,
                                 ds_envelope_id = me_envelope_id env, ds_conversation_id = me_conversation_id env\<rparr>)))
           | _ \<Rightarrow> Inl (Deserialization ''Message payload is missing or not Message variant'')))"

section \<open>Batches\<close>

datatype message_result = Ack | DeadLettered

definition batch_group_key :: "decoded_store_message \<Rightarrow> string \<times> string option" where
  "batch_group_key d = (ds_tenant_id d, map_option rcp_message_id (ds_proof d))"

definition batch_result :: "consumer_error + decoded_store_message option \<Rightarrow> message_result" where
  "batch_result r = (case r of Inl e \<Rightarrow> DeadLettered | Inr _ \<Rightarrow> Ack)"

fun batch_decoded :: "(consumer_error + decoded_store_message option) list \<Rightarrow> decoded_store_message list" where
  "batch_decoded [] = []"
| "batch_decoded (Inr (Some d) # rs) = d # batch_decoded rs"
| "batch_decoded (_ # rs) = batch_decoded rs"

text \<open>
  The ordered map of groups: the context of the first command of a key, with the verified proof it carries,
  and its commands in order.
\<close>

type_synonym writer_ctx = "mq_ctx \<times> receipt option"

definition batch_groups :: "decoded_store_message list \<Rightarrow> ((string \<times> string option) \<times> writer_ctx \<times> store_command list) list" where
  "batch_groups ds =
     map (\<lambda>k. let members = filter (\<lambda>d. batch_group_key d = k) ds in (k, (ds_ctx (hd members), ds_proof (hd members)), map ds_command members))
       (sort (remdups (map batch_group_key ds)))"

definition plan_batch :: "('sk, 'vk, 'sig) store_consumer \<Rightarrow> delivery list \<Rightarrow>
     message_result list \<times> ((string \<times> string option) \<times> writer_ctx \<times> store_command list) list" where
  "plan_batch C ds =
     (let rs = map (decode_store_message C) ds in (map batch_result rs, batch_groups (batch_decoded rs)))"

section \<open>What decoding admits\<close>

lemma decode_store_message_Some:
  assumes "decode_store_message C d = Inr (Some x)"
  obtains env m t where "dl_envelope d = Some env" "me_payload env = Some (PayMessage m)" "me_payload_kind env = KindMessage"
    "normalize_optional_tenant_id (mx_tenant_id (sc_of_metadata C ((dl_headers d ++ me_headers env)(WRITE_PROOF_HEADER := None)))) = Some t"
    "check_proof C ((dl_headers d ++ me_headers env) WRITE_PROOF_HEADER) t m = Inr (ds_proof x)"
    "ds_tenant_id x = t" "ds_command x = (message_command_from_proto (sc_parse_map C) m)
       \<lparr>scd_metadata := scd_metadata (message_command_from_proto (sc_parse_map C) m)
          ++ (dl_headers d ++ me_headers env)(WRITE_PROOF_HEADER := None),
        scd_tenant := Some (t, mx_user_id (sc_of_metadata C ((dl_headers d ++ me_headers env)(WRITE_PROOF_HEADER := None))))\<rparr>"
proof -
  from assms obtain env m where 1: "dl_envelope d = Some env" "me_payload env = Some (PayMessage m)" "me_payload_kind env = KindMessage"
    by (auto simp: decode_store_message_def split: option.split_asm if_split_asm mq_payload.split_asm)
  let ?h = "(dl_headers d ++ me_headers env)(WRITE_PROOF_HEADER := None)"
  from assms 1 obtain t where t: "normalize_optional_tenant_id (mx_tenant_id (sc_of_metadata C ?h)) = Some t"
    by (cases "normalize_optional_tenant_id (mx_tenant_id (sc_of_metadata C ?h))") (auto simp: decode_store_message_def Let_def)
  from assms 1 t obtain r where r: "check_proof C ((dl_headers d ++ me_headers env) WRITE_PROOF_HEADER) t m = Inr r"
    by (cases "check_proof C ((dl_headers d ++ me_headers env) WRITE_PROOF_HEADER) t m") (auto simp: decode_store_message_def Let_def)
  show ?thesis
    by (rule that [OF 1 t]) (use assms 1 t r in \<open>auto simp: decode_store_message_def Let_def\<close>)
qed

lemma check_proof_Inr:
  assumes "check_proof C proof t m = Inr r"
  shows "(r = None \<and> \<not> requires_proof m \<and> proof = None)
    \<or> (\<exists>v token rec. sc_verifier C = Some v \<and> proof = Some token \<and> verify (sc_lib C) v token t m = Inr rec \<and> r = Some rec)"
  using assms by (auto simp: check_proof_def split: if_split_asm option.splits sum.splits)

section \<open>How a batch is split\<close>

lemma concat_filter_partition:
  "distinct ks \<Longrightarrow> mset (concat (map (\<lambda>k. filter (\<lambda>d. f d = k) ds) ks)) = mset (filter (\<lambda>d. f d \<in> set ks) ds)"
proof (induction ks)
  case (Cons k ks)
  have "mset (filter (\<lambda>d. f d = k \<or> f d \<in> set ks) ds) = mset (filter (\<lambda>d. f d = k) ds) + mset (filter (\<lambda>d. f d \<in> set ks) ds)"
    using Cons.prems by (induction ds) auto
  with Cons show ?case by simp
qed simp

lemma batch_groups_commands:
  "mset (concat (map (snd \<circ> snd) (batch_groups ds))) = mset (map ds_command ds)"
proof -
  let ?ks = "sort (remdups (map batch_group_key ds))"
  have "concat (map (snd \<circ> snd) (batch_groups ds)) = map ds_command (concat (map (\<lambda>k. filter (\<lambda>d. batch_group_key d = k) ds) ?ks))"
    by (simp add: batch_groups_def comp_def Let_def map_concat)
  moreover have "filter (\<lambda>d. batch_group_key d \<in> set ?ks) ds = ds" by (rule filter_True) auto
  ultimately show ?thesis
    using concat_filter_partition [of ?ks batch_group_key ds] by simp
qed

lemma batch_groups_members:
  assumes "(k, ctx, cmds) \<in> set (batch_groups ds)" "cmd \<in> set cmds"
  shows "\<exists>d \<in> set ds. batch_group_key d = k \<and> cmd = ds_command d"
  using assms by (auto simp: batch_groups_def Let_def)

lemma in_batch_decoded: "d \<in> set (batch_decoded rs) \<longleftrightarrow> Inr (Some d) \<in> set rs"
  by (induction rs rule: batch_decoded.induct) auto

section \<open>A concrete consumer\<close>

definition example_consumer :: "(string, string, string) store_consumer" where
  "example_consumer = \<lparr>sc_of_metadata = plain_of_metadata, sc_parse_map = (\<lambda>s. None), sc_lib = plain_proof_lib,
     sc_verifier = Some ''k''\<rparr>"

definition example_delivery :: delivery where
  "example_delivery = \<lparr>dl_headers = [''x-tenant-id'' \<mapsto> ''t1''],
     dl_envelope = Some (mq_envelope_for_main_queue_message_with_headers example_mq_call
       (example_text\<lparr>m_attributes := [''x-tenant-id'' \<mapsto> ''other'']\<rparr>) [] [''x-tenant-id'' \<mapsto> ''t1''] False)\<rparr>"

definition tenantless_delivery :: delivery where
  "tenantless_delivery = \<lparr>dl_headers = Map.empty,
     dl_envelope = Some (mq_envelope_for_main_queue_message_with_headers example_mq_call example_text [] Map.empty False)\<rparr>"

lemma example_decodes: "\<exists>x. decode_store_message example_consumer example_delivery = Inr (Some x)"
proof -
  have "case decode_store_message example_consumer example_delivery of Inl e \<Rightarrow> False | Inr r \<Rightarrow> \<not> Option.is_none r" by code_simp
  then show ?thesis
    by (cases "decode_store_message example_consumer example_delivery"; cases "projr (decode_store_message example_consumer example_delivery)")
      auto
qed

section \<open>Properties\<close>

text \<open>
  The writer stores under the producer's tenant. A delivery that is stored is stored under the tenant
  of its headers, whatever tenant the message's own attributes claim, and a machine message only
  with a proof that verifies for that tenant and that message.
\<close>

theorem stored_under_header_tenant:
  assumes "decode_store_message C d = Inr (Some x)" and "reads_metadata (sc_of_metadata C)"
  shows "\<exists>env m. dl_envelope d = Some env \<and> me_payload env = Some (PayMessage m)
     \<and> normalize_optional_tenant_id ((dl_headers d ++ me_headers env) ''x-tenant-id'') = Some (ds_tenant_id x)
     \<and> map_option fst (scd_tenant (ds_command x)) = Some (ds_tenant_id x)
     \<and> scd_metadata (ds_command x) ''x-tenant-id'' = (dl_headers d ++ me_headers env) ''x-tenant-id''
     \<and> (requires_proof m \<longrightarrow> (\<exists>v token r. sc_verifier C = Some v \<and> (dl_headers d ++ me_headers env) WRITE_PROOF_HEADER = Some token
          \<and> verify (sc_lib C) v token (ds_tenant_id x) m = Inr r \<and> ds_proof x = Some r))"
proof -
  from decode_store_message_Some [OF assms(1)] obtain env m t where
    d: "dl_envelope d = Some env" "me_payload env = Some (PayMessage m)" "me_payload_kind env = KindMessage"
    "normalize_optional_tenant_id (mx_tenant_id (sc_of_metadata C ((dl_headers d ++ me_headers env)(WRITE_PROOF_HEADER := None)))) = Some t"
    "check_proof C ((dl_headers d ++ me_headers env) WRITE_PROOF_HEADER) t m = Inr (ds_proof x)"
    "ds_tenant_id x = t" "ds_command x = (message_command_from_proto (sc_parse_map C) m)
       \<lparr>scd_metadata := scd_metadata (message_command_from_proto (sc_parse_map C) m)
          ++ (dl_headers d ++ me_headers env)(WRITE_PROOF_HEADER := None),
        scd_tenant := Some (t, mx_user_id (sc_of_metadata C ((dl_headers d ++ me_headers env)(WRITE_PROOF_HEADER := None))))\<rparr>"
    by blast
  have tenant: "normalize_optional_tenant_id ((dl_headers d ++ me_headers env) ''x-tenant-id'') = Some t"
    using d(4) assms(2) by (simp add: reads_metadata_def)
  then have "\<exists>v. (dl_headers d ++ me_headers env) ''x-tenant-id'' = Some v"
    by (auto simp: normalize_optional_tenant_id_def split: option.splits)
  then have "scd_metadata (ds_command x) ''x-tenant-id'' = (dl_headers d ++ me_headers env) ''x-tenant-id''"
    by (auto simp: d(7) map_add_def split: option.splits)
  with d tenant check_proof_Inr [OF d(5)] show ?thesis by auto
qed

theorem stored_under_header_tenant_witness:
  "\<exists>x. decode_store_message example_consumer example_delivery = Inr (Some x) \<and> ds_tenant_id x = ''t1''
     \<and> scd_metadata (ds_command x) ''x-tenant-id'' = Some ''t1''"
proof -
  obtain x where x: "decode_store_message example_consumer example_delivery = Inr (Some x)" using example_decodes by blast
  have "reads_metadata (sc_of_metadata example_consumer)" by (simp add: example_consumer_def plain_reads_metadata)
  from stored_under_header_tenant [OF x this] obtain env where
    e: "dl_envelope example_delivery = Some env"
      "normalize_optional_tenant_id ((dl_headers example_delivery ++ me_headers env) ''x-tenant-id'') = Some (ds_tenant_id x)"
      "scd_metadata (ds_command x) ''x-tenant-id'' = (dl_headers example_delivery ++ me_headers env) ''x-tenant-id''" by blast
  have h: "(dl_headers example_delivery ++ me_headers env) ''x-tenant-id'' = Some ''t1''"
    if "dl_envelope example_delivery = Some env" for env
    using that by (auto simp: example_delivery_def mq_envelope_for_main_queue_message_with_headers_def)
  have "normalize_optional_tenant_id (Some ''t1'') = Some ''t1''" by code_simp
  with e h [OF e(1)] x show ?thesis by auto
qed

text \<open>
  A batch is split without loss. Every decodable delivery's command is written in exactly one group,
  each group holds commands of one tenant only, a machine message shares a group only with deliveries of
  its own message id, and exactly the undecodable deliveries are dead-lettered, one by one.
\<close>

theorem batch_split_by_tenant:
  assumes "plan_batch C ds = (results, groups)"
  shows "mset (concat (map (snd \<circ> snd) groups)) = mset (map ds_command (batch_decoded (map (decode_store_message C) ds)))
     \<and> distinct (map fst groups)
     \<and> (\<forall>(k, ctx, cmds) \<in> set groups. \<forall>cmd \<in> set cmds. map_option fst (scd_tenant cmd) = Some (fst k)
          \<and> (\<forall>i. snd k = Some i \<longrightarrow> map_option m_server_id (scd_message cmd) = Some i))
     \<and> results = map (\<lambda>d. if sum.isl (decode_store_message C d) then DeadLettered else Ack) ds"
proof -
  let ?ds = "batch_decoded (map (decode_store_message C) ds)"
  have g: "groups = batch_groups ?ds" "results = map batch_result (map (decode_store_message C) ds)"
    using assms by (simp_all add: plan_batch_def Let_def)
  have key: "map_option fst (scd_tenant (ds_command x)) = Some (ds_tenant_id x)
      \<and> (\<forall>i. map_option rcp_message_id (ds_proof x) = Some i \<longrightarrow> map_option m_server_id (scd_message (ds_command x)) = Some i)"
    if "x \<in> set ?ds" for x
  proof -
    from that obtain d where "decode_store_message C d = Inr (Some x)" by (auto simp: in_batch_decoded)
    then show ?thesis
    proof (rule decode_store_message_Some)
      fix env m t
      assume p: "check_proof C ((dl_headers d ++ me_headers env) WRITE_PROOF_HEADER) t m = Inr (ds_proof x)"
        and x: "ds_tenant_id x = t" "ds_command x = (message_command_from_proto (sc_parse_map C) m)
       \<lparr>scd_metadata := scd_metadata (message_command_from_proto (sc_parse_map C) m)
          ++ (dl_headers d ++ me_headers env)(WRITE_PROOF_HEADER := None),
        scd_tenant := Some (t, mx_user_id (sc_of_metadata C ((dl_headers d ++ me_headers env)(WRITE_PROOF_HEADER := None))))\<rparr>"
      from check_proof_Inr [OF p] x show ?thesis
        by (auto simp: message_command_from_proto_def Let_def dest!: verify_Inr)
    qed
  qed
  have "map fst (batch_groups ?ds) = sort (remdups (map batch_group_key ?ds))"
    by (simp add: batch_groups_def comp_def Let_def)
  then have "distinct (map fst groups)" by (simp add: g(1))
  moreover have "\<forall>(k, ctx, cmds) \<in> set groups. \<forall>cmd \<in> set cmds. map_option fst (scd_tenant cmd) = Some (fst k)
          \<and> (\<forall>i. snd k = Some i \<longrightarrow> map_option m_server_id (scd_message cmd) = Some i)"
    using key batch_groups_members [of _ _ _ ?ds] unfolding g(1) by (fastforce simp: batch_group_key_def)
  moreover have "results = map (\<lambda>d. if sum.isl (decode_store_message C d) then DeadLettered else Ack) ds"
    by (auto simp: g(2) batch_result_def split: sum.splits)
  ultimately show ?thesis using batch_groups_commands [of ?ds] g(1) by simp
qed

theorem batch_split_by_tenant_witness:
  "length (concat (map (snd \<circ> snd) (snd (plan_batch example_consumer [example_delivery, tenantless_delivery, example_delivery])))) = 2
     \<and> fst (plan_batch example_consumer [example_delivery, tenantless_delivery, example_delivery]) = [Ack, DeadLettered, Ack]"
proof -
  let ?ds = "[example_delivery, tenantless_delivery, example_delivery]"
  obtain results groups where p: "plan_batch example_consumer ?ds = (results, groups)" by fastforce
  note s = batch_split_by_tenant [OF p]
  have "length (batch_decoded (map (decode_store_message example_consumer) ?ds)) = 2" by code_simp
  moreover have "size (mset (concat (map (snd \<circ> snd) groups)))
      = size (mset (map ds_command (batch_decoded (map (decode_store_message example_consumer) ?ds))))"
    by (rule arg_cong [OF conjunct1 [OF s]])
  ultimately have "length (concat (map (snd \<circ> snd) groups)) = 2" by (simp only: size_mset length_map)
  moreover have "sum.isl (decode_store_message example_consumer example_delivery) = False"
    "sum.isl (decode_store_message example_consumer tenantless_delivery) = True" by code_simp+
  ultimately show ?thesis using conjunct2 [OF conjunct2 [OF conjunct2 [OF s]]] p by simp
qed

end
