(* ===== verification/Archive_Store.thy ===== *)
theory Archive_Store
  imports Store_Consumer
begin

text \<open>
  The writer's archive (\<^verbatim>\<open>flare-storage/writer/src/infrastructure/persistence/repository/postgres_store.rs\<close>): the
  send ledger that recognizes a message sent twice, the write ledger, the message table and the audit
  outbox, as the transactions of \<^verbatim>\<open>archive_messages\<close> change them. PostgreSQL itself is not modelled
  beyond what the statements say: tables are maps from their unique keys to rows, an insert
  \<^verbatim>\<open>ON CONFLICT DO NOTHING\<close> keeps a row that is there, a transaction that is not committed leaves nothing
  behind. Which statement fails, how the commit ends and which ledger rows the retention job deletes while the
  transaction runs are parameters of each attempt.
\<close>

section \<open>Tables\<close>

type_synonym ledger_key = "string \<times> string \<times> string"

record ledger_row =
  sl_conversation_id :: string
  sl_server_id :: string
  sl_seq :: int
  sl_created_at :: int

datatype message_write_stage =
    ArchivePersisted | StoragePersisted | WalCleaned | WalCleanupFailed | AckPublished | AckPublishFailed

fun stage_as_str :: "message_write_stage \<Rightarrow> string" where
  "stage_as_str ArchivePersisted = ''archive_persisted''"
| "stage_as_str StoragePersisted = ''storage_persisted''"
| "stage_as_str WalCleaned = ''wal_cleaned''"
| "stage_as_str WalCleanupFailed = ''wal_cleanup_failed''"
| "stage_as_str AckPublished = ''ack_published''"
| "stage_as_str AckPublishFailed = ''ack_publish_failed''"

fun timestamp_column :: "message_write_stage \<Rightarrow> string" where
  "timestamp_column ArchivePersisted = ''archive_persisted_at''"
| "timestamp_column StoragePersisted = ''storage_persisted_at''"
| "timestamp_column WalCleaned = ''wal_cleaned_at''"
| "timestamp_column WalCleanupFailed = ''failed_at''"
| "timestamp_column AckPublishFailed = ''failed_at''"
| "timestamp_column AckPublished = ''ack_published_at''"

record write_row =
  wl_conversation_id :: string
  wl_seq :: int
  wl_write_state :: "string option"
  wl_last_error :: "string option"
  wl_times :: "string \<rightharpoonup> int"

record message_row =
  row_tenant_id :: string
  row_server_id :: string
  row_conversation_id :: string
  row_client_msg_id :: "string option"
  row_sender_id :: string
  row_sender_name :: "string option"
  row_sender_avatar :: "string option"
  row_channel_id :: "string option"
  row_thread_id :: "string option"
  row_source :: int
  row_seq :: int
  row_conversation_type :: int
  row_message_type :: message_type
  row_content :: "string option"
  row_status :: int
  row_retention :: "bool \<times> int option \<times> int \<times> int option \<times> int option \<times> int option"
  row_offline_push_info :: "string option"
  row_extra :: "string \<rightharpoonup> string"
  row_extensions :: "string \<rightharpoonup> string"
  row_created_at :: int

record audit_row =
  au_app_id :: string
  au_request_id :: string
  au_actor :: string
  au_permission :: string
  au_credential :: string
  au_aggregate_id :: string

record pg_db =
  db_send_ledger :: "ledger_key \<rightharpoonup> ledger_row"
  db_write_ledger :: "string \<times> string \<rightharpoonup> write_row"
  db_messages :: "string \<times> string \<times> int \<rightharpoonup> message_row"
  db_audit :: "audit_row list"

text \<open>
  One attempt of a transaction. \<^term>\<open>CommitUnknown\<close> is a commit that the server made although the caller
  sees an error. The clock of the attempt serves \<^verbatim>\<open>CURRENT_TIMESTAMP\<close>.
\<close>

datatype pg_stmt =
    BeginTx | ClaimKeys | ReadOccupants | InsertWriteLedger | InsertMessages | UpdateStage nat | InsertAudit nat

datatype commit_result = CommitOk | CommitRefused | CommitUnknown

record pg_attempt =
  pa_fails :: "pg_stmt \<Rightarrow> bool"
  pa_commit :: commit_result
  pa_expired :: "ledger_key \<Rightarrow> bool"
  pa_now :: int

section \<open>Rows\<close>

definition LEGACY_BURN_STATUS_INIT :: int where "LEGACY_BURN_STATUS_INIT = 1"
definition LEGACY_BURN_STATUS_READ :: int where "LEGACY_BURN_STATUS_READ = 2"
definition LEGACY_BURN_STATUS_BURN_PENDING :: int where "LEGACY_BURN_STATUS_BURN_PENDING = 3"
definition LEGACY_BURN_STATUS_BURNED :: int where "LEGACY_BURN_STATUS_BURNED = 4"
definition LEGACY_BURN_STATUS_HARD_DELETED :: int where "LEGACY_BURN_STATUS_HARD_DELETED = 5"

definition retention_enabled :: "retention_policy option \<Rightarrow> retention_state option \<Rightarrow> bool" where
  "retention_enabled policy state \<longleftrightarrow>
     (case policy of None \<Rightarrow> False
      | Some p \<Rightarrow> (case rp_mode p of RetentionUnspecified \<Rightarrow> False | RetentionNone \<Rightarrow> False
          | RetentionUnknown _ \<Rightarrow> False | _ \<Rightarrow> True))
     \<or> state \<noteq> None"

definition legacy_burn_status :: "retention_state option \<Rightarrow> int" where
  "legacy_burn_status state =
     (case map_option rt_lifecycle state of
        Some LifecycleScheduled \<Rightarrow> LEGACY_BURN_STATUS_BURN_PENDING
      | Some LifecycleExpired \<Rightarrow> LEGACY_BURN_STATUS_BURNED
      | Some LifecyclePurged \<Rightarrow> LEGACY_BURN_STATUS_HARD_DELETED
      | Some LifecycleActive \<Rightarrow> LEGACY_BURN_STATUS_READ
      | _ \<Rightarrow> LEGACY_BURN_STATUS_INIT)"

definition or_else :: "'a option \<Rightarrow> 'a option \<Rightarrow> 'a option" where
  "or_else a b = (case a of None \<Rightarrow> b | Some x \<Rightarrow> Some x)"

definition keep_if :: "('a \<Rightarrow> bool) \<Rightarrow> 'a option \<Rightarrow> 'a option" where
  "keep_if p x = (case x of None \<Rightarrow> None | Some v \<Rightarrow> if p v then Some v else None)"

definition legacy_retention_columns ::
  "message \<Rightarrow> bool \<times> int option \<times> int \<times> int option \<times> int option \<times> int option" where
  "legacy_retention_columns m =
     (let policy = m_retention_policy m; state = m_retention_state m in
      (retention_enabled policy state,
       keep_if (\<lambda>s. 0 < s) (Option.bind policy rp_expire_after_seconds),
       legacy_burn_status state,
       Option.bind state rt_first_triggered_at,
       or_else (Option.bind state rt_expire_at) (Option.bind policy rp_expire_at),
       Option.bind state (\<lambda>s. or_else (rt_expired_at s) (rt_purged_at s))))"

definition resolve_tenant_id :: "mq_ctx \<Rightarrow> string \<Rightarrow> (string \<rightharpoonup> string) \<Rightarrow> string result" where
  "resolve_tenant_id ctx message_id extra =
     (case keep_if (\<lambda>t. trim t \<noteq> []) (mx_tenant_id ctx) of
        Some t \<Rightarrow> Ok (normalize_tenant_id t)
      | None \<Rightarrow> (case keep_if (\<lambda>t. trim t \<noteq> []) (extra ''tenant_id'') of
          Some t \<Rightarrow> Ok (normalize_tenant_id t)
        | None \<Rightarrow> Err (FlareError SystemError (''tenant_id is required for message '' @ message_id))))"

text \<open>
  What the writer takes from libraries: the encoding of the content, the range of timestamps the date type
  holds, and the size of a message (encoded content plus the JSON of its attributes).
\<close>

record archive_env =
  ae_encode_content :: "content option \<Rightarrow> string"
  ae_date_ok :: "int \<Rightarrow> bool"
  ae_size :: "message \<Rightarrow> nat"

definition get_message_timestamp :: "archive_env \<Rightarrow> int \<Rightarrow> message \<Rightarrow> int" where
  "get_message_timestamp A now m =
     (if 0 < m_created_at m then (if ae_date_ok A (m_created_at m) then m_created_at m else now) else now)"

abbreviation non_empty :: "string \<Rightarrow> string option" where
  "non_empty s \<equiv> (if s = [] then None else Some s)"

text \<open>The values of one row, or why the message cannot be archived; \<open>now\<close> is the wall clock when they are read.\<close>

definition prepare_row :: "archive_env \<Rightarrow> int \<Rightarrow> mq_ctx \<Rightarrow> message \<Rightarrow> message_row result" where
  "prepare_row A now ctx m =
     (if i64_max < int (m_conversation_seq m)
      then Err (FlareError SystemError (''invalid seq overflow for message '' @ m_server_id m))
      else if int (m_conversation_seq m) \<le> 0
      then Err (FlareError SystemError (''message must be assigned in orchestrator: '' @ m_server_id m))
      else and_then (resolve_tenant_id ctx (m_server_id m) (m_attributes m))
        (\<lambda>tenant_id. Ok \<lparr>row_tenant_id = tenant_id, row_server_id = m_server_id m,
           row_conversation_id = m_conversation_id m, row_client_msg_id = non_empty (m_client_msg_id m),
           row_sender_id = m_sender_id m, row_sender_name = non_empty (m_sender_name m),
           row_sender_avatar = non_empty (m_sender_avatar m), row_channel_id = non_empty (m_channel_id m),
           row_thread_id = keep_if (\<lambda>t. t \<noteq> []) (m_thread_id m), row_source = m_source m,
           row_seq = int (m_conversation_seq m), row_conversation_type = m_conversation_type m,
           row_message_type = m_message_type m, row_content = map_option (ae_encode_content A) (m_content m),
           row_status = m_status m, row_retention = legacy_retention_columns m,
           row_offline_push_info = m_offline_push_info m, row_extra = m_attributes m,
           row_extensions = m_extensions m, row_created_at = get_message_timestamp A now m\<rparr>))"

section \<open>The send ledger\<close>

record ledger_claim =
  lc_tenant_id :: string
  lc_sender_id :: string
  lc_client_msg_id :: string
  lc_conversation_id :: string
  lc_server_id :: string
  lc_seq :: int

definition claim_of :: "message_row \<Rightarrow> ledger_claim option" where
  "claim_of row =
     map_option (\<lambda>c. \<lparr>lc_tenant_id = row_tenant_id row, lc_sender_id = row_sender_id row, lc_client_msg_id = c,
         lc_conversation_id = row_conversation_id row, lc_server_id = row_server_id row, lc_seq = row_seq row\<rparr>)
       (keep_if (\<lambda>c. trim c \<noteq> []) (row_client_msg_id row))"

definition claim_key :: "ledger_claim \<Rightarrow> ledger_key" where
  "claim_key c = (lc_tenant_id c, lc_sender_id c, lc_client_msg_id c)"

record ledger_duplicate =
  ld_server_id :: string
  ld_original_server_id :: string

record archive_outcome =
  ao_duplicates :: "ledger_duplicate list"
  ao_reused_client_msg_ids :: nat

definition default_outcome :: archive_outcome where
  "default_outcome = \<lparr>ao_duplicates = [], ao_reused_client_msg_ids = 0\<rparr>"

definition is_duplicate :: "archive_outcome \<Rightarrow> string \<Rightarrow> bool" where
  "is_duplicate outcome server_id \<longleftrightarrow> (\<exists>d \<in> set (ao_duplicates outcome). ld_server_id d = server_id)"

definition merge_outcome :: "archive_outcome \<Rightarrow> archive_outcome \<Rightarrow> archive_outcome" where
  "merge_outcome a b = \<lparr>ao_duplicates = ao_duplicates a @ ao_duplicates b,
     ao_reused_client_msg_ids = ao_reused_client_msg_ids a + ao_reused_client_msg_ids b\<rparr>"

text \<open>\<^verbatim>\<open>INSERT ... ON CONFLICT DO NOTHING RETURNING server_id\<close>, in the order of the claims.\<close>

fun claim_rows :: "int \<Rightarrow> ledger_claim list \<Rightarrow> (ledger_key \<rightharpoonup> ledger_row) \<Rightarrow> string list \<times> (ledger_key \<rightharpoonup> ledger_row)" where
  "claim_rows now [] ledger = ([], ledger)"
| "claim_rows now (c # cs) ledger =
     (case ledger (claim_key c) of
        Some _ \<Rightarrow> claim_rows now cs ledger
      | None \<Rightarrow>
          (case claim_rows now cs (ledger(claim_key c \<mapsto> \<lparr>sl_conversation_id = lc_conversation_id c,
                    sl_server_id = lc_server_id c, sl_seq = lc_seq c, sl_created_at = now\<rparr>)) of
             (claimed, ledger) \<Rightarrow> (lc_server_id c # claimed, ledger)))"

text \<open>The rows the retention job has deleted meanwhile; rows of the own transaction are not among them.\<close>

definition retain :: "pg_attempt \<Rightarrow> (ledger_key \<rightharpoonup> ledger_row) \<Rightarrow> (ledger_key \<rightharpoonup> ledger_row) \<Rightarrow> (ledger_key \<rightharpoonup> ledger_row)" where
  "retain F before ledger = (\<lambda>k. if pa_expired F k \<and> before k \<noteq> None then None else ledger k)"

fun judge_claims :: "(ledger_key \<rightharpoonup> ledger_row) \<Rightarrow> ledger_claim list \<Rightarrow> archive_outcome \<Rightarrow> archive_outcome" where
  "judge_claims occupants [] outcome = outcome"
| "judge_claims occupants (c # cs) outcome =
     judge_claims occupants cs
       (case occupants (claim_key c) of
          None \<Rightarrow> outcome
        | Some o' \<Rightarrow>
            if sl_server_id o' = lc_server_id c then outcome
            else if sl_conversation_id o' \<noteq> lc_conversation_id c
            then outcome\<lparr>ao_reused_client_msg_ids := ao_reused_client_msg_ids outcome + 1\<rparr>
            else outcome\<lparr>ao_duplicates := ao_duplicates outcome
                   @ [\<lparr>ld_server_id = lc_server_id c, ld_original_server_id = sl_server_id o'\<rparr>]\<rparr>)"

definition claim_send_idempotency :: "pg_attempt \<Rightarrow> ledger_claim list \<Rightarrow> pg_db \<Rightarrow> archive_outcome result \<times> pg_db" where
  "claim_send_idempotency F claims db =
     (if claims = [] then (Ok default_outcome, db)
      else if pa_fails F ClaimKeys
      then (Err (FlareError SystemError ''claim message idempotency ledger failed''), db)
      else
        let (claimed, ledger) = claim_rows (pa_now F) claims (db_send_ledger db)
        in if length (remdups claimed) = length claims
           then (Ok default_outcome, db\<lparr>db_send_ledger := ledger\<rparr>)
           else if pa_fails F ReadOccupants
           then (Err (FlareError SystemError ''read message idempotency ledger occupants failed''), db)
           else
             let unclaimed = filter (\<lambda>c. lc_server_id c \<notin> set claimed) claims;
                 ledger = retain F (db_send_ledger db) ledger
             in (Ok (judge_claims ledger unclaimed default_outcome), db\<lparr>db_send_ledger := ledger\<rparr>))"

definition delete_created_before :: "int \<Rightarrow> (ledger_key \<Rightarrow> bool) \<Rightarrow> pg_db \<Rightarrow> pg_db" where
  "delete_created_before cutoff picked db =
     db\<lparr>db_send_ledger := (\<lambda>k. case db_send_ledger db k of None \<Rightarrow> None
        | Some r \<Rightarrow> if sl_created_at r < cutoff \<and> picked k then None else Some r)\<rparr>"

section \<open>Archiving\<close>

fun insert_write_ledger :: "message_row list \<Rightarrow> (string \<times> string \<rightharpoonup> write_row) \<Rightarrow>
     (string \<times> string) list \<times> (string \<times> string \<rightharpoonup> write_row)" where
  "insert_write_ledger [] ledger = ([], ledger)"
| "insert_write_ledger (row # rows) ledger =
     (let k = (row_tenant_id row, row_server_id row) in
      case ledger k of
        Some _ \<Rightarrow> insert_write_ledger rows ledger
      | None \<Rightarrow>
          (case insert_write_ledger rows (ledger(k \<mapsto> \<lparr>wl_conversation_id = row_conversation_id row, wl_seq = row_seq row,
                    wl_write_state = None, wl_last_error = None, wl_times = Map.empty\<rparr>)) of
             (inserted, ledger) \<Rightarrow> (k # inserted, ledger)))"

definition row_key :: "message_row \<Rightarrow> string \<times> string \<times> int" where
  "row_key row = (row_tenant_id row, row_server_id row, row_created_at row)"

fun insert_messages :: "message_row list \<Rightarrow> (string \<times> string \<times> int \<rightharpoonup> message_row) \<Rightarrow> (string \<times> string \<times> int \<rightharpoonup> message_row)" where
  "insert_messages [] table = table"
| "insert_messages (row # rows) table =
     insert_messages rows (case table (row_key row) of Some _ \<Rightarrow> table | None \<Rightarrow> table(row_key row \<mapsto> row))"

definition archive_stage :: "int \<Rightarrow> write_row \<Rightarrow> write_row" where
  "archive_stage now w =
     w\<lparr>wl_write_state := Some (stage_as_str ArchivePersisted), wl_last_error := None,
       wl_times := (wl_times w)(''archive_persisted_at'' \<mapsto> (case wl_times w ''archive_persisted_at'' of None \<Rightarrow> now | Some t \<Rightarrow> t),
                                ''updated_at'' \<mapsto> now)\<rparr>"

fun update_stages :: "pg_attempt \<Rightarrow> nat \<Rightarrow> message_row list \<Rightarrow> pg_db \<Rightarrow> unit result \<times> pg_db" where
  "update_stages F i [] db = (Ok (), db)"
| "update_stages F i (row # rows) db =
     (if pa_fails F (UpdateStage i)
      then (Err (FlareError SystemError (''update message write ledger archive stage failed message_id='' @ row_server_id row)), db)
      else let k = (row_tenant_id row, row_server_id row) in
        update_stages F (i + 1) rows
          (db\<lparr>db_write_ledger := (db_write_ledger db)(k := map_option (archive_stage (pa_now F)) (db_write_ledger db k))\<rparr>))"

definition record_proof :: "receipt \<Rightarrow> message_row \<Rightarrow> pg_db \<Rightarrow> unit result \<times> pg_db" where
  "record_proof r row db =
     (if rcp_app r \<noteq> row_tenant_id row \<or> rcp_message_id r \<noteq> row_server_id row \<or> rcp_conversation r \<noteq> row_conversation_id row
      then (Err (FlareError SystemError ''machine commit audit unavailable''), db)
      else (Ok (), db\<lparr>db_audit := \<lparr>au_app_id = row_tenant_id row, au_request_id = rcp_request_id r, au_actor = rcp_actor r,
              au_permission = rcp_scope r, au_credential = rcp_key r, au_aggregate_id = row_server_id row\<rparr> # db_audit db\<rparr>))"

fun record_proofs :: "pg_attempt \<Rightarrow> receipt option \<Rightarrow> nat \<Rightarrow> message_row list \<Rightarrow> pg_db \<Rightarrow> unit result \<times> pg_db" where
  "record_proofs F None i rows db = (Ok (), db)"
| "record_proofs F (Some r) i [] db = (Ok (), db)"
| "record_proofs F (Some r) i (row # rows) db =
     (if pa_fails F (InsertAudit i) then (Err (FlareError SystemError ''machine commit audit unavailable''), db)
      else (case record_proof r row db of
              (Inl e, db) \<Rightarrow> (Err e, db)
            | (Inr _, db) \<Rightarrow> record_proofs F (Some r) (i + 1) rows db))"

definition rollback :: "pg_attempt \<Rightarrow> pg_db \<Rightarrow> pg_db" where
  "rollback F db = db\<lparr>db_send_ledger := retain F (db_send_ledger db) (db_send_ledger db)\<rparr>"

definition commit_tx :: "pg_attempt \<Rightarrow> 'a \<Rightarrow> pg_db \<Rightarrow> pg_db \<Rightarrow> 'a result \<times> pg_db" where
  "commit_tx F a before db =
     (case pa_commit F of
        CommitOk \<Rightarrow> (Ok a, db)
      | CommitRefused \<Rightarrow> (Err (FlareError DatabaseError ''commit failed''), rollback F before)
      | CommitUnknown \<Rightarrow> (Err (FlareError DatabaseError ''commit failed''), db))"


text \<open>
  One message: \<^verbatim>\<open>archive_one\<close> claims the send ledger, then writes the write ledger, the row and the audit entry in
  one transaction. Every statement error drops the transaction.
\<close>

definition archive_one :: "archive_env \<Rightarrow> pg_attempt \<Rightarrow> writer_ctx \<Rightarrow> message \<Rightarrow> pg_db \<Rightarrow> archive_outcome result \<times> pg_db" where
  "archive_one A F ctx m db =
     (case prepare_row A (pa_now F) (fst ctx) m of
        Inl e \<Rightarrow> (Err e, db)
      | Inr row \<Rightarrow>
          if pa_fails F BeginTx then (Err (FlareError DatabaseError ''begin failed''), db)
          else (case claim_send_idempotency F (List.map_filter claim_of [row]) db of
             (Inl e, _) \<Rightarrow> (Err e, rollback F db)
           | (Inr outcome, d) \<Rightarrow>
               if is_duplicate outcome (row_server_id row) then commit_tx F outcome db d
               else if pa_fails F InsertWriteLedger
               then (Err (FlareError SystemError ''insert message write ledger failed''), rollback F db)
               else (case insert_write_ledger [row] (db_write_ledger d) of
                  (inserted, wl) \<Rightarrow>
                    let d = d\<lparr>db_write_ledger := wl\<rparr> in
                    if inserted = [] then commit_tx F outcome db d
                    else if pa_fails F InsertMessages
                    then (Err (FlareError SystemError ''insert message archive failed''), rollback F db)
                    else (case update_stages F 0 [row] (d\<lparr>db_messages := insert_messages [row] (db_messages d)\<rparr>) of
                       (Inl e, _) \<Rightarrow> (Err e, rollback F db)
                     | (Inr _, d) \<Rightarrow>
                         (case record_proofs F (snd ctx) 0 [row] d of
                            (Inl e, _) \<Rightarrow> (Err e, rollback F db)
                          | (Inr _, d) \<Rightarrow> commit_tx F outcome db d)))))"

text \<open>
  Many messages in one statement each. An attempt returns, or asks for another one with the error it met; the flag
  says whether that error is the answer when no attempt is left.
\<close>

datatype attempt_end = Returned "archive_outcome result" | TryAgain bool flare_error

definition attempt_values :: "pg_attempt \<Rightarrow> receipt option \<Rightarrow> message_row list \<Rightarrow> pg_db \<Rightarrow> attempt_end \<times> pg_db" where
  "attempt_values F proof rows db =
     (if pa_fails F BeginTx then (TryAgain True (FlareError DatabaseError ''begin failed''), db)
      else (case claim_send_idempotency F (List.map_filter claim_of rows) db of
         (Inl e, _) \<Rightarrow> (TryAgain True e, rollback F db)
       | (Inr outcome, d) \<Rightarrow>
           let candidates = filter (\<lambda>row. \<not> is_duplicate outcome (row_server_id row)) rows in
           if candidates = [] then (case commit_tx F outcome db d of (r, d) \<Rightarrow> (Returned r, d))
           else if pa_fails F InsertWriteLedger
           then (TryAgain True (FlareError DatabaseError ''insert message write ledger failed''), rollback F db)
           else (case insert_write_ledger candidates (db_write_ledger d) of
              (inserted, wl) \<Rightarrow>
                let d = d\<lparr>db_write_ledger := wl\<rparr> in
                if inserted = [] then (case commit_tx F outcome db d of (r, d) \<Rightarrow> (Returned r, d))
                else
                  let todo = filter (\<lambda>row. (row_tenant_id row, row_server_id row) \<in> set inserted) candidates in
                  if pa_fails F InsertMessages
                  then (TryAgain False (FlareError SystemError ''batch insert message archive failed''), rollback F db)
                  else (case update_stages F 0 todo (d\<lparr>db_messages := insert_messages todo (db_messages d)\<rparr>) of
                     (Inl e, _) \<Rightarrow> (Returned (Err e), rollback F db)
                   | (Inr _, d) \<Rightarrow>
                       (case record_proofs F proof 0 todo d of
                          (Inl e, _) \<Rightarrow> (Returned (Err e), rollback F db)
                        | (Inr _, d) \<Rightarrow>
                            (case commit_tx F outcome db d of
                               (Inr a, d) \<Rightarrow> (Returned (Ok a), d)
                             | (Inl e, d) \<Rightarrow> (TryAgain False e, d)))))))"

definition MAX_ARCHIVE_ATTEMPTS :: nat where "MAX_ARCHIVE_ATTEMPTS = 3"

fun archive_attempts :: "(nat \<Rightarrow> pg_attempt) \<Rightarrow> receipt option \<Rightarrow> message_row list \<Rightarrow> nat \<Rightarrow> nat \<Rightarrow> pg_db \<Rightarrow>
     archive_outcome result \<times> pg_db" where
  "archive_attempts Fs proof rows i 0 db = (Err (FlareError SystemError ''Failed to batch insert messages''), db)"
| "archive_attempts Fs proof rows i (Suc n) db =
     (case attempt_values (Fs i) proof rows db of
        (Returned r, db) \<Rightarrow> (r, db)
      | (TryAgain final e, db) \<Rightarrow>
          if n = 0
          then (Err (if final then e else FlareError SystemError (''Failed to batch insert messages: '' @ err_msg e)), db)
          else archive_attempts Fs proof rows (i + 1) n db)"

fun prepare_rows :: "archive_env \<Rightarrow> int \<Rightarrow> mq_ctx \<Rightarrow> message list \<Rightarrow> message_row list result" where
  "prepare_rows A now ctx [] = Ok []"
| "prepare_rows A now ctx (m # ms) =
     and_then (prepare_row A now ctx m) (\<lambda>row. and_then (prepare_rows A now ctx ms) (\<lambda>rows. Ok (row # rows)))"

definition store_archive_batch_values :: "archive_env \<Rightarrow> (nat \<Rightarrow> pg_attempt) \<Rightarrow> writer_ctx \<Rightarrow> message list \<Rightarrow> pg_db \<Rightarrow>
     archive_outcome result \<times> pg_db" where
  "store_archive_batch_values A Fs ctx ms db =
     (case prepare_rows A (pa_now (Fs 0)) (fst ctx) ms of
        Inl e \<Rightarrow> (Err e, db)
      | Inr rows \<Rightarrow> archive_attempts Fs (snd ctx) rows 0 MAX_ARCHIVE_ATTEMPTS db)"

function chunks :: "nat \<Rightarrow> 'a list \<Rightarrow> 'a list list" where
  "chunks n xs = (if xs = [] \<or> n = 0 then [] else take n xs # chunks n (drop n xs))"
  by pat_completeness auto
termination by (relation "measure (\<lambda>(n, xs). length xs)") auto

declare chunks.simps [simp del]

definition optimal_batch_size :: "nat \<Rightarrow> nat" where
  "optimal_batch_size avg = (if avg < 1024 then 500 else if avg < 10 * 1024 then 200 else 50)"

text \<open>Calls in order, their outcomes merged; the first error ends the pass. The calls before it stay.\<close>

fun archive_calls :: "(nat \<Rightarrow> 'a \<Rightarrow> pg_db \<Rightarrow> archive_outcome result \<times> pg_db) \<Rightarrow> nat \<Rightarrow> 'a list \<Rightarrow> archive_outcome \<Rightarrow> pg_db \<Rightarrow>
     archive_outcome result \<times> pg_db" where
  "archive_calls call i [] outcome db = (Ok outcome, db)"
| "archive_calls call i (x # xs) outcome db =
     (case call i x db of
        (Inl e, db) \<Rightarrow> (Err e, db)
      | (Inr o', db) \<Rightarrow> archive_calls call (i + 1) xs (merge_outcome outcome o') db)"

definition archive_messages :: "archive_env \<Rightarrow> (nat \<Rightarrow> nat \<Rightarrow> pg_attempt) \<Rightarrow> writer_ctx \<Rightarrow> message list \<Rightarrow> pg_db \<Rightarrow>
     archive_outcome result \<times> pg_db" where
  "archive_messages A Fs ctx ms db =
     (if ms = [] then (Ok default_outcome, db)
      else if length ms \<le> 10
      then archive_calls (\<lambda>i m. archive_one A (Fs i 0) ctx m) 0 ms default_outcome db
      else
        let avg = sum_list (map (\<lambda>m. ae_size A m + 200) ms) div length ms;
            optimal = optimal_batch_size avg
        in if optimal < length ms
           then archive_calls (\<lambda>i c. store_archive_batch_values A (Fs i) ctx c) 0 (chunks optimal ms) default_outcome db
           else store_archive_batch_values A (Fs 0) ctx ms db)"

text \<open>
  \<^verbatim>\<open>mark_stage\<close>: one \<^verbatim>\<open>UPDATE\<close> whose assignments are listed in order. Whether PostgreSQL accepts a list of columns is
  a parameter.
\<close>

definition stage_assignments :: "message_write_stage \<Rightarrow> string list" where
  "stage_assignments st = [''write_state'', timestamp_column st, ''last_error'', ''failed_at'', ''updated_at'']"

definition mark_stage :: "(string list \<Rightarrow> bool) \<Rightarrow> int \<Rightarrow> string \<Rightarrow> string \<Rightarrow> message_write_stage \<Rightarrow> string option \<Rightarrow> pg_db \<Rightarrow>
     unit result \<times> pg_db" where
  "mark_stage accepts now tenant_id message_id st error db =
     (if \<not> accepts (stage_assignments st) then (Err (FlareError DatabaseError ''update failed''), db)
      else (Ok (), db\<lparr>db_write_ledger := (db_write_ledger db)((tenant_id, message_id) :=
        map_option (\<lambda>w. w\<lparr>wl_write_state := Some (stage_as_str st), wl_last_error := error,
            wl_times := (\<lambda>c. if c = timestamp_column st then (case wl_times w c of None \<Rightarrow> Some now | t \<Rightarrow> t)
              else if c = ''failed_at'' then (if error = None then wl_times w c else Some now)
              else if c = ''updated_at'' then Some now else wl_times w c)\<rparr>)
          (db_write_ledger db (tenant_id, message_id)))\<rparr>))"

section \<open>What a claim does\<close>

text \<open>
  What every reachable database satisfies; \<open>X\<close> are the keys whose rows the retention of the send ledger has
  removed at some time.
\<close>

definition stored :: "pg_db \<Rightarrow> string \<Rightarrow> string \<Rightarrow> bool" where
  "stored db tenant_id server_id \<longleftrightarrow> (\<exists>at. db_messages db (tenant_id, server_id, at) \<noteq> None)"

definition owner_agrees :: "pg_db \<Rightarrow> ledger_claim \<Rightarrow> bool" where
  "owner_agrees db c \<longleftrightarrow> (\<exists>r. db_send_ledger db (claim_key c) = Some r
     \<and> (sl_conversation_id r = lc_conversation_id c \<longrightarrow> sl_server_id r = lc_server_id c))"

definition archive_inv :: "ledger_key set \<Rightarrow> pg_db \<Rightarrow> bool" where
  "archive_inv X db \<longleftrightarrow>
     (\<forall>t s c r. db_send_ledger db (t, s, c) = Some r \<longrightarrow> stored db t (sl_server_id r))
     \<and> (\<forall>t i. db_write_ledger db (t, i) \<noteq> None \<longrightarrow> stored db t i)
     \<and> (\<forall>k row. db_messages db k = Some row \<longrightarrow> k = row_key row
          \<and> (\<forall>c. claim_of row = Some c \<longrightarrow> claim_key c \<in> X \<or> owner_agrees db c))"

lemma claim_rows_mono: "claim_rows now cs L = (claimed, L') \<Longrightarrow> L k = Some r \<Longrightarrow> L' k = Some r"
proof (induction cs arbitrary: L claimed)
  case (Cons c cs)
  then show ?case by (cases "k = claim_key c") (auto split: option.splits prod.splits)
qed auto

lemma retain_id: "\<forall>k. \<not> pa_expired F k \<Longrightarrow> retain F before L = L"
  by (auto simp: retain_def fun_eq_iff)

lemma claim_rows_claimed:
  "claim_rows now cs L = (claimed, L') \<Longrightarrow> i \<in> set claimed \<Longrightarrow> \<exists>c \<in> set cs. lc_server_id c = i
     \<and> (\<exists>r. L' (claim_key c) = Some r \<and> sl_server_id r = i)"
proof (induction cs arbitrary: L claimed)
  case (Cons c cs)
  show ?case
  proof (cases "L (claim_key c)")
    case None
    let ?r = "\<lparr>sl_conversation_id = lc_conversation_id c, sl_server_id = lc_server_id c, sl_seq = lc_seq c, sl_created_at = now\<rparr>"
    obtain cl where cl: "claim_rows now cs (L(claim_key c \<mapsto> ?r)) = (cl, L')" "claimed = lc_server_id c # cl"
      using Cons.prems(1) None by (auto split: prod.splits)
    from claim_rows_mono [OF cl(1), of "claim_key c"] have "L' (claim_key c) = Some ?r" by simp
    then show ?thesis using Cons.IH [OF cl(1)] Cons.prems(2) cl(2) by fastforce
  qed (use Cons in auto)
qed auto

lemma claim_rows_new:
  "claim_rows now cs L = (claimed, L') \<Longrightarrow> L' k = Some r \<Longrightarrow> L k = None \<Longrightarrow>
     \<exists>c \<in> set cs. k = claim_key c \<and> sl_server_id r = lc_server_id c \<and> sl_conversation_id r = lc_conversation_id c
       \<and> lc_server_id c \<in> set claimed"
proof (induction cs arbitrary: L claimed)
  case (Cons c cs)
  show ?case
  proof (cases "L (claim_key c)")
    case None
    let ?r = "\<lparr>sl_conversation_id = lc_conversation_id c, sl_server_id = lc_server_id c, sl_seq = lc_seq c, sl_created_at = now\<rparr>"
    obtain cl where cl: "claim_rows now cs (L(claim_key c \<mapsto> ?r)) = (cl, L')" "claimed = lc_server_id c # cl"
      using Cons.prems(1) None by (auto split: prod.splits)
    show ?thesis
    proof (cases "k = claim_key c")
      case True
      with claim_rows_mono [OF cl(1), of "claim_key c"] Cons.prems(2) have "r = ?r" by simp
      with True cl(2) show ?thesis by simp
    next
      case False
      with Cons.IH [OF cl(1) Cons.prems(2)] Cons.prems(3) cl(2) show ?thesis by fastforce
    qed
  qed (use Cons in fastforce)
qed auto

lemma claim_rows_taken:
  "claim_rows now cs L = (claimed, L') \<Longrightarrow> c \<in> set cs \<Longrightarrow> L' (claim_key c) \<noteq> None"
proof (induction cs arbitrary: L claimed)
  case (Cons d cs)
  show ?case
  proof (cases "c \<in> set cs")
    case True
    with Cons show ?thesis by (fastforce split: option.splits prod.splits)
  next
    case False
    with Cons.prems claim_rows_mono [OF Cons.prems(1)] claim_rows_mono [of now cs _ _ L' "claim_key d"]
    show ?thesis by (fastforce split: option.splits prod.splits)
  qed
qed auto

lemma judge_claims_duplicates:
  "is_duplicate (judge_claims L cs out) i \<longleftrightarrow> is_duplicate out i \<or> (\<exists>c \<in> set cs. lc_server_id c = i
     \<and> (\<exists>r. L (claim_key c) = Some r \<and> sl_server_id r \<noteq> i \<and> sl_conversation_id r = lc_conversation_id c))"
  by (induction cs arbitrary: out) (auto simp: is_duplicate_def split: option.splits)

lemma not_default_duplicate [simp]: "\<not> is_duplicate default_outcome i"
  by (simp add: is_duplicate_def default_outcome_def)

text \<open>
  The facts the archive needs of a successful claim when no row expires: other tables are untouched, rows that were
  there stay, a new row belongs to a message that is going to be written, a message that is going to be
  written agrees with the owner of its key, and a duplicate has another owner in its conversation.
\<close>

definition claim_ok :: "ledger_claim list \<Rightarrow> archive_outcome \<Rightarrow> pg_db \<Rightarrow> pg_db \<Rightarrow> bool" where
  "claim_ok cs out db d \<longleftrightarrow>
     db_messages d = db_messages db \<and> db_write_ledger d = db_write_ledger db
     \<and> db_send_ledger db \<subseteq>\<^sub>m db_send_ledger d
     \<and> (\<forall>k r. db_send_ledger d k = Some r \<longrightarrow> db_send_ledger db k = None \<longrightarrow>
          (\<exists>c \<in> set cs. k = claim_key c \<and> sl_server_id r = lc_server_id c \<and> \<not> is_duplicate out (lc_server_id c)))
     \<and> (\<forall>c \<in> set cs. \<not> is_duplicate out (lc_server_id c) \<longrightarrow> owner_agrees d c)
     \<and> (\<forall>c \<in> set cs. is_duplicate out (lc_server_id c) \<longrightarrow>
          (\<exists>r. db_send_ledger d (claim_key c) = Some r \<and> sl_conversation_id r = lc_conversation_id c
             \<and> sl_server_id r \<noteq> lc_server_id c))
     \<and> (\<forall>i. is_duplicate out i \<longrightarrow> i \<in> lc_server_id ` set cs)"

lemma claim_send_idempotency_ok:
  assumes "claim_send_idempotency F cs db = (Ok out, d)" and "distinct (map lc_server_id cs)" and "\<forall>k. \<not> pa_expired F k"
  shows "claim_ok cs out db d"
proof (cases "cs = []")
  case False
  obtain claimed L where cr: "claim_rows (pa_now F) cs (db_send_ledger db) = (claimed, L)" by fastforce
  have same: "c = c'" if "c \<in> set cs" "c' \<in> set cs" "lc_server_id c = lc_server_id c'" for c c'
    using assms(2) that by (meson distinct_map inj_onD)
  have d: "d = db\<lparr>db_send_ledger := L\<rparr>"
    using assms(1) False cr by (auto simp: claim_send_idempotency_def Let_def retain_id [OF assms(3)] split: if_splits)
  have won: "\<exists>r. L (claim_key c) = Some r \<and> sl_server_id r = lc_server_id c" if "c \<in> set cs" "lc_server_id c \<in> set claimed" for c
    using claim_rows_claimed [OF cr that(2)] same that(1) by metis
  have dup: "is_duplicate out i \<longleftrightarrow> (\<exists>c \<in> set cs. lc_server_id c = i \<and> (\<exists>r. L (claim_key c) = Some r \<and> sl_server_id r \<noteq> i
      \<and> sl_conversation_id r = lc_conversation_id c))" for i
  proof (cases "length (remdups claimed) = length cs")
    case True
    have sub: "set claimed \<subseteq> set (map lc_server_id cs)" using claim_rows_claimed [OF cr] by auto
    have "card (set claimed) = card (set (map lc_server_id cs))"
      using True assms(2) by (metis distinct_card length_map length_remdups_card_conv)
    with sub have "set claimed = set (map lc_server_id cs)" by (meson List.finite_set card_subset_eq)
    moreover have "out = default_outcome" using assms(1) False cr True by (auto simp: claim_send_idempotency_def split: if_splits)
    ultimately show ?thesis using won same by fastforce
  next
    case False
    then have "out = judge_claims L (filter (\<lambda>c. lc_server_id c \<notin> set claimed) cs) default_outcome"
      using assms(1) \<open>cs \<noteq> []\<close> cr
      by (auto simp: claim_send_idempotency_def Let_def retain_id [OF assms(3)] split: if_splits)
    then show ?thesis using won by (fastforce simp: judge_claims_duplicates)
  qed
  show ?thesis
    unfolding claim_ok_def
  proof (intro conjI allI impI ballI)
    show "db_send_ledger db \<subseteq>\<^sub>m db_send_ledger d" using claim_rows_mono [OF cr] by (auto simp: d map_le_def)
  next
    fix k r assume "db_send_ledger d k = Some r" "db_send_ledger db k = None"
    with claim_rows_new [OF cr, of k r] obtain c where c: "c \<in> set cs" "k = claim_key c" "sl_server_id r = lc_server_id c"
      "lc_server_id c \<in> set claimed" by (auto simp: d)
    have "\<not> is_duplicate out (lc_server_id c)"
    proof
      assume "is_duplicate out (lc_server_id c)"
      with dup obtain c' r' where "c' \<in> set cs" "lc_server_id c' = lc_server_id c" "L (claim_key c') = Some r'"
        "sl_server_id r' \<noteq> lc_server_id c" by blast
      with won [OF c(1,4)] same [of c' c] c(1) show False by force
    qed
    with c show "\<exists>c \<in> set cs. k = claim_key c \<and> sl_server_id r = lc_server_id c \<and> \<not> is_duplicate out (lc_server_id c)" by blast
  next
    fix c assume c: "c \<in> set cs" "\<not> is_duplicate out (lc_server_id c)"
    with claim_rows_taken [OF cr c(1)] dup show "owner_agrees d c" by (auto simp: owner_agrees_def d)
  next
    fix c assume c: "c \<in> set cs" "is_duplicate out (lc_server_id c)"
    with dup same show "\<exists>r. db_send_ledger d (claim_key c) = Some r \<and> sl_conversation_id r = lc_conversation_id c
             \<and> sl_server_id r \<noteq> lc_server_id c" by (fastforce simp: d)
  next
    fix i assume "is_duplicate out i"
    with dup [of i] show "i \<in> lc_server_id ` set cs" by (auto simp: image_iff)
  qed (simp_all add: d)
qed (use assms(1) in \<open>simp add: claim_send_idempotency_def claim_ok_def\<close>)


section \<open>What an attempt does\<close>

lemma map_leD: "M \<subseteq>\<^sub>m N \<Longrightarrow> M k = Some r \<Longrightarrow> N k = Some r"
  by (force simp: map_le_def dom_def)

lemma insert_write_ledger_facts:
  assumes "insert_write_ledger rows W = (ins, W')"
  shows "W' k \<noteq> None \<longleftrightarrow> W k \<noteq> None \<or> k \<in> set ins"
    and "k \<in> set ins \<longleftrightarrow> W k = None \<and> (\<exists>row \<in> set rows. k = (row_tenant_id row, row_server_id row))"
proof -
  have "(W' k \<noteq> None \<longleftrightarrow> W k \<noteq> None \<or> k \<in> set ins)
     \<and> (k \<in> set ins \<longleftrightarrow> W k = None \<and> (\<exists>row \<in> set rows. k = (row_tenant_id row, row_server_id row)))"
    using assms
  proof (induction rows arbitrary: W ins)
    case (Cons row rows)
    let ?k = "(row_tenant_id row, row_server_id row)"
    show ?case
    proof (cases "W ?k")
      case None
      obtain w i where i: "insert_write_ledger rows (W(?k \<mapsto> w)) = (i, W')" "ins = ?k # i"
        using Cons.prems None by (auto simp: Let_def split: prod.splits)
      from Cons.IH [OF i(1)] i(2) None show ?thesis by (auto split: if_splits)
    next
      case (Some w)
      with Cons.prems Cons.IH [of W ins] show ?thesis by (auto simp: Let_def)
    qed
  qed auto
  then show "W' k \<noteq> None \<longleftrightarrow> W k \<noteq> None \<or> k \<in> set ins"
    and "k \<in> set ins \<longleftrightarrow> W k = None \<and> (\<exists>row \<in> set rows. k = (row_tenant_id row, row_server_id row))" by blast+
qed

lemma insert_messages_facts:
  "M k = Some r \<Longrightarrow> insert_messages rows M k = Some r"
  "insert_messages rows M k = Some r \<Longrightarrow> M k = Some r \<or> (r \<in> set rows \<and> k = row_key r)"
  "row \<in> set rows \<Longrightarrow> insert_messages rows M (row_key row) \<noteq> None"
proof -
  show a: "M k = Some r \<Longrightarrow> insert_messages rows M k = Some r" for rows M k r
  proof (induction rows arbitrary: M)
    case (Cons row rows)
    then show ?case by (cases "M (row_key row)"; cases "k = row_key row") auto
  qed simp
  show "insert_messages rows M k = Some r \<Longrightarrow> M k = Some r \<or> (r \<in> set rows \<and> k = row_key r)"
  proof (induction rows arbitrary: M)
    case (Cons row rows)
    let ?M = "case M (row_key row) of Some _ \<Rightarrow> M | None \<Rightarrow> M(row_key row \<mapsto> row)"
    from Cons.IH [of ?M] Cons.prems have "?M k = Some r \<or> (r \<in> set rows \<and> k = row_key r)" by simp
    then show ?case by (auto split: option.splits if_splits)
  qed simp
  show "row \<in> set rows \<Longrightarrow> insert_messages rows M (row_key row) \<noteq> None"
  proof (induction rows arbitrary: M)
    case (Cons r rows)
    show ?case
    proof (cases "row \<in> set rows")
      case False
      with Cons.prems have "row = r" by simp
      then show ?thesis
        using a [of M "row_key row" _ rows] a [of "M(row_key row \<mapsto> row)" "row_key row" row rows] by (cases "M (row_key row)") auto
    qed (use Cons in simp)
  qed simp
qed

lemma update_stages_frame:
  assumes "update_stages F i rows db = (r, d)"
  shows "db_messages d = db_messages db" "db_send_ledger d = db_send_ledger db"
    "db_write_ledger d k = None \<longleftrightarrow> db_write_ledger db k = None"
proof -
  have "db_messages d = db_messages db \<and> db_send_ledger d = db_send_ledger db
     \<and> (\<forall>k. db_write_ledger d k = None \<longleftrightarrow> db_write_ledger db k = None)"
    using assms
  proof (induction rows arbitrary: i db)
    case (Cons row rows)
    show ?case
    proof (cases "pa_fails F (UpdateStage i)")
      case True
      with Cons.prems show ?thesis by simp
    next
      case False
      from Cons.IH [OF Cons.prems [unfolded update_stages.simps Let_def if_not_P [OF False]]]
      show ?thesis by (auto split: if_splits)
    qed
  qed simp
  then show "db_messages d = db_messages db" "db_send_ledger d = db_send_ledger db"
    "db_write_ledger d k = None \<longleftrightarrow> db_write_ledger db k = None" by (blast, blast, metis)
qed

lemma record_proofs_frame:
  assumes "record_proofs F p i rows db = (r, d)"
  shows "db_messages d = db_messages db" "db_send_ledger d = db_send_ledger db" "db_write_ledger d = db_write_ledger db"
proof -
  have "db_messages d = db_messages db \<and> db_send_ledger d = db_send_ledger db \<and> db_write_ledger d = db_write_ledger db"
    using assms
    by (induction F p i rows db rule: record_proofs.induct)
      (auto simp: record_proof_def split: if_splits prod.splits sum.splits)
  then show "db_messages d = db_messages db" "db_send_ledger d = db_send_ledger db" "db_write_ledger d = db_write_ledger db"
    by auto
qed

text \<open>
  What a transaction that comes to its commit has written: every row that is no duplicate is stored, and nothing else
  is added.
\<close>

definition written :: "message_row list \<Rightarrow> archive_outcome \<Rightarrow> pg_db \<Rightarrow> pg_db \<Rightarrow> bool" where
  "written rows out db d \<longleftrightarrow>
     (\<exists>d1. claim_ok (List.map_filter claim_of rows) out db d1 \<and> db_send_ledger d = db_send_ledger d1
        \<and> db_messages db \<subseteq>\<^sub>m db_messages d
        \<and> (\<forall>k row. db_messages d k = Some row \<longrightarrow> db_messages db k = Some row
             \<or> (row \<in> set rows \<and> k = row_key row \<and> \<not> is_duplicate out (row_server_id row)))
        \<and> (\<forall>row \<in> set rows. \<not> is_duplicate out (row_server_id row) \<longrightarrow>
             stored d (row_tenant_id row) (row_server_id row) \<or> db_write_ledger db (row_tenant_id row, row_server_id row) \<noteq> None)
        \<and> (\<forall>t i. db_write_ledger d (t, i) \<noteq> None \<longrightarrow> db_write_ledger db (t, i) \<noteq> None \<or> stored d t i))"

lemma claim_of_fields:
  "claim_of row = Some c \<Longrightarrow> lc_server_id c = row_server_id row \<and> lc_tenant_id c = row_tenant_id row
     \<and> lc_conversation_id c = row_conversation_id row \<and> lc_sender_id c = row_sender_id row"
  by (auto simp: claim_of_def keep_if_def split: option.splits if_splits)

lemma in_map_filter: "c \<in> set (List.map_filter f xs) \<longleftrightarrow> (\<exists>x \<in> set xs. f x = Some c)"
  by (force simp: List.map_filter_def)

lemma stored_mono: "stored db t i \<Longrightarrow> db_messages db \<subseteq>\<^sub>m db_messages d \<Longrightarrow> stored d t i"
  by (force simp: stored_def map_le_def dom_def)

lemma written_stored:
  assumes "archive_inv X db" "written rows out db d" "row \<in> set rows" "\<not> is_duplicate out (row_server_id row)"
  shows "stored d (row_tenant_id row) (row_server_id row)"
  using assms stored_mono [of db] by (auto simp: written_def archive_inv_def)

lemma written_inv:
  assumes "archive_inv X db" "written rows out db d"
  shows "archive_inv X d"
proof -
  from assms(2) obtain d1 where d1: "claim_ok (List.map_filter claim_of rows) out db d1" "db_send_ledger d = db_send_ledger d1"
    and le: "db_messages db \<subseteq>\<^sub>m db_messages d"
    and new: "\<And>k row. db_messages d k = Some row \<Longrightarrow> db_messages db k = Some row
             \<or> (row \<in> set rows \<and> k = row_key row \<and> \<not> is_duplicate out (row_server_id row))"
    and wl: "\<And>t i. db_write_ledger d (t, i) \<noteq> None \<Longrightarrow> db_write_ledger db (t, i) \<noteq> None \<or> stored d t i"
    unfolding written_def by blast
  have old: "stored d t i" if "stored db t i" for t i using stored_mono [OF that le] .
  have led: "db_send_ledger db \<subseteq>\<^sub>m db_send_ledger d" using d1 by (simp add: claim_ok_def)
  show ?thesis
    unfolding archive_inv_def
  proof (intro conjI allI impI)
    fix t s c r assume r: "db_send_ledger d (t, s, c) = Some r"
    show "stored d t (sl_server_id r)"
    proof (cases "db_send_ledger db (t, s, c)")
      case (Some r')
      with map_leD [OF led Some] r have "r' = r" by simp
      with Some assms(1) old show ?thesis by (simp add: archive_inv_def)
    next
      case None
      with r d1 obtain cl where "cl \<in> set (List.map_filter claim_of rows)" "(t, s, c) = claim_key cl"
        "sl_server_id r = lc_server_id cl" "\<not> is_duplicate out (lc_server_id cl)" unfolding claim_ok_def by metis
      then obtain row where "row \<in> set rows" "claim_of row = Some cl" "(t, s, c) = claim_key cl"
        "sl_server_id r = lc_server_id cl" "\<not> is_duplicate out (lc_server_id cl)" by (auto simp: in_map_filter)
      with written_stored [OF assms, of row] claim_of_fields [of row cl] show ?thesis by (simp add: claim_key_def)
    qed
  next
    fix t i assume "db_write_ledger d (t, i) \<noteq> None"
    with wl assms(1) old show "stored d t i" unfolding archive_inv_def by blast
  next
    fix k row assume "db_messages d k = Some row"
    with new assms(1) show "k = row_key row" unfolding archive_inv_def by blast
  next
    fix k row c assume row: "db_messages d k = Some row" "claim_of row = Some c"
    from new [OF row(1)] show "claim_key c \<in> X \<or> owner_agrees d c"
    proof
      assume "db_messages db k = Some row"
      with assms(1) row(2) have "claim_key c \<in> X \<or> owner_agrees db c" unfolding archive_inv_def by blast
      with map_leD [OF led] show ?thesis unfolding owner_agrees_def by blast
    next
      assume "row \<in> set rows \<and> k = row_key row \<and> \<not> is_duplicate out (row_server_id row)"
      with row(2) claim_of_fields [OF row(2)] have "c \<in> set (List.map_filter claim_of rows)" "\<not> is_duplicate out (lc_server_id c)"
        by (auto simp: in_map_filter)
      with d1(1) have "owner_agrees d1 c" unfolding claim_ok_def by blast
      with d1(2) show ?thesis by (simp add: owner_agrees_def)
    qed
  qed
qed


lemma distinct_claims:
  "distinct (map row_server_id rows) \<Longrightarrow> distinct (map lc_server_id (List.map_filter claim_of rows))"
proof (induction rows)
  case (Cons row rows)
  then show ?case
    by (cases "claim_of row") (auto simp: List.map_filter_simps in_map_filter, metis claim_of_fields image_eqI)
qed (simp add: List.map_filter_simps)

lemma rollback_id: "\<forall>k. \<not> pa_expired F k \<Longrightarrow> rollback F db = db"
  by (simp add: rollback_def retain_id)

lemma commit_tx_cases:
  assumes "commit_tx F out db d = (r, d')" "\<forall>k. \<not> pa_expired F k"
  shows "(r = Ok out \<and> d' = d) \<or> ((\<exists>e. r = Err e) \<and> (d' = d \<or> d' = db))"
  using assms by (auto simp: commit_tx_def rollback_id split: commit_result.splits)

lemma claim_only_written:
  assumes "claim_ok (List.map_filter claim_of rows) out db d1" "\<forall>row \<in> set rows. is_duplicate out (row_server_id row)"
  shows "written rows out db d1"
  using assms by (auto simp: written_def claim_ok_def intro!: exI [of _ d1])

lemma filled_written:
  assumes "claim_ok (List.map_filter claim_of rows) out db d1"
    and "cands = filter (\<lambda>row. \<not> is_duplicate out (row_server_id row)) rows"
    and "insert_write_ledger cands (db_write_ledger d1) = (ins, wl)"
    and "todo = filter (\<lambda>row. (row_tenant_id row, row_server_id row) \<in> set ins) cands"
    and "db_messages d = insert_messages todo (db_messages d1)" and "db_send_ledger d = db_send_ledger d1"
    and "\<And>k. db_write_ledger d k = None \<longleftrightarrow> wl k = None"
  shows "written rows out db d"
proof -
  have m: "db_messages d1 = db_messages db" "db_write_ledger d1 = db_write_ledger db"
    using assms(1) by (simp_all add: claim_ok_def)
  have st: "stored d (row_tenant_id row) (row_server_id row)" if "row \<in> set todo" for row
    using insert_messages_facts(3) [OF that, of "db_messages d1"] assms(5) by (auto simp: stored_def row_key_def)
  note ins = insert_write_ledger_facts [OF assms(3)]
  show ?thesis
    unfolding written_def
  proof (intro exI [of _ d1] conjI allI impI ballI)
    show "db_messages db \<subseteq>\<^sub>m db_messages d"
      using insert_messages_facts(1) [of "db_messages d1"] by (auto simp: map_le_def assms(5) m)
  next
    fix k row assume "db_messages d k = Some row"
    with insert_messages_facts(2) [of todo "db_messages d1" k row] assms(2,4,5) m(1)
    show "db_messages db k = Some row \<or> (row \<in> set rows \<and> k = row_key row \<and> \<not> is_duplicate out (row_server_id row))" by auto
  next
    fix row assume row: "row \<in> set rows" "\<not> is_duplicate out (row_server_id row)"
    then have "row \<in> set cands" using assms(2) by simp
    with st [of row] ins(2) [of "(row_tenant_id row, row_server_id row)"] assms(4) m(2)
    show "stored d (row_tenant_id row) (row_server_id row) \<or> db_write_ledger db (row_tenant_id row, row_server_id row) \<noteq> None"
      by (cases "db_write_ledger db (row_tenant_id row, row_server_id row)") auto
  next
    fix t i assume "db_write_ledger d (t, i) \<noteq> None"
    with assms(7) ins(1) [of "(t, i)"] m(2) have "db_write_ledger db (t, i) \<noteq> None \<or> (t, i) \<in> set ins" by auto
    then show "db_write_ledger db (t, i) \<noteq> None \<or> stored d t i"
    proof
      assume i: "(t, i) \<in> set ins"
      with ins(2) [of "(t, i)"] obtain row where "row \<in> set cands" "(t, i) = (row_tenant_id row, row_server_id row)" by blast
      with i assms(4) st show ?thesis by auto
    qed blast
  qed (use assms in simp_all)
qed

lemma attempt_values_written:
  assumes "attempt_values F p rows db = (res, d)" and "distinct (map row_server_id rows)" and "\<forall>k. \<not> pa_expired F k"
  shows "(d = db \<and> (\<forall>a. res \<noteq> Returned (Ok a))) \<or> (\<exists>out. written rows out db d \<and> (\<forall>a. res = Returned (Ok a) \<longrightarrow> a = out))"
proof (cases "pa_fails F BeginTx")
  case False
  note rb = rollback_id [OF assms(3)]
  let ?cs = "List.map_filter claim_of rows"
  obtain r d1 where cl: "claim_send_idempotency F ?cs db = (r, d1)" by fastforce
  show ?thesis
  proof (cases r)
    case (Inl e)
    with assms(1) False cl show ?thesis by (auto simp: attempt_values_def rb)
  next
    case (Inr out)
    with cl have ok: "claim_ok ?cs out db d1"
      using claim_send_idempotency_ok distinct_claims [OF assms(2)] assms(3) by blast
    let ?cands = "filter (\<lambda>row. \<not> is_duplicate out (row_server_id row)) rows"
    obtain ins wl where ins: "insert_write_ledger ?cands (db_write_ledger d1) = (ins, wl)" by fastforce
    let ?todo = "filter (\<lambda>row. (row_tenant_id row, row_server_id row) \<in> set ins) ?cands"
    let ?d2 = "d1\<lparr>db_write_ledger := wl\<rparr>"
    obtain ru d3 where up: "update_stages F 0 ?todo (?d2\<lparr>db_messages := insert_messages ?todo (db_messages d1)\<rparr>) = (ru, d3)" by fastforce
    obtain rp d4 where pr: "record_proofs F p 0 ?todo d3 = (rp, d4)" by fastforce
    note fr = update_stages_frame [OF up] record_proofs_frame [OF pr]
    have w4: "written rows out db d4"
      by (rule filled_written [OF ok refl ins refl]) (simp_all add: fr)
    have w1: "written rows out db d1" if "?cands = []"
      by (rule claim_only_written [OF ok]) (use that in \<open>simp add: filter_empty_conv\<close>)
    have w2: "written rows out db ?d2" if "ins = []"
      by (rule filled_written [OF ok refl ins refl]) (simp_all add: that)
    note unf = assms(1) [unfolded attempt_values_def] cl Inr False
    show ?thesis
    proof (cases "?cands = []")
      case True
      obtain rc dc where c: "commit_tx F out db d1 = (rc, dc)" by fastforce
      from unf True c have "res = Returned rc" "d = dc" by auto
      with commit_tx_cases [OF c assms(3)] w1 [OF True] show ?thesis by auto
    next
      case nonempty: False
      show ?thesis
      proof (cases "pa_fails F InsertWriteLedger")
        case True
        with unf nonempty show ?thesis by (auto simp: rb)
      next
        case wok: False
        show ?thesis
        proof (cases "ins = []")
          case True
          obtain rc dc where c: "commit_tx F out db ?d2 = (rc, dc)" by fastforce
          from unf nonempty wok ins True c have "res = Returned rc" "d = dc" by auto
          with commit_tx_cases [OF c assms(3)] w2 [OF True] show ?thesis by auto
        next
          case some: False
          obtain rc dc where c: "commit_tx F out db d4 = (rc, dc)" by fastforce
          from unf nonempty wok ins some up pr c
          have "d = db \<and> (\<forall>a. res \<noteq> Returned (Ok a)) \<or> d = dc \<and> (\<forall>a. res = Returned (Ok a) \<longrightarrow> rc = Ok a)"
            by (auto simp: rb Let_def simp del: filter_filter split: if_splits sum.splits)
          with commit_tx_cases [OF c assms(3)] w4 show ?thesis by auto
        qed
      qed
    qed
  qed
qed (use assms(1) in \<open>auto simp: attempt_values_def\<close>)


text \<open>Writing one message alone is an attempt on a batch of one.\<close>

lemma archive_one_attempt:
  assumes "prepare_row A (pa_now F) (fst ctx) m = Ok row" and "archive_one A F ctx m db = (r, d)"
  shows "\<exists>res. attempt_values F (snd ctx) [row] db = (res, d) \<and> (\<forall>a. r = Ok a \<longleftrightarrow> res = Returned (Ok a))"
proof -
  obtain r1 d1 where cl: "claim_send_idempotency F (List.map_filter claim_of [row]) db = (r1, d1)" by fastforce
  show ?thesis
  proof (cases r1)
    case (Inl e)
    with assms cl show ?thesis by (auto simp: archive_one_def attempt_values_def split: if_splits)
  next
    case (Inr out)
    obtain ins wl where ins: "insert_write_ledger [row] (db_write_ledger d1) = (ins, wl)" by fastforce
    have one: "ins = [] \<or> ins = [(row_tenant_id row, row_server_id row)]"
      using ins by (auto simp: Let_def split: option.splits)
    let ?d2 = "d1\<lparr>db_write_ledger := wl\<rparr>"
    obtain ru d3 where up: "update_stages F 0 [row] (?d2\<lparr>db_messages := insert_messages [row] (db_messages d1)\<rparr>) = (ru, d3)"
      by fastforce
    obtain rp d4 where pr: "record_proofs F (snd ctx) 0 [row] d3 = (rp, d4)" by fastforce
    from assms cl Inr ins up pr one show ?thesis
      by (auto simp: archive_one_def attempt_values_def Let_def simp del: update_stages.simps insert_messages.simps
            insert_write_ledger.simps record_proofs.simps split: if_splits sum.splits prod.splits)
  qed
qed

section \<open>What archiving leaves\<close>

definition row_settled :: "pg_db \<Rightarrow> archive_outcome \<Rightarrow> message_row \<Rightarrow> bool" where
  "row_settled d out row \<longleftrightarrow>
     (if is_duplicate out (row_server_id row)
      then (\<exists>c r. claim_of row = Some c \<and> db_send_ledger d (claim_key c) = Some r
              \<and> sl_conversation_id r = row_conversation_id row \<and> sl_server_id r \<noteq> row_server_id row
              \<and> stored d (row_tenant_id row) (sl_server_id r))
      else stored d (row_tenant_id row) (row_server_id row))"

definition grows :: "pg_db \<Rightarrow> pg_db \<Rightarrow> bool" where
  "grows db d \<longleftrightarrow> db_messages db \<subseteq>\<^sub>m db_messages d \<and> db_send_ledger db \<subseteq>\<^sub>m db_send_ledger d"

lemma grows_refl [simp]: "grows db db"
  by (simp add: grows_def)

lemma grows_trans: "grows a b \<Longrightarrow> grows b c \<Longrightarrow> grows a c"
  unfolding grows_def by (meson map_le_trans)

lemma written_grows: "written rows out db d \<Longrightarrow> grows db d"
  unfolding written_def grows_def claim_ok_def by (elim exE conjE) (intro conjI, assumption, simp only:)

lemma row_settled_mono:
  assumes "row_settled d out row" "grows d d'"
  shows "row_settled d' out row"
proof (cases "is_duplicate out (row_server_id row)")
  case True
  with assms(1) obtain c r where "claim_of row = Some c" "db_send_ledger d (claim_key c) = Some r"
    "sl_conversation_id r = row_conversation_id row" "sl_server_id r \<noteq> row_server_id row"
    "stored d (row_tenant_id row) (sl_server_id r)" by (auto simp: row_settled_def)
  with True assms(2) map_leD [of "db_send_ledger d" "db_send_ledger d'" "claim_key c" r] stored_mono [of d _ _ d']
  show ?thesis by (auto simp: row_settled_def grows_def)
next
  case False
  with assms stored_mono [of d _ _ d'] show ?thesis by (simp add: row_settled_def grows_def)
qed

lemma written_duplicates:
  "written rows out db d \<Longrightarrow> is_duplicate out i \<Longrightarrow> i \<in> row_server_id ` set rows"
proof -
  assume "written rows out db d" "is_duplicate out i"
  then have "i \<in> lc_server_id ` set (List.map_filter claim_of rows)" unfolding written_def claim_ok_def by blast
  then show ?thesis by (auto simp: in_map_filter dest!: claim_of_fields)
qed

lemma written_settled:
  assumes "archive_inv X db" "written rows out db d" "distinct (map row_server_id rows)" "row \<in> set rows"
  shows "row_settled d out row"
proof (cases "is_duplicate out (row_server_id row)")
  case False
  with written_stored [OF assms(1,2,4)] show ?thesis by (simp add: row_settled_def)
next
  case True
  from assms(2) obtain d1 where d1: "claim_ok (List.map_filter claim_of rows) out db d1" "db_send_ledger d = db_send_ledger d1"
    unfolding written_def by blast
  from True d1(1) obtain c where c: "c \<in> set (List.map_filter claim_of rows)" "lc_server_id c = row_server_id row"
    unfolding claim_ok_def by auto
  then obtain row' where "row' \<in> set rows" "claim_of row' = Some c" by (auto simp: in_map_filter)
  with claim_of_fields [of row' c] c(2) assms(3,4) have cr: "claim_of row = Some c" by (metis distinct_map inj_onD)
  from d1(1) c True obtain r where r: "db_send_ledger d1 (claim_key c) = Some r" "sl_conversation_id r = lc_conversation_id c"
    "sl_server_id r \<noteq> lc_server_id c" unfolding claim_ok_def by metis
  from written_inv [OF assms(1,2)] r(1) d1(2) have "stored d (lc_tenant_id c) (sl_server_id r)"
    by (simp add: archive_inv_def claim_key_def)
  with True cr r d1(2) claim_of_fields [OF cr] show ?thesis by (auto simp: row_settled_def)
qed

text \<open>What one call gives: the invariant, growth, and after success every row settled.\<close>

definition settles :: "ledger_key set \<Rightarrow> message_row list \<Rightarrow> archive_outcome result \<Rightarrow> pg_db \<Rightarrow> pg_db \<Rightarrow> bool" where
  "settles X rows res db d \<longleftrightarrow> archive_inv X d \<and> grows db d
     \<and> (\<forall>out. res = Ok out \<longrightarrow> (\<forall>row \<in> set rows. row_settled d out row) \<and> (\<forall>i. is_duplicate out i \<longrightarrow> i \<in> row_server_id ` set rows))"

lemma settles_attempt:
  assumes "attempt_values F p rows db = (res, d)" "archive_inv X db" "distinct (map row_server_id rows)" "\<forall>k. \<not> pa_expired F k"
  shows "archive_inv X d \<and> grows db d \<and> (\<forall>r. res = Returned r \<longrightarrow> settles X rows r db d)"
proof -
  consider "d = db" "\<forall>a. res \<noteq> Returned (Ok a)"
    | out where "written rows out db d" "\<forall>a. res = Returned (Ok a) \<longrightarrow> a = out"
    using attempt_values_written [OF assms(1,3,4)] by blast
  then show ?thesis
  proof cases
    case 1
    with assms(2) show ?thesis by (auto simp: settles_def)
  next
    case 2
    with written_inv [OF assms(2) 2(1)] written_grows [OF 2(1)] written_settled [OF assms(2) 2(1) assms(3)]
      written_duplicates [OF 2(1)] show ?thesis by (auto simp: settles_def)
  qed
qed

lemma settles_attempts:
  assumes "archive_attempts Fs p rows i n db = (res, d)" "archive_inv X db" "distinct (map row_server_id rows)"
    "\<forall>j k. \<not> pa_expired (Fs j) k"
  shows "settles X rows res db d"
  using assms
proof (induction n arbitrary: i db)
  case (Suc n)
  obtain r d1 where a: "attempt_values (Fs i) p rows db = (r, d1)" by fastforce
  note s = settles_attempt [OF a Suc.prems(2,3) spec [OF Suc.prems(4)]]
  show ?case
  proof (cases r)
    case (Returned x)
    with Suc.prems(1) a s show ?thesis by simp
  next
    case (TryAgain final e)
    show ?thesis
    proof (cases "n = 0")
      case True
      with Suc.prems(1) a TryAgain s show ?thesis by (auto simp: settles_def)
    next
      case False
      with Suc.prems(1) a TryAgain have "archive_attempts Fs p rows (i + 1) n d1 = (res, d)" by simp
      from Suc.IH [OF this _ Suc.prems(3,4)] s show ?thesis by (auto simp: settles_def intro: grows_trans)
    qed
  qed
qed (auto simp: settles_def)


text \<open>The same in terms of messages, for every call of a pass.\<close>

definition msg_settled :: "mq_ctx \<Rightarrow> pg_db \<Rightarrow> archive_outcome \<Rightarrow> message \<Rightarrow> bool" where
  "msg_settled ctx d out m \<longleftrightarrow>
     (\<exists>t. resolve_tenant_id ctx (m_server_id m) (m_attributes m) = Ok t
      \<and> (if is_duplicate out (m_server_id m)
         then trim (m_client_msg_id m) \<noteq> []
           \<and> (\<exists>r. db_send_ledger d (t, m_sender_id m, m_client_msg_id m) = Some r
                \<and> sl_conversation_id r = m_conversation_id m \<and> sl_server_id r \<noteq> m_server_id m \<and> stored d t (sl_server_id r))
         else stored d t (m_server_id m)))"

definition pass_ok :: "ledger_key set \<Rightarrow> mq_ctx \<Rightarrow> message list \<Rightarrow> archive_outcome result \<Rightarrow> pg_db \<Rightarrow> pg_db \<Rightarrow> bool" where
  "pass_ok X ctx ms res db d \<longleftrightarrow> archive_inv X d \<and> grows db d
     \<and> (\<forall>out. res = Ok out \<longrightarrow> (\<forall>m \<in> set ms. msg_settled ctx d out m) \<and> (\<forall>i. is_duplicate out i \<longrightarrow> i \<in> m_server_id ` set ms))"

lemma prepare_row_fields:
  assumes "prepare_row A now ctx m = Ok row"
  shows "resolve_tenant_id ctx (m_server_id m) (m_attributes m) = Ok (row_tenant_id row)"
    "row_server_id row = m_server_id m" "row_conversation_id row = m_conversation_id m"
    "claim_of row = Some c \<Longrightarrow> claim_key c = (row_tenant_id row, m_sender_id m, m_client_msg_id m) \<and> trim (m_client_msg_id m) \<noteq> []"
  using assms by (auto simp: prepare_row_def and_then_eq_Ok claim_of_def keep_if_def claim_key_def split: if_splits)

lemma row_settled_msg:
  assumes "prepare_row A now ctx m = Ok row" "row_settled d out row"
  shows "msg_settled ctx d out m"
  using assms prepare_row_fields [OF assms(1)] by (auto simp: row_settled_def msg_settled_def split: if_splits)

lemma prepare_rows_settled:
  assumes "prepare_rows A now ctx ms = Ok rows"
  shows "map row_server_id rows = map m_server_id ms"
    and "\<forall>row \<in> set rows. row_settled d out row \<Longrightarrow> \<forall>m \<in> set ms. msg_settled ctx d out m"
proof -
  have "map row_server_id rows = map m_server_id ms \<and>
     ((\<forall>row \<in> set rows. row_settled d out row) \<longrightarrow> (\<forall>m \<in> set ms. msg_settled ctx d out m))"
    using assms
    by (induction ms arbitrary: rows) (auto simp: and_then_eq_Ok prepare_row_fields(2) intro: row_settled_msg)
  then show "map row_server_id rows = map m_server_id ms"
    and "\<forall>row \<in> set rows. row_settled d out row \<Longrightarrow> \<forall>m \<in> set ms. msg_settled ctx d out m" by blast+
qed

lemma settles_pass:
  assumes "settles X rows res db d" "prepare_rows A now ctx ms = Ok rows"
  shows "pass_ok X ctx ms res db d"
proof -
  from prepare_rows_settled(1) [OF assms(2)] have "row_server_id ` set rows = m_server_id ` set ms" by (metis set_map)
  with assms(1) prepare_rows_settled(2) [OF assms(2)] show ?thesis unfolding settles_def pass_ok_def by simp
qed

lemma archive_one_pass:
  assumes "archive_inv X db" "\<forall>k. \<not> pa_expired F k" "archive_one A F ctx m db = (res, d)"
  shows "pass_ok X (fst ctx) [m] res db d"
proof (cases "prepare_row A (pa_now F) (fst ctx) m")
  case (Inl e)
  with assms show ?thesis by (auto simp: archive_one_def pass_ok_def)
next
  case (Inr row)
  obtain r where r: "attempt_values F (snd ctx) [row] db = (r, d)" "\<forall>a. res = Ok a \<longleftrightarrow> r = Returned (Ok a)"
    using archive_one_attempt [OF Inr assms(3)] by blast
  from settles_attempt [OF r(1) assms(1) _ assms(2)] r(2) have "settles X [row] res db d" by (auto simp: settles_def)
  from settles_pass [OF this, of A "pa_now F" "fst ctx" "[m]"] Inr show ?thesis by simp
qed

lemma batch_values_pass:
  assumes "archive_inv X db" "\<forall>j k. \<not> pa_expired (Fs j) k" "distinct (map m_server_id ms)"
    "store_archive_batch_values A Fs ctx ms db = (res, d)"
  shows "pass_ok X (fst ctx) ms res db d"
proof (cases "prepare_rows A (pa_now (Fs 0)) (fst ctx) ms")
  case (Inl e)
  with assms show ?thesis by (auto simp: store_archive_batch_values_def pass_ok_def)
next
  case (Inr rows)
  with assms(4) have a: "archive_attempts Fs (snd ctx) rows 0 MAX_ARCHIVE_ATTEMPTS db = (res, d)"
    by (simp add: store_archive_batch_values_def)
  have "distinct (map row_server_id rows)" using assms(3) prepare_rows_settled(1) [OF Inr] by simp
  from settles_pass [OF settles_attempts [OF a assms(1) this assms(2)] Inr] show ?thesis .
qed

lemma is_duplicate_merge [simp]: "is_duplicate (merge_outcome a b) i \<longleftrightarrow> is_duplicate a i \<or> is_duplicate b i"
  by (auto simp: is_duplicate_def merge_outcome_def)

lemma merge_outcome_assoc: "merge_outcome (merge_outcome a b) c = merge_outcome a (merge_outcome b c)"
  by (simp add: merge_outcome_def)

lemma merge_default [simp]: "merge_outcome default_outcome a = a" "merge_outcome a default_outcome = a"
  by (simp_all add: merge_outcome_def default_outcome_def)

lemma archive_calls_merge:
  "archive_calls call i xs (merge_outcome a b) db =
     (case archive_calls call i xs b db of (Inl e, d) \<Rightarrow> (Inl e, d) | (Inr c, d) \<Rightarrow> (Inr (merge_outcome a c), d))"
proof (induction xs arbitrary: i b db)
  case (Cons x xs)
  show ?case by (cases "call i x db"; cases "fst (call i x db)") (simp_all add: Cons.IH merge_outcome_assoc)
qed simp

lemma archive_calls_Cons:
  "archive_calls call i (x # xs) default_outcome db =
     (case call i x db of (Inl e, d) \<Rightarrow> (Inl e, d)
      | (Inr a, d) \<Rightarrow> (case archive_calls call (i + 1) xs default_outcome d of (Inl e, d) \<Rightarrow> (Inl e, d)
          | (Inr b, d) \<Rightarrow> (Inr (merge_outcome a b), d)))"
proof (cases "call i x db")
  case (Pair r d)
  show ?thesis
  proof (cases r)
    case (Inr a)
    with Pair archive_calls_merge [of call "i + 1" xs a default_outcome d] show ?thesis by simp
  qed (use Pair in simp)
qed

lemma msg_settled_cong:
  "msg_settled ctx d out m \<Longrightarrow> is_duplicate out (m_server_id m) = is_duplicate out' (m_server_id m) \<Longrightarrow> grows d d' \<Longrightarrow>
     msg_settled ctx d' out' m"
proof -
  assume a: "msg_settled ctx d out m" "is_duplicate out (m_server_id m) = is_duplicate out' (m_server_id m)" "grows d d'"
  have s: "stored d t i \<Longrightarrow> stored d' t i" for t i using a(3) stored_mono [of d t i d'] by (simp add: grows_def)
  have l: "db_send_ledger d k = Some r \<Longrightarrow> db_send_ledger d' k = Some r" for k r
    using a(3) map_leD [of "db_send_ledger d" "db_send_ledger d'"] by (simp add: grows_def)
  from a(1,2) show ?thesis unfolding msg_settled_def by (auto split: if_splits intro: s dest: l)
qed

lemma archive_calls_pass:
  assumes "\<And>i x db. x \<in> set xs \<Longrightarrow> archive_inv X db \<Longrightarrow> pass_ok X ctx (msgs x) (fst (call i x db)) db (snd (call i x db))"
    and "distinct (map m_server_id (concat (map msgs xs)))" and "archive_inv X db"
    and "archive_calls call i xs default_outcome db = (res, d)"
  shows "pass_ok X ctx (concat (map msgs xs)) res db d"
  using assms
proof (induction xs arbitrary: i db res d)
  case (Cons x xs)
  obtain r d1 where c: "call i x db = (r, d1)" by fastforce
  from Cons.prems(1) [of x db i] Cons.prems(3) c have p: "pass_ok X ctx (msgs x) r db d1" by simp
  obtain r' d' where t: "archive_calls call (i + 1) xs default_outcome d1 = (r', d')" by fastforce
  show ?case
  proof (cases r)
    case (Inl e)
    with Cons.prems(4) c p show ?thesis by (auto simp: pass_ok_def)
  next
    case (Inr a)
    have p': "pass_ok X ctx (concat (map msgs xs)) r' d1 d'"
    proof (rule Cons.IH [OF _ _ _ t])
      show "pass_ok X ctx (msgs y) (fst (call j y e)) e (snd (call j y e))" if "y \<in> set xs" "archive_inv X e" for j y e
        using Cons.prems(1) that by simp
    qed (use Cons.prems(2) p in \<open>auto simp: pass_ok_def\<close>)
    have d: "d = d'" "res = (case r' of Inl e \<Rightarrow> Inl e | Inr b \<Rightarrow> Inr (merge_outcome a b))"
      using Cons.prems(4) c Inr t unfolding archive_calls_Cons by (auto split: sum.splits)
    have g: "grows db d'" "grows d1 d'" using p p' grows_trans by (auto simp: pass_ok_def)
    have dup: "is_duplicate a j \<Longrightarrow> j \<in> m_server_id ` set (msgs x)"
      "r' = Inr b \<Longrightarrow> is_duplicate b j \<Longrightarrow> j \<in> m_server_id ` set (concat (map msgs xs))" for b j
      using p p' Inr unfolding pass_ok_def by blast+
    have all: "j \<in> m_server_id ` (set (msgs x) \<union> set (concat (map msgs xs)))"
      if "r' = Inr b" "is_duplicate a j \<or> is_duplicate b j" for b j
      using dup(1) [of j] dup(2) [OF that(1), of j] that(2) by (auto simp: image_Un)
    have dis: "m_server_id ` set (msgs x) \<inter> m_server_id ` set (concat (map msgs xs)) = {}"
      using Cons.prems(2) by (auto simp: image_iff)
    have "msg_settled ctx d' (merge_outcome a b) m" if b: "r' = Inr b" and m: "m \<in> set (msgs x @ concat (map msgs xs))" for b m
    proof (cases "m \<in> set (msgs x)")
      case True
      then have "msg_settled ctx d1 a m" "\<not> is_duplicate b (m_server_id m)"
        using p Inr dup(2) [OF b] dis unfolding pass_ok_def by blast+
      with msg_settled_cong [of ctx d1 a m "merge_outcome a b" d'] g(2) show ?thesis by simp
    next
      case False
      then have "msg_settled ctx d' b m" "\<not> is_duplicate a (m_server_id m)"
        using p' b m dup(1) dis unfolding pass_ok_def by auto
      with msg_settled_cong [of ctx d' b m "merge_outcome a b" d'] show ?thesis by simp
    qed
    moreover have "archive_inv X d'" using p' by (simp add: pass_ok_def)
    ultimately show ?thesis using d g(1) all unfolding pass_ok_def by (cases r') auto
  qed
qed (auto simp: pass_ok_def)


lemma concat_chunks: "0 < n \<Longrightarrow> concat (chunks n xs) = xs"
proof (induction n xs rule: chunks.induct)
  case (1 n xs)
  then show ?case by (cases "xs = []") (simp_all add: chunks.simps [of n xs] chunks.simps [of n "[]"])
qed

lemma archive_messages_pass:
  assumes "archive_inv X db" "\<forall>i j k. \<not> pa_expired (Fs i j) k" "distinct (map m_server_id ms)"
    "archive_messages A Fs ctx ms db = (res, d)"
  shows "pass_ok X (fst ctx) ms res db d"
proof -
  let ?n = "optimal_batch_size (sum_list (map (\<lambda>m. ae_size A m + 200) ms) div length ms)"
  have n: "0 < ?n" by (simp add: optimal_batch_size_def)
  consider "ms = []" | "ms \<noteq> []" "length ms \<le> 10" | "10 < length ms" "?n < length ms" | "10 < length ms" "length ms \<le> ?n" by force
  then show ?thesis
  proof cases
    case 1
    with assms(1,4) show ?thesis by (auto simp: archive_messages_def pass_ok_def)
  next
    case 2
    let ?call = "\<lambda>i m. archive_one A (Fs i 0) ctx m"
    from 2 assms(4) have c: "archive_calls ?call 0 ms default_outcome db = (res, d)" by (simp add: archive_messages_def)
    have "pass_ok X (fst ctx) (concat (map (\<lambda>m. [m]) ms)) res db d"
      by (rule archive_calls_pass [OF _ _ assms(1) c]) (use archive_one_pass assms(2,3) in \<open>auto simp: prod_eq_iff\<close>)
    then show ?thesis by simp
  next
    case 3
    let ?call = "\<lambda>i c. store_archive_batch_values A (Fs i) ctx c"
    from 3 have "ms \<noteq> []" by auto
    with 3 assms(4) have c: "archive_calls ?call 0 (chunks ?n ms) default_outcome db = (res, d)"
      by (simp add: archive_messages_def Let_def)
    have "pass_ok X (fst ctx) (concat (map id (chunks ?n ms))) res db d"
    proof (rule archive_calls_pass [OF _ _ assms(1) c])
      fix i x e assume x: "x \<in> set (chunks ?n ms)" "archive_inv X e"
      have "distinct (map m_server_id (concat (chunks ?n ms)))" using assms(3) by (simp add: concat_chunks [OF n])
      with x(1) have "distinct (map m_server_id x)" by (simp add: map_concat distinct_concat_iff)
      with batch_values_pass [OF x(2), of "Fs i" x A ctx] assms(2)
      show "pass_ok X (fst ctx) (id x) (fst (?call i x e)) e (snd (?call i x e))" by simp
    qed (use assms(3) in \<open>simp add: concat_chunks [OF n]\<close>)
    then show ?thesis by (simp add: concat_chunks [OF n])
  next
    case 4
    then have "ms \<noteq> []" by auto
    with 4 assms(4) have "store_archive_batch_values A (Fs 0) ctx ms db = (res, d)"
      by (simp add: archive_messages_def Let_def)
    with batch_values_pass [OF assms(1) _ assms(3)] assms(2) show ?thesis by blast
  qed
qed

section \<open>Reachable archives\<close>

definition empty_db :: pg_db where
  "empty_db = \<lparr>db_send_ledger = Map.empty, db_write_ledger = Map.empty, db_messages = Map.empty, db_audit = []\<rparr>"

text \<open>
  Runs of the archive: passes, progress marks of the write ledger, and the retention of the send ledger, which
  removes rows between passes. \<open>X\<close> collects the keys of the rows it removed.
\<close>

definition remove_expired :: "ledger_key set \<Rightarrow> pg_db \<Rightarrow> pg_db" where
  "remove_expired K db = db\<lparr>db_send_ledger := db_send_ledger db |` (- K)\<rparr>"

inductive archive_reach :: "archive_env \<Rightarrow> ledger_key set \<Rightarrow> pg_db \<Rightarrow> bool" for A where
  init: "archive_reach A {} empty_db"
| archive: "archive_reach A X db \<Longrightarrow> \<forall>i j k. \<not> pa_expired (Fs i j) k \<Longrightarrow> distinct (map m_server_id ms) \<Longrightarrow>
     archive_reach A X (snd (archive_messages A Fs ctx ms db))"
| mark: "archive_reach A X db \<Longrightarrow> archive_reach A X (snd (mark_stage accepts now t i st e db))"
| expire: "archive_reach A X db \<Longrightarrow> archive_reach A (X \<union> K) (remove_expired K db)"

lemma remove_expired_inv: "archive_inv X db \<Longrightarrow> archive_inv (X \<union> K) (remove_expired K db)"
  unfolding archive_inv_def remove_expired_def
  by (auto simp: stored_def owner_agrees_def restrict_map_def split: if_splits)

lemma mark_stage_inv: "archive_inv X db \<Longrightarrow> archive_inv X (snd (mark_stage accepts now t i st e db))"
  unfolding archive_inv_def mark_stage_def
  by (simp add: stored_def owner_agrees_def split: if_split)

lemma archive_reach_inv: "archive_reach A X db \<Longrightarrow> archive_inv X db"
proof (induction rule: archive_reach.induct)
  case init
  show ?case by (simp add: archive_inv_def empty_db_def)
next
  case (archive X db Fs ms ctx)
  with archive_messages_pass [OF archive.IH archive.hyps(2,3) surjective_pairing] show ?case by (simp add: pass_ok_def)
next
  case (mark X db)
  then show ?case using mark_stage_inv by blast
next
  case (expire X db K)
  then show ?case using remove_expired_inv by blast
qed


section \<open>Properties\<close>

definition example_attempt :: pg_attempt where
  "example_attempt = \<lparr>pa_fails = (\<lambda>_. False), pa_commit = CommitOk, pa_expired = (\<lambda>_. False), pa_now = 5\<rparr>"

definition example_archive :: archive_env where
  "example_archive = \<lparr>ae_encode_content = (\<lambda>_. []), ae_date_ok = (\<lambda>_. True), ae_size = (\<lambda>_. 1)\<rparr>"

definition example_writer_ctx :: writer_ctx where
  "example_writer_ctx = (plain_of_metadata [''x-tenant-id'' \<mapsto> ''t1''], None)"

definition example_first :: message where "example_first = example_text\<lparr>m_client_msg_id := ''c1''\<rparr>"
definition example_second :: message where "example_second = example_first\<lparr>m_server_id := ''srv-2''\<rparr>"

definition example_archived :: pg_db where
  "example_archived = snd (archive_messages example_archive (\<lambda>_ _. example_attempt) example_writer_ctx [example_first] empty_db)"

lemma example_archived_reach: "archive_reach example_archive {} example_archived"
  unfolding example_archived_def by (rule archive_reach.archive [OF archive_reach.init]) (simp_all add: example_attempt_def)

lemmas example_archive_defs = example_archived_def example_first_def example_second_def example_archive_def example_attempt_def
  example_writer_ctx_def example_text_def plain_of_metadata_def empty_db_def default_message_def

text \<open>
  C13: what archiving reports is what the archive holds. After a pass that returns, however its
  transactions failed and were retried before, every message of the pass is stored under its tenant, or
  was reported as a duplicate, and then another message of the same sender with the same client id is
  stored in the same conversation and owns the entry of the send ledger.
\<close>

theorem archive_settles_every_message:
  assumes "archive_reach A X db" and "\<forall>i j k. \<not> pa_expired (Fs i j) k" and "distinct (map m_server_id ms)"
    and "archive_messages A Fs ctx ms db = (Ok out, d)" and "m \<in> set ms"
  shows "\<exists>t. resolve_tenant_id (fst ctx) (m_server_id m) (m_attributes m) = Ok t
     \<and> (if is_duplicate out (m_server_id m)
        then trim (m_client_msg_id m) \<noteq> [] \<and> (\<exists>r. db_send_ledger d (t, m_sender_id m, m_client_msg_id m) = Some r
               \<and> sl_conversation_id r = m_conversation_id m \<and> sl_server_id r \<noteq> m_server_id m \<and> stored d t (sl_server_id r))
        else stored d t (m_server_id m))"
  using archive_messages_pass [OF archive_reach_inv [OF assms(1)] assms(2,3,4)] assms(5)
  by (simp add: pass_ok_def msg_settled_def)

theorem archive_settles_every_message_witness:
  "\<exists>out d. archive_messages example_archive (\<lambda>_ _. example_attempt) example_writer_ctx [example_second] example_archived = (Ok out, d)
     \<and> is_duplicate out ''srv-2'' \<and> (\<exists>r. db_send_ledger d (''t1'', ''alice'', ''c1'') = Some r \<and> stored d ''t1'' (sl_server_id r))"
proof -
  obtain res d where a: "archive_messages example_archive (\<lambda>_ _. example_attempt) example_writer_ctx [example_second] example_archived = (res, d)"
    by fastforce
  have "case fst (archive_messages example_archive (\<lambda>_ _. example_attempt) example_writer_ctx [example_second] example_archived) of
      Inr out \<Rightarrow> is_duplicate out ''srv-2'' | Inl _ \<Rightarrow> False"
    by code_simp
  with a obtain out where r: "res = Ok out" "is_duplicate out ''srv-2''" by (cases res) auto
  have fields: "m_server_id example_second = ''srv-2''" "m_sender_id example_second = ''alice''" "m_client_msg_id example_second = ''c1''"
    "resolve_tenant_id (fst example_writer_ctx) ''srv-2'' (m_attributes example_second) = Ok ''t1''"
    by code_simp+
  from archive_settles_every_message [OF example_archived_reach _ _ a [unfolded r(1)], of example_second] fields r(2)
  have "\<exists>r. db_send_ledger d (''t1'', ''alice'', ''c1'') = Some r \<and> stored d ''t1'' (sl_server_id r)"
    by (auto simp: example_attempt_def)
  with a r show ?thesis by blast
qed

text \<open>
  C12: one send, one message. Two stored messages of one sender with one client message id in one
  conversation of one tenant have the same server id, whatever passes were made, in whatever
  batches, with whatever failures, refused or unanswered commits and retries, as long as the retention of
  the send ledger (seven days) has not removed the row of this send, and unless the sender had used the
  client message id in another conversation before: then the ledger keeps pointing there.
\<close>

theorem one_message_per_send:
  assumes "archive_reach A X db" and "db_messages db k = Some row" and "db_messages db k' = Some row'"
    and "row_tenant_id row = row_tenant_id row'" and "row_sender_id row = row_sender_id row'"
    and "row_client_msg_id row = Some c" and "row_client_msg_id row' = Some c" and "trim c \<noteq> []"
    and "row_conversation_id row = row_conversation_id row'" and "(row_tenant_id row, row_sender_id row, c) \<notin> X"
  shows "row_server_id row = row_server_id row'
     \<or> (\<exists>r. db_send_ledger db (row_tenant_id row, row_sender_id row, c) = Some r
          \<and> sl_conversation_id r \<noteq> row_conversation_id row \<and> stored db (row_tenant_id row) (sl_server_id r))"
proof -
  let ?c = "\<lambda>row. \<lparr>lc_tenant_id = row_tenant_id row, lc_sender_id = row_sender_id row, lc_client_msg_id = c,
         lc_conversation_id = row_conversation_id row, lc_server_id = row_server_id row, lc_seq = row_seq row\<rparr>"
  have "claim_of row = Some (?c row)" "claim_of row' = Some (?c row')"
    using assms(6-8) by (simp_all add: claim_of_def keep_if_def)
  with archive_reach_inv [OF assms(1)] assms(2,3)
  have "claim_key (?c row) \<in> X \<or> owner_agrees db (?c row)" "claim_key (?c row') \<in> X \<or> owner_agrees db (?c row')"
    unfolding archive_inv_def by blast+
  moreover have "claim_key (?c row) \<notin> X" "claim_key (?c row') \<notin> X"
    using assms(4,5,10) by (simp_all add: claim_key_def)
  ultimately have "owner_agrees db (?c row)" "owner_agrees db (?c row')" by blast+
  then obtain r where r: "db_send_ledger db (row_tenant_id row, row_sender_id row, c) = Some r"
    "sl_conversation_id r = row_conversation_id row \<longrightarrow> sl_server_id r = row_server_id row \<and> sl_server_id r = row_server_id row'"
    using assms(4,5,9) by (auto simp: owner_agrees_def claim_key_def)
  from archive_reach_inv [OF assms(1)] r(1) have "stored db (row_tenant_id row) (sl_server_id r)"
    unfolding archive_inv_def by blast
  with r show ?thesis by auto
qed

theorem one_message_per_send_witness:
  "\<exists>row. db_messages example_archived (''t1'', ''srv-1'', 5) = Some row \<and> row_server_id row = ''srv-1''"
proof -
  have "case db_messages example_archived (''t1'', ''srv-1'', 5) of Some row \<Rightarrow>
      row_server_id row = ''srv-1'' \<and> row_client_msg_id row = Some ''c1'' \<and> row_conversation_id row = ''1-x''
      \<and> (case db_send_ledger example_archived (row_tenant_id row, row_sender_id row, ''c1'') of
           Some r \<Rightarrow> sl_conversation_id r = ''1-x'' | None \<Rightarrow> False) | None \<Rightarrow> False"
    by code_simp
  then obtain row where row: "db_messages example_archived (''t1'', ''srv-1'', 5) = Some row" "row_server_id row = ''srv-1''"
    "row_client_msg_id row = Some ''c1''" by (auto split: option.splits)
  have "trim ''c1'' \<noteq> []" by code_simp
  from one_message_per_send [OF example_archived_reach row(1) row(1) refl refl row(3) row(3) this refl] row show ?thesis by blast
qed

text \<open>
  The exception is real: a client message id first used in one conversation protects nothing in another. A
  message of the second conversation that is sent again, after its first result left the deduplication store, is
  stored a second time.
\<close>

lemma reused_client_id_stored_twice:
  "let d = snd (archive_messages example_archive (\<lambda>_ _. example_attempt) example_writer_ctx
         [example_first\<lparr>m_conversation_id := ''1-y'', m_server_id := ''srv-3''\<rparr>,
          example_first\<lparr>m_conversation_id := ''1-y'', m_server_id := ''srv-4''\<rparr>] example_archived)
   in db_messages d (''t1'', ''srv-3'', 5) \<noteq> None \<and> db_messages d (''t1'', ''srv-4'', 5) \<noteq> None"
proof -
  have "(case db_messages (snd (archive_messages example_archive (\<lambda>_ _. example_attempt) example_writer_ctx
         [example_first\<lparr>m_conversation_id := ''1-y'', m_server_id := ''srv-3''\<rparr>,
          example_first\<lparr>m_conversation_id := ''1-y'', m_server_id := ''srv-4''\<rparr>] example_archived)) (''t1'', i, 5) of
      None \<Rightarrow> False | Some _ \<Rightarrow> True)" if "i = ''srv-3'' \<or> i = ''srv-4''" for i
    using that by (elim disjE; simp only:; code_simp)
  from this [of "''srv-3''"] this [of "''srv-4''"] show ?thesis by (auto simp: Let_def split: option.splits)
qed

text \<open>
  The two failure stages of the write ledger are never recorded. Their time stamp column is
  \<^verbatim>\<open>failed_at\<close>, which the same statement assigns again; a database that refuses an update which
  assigns a column twice refuses the whole statement, so the stage and its error text are lost, while the
  four other stages are recorded when the statement is accepted.
\<close>

theorem failure_stages_not_recorded:
  assumes "\<forall>cols. \<not> distinct cols \<longrightarrow> \<not> accepts cols"
  shows "if st \<in> {WalCleanupFailed, AckPublishFailed}
     then \<exists>e. mark_stage accepts now t i st err db = (Err e, db)
     else distinct (stage_assignments st) \<and> (accepts (stage_assignments st) \<longrightarrow> db_write_ledger db (t, i) \<noteq> None \<longrightarrow>
       (\<exists>w d. mark_stage accepts now t i st err db = (Ok (), d) \<and> db_write_ledger d (t, i) = Some w
          \<and> wl_write_state w = Some (stage_as_str st)))"
  using assms by (cases st) (auto simp: mark_stage_def stage_assignments_def)

theorem failure_stages_not_recorded_witness:
  "\<exists>e. mark_stage distinct 1 ''t1'' ''srv-1'' AckPublishFailed (Some ''down'') empty_db = (Err e, empty_db)"
  using failure_stages_not_recorded [of distinct AckPublishFailed 1 "''t1''" "''srv-1''" "Some ''down''" empty_db] by simp

end
