(* ===== verification/Writer_Persistence.thy ===== *)
theory Writer_Persistence
  imports Archive_Store "HOL-Library.Sublist"
begin

text \<open>
  The storage writer behind its consumer: the preparation of a message, the reservation that recognizes
  a redelivery, the durable write (archive, event stream, projections) and the acknowledgement
  (\<^verbatim>\<open>flare-storage/writer/src/domain/service/message_persistence.rs\<close>), the command handler
  (\<^verbatim>\<open>application/handlers/command_handler.rs\<close>), the Redis reservations
  (\<^verbatim>\<open>infrastructure/persistence/repository/redis_idempotency.rs\<close>) and the two entry points of the
  consumer. The archive is the one of \<^verbatim>\<open>Archive_Store\<close>; for the event stream, the hot cache, the log
  cleanup, the acknowledgement publisher and the plugin bindings an outside state \<open>'q\<close> decides
  whether a call succeeds, and what succeeded is recorded. Metrics are left out.
\<close>

section \<open>Preparation\<close>

record prepared_message =
  pm_conversation_id :: string
  pm_message_id :: string
  pm_message :: message
  pm_timeline :: timeline_metadata
  pm_sync :: bool

record persistence_result =
  ps_conversation_id :: string
  ps_message_id :: string
  ps_timeline :: timeline_metadata
  ps_deduplicated :: bool

definition parse_i64 :: "string \<Rightarrow> int option" where
  "parse_i64 s =
     (let neg = (s \<noteq> [] \<and> hd s = CHR ''-'');
          t = (if s \<noteq> [] \<and> hd s \<in> {CHR ''-'', CHR ''+''} then tl s else s)
      in if t = [] then None
         else (case parse_digits 0 t of None \<Rightarrow> None
               | Some n \<Rightarrow> (let i = (if neg then - int n else int n)
                            in if i64_min \<le> i \<and> i \<le> i64_max then Some i else None)))"

definition extract_timeline_from_extra :: "(string \<Rightarrow> (string \<rightharpoonup> string) option) \<Rightarrow> (string \<rightharpoonup> string) \<Rightarrow> int \<Rightarrow> timeline_metadata" where
  "extract_timeline_from_extra parse_map extra default_ingestion_ts =
     (case Option.bind (extra ''timeline'') parse_map of
        None \<Rightarrow> default_timeline\<lparr>tl_ingestion_ts := default_ingestion_ts\<rparr>
      | Some m \<Rightarrow>
          (let get = (\<lambda>k. Option.bind (m k) parse_i64) in
           \<lparr>tl_emit_ts = get ''emit_ts'',
            tl_ingestion_ts = (case get ''ingestion_ts'' of None \<Rightarrow> default_ingestion_ts | Some v \<Rightarrow> v),
            tl_persisted_ts = get ''persisted_ts'', tl_dispatched_ts = get ''dispatched_ts'', tl_acked_ts = get ''acked_ts'',
            tl_read_ts = get ''read_ts'', tl_deleted_ts = get ''deleted_ts''\<rparr>))"

definition WRITER_TENANT_ATTRIBUTES :: "string list" where
  "WRITER_TENANT_ATTRIBUTES = [''tenant_id'', ''x-tenant-id'']"

definition pin_message_tenant :: "string \<Rightarrow> message \<Rightarrow> message" where
  "pin_message_tenant tenant_id m =
     fold (\<lambda>key m. if key = ''tenant_id'' \<or> m_attributes m key \<noteq> None
                   then m\<lparr>m_attributes := (m_attributes m)(key \<mapsto> tenant_id)\<rparr> else m)
       WRITER_TENANT_ATTRIBUTES m"

definition prepared_tenant_id :: "message \<Rightarrow> string result" where
  "prepared_tenant_id m =
     (case normalize_optional_tenant_id (m_attributes m ''tenant_id'') of
        None \<Rightarrow> Err (FlareError InvalidParameter ''prepared message has no tenant'')
      | Some t \<Rightarrow> Ok t)"

definition retention_invalid :: "message \<Rightarrow> bool" where
  "retention_invalid m \<longleftrightarrow>
     (case m_retention_policy m of None \<Rightarrow> False
      | Some p \<Rightarrow> rp_mode p \<noteq> RetentionNone
          \<and> (case rp_expire_after_seconds p of None \<Rightarrow> False | Some s \<Rightarrow> s \<le> 0))"

definition prepare_message :: "(string \<Rightarrow> (string \<rightharpoonup> string) option) \<Rightarrow> int \<Rightarrow> store_command \<Rightarrow> prepared_message result" where
  "prepare_message parse_map now request =
     (let conversation_id = (if scd_conversation_id request = []
            then (case scd_message request of None \<Rightarrow> [] | Some m \<Rightarrow> m_conversation_id m)
            else scd_conversation_id request)
      in case scd_message request of
           None \<Rightarrow> Err (FlareError InvalidParameter ''missing message payload'')
         | Some m \<Rightarrow>
             (case Option.bind (scd_tenant request) (\<lambda>t. normalize_optional_tenant_id (Some (fst t))) of
                None \<Rightarrow> Err (FlareError InvalidParameter ''stored message has no tenant from its envelope headers'')
              | Some tenant_id \<Rightarrow>
                  let m = (if m_conversation_id m = [] then m\<lparr>m_conversation_id := conversation_id\<rparr> else m);
                      m = pin_message_tenant tenant_id m
                  in if m_server_id m = [] then Err (FlareError InvalidParameter ''Message server_id cannot be empty'')
                     else
                       let m = (if m_status m = 1 \<or> m_status m = 0 then m\<lparr>m_status := 2\<rparr> else m)
                       in if retention_invalid m
                          then Err (FlareError InvalidParameter ''expire_after_seconds must be positive when retention is enabled'')
                          else Ok \<lparr>pm_conversation_id = conversation_id, pm_message_id = m_server_id m, pm_message = m,
                                pm_timeline = (extract_timeline_from_extra parse_map (scd_metadata request) now)\<lparr>tl_persisted_ts := Some now\<rparr>,
                                pm_sync = scd_sync request\<rparr>))"

section \<open>Reservations\<close>

text \<open>The repository of reserved ids: whether an id is new (and then reserved), and giving a reservation back.\<close>

record 'r message_idempotency =
  mi_is_new :: "mq_ctx \<Rightarrow> string \<Rightarrow> 'r \<Rightarrow> bool result \<times> 'r"
  mi_release :: "mq_ctx \<Rightarrow> string \<Rightarrow> 'r \<Rightarrow> unit result \<times> 'r"

definition scoped_client_idempotency_key :: "mq_ctx \<Rightarrow> string \<Rightarrow> string option \<Rightarrow> string option \<Rightarrow> string result" where
  "scoped_client_idempotency_key ctx client_msg_id sender_id conversation_id =
     (case normalize_optional_tenant_id (mx_tenant_id ctx) of
        None \<Rightarrow> Err (FlareError InvalidParameter ''tenant required for client message idempotency key'')
      | Some tenant_id \<Rightarrow>
          let or_zero = (\<lambda>x. case keep_if (\<lambda>s. trim s \<noteq> []) x of None \<Rightarrow> ''0'' | Some s \<Rightarrow> s)
          in Ok (''client:'' @ tenant_id @ '':'' @ or_zero sender_id @ '':'' @ or_zero conversation_id @ '':'' @ client_msg_id))"

definition is_new_by_client_msg_id :: "'r message_idempotency \<Rightarrow> mq_ctx \<Rightarrow> string \<Rightarrow> string option \<Rightarrow> string option \<Rightarrow> 'r \<Rightarrow>
     bool result \<times> 'r" where
  "is_new_by_client_msg_id M ctx client_msg_id sender_id conversation_id r =
     (if client_msg_id = [] then (Ok True, r)
      else (case scoped_client_idempotency_key ctx client_msg_id sender_id conversation_id of
              Inl e \<Rightarrow> (Err e, r) | Inr key \<Rightarrow> mi_is_new M ctx key r))"

definition release_by_client_msg_id :: "'r message_idempotency \<Rightarrow> mq_ctx \<Rightarrow> string \<Rightarrow> string option \<Rightarrow> string option \<Rightarrow> 'r \<Rightarrow>
     unit result \<times> 'r" where
  "release_by_client_msg_id M ctx client_msg_id sender_id conversation_id r =
     (if client_msg_id = [] then (Ok (), r)
      else (case scoped_client_idempotency_key ctx client_msg_id sender_id conversation_id of
              Inl e \<Rightarrow> (Err e, r) | Inr key \<Rightarrow> mi_release M ctx key r))"

text \<open>
  The Redis repository. \<^verbatim>\<open>SETNX\<close>, \<^verbatim>\<open>EXPIRE\<close> and \<^verbatim>\<open>DEL\<close> are separate commands, and how each ends is a parameter, an
  arbitrary function of its key and the server. A connection that cannot be had is a failed command.
\<close>

record 'r redis_reservations =
  rr_ttl_seconds :: nat
  rr_setnx_end :: "string \<Rightarrow> 'r \<Rightarrow> cmd_end"
  rr_expire_end :: "string \<Rightarrow> 'r \<Rightarrow> cmd_end"
  rr_del_end :: "string \<Rightarrow> 'r \<Rightarrow> cmd_end"

definition redis_message_key :: "mq_ctx \<Rightarrow> string \<Rightarrow> string result" where
  "redis_message_key ctx message_id =
     (case mx_tenant_id ctx of
        None \<Rightarrow> Err (FlareError SystemError ''tenant required for idempotency key'')
      | Some tenant_id \<Rightarrow>
          if \<not> is_valid_tenant_id tenant_id \<or> normalize_tenant_id tenant_id \<noteq> tenant_id
          then Err (FlareError SystemError ''canonical tenant required for idempotency key'')
          else Ok (''storage:idempotency:'' @ tenant_id @ '':'' @ message_id))"

definition redis_is_new :: "'r redis_cmds \<Rightarrow> 'r redis_reservations \<Rightarrow> mq_ctx \<Rightarrow> string \<Rightarrow> 'r \<Rightarrow> bool result \<times> 'r" where
  "redis_is_new R cfg ctx message_id r =
     (case redis_message_key ctx message_id of
        Inl e \<Rightarrow> (Err e, r)
      | Inr key \<Rightarrow>
          let is_new = (r_get R r key = None);
              setnx = (\<lambda>r. if is_new then r_set R key ''1'' None r else r);
              set_end = rr_setnx_end cfg key r
          in case cmd_error set_end of
               Some e \<Rightarrow> (Err (redis_error e), cmd_effect set_end setnx r)
             | None \<Rightarrow>
                 let r = setnx r in
                 if is_new \<and> 0 < rr_ttl_seconds cfg
                 then (if i64_max < int (rr_ttl_seconds cfg)
                       then (Err (redis_error ''out of range integral type conversion attempted''), r)
                       else (case send_cmd (rr_expire_end cfg key r) (r_pexpire R key (rr_ttl_seconds cfg * 1000)) r of
                               (Inl e, r) \<Rightarrow> (Err e, r) | (Inr _, r) \<Rightarrow> (Ok is_new, r)))
                 else (Ok is_new, r))"

definition redis_release :: "'r redis_cmds \<Rightarrow> 'r redis_reservations \<Rightarrow> mq_ctx \<Rightarrow> string \<Rightarrow> 'r \<Rightarrow> unit result \<times> 'r" where
  "redis_release R cfg ctx message_id r =
     (if message_id = [] then (Ok (), r)
      else (case redis_message_key ctx message_id of
         Inl e \<Rightarrow> (Err e, r)
       | Inr key \<Rightarrow> send_cmd (rr_del_end cfg key r) (r_del R key) r))"

definition redis_idempotency_repo :: "'r redis_cmds \<Rightarrow> 'r redis_reservations \<Rightarrow> 'r message_idempotency" where
  "redis_idempotency_repo R cfg = \<lparr>mi_is_new = redis_is_new R cfg, mi_release = redis_release R cfg\<rparr>"

datatype writer_reservation =
    NoReservation | ServerMessageId string | ClientMessageId string "string option" "string option"

definition new_by_server_id :: "'r message_idempotency \<Rightarrow> mq_ctx \<Rightarrow> prepared_message \<Rightarrow> 'r \<Rightarrow>
     (bool \<times> writer_reservation) result \<times> 'r" where
  "new_by_server_id M ctx pm r =
     (case mi_is_new M ctx (pm_message_id pm) r of
        (Inr True, r) \<Rightarrow> (Ok (True, ServerMessageId (pm_message_id pm)), r)
      | (Inr False, r) \<Rightarrow> (Ok (False, NoReservation), r)
      | (Inl e, r) \<Rightarrow> (Err (FlareError DatabaseError (''Failed to check idempotency: '' @ err_msg e)), r))"

definition reserve_idempotency :: "'r message_idempotency option \<Rightarrow> mq_ctx \<Rightarrow> prepared_message \<Rightarrow> 'r \<Rightarrow>
     (bool \<times> writer_reservation) result \<times> 'r" where
  "reserve_idempotency repo ctx pm r =
     (case repo of
        None \<Rightarrow> (Ok (True, NoReservation), r)
      | Some M \<Rightarrow>
          let m = pm_message pm in
          if m_client_msg_id m \<noteq> []
          then (case is_new_by_client_msg_id M ctx (m_client_msg_id m) (Some (m_sender_id m)) (Some (pm_conversation_id pm)) r of
                  (Inr True, r) \<Rightarrow> (Ok (True, ClientMessageId (m_client_msg_id m) (non_empty (m_sender_id m))
                                       (non_empty (pm_conversation_id pm))), r)
                | (Inr False, r) \<Rightarrow> (Ok (False, NoReservation), r)
                | (Inl e, r) \<Rightarrow> new_by_server_id M ctx pm r)
          else new_by_server_id M ctx pm r)"

definition release_idempotency_reservation :: "'r message_idempotency option \<Rightarrow> mq_ctx \<Rightarrow> writer_reservation \<Rightarrow> 'r \<Rightarrow> 'r" where
  "release_idempotency_reservation repo ctx res r =
     (case repo of None \<Rightarrow> r
      | Some M \<Rightarrow> (case res of
            NoReservation \<Rightarrow> r
          | ServerMessageId i \<Rightarrow> snd (mi_release M ctx i r)
          | ClientMessageId c s v \<Rightarrow> snd (release_by_client_msg_id M ctx c s v r)))"

section \<open>The durable write\<close>

record stream_event =
  se_tenant_id :: string
  se_conversation_id :: string
  se_seq :: nat
  se_created_at :: int
  se_message :: message

definition build_event_message :: "int \<Rightarrow> message \<Rightarrow> stream_event result" where
  "build_event_message now m =
     and_then (prepared_tenant_id m) (\<lambda>tenant_id. Ok \<lparr>se_tenant_id = tenant_id, se_conversation_id = m_conversation_id m,
        se_seq = m_conversation_seq m, se_created_at = now, se_message = m\<rparr>)"

datatype ack_status = AckPersisted | AckDuplicate

definition ack_status_of :: "bool \<Rightarrow> ack_status" where
  "ack_status_of deduplicated = (if deduplicated then AckDuplicate else AckPersisted)"

record ack_event =
  ak_message_id :: string
  ak_conversation_id :: string
  ak_status :: ack_status
  ak_ingestion_ts :: int
  ak_persisted_ts :: int
  ak_deduplicated :: bool

record ('r, 'q) writer_service =
  wv_idempotency :: "'r message_idempotency option"
  wv_archive :: "(archive_env \<times> ('q \<Rightarrow> (nat \<Rightarrow> nat \<Rightarrow> pg_attempt) \<times> 'q)) option"
  wv_stream :: "('q \<Rightarrow> bool \<times> 'q) option"
  wv_hot_cache :: "('q \<Rightarrow> bool \<times> 'q) option"
  wv_wal_cleanup :: "('q \<Rightarrow> bool \<times> 'q) option"
  wv_ack :: "('q \<Rightarrow> bool \<times> 'q) option"
  wv_write_ledger :: "(string list \<Rightarrow> bool) option"
  wv_bindings :: "('q \<Rightarrow> nat result \<times> 'q) option"
  wv_parse_map :: "string \<Rightarrow> (string \<rightharpoonup> string) option"
  wv_now :: int

record ('r, 'q) writer_world =
  ww_idem :: 'r
  ww_db :: pg_db
  ww_stream :: "stream_event list"
  ww_hot :: "message list"
  ww_cleaned :: "string list"
  ww_acks :: "(writer_ctx \<times> ack_event) list"
  ww_bound :: "(string \<times> message list) list"
  ww_usage :: "string list"
  ww_out :: 'q

definition outside :: "('q \<Rightarrow> 'a \<times> 'q) \<Rightarrow> ('r, 'q) writer_world \<Rightarrow> 'a \<times> ('r, 'q) writer_world" where
  "outside f w = (case f (ww_out w) of (a, q) \<Rightarrow> (a, w\<lparr>ww_out := q\<rparr>))"

definition on_reservations :: "('r \<Rightarrow> 'a \<times> 'r) \<Rightarrow> ('r, 'q) writer_world \<Rightarrow> 'a \<times> ('r, 'q) writer_world" where
  "on_reservations f w = (case f (ww_idem w) of (a, r) \<Rightarrow> (a, w\<lparr>ww_idem := r\<rparr>))"

text \<open>Bindings are registered per tenant, in the order of the tenants; failures are only logged.\<close>

definition messages_of_tenant :: "message list \<Rightarrow> string \<Rightarrow> message list" where
  "messages_of_tenant ms t = filter (\<lambda>m. prepared_tenant_id m = Ok t) ms"

definition binding_tenants :: "message list \<Rightarrow> string list" where
  "binding_tenants ms = sort (remdups (List.map_filter (\<lambda>m. case prepared_tenant_id m of Inl _ \<Rightarrow> None | Inr t \<Rightarrow> Some t) ms))"

definition register_plugin_entity_bindings :: "('r, 'q) writer_service \<Rightarrow> message list \<Rightarrow> ('r, 'q) writer_world \<Rightarrow> ('r, 'q) writer_world" where
  "register_plugin_entity_bindings S ms w =
     (case wv_bindings S of
        None \<Rightarrow> w
      | Some f \<Rightarrow>
          fold (\<lambda>t w. case outside f w of
              (Inl _, w) \<Rightarrow> w
            | (Inr _, w) \<Rightarrow> w\<lparr>ww_bound := (t, messages_of_tenant ms t) # ww_bound w\<rparr>) (binding_tenants ms) w)"

definition record_write_stage :: "('r, 'q) writer_service \<Rightarrow> string \<Rightarrow> string \<Rightarrow> message_write_stage \<Rightarrow> string option \<Rightarrow>
     ('r, 'q) writer_world \<Rightarrow> ('r, 'q) writer_world" where
  "record_write_stage S tenant_id message_id st error w =
     (case wv_write_ledger S of
        None \<Rightarrow> w
      | Some accepts \<Rightarrow> w\<lparr>ww_db := snd (mark_stage accepts (wv_now S) tenant_id message_id st error (ww_db w))\<rparr>)"

definition archive_step :: "('r, 'q) writer_service \<Rightarrow> writer_ctx \<Rightarrow> message list \<Rightarrow> ('r, 'q) writer_world \<Rightarrow>
     archive_outcome option result \<times> ('r, 'q) writer_world" where
  "archive_step S ctx ms w =
     (case wv_archive S of
        None \<Rightarrow> (Ok None, w)
      | Some (A, attempts) \<Rightarrow>
          (case outside attempts w of
             (Fs, w) \<Rightarrow>
               (case archive_messages A Fs ctx ms (ww_db w) of
                  (Inl e, db) \<Rightarrow> (Err (FlareError DatabaseError (''Failed to store archive: '' @ err_msg e)), w\<lparr>ww_db := db\<rparr>)
                | (Inr out, db) \<Rightarrow> (Ok (Some out), w\<lparr>ww_db := db\<rparr>))))"

fun build_events :: "int \<Rightarrow> message list \<Rightarrow> stream_event list result" where
  "build_events now [] = Ok []"
| "build_events now (m # ms) =
     and_then (build_event_message now m) (\<lambda>e. and_then (build_events now ms) (\<lambda>es. Ok (e # es)))"

definition append_events :: "('r, 'q) writer_service \<Rightarrow> message list \<Rightarrow> ('r, 'q) writer_world \<Rightarrow> unit result \<times> ('r, 'q) writer_world" where
  "append_events S ms w =
     (case wv_stream S of
        None \<Rightarrow> (Err (FlareError InternalError ''Event stream repository not configured''), w)
      | Some f \<Rightarrow>
          (case build_events (wv_now S) ms of
             Inl e \<Rightarrow> (Err e, w)
           | Inr es \<Rightarrow>
               (case outside f w of
                  (ok, w) \<Rightarrow> if ok then (Ok (), w\<lparr>ww_stream := rev es @ ww_stream w\<rparr>)
                             else (Err (FlareError DatabaseError ''Failed to append message event to durable event stream''), w))))"

definition store_hot :: "('r, 'q) writer_service \<Rightarrow> message list \<Rightarrow> ('r, 'q) writer_world \<Rightarrow> ('r, 'q) writer_world" where
  "store_hot S ms w =
     (case wv_hot_cache S of
        None \<Rightarrow> w
      | Some f \<Rightarrow> (case outside f w of (ok, w) \<Rightarrow> if ok then w\<lparr>ww_hot := ms @ ww_hot w\<rparr> else w))"

definition persist_message :: "('r, 'q) writer_service \<Rightarrow> writer_ctx \<Rightarrow> prepared_message \<Rightarrow> ('r, 'q) writer_world \<Rightarrow>
     archive_outcome result \<times> ('r, 'q) writer_world" where
  "persist_message S ctx pm w =
     (let m = pm_message pm in
      case archive_step S ctx [m] w of
        (Inl e, w) \<Rightarrow> (Err e, w)
      | (Inr archived, w) \<Rightarrow>
          let outcome = (case archived of None \<Rightarrow> default_outcome | Some out \<Rightarrow> out) in
          if archived \<noteq> None \<and> is_duplicate outcome (pm_message_id pm) then (Ok outcome, w)
          else
            let w = (if archived \<noteq> None then register_plugin_entity_bindings S [m] w else w) in
            (case append_events S [m] w of
               (Inl e, w) \<Rightarrow> (Err e, w)
             | (Inr _, w) \<Rightarrow> (Ok outcome, store_hot S [m] w)))"

definition persist_batch :: "('r, 'q) writer_service \<Rightarrow> writer_ctx \<Rightarrow> prepared_message list \<Rightarrow> ('r, 'q) writer_world \<Rightarrow>
     archive_outcome result \<times> ('r, 'q) writer_world" where
  "persist_batch S ctx pms w =
     (if pms = [] then (Ok default_outcome, w)
      else
        let ms = map pm_message pms in
        case archive_step S ctx ms w of
          (Inl e, w) \<Rightarrow> (Err e, w)
        | (Inr archived, w) \<Rightarrow>
            let outcome = (case archived of None \<Rightarrow> default_outcome | Some out \<Rightarrow> out);
                ms = (if archived \<noteq> None then filter (\<lambda>m. \<not> is_duplicate outcome (m_server_id m)) ms else ms)
            in if archived \<noteq> None \<and> ms = [] then (Ok outcome, w)
               else
                 let w = (if archived \<noteq> None then register_plugin_entity_bindings S ms w else w) in
                 (case append_events S ms w of
                    (Inl e, w) \<Rightarrow> (Err e, w)
                  | (Inr _, w) \<Rightarrow> (Ok outcome, store_hot S ms w)))"

definition cleanup_wal :: "('r, 'q) writer_service \<Rightarrow> string \<Rightarrow> ('r, 'q) writer_world \<Rightarrow> bool option \<times> ('r, 'q) writer_world" where
  "cleanup_wal S message_id w =
     (case wv_wal_cleanup S of
        None \<Rightarrow> (None, w)
      | Some f \<Rightarrow> (case outside f w of
          (ok, w) \<Rightarrow> if ok then (Some True, w\<lparr>ww_cleaned := message_id # ww_cleaned w\<rparr>) else (Some False, w)))"

definition publish_ack :: "('r, 'q) writer_service \<Rightarrow> writer_ctx \<Rightarrow> persistence_result \<Rightarrow> ('r, 'q) writer_world \<Rightarrow>
     unit result \<times> ('r, 'q) writer_world" where
  "publish_ack S ctx res w =
     (case wv_ack S of
        None \<Rightarrow> (Err (FlareError InternalError ''ACK publisher not configured''), w)
      | Some f \<Rightarrow>
          let event = \<lparr>ak_message_id = ps_message_id res, ak_conversation_id = ps_conversation_id res,
                 ak_status = ack_status_of (ps_deduplicated res), ak_ingestion_ts = tl_ingestion_ts (ps_timeline res),
                 ak_persisted_ts = (case tl_persisted_ts (ps_timeline res) of None \<Rightarrow> wv_now S | Some t \<Rightarrow> t),
                 ak_deduplicated = ps_deduplicated res\<rparr>
          in (case outside f w of
                (ok, w) \<Rightarrow> if ok then (Ok (), w\<lparr>ww_acks := (ctx, event) # ww_acks w\<rparr>)
                           else (Err (FlareError InternalError ''Failed to publish ACK''), w)))"

definition publish_ack_and_record :: "('r, 'q) writer_service \<Rightarrow> writer_ctx \<Rightarrow> string \<Rightarrow> persistence_result \<Rightarrow> ('r, 'q) writer_world \<Rightarrow>
     unit result \<times> ('r, 'q) writer_world" where
  "publish_ack_and_record S ctx tenant_id res w =
     (case publish_ack S ctx res w of
        (Inr _, w) \<Rightarrow> (Ok (), w)
      | (Inl e, w) \<Rightarrow> (Err e, record_write_stage S tenant_id (ps_message_id res) AckPublishFailed (Some (err_msg e)) w))"

definition clean_and_record :: "('r, 'q) writer_service \<Rightarrow> string \<Rightarrow> string \<Rightarrow> ('r, 'q) writer_world \<Rightarrow> ('r, 'q) writer_world" where
  "clean_and_record S tenant_id message_id w =
     (case cleanup_wal S message_id w of
        (Some False, w) \<Rightarrow> record_write_stage S tenant_id message_id WalCleanupFailed (Some ''wal cleanup failed'') w
      | (_, w) \<Rightarrow> w)"

definition result_of :: "prepared_message \<Rightarrow> bool \<Rightarrow> persistence_result" where
  "result_of pm deduplicated = \<lparr>ps_conversation_id = pm_conversation_id pm, ps_message_id = pm_message_id pm,
     ps_timeline = pm_timeline pm, ps_deduplicated = deduplicated\<rparr>"

definition ensure_consistency :: "('r, 'q) writer_service \<Rightarrow> writer_ctx \<Rightarrow> prepared_message \<Rightarrow> ('r, 'q) writer_world \<Rightarrow>
     persistence_result result \<times> ('r, 'q) writer_world" where
  "ensure_consistency S ctx pm w =
     (case prepared_tenant_id (pm_message pm) of
        Inl e \<Rightarrow> (Err e, w)
      | Inr tenant_id \<Rightarrow>
          (case on_reservations (reserve_idempotency (wv_idempotency S) (fst ctx) pm) w of
             (Inl e, w) \<Rightarrow> (Err e, w)
           | (Inr (is_new, reservation), w) \<Rightarrow>
               if \<not> is_new
               then (case publish_ack_and_record S ctx tenant_id (result_of pm True) w of
                       (Inl e, w) \<Rightarrow> (Err e, w)
                     | (Inr _, w) \<Rightarrow> (Ok (result_of pm True), w))
               else
                 (case persist_message S ctx pm w of
                    (Inl e, w) \<Rightarrow>
                      (Err e, w\<lparr>ww_idem := release_idempotency_reservation (wv_idempotency S) (fst ctx) reservation (ww_idem w)\<rparr>)
                  | (Inr outcome, w) \<Rightarrow>
                      let deduplicated = is_duplicate outcome (pm_message_id pm);
                          w = (if deduplicated then w else w\<lparr>ww_usage := tenant_id # ww_usage w\<rparr>)
                      in (case publish_ack_and_record S ctx tenant_id (result_of pm deduplicated) w of
                            (Inl e, w) \<Rightarrow> (Err e, w)
                          | (Inr _, w) \<Rightarrow>
                              (Ok (result_of pm deduplicated), clean_and_record S tenant_id (pm_message_id pm) w)))))"


text \<open>
  A batch. The reservations are made one by one; the first error ends the call there. Messages already reserved are
  acknowledged as duplicates on the way.
\<close>

type_synonym reserved_message = "prepared_message \<times> writer_reservation \<times> string"

fun reserve_all :: "('r, 'q) writer_service \<Rightarrow> writer_ctx \<Rightarrow> prepared_message list \<Rightarrow> reserved_message list \<Rightarrow> persistence_result list \<Rightarrow>
     ('r, 'q) writer_world \<Rightarrow> (reserved_message list \<times> persistence_result list) result \<times> ('r, 'q) writer_world" where
  "reserve_all S ctx [] new results w = (Ok (new, results), w)"
| "reserve_all S ctx (pm # pms) new results w =
     (case prepared_tenant_id (pm_message pm) of
        Inl e \<Rightarrow> (Err e, w)
      | Inr tenant_id \<Rightarrow>
          (case on_reservations (reserve_idempotency (wv_idempotency S) (fst ctx) pm) w of
             (Inl e, w) \<Rightarrow> (Err e, w)
           | (Inr (is_new, reservation), w) \<Rightarrow>
               if is_new then reserve_all S ctx pms (new @ [(pm, reservation, tenant_id)]) results w
               else (case publish_ack_and_record S ctx tenant_id (result_of pm True) w of
                       (Inl e, w) \<Rightarrow> (Err e, w)
                     | (Inr _, w) \<Rightarrow> reserve_all S ctx pms new (results @ [result_of pm True]) w)))"

definition release_all :: "('r, 'q) writer_service \<Rightarrow> writer_ctx \<Rightarrow> reserved_message list \<Rightarrow> ('r, 'q) writer_world \<Rightarrow> ('r, 'q) writer_world" where
  "release_all S ctx new w =
     fold (\<lambda>(pm, reservation, t) w.
        w\<lparr>ww_idem := release_idempotency_reservation (wv_idempotency S) (fst ctx) reservation (ww_idem w)\<rparr>) new w"

fun ack_all :: "('r, 'q) writer_service \<Rightarrow> writer_ctx \<Rightarrow> archive_outcome \<Rightarrow> reserved_message list \<Rightarrow> persistence_result list \<Rightarrow>
     ('r, 'q) writer_world \<Rightarrow> persistence_result list result \<times> ('r, 'q) writer_world" where
  "ack_all S ctx outcome [] results w = (Ok results, w)"
| "ack_all S ctx outcome ((pm, reservation, tenant_id) # new) results w =
     (let res = result_of pm (is_duplicate outcome (pm_message_id pm)) in
      case publish_ack_and_record S ctx tenant_id res w of
        (Inl e, w) \<Rightarrow> (Err e, w)
      | (Inr _, w) \<Rightarrow> ack_all S ctx outcome new (results @ [res]) w)"

definition count_usage :: "archive_outcome \<Rightarrow> reserved_message list \<Rightarrow> ('r, 'q) writer_world \<Rightarrow> ('r, 'q) writer_world" where
  "count_usage outcome new w =
     fold (\<lambda>(pm, reservation, t) w. if is_duplicate outcome (pm_message_id pm) then w else w\<lparr>ww_usage := t # ww_usage w\<rparr>) new w"

definition clean_all :: "('r, 'q) writer_service \<Rightarrow> reserved_message list \<Rightarrow> ('r, 'q) writer_world \<Rightarrow> ('r, 'q) writer_world" where
  "clean_all S new w = fold (\<lambda>(pm, reservation, t) w. clean_and_record S t (pm_message_id pm) w) new w"

definition ensure_batch_consistency :: "('r, 'q) writer_service \<Rightarrow> writer_ctx \<Rightarrow> prepared_message list \<Rightarrow> ('r, 'q) writer_world \<Rightarrow>
     persistence_result list result \<times> ('r, 'q) writer_world" where
  "ensure_batch_consistency S ctx pms w =
     (if pms = [] then (Ok [], w)
      else (case reserve_all S ctx pms [] [] w of
         (Inl e, w) \<Rightarrow> (Err e, w)
       | (Inr (new, results), w) \<Rightarrow>
           if new = [] then (Ok results, w)
           else (case persist_batch S ctx (map fst new) w of
              (Inl e, w) \<Rightarrow> (Err e, release_all S ctx new w)
            | (Inr outcome, w) \<Rightarrow>
                (case ack_all S ctx outcome new results (count_usage outcome new w) of
                   (Inl e, w) \<Rightarrow> (Err e, w)
                 | (Inr results, w) \<Rightarrow> (Ok results, clean_all S new w)))))"

section \<open>The command handler and the consumer\<close>

definition handle_store :: "('r, 'q) writer_service \<Rightarrow> writer_ctx \<Rightarrow> store_command \<Rightarrow> ('r, 'q) writer_world \<Rightarrow>
     persistence_result option result \<times> ('r, 'q) writer_world" where
  "handle_store S ctx cmd w =
     (case prepare_message (wv_parse_map S) (wv_now S) cmd of
        Inl e \<Rightarrow> (Err (FlareError InternalError (''Failed to prepare message: '' @ err_msg e)), w)
      | Inr pm \<Rightarrow>
          (case ensure_consistency S ctx pm w of
             (Inl e, w) \<Rightarrow> (Err e, w)
           | (Inr res, w) \<Rightarrow> (Ok (Some res), w)))"

fun prepare_all :: "('r, 'q) writer_service \<Rightarrow> store_command list \<Rightarrow> prepared_message list result" where
  "prepare_all S [] = Ok []"
| "prepare_all S (cmd # cmds) =
     (case prepare_message (wv_parse_map S) (wv_now S) cmd of
        Inl e \<Rightarrow> Err (FlareError InternalError (''Failed to prepare message in batch: '' @ err_msg e))
      | Inr pm \<Rightarrow> and_then (prepare_all S cmds) (\<lambda>pms. Ok (pm # pms)))"

definition handle_store_batch :: "('r, 'q) writer_service \<Rightarrow> writer_ctx \<Rightarrow> store_command list \<Rightarrow> ('r, 'q) writer_world \<Rightarrow>
     persistence_result list result \<times> ('r, 'q) writer_world" where
  "handle_store_batch S ctx cmds w =
     (case prepare_all S cmds of
        Inl e \<Rightarrow> (Err e, w)
      | Inr pms \<Rightarrow> if pms = [] then (Ok [], w) else ensure_batch_consistency S ctx pms w)"

definition consume_stored :: "('sk, 'vk, 'sig) store_consumer \<Rightarrow> ('r, 'q) writer_service \<Rightarrow> delivery \<Rightarrow> ('r, 'q) writer_world \<Rightarrow>
     (consumer_error + message_result) \<times> ('r, 'q) writer_world" where
  "consume_stored C S d w =
     (case decode_store_message C d of
        Inl e \<Rightarrow> (Inl e, w)
      | Inr None \<Rightarrow> (Inr Ack, w)
      | Inr (Some x) \<Rightarrow>
          (case handle_store S (ds_ctx x, ds_proof x) (ds_command x) w of
             (Inl e, w) \<Rightarrow> (Inl (HandlerError (''MessagePersistenceCommandHandler error: '' @ err_msg e)), w)
           | (Inr _, w) \<Rightarrow> (Inr Ack, w)))"

fun consume_groups :: "('r, 'q) writer_service \<Rightarrow> ((string \<times> string option) \<times> writer_ctx \<times> store_command list) list \<Rightarrow>
     ('r, 'q) writer_world \<Rightarrow> (consumer_error + unit) \<times> ('r, 'q) writer_world" where
  "consume_groups S [] w = (Inr (), w)"
| "consume_groups S ((k, ctx, cmds) # groups) w =
     (case handle_store_batch S ctx cmds w of
        (Inl e, w) \<Rightarrow> (Inl (HandlerError (''MessagePersistenceCommandHandler batch error: '' @ err_msg e)), w)
      | (Inr _, w) \<Rightarrow> consume_groups S groups w)"

definition consume_stored_batch :: "('sk, 'vk, 'sig) store_consumer \<Rightarrow> ('r, 'q) writer_service \<Rightarrow> delivery list \<Rightarrow> ('r, 'q) writer_world \<Rightarrow>
     (consumer_error + message_result list) \<times> ('r, 'q) writer_world" where
  "consume_stored_batch C S ds w =
     (if ds = [] then (Inr [], w)
      else (case plan_batch C ds of
         (results, groups) \<Rightarrow>
           (case consume_groups S groups w of
              (Inl e, w) \<Rightarrow> (Inl e, w)
            | (Inr _, w) \<Rightarrow> (Inr results, w))))"

section \<open>The contract of reservations\<close>

text \<open>The id a reservation stands for, and the ids a delivery may be recognized by.\<close>

definition held :: "mq_ctx \<Rightarrow> writer_reservation \<Rightarrow> string option" where
  "held ctx res = (case res of
      NoReservation \<Rightarrow> None
    | ServerMessageId i \<Rightarrow> Some i
    | ClientMessageId c s v \<Rightarrow>
        if c = [] then None else (case scoped_client_idempotency_key ctx c s v of Inl e \<Rightarrow> None | Inr k \<Rightarrow> Some k))"

definition delivery_ids :: "mq_ctx \<Rightarrow> prepared_message \<Rightarrow> string list" where
  "delivery_ids ctx pm = pm_message_id pm #
     (case scoped_client_idempotency_key ctx (m_client_msg_id (pm_message pm)) (Some (m_sender_id (pm_message pm)))
             (Some (pm_conversation_id pm)) of Inl e \<Rightarrow> [] | Inr k \<Rightarrow> [k])"

text \<open>
  \<open>taken ctx r k\<close> says that the id \<open>k\<close> is reserved for the tenant of \<open>ctx\<close>. A refused answer leaves the
  reservations as they were.
\<close>

locale reservation_store =
  fixes M :: "'r message_idempotency" and taken :: "mq_ctx \<Rightarrow> 'r \<Rightarrow> string \<Rightarrow> bool"
  assumes is_new: "mi_is_new M ctx k r = (Ok True, r') \<Longrightarrow> \<not> taken ctx r k \<and> (\<forall>j. taken ctx r' j \<longleftrightarrow> taken ctx r j \<or> j = k)"
    and is_old: "mi_is_new M ctx k r = (Ok False, r') \<Longrightarrow> taken ctx r k \<and> (\<forall>j. taken ctx r' j \<longleftrightarrow> taken ctx r j)"
    and is_new_failed: "mi_is_new M ctx k r = (Err e, r') \<Longrightarrow> taken ctx r' j \<longleftrightarrow> taken ctx r j"
    and released: "k \<noteq> [] \<Longrightarrow> mi_release M ctx k r = (Ok (), r') \<Longrightarrow> taken ctx r' j \<longleftrightarrow> taken ctx r j \<and> j \<noteq> k"
begin

lemma new_by_server_id_cases:
  assumes "new_by_server_id M ctx pm r = (res, r')"
  shows "(\<exists>e. res = Err e) \<and> (\<forall>j. taken ctx r' j \<longleftrightarrow> taken ctx r j)
    \<or> res = Ok (False, NoReservation) \<and> taken ctx r (pm_message_id pm) \<and> (\<forall>j. taken ctx r' j \<longleftrightarrow> taken ctx r j)
    \<or> res = Ok (True, ServerMessageId (pm_message_id pm)) \<and> \<not> taken ctx r (pm_message_id pm)
       \<and> (\<forall>j. taken ctx r' j \<longleftrightarrow> taken ctx r j \<or> j = pm_message_id pm)"
proof (cases "mi_is_new M ctx (pm_message_id pm) r")
  case (Pair a r1)
  with assms is_new [of ctx "pm_message_id pm" r r1] is_old [of ctx "pm_message_id pm" r r1] is_new_failed [of ctx "pm_message_id pm" r _ r1]
  show ?thesis by (cases a; cases "\<exists>b. a = Inr True") (auto simp: new_by_server_id_def split: bool.splits)
qed

lemma scoped_key_non_empty:
  "scoped_client_idempotency_key ctx c (non_empty s) (non_empty v) = scoped_client_idempotency_key ctx c (Some s) (Some v)"
  by (simp add: scoped_client_idempotency_key_def keep_if_def split: option.split)

lemma reserve_cases:
  assumes "reserve_idempotency (Some M) ctx pm r = (res, r')" and "pm_message_id pm \<noteq> []"
  shows "(\<exists>e. res = Err e) \<and> (\<forall>j. taken ctx r' j \<longleftrightarrow> taken ctx r j)
    \<or> res = Ok (False, NoReservation) \<and> (\<exists>k \<in> set (delivery_ids ctx pm). taken ctx r k) \<and> (\<forall>j. taken ctx r' j \<longleftrightarrow> taken ctx r j)
    \<or> (\<exists>v k. res = Ok (True, v) \<and> held ctx v = Some k \<and> k \<noteq> [] \<and> k \<in> set (delivery_ids ctx pm)
         \<and> \<not> taken ctx r k \<and> (\<forall>j. taken ctx r' j \<longleftrightarrow> taken ctx r j \<or> j = k))"
proof (cases "m_client_msg_id (pm_message pm) = []")
  case True
  with assms new_by_server_id_cases [of ctx pm r res r'] show ?thesis
    by (auto simp: reserve_idempotency_def held_def delivery_ids_def)
next
  case False
  let ?k = "scoped_client_idempotency_key ctx (m_client_msg_id (pm_message pm)) (Some (m_sender_id (pm_message pm))) (Some (pm_conversation_id pm))"
  show ?thesis
  proof (cases ?k)
    case (Inl e)
    with assms False new_by_server_id_cases [of ctx pm r res r'] show ?thesis
      by (auto simp: reserve_idempotency_def is_new_by_client_msg_id_def held_def delivery_ids_def)
  next
    case (Inr k)
    then have ne: "k \<noteq> []" by (auto simp: scoped_client_idempotency_key_def Let_def split: option.splits)
    obtain a r1 where n: "mi_is_new M ctx k r = (a, r1)" by fastforce
    consider (fail) e where "a = Err e" | (yes) "a = Ok True" | (no) "a = Ok False" by (cases a) auto
    then show ?thesis
    proof cases
      case fail
      with assms(1) False Inr n have s: "new_by_server_id M ctx pm r1 = (res, r')"
        by (simp add: reserve_idempotency_def is_new_by_client_msg_id_def Let_def)
      have "taken ctx r1 j \<longleftrightarrow> taken ctx r j" for j using is_new_failed n fail by blast
      with new_by_server_id_cases [OF s] assms(2) show ?thesis by (auto simp: held_def delivery_ids_def)
    next
      case yes
      with assms(1) False Inr n have "res = Ok (True, ClientMessageId (m_client_msg_id (pm_message pm))
          (non_empty (m_sender_id (pm_message pm))) (non_empty (pm_conversation_id pm)))" "r' = r1"
        by (auto simp: reserve_idempotency_def is_new_by_client_msg_id_def Let_def)
      with is_new [of ctx k r r1] n yes ne Inr False show ?thesis
        by (auto simp: held_def scoped_key_non_empty delivery_ids_def)
    next
      case no
      with assms(1) False Inr n is_old [of ctx k r r1] show ?thesis
        by (auto simp: reserve_idempotency_def is_new_by_client_msg_id_def delivery_ids_def Let_def)
    qed
  qed
qed

end


definition redis_taken :: "'r redis_cmds \<Rightarrow> mq_ctx \<Rightarrow> 'r \<Rightarrow> string \<Rightarrow> bool" where
  "redis_taken R ctx r k = (case redis_message_key ctx k of Inl e \<Rightarrow> False | Inr key \<Rightarrow> r_get R r key \<noteq> None)"

lemma redis_message_key_inject:
  "redis_message_key ctx k = Ok key \<Longrightarrow> redis_message_key ctx j = Ok key \<longleftrightarrow> j = k"
  by (auto simp: redis_message_key_def split: option.splits if_splits)

lemma redis_message_key_total:
  "redis_message_key ctx k = Ok key \<Longrightarrow> \<exists>key'. redis_message_key ctx j = Ok key'"
  by (auto simp: redis_message_key_def split: option.splits if_splits)

text \<open>
  Redis as a reservation store: a \<^verbatim>\<open>SETNX\<close> may fail, but not after being applied, and \<^verbatim>\<open>EXPIRE\<close> is answered. A
  reservation whose call failed would otherwise stay.
\<close>

locale redis_reservation_repo = redis_server R for R :: "'r redis_cmds" +
  fixes cfg :: "'r redis_reservations"
  assumes setnx_not_lost: "rr_setnx_end cfg key r \<noteq> CmdLost e"
    and expire_answers: "0 < rr_ttl_seconds cfg \<Longrightarrow> rr_expire_end cfg key r = CmdDone"
    and ttl_fits: "int (rr_ttl_seconds cfg) \<le> i64_max"
begin

lemma taken_add:
  assumes "redis_message_key ctx k = Ok key" "\<And>x. r_get R r' x \<noteq> None \<longleftrightarrow> r_get R r x \<noteq> None \<or> x = key"
  shows "redis_taken R ctx r' j \<longleftrightarrow> redis_taken R ctx r j \<or> j = k"
proof -
  obtain key' where j: "redis_message_key ctx j = Ok key'" using redis_message_key_total [OF assms(1)] by blast
  have "key' = key \<longleftrightarrow> j = k" using redis_message_key_inject [OF assms(1), of j] j by auto
  then show ?thesis using j assms(2) [of key'] by (simp add: redis_taken_def)
qed

lemma taken_del:
  assumes "redis_message_key ctx k = Ok key" "\<And>x. r_get R r' x \<noteq> None \<longleftrightarrow> r_get R r x \<noteq> None \<and> x \<noteq> key"
  shows "redis_taken R ctx r' j \<longleftrightarrow> redis_taken R ctx r j \<and> j \<noteq> k"
proof -
  obtain key' where j: "redis_message_key ctx j = Ok key'" using redis_message_key_total [OF assms(1)] by blast
  have "key' = key \<longleftrightarrow> j = k" using redis_message_key_inject [OF assms(1), of j] j by auto
  then show ?thesis using j assms(2) [of key'] by (simp add: redis_taken_def)
qed

lemma redis_is_new_cases:
  assumes "redis_is_new R cfg ctx k r = (res, r')"
  shows "(\<exists>e. res = Err e) \<and> r' = r
    \<or> (\<exists>key. redis_message_key ctx k = Ok key \<and> res = Ok False \<and> r_get R r key \<noteq> None \<and> r' = r)
    \<or> (\<exists>key. redis_message_key ctx k = Ok key \<and> res = Ok True \<and> r_get R r key = None
         \<and> (\<forall>x. r_get R r' x = (if x = key then Some ''1'' else r_get R r x)))"
proof (cases "redis_message_key ctx k")
  case (Inr key)
  show ?thesis
  proof (cases "rr_setnx_end cfg key r")
    case CmdDone
    with Inr assms expire_answers ttl_fits show ?thesis
      by (cases "r_get R r key"; cases "rr_ttl_seconds cfg = 0")
        (auto simp: redis_is_new_def send_cmd_def get_set get_pexpire)
  qed (use Inr assms setnx_not_lost in \<open>auto simp: redis_is_new_def\<close>)
qed (use assms in \<open>auto simp: redis_is_new_def\<close>)

sublocale reservation_store "redis_idempotency_repo R cfg" "redis_taken R"
proof (unfold_locales, goal_cases)
  case (1 ctx k r r')
  then obtain key where k: "redis_message_key ctx k = Ok key" "r_get R r key = None"
    "\<forall>x. r_get R r' x = (if x = key then Some ''1'' else r_get R r x)"
    using redis_is_new_cases [of ctx k r "Ok True" r'] by (auto simp: redis_idempotency_repo_def)
  with taken_add [OF k(1)] show ?case by (simp add: redis_taken_def)
next
  case (2 ctx k r r')
  then show ?case
    using redis_is_new_cases [of ctx k r "Ok False" r'] by (auto simp: redis_idempotency_repo_def redis_taken_def)
next
  case (3 ctx k r e r' j)
  then have "r' = r" using redis_is_new_cases [of ctx k r "Err e" r'] by (auto simp: redis_idempotency_repo_def)
  then show ?case by simp
next
  case (4 k ctx r r' j)
  then obtain key where k: "redis_message_key ctx k = Ok key" "r' = r_del R key r"
    by (auto simp: redis_idempotency_repo_def redis_release_def split: sum.splits if_splits dest: send_cmd_Ok)
  show ?case by (rule taken_del [OF k(1)]) (simp add: k(2) get_del)
qed

end

definition example_reservations :: "mem_state redis_reservations" where
  "example_reservations = \<lparr>rr_ttl_seconds = 60, rr_setnx_end = (\<lambda>_ _. CmdDone), rr_expire_end = (\<lambda>_ _. CmdDone),
     rr_del_end = (\<lambda>_ _. CmdDone)\<rparr>"

interpretation mem_reservations: redis_reservation_repo mem_redis example_reservations
  by unfold_locales (simp_all add: example_reservations_def)

section \<open>What a call leaves\<close>

text \<open>The archive of a service answers, and no row of the send ledger expires during a call.\<close>

definition archive_attached :: "('r, 'q) writer_service \<Rightarrow> bool" where
  "archive_attached S \<longleftrightarrow> (\<exists>A attempts. wv_archive S = Some (A, attempts) \<and> (\<forall>q i j k. \<not> pa_expired (fst (attempts q) i j) k))"

definition kept :: "('r, 'q) writer_world \<Rightarrow> ('r, 'q) writer_world \<Rightarrow> bool" where
  "kept w w' \<longleftrightarrow> (archive_inv {} (ww_db w) \<longrightarrow> archive_inv {} (ww_db w')) \<and> grows (ww_db w) (ww_db w')
     \<and> set (ww_stream w) \<subseteq> set (ww_stream w')"

lemma kept_refl [simp]: "kept w w"
  by (simp add: kept_def)

lemma kept_trans: "kept a b \<Longrightarrow> kept b c \<Longrightarrow> kept a c"
  unfolding kept_def using grows_trans by blast

lemma kept_same: "ww_db w' = ww_db w \<Longrightarrow> ww_stream w' = ww_stream w \<Longrightarrow> kept w w'"
  by (simp add: kept_def)

definition backed :: "('r, 'q) writer_world \<Rightarrow> writer_ctx \<Rightarrow> message \<Rightarrow> bool" where
  "backed w ctx m \<longleftrightarrow>
     (\<exists>t. resolve_tenant_id (fst ctx) (m_server_id m) (m_attributes m) = Ok t \<and> stored (ww_db w) t (m_server_id m))
     \<and> (\<exists>e \<in> set (ww_stream w). se_message e = m)"

lemma backed_kept: "backed w ctx m \<Longrightarrow> kept w w' \<Longrightarrow> backed w' ctx m"
  unfolding backed_def kept_def grows_def using stored_mono by blast

lemma outside_eq: "outside f w = (fst (f (ww_out w)), w\<lparr>ww_out := snd (f (ww_out w))\<rparr>)"
  by (simp add: outside_def prod.case_eq_if)

lemma outside_frame:
  assumes "outside f w = (a, w')"
  shows "ww_db w' = ww_db w" "ww_stream w' = ww_stream w" "ww_acks w' = ww_acks w" "ww_idem w' = ww_idem w"
    "fst (f (ww_out w)) = a"
  using assms by (auto simp: outside_def split: prod.splits)

lemma register_frame:
  "ww_db (register_plugin_entity_bindings S ms w) = ww_db w \<and> ww_stream (register_plugin_entity_bindings S ms w) = ww_stream w
   \<and> ww_acks (register_plugin_entity_bindings S ms w) = ww_acks w \<and> ww_idem (register_plugin_entity_bindings S ms w) = ww_idem w"
proof (cases "wv_bindings S")
  case (Some f)
  let ?g = "\<lambda>t w. case outside f w of (Inl _, w) \<Rightarrow> w | (Inr _, w) \<Rightarrow> w\<lparr>ww_bound := (t, messages_of_tenant ms t) # ww_bound w\<rparr>"
  have g: "ww_db (?g t w) = ww_db w \<and> ww_stream (?g t w) = ww_stream w \<and> ww_acks (?g t w) = ww_acks w \<and> ww_idem (?g t w) = ww_idem w"
    for t and w :: "('a, 'b) writer_world"
    by (simp add: outside_eq split: sum.split)
  have "ww_db (fold ?g ts w) = ww_db w \<and> ww_stream (fold ?g ts w) = ww_stream w
      \<and> ww_acks (fold ?g ts w) = ww_acks w \<and> ww_idem (fold ?g ts w) = ww_idem w" for ts
    by (induction ts arbitrary: w) (simp_all add: g)
  with Some show ?thesis by (simp add: register_plugin_entity_bindings_def)
qed (simp add: register_plugin_entity_bindings_def)

lemma store_hot_frame:
  "ww_db (store_hot S ms w) = ww_db w \<and> ww_stream (store_hot S ms w) = ww_stream w \<and> ww_acks (store_hot S ms w) = ww_acks w
   \<and> ww_idem (store_hot S ms w) = ww_idem w"
proof (cases "wv_hot_cache S")
  case (Some f)
  then show ?thesis by (simp add: store_hot_def outside_eq)
qed (simp add: store_hot_def)

lemma mark_stage_grows: "grows db (snd (mark_stage accepts now t i st e db))"
  by (simp add: mark_stage_def grows_def)

lemma record_write_stage_frame:
  "kept w (record_write_stage S t i st e w)" "ww_acks (record_write_stage S t i st e w) = ww_acks w"
  "ww_idem (record_write_stage S t i st e w) = ww_idem w" "ww_stream (record_write_stage S t i st e w) = ww_stream w"
  using mark_stage_inv mark_stage_grows by (auto simp: record_write_stage_def kept_def split: option.split)

lemma append_events_cases:
  assumes "append_events S ms w = (r, w')"
  shows "kept w w'" "ww_acks w' = ww_acks w" "ww_idem w' = ww_idem w" "ww_db w' = ww_db w"
    "r = Ok () \<Longrightarrow> \<forall>m \<in> set ms. \<exists>e \<in> set (ww_stream w'). se_message e = m"
proof -
  have b: "\<forall>m \<in> set ms. \<exists>e \<in> set es. se_message e = m" if "build_events now ms = Ok es" for now es
    using that by (induction ms arbitrary: es) (fastforce simp: and_then_eq_Ok build_event_message_def)+
  have all: "kept w w' \<and> ww_acks w' = ww_acks w \<and> ww_idem w' = ww_idem w \<and> ww_db w' = ww_db w
     \<and> (r = Ok () \<longrightarrow> (\<forall>m \<in> set ms. \<exists>e \<in> set (ww_stream w'). se_message e = m))"
  proof (cases "wv_stream S")
    case (Some f)
    obtain ok w1 where o1: "outside f w = (ok, w1)" by fastforce
    show ?thesis
    proof (cases "build_events (wv_now S) ms")
      case (Inr es)
      with assms Some o1 outside_frame [OF o1] b [OF Inr] show ?thesis
        by (auto simp: append_events_def kept_def bex_Un split: if_splits)
    qed (use assms Some in \<open>auto simp: append_events_def\<close>)
  qed (use assms in \<open>auto simp: append_events_def\<close>)
  then show "kept w w'" "ww_acks w' = ww_acks w" "ww_idem w' = ww_idem w" "ww_db w' = ww_db w" by blast+
  show "\<forall>m \<in> set ms. \<exists>e \<in> set (ww_stream w'). se_message e = m" if "r = Ok ()" using all that by blast
qed


lemma archive_step_settled:
  assumes "archive_step S ctx ms w = (r, w')" "archive_attached S" "archive_inv {} (ww_db w)" "distinct (map m_server_id ms)"
  shows "kept w w'" "ww_acks w' = ww_acks w" "ww_idem w' = ww_idem w"
    "r = Ok a \<Longrightarrow> \<exists>out. a = Some out \<and> (\<forall>m \<in> set ms. msg_settled (fst ctx) (ww_db w') out m)"
proof -
  from assms(2) obtain A attempts where a: "wv_archive S = Some (A, attempts)" "\<forall>q i j k. \<not> pa_expired (fst (attempts q) i j) k"
    unfolding archive_attached_def by blast
  let ?Fs = "fst (attempts (ww_out w))"
  obtain res db where ar: "archive_messages A ?Fs ctx ms (ww_db w) = (res, db)" by fastforce
  have p: "pass_ok {} (fst ctx) ms res (ww_db w) db"
    by (rule archive_messages_pass [OF assms(3) _ assms(4) ar]) (use a(2) in blast)
  have w': "w' = w\<lparr>ww_out := snd (attempts (ww_out w)), ww_db := db\<rparr>"
    "r = (case res of Inl e \<Rightarrow> Err (FlareError DatabaseError (''Failed to store archive: '' @ err_msg e)) | Inr out \<Rightarrow> Ok (Some out))"
    using assms(1) a(1) ar by (auto simp: archive_step_def outside_eq split: sum.splits)
  show "kept w w'" "ww_acks w' = ww_acks w" "ww_idem w' = ww_idem w"
    using p by (simp_all add: w' kept_def pass_ok_def)
  show "r = Ok a \<Longrightarrow> \<exists>out. a = Some out \<and> (\<forall>m \<in> set ms. msg_settled (fst ctx) (ww_db w') out m)"
    using p w' by (cases res) (auto simp: pass_ok_def)
qed

text \<open>A message alone is persisted as a batch of one.\<close>

lemma persist_message_batch:
  "pm_message_id pm = m_server_id (pm_message pm) \<Longrightarrow> persist_message S ctx pm w = persist_batch S ctx [pm] w"
  by (auto simp: persist_message_def persist_batch_def Let_def split: prod.splits sum.splits)

lemma persist_batch_settled:
  assumes "persist_batch S ctx pms w = (r, w')" "archive_attached S" "archive_inv {} (ww_db w)"
    "distinct (map (m_server_id \<circ> pm_message) pms)"
  shows "kept w w' \<and> ww_acks w' = ww_acks w \<and> ww_idem w' = ww_idem w
     \<and> (\<forall>out. r = Ok out \<longrightarrow> (\<forall>pm \<in> set pms. msg_settled (fst ctx) (ww_db w') out (pm_message pm)
          \<and> (\<not> is_duplicate out (m_server_id (pm_message pm)) \<longrightarrow> backed w' ctx (pm_message pm))))"
proof (cases "pms = []")
  case False
  let ?ms = "map pm_message pms"
  obtain ra w1 where ar: "archive_step S ctx ?ms w = (ra, w1)" by fastforce
  note st = archive_step_settled [OF ar assms(2,3)]
  have k1: "kept w w1" "ww_acks w1 = ww_acks w" "ww_idem w1 = ww_idem w" using st(1-3) assms(4) by simp_all
  show ?thesis
  proof (cases ra)
    case (Inl e)
    with assms(1) False ar k1 show ?thesis by (auto simp: persist_batch_def Let_def)
  next
    case (Inr a)
    with st(4) [of a] assms(4) obtain out where out: "a = Some out" "\<forall>m \<in> set ?ms. msg_settled (fst ctx) (ww_db w1) out m" by auto
    let ?new = "filter (\<lambda>m. \<not> is_duplicate out (m_server_id m)) ?ms"
    have tenant: "\<exists>t. resolve_tenant_id (fst ctx) (m_server_id m) (m_attributes m) = Ok t \<and> stored (ww_db w1) t (m_server_id m)"
      if "m \<in> set ?new" for m
      using out(2) that by (force simp: msg_settled_def)
    show ?thesis
    proof (cases "?new = []")
      case True
      then have "\<forall>pm \<in> set pms. is_duplicate out (m_server_id (pm_message pm))" by (auto simp: filter_empty_conv)
      with assms(1) False ar Inr out True k1 show ?thesis by (auto simp: persist_batch_def Let_def)
    next
      case new: False
      let ?w2 = "register_plugin_entity_bindings S ?new w1"
      obtain re w3 where ev: "append_events S ?new ?w2 = (re, w3)" by fastforce
      note ap = append_events_cases [OF ev]
      have k2: "kept w1 ?w2" using register_frame [of S ?new w1] by (simp add: kept_same)
      have db: "ww_db w3 = ww_db w1" using ap(4) register_frame [of S ?new w1] by simp
      have k3: "kept w w3" using kept_trans [OF kept_trans [OF k1(1) k2] ap(1)] .
      have same: "ww_acks w3 = ww_acks w" "ww_idem w3 = ww_idem w" using ap(2,3) register_frame [of S ?new w1] k1 by simp_all
      show ?thesis
      proof (cases re)
        case (Inl e)
        with assms(1) False ar \<open>ra = Inr a\<close> out new ev k3 same show ?thesis by (auto simp: persist_batch_def Let_def)
      next
        case (Inr u)
        let ?w4 = "store_hot S ?new w3"
        have w': "w' = ?w4" "r = Ok out"
          using assms(1) False ar \<open>ra = Inr a\<close> out new ev Inr by (simp_all add: persist_batch_def Let_def)
        note hot = store_hot_frame [of S ?new w3]
        have k4: "kept w ?w4" using kept_trans [OF k3 kept_same] hot by blast
        have "backed ?w4 ctx m" if "m \<in> set ?new" for m
          using tenant [OF that] ap(5) Inr that hot db by (auto simp: backed_def)
        then show ?thesis using k4 same hot db out(2) w' by auto
      qed
    qed
  qed
qed (use assms(1) in \<open>auto simp: persist_batch_def\<close>)

lemma publish_ack_and_record_cases:
  assumes "publish_ack_and_record S ctx t res w = (r, w')"
  shows "kept w w'" "ww_idem w' = ww_idem w"
    "(\<exists>e. r = Err e) \<and> ww_acks w' = ww_acks w \<or> r = Ok () \<and> (\<exists>a. ww_acks w' = (ctx, a) # ww_acks w
       \<and> ak_message_id a = ps_message_id res \<and> ak_status a = ack_status_of (ps_deduplicated res))"
proof -
  have "kept w w' \<and> ww_idem w' = ww_idem w \<and> ((\<exists>e. r = Err e) \<and> ww_acks w' = ww_acks w \<or> r = Ok () \<and> (\<exists>a. ww_acks w' = (ctx, a) # ww_acks w
       \<and> ak_message_id a = ps_message_id res \<and> ak_status a = ack_status_of (ps_deduplicated res)))"
  proof (cases "wv_ack S")
    case None
    with assms show ?thesis
      by (auto simp: publish_ack_and_record_def publish_ack_def record_write_stage_frame)
  next
    case (Some f)
    let ?w1 = "w\<lparr>ww_out := snd (f (ww_out w))\<rparr>"
    have k: "kept w ?w1" by (simp add: kept_same)
    show ?thesis
    proof (cases "fst (f (ww_out w))")
      case True
      with assms Some show ?thesis
        by (auto simp: publish_ack_and_record_def publish_ack_def outside_eq Let_def kept_def)
    next
      case False
      with assms Some have "r = Err (FlareError InternalError ''Failed to publish ACK'')"
        "w' = record_write_stage S t (ps_message_id res) AckPublishFailed (Some ''Failed to publish ACK'') ?w1"
        by (auto simp: publish_ack_and_record_def publish_ack_def outside_eq Let_def)
      then show ?thesis using kept_trans [OF k record_write_stage_frame(1)] by (auto simp: record_write_stage_frame(2-))
    qed
  qed
  then show "kept w w'" "ww_idem w' = ww_idem w"
    "(\<exists>e. r = Err e) \<and> ww_acks w' = ww_acks w \<or> r = Ok () \<and> (\<exists>a. ww_acks w' = (ctx, a) # ww_acks w
       \<and> ak_message_id a = ps_message_id res \<and> ak_status a = ack_status_of (ps_deduplicated res))" by blast+
qed

lemma clean_and_record_frame:
  "kept w (clean_and_record S t i w)" "ww_acks (clean_and_record S t i w) = ww_acks w" "ww_idem (clean_and_record S t i w) = ww_idem w"
proof -
  have "kept w (clean_and_record S t i w) \<and> ww_acks (clean_and_record S t i w) = ww_acks w \<and> ww_idem (clean_and_record S t i w) = ww_idem w"
  proof (cases "wv_wal_cleanup S")
    case (Some f)
    let ?w1 = "w\<lparr>ww_out := snd (f (ww_out w))\<rparr>"
    have k: "kept w ?w1" by (simp add: kept_same)
    show ?thesis
      using Some kept_trans [OF k record_write_stage_frame(1)] record_write_stage_frame(2-)
      by (cases "fst (f (ww_out w))") (simp_all add: clean_and_record_def cleanup_wal_def outside_eq kept_same record_write_stage_frame(2-))
  qed (simp add: clean_and_record_def cleanup_wal_def)
  then show "kept w (clean_and_record S t i w)" "ww_acks (clean_and_record S t i w) = ww_acks w"
    "ww_idem (clean_and_record S t i w) = ww_idem w" by blast+
qed


section \<open>Truthful acknowledgements\<close>

text \<open>Every acknowledgement that says "persisted" names a message that is archived and in the event stream.\<close>

definition truthful :: "('r, 'q) writer_world \<Rightarrow> bool" where
  "truthful w \<longleftrightarrow> (\<forall>(ctx, a) \<in> set (ww_acks w). ak_status a = AckPersisted \<longrightarrow>
     (\<exists>m. m_server_id m = ak_message_id a \<and> backed w ctx m))"

definition sound :: "('r, 'q) writer_world \<Rightarrow> ('r, 'q) writer_world \<Rightarrow> bool" where
  "sound w w' \<longleftrightarrow> kept w w' \<and> (truthful w \<longrightarrow> truthful w')"

lemma sound_refl [simp]: "sound w w"
  by (simp add: sound_def)

lemma sound_trans: "sound a b \<Longrightarrow> sound b c \<Longrightarrow> sound a c"
  unfolding sound_def using kept_trans by blast

lemma sound_quiet: "kept w w' \<Longrightarrow> ww_acks w' = ww_acks w \<Longrightarrow> sound w w'"
  unfolding sound_def truthful_def using backed_kept by fastforce

lemma sound_same: "ww_db w' = ww_db w \<Longrightarrow> ww_stream w' = ww_stream w \<Longrightarrow> ww_acks w' = ww_acks w \<Longrightarrow> sound w w'"
  by (rule sound_quiet [OF kept_same])

lemma sound_inv: "sound w w' \<Longrightarrow> archive_inv {} (ww_db w) \<Longrightarrow> archive_inv {} (ww_db w')"
  by (simp add: sound_def kept_def)

lemma sound_ack:
  assumes "publish_ack_and_record S ctx t res w = (r, w')"
    and "ps_deduplicated res \<or> (\<exists>m. m_server_id m = ps_message_id res \<and> backed w ctx m)"
  shows "sound w w'"
proof -
  note p = publish_ack_and_record_cases [OF assms(1)]
  have b: "backed w' c m" if "backed w c m" for c m using backed_kept [OF that p(1)] .
  have "truthful w'" if "truthful w"
    using p(3) that assms(2) b unfolding truthful_def by (fastforce simp: ack_status_of_def split: if_splits)
  with p(1) show ?thesis by (simp add: sound_def)
qed

lemma on_reservations_sound: "on_reservations f w = (r, w') \<Longrightarrow> sound w w'"
  by (auto simp: on_reservations_def intro!: sound_same split: prod.splits)

lemma persist_message_settled:
  assumes "persist_message S ctx pm w = (r, w')" "archive_attached S" "archive_inv {} (ww_db w)"
    "pm_message_id pm = m_server_id (pm_message pm)"
  shows "kept w w'" "ww_acks w' = ww_acks w" "ww_idem w' = ww_idem w"
    "r = Ok out \<Longrightarrow> msg_settled (fst ctx) (ww_db w') out (pm_message pm)"
    "r = Ok out \<Longrightarrow> \<not> is_duplicate out (pm_message_id pm) \<Longrightarrow> backed w' ctx (pm_message pm)"
  using persist_batch_settled [OF assms(1) [unfolded persist_message_batch [OF assms(4)]] assms(2,3)] assms(4) by simp_all

lemma ensure_consistency_sound:
  assumes "ensure_consistency S ctx pm w = (r, w')" "archive_attached S" "archive_inv {} (ww_db w)"
    "pm_message_id pm = m_server_id (pm_message pm)"
  shows "sound w w'"
proof (cases "prepared_tenant_id (pm_message pm)")
  case (Inr t)
  obtain r1 w1 where rs: "on_reservations (reserve_idempotency (wv_idempotency S) (fst ctx) pm) w = (r1, w1)" by fastforce
  note s1 = on_reservations_sound [OF rs]
  show ?thesis
  proof (cases r1)
    case (Inl e)
    with assms(1) Inr rs s1 show ?thesis by (simp add: ensure_consistency_def)
  next
    case (Inr d)
    obtain new res where d: "d = (new, res)" by fastforce
    show ?thesis
    proof (cases new)
      case False
      obtain ra w2 where a: "publish_ack_and_record S ctx t (result_of pm True) w1 = (ra, w2)" by fastforce
      have "sound w1 w2" using sound_ack [OF a] by (simp add: result_of_def)
      moreover have "w' = w2"
        using assms(1) \<open>prepared_tenant_id _ = _\<close> rs Inr d False a by (auto simp: ensure_consistency_def split: sum.splits)
      ultimately show ?thesis using s1 sound_trans by blast
    next
      case True
      obtain rp w2 where p: "persist_message S ctx pm w1 = (rp, w2)" by fastforce
      note pm = persist_message_settled [OF p assms(2) sound_inv [OF s1 assms(3)] assms(4)]
      have s2: "sound w w2" using sound_trans [OF s1 sound_quiet [OF pm(1,2)]] .
      show ?thesis
      proof (cases rp)
        case (Inl e)
        with assms(1) \<open>prepared_tenant_id _ = _\<close> rs Inr d True p
        have "w' = w2\<lparr>ww_idem := release_idempotency_reservation (wv_idempotency S) (fst ctx) res (ww_idem w2)\<rparr>"
          by (auto simp: ensure_consistency_def)
        then show ?thesis using sound_trans [OF s2 sound_same [of w' w2]] by simp
      next
        case (Inr out)
        let ?dup = "is_duplicate out (pm_message_id pm)"
        let ?w3 = "if ?dup then w2 else w2\<lparr>ww_usage := t # ww_usage w2\<rparr>"
        have s3: "sound w ?w3" using sound_trans [OF s2 sound_same [of ?w3 w2]] by simp
        have b: "backed ?w3 ctx (pm_message pm)" if "\<not> ?dup" using pm(5) [OF Inr that] that by (simp add: backed_def)
        obtain ra w4 where a: "publish_ack_and_record S ctx t (result_of pm ?dup) ?w3 = (ra, w4)" by fastforce
        have "ps_deduplicated (result_of pm ?dup) \<or> (\<exists>m. m_server_id m = ps_message_id (result_of pm ?dup) \<and> backed ?w3 ctx m)"
          using b assms(4) by (cases ?dup) (auto simp: result_of_def)
        from sound_trans [OF s3 sound_ack [OF a this]] have s4: "sound w w4" .
        have "w' = w4 \<or> w' = clean_and_record S t (pm_message_id pm) w4"
          using assms(1) \<open>prepared_tenant_id _ = _\<close> rs \<open>r1 = _\<close> d True p Inr a
          by (auto simp: ensure_consistency_def Let_def split: sum.splits)
        then show ?thesis using s4 sound_trans [OF s4 sound_quiet] clean_and_record_frame by blast
      qed
    qed
  qed
qed (use assms(1) in \<open>simp add: ensure_consistency_def\<close>)

lemma reserve_all_sound:
  assumes "reserve_all S ctx pms new results w = (r, w')"
  shows "sound w w' \<and> (\<forall>new' results'. r = Ok (new', results') \<longrightarrow> (\<exists>more. new' = new @ more \<and> subseq (map fst more) pms))"
  using assms
proof (induction pms arbitrary: new results w)
  case (Cons pm pms)
  show ?case
  proof (cases "prepared_tenant_id (pm_message pm)")
    case (Inr t)
    obtain r1 w1 where rs: "on_reservations (reserve_idempotency (wv_idempotency S) (fst ctx) pm) w = (r1, w1)" by fastforce
    note s1 = on_reservations_sound [OF rs]
    show ?thesis
    proof (cases r1)
      case (Inl e)
      with Cons.prems Inr rs s1 show ?thesis by auto
    next
      case r1: (Inr d)
      obtain is_new res where d: "d = (is_new, res)" by fastforce
      show ?thesis
      proof (cases is_new)
        case True
        with Cons.prems Inr rs r1 d have "reserve_all S ctx pms (new @ [(pm, res, t)]) results w1 = (r, w')" by simp
        note ih = Cons.IH [OF this]
        have "\<exists>more. new' = new @ more \<and> subseq (map fst more) (pm # pms)" if "r = Ok (new', results')" for new' results'
        proof -
          from ih that obtain more where "new' = (new @ [(pm, res, t)]) @ more" "subseq (map fst more) pms" by blast
          then show ?thesis by (intro exI [of _ "(pm, res, t) # more"]) simp
        qed
        with ih sound_trans [OF s1] show ?thesis by blast
      next
        case False
        obtain ra w2 where a: "publish_ack_and_record S ctx t (result_of pm True) w1 = (ra, w2)" by fastforce
        have s2: "sound w w2" using sound_trans [OF s1 sound_ack [OF a]] by (simp add: result_of_def)
        show ?thesis
        proof (cases ra)
          case (Inl e)
          with Cons.prems Inr rs r1 d False a s2 show ?thesis by auto
        next
          case (Inr u)
          with Cons.prems \<open>prepared_tenant_id _ = _\<close> rs r1 d False a
          have "reserve_all S ctx pms new (results @ [result_of pm True]) w2 = (r, w')" by simp
          from Cons.IH [OF this] s2 sound_trans show ?thesis by (blast intro: list_emb_Cons)
        qed
      qed
    qed
  qed (use Cons.prems in auto)
qed auto

lemma ack_all_sound:
  assumes "ack_all S ctx out new results w = (r, w')"
    and "\<forall>(pm, res, t) \<in> set new. is_duplicate out (pm_message_id pm) \<or> (\<exists>m. m_server_id m = pm_message_id pm \<and> backed w ctx m)"
  shows "sound w w'"
  using assms
proof (induction new arbitrary: results w)
  case (Cons x new)
  obtain pm res t where x: "x = (pm, res, t)" by (cases x)
  let ?res = "result_of pm (is_duplicate out (pm_message_id pm))"
  obtain ra w1 where a: "publish_ack_and_record S ctx t ?res w = (ra, w1)" by fastforce
  have s1: "sound w w1" by (rule sound_ack [OF a]) (use Cons.prems(2) x in \<open>auto simp: result_of_def\<close>)
  show ?case
  proof (cases ra)
    case (Inl e)
    with Cons.prems(1) x a s1 show ?thesis by (simp add: Let_def)
  next
    case (Inr u)
    with Cons.prems(1) x a have all: "ack_all S ctx out new (results @ [?res]) w1 = (r, w')" by (simp add: Let_def)
    have k: "kept w w1" using s1 by (simp add: sound_def)
    have "is_duplicate out (pm_message_id p) \<or> (\<exists>m. m_server_id m = pm_message_id p \<and> backed w1 ctx m)"
      if "(p, q, u) \<in> set new" for p q u
      using Cons.prems(2) that backed_kept [OF _ k] by fastforce
    then have "sound w1 w'" using Cons.IH [OF all] by blast
    with s1 show ?thesis by (rule sound_trans)
  qed
qed simp

end
