(* ===== verification/Writer_Guarantees.thy ===== *)
theory Writer_Guarantees
  imports Writer_Persistence
begin

text \<open>
  What the storage writer guarantees: over all runs of single and batched deliveries, with any failures of the archive,
  the event stream, the acknowledgement publisher and the reservations, an acknowledgement that says "persisted" is
  backed by the archive and the event stream; a failed single delivery gives its reservation back, and a failed batch
  does not.
\<close>

section \<open>Batches\<close>

lemma release_all_frame:
  "ww_db (release_all S ctx new w) = ww_db w" "ww_stream (release_all S ctx new w) = ww_stream w"
  "ww_acks (release_all S ctx new w) = ww_acks w"
proof -
  have "ww_db (release_all S ctx new w) = ww_db w \<and> ww_stream (release_all S ctx new w) = ww_stream w
     \<and> ww_acks (release_all S ctx new w) = ww_acks w"
    unfolding release_all_def by (induction new arbitrary: w) auto
  then show "ww_db (release_all S ctx new w) = ww_db w" "ww_stream (release_all S ctx new w) = ww_stream w"
    "ww_acks (release_all S ctx new w) = ww_acks w" by blast+
qed

lemma count_usage_frame:
  "ww_db (count_usage out new w) = ww_db w" "ww_stream (count_usage out new w) = ww_stream w"
  "ww_acks (count_usage out new w) = ww_acks w" "ww_idem (count_usage out new w) = ww_idem w"
proof -
  have "ww_db (count_usage out new w) = ww_db w \<and> ww_stream (count_usage out new w) = ww_stream w
     \<and> ww_acks (count_usage out new w) = ww_acks w \<and> ww_idem (count_usage out new w) = ww_idem w"
    unfolding count_usage_def by (induction new arbitrary: w) auto
  then show "ww_db (count_usage out new w) = ww_db w" "ww_stream (count_usage out new w) = ww_stream w"
    "ww_acks (count_usage out new w) = ww_acks w" "ww_idem (count_usage out new w) = ww_idem w" by blast+
qed

lemma clean_all_sound: "sound w (clean_all S new w)"
  unfolding clean_all_def
proof (induction new arbitrary: w)
  case (Cons x new)
  obtain pm res t where x: "x = (pm, res, t)" by (cases x)
  have "sound w (clean_and_record S t (pm_message_id pm) w)"
    by (rule sound_quiet) (rule clean_and_record_frame)+
  from sound_trans [OF this Cons.IH] show ?case by (simp add: x)
qed simp

lemma subseq_distinct_map: "subseq xs ys \<Longrightarrow> distinct (map f ys) \<Longrightarrow> distinct (map f xs)"
  by (induction rule: list_emb.induct) (auto dest: list_emb_set)

lemma ensure_batch_sound:
  assumes "ensure_batch_consistency S ctx pms w = (r, w')" "archive_attached S" "archive_inv {} (ww_db w)"
    and ids: "\<forall>pm \<in> set pms. pm_message_id pm = m_server_id (pm_message pm)" and dist: "distinct (map pm_message_id pms)"
  shows "sound w w'"
proof (cases "pms = []")
  case False
  obtain rr w1 where rs: "reserve_all S ctx pms [] [] w = (rr, w1)" by fastforce
  note s1 = reserve_all_sound [OF rs]
  show ?thesis
  proof (cases rr)
    case (Inl e)
    with assms(1) False rs s1 show ?thesis by (simp add: ensure_batch_consistency_def)
  next
    case (Inr nr)
    obtain new results where nr: "nr = (new, results)" by fastforce
    with s1 Inr have sub: "subseq (map fst new) pms" by auto
    have "fst x \<in> set pms" if "x \<in> set new" for x using list_emb_set [OF sub, of "fst x"] that by auto
    with ids have ids': "\<forall>x \<in> set new. pm_message_id (fst x) = m_server_id (pm_message (fst x))" by blast
    have "distinct (map pm_message_id (map fst new))" using subseq_distinct_map [OF sub dist] .
    moreover have "map pm_message_id (map fst new) = map (m_server_id \<circ> pm_message) (map fst new)"
      using ids' by simp
    ultimately have dist': "distinct (map (m_server_id \<circ> pm_message) (map fst new))" by (simp only:)
    show ?thesis
    proof (cases "new = []")
      case True
      with assms(1) False rs Inr nr s1 show ?thesis by (simp add: ensure_batch_consistency_def)
    next
      case new: False
      obtain rp w2 where p: "persist_batch S ctx (map fst new) w1 = (rp, w2)" by fastforce
      have inv1: "archive_inv {} (ww_db w1)" using sound_inv s1 assms(3) by blast
      note st = persist_batch_settled [OF p assms(2) inv1 dist']
      have s2: "sound w w2" using sound_trans s1 sound_quiet st by blast
      show ?thesis
      proof (cases rp)
        case (Inl e)
        then have "w' = release_all S ctx new w2"
          using assms(1) False rs \<open>rr = _\<close> nr new p by (simp add: ensure_batch_consistency_def)
        then show ?thesis using sound_trans [OF s2 sound_same] by (simp add: release_all_frame)
      next
        case (Inr out)
        let ?w3 = "count_usage out new w2"
        obtain ra w4 where a: "ack_all S ctx out new results ?w3 = (ra, w4)" by fastforce
        have s3: "sound w ?w3" using sound_trans [OF s2 sound_same] by (simp add: count_usage_frame)
        have b: "is_duplicate out (pm_message_id pm) \<or> (\<exists>m. m_server_id m = pm_message_id pm \<and> backed ?w3 ctx m)"
          if "(pm, res, t) \<in> set new" for pm res t
        proof (cases "is_duplicate out (pm_message_id pm)")
          case False
          have "pm \<in> set (map fst new)" "pm_message_id pm = m_server_id (pm_message pm)" using that ids' by force+
          with st Inr False have "backed w2 ctx (pm_message pm)" by auto
          then have "backed ?w3 ctx (pm_message pm)" by (simp add: backed_def count_usage_frame)
          with \<open>pm_message_id pm = _\<close> show ?thesis by auto
        qed simp
        have s4: "sound w w4" by (rule sound_trans [OF s3 ack_all_sound [OF a]]) (use b in blast)
        have "w' = w4 \<or> w' = clean_all S new w4"
          using assms(1) False rs \<open>rr = _\<close> nr new p Inr a by (auto simp: ensure_batch_consistency_def split: sum.splits)
        then show ?thesis using s4 sound_trans [OF s4 clean_all_sound] by blast
      qed
    qed
  qed
qed (use assms(1) in \<open>simp add: ensure_batch_consistency_def\<close>)

section \<open>Runs of the writer\<close>

text \<open>What preparation keeps of the delivered message.\<close>

lemma pin_message_tenant_fields [simp]:
  "m_server_id (pin_message_tenant t m) = m_server_id m" "m_conversation_id (pin_message_tenant t m) = m_conversation_id m"
  "m_sender_id (pin_message_tenant t m) = m_sender_id m" "m_client_msg_id (pin_message_tenant t m) = m_client_msg_id m"
  "m_attributes (pin_message_tenant t m) ''tenant_id'' = Some t"
  by (auto simp: pin_message_tenant_def WRITER_TENANT_ATTRIBUTES_def)

definition command_id :: "store_command \<Rightarrow> string" where
  "command_id cmd = (case scd_message cmd of None \<Rightarrow> [] | Some m \<Rightarrow> m_server_id m)"

lemma prepare_message_cases:
  assumes "prepare_message parse now cmd = Ok pm"
  shows "pm_message_id pm = m_server_id (pm_message pm)" "pm_message_id pm = command_id cmd" "command_id cmd \<noteq> []"
    "\<exists>t. normalize_optional_tenant_id (m_attributes (pm_message pm) ''tenant_id'') = normalize_optional_tenant_id (Some t)
       \<and> Option.bind (scd_tenant cmd) (\<lambda>x. normalize_optional_tenant_id (Some (fst x))) = Some t"
    "\<exists>m. scd_message cmd = Some m \<and> m_client_msg_id (pm_message pm) = m_client_msg_id m \<and> m_sender_id (pm_message pm) = m_sender_id m"
  using assms
  by (auto simp: prepare_message_def Let_def command_id_def split: option.splits if_splits)

lemma prepare_all_cases:
  "prepare_all S cmds = Ok pms \<Longrightarrow> map pm_message_id pms = map command_id cmds
     \<and> (\<forall>pm \<in> set pms. pm_message_id pm = m_server_id (pm_message pm))"
proof (induction cmds arbitrary: pms)
  case (Cons cmd cmds)
  then show ?case using prepare_message_cases(1,2)
    by (fastforce simp: and_then_eq_Ok split: sum.splits)
qed simp

inductive writer_reach :: "('r, 'q) writer_world \<Rightarrow> bool" where
  start: "ww_db w = empty_db \<Longrightarrow> ww_acks w = [] \<Longrightarrow> writer_reach w"
| store: "writer_reach w \<Longrightarrow> archive_attached S \<Longrightarrow> handle_store S ctx cmd w = (r, w') \<Longrightarrow> writer_reach w'"
| batch: "writer_reach w \<Longrightarrow> archive_attached S \<Longrightarrow> distinct (map command_id cmds) \<Longrightarrow>
     handle_store_batch S ctx cmds w = (r', w') \<Longrightarrow> writer_reach w'"
| outside: "writer_reach w \<Longrightarrow> writer_reach (w\<lparr>ww_out := q, ww_idem := i\<rparr>)"

lemma handle_store_sound:
  assumes "handle_store S ctx cmd w = (r, w')" "archive_attached S" "archive_inv {} (ww_db w)"
  shows "sound w w'"
proof (cases "prepare_message (wv_parse_map S) (wv_now S) cmd")
  case (Inr pm)
  obtain rc w1 where e: "ensure_consistency S ctx pm w = (rc, w1)" by fastforce
  with assms(1) Inr have "w' = w1" by (auto simp: handle_store_def split: sum.splits)
  with ensure_consistency_sound [OF e assms(2,3) prepare_message_cases(1) [OF Inr]] show ?thesis by simp
qed (use assms(1) in \<open>simp add: handle_store_def\<close>)

lemma handle_store_batch_sound:
  assumes "handle_store_batch S ctx cmds w = (r, w')" "archive_attached S" "archive_inv {} (ww_db w)" "distinct (map command_id cmds)"
  shows "sound w w'"
proof (cases "prepare_all S cmds")
  case (Inr pms)
  show ?thesis
  proof (cases "pms = []")
    case False
    with assms(1) Inr have e: "ensure_batch_consistency S ctx pms w = (r, w')" by (simp add: handle_store_batch_def)
    show ?thesis by (rule ensure_batch_sound [OF e assms(2,3)]) (use prepare_all_cases [OF Inr] assms(4) in simp_all)
  qed (use assms(1) Inr in \<open>simp add: handle_store_batch_def\<close>)
qed (use assms(1) in \<open>simp add: handle_store_batch_def\<close>)

lemma writer_reach_inv: "writer_reach w \<Longrightarrow> archive_inv {} (ww_db w) \<and> truthful w"
proof (induction rule: writer_reach.induct)
  case (start w)
  then show ?case by (simp add: truthful_def archive_inv_def empty_db_def)
next
  case (store w S ctx cmd r w')
  with handle_store_sound [OF store.hyps(3,2)] show ?case by (auto simp: sound_def kept_def)
next
  case (batch w S cmds ctx r' w')
  with handle_store_batch_sound [OF batch.hyps(4,2) _ batch.hyps(3)] show ?case by (auto simp: sound_def kept_def)
next
  case (outside w q i)
  then show ?case by (simp add: truthful_def backed_def)
qed

text \<open>
  C11: an acknowledgement that says "persisted" is true. In every run of the storage writer over single and batched
  deliveries, whatever failed, was retried or was redelivered on the way, each published acknowledgement with the status
  "persisted" names a message that is stored in the archive under the tenant of its delivery and whose event is in the
  event stream.
\<close>

theorem persisted_ack_is_backed:
  assumes "writer_reach w" and "(ctx, a) \<in> set (ww_acks w)" and "ak_status a = AckPersisted"
  shows "\<exists>m t. m_server_id m = ak_message_id a \<and> resolve_tenant_id (fst ctx) (m_server_id m) (m_attributes m) = Ok t
     \<and> stored (ww_db w) t (m_server_id m) \<and> (\<exists>e \<in> set (ww_stream w). se_message e = m)"
  using writer_reach_inv [OF assms(1)] assms(2,3) unfolding truthful_def backed_def by fast

section \<open>Deliveries and reservations\<close>

text \<open>The archive holds the message, or the message it is a second send of.\<close>

definition delivery_settled :: "pg_db \<Rightarrow> mq_ctx \<Rightarrow> message \<Rightarrow> bool" where
  "delivery_settled db ctx m \<longleftrightarrow>
     (\<exists>t. resolve_tenant_id ctx (m_server_id m) (m_attributes m) = Ok t
      \<and> (stored db t (m_server_id m)
         \<or> (\<exists>r. db_send_ledger db (t, m_sender_id m, m_client_msg_id m) = Some r
              \<and> sl_conversation_id r = m_conversation_id m \<and> stored db t (sl_server_id r))))"

lemma msg_settled_delivery: "msg_settled ctx d out m \<Longrightarrow> delivery_settled d ctx m"
  unfolding msg_settled_def delivery_settled_def by (auto split: if_splits)

lemma delivery_settled_kept: "kept w w' \<Longrightarrow> delivery_settled (ww_db w) ctx m \<Longrightarrow> delivery_settled (ww_db w') ctx m"
proof -
  assume k: "kept w w'" and "delivery_settled (ww_db w) ctx m"
  then obtain t where t: "resolve_tenant_id ctx (m_server_id m) (m_attributes m) = Ok t"
    and "stored (ww_db w) t (m_server_id m) \<or> (\<exists>r. db_send_ledger (ww_db w) (t, m_sender_id m, m_client_msg_id m) = Some r
              \<and> sl_conversation_id r = m_conversation_id m \<and> stored (ww_db w) t (sl_server_id r))"
    unfolding delivery_settled_def by blast
  then consider (msg) "stored (ww_db w) t (m_server_id m)"
    | (row) r where "db_send_ledger (ww_db w) (t, m_sender_id m, m_client_msg_id m) = Some r"
        "sl_conversation_id r = m_conversation_id m" "stored (ww_db w) t (sl_server_id r)" by blast
  then show ?thesis
  proof cases
    case msg
    with k have "stored (ww_db w') t (m_server_id m)" unfolding kept_def grows_def using stored_mono by blast
    with t show ?thesis unfolding delivery_settled_def by blast
  next
    case row
    with k have "db_send_ledger (ww_db w') (t, m_sender_id m, m_client_msg_id m) = Some r" "stored (ww_db w') t (sl_server_id r)"
      unfolding kept_def grows_def by (blast intro: map_leD stored_mono)+
    with t row(2) show ?thesis unfolding delivery_settled_def by blast
  qed
qed

text \<open>A repository that can always give a reservation back.\<close>

locale releasing_store = reservation_store M taken for M :: "'r message_idempotency" and taken +
  assumes releases: "taken ctx r k \<Longrightarrow> k \<noteq> [] \<Longrightarrow> fst (mi_release M ctx k r) = Ok ()"
begin

lemma release_restores:
  assumes "held ctx v = Some k" "k \<noteq> []" "\<not> taken ctx r k" "\<forall>j. taken ctx r' j \<longleftrightarrow> taken ctx r j \<or> j = k"
  shows "taken ctx (release_idempotency_reservation (Some M) ctx v r') j \<longleftrightarrow> taken ctx r j"
proof -
  have "release_idempotency_reservation (Some M) ctx v r' = snd (mi_release M ctx k r')"
    using assms(1) by (auto simp: release_idempotency_reservation_def held_def release_by_client_msg_id_def
        is_new_by_client_msg_id_def split: writer_reservation.splits sum.splits)
  moreover have "mi_release M ctx k r' = (Ok (), snd (mi_release M ctx k r'))"
    using releases [of ctx r' k] assms(2,4) by (metis prod.collapse)
  ultimately show ?thesis using released [OF assms(2)] assms(3,4) by metis
qed

lemma ensure_outcome:
  assumes "wv_idempotency S = Some M" "ensure_consistency S ctx pm w = (r, w')" "archive_attached S" "archive_inv {} (ww_db w)"
    "pm_message_id pm = m_server_id (pm_message pm)" "pm_message_id pm \<noteq> []"
  shows "(\<forall>k. taken (fst ctx) (ww_idem w') k \<longleftrightarrow> taken (fst ctx) (ww_idem w) k)
       \<and> ((\<exists>e. r = Err e) \<or> r = Ok (result_of pm True) \<and> (\<exists>k \<in> set (delivery_ids (fst ctx) pm). taken (fst ctx) (ww_idem w) k))
     \<or> delivery_settled (ww_db w') (fst ctx) (pm_message pm)"
proof (cases "prepared_tenant_id (pm_message pm)")
  case (Inr t)
  obtain r1 i1 where ri: "reserve_idempotency (Some M) (fst ctx) pm (ww_idem w) = (r1, i1)" by fastforce
  let ?w1 = "w\<lparr>ww_idem := i1\<rparr>"
  have rs: "on_reservations (reserve_idempotency (wv_idempotency S) (fst ctx) pm) w = (r1, ?w1)"
    by (simp add: on_reservations_def assms(1) ri)
  from reserve_cases [OF ri assms(6)]
  consider (err) e where "r1 = Err e" "\<forall>j. taken (fst ctx) i1 j \<longleftrightarrow> taken (fst ctx) (ww_idem w) j"
    | (old) "r1 = Ok (False, NoReservation)" "\<exists>k \<in> set (delivery_ids (fst ctx) pm). taken (fst ctx) (ww_idem w) k"
        "\<forall>j. taken (fst ctx) i1 j \<longleftrightarrow> taken (fst ctx) (ww_idem w) j"
    | (new) v k where "r1 = Ok (True, v)" "held (fst ctx) v = Some k" "k \<noteq> []" "\<not> taken (fst ctx) (ww_idem w) k"
        "\<forall>j. taken (fst ctx) i1 j \<longleftrightarrow> taken (fst ctx) (ww_idem w) j \<or> j = k"
    by blast
  then show ?thesis
  proof cases
    case err
    from err(1) assms(2) Inr rs have "w' = ?w1" "r = Err e" by (simp_all add: ensure_consistency_def)
    with err(2) show ?thesis by simp
  next
    case old
    obtain ra w2 where a: "publish_ack_and_record S ctx t (result_of pm True) ?w1 = (ra, w2)" by fastforce
    have "ww_idem w2 = i1" using publish_ack_and_record_cases(2) [OF a] by simp
    moreover have "w' = w2" "(\<exists>e. r = Err e) \<or> r = Ok (result_of pm True)"
      using assms(2) Inr rs old(1) a by (auto simp: ensure_consistency_def split: sum.splits)
    ultimately show ?thesis using old by auto
  next
    case new
    obtain rp w2 where p: "persist_message S ctx pm ?w1 = (rp, w2)" by fastforce
    have "archive_inv {} (ww_db ?w1)" using assms(4) by simp
    note pm = persist_message_settled [OF p assms(3) this assms(5)]
    show ?thesis
    proof (cases rp)
      case (Inl e)
      with assms(2) Inr rs new(1) p
      have "w' = w2\<lparr>ww_idem := release_idempotency_reservation (wv_idempotency S) (fst ctx) v (ww_idem w2)\<rparr>" "r = Err e"
        by (auto simp: ensure_consistency_def)
      then show ?thesis using release_restores [OF new(2-5)] pm(3) assms(1) by simp
    next
      case (Inr out)
      let ?w3 = "if is_duplicate out (pm_message_id pm) then w2 else w2\<lparr>ww_usage := t # ww_usage w2\<rparr>"
      obtain ra w4 where a: "publish_ack_and_record S ctx t (result_of pm (is_duplicate out (pm_message_id pm))) ?w3 = (ra, w4)"
        by fastforce
      have "delivery_settled (ww_db ?w3) (fst ctx) (pm_message pm)" using msg_settled_delivery [OF pm(4) [OF Inr]] by simp
      with publish_ack_and_record_cases(1) [OF a] have d: "delivery_settled (ww_db w4) (fst ctx) (pm_message pm)"
        using delivery_settled_kept by blast
      have "w' = w4 \<or> w' = clean_and_record S t (pm_message_id pm) w4"
        using assms(2) \<open>prepared_tenant_id _ = _\<close> rs new(1) p Inr a by (auto simp: ensure_consistency_def Let_def split: sum.splits)
      then show ?thesis using d delivery_settled_kept clean_and_record_frame(1) by blast
    qed
  qed
qed (use assms(2) in \<open>auto simp: ensure_consistency_def\<close>)

end

text \<open>Redis, when it also answers the \<^verbatim>\<open>DEL\<close> of a release.\<close>

locale connected_reservations = redis_reservation_repo R cfg for R :: "'r redis_cmds" and cfg +
  assumes del_answers: "rr_del_end cfg key r = CmdDone"
begin

sublocale releasing_store "redis_idempotency_repo R cfg" "redis_taken R"
  by unfold_locales (auto simp: redis_idempotency_repo_def redis_release_def redis_taken_def del_answers send_cmd_def split: sum.splits)

lemma live_store: "releasing_store (redis_idempotency_repo R cfg) (redis_taken R)"
  by (rule releasing_store_axioms)

end

interpretation live_reservations: connected_reservations mem_redis example_reservations
  by unfold_locales (simp add: example_reservations_def)

section \<open>A concrete writer\<close>

text \<open>Acknowledgements can be published while the outside state is \<open>True\<close>.\<close>

definition example_writer :: "(mem_state, bool) writer_service" where
  "example_writer = \<lparr>wv_idempotency = Some (redis_idempotency_repo mem_redis example_reservations),
     wv_archive = Some (example_archive, \<lambda>q. (\<lambda>_ _. example_attempt, q)), wv_stream = Some (\<lambda>q. (True, q)), wv_hot_cache = None,
     wv_wal_cleanup = Some (\<lambda>q. (True, q)), wv_ack = Some (\<lambda>q. (q, q)), wv_write_ledger = Some distinct, wv_bindings = None,
     wv_parse_map = (\<lambda>_. None), wv_now = 9\<rparr>"

definition example_writer_world :: "(mem_state, bool) writer_world" where
  "example_writer_world = \<lparr>ww_idem = mem_init, ww_db = empty_db, ww_stream = [], ww_hot = [], ww_cleaned = [], ww_acks = [],
     ww_bound = [], ww_usage = [], ww_out = True\<rparr>"

definition example_store_command :: "message \<Rightarrow> store_command" where
  "example_store_command m = \<lparr>scd_conversation_id = m_conversation_id m, scd_message = Some m, scd_sync = False,
     scd_tenant = Some (''t1'', None), scd_tags = Map.empty, scd_metadata = Map.empty\<rparr>"

definition example_other :: message where
  "example_other = example_text\<lparr>m_client_msg_id := ''c2'', m_server_id := ''srv-2'', m_conversation_seq := 8\<rparr>"

definition example_written :: "(mem_state, bool) writer_world" where
  "example_written = snd (handle_store example_writer example_writer_ctx (example_store_command example_first) example_writer_world)"

lemma example_writer_attached: "archive_attached example_writer"
  by (simp add: archive_attached_def example_writer_def example_attempt_def)

lemma example_start: "writer_reach example_writer_world"
  by (rule writer_reach.start) (simp_all add: example_writer_world_def)

lemma example_written_reach: "writer_reach example_written"
  unfolding example_written_def
  by (rule writer_reach.store [OF example_start example_writer_attached surjective_pairing])

theorem persisted_ack_is_backed_witness:
  "\<exists>ctx a. (ctx, a) \<in> set (ww_acks example_written) \<and> ak_status a = AckPersisted
     \<and> (\<exists>t. stored (ww_db example_written) t ''srv-1'') \<and> ww_stream example_written \<noteq> []"
proof -
  have "list_ex (\<lambda>(ctx, a). ak_status a = AckPersisted \<and> ak_message_id a = ''srv-1'') (ww_acks example_written)"
    by code_simp
  then obtain ctx a where a: "(ctx, a) \<in> set (ww_acks example_written)" "ak_status a = AckPersisted" "ak_message_id a = ''srv-1''"
    by (auto simp: list_ex_iff)
  from persisted_ack_is_backed [OF example_written_reach a(1,2)] a show ?thesis
    by (metis empty_iff empty_set)
qed



text \<open>
  C15: an acknowledged delivery is settled. When the consumer acknowledges a record of the storage topic, Redis being
  reachable, the record carried something else than a message, or the archive holds its message (or the message it is a
  second send of), or one of its two ids had been reserved by an earlier delivery.
\<close>

theorem acknowledged_delivery_is_settled:
  assumes "connected_reservations R cfg" and "wv_idempotency S = Some (redis_idempotency_repo R cfg)" and "archive_attached S"
    and "writer_reach w" and "consume_stored C S d w = (Inr a, w')"
  shows "decode_store_message C d = Inr None
     \<or> (\<exists>x pm. decode_store_message C d = Inr (Some x) \<and> prepare_message (wv_parse_map S) (wv_now S) (ds_command x) = Ok pm
          \<and> (delivery_settled (ww_db w') (ds_ctx x) (pm_message pm)
             \<or> (\<exists>k \<in> set (delivery_ids (ds_ctx x) pm). redis_taken R (ds_ctx x) (ww_idem w) k)))"
proof (cases "decode_store_message C d")
  case (Inr dx)
  show ?thesis
  proof (cases dx)
    case (Some x)
    obtain r where h: "handle_store S (ds_ctx x, ds_proof x) (ds_command x) w = (Ok r, w')"
      using assms(5) Inr Some by (auto simp: consume_stored_def split: prod.splits sum.splits)
    obtain pm where p: "prepare_message (wv_parse_map S) (wv_now S) (ds_command x) = Ok pm"
      using h by (cases "prepare_message (wv_parse_map S) (wv_now S) (ds_command x)") (auto simp: handle_store_def)
    then obtain r' where e: "ensure_consistency S (ds_ctx x, ds_proof x) pm w = (Ok r', w')"
      using h by (auto simp: handle_store_def split: prod.splits sum.splits)
    have "archive_inv {} (ww_db w)" using writer_reach_inv [OF assms(4)] by blast
    from releasing_store.ensure_outcome [OF connected_reservations.live_store [OF assms(1)] assms(2) e assms(3) this
        prepare_message_cases(1) [OF p]] prepare_message_cases(2,3) [OF p]
    have "delivery_settled (ww_db w') (ds_ctx x) (pm_message pm)
             \<or> (\<exists>k \<in> set (delivery_ids (ds_ctx x) pm). redis_taken R (ds_ctx x) (ww_idem w) k)" by auto
    with Inr Some p show ?thesis by blast
  qed (use Inr in simp)
qed (use assms(5) in \<open>simp add: consume_stored_def\<close>)

theorem acknowledged_delivery_is_settled_witness:
  "\<exists>x pm w'. decode_store_message example_consumer example_delivery = Inr (Some x)
     \<and> consume_stored example_consumer example_writer example_delivery example_writer_world = (Inr Ack, w')
     \<and> (delivery_settled (ww_db w') (ds_ctx x) (pm_message pm)
        \<or> (\<exists>k \<in> set (delivery_ids (ds_ctx x) pm). redis_taken mem_redis (ds_ctx x) mem_init k))"
proof -
  obtain r w' where h: "consume_stored example_consumer example_writer example_delivery example_writer_world = (r, w')" by fastforce
  have "case fst (consume_stored example_consumer example_writer example_delivery example_writer_world) of Inr Ack \<Rightarrow> True | _ \<Rightarrow> False"
    by code_simp
  with h have r: "r = Inr Ack" by (cases r) (auto split: message_result.splits)
  have idem: "wv_idempotency example_writer = Some (redis_idempotency_repo mem_redis example_reservations)"
    by (simp add: example_writer_def)
  from acknowledged_delivery_is_settled [OF live_reservations.connected_reservations_axioms idem example_writer_attached
      example_start h [unfolded r]] h r example_decodes
  show ?thesis by (fastforce simp: example_writer_world_def)
qed

text \<open>
  A failed batch loses a message. A batch reserves the id of a new message and then meets one that was
  stored before; publishing the acknowledgement of that duplicate fails, the call returns the error and the first
  reservation is not given back. When the broker delivers the new message again, it is taken for a duplicate and
  acknowledged as stored, although neither the archive nor the event stream has it.
\<close>

definition example_failed_batch :: "(mem_state, bool) writer_world" where
  "example_failed_batch = snd (handle_store_batch example_writer example_writer_ctx
     [example_store_command example_other, example_store_command example_first] (example_written\<lparr>ww_out := False\<rparr>))"

definition example_redelivered :: "persistence_result option result \<times> (mem_state, bool) writer_world" where
  "example_redelivered = handle_store example_writer example_writer_ctx (example_store_command example_other)
     (example_failed_batch\<lparr>ww_out := True\<rparr>)"

lemma failed_batch_loses_message:
  "isl (fst (handle_store_batch example_writer example_writer_ctx
        [example_store_command example_other, example_store_command example_first] (example_written\<lparr>ww_out := False\<rparr>)))
   \<and> (\<exists>res. fst example_redelivered = Ok (Some res) \<and> ps_deduplicated res \<and> ps_message_id res = ''srv-2'')
   \<and> \<not> stored (ww_db (snd example_redelivered)) ''t1'' ''srv-2''
   \<and> \<not> list_ex (\<lambda>e. m_server_id (se_message e) = ''srv-2'') (ww_stream (snd example_redelivered))"
proof (intro conjI)
  show "isl (fst (handle_store_batch example_writer example_writer_ctx
     [example_store_command example_other, example_store_command example_first] (example_written\<lparr>ww_out := False\<rparr>)))"
    by code_simp
  have "case fst example_redelivered of Inr (Some res) \<Rightarrow> ps_deduplicated res \<and> ps_message_id res = ''srv-2'' | _ \<Rightarrow> False"
    by code_simp
  then show "\<exists>res. fst example_redelivered = Ok (Some res) \<and> ps_deduplicated res \<and> ps_message_id res = ''srv-2''"
    by (auto split: sum.splits option.splits)
  have "case db_messages (ww_db (snd example_redelivered)) (''t1'', ''srv-2'', at) of None \<Rightarrow> True | Some _ \<Rightarrow> False" for at
    by code_simp
  then have "db_messages (ww_db (snd example_redelivered)) (''t1'', ''srv-2'', at) = None" for at
    by (metis option.case_eq_if)
  then show "\<not> stored (ww_db (snd example_redelivered)) ''t1'' ''srv-2''" by (simp add: stored_def)
  show "\<not> list_ex (\<lambda>e. m_server_id (se_message e) = ''srv-2'') (ww_stream (snd example_redelivered))" by code_simp
qed

section \<open>The timeline on its way\<close>

lemma parse_i64_show_int: "i64_min \<le> i \<Longrightarrow> i \<le> i64_max \<Longrightarrow> parse_i64 (show_int i) = Some i"
  by (simp add: parse_i64_def show_int_def hd_to_decimal parse_digits_to_decimal Let_def)

definition timeline_stamps :: "timeline_metadata \<Rightarrow> int set" where
  "timeline_stamps t = insert (tl_ingestion_ts t)
     (\<Union>f \<in> {tl_emit_ts, tl_persisted_ts, tl_dispatched_ts, tl_acked_ts, tl_read_ts, tl_deleted_ts}. set_option (f t))"

definition TIMELINE_KEYS :: "string list" where
  "TIMELINE_KEYS = [''emit_ts'', ''ingestion_ts'', ''persisted_ts'', ''dispatched_ts'', ''acked_ts'', ''read_ts'', ''deleted_ts'']"

text \<open>
  The timeline survives the queue. The seven time stamps that the orchestrator writes into the headers of a record
  are the ones the storage writer reads back, absent ones included, for every JSON library that reads back the maps of
  these seven keys it wrote, and all values of a 64-bit integer; the other headers are left alone.
\<close>

theorem timeline_roundtrip:
  assumes "\<forall>m. dom m \<subseteq> set TIMELINE_KEYS \<longrightarrow> parse (json m) = Some m" and "\<forall>i \<in> timeline_stamps t. i64_min \<le> i \<and> i \<le> i64_max"
  shows "extract_timeline_from_extra parse (embed_timeline_in_extra_map json t h) now = t
     \<and> (\<forall>k. k \<noteq> ''timeline'' \<longrightarrow> embed_timeline_in_extra_map json t h k = h k)"
proof -
  have p: "Option.bind (map_option show_int x) parse_i64 = x" if "\<forall>i. x = Some i \<longrightarrow> i64_min \<le> i \<and> i \<le> i64_max" for x
    using that parse_i64_show_int by (cases x) auto
  define m where "m = (\<lambda>k. if k = ''ingestion_ts'' then Some (show_int (tl_ingestion_ts t)) else map_option show_int
     (if k = ''emit_ts'' then tl_emit_ts t else if k = ''persisted_ts'' then tl_persisted_ts t else if k = ''dispatched_ts'' then tl_dispatched_ts t
      else if k = ''acked_ts'' then tl_acked_ts t else if k = ''read_ts'' then tl_read_ts t else if k = ''deleted_ts'' then tl_deleted_ts t
      else None))"
  have "dom m \<subseteq> set TIMELINE_KEYS" by (auto simp: m_def TIMELINE_KEYS_def split: if_splits)
  with assms(1) have j: "parse (json m) = Some m" by blast
  have e: "embed_timeline_in_extra_map json t h = h(''timeline'' \<mapsto> json m)"
    unfolding embed_timeline_in_extra_map_def Let_def m_def
    by (rule arg_cong [where f = "\<lambda>M. h(''timeline'' \<mapsto> json M)"]) (auto simp: fun_eq_iff map_option_case split: option.split)
  have "parse_i64 (show_int (tl_ingestion_ts t)) = Some (tl_ingestion_ts t)"
    using assms(2) parse_i64_show_int by (simp add: timeline_stamps_def)
  then have "extract_timeline_from_extra parse (h(''timeline'' \<mapsto> json m)) now = t"
    using assms(2) by (simp add: extract_timeline_from_extra_def j) (simp add: m_def p timeline_stamps_def)
  with e show ?thesis by simp
qed

text \<open>A plain text form of such maps: the seven fields in order, each character of a value marked.\<close>

definition plain_field :: "string option \<Rightarrow> string" where
  "plain_field v = (case v of None \<Rightarrow> ''n'' | Some s \<Rightarrow> concat (map (\<lambda>c. [CHR ''c'', c]) s) @ ''.'')"

fun read_field :: "string \<Rightarrow> (string option \<times> string) option" where
  "read_field [] = None"
| "read_field (c # r) =
     (if c = CHR ''n'' then Some (None, r) else if c = CHR ''.'' then Some (Some [], r)
      else (case r of [] \<Rightarrow> None | x # r \<Rightarrow> (case read_field r of Some (Some s, r) \<Rightarrow> Some (Some (x # s), r) | _ \<Rightarrow> None)))"

lemma read_plain_field: "read_field (plain_field v @ r) = Some (v, r)"
proof (cases v)
  case (Some s)
  have "read_field (concat (map (\<lambda>c. [CHR ''c'', c]) s) @ CHR ''.'' # r) = Some (Some s, r)" by (induction s) auto
  with Some show ?thesis by (simp add: plain_field_def)
qed (simp add: plain_field_def)

definition plain_map_json :: "(string \<rightharpoonup> string) \<Rightarrow> string" where
  "plain_map_json m = concat (map (plain_field \<circ> m) TIMELINE_KEYS)"

fun read_fields :: "string list \<Rightarrow> string \<Rightarrow> (string \<rightharpoonup> string) option" where
  "read_fields [] s = Some Map.empty"
| "read_fields (k # ks) s =
     (case read_field s of None \<Rightarrow> None
      | Some (v, s) \<Rightarrow> map_option (\<lambda>m. m(k := v)) (read_fields ks s))"

lemma read_fields_plain:
  "distinct ks \<Longrightarrow> read_fields ks (concat (map (plain_field \<circ> m) ks)) = Some (m |` set ks)"
  by (induction ks) (auto simp: read_plain_field restrict_map_def fun_eq_iff)

theorem timeline_roundtrip_witness:
  "extract_timeline_from_extra (read_fields TIMELINE_KEYS)
     (embed_timeline_in_extra_map plain_map_json (default_timeline\<lparr>tl_emit_ts := Some (- 5), tl_ingestion_ts := 9\<rparr>) Map.empty) 3
   = default_timeline\<lparr>tl_emit_ts := Some (- 5), tl_ingestion_ts := 9\<rparr>"
proof -
  have "read_fields TIMELINE_KEYS (plain_map_json m) = Some m" if "dom m \<subseteq> set TIMELINE_KEYS" for m
  proof -
    have "m x = None" if "x \<notin> set TIMELINE_KEYS" for x using that \<open>dom m \<subseteq> _\<close> by blast
    then have "m |` set TIMELINE_KEYS = m" by (auto simp: restrict_map_def fun_eq_iff)
    moreover have "distinct TIMELINE_KEYS" by (simp add: TIMELINE_KEYS_def)
    ultimately show ?thesis using read_fields_plain [of TIMELINE_KEYS m] by (simp add: plain_map_json_def)
  qed
  with timeline_roundtrip [of "read_fields TIMELINE_KEYS" plain_map_json
      "default_timeline\<lparr>tl_emit_ts := Some (- 5), tl_ingestion_ts := 9\<rparr>" Map.empty 3]
  show ?thesis by (simp add: timeline_stamps_def default_timeline_def)
qed

end
