(* ===== verification/Event_Stream.thy ===== *)
theory Event_Stream
  imports Archive_Store
begin

text \<open>
  The durable event stream of the storage writer
  (\<^verbatim>\<open>flare-storage/writer/src/infrastructure/persistence/repository/event_stream.rs\<close>), the domain events it
  stores (\<^verbatim>\<open>domain/model/event.rs\<close>) and their type numbers (\<^verbatim>\<open>convert.rs\<close>). The table \<^verbatim>\<open>events\<close> is a map from tenant,
  conversation and sequence number. The protobuf messages inside an event are a type \<open>'p\<close>, and encoding and
  decoding them are parameters of a call: the bytes of one event may differ from call to call.
\<close>

section \<open>Events\<close>

datatype domain_event_type =
    DeUnspecified | DeMessage | DeMessageRecall | DeMessageEdit | DeMessageDelete | DeReadReceipt | DeTyping
  | DeConversationUpdate | DeConversationDelete | DePresence | DeReaction | DePin | DeUnpin | DeMark | DeUnmark
  | DeMessageBurnScheduled | DeMessageBurned | DeMessageHardDeleted | DePluginState | DeCustom

fun discriminant :: "domain_event_type \<Rightarrow> int" where
  "discriminant DeUnspecified = 0"
| "discriminant DeMessage = 1"
| "discriminant DeMessageRecall = 2"
| "discriminant DeMessageEdit = 3"
| "discriminant DeMessageDelete = 4"
| "discriminant DeReadReceipt = 5"
| "discriminant DeTyping = 6"
| "discriminant DeConversationUpdate = 7"
| "discriminant DeConversationDelete = 8"
| "discriminant DePresence = 9"
| "discriminant DeReaction = 11"
| "discriminant DePin = 12"
| "discriminant DeUnpin = 13"
| "discriminant DeMark = 14"
| "discriminant DeUnmark = 15"
| "discriminant DeMessageBurnScheduled = 16"
| "discriminant DeMessageBurned = 17"
| "discriminant DeMessageHardDeleted = 18"
| "discriminant DePluginState = 19"
| "discriminant DeCustom = 99"

fun event_type_to_proto_i32 :: "domain_event_type \<Rightarrow> int" where
  "event_type_to_proto_i32 DeMessage = 1"
| "event_type_to_proto_i32 DeMessageRecall = 2"
| "event_type_to_proto_i32 DeMessageEdit = 3"
| "event_type_to_proto_i32 DeMessageDelete = 4"
| "event_type_to_proto_i32 DeReadReceipt = 5"
| "event_type_to_proto_i32 DeConversationUpdate = 6"
| "event_type_to_proto_i32 DeConversationDelete = 7"
| "event_type_to_proto_i32 DeReaction = 8"
| "event_type_to_proto_i32 DePin = 9"
| "event_type_to_proto_i32 DeUnpin = 10"
| "event_type_to_proto_i32 DeMark = 11"
| "event_type_to_proto_i32 DeUnmark = 12"
| "event_type_to_proto_i32 DeMessageBurnScheduled = 13"
| "event_type_to_proto_i32 DeMessageBurned = 14"
| "event_type_to_proto_i32 DeMessageHardDeleted = 15"
| "event_type_to_proto_i32 DeCustom = 16"
| "event_type_to_proto_i32 DePluginState = 17"
| "event_type_to_proto_i32 DeTyping = 0"
| "event_type_to_proto_i32 DePresence = 0"
| "event_type_to_proto_i32 DeUnspecified = 0"

definition PROTO_EVENT_TYPES :: "(int \<times> domain_event_type) list" where
  "PROTO_EVENT_TYPES = [(1, DeMessage), (2, DeMessageRecall), (3, DeMessageEdit), (4, DeMessageDelete), (5, DeReadReceipt),
     (6, DeConversationUpdate), (7, DeConversationDelete), (8, DeReaction), (9, DePin), (10, DeUnpin), (11, DeMark),
     (12, DeUnmark), (13, DeMessageBurnScheduled), (14, DeMessageBurned), (15, DeMessageHardDeleted), (16, DeCustom),
     (17, DePluginState)]"

definition event_type_from_i32 :: "int \<Rightarrow> domain_event_type" where
  "event_type_from_i32 v = (case map_of PROTO_EVENT_TYPES v of None \<Rightarrow> DeUnspecified | Some t \<Rightarrow> t)"

record delete_payload =
  dp_server_msg_id :: string
  dp_delete_type :: "int option"
  dp_scope :: "int option"
  dp_target_user_id :: "string option"

record read_payload =
  rd_read_seq :: nat
  rd_user_id :: string
  rd_message_ids :: "string list"
  rd_read_at :: "int option"
  rd_burn_after_read :: "bool option"

record pin_payload =
  pn_server_msg_id :: string
  pn_pinned_by :: string
  pn_reason :: "string option"
  pn_expire_at :: "int option"
  pn_scope :: int

record burn_payload =
  bn_message_id :: string
  bn_reader_id :: "string option"
  bn_burn_at :: int
  bn_burned_at :: int
  bn_event_time :: int

datatype op_payload =
    OpRecall string string
  | OpEdit string string string
  | OpDelete delete_payload
  | OpRead read_payload
  | OpReaction string string string int
  | OpPin pin_payload
  | OpUnpin string string int
  | OpMark string string int string
  | OpUnmark string string int
  | OpBurnScheduled burn_payload
  | OpBurned burn_payload
  | OpHardDeleted burn_payload
  | OpPluginState plugin_state_event
  | OpMessage string
  | OpCustom string
  | OpOther

text \<open>
  \<open>OpRecall id reason\<close>, \<open>OpEdit id new_content reason\<close>, \<open>OpReaction id user emoji action\<close>, \<open>OpUnpin id by scope\<close>,
  \<open>OpMark id user mark_type color\<close>, \<open>OpUnmark id user mark_type\<close>. Fields the storage writer only carries along are left to the
  encoding.
\<close>

record op_event =
  oev_tenant_id :: string
  oev_conversation_id :: string
  oev_seq :: nat
  oev_type :: domain_event_type
  oev_created_at :: "int option"
  oev_operator_id :: string
  oev_event_seq :: "nat option"
  oev_request_id :: "string option"
  oev_payload :: "op_payload option"

section \<open>Encoding\<close>

datatype payload_tag =
    TgMessage | TgRecall | TgEdit | TgDelete | TgRead | TgConversation | TgConversationDelete | TgReaction | TgPin | TgUnpin
  | TgMark | TgUnmark | TgRetentionScheduled | TgRetentionExpired | TgRetentionPurged | TgCustom | TgPluginState

type_synonym 'p oneof = "payload_tag \<times> 'p"

text \<open>The fields \<^verbatim>\<open>same_message\<close> compares.\<close>

record message_identity =
  mi_server_id :: string
  mi_client_msg_id :: string
  mi_sender_id :: string
  mi_conversation_id :: string
  mi_conversation_seq :: nat
  mi_message_type :: string
  mi_content :: string

text \<open>How a statement ends; \<open>Unanswered\<close> was executed although the caller sees an error.\<close>

datatype stmt_end = Done | Failed | Unanswered

type_synonym event_key = "string \<times> string \<times> int"

record stored_event =
  sv_event_type :: int
  sv_created_at :: int
  sv_operator_id :: string
  sv_request_id :: "string option"
  sv_event_seq :: "int option"
  sv_payload :: string

record 'p event_codec =
  ec_to_proto :: "op_payload \<Rightarrow> 'p oneof option"
  ec_encode :: "'p \<Rightarrow> string"
  ec_decode :: "payload_tag \<Rightarrow> string \<Rightarrow> 'p option"
  ec_message :: "'p \<Rightarrow> message_identity"
  ec_date_ok :: "int \<Rightarrow> bool"
  ec_now :: int

definition ENCODED_TAGS :: "payload_tag list" where
  "ENCODED_TAGS = [TgMessage, TgRecall, TgEdit, TgDelete, TgRead, TgReaction, TgPin, TgUnpin, TgMark, TgUnmark,
     TgRetentionScheduled, TgRetentionExpired, TgRetentionPurged, TgPluginState]"

definition encode_payload_bytes :: "'p event_codec \<Rightarrow> 'p oneof \<Rightarrow> string" where
  "encode_payload_bytes C p = (if fst p \<in> set ENCODED_TAGS then ec_encode C (snd p) else [])"

definition tag_of_type :: "int \<Rightarrow> payload_tag option" where
  "tag_of_type t = map_of [(1, TgMessage), (2, TgRecall), (3, TgEdit), (4, TgDelete), (5, TgRead), (6, TgConversation),
     (7, TgConversationDelete), (8, TgReaction), (9, TgPin), (10, TgUnpin), (11, TgMark), (12, TgUnmark),
     (13, TgRetentionScheduled), (14, TgRetentionExpired), (15, TgRetentionPurged), (16, TgCustom), (17, TgPluginState)] t"

definition decode_event_payload :: "'p event_codec \<Rightarrow> int \<Rightarrow> string \<Rightarrow> 'p oneof option" where
  "decode_event_payload C t payload =
     (case tag_of_type t of None \<Rightarrow> None | Some tag \<Rightarrow> map_option (\<lambda>x. (tag, x)) (ec_decode C tag payload))"

definition as_i64 :: "nat \<Rightarrow> int" where
  "as_i64 n = (if int n \<le> i64_max then int n else int n - 2 ^ 64)"

record event_row =
  er_tenant_id :: string
  er_conversation_id :: string
  er_seq :: int
  er_event_type :: int
  er_legacy_event_type :: int
  er_created_at :: int
  er_operator_id :: string
  er_request_id :: "string option"
  er_event_seq :: "int option"
  er_payload :: string

definition er_key :: "event_row \<Rightarrow> event_key" where
  "er_key row = (er_tenant_id row, er_conversation_id row, er_seq row)"

definition event_to_insert_row :: "'p event_codec \<Rightarrow> op_event \<Rightarrow> event_row option" where
  "event_to_insert_row C e =
     (if oev_conversation_id e = [] then None
      else
        let created_at = (case oev_created_at e of None \<Rightarrow> 0 | Some t \<Rightarrow> t) in
        Some \<lparr>er_tenant_id = oev_tenant_id e, er_conversation_id = oev_conversation_id e, er_seq = as_i64 (oev_seq e),
          er_event_type = event_type_to_proto_i32 (oev_type e), er_legacy_event_type = discriminant (oev_type e),
          er_created_at = (if 0 < created_at \<and> ec_date_ok C created_at then created_at else ec_now C),
          er_operator_id = oev_operator_id e, er_request_id = oev_request_id e,
          er_event_seq = map_option as_i64 (oev_event_seq e),
          er_payload = (case Option.bind (oev_payload e) (ec_to_proto C) of None \<Rightarrow> [] | Some p \<Rightarrow> encode_payload_bytes C p)\<rparr>)"

definition stored_of :: "event_row \<Rightarrow> stored_event" where
  "stored_of row = \<lparr>sv_event_type = er_event_type row, sv_created_at = er_created_at row, sv_operator_id = er_operator_id row,
     sv_request_id = er_request_id row, sv_event_seq = er_event_seq row, sv_payload = er_payload row\<rparr>"

section \<open>Comparing with what is stored\<close>

datatype existing_event = Identical | SameContent | LegacyTypeTag | SameMessage | EventConflict

definition same_message :: "message_identity \<Rightarrow> message_identity \<Rightarrow> bool" where
  "same_message existing new \<longleftrightarrow> mi_server_id new \<noteq> [] \<and> existing = new"

definition match_existing_event :: "'p event_codec \<Rightarrow> int \<Rightarrow> string \<Rightarrow> event_row \<Rightarrow> bool \<Rightarrow> existing_event" where
  "match_existing_event C existing_event_type existing_payload row accept_legacy_type_tag =
     (if existing_event_type = er_event_type row \<and> existing_payload = er_payload row then Identical
      else
        let legacy_type_tag = (accept_legacy_type_tag \<and> er_payload row \<noteq> [] \<and> existing_event_type \<noteq> er_event_type row
              \<and> existing_event_type = er_legacy_event_type row)
        in if existing_event_type \<noteq> er_event_type row \<and> \<not> legacy_type_tag then EventConflict
           else if existing_payload = er_payload row then LegacyTypeTag
           else (case (decode_event_payload C (er_event_type row) existing_payload,
                       decode_event_payload C (er_event_type row) (er_payload row)) of
                   (Some existing, Some new) \<Rightarrow>
                     if existing = new then (if legacy_type_tag then LegacyTypeTag else SameContent)
                     else if fst existing = TgMessage \<and> fst new = TgMessage \<and> \<not> legacy_type_tag
                        \<and> same_message (ec_message C (snd existing)) (ec_message C (snd new))
                     then SameMessage else EventConflict
                 | _ \<Rightarrow> EventConflict))"

section \<open>The table\<close>

type_synonym event_table = "event_key \<rightharpoonup> stored_event"

text \<open>The statements of the stream. Another writer may take a position between two statements of a call.\<close>

datatype stream_stmt = InsertEvent nat | LoadEvent nat nat | CheckEvent

record stream_env =
  sn_ends :: "stream_stmt \<Rightarrow> stmt_end"
  sn_race :: event_table

definition with_race :: "stream_env \<Rightarrow> event_table \<Rightarrow> event_table" where
  "with_race N t = (\<lambda>k. case t k of None \<Rightarrow> sn_race N k | Some v \<Rightarrow> Some v)"

definition stream_db_error :: flare_error where
  "stream_db_error = FlareError DatabaseError ''event stream statement failed''"

definition event_stream_conflict :: "event_row \<Rightarrow> int \<Rightarrow> flare_error" where
  "event_stream_conflict row existing_type = FlareError HttpConflict (''event stream conflict tenant_id='' @ er_tenant_id row
     @ '' conversation_id='' @ er_conversation_id row @ '' seq='' @ show_int (er_seq row)
     @ '' existing_type='' @ show_int existing_type @ '' new_type='' @ show_int (er_event_type row))"

definition verify_conflicting_event :: "'p event_codec \<Rightarrow> stream_env \<Rightarrow> nat \<Rightarrow> nat \<Rightarrow> event_row \<Rightarrow> event_table \<Rightarrow> unit result" where
  "verify_conflicting_event C N i j row t =
     (if sn_ends N (LoadEvent i j) \<noteq> Done then Err stream_db_error
      else (case t (er_key row) of
              None \<Rightarrow> Ok ()
            | Some v \<Rightarrow> if match_existing_event C (sv_event_type v) (sv_payload v) row True = EventConflict
                        then Err (event_stream_conflict row (sv_event_type v)) else Ok ()))"

definition append_event_to_stream :: "'p event_codec \<Rightarrow> stream_env \<Rightarrow> op_event \<Rightarrow> event_table \<Rightarrow> unit result \<times> event_table" where
  "append_event_to_stream C N e t =
     (case event_to_insert_row C e of
        None \<Rightarrow> (Ok (), t)
      | Some row \<Rightarrow>
          let t = with_race N t in
          if sn_ends N (InsertEvent 0) = Failed then (Err stream_db_error, t)
          else
            let inserted = (t (er_key row) = None);
                t = (if inserted then t(er_key row \<mapsto> stored_of row) else t)
            in if sn_ends N (InsertEvent 0) = Unanswered then (Err stream_db_error, t)
               else if inserted then (Ok (), t)
               else (verify_conflicting_event C N 0 0 row t, t))"

text \<open>
  \<^verbatim>\<open>INSERT ... ON CONFLICT DO NOTHING RETURNING\<close> of many rows, and the check of those that were not inserted.
\<close>

fun insert_events :: "event_row list \<Rightarrow> event_table \<Rightarrow> event_key list \<times> event_table" where
  "insert_events [] t = ([], t)"
| "insert_events (row # rows) t =
     (if t (er_key row) \<noteq> None then insert_events rows t
      else (case insert_events rows (t(er_key row \<mapsto> stored_of row)) of (ks, t) \<Rightarrow> (er_key row # ks, t)))"

fun verify_events :: "'p event_codec \<Rightarrow> stream_env \<Rightarrow> event_key list \<Rightarrow> nat \<Rightarrow> nat \<Rightarrow> event_row list \<Rightarrow> event_table \<Rightarrow> unit result" where
  "verify_events C N inserted i j [] t = Ok ()"
| "verify_events C N inserted i j (row # rows) t =
     (if er_key row \<in> set inserted then verify_events C N inserted i (j + 1) rows t
      else and_then (verify_conflicting_event C N i j row t) (\<lambda>_. verify_events C N inserted i (j + 1) rows t))"

definition append_event_rows :: "'p event_codec \<Rightarrow> stream_env \<Rightarrow> nat \<Rightarrow> event_row list \<Rightarrow> event_table \<Rightarrow> unit result \<times> event_table" where
  "append_event_rows C N i rows t =
     (if rows = [] then (Ok (), t)
      else
        let t = with_race N t in
        if sn_ends N (InsertEvent i) = Failed then (Err stream_db_error, t)
        else (case insert_events rows t of
           (inserted, t) \<Rightarrow>
             if sn_ends N (InsertEvent i) = Unanswered then (Err stream_db_error, t)
             else (verify_events C N inserted i 0 rows t, t)))"

definition EVENT_STREAM_BATCH_SIZE :: nat where "EVENT_STREAM_BATCH_SIZE = 500"

fun batch_consistent :: "'p event_codec \<Rightarrow> (event_key \<rightharpoonup> event_row) \<Rightarrow> event_row list \<Rightarrow> bool" where
  "batch_consistent C seen [] \<longleftrightarrow> True"
| "batch_consistent C seen (row # rows) \<longleftrightarrow>
     (case seen (er_key row) of
        None \<Rightarrow> True
      | Some previous \<Rightarrow> match_existing_event C (er_event_type previous) (er_payload previous) row False \<noteq> EventConflict)
     \<and> batch_consistent C (seen(er_key row \<mapsto> row)) rows"

fun append_chunks :: "'p event_codec \<Rightarrow> stream_env \<Rightarrow> nat \<Rightarrow> event_row list list \<Rightarrow> event_table \<Rightarrow> unit result \<times> event_table" where
  "append_chunks C N i [] t = (Ok (), t)"
| "append_chunks C N i (rows # rest) t =
     (case append_event_rows C N i rows t of
        (Inl e, t) \<Rightarrow> (Err e, t)
      | (Inr _, t) \<Rightarrow> append_chunks C N (i + 1) rest t)"

definition append_events_to_stream :: "'p event_codec \<Rightarrow> stream_env \<Rightarrow> op_event list \<Rightarrow> event_table \<Rightarrow> unit result \<times> event_table" where
  "append_events_to_stream C N es t =
     (let rows = List.map_filter (event_to_insert_row C) es in
      if rows = [] then (Ok (), t)
      else if \<not> batch_consistent C Map.empty rows
      then (Err (FlareError SystemError ''event stream batch contains conflicting duplicate''), t)
      else append_chunks C N 0 (chunks EVENT_STREAM_BATCH_SIZE rows) t)"

datatype stored_event_match = Absent | Duplicate | StoredConflict int

definition match_stored_event :: "'p event_codec \<Rightarrow> stream_env \<Rightarrow> op_event \<Rightarrow> event_table \<Rightarrow> stored_event_match result" where
  "match_stored_event C N e t =
     (case event_to_insert_row C e of
        None \<Rightarrow> Ok Absent
      | Some row \<Rightarrow>
          if sn_ends N CheckEvent \<noteq> Done then Err stream_db_error
          else (case t (er_key row) of
                  None \<Rightarrow> Ok Absent
                | Some v \<Rightarrow>
                    if match_existing_event C (sv_event_type v) (sv_payload v) row True = EventConflict
                    then Ok (StoredConflict (sv_event_type v)) else Ok Duplicate))"

section \<open>Acceptance\<close>

definition row_matches :: "'p event_codec \<Rightarrow> stored_event \<Rightarrow> event_row \<Rightarrow> bool" where
  "row_matches C v row \<longleftrightarrow> match_existing_event C (sv_event_type v) (sv_payload v) row True \<noteq> EventConflict"

definition batch_rel :: "'p event_codec \<Rightarrow> event_row \<Rightarrow> event_row \<Rightarrow> bool" where
  "batch_rel C a b \<longleftrightarrow> match_existing_event C (er_event_type a) (er_payload a) b False \<noteq> EventConflict"

lemma batch_rel_iff:
  "batch_rel C a b \<longleftrightarrow> er_event_type a = er_event_type b \<and> (er_payload a = er_payload b
     \<or> (\<exists>x y. decode_event_payload C (er_event_type b) (er_payload a) = Some x
          \<and> decode_event_payload C (er_event_type b) (er_payload b) = Some y
          \<and> (x = y \<or> fst x = TgMessage \<and> fst y = TgMessage \<and> same_message (ec_message C (snd x)) (ec_message C (snd y)))))"
  by (auto simp: batch_rel_def match_existing_event_def Let_def split: option.splits if_splits)

lemma batch_rel_refl [simp]: "batch_rel C a a"
  by (simp add: batch_rel_iff)

lemma batch_rel_trans: "batch_rel C a b \<Longrightarrow> batch_rel C b c \<Longrightarrow> batch_rel C a c"
  unfolding batch_rel_iff same_message_def by (elim conjE disjE exE) (simp, fastforce+)

lemma batch_rel_matches: "batch_rel C a b \<Longrightarrow> row_matches C (stored_of a) b"
  by (auto simp: batch_rel_iff row_matches_def match_existing_event_def stored_of_def Let_def split: option.splits)

lemma batch_consistent_sorted:
  "batch_consistent C seen rows \<Longrightarrow> (\<forall>row \<in> set rows. \<forall>p. seen (er_key row) = Some p \<longrightarrow> batch_rel C p row)
     \<and> sorted_wrt (\<lambda>a b. er_key a = er_key b \<longrightarrow> batch_rel C a b) rows"
proof (induction rows arbitrary: seen)
  case (Cons row rows)
  have ih: "\<forall>r \<in> set rows. \<forall>p. (seen(er_key row \<mapsto> row)) (er_key r) = Some p \<longrightarrow> batch_rel C p r"
    "sorted_wrt (\<lambda>a b. er_key a = er_key b \<longrightarrow> batch_rel C a b) rows"
    using Cons by auto
  have first: "batch_rel C p row" if "seen (er_key row) = Some p" for p
    using Cons.prems that by (simp add: batch_rel_def)
  have "batch_rel C p r" if "r \<in> set rows" "seen (er_key r) = Some p" for r p
  proof (cases "er_key r = er_key row")
    case True
    with ih(1) that(1) have "batch_rel C row r" by simp
    moreover have "batch_rel C p row" using first that(2) True by simp
    ultimately show ?thesis using batch_rel_trans by blast
  next
    case False
    with ih(1) that show ?thesis by simp
  qed
  with first ih show ?case by auto
qed simp

lemma insert_events_facts:
  assumes "insert_events rows t = (ks, t')"
  shows "t \<subseteq>\<^sub>m t'" "\<forall>k \<in> set ks. t k = None" "\<forall>row \<in> set rows. t' (er_key row) \<noteq> None"
  using assms
proof (induction rows arbitrary: t ks t')
  case (Cons row rows)
  {
    case 1
    show ?case
    proof (cases "t (er_key row) = None")
      case True
      with 1 obtain ks' where "insert_events rows (t(er_key row \<mapsto> stored_of row)) = (ks', t')" by (auto split: prod.splits)
      from Cons.IH(1) [OF this] True show ?thesis by (auto simp: map_le_def dom_def split: if_splits)
    qed (use 1 Cons.IH(1) in auto)
  next
    case 2
    show ?case
    proof (cases "t (er_key row) = None")
      case True
      with 2 obtain ks' where ks: "insert_events rows (t(er_key row \<mapsto> stored_of row)) = (ks', t')" "ks = er_key row # ks'"
        by (auto split: prod.splits)
      from Cons.IH(2) [OF ks(1)] True ks(2) show ?thesis by (auto split: if_splits)
    qed (use 2 Cons.IH(2) in auto)
  next
    case 3
    show ?case
    proof (cases "t (er_key row) = None")
      case True
      with 3 obtain ks' where ks: "insert_events rows (t(er_key row \<mapsto> stored_of row)) = (ks', t')" by (auto split: prod.splits)
      have "t' (er_key row) = Some (stored_of row)" using map_leD [OF Cons.IH(1) [OF ks]] by simp
      with Cons.IH(3) [OF ks] show ?thesis by simp
    next
      case False
      then obtain v where "t (er_key row) = Some v" by blast
      with 3 False have ks: "insert_events rows t = (ks, t')" by simp
      from map_leD [OF Cons.IH(1) [OF ks]] \<open>t (er_key row) = Some v\<close> Cons.IH(3) [OF ks] show ?thesis by auto
    qed
  }
qed auto

lemma insert_events_inserted:
  assumes "insert_events rows t = (ks, t')" "sorted_wrt (\<lambda>a b. er_key a = er_key b \<longrightarrow> batch_rel C a b) rows"
    "row \<in> set rows" "er_key row \<in> set ks"
  shows "\<exists>v. t' (er_key row) = Some v \<and> row_matches C v row"
  using assms
proof (induction rows arbitrary: t ks)
  case (Cons r rows)
  show ?case
  proof (cases "t (er_key r) = None")
    case True
    with Cons.prems(1) obtain ks' where ks: "insert_events rows (t(er_key r \<mapsto> stored_of r)) = (ks', t')" "ks = er_key r # ks'"
      by (auto split: prod.splits)
    have first: "t' (er_key r) = Some (stored_of r)" using map_leD [OF insert_events_facts(1) [OF ks(1)]] by simp
    show ?thesis
    proof (cases "er_key row = er_key r")
      case True
      have "batch_rel C r row" using Cons.prems(2,3) True by auto
      with first True batch_rel_matches show ?thesis by metis
    next
      case False
      with Cons.prems(3,4) ks(2) have "row \<in> set rows" "er_key row \<in> set ks'" by auto
      with Cons.IH [OF ks(1)] Cons.prems(2) show ?thesis by simp
    qed
  next
    case False
    with Cons.prems(1) have ks: "insert_events rows t = (ks, t')" by simp
    have "row \<noteq> r" using insert_events_facts(2) [OF ks] Cons.prems(4) False by auto
    with Cons.IH [OF ks] Cons.prems(2-4) show ?thesis by simp
  qed
qed simp

lemma with_race_le: "t \<subseteq>\<^sub>m with_race N t"
  by (auto simp: map_le_def with_race_def)

lemma with_race_upd_le:
  assumes "with_race N t k = None"
  shows "t \<subseteq>\<^sub>m (with_race N t)(k \<mapsto> x)"
  unfolding map_le_def
proof
  fix a assume "a \<in> dom t"
  then obtain y where y: "t a = Some y" by blast
  then have "with_race N t a = Some y" by (simp add: with_race_def)
  with y assms show "t a = ((with_race N t)(k \<mapsto> x)) a" by (cases "a = k") auto
qed

lemma verify_conflicting_event_Ok:
  "verify_conflicting_event C N i j row t = Ok () \<Longrightarrow> t (er_key row) = Some v \<Longrightarrow> row_matches C v row"
  by (auto simp: verify_conflicting_event_def row_matches_def split: if_splits)

lemma verify_events_Ok:
  "verify_events C N ks i j rows t = Ok () \<Longrightarrow> row \<in> set rows \<Longrightarrow> er_key row \<notin> set ks \<Longrightarrow> t (er_key row) = Some v \<Longrightarrow> row_matches C v row"
proof (induction rows arbitrary: j)
  case (Cons r rows)
  show ?case
  proof (cases "row = r")
    case True
    with Cons.prems have "verify_conflicting_event C N i j row t = Ok ()" by (auto simp: and_then_eq_Ok)
    then show ?thesis using verify_conflicting_event_Ok Cons.prems(4) by blast
  next
    case False
    from Cons.prems(1) have "verify_events C N ks i (j + 1) rows t = Ok ()" by (auto simp: and_then_eq_Ok split: if_splits)
    from Cons.IH [OF this] Cons.prems(2-4) False show ?thesis by simp
  qed
qed simp

text \<open>\<open>accepted t rows\<close>: each row is in the table, as itself or as an event it is a redelivery of.\<close>

definition accepted :: "'p event_codec \<Rightarrow> event_table \<Rightarrow> event_row list \<Rightarrow> bool" where
  "accepted C t rows \<longleftrightarrow> (\<forall>row \<in> set rows. \<exists>v. t (er_key row) = Some v \<and> row_matches C v row)"

lemma accepted_mono: "accepted C t rows \<Longrightarrow> t \<subseteq>\<^sub>m t' \<Longrightarrow> accepted C t' rows"
  unfolding accepted_def using map_leD by metis

lemma append_event_rows_facts:
  assumes "append_event_rows C N i rows t = (r, t')" "sorted_wrt (\<lambda>a b. er_key a = er_key b \<longrightarrow> batch_rel C a b) rows"
  shows "t \<subseteq>\<^sub>m t' \<and> (r = Ok () \<longrightarrow> accepted C t' rows)"
proof (cases "rows = [] \<or> sn_ends N (InsertEvent i) = Failed")
  case True
  with assms(1) with_race_le [of t N] show ?thesis
    by (cases "rows = []") (auto simp: append_event_rows_def accepted_def Let_def)
next
  case False
  obtain ks t1 where ks: "insert_events rows (with_race N t) = (ks, t1)" by fastforce
  with assms(1) False have t': "t' = t1" and r: "r = Ok () \<Longrightarrow> verify_events C N ks i 0 rows t1 = Ok ()"
    by (auto simp: append_event_rows_def Let_def split: if_splits)
  have "t \<subseteq>\<^sub>m t1" using map_le_trans [OF with_race_le insert_events_facts(1) [OF ks]] .
  moreover have "accepted C t1 rows" if "r = Ok ()"
    unfolding accepted_def
  proof
    fix row assume row: "row \<in> set rows"
    show "\<exists>v. t1 (er_key row) = Some v \<and> row_matches C v row"
    proof (cases "er_key row \<in> set ks")
      case True
      show ?thesis by (rule insert_events_inserted [OF ks assms(2) row True])
    next
      case False
      obtain v where "t1 (er_key row) = Some v" using insert_events_facts(3) [OF ks] row by blast
      with verify_events_Ok [OF r [OF that] row False] show ?thesis by blast
    qed
  qed
  ultimately show ?thesis by (simp add: t')
qed

lemma append_chunks_facts:
  assumes "append_chunks C N i css t = (r, t')" "sorted_wrt (\<lambda>a b. er_key a = er_key b \<longrightarrow> batch_rel C a b) (concat css)"
  shows "t \<subseteq>\<^sub>m t' \<and> (r = Ok () \<longrightarrow> accepted C t' (concat css))"
  using assms
proof (induction css arbitrary: i t)
  case (Cons rows css)
  obtain r1 t1 where a: "append_event_rows C N i rows t = (r1, t1)" by fastforce
  from Cons.prems(2) have s: "sorted_wrt (\<lambda>a b. er_key a = er_key b \<longrightarrow> batch_rel C a b) rows"
    "sorted_wrt (\<lambda>a b. er_key a = er_key b \<longrightarrow> batch_rel C a b) (concat css)" by (simp_all add: sorted_wrt_append)
  note f = append_event_rows_facts [OF a s(1)]
  show ?case
  proof (cases r1)
    case (Inl e)
    with Cons.prems(1) a f show ?thesis by auto
  next
    case (Inr u)
    with Cons.prems(1) a have "append_chunks C N (i + 1) css t1 = (r, t')" by simp
    note ih = Cons.IH [OF this s(2)]
    have "t \<subseteq>\<^sub>m t'" using map_le_trans f ih by blast
    moreover have "accepted C t' (concat (rows # css))" if "r = Ok ()"
      using ih that accepted_mono [of C t1 rows t'] f Inr by (auto simp: accepted_def)
    ultimately show ?thesis by blast
  qed
qed (auto simp: accepted_def)

lemma append_event_to_stream_facts:
  assumes "append_event_to_stream C N e t = (r, t')"
  shows "t \<subseteq>\<^sub>m t'" "r = Ok () \<Longrightarrow> event_to_insert_row C e = Some row \<Longrightarrow> accepted C t' [row]"
proof -
  have all: "t \<subseteq>\<^sub>m t' \<and> (r = Ok () \<longrightarrow> (\<forall>row. event_to_insert_row C e = Some row \<longrightarrow> accepted C t' [row]))"
  proof (cases "event_to_insert_row C e")
    case None
    with assms show ?thesis by (auto simp: append_event_to_stream_def)
  next
    case (Some row)
    show ?thesis
    proof (cases "with_race N t (er_key row)")
      case None
      have m: "row_matches C (stored_of row) row" by (rule batch_rel_matches) simp
      have "t' = with_race N t \<and> r \<noteq> Ok () \<or> t' = (with_race N t)(er_key row \<mapsto> stored_of row)"
        using assms Some None by (auto simp: append_event_to_stream_def Let_def split: if_splits)
      with m Some with_race_le [of t N] with_race_upd_le [OF None] show ?thesis by (auto simp: accepted_def)
    next
      case (Some v)
      with assms \<open>event_to_insert_row C e = _\<close> with_race_le [of t N] verify_conflicting_event_Ok [of C N 0 0 row "with_race N t" v]
      show ?thesis by (auto simp: append_event_to_stream_def Let_def accepted_def split: if_splits)
    qed
  qed
  then show "t \<subseteq>\<^sub>m t'" by blast
  show "r = Ok () \<Longrightarrow> event_to_insert_row C e = Some row \<Longrightarrow> accepted C t' [row]" using all by blast
qed

definition example_event_codec :: "int \<Rightarrow> string event_codec" where
  "example_event_codec now = \<lparr>ec_to_proto = (\<lambda>p. case p of
       OpRecall i _ \<Rightarrow> Some (TgRecall, i) | OpEdit i c _ \<Rightarrow> Some (TgEdit, i @ c) | OpReaction i u em _ \<Rightarrow> Some (TgReaction, i @ u @ em)
     | OpBurned b \<Rightarrow> Some (TgRetentionExpired, bn_message_id b) | _ \<Rightarrow> None),
     ec_encode = (\<lambda>s. s), ec_decode = (\<lambda>_ s. Some s), ec_message = (\<lambda>_. \<lparr>mi_server_id = [], mi_client_msg_id = [], mi_sender_id = [], mi_conversation_id = [],
       mi_conversation_seq = 0, mi_message_type = [], mi_content = []\<rparr>), ec_date_ok = (\<lambda>_. True), ec_now = now\<rparr>"

definition example_op_event :: "op_payload \<Rightarrow> domain_event_type \<Rightarrow> op_event" where
  "example_op_event p ty = \<lparr>oev_tenant_id = ''t1'', oev_conversation_id = ''1-x'', oev_seq = 9, oev_type = ty, oev_created_at = Some 7,
     oev_operator_id = ''alice'', oev_event_seq = None, oev_request_id = None, oev_payload = Some p\<rparr>"

text \<open>
  C25: the event stream is written once. Appending a batch of events never changes an event that is in the stream, whatever
  statements fail, go unanswered or race with other writers. When it reports success, the position of each event that has a
  conversation holds an event that counts as the same: of the same type (or of the type number of an older writer) and
  with the same bytes, the same decoded content, or, for a message, the same ids, sender, type and content.
\<close>

theorem event_stream_written_once:
  assumes "append_events_to_stream C N es t = (r, t')"
  shows "(\<forall>k v. t k = Some v \<longrightarrow> t' k = Some v)
     \<and> (r = Ok () \<longrightarrow> (\<forall>e \<in> set es. \<forall>row. event_to_insert_row C e = Some row \<longrightarrow>
          (\<exists>v. t' (er_key row) = Some v
             \<and> match_existing_event C (sv_event_type v) (sv_payload v) row True \<noteq> EventConflict)))"
proof -
  let ?rows = "List.map_filter (event_to_insert_row C) es"
  consider "?rows = []" | "?rows \<noteq> []" "\<not> batch_consistent C Map.empty ?rows"
    | (go) "?rows \<noteq> []" "batch_consistent C Map.empty ?rows" by blast
  then have all: "t \<subseteq>\<^sub>m t' \<and> (r = Ok () \<longrightarrow> accepted C t' ?rows)"
  proof cases
    case go
    with assms have a: "append_chunks C N 0 (chunks EVENT_STREAM_BATCH_SIZE ?rows) t = (r, t')"
      by (simp add: append_events_to_stream_def)
    have c: "concat (chunks EVENT_STREAM_BATCH_SIZE ?rows) = ?rows" by (simp add: concat_chunks EVENT_STREAM_BATCH_SIZE_def)
    from append_chunks_facts [OF a] batch_consistent_sorted [OF go(2)] show ?thesis by (simp add: c)
  qed (use assms in \<open>auto simp: append_events_to_stream_def accepted_def\<close>)
  have "row \<in> set ?rows" if "e \<in> set es" "event_to_insert_row C e = Some row" for e row
    using that by (force simp: map_filter_def)
  with all have acc: "\<exists>v. t' (er_key row) = Some v \<and> row_matches C v row"
    if "r = Ok ()" "e \<in> set es" "event_to_insert_row C e = Some row" for e row
    using that unfolding accepted_def by blast
  have "t' k = Some v" if "t k = Some v" for k v using map_leD [OF conjunct1 [OF all] that] .
  with acc show ?thesis unfolding row_matches_def by blast
qed

theorem event_stream_written_once_witness:
  "\<exists>t'. append_events_to_stream (example_event_codec 20) \<lparr>sn_ends = (\<lambda>_. Done), sn_race = Map.empty\<rparr>
       [example_op_event (OpRecall ''srv-1'' []) DeMessageRecall]
       [(''t1'', ''1-x'', 9) \<mapsto> stored_event.make 2 7 ''bob'' None None ''srv-1''] = (Ok (), t')
     \<and> t' (''t1'', ''1-x'', 9) = Some (stored_event.make 2 7 ''bob'' None None ''srv-1'')"
proof -
  let ?N = "\<lparr>sn_ends = (\<lambda>_. Done), sn_race = Map.empty\<rparr>" and ?t = "[(''t1'', ''1-x'', 9) \<mapsto> stored_event.make 2 7 ''bob'' None None ''srv-1'']"
  have "fst (append_events_to_stream (example_event_codec 20) ?N [example_op_event (OpRecall ''srv-1'' []) DeMessageRecall] ?t) = Ok ()" by code_simp
  then obtain t' where t': "append_events_to_stream (example_event_codec 20) ?N [example_op_event (OpRecall ''srv-1'' []) DeMessageRecall] ?t = (Ok (), t')"
    by (metis prod.collapse)
  with event_stream_written_once [OF t'] show ?thesis by simp
qed

end
