(* ===== verification/Read_Watermark.thy ===== *)
theory Read_Watermark
  imports Redis_Server Event_Stream
begin

text \<open>
  Read positions: the contract of \<^verbatim>\<open>flare-orchestrator/src/domain/repository/read_watermark_repository.rs\<close> as a locale, and
  the two scripts of \<^verbatim>\<open>infrastructure/persistence/redis_read_watermark.rs\<close>. Positions are compared as Lua numbers, which are
  exact below \<open>2 ^ 53\<close>.
\<close>

section \<open>The repository\<close>

datatype read_advance = Advanced nat | NotAdvanced nat

record 'k read_watermark_repo =
  wm_advance :: "string \<Rightarrow> string \<Rightarrow> string \<Rightarrow> nat \<Rightarrow> 'k \<Rightarrow> read_advance result \<times> 'k"
  wm_rollback :: "string \<Rightarrow> string \<Rightarrow> string \<Rightarrow> nat \<Rightarrow> nat \<Rightarrow> 'k \<Rightarrow> unit result \<times> 'k"

section \<open>Redis\<close>

definition watermark_key :: "string \<Rightarrow> string \<Rightarrow> string \<Rightarrow> string" where
  "watermark_key tenant_id conversation_id user_id =
     ''read:watermark:'' @ tenant_id @ '':'' @ conversation_id @ '':'' @ user_id"

definition mark_value :: "string option \<Rightarrow> nat" where
  "mark_value v = (case v of None \<Rightarrow> 0 | Some s \<Rightarrow> (case parse_u64 s of None \<Rightarrow> 0 | Some n \<Rightarrow> n))"

definition set_mark :: "'r redis_cmds \<Rightarrow> string \<Rightarrow> nat \<Rightarrow> nat \<Rightarrow> 'r \<Rightarrow> 'r" where
  "set_mark R key n ttl_seconds r = r_set R key (to_decimal n) (if 0 < ttl_seconds then Some (ttl_seconds * 1000) else None) r"

definition advance_lua :: "'r redis_cmds \<Rightarrow> string \<Rightarrow> nat \<Rightarrow> nat \<Rightarrow> 'r \<Rightarrow> (nat \<times> nat) \<times> 'r" where
  "advance_lua R key n ttl_seconds r =
     (let current = mark_value (r_get R r key) in
      if n \<le> current then ((0, current), r) else ((1, current), set_mark R key n ttl_seconds r))"

definition rollback_lua :: "'r redis_cmds \<Rightarrow> string \<Rightarrow> nat \<Rightarrow> nat \<Rightarrow> nat \<Rightarrow> 'r \<Rightarrow> nat \<times> 'r" where
  "rollback_lua R key advanced_to previous ttl_seconds r =
     (if r_get R r key \<noteq> Some (to_decimal advanced_to) then (0, r)
      else if previous = 0 then (1, r_del R key r)
      else (1, set_mark R key previous ttl_seconds r))"

definition DEFAULT_TTL_SECONDS :: nat where "DEFAULT_TTL_SECONDS = 24 * 60 * 60"

text \<open>A script call is answered, is not executed, or is executed and its answer is lost.\<close>

definition redis_advance :: "'r redis_cmds \<Rightarrow> nat \<Rightarrow> stmt_end \<Rightarrow> string \<Rightarrow> string \<Rightarrow> string \<Rightarrow> nat \<Rightarrow> 'r \<Rightarrow> read_advance result \<times> 'r" where
  "redis_advance R ttl_seconds fin tenant_id conversation_id user_id read_seq r =
     (let key = watermark_key tenant_id conversation_id user_id;
          failed = Err (FlareError SystemError ''Redis read watermark advance'')
      in case fin of
           Failed \<Rightarrow> (failed, r)
         | Unanswered \<Rightarrow> (failed, snd (advance_lua R key read_seq ttl_seconds r))
         | Done \<Rightarrow>
             (case advance_lua R key read_seq ttl_seconds r of
                ((advanced, previous), r) \<Rightarrow> (Ok (if advanced = 1 then Advanced previous else NotAdvanced previous), r)))"

definition redis_rollback_mark :: "'r redis_cmds \<Rightarrow> nat \<Rightarrow> stmt_end \<Rightarrow> string \<Rightarrow> string \<Rightarrow> string \<Rightarrow> nat \<Rightarrow> nat \<Rightarrow> 'r \<Rightarrow> unit result \<times> 'r" where
  "redis_rollback_mark R ttl_seconds fin tenant_id conversation_id user_id advanced_to previous r =
     (let key = watermark_key tenant_id conversation_id user_id;
          failed = Err (FlareError SystemError ''Redis read watermark rollback'')
      in case fin of
           Failed \<Rightarrow> (failed, r)
         | Unanswered \<Rightarrow> (failed, snd (rollback_lua R key advanced_to previous ttl_seconds r))
         | Done \<Rightarrow> (Ok (), snd (rollback_lua R key advanced_to previous ttl_seconds r)))"

definition redis_read_watermark :: "'r redis_cmds \<Rightarrow> nat \<Rightarrow> stmt_end \<Rightarrow> stmt_end \<Rightarrow> 'r read_watermark_repo" where
  "redis_read_watermark R ttl_seconds fin1 fin2 =
     \<lparr>wm_advance = redis_advance R ttl_seconds fin1, wm_rollback = redis_rollback_mark R ttl_seconds fin2\<rparr>"

section \<open>The contract\<close>

text \<open>
  \<open>position k x\<close> is the watermark of the reader \<open>x\<close>. An answered \<open>advance\<close> raises it strictly or leaves it; a call without an answer may
  have raised it; \<open>rollback\<close> puts the previous value back only where the value is still the claimed one.
\<close>

locale read_watermark =
  fixes W :: "'k read_watermark_repo"
    and reader :: "string \<Rightarrow> string \<Rightarrow> string \<Rightarrow> 'x"
    and position :: "'k \<Rightarrow> 'x \<Rightarrow> nat"
    and fits :: "nat \<Rightarrow> bool"
  assumes advanced: "wm_advance W t c u n k = (Ok (Advanced p), k') \<Longrightarrow> fits n \<Longrightarrow>
      p = position k (reader t c u) \<and> p < n \<and> position k' = (position k)(reader t c u := n)"
    and not_advanced: "wm_advance W t c u n k = (Ok (NotAdvanced p), k') \<Longrightarrow> fits n \<Longrightarrow>
      p = position k (reader t c u) \<and> n \<le> p \<and> position k' = position k"
    and advance_unanswered: "wm_advance W t c u n k = (Err e, k') \<Longrightarrow> fits n \<Longrightarrow>
      position k' = position k \<or> position k (reader t c u) < n \<and> position k' = (position k)(reader t c u := n)"
    and rollback: "wm_rollback W t c u n p k = (r, k') \<Longrightarrow> fits n \<Longrightarrow> fits p \<Longrightarrow>
      position k' = position k \<or> position k (reader t c u) = n \<and> position k' = (position k)(reader t c u := p)"
    and rollback_claim: "wm_advance W t c u n k = (Ok (Advanced p), k') \<Longrightarrow> wm_rollback W t c u n p k' = (Ok (), k'') \<Longrightarrow> fits n \<Longrightarrow>
      position k'' = position k"
begin

lemma answered_above:
  assumes "wm_advance W t c u n k = (Ok a, k')" "fits n"
  shows "a = (if n \<le> position k (reader t c u) then NotAdvanced (position k (reader t c u)) else Advanced (position k (reader t c u)))"
  using assms advanced [of t c u n k _ k'] not_advanced [of t c u n k _ k'] by (cases a) fastforce+

lemma advance_monotone:
  assumes "wm_advance W t c u n k = (r, k')" "fits n"
  shows "position k x \<le> position k' x"
proof (cases r)
  case (Inl e)
  with assms advance_unanswered [of t c u n k e k'] show ?thesis by auto
next
  case (Inr a)
  with assms advanced [of t c u n k _ k'] not_advanced [of t c u n k _ k'] show ?thesis by (cases a) auto
qed

end

definition redis_position :: "'r redis_cmds \<Rightarrow> 'r \<Rightarrow> string \<Rightarrow> nat" where
  "redis_position R r key = mark_value (r_get R r key)"

definition lua_exact :: "nat \<Rightarrow> bool" where "lua_exact n \<longleftrightarrow> n < 2 ^ 53"

lemma mark_value_simps [simp]: "mark_value None = 0" "n < 2 ^ 53 \<Longrightarrow> mark_value (Some (to_decimal n)) = n"
  by (simp_all add: mark_value_def parse_u64_to_decimal)

context redis_server
begin

lemma position_set_mark: "lua_exact n \<Longrightarrow> redis_position R (set_mark R key n ttl r) = (redis_position R r)(key := n)"
  by (auto simp: fun_eq_iff redis_position_def set_mark_def get_set lua_exact_def)

lemma position_del: "redis_position R (r_del R key r) = (redis_position R r)(key := 0)"
  by (auto simp: fun_eq_iff redis_position_def get_del)

lemma advance_lua_position:
  assumes "advance_lua R key n ttl r = ((a, p), r')" "lua_exact n"
  shows "p = redis_position R r key \<and> (if n \<le> p then a = 0 \<and> redis_position R r' = redis_position R r
     else a = 1 \<and> redis_position R r' = (redis_position R r)(key := n) \<and> r_get R r' key = Some (to_decimal n))"
proof (cases "n \<le> mark_value (r_get R r key)")
  case False
  then have "a = 1" "p = redis_position R r key" "r' = set_mark R key n ttl r"
    using assms(1) by (auto simp: advance_lua_def redis_position_def)
  with False assms(2) position_set_mark [of n key ttl r] show ?thesis
    by (auto simp: redis_position_def set_mark_def get_set)
qed (use assms in \<open>auto simp: advance_lua_def redis_position_def Let_def\<close>)

lemma rollback_lua_position:
  assumes "rollback_lua R key n p ttl r = (a, r')" "lua_exact n" "lua_exact p"
  shows "if r_get R r key = Some (to_decimal n) then redis_position R r key = n \<and> redis_position R r' = (redis_position R r)(key := p)
     else redis_position R r' = redis_position R r"
  using assms by (auto simp: rollback_lua_def position_set_mark position_del redis_position_def lua_exact_def split: if_splits)

lemma redis_watermark_laws:
  "read_watermark (redis_read_watermark R ttl fin1 fin2) watermark_key (redis_position R) lua_exact"
proof
  note defs = redis_read_watermark_def redis_advance_def redis_rollback_mark_def Let_def
  fix t c u n p r r' e res r''
  let ?k = "watermark_key t c u" and ?W = "redis_read_watermark R ttl fin1 fin2"
  obtain x y r1 where adv: "advance_lua R ?k n ttl r = ((x, y), r1)" by (metis prod.collapse)
  obtain z r2 where rb: "rollback_lua R ?k n p ttl r = (z, r2)" by (metis prod.collapse)
  show "p = redis_position R r ?k \<and> p < n \<and> redis_position R r' = (redis_position R r)(?k := n)"
    if "wm_advance ?W t c u n r = (Ok (Advanced p), r')" "lua_exact n"
    using that advance_lua_position [OF adv] by (auto simp: defs adv split: stmt_end.splits if_splits)
  show "p = redis_position R r ?k \<and> n \<le> p \<and> redis_position R r' = redis_position R r"
    if "wm_advance ?W t c u n r = (Ok (NotAdvanced p), r')" "lua_exact n"
    using that advance_lua_position [OF adv] by (auto simp: defs adv split: stmt_end.splits if_splits)
  show "redis_position R r' = redis_position R r \<or> redis_position R r ?k < n \<and> redis_position R r' = (redis_position R r)(?k := n)"
    if "wm_advance ?W t c u n r = (Err e, r')" "lua_exact n"
    using that advance_lua_position [OF adv] by (auto simp: defs adv split: stmt_end.splits if_splits)
  show "redis_position R r' = redis_position R r \<or> redis_position R r ?k = n \<and> redis_position R r' = (redis_position R r)(?k := p)"
    if "wm_rollback ?W t c u n p r = (res, r')" "lua_exact n" "lua_exact p"
    using that rollback_lua_position [OF rb] by (auto simp: defs rb split: stmt_end.splits if_splits)
  show "redis_position R r'' = redis_position R r"
    if a: "wm_advance ?W t c u n r = (Ok (Advanced p), r')" and b: "wm_rollback ?W t c u n p r' = (Ok (), r'')" and n: "lua_exact n"
  proof -
    from a have "fin1 = Done" "x = 1" "y = p" "r1 = r'"
      by (auto simp: defs adv split: stmt_end.splits if_splits)
    with advance_lua_position [OF adv n] have p: "p = redis_position R r ?k" "p < n" "redis_position R r' = (redis_position R r)(?k := n)"
      "r_get R r' ?k = Some (to_decimal n)" by (auto split: if_splits)
    have "lua_exact p" using p(2) n by (simp add: lua_exact_def)
    moreover from b have "fin2 = Done" "r'' = snd (rollback_lua R ?k n p ttl r')" by (auto simp: defs split: stmt_end.splits)
    ultimately show ?thesis
      using rollback_lua_position [of ?k n p ttl r' "fst (rollback_lua R ?k n p ttl r')" r''] n p by auto
  qed
qed

end

interpretation mem_marks: read_watermark "redis_read_watermark mem_redis ttl fin1 fin2" watermark_key "redis_position mem_redis" lua_exact
  for ttl fin1 fin2
  by (rule mem.redis_watermark_laws)

end
