(* ===== verification/Operation_Policy.thy ===== *)
theory Operation_Policy
  imports Message_Validation Ingest_Service
begin

text \<open>
  Who may do what to a message: \<^verbatim>\<open>flare-orchestrator/src/domain/service/message_operation_policy.rs\<close> with the membership
  cache of \<^verbatim>\<open>infrastructure/external/conversation_membership.rs\<close>. The storage reader and the conversation
  service that are asked are parameters, the latter with a state of its own.
\<close>

section \<open>The operator\<close>

datatype operator = OpUser string | OpTrusted string | OpStatePublisher | OpNone

text \<open>The context of a call: verified claims, the user header and, of the actor header, whether it is a user and its id.\<close>

record op_caller =
  ca_claims :: "signed_claims option"
  ca_user_id :: "string option"
  ca_actor :: "(bool \<times> string) option"

definition TRUSTED_OPERATION_SERVICES :: "string list" where
  "TRUSTED_OPERATION_SERVICES = [''flare-social-bridge'']"

definition operator_of :: "key_ids \<Rightarrow> op_caller \<Rightarrow> operator" where
  "operator_of K ca =
     (case ca_claims ca of
        Some claims \<Rightarrow>
          if is_card_post_context K claims
          then (if is_plugin_state_publisher K claims then OpStatePublisher else OpNone)
          else if cl_actor_type claims \<in> {ActorUser, ActorTenantAdmin} \<and> cl_actor_id claims \<noteq> [] then OpUser (cl_actor_id claims)
          else if cl_actor_type claims = ActorSystem \<and> cl_actor_id claims \<noteq> [] then OpTrusted (cl_actor_id claims)
          else if cl_actor_type claims = ActorService \<and> cl_actor_id claims \<in> set TRUSTED_OPERATION_SERVICES
            then OpTrusted (cl_actor_id claims)
          else OpNone
      | None \<Rightarrow>
          (case ca_user_id ca of
             Some u \<Rightarrow> if trim u \<noteq> [] then OpUser u
               else (case ca_actor ca of Some (True, a) \<Rightarrow> if trim a \<noteq> [] then OpUser a else OpNone | _ \<Rightarrow> OpNone)
           | None \<Rightarrow> (case ca_actor ca of Some (True, a) \<Rightarrow> if trim a \<noteq> [] then OpUser a else OpNone | _ \<Rightarrow> OpNone)))"

definition is_trusted :: "operator \<Rightarrow> bool" where
  "is_trusted opr = (case opr of OpTrusted _ \<Rightarrow> True | _ \<Rightarrow> False)"

section \<open>Reasons\<close>

definition RECALL_WINDOW_MS :: int where "RECALL_WINDOW_MS = 24 * 3600 * 1000"
definition EDIT_WINDOW_MS :: int where "EDIT_WINDOW_MS = 24 * 3600 * 1000"
definition MAX_RECEIPT_MESSAGE_IDS :: nat where "MAX_RECEIPT_MESSAGE_IDS = 50"

definition denied_op :: "string \<Rightarrow> flare_error" where
  "denied_op code = FlareError PermissionDenied code"

definition invalid_op :: "string \<Rightarrow> flare_error" where
  "invalid_op details = FlareError InvalidParameter (''MESSAGE_OPERATION_INVALID: '' @ details)"

definition unavailable_op :: "string \<Rightarrow> flare_error" where
  "unavailable_op what = FlareError ServiceUnavailable what"

datatype membership_read = Recent | Current

text \<open>Text, rich text, or a reply whose own content is one of those; the content inside a reply is a parameter.\<close>

definition plain_text :: "content option option \<Rightarrow> bool" where
  "plain_text c = (case c of Some (Some (Text _)) \<Rightarrow> True | Some (Some (RichText _)) \<Rightarrow> True | _ \<Rightarrow> False)"

definition editable :: "(string \<Rightarrow> content option option) \<Rightarrow> content option option \<Rightarrow> bool" where
  "editable quoted c = (case c of Some (Some (Quote q)) \<Rightarrow> plain_text (quoted q) | _ \<Rightarrow> plain_text c)"

definition membership_read_of :: "event_payload option \<Rightarrow> membership_read" where
  "membership_read_of p = (case p of Some (EvRead _) \<Rightarrow> Recent | Some (EvReaction _) \<Rightarrow> Recent | _ \<Rightarrow> Current)"

definition bind_user :: "string \<Rightarrow> operator \<Rightarrow> string result" where
  "bind_user field opr =
     (case opr of
        OpUser user \<Rightarrow> if field = [] then Ok user else if field = user then Ok field
          else Err (denied_op ''MESSAGE_OPERATION_IDENTITY_MISMATCH'')
      | OpTrusted _ \<Rightarrow> if field \<noteq> [] then Ok field else Err (invalid_op ''a trusted operation must name its user'')
      | _ \<Rightarrow> Err (denied_op ''MESSAGE_OPERATION_FORBIDDEN''))"

section \<open>The policy\<close>

record target_repo =
  tr_message :: "string \<Rightarrow> string \<Rightarrow> message option result"
  tr_conversations_of :: "string \<Rightarrow> string list \<Rightarrow> (string \<rightharpoonup> string) result"

type_synonym 's member_repo = "string \<Rightarrow> string \<Rightarrow> string \<Rightarrow> membership_read \<Rightarrow> 's \<Rightarrow> bool result \<times> 's"

record 's operation_policy =
  op_keys :: key_ids
  op_targets :: "target_repo option"
  op_members :: "'s member_repo option"
  op_now_ms :: int
  op_quoted :: "string \<Rightarrow> content option option"

definition op_target :: "'s operation_policy \<Rightarrow> string \<Rightarrow> string \<Rightarrow> string \<Rightarrow> message result" where
  "op_target P tenant_id conversation_id server_msg_id =
     (if trim server_msg_id = [] then Err (invalid_op ''the event names no message'')
      else (case op_targets P of
         None \<Rightarrow> Err (unavailable_op ''message operation authorization unavailable'')
       | Some targets \<Rightarrow>
           and_then (tr_message targets tenant_id server_msg_id) (\<lambda>found.
             case found of
               None \<Rightarrow> Err (unavailable_op ''message not stored yet'')
             | Some m \<Rightarrow>
                 if m_server_id m \<noteq> server_msg_id \<or> m_conversation_id m \<noteq> conversation_id
                 then Err (denied_op ''MESSAGE_OPERATION_CONVERSATION_MISMATCH'') else Ok m)))"

definition require_member :: "'s operation_policy \<Rightarrow> string \<Rightarrow> string \<Rightarrow> string \<Rightarrow> membership_read \<Rightarrow> 's \<Rightarrow> unit result \<times> 's" where
  "require_member P tenant_id conversation_id user read s =
     (case op_members P of
        None \<Rightarrow> (Err (unavailable_op ''conversation membership unavailable''), s)
      | Some is_member \<Rightarrow>
          (case is_member tenant_id conversation_id user read s of
             (Inl e, s) \<Rightarrow> (Err e, s)
           | (Inr True, s) \<Rightarrow> (Ok (), s)
           | (Inr False, s) \<Rightarrow> (Err (denied_op ''MESSAGE_OPERATION_NOT_MEMBER''), s)))"

definition receipt_targets :: "'s operation_policy \<Rightarrow> string \<Rightarrow> string \<Rightarrow> string list \<Rightarrow> unit result" where
  "receipt_targets P tenant_id conversation_id message_ids =
     (if length message_ids > MAX_RECEIPT_MESSAGE_IDS then Err (invalid_op ''a read receipt names at most 50 messages'')
      else
        let distinct_ids = sort_dedup message_ids in
        if distinct_ids = [] then Ok ()
        else if list_ex (\<lambda>i. trim i = []) distinct_ids then Err (invalid_op ''a read receipt names an empty message id'')
        else (case op_targets P of
           None \<Rightarrow> Err (unavailable_op ''message operation authorization unavailable'')
         | Some targets \<Rightarrow>
             and_then (tr_conversations_of targets tenant_id distinct_ids) (\<lambda>located.
               if list_ex (\<lambda>i. case located i of None \<Rightarrow> False | Some c \<Rightarrow> c \<noteq> conversation_id) distinct_ids
               then Err (denied_op ''MESSAGE_OPERATION_CONVERSATION_MISMATCH'')
               else if list_ex (\<lambda>i. located i = None) distinct_ids then Err (unavailable_op ''message not stored yet'')
               else Ok ())))"

definition sat_sub_i64 :: "int \<Rightarrow> int \<Rightarrow> int" where
  "sat_sub_i64 a b = max i64_min (min i64_max (a - b))"

definition sender_within :: "'s operation_policy \<Rightarrow> operator \<Rightarrow> message \<Rightarrow> int \<Rightarrow> unit result" where
  "sender_within P opr m window_ms =
     (case opr of
        OpTrusted _ \<Rightarrow> Ok ()
      | OpUser user \<Rightarrow>
          if user \<noteq> m_sender_id m then Err (denied_op ''MESSAGE_OPERATION_NOT_SENDER'')
          else if m_created_at m \<le> 0 \<or> sat_sub_i64 (op_now_ms P) (m_created_at m) > window_ms
          then Err (denied_op ''MESSAGE_OPERATION_WINDOW_EXPIRED'') else Ok ()
      | _ \<Rightarrow> Err (denied_op ''MESSAGE_OPERATION_FORBIDDEN''))"

definition IDENTITY_ATTRIBUTES :: "string list" where
  "IDENTITY_ATTRIBUTES = [''user_id'', ''userId'', ''operator_id'', ''operatorId'', ''x-user-id'']"

text \<open>Events a user may send at all; for the others no membership is looked up.\<close>

definition member_checked :: "event_payload option \<Rightarrow> bool" where
  "member_checked p = (case p of
      None \<Rightarrow> False | Some (MessagePayload _) \<Rightarrow> False | Some (EvConversation _) \<Rightarrow> False | Some (EvConversationDelete _) \<Rightarrow> False
    | Some (EvRetentionScheduled _) \<Rightarrow> False | Some (EvRetentionExpired _) \<Rightarrow> False | Some (EvRetentionPurged _) \<Rightarrow> False
    | Some (PluginState _) \<Rightarrow> False | _ \<Rightarrow> True)"

definition DELETE_TYPE_HARD_PROTO :: int where "DELETE_TYPE_HARD_PROTO = 2"
definition DELETE_SCOPE_GLOBAL_PROTO :: int where "DELETE_SCOPE_GLOBAL_PROTO = 2"
definition STATUS_RECALLED_PROTO :: int where "STATUS_RECALLED_PROTO = 5"
definition STATUS_DELETED_PROTO :: int where "STATUS_DELETED_PROTO = 6"

definition authorize_recall :: "'s operation_policy \<Rightarrow> operator \<Rightarrow> string \<Rightarrow> string \<Rightarrow> recall_event \<Rightarrow> event_payload result" where
  "authorize_recall P opr t cv r =
     and_then (op_target P t cv (rce_server_msg_id r)) (\<lambda>m.
     and_then (sender_within P opr m RECALL_WINDOW_MS) (\<lambda>_.
       if is_trusted opr \<and> trim (rce_reason r) = [] then Err (denied_op ''MESSAGE_OPERATION_REASON_REQUIRED'')
       else Ok (EvRecall (r\<lparr>rce_time_limit_seconds := None, rce_allow_admin_recall := None\<rparr>))))"

definition authorize_edit :: "'s operation_policy \<Rightarrow> operator \<Rightarrow> string \<Rightarrow> string \<Rightarrow> edit_event \<Rightarrow> event_payload result" where
  "authorize_edit P opr t cv e =
     (if claims_plugin_card (ede_new_content e) then Err (denied_op ''PLUGIN_CARD_NOT_EDITABLE'')
      else if \<not> editable (op_quoted P) (ede_new_content e) then Err (denied_op ''MESSAGE_NOT_EDITABLE'')
      else and_then (op_target P t cv (ede_server_msg_id e)) (\<lambda>m.
        if message_claims_plugin_card m then Err (denied_op ''PLUGIN_CARD_NOT_EDITABLE'')
        else if \<not> editable (op_quoted P) (m_content m) \<or> m_status m = STATUS_RECALLED_PROTO \<or> m_status m = STATUS_DELETED_PROTO
        then Err (denied_op ''MESSAGE_NOT_EDITABLE'')
        else and_then (sender_within P opr m EDIT_WINDOW_MS) (\<lambda>_. Ok (EvEdit e))))"

definition authorize_delete :: "'s operation_policy \<Rightarrow> operator \<Rightarrow> string \<Rightarrow> string \<Rightarrow> delete_event \<Rightarrow> event_payload result" where
  "authorize_delete P opr t cv e =
     (let hard = (dle_delete_type e = Some DELETE_TYPE_HARD_PROTO);
          global = (case dle_scope e of Some scope \<Rightarrow> scope = DELETE_SCOPE_GLOBAL_PROTO | None \<Rightarrow> hard)
      in if hard \<and> \<not> is_trusted opr then Err (denied_op ''MESSAGE_OPERATION_FORBIDDEN'')
         else and_then (op_target P t cv (dle_server_msg_id e)) (\<lambda>m.
           if global then and_then (sender_within P opr m RECALL_WINDOW_MS) (\<lambda>_. Ok (EvDelete e))
           else and_then (bind_user (case dle_target_user_id e of None \<Rightarrow> [] | Some u \<Rightarrow> u) opr) (\<lambda>u.
             Ok (EvDelete (e\<lparr>dle_target_user_id := Some u\<rparr>)))))"

definition authorize_payload :: "'s operation_policy \<Rightarrow> operator \<Rightarrow> string \<Rightarrow> string \<Rightarrow> event_payload \<Rightarrow> event_payload result" where
  "authorize_payload P opr t cv p =
     (case p of
        EvRecall r \<Rightarrow> authorize_recall P opr t cv r
      | EvEdit e \<Rightarrow> authorize_edit P opr t cv e
      | EvDelete e \<Rightarrow> authorize_delete P opr t cv e
      | EvReaction e \<Rightarrow> and_then (bind_user (rxe_user_id e) opr) (\<lambda>u. and_then (op_target P t cv (rxe_server_msg_id e))
          (\<lambda>_. Ok (EvReaction (e\<lparr>rxe_user_id := u\<rparr>))))
      | EvPin e \<Rightarrow> and_then (bind_user (pne_pinned_by e) opr) (\<lambda>u. and_then (op_target P t cv (pne_server_msg_id e))
          (\<lambda>_. Ok (EvPin (e\<lparr>pne_pinned_by := u\<rparr>))))
      | EvUnpin e \<Rightarrow> and_then (bind_user (une_unpinned_by e) opr) (\<lambda>u. and_then (op_target P t cv (une_server_msg_id e))
          (\<lambda>_. Ok (EvUnpin (e\<lparr>une_unpinned_by := u\<rparr>))))
      | EvMark e \<Rightarrow> and_then (bind_user (mke_user_id e) opr) (\<lambda>u. and_then (op_target P t cv (mke_server_msg_id e))
          (\<lambda>_. Ok (EvMark (e\<lparr>mke_user_id := u\<rparr>))))
      | EvUnmark e \<Rightarrow> and_then (bind_user (ume_user_id e) opr) (\<lambda>u. and_then (op_target P t cv (ume_server_msg_id e))
          (\<lambda>_. Ok (EvUnmark (e\<lparr>ume_user_id := u\<rparr>))))
      | EvRead e \<Rightarrow> and_then (bind_user (rde_user_id e) opr) (\<lambda>u.
          if rde_conversation_id e \<noteq> [] \<and> rde_conversation_id e \<noteq> cv then Err (denied_op ''MESSAGE_OPERATION_CONVERSATION_MISMATCH'')
          else and_then (receipt_targets P t cv (rde_message_ids e)) (\<lambda>_. Ok (EvRead (e\<lparr>rde_user_id := u\<rparr>))))
      | EvCustom attributes bytes \<Rightarrow>
          (case opr of
             OpUser user \<Rightarrow>
               if list_ex (\<lambda>k. case attributes k of None \<Rightarrow> False | Some named \<Rightarrow> named \<noteq> user) IDENTITY_ATTRIBUTES
               then Err (denied_op ''MESSAGE_OPERATION_IDENTITY_MISMATCH'') else Ok p
           | _ \<Rightarrow> Ok p)
      | PluginState _ \<Rightarrow> Ok p
      | _ \<Rightarrow> if is_trusted opr then Ok p else Err (denied_op ''MESSAGE_OPERATION_FORBIDDEN''))"

definition authorize :: "'s operation_policy \<Rightarrow> op_caller \<Rightarrow> string \<Rightarrow> event \<Rightarrow> 's \<Rightarrow> event result \<times> 's" where
  "authorize P ca tenant_id e s =
     (let opr = operator_of (op_keys P) ca; cv = ev_conversation_id e in
      if ev_type e = EventMessagePluginState then (Ok e, s)
      else if opr \<in> {OpStatePublisher, OpNone} then (Err (denied_op ''MESSAGE_OPERATION_FORBIDDEN''), s)
      else (case (case opr of
               OpUser user \<Rightarrow> if member_checked (ev_payload e)
                 then require_member P tenant_id cv user (membership_read_of (ev_payload e)) s else (Ok (), s)
             | _ \<Rightarrow> (Ok (), s)) of
         (Inl err, s) \<Rightarrow> (Err err, s)
       | (Inr _, s) \<Rightarrow>
           (case ev_payload e of
              None \<Rightarrow> (Err (invalid_op ''the event carries no payload''), s)
            | Some p \<Rightarrow> (and_then (authorize_payload P opr tenant_id cv p) (\<lambda>p. Ok (e\<lparr>ev_payload := Some p\<rparr>)), s))))"

section \<open>The membership cache\<close>

text \<open>
  Answers are kept for \<open>ttl\<close> milliseconds; \<open>evicted\<close> are the entries the cache has dropped by itself since the last call.
\<close>

record 's membership_cache =
  mb_entries :: "(string \<times> string \<times> string) \<rightharpoonup> nat"
  mb_inner :: 's

definition MEMBER_CACHE_TTL :: nat where "MEMBER_CACHE_TTL = 30000"

definition cached_is_member :: "'s member_repo \<Rightarrow> nat \<Rightarrow> nat \<Rightarrow> (string \<times> string \<times> string \<Rightarrow> bool) \<Rightarrow> 's membership_cache member_repo" where
  "cached_is_member inner ttl now evicted tenant_id conversation_id user_id read c =
     (let k = (tenant_id, conversation_id, user_id);
          live = (\<lambda>k. case mb_entries c k of None \<Rightarrow> None | Some at \<Rightarrow> if now < at + ttl \<and> \<not> evicted k then Some at else None)
      in if read = Recent \<and> live k \<noteq> None then (Ok True, c\<lparr>mb_entries := live\<rparr>)
         else (case inner tenant_id conversation_id user_id read (mb_inner c) of
            (Inl e, s) \<Rightarrow> (Err e, \<lparr>mb_entries = live, mb_inner = s\<rparr>)
          | (Inr True, s) \<Rightarrow> (Ok True, \<lparr>mb_entries = live(k \<mapsto> now), mb_inner = s\<rparr>)
          | (Inr False, s) \<Rightarrow> (Ok False, \<lparr>mb_entries = live(k := None), mb_inner = s\<rparr>)))"

section \<open>What is admitted\<close>

text \<open>The user an event names, the messages it names, and whether it changes the message for everyone.\<close>

definition named_user :: "event_payload \<Rightarrow> string option" where
  "named_user p = (case p of
      EvReaction e \<Rightarrow> Some (rxe_user_id e) | EvPin e \<Rightarrow> Some (pne_pinned_by e) | EvUnpin e \<Rightarrow> Some (une_unpinned_by e)
    | EvMark e \<Rightarrow> Some (mke_user_id e) | EvUnmark e \<Rightarrow> Some (ume_user_id e) | EvRead e \<Rightarrow> Some (rde_user_id e)
    | EvDelete e \<Rightarrow> if dle_scope e = Some DELETE_SCOPE_GLOBAL_PROTO then None else Some (case dle_target_user_id e of None \<Rightarrow> [] | Some u \<Rightarrow> u)
    | _ \<Rightarrow> None)"

definition altered_message :: "event_payload \<Rightarrow> string option" where
  "altered_message p = (case p of
      EvRecall e \<Rightarrow> Some (rce_server_msg_id e) | EvEdit e \<Rightarrow> Some (ede_server_msg_id e)
    | EvDelete e \<Rightarrow> if dle_scope e = Some DELETE_SCOPE_GLOBAL_PROTO then Some (dle_server_msg_id e) else None
    | _ \<Rightarrow> None)"

definition named_message :: "event_payload \<Rightarrow> string option" where
  "named_message p = (case p of
      EvRecall e \<Rightarrow> Some (rce_server_msg_id e) | EvEdit e \<Rightarrow> Some (ede_server_msg_id e) | EvDelete e \<Rightarrow> Some (dle_server_msg_id e)
    | EvReaction e \<Rightarrow> Some (rxe_server_msg_id e) | EvPin e \<Rightarrow> Some (pne_server_msg_id e) | EvUnpin e \<Rightarrow> Some (une_server_msg_id e)
    | EvMark e \<Rightarrow> Some (mke_server_msg_id e) | EvUnmark e \<Rightarrow> Some (ume_server_msg_id e) | _ \<Rightarrow> None)"

text \<open>\<open>sent_recently P T t u i\<close>: the storage says that \<open>u\<close> sent the message \<open>i\<close> of the tenant less than a day ago.\<close>

definition sent_recently :: "'s operation_policy \<Rightarrow> target_repo \<Rightarrow> string \<Rightarrow> string \<Rightarrow> string \<Rightarrow> bool" where
  "sent_recently P T t u i \<longleftrightarrow> (case tr_message T t i of
      Inr (Some m) \<Rightarrow> m_server_id m = i \<and> m_sender_id m = u \<and> 0 < m_created_at m \<and> op_now_ms P - m_created_at m \<le> 86400000
    | _ \<Rightarrow> False)"

definition hard_delete :: "event_payload \<Rightarrow> bool" where
  "hard_delete p = (case p of EvDelete e \<Rightarrow> dle_delete_type e = Some DELETE_TYPE_HARD_PROTO | _ \<Rightarrow> False)"

definition trusted_only :: "event_payload \<Rightarrow> bool" where
  "trusted_only p = (case p of MessagePayload _ \<Rightarrow> True | EvConversation _ \<Rightarrow> True | EvConversationDelete _ \<Rightarrow> True
    | EvRetentionScheduled _ \<Rightarrow> True | EvRetentionExpired _ \<Rightarrow> True | EvRetentionPurged _ \<Rightarrow> True | _ \<Rightarrow> hard_delete p)"

lemma op_target_Ok:
  "op_target P t cv i = Ok m \<Longrightarrow> \<exists>T. op_targets P = Some T \<and> tr_message T t i = Ok (Some m) \<and> m_server_id m = i \<and> m_conversation_id m = cv"
  by (auto simp: op_target_def and_then_eq_Ok split: if_splits option.splits)

lemma bind_user_Ok: "bind_user f (OpUser u) = Ok v \<longleftrightarrow> v = u \<and> (f = [] \<or> f = u)"
  by (auto simp: bind_user_def)

lemma sender_within_Ok:
  assumes "sender_within P (OpUser u) m w = Ok ()" "w < i64_max"
  shows "m_sender_id m = u \<and> 0 < m_created_at m \<and> op_now_ms P - m_created_at m \<le> w"
  using assms by (auto simp: sender_within_def sat_sub_i64_def split: if_splits)

lemma sender_recently:
  assumes "op_target P t cv i = Ok m" "sender_within P (OpUser u) m 86400000 = Ok ()" "op_targets P = Some T"
  shows "sent_recently P T t u i"
  using op_target_Ok [OF assms(1)] sender_within_Ok [OF assms(2)] assms(3) by (auto simp: sent_recently_def)

lemma authorize_recall_user:
  assumes "authorize_recall P (OpUser u) t cv r = Ok p'"
  shows "\<exists>m r'. p' = EvRecall r' \<and> rce_server_msg_id r' = rce_server_msg_id r \<and> op_target P t cv (rce_server_msg_id r) = Ok m
     \<and> sender_within P (OpUser u) m 86400000 = Ok ()"
  using assms by (auto simp: authorize_recall_def and_then_eq_Ok RECALL_WINDOW_MS_def is_trusted_def)

lemma authorize_edit_user:
  assumes "authorize_edit P (OpUser u) t cv e = Ok p'"
  shows "p' = EvEdit e \<and> (\<exists>m. op_target P t cv (ede_server_msg_id e) = Ok m \<and> sender_within P (OpUser u) m 86400000 = Ok ())"
  using assms by (auto simp: authorize_edit_def and_then_eq_Ok EDIT_WINDOW_MS_def split: if_splits)

lemma authorize_delete_user:
  assumes "authorize_delete P (OpUser u) t cv e = Ok p'"
  obtains m e' where "p' = EvDelete e'" "dle_server_msg_id e' = dle_server_msg_id e" "op_target P t cv (dle_server_msg_id e) = Ok m"
    "dle_delete_type e' \<noteq> Some DELETE_TYPE_HARD_PROTO"
    "if dle_scope e' = Some DELETE_SCOPE_GLOBAL_PROTO then sender_within P (OpUser u) m 86400000 = Ok () else dle_target_user_id e' = Some u"
proof -
  have soft: "dle_delete_type e \<noteq> Some DELETE_TYPE_HARD_PROTO"
    using assms by (auto simp: authorize_delete_def is_trusted_def Let_def)
  have window: "RECALL_WINDOW_MS = 86400000" by (simp add: RECALL_WINDOW_MS_def)
  have global: "(case dle_scope e of None \<Rightarrow> dle_delete_type e = Some DELETE_TYPE_HARD_PROTO | Some scope \<Rightarrow> scope = DELETE_SCOPE_GLOBAL_PROTO)
      \<longleftrightarrow> dle_scope e = Some DELETE_SCOPE_GLOBAL_PROTO"
    using soft by (simp split: option.split)
  from assms soft obtain m where m: "op_target P t cv (dle_server_msg_id e) = Ok m"
    and r: "(if dle_scope e = Some DELETE_SCOPE_GLOBAL_PROTO then and_then (sender_within P (OpUser u) m 86400000) (\<lambda>_. Ok (EvDelete e))
       else and_then (bind_user (case dle_target_user_id e of None \<Rightarrow> [] | Some u \<Rightarrow> u) (OpUser u)) (\<lambda>u.
             Ok (EvDelete (e\<lparr>dle_target_user_id := Some u\<rparr>)))) = Ok p'"
    unfolding authorize_delete_def Let_def window global by (cases "op_target P t cv (dle_server_msg_id e)") simp_all
  show thesis
  proof (cases "dle_scope e = Some DELETE_SCOPE_GLOBAL_PROTO")
    case True
    with r show thesis by (intro that [OF _ _ m]) (auto simp: and_then_eq_Ok soft)
  next
    case False
    with r have p': "p' = EvDelete (e\<lparr>dle_target_user_id := Some u\<rparr>)" by (auto simp: and_then_eq_Ok bind_user_Ok)
    from False show thesis by (intro that [OF p' _ m]) (auto simp: soft)
  qed
qed

text \<open>What a read receipt and a custom event may name.\<close>

definition receipt_admitted :: "target_repo \<Rightarrow> string \<Rightarrow> string \<Rightarrow> event_payload \<Rightarrow> bool" where
  "receipt_admitted T t cv p \<longleftrightarrow> (\<forall>r. p = EvRead r \<longrightarrow> rde_conversation_id r \<in> {[], cv}
     \<and> length (rde_message_ids r) \<le> MAX_RECEIPT_MESSAGE_IDS
     \<and> (rde_message_ids r \<noteq> [] \<longrightarrow> (\<exists>located. tr_conversations_of T t (sort_dedup (rde_message_ids r)) = Ok located
          \<and> (\<forall>i \<in> set (rde_message_ids r). located i = Some cv))))"

definition custom_names :: "event_payload \<Rightarrow> string list" where
  "custom_names p = (case p of EvCustom attributes bytes \<Rightarrow> List.map_filter attributes IDENTITY_ATTRIBUTES | _ \<Rightarrow> [])"

lemma receipt_targets_Ok:
  assumes "receipt_targets P t cv ids = Ok ()" "op_targets P = Some T"
  shows "length ids \<le> MAX_RECEIPT_MESSAGE_IDS \<and> (ids \<noteq> [] \<longrightarrow> (\<exists>located. tr_conversations_of T t (sort_dedup ids) = Ok located
     \<and> (\<forall>i \<in> set ids. located i = Some cv)))"
proof (cases "ids = []")
  case False
  then have "sort_dedup ids \<noteq> []" using set_sort_dedup [of ids] by (metis set_empty)
  with assms obtain located where "length ids \<le> MAX_RECEIPT_MESSAGE_IDS" "tr_conversations_of T t (sort_dedup ids) = Ok located"
    "\<forall>i \<in> set (sort_dedup ids). located i \<noteq> None \<and> (\<forall>c. located i = Some c \<longrightarrow> c = cv)"
    by (auto simp: receipt_targets_def Let_def and_then_eq_Ok list_ex_iff split: if_split_asm option.splits)
  then show ?thesis by (fastforce simp: set_sort_dedup)
qed (use assms in \<open>simp add: receipt_targets_def\<close>)

lemma authorize_payload_names:
  assumes "authorize_payload P (OpUser u) t cv p = Ok p'" "op_targets P = Some T"
  shows "receipt_admitted T t cv p' \<and> set (custom_names p') \<subseteq> {u}"
proof (cases p)
  case (EvRead r)
  with assms(1) have "p' = EvRead (r\<lparr>rde_user_id := u\<rparr>)" "rde_conversation_id r \<in> {[], cv}"
    "receipt_targets P t cv (rde_message_ids r) = Ok ()"
    by (auto simp: authorize_payload_def and_then_eq_Ok bind_user_Ok split: if_splits)
  with receipt_targets_Ok [OF _ assms(2)] show ?thesis by (simp add: receipt_admitted_def custom_names_def)
next
  case (EvCustom attributes bytes)
  with assms(1) show ?thesis
    by (auto simp: authorize_payload_def receipt_admitted_def custom_names_def map_filter_def list_ex_iff
        split: if_split_asm option.splits)
qed (use assms(1) in \<open>auto simp: authorize_payload_def receipt_admitted_def custom_names_def is_trusted_def and_then_eq_Ok
      authorize_edit_def authorize_recall_def authorize_delete_def Let_def split: if_splits\<close>)

lemma authorize_payload_user:
  assumes "authorize_payload P (OpUser u) t cv p = Ok p'" "op_targets P = Some T"
  shows "(\<forall>v. named_user p' = Some v \<longrightarrow> v = u) \<and> (\<forall>i. altered_message p' = Some i \<longrightarrow> sent_recently P T t u i)
     \<and> (\<forall>i. named_message p' = Some i \<longrightarrow> (\<exists>m. tr_message T t i = Ok (Some m) \<and> m_server_id m = i \<and> m_conversation_id m = cv))
     \<and> \<not> trusted_only p'"
proof -
  note defs = named_user_def altered_message_def named_message_def trusted_only_def hard_delete_def
  have found: "\<exists>m. tr_message T t i = Ok (Some m) \<and> m_server_id m = i \<and> m_conversation_id m = cv" if "op_target P t cv i = Ok m" for i m
    using op_target_Ok [OF that] assms(2) by auto
  note recent = sender_recently [OF _ _ assms(2)]
  show ?thesis
  proof (cases p)
    case (EvRecall r)
    with assms(1) have "authorize_recall P (OpUser u) t cv r = Ok p'" by (simp add: authorize_payload_def)
    from authorize_recall_user [OF this] obtain m r' where "p' = EvRecall r'" "rce_server_msg_id r' = rce_server_msg_id r"
      "op_target P t cv (rce_server_msg_id r) = Ok m" "sender_within P (OpUser u) m 86400000 = Ok ()" by blast
    with found recent show ?thesis by (simp add: defs)
  next
    case (EvEdit e)
    with assms(1) have "authorize_edit P (OpUser u) t cv e = Ok p'" by (simp add: authorize_payload_def)
    from authorize_edit_user [OF this] obtain m where "p' = EvEdit e" "op_target P t cv (ede_server_msg_id e) = Ok m"
      "sender_within P (OpUser u) m 86400000 = Ok ()" by blast
    with found recent show ?thesis by (simp add: defs)
  next
    case (EvDelete e)
    with assms(1) have "authorize_delete P (OpUser u) t cv e = Ok p'" by (simp add: authorize_payload_def)
    from authorize_delete_user [OF this] obtain m e' where "p' = EvDelete e'" "dle_server_msg_id e' = dle_server_msg_id e"
      "op_target P t cv (dle_server_msg_id e) = Ok m" "dle_delete_type e' \<noteq> Some DELETE_TYPE_HARD_PROTO"
      "if dle_scope e' = Some DELETE_SCOPE_GLOBAL_PROTO then sender_within P (OpUser u) m 86400000 = Ok () else dle_target_user_id e' = Some u" .
    with found recent show ?thesis by (simp add: defs split: if_splits)
  qed (use assms(1) found in \<open>auto simp: authorize_payload_def defs is_trusted_def and_then_eq_Ok bind_user_Ok split: if_splits\<close>)
qed

lemma authorize_user:
  assumes "authorize P ca t e s = (Ok e', s')" "operator_of (op_keys P) ca = OpUser u" "ev_type e \<noteq> EventMessagePluginState"
  obtains p p' where "ev_payload e = Some p" "e' = e\<lparr>ev_payload := Some p'\<rparr>"
    "authorize_payload P (OpUser u) t (ev_conversation_id e) p = Ok p'"
    "member_checked (Some p) \<longrightarrow> require_member P t (ev_conversation_id e) u (membership_read_of (Some p)) s = (Ok (), s')"
proof -
  obtain r s1 where m: "(if member_checked (ev_payload e) then require_member P t (ev_conversation_id e) u (membership_read_of (ev_payload e)) s
      else (Ok (), s)) = (r, s1)" by fastforce
  have auth: "(case r of Inl err \<Rightarrow> (Err err, s1) | Inr _ \<Rightarrow> (case ev_payload e of
        None \<Rightarrow> (Err (invalid_op ''the event carries no payload''), s1)
      | Some p \<Rightarrow> (and_then (authorize_payload P (OpUser u) t (ev_conversation_id e) p) (\<lambda>p. Ok (e\<lparr>ev_payload := Some p\<rparr>)), s1)))
      = (Ok e', s')"
    using assms m by (simp add: authorize_def Let_def cong: if_cong split: sum.splits)
  then have "r = Ok ()" "s1 = s'" by (auto split: sum.splits option.splits)
  with auth obtain p where p: "ev_payload e = Some p"
    "and_then (authorize_payload P (OpUser u) t (ev_conversation_id e) p) (\<lambda>p. Ok (e\<lparr>ev_payload := Some p\<rparr>)) = Ok e'"
    by (auto split: option.splits)
  with m \<open>r = Ok ()\<close> \<open>s1 = s'\<close> that show thesis by (auto simp: and_then_eq_Ok split: if_splits)
qed

lemma require_member_Ok:
  "require_member P t cv u read s = (Ok (), s') \<longleftrightarrow> (\<exists>is_member. op_members P = Some is_member \<and> is_member t cv u read s = (Ok True, s'))"
  by (auto simp: require_member_def split: option.splits prod.splits sum.splits bool.splits)

text \<open>
  C20: what a user may do. An event of a user that the policy lets through, plugin states apart (they have a policy of their own), names
  that user wherever it names one (in its fields, or in the identity attributes of a custom event), acts on stored messages of its own
  conversation, recalls, edits or deletes for everyone only a message the user sent less than a day ago, and is none of the events reserved
  for trusted services; a read receipt names at most 50 messages, each found stored in the conversation of the event; and the user was
  found to be a member of the conversation.
\<close>

theorem user_acts_as_self:
  assumes "authorize P ca t e s = (Ok e', s')" and "operator_of (op_keys P) ca = OpUser u" and "ev_type e \<noteq> EventMessagePluginState"
    and "\<And>x. ev_payload e \<noteq> Some (PluginState x)" and "op_targets P = Some T"
  shows "\<exists>p. ev_payload e' = Some p \<and> \<not> trusted_only p
     \<and> (\<exists>is_member. op_members P = Some is_member \<and> is_member t (ev_conversation_id e) u (membership_read_of (ev_payload e)) s = (Ok True, s'))
     \<and> (\<forall>v. named_user p = Some v \<longrightarrow> v = u)
     \<and> (\<forall>i. altered_message p = Some i \<longrightarrow> sent_recently P T t u i)
     \<and> (\<forall>i. named_message p = Some i \<longrightarrow>
          (\<exists>m. tr_message T t i = Ok (Some m) \<and> m_server_id m = i \<and> m_conversation_id m = ev_conversation_id e))
     \<and> (\<forall>r. p = EvRead r \<longrightarrow> rde_conversation_id r \<in> {[], ev_conversation_id e} \<and> length (rde_message_ids r) \<le> 50
          \<and> (rde_message_ids r \<noteq> [] \<longrightarrow> (\<exists>located. tr_conversations_of T t (sort_dedup (rde_message_ids r)) = Ok located
               \<and> (\<forall>i \<in> set (rde_message_ids r). located i = Some (ev_conversation_id e)))))
     \<and> set (custom_names p) \<subseteq> {u}"
proof -
  obtain p p' where p: "ev_payload e = Some p" "e' = e\<lparr>ev_payload := Some p'\<rparr>"
    "authorize_payload P (OpUser u) t (ev_conversation_id e) p = Ok p'"
    "member_checked (Some p) \<longrightarrow> require_member P t (ev_conversation_id e) u (membership_read_of (Some p)) s = (Ok (), s')"
    by (rule authorize_user [OF assms(1-3)])
  note facts = authorize_payload_user [OF p(3) assms(5)]
  have "member_checked (Some p)"
    using p(1,3) assms(4) by (cases p) (auto simp: member_checked_def authorize_payload_def is_trusted_def)
  with p(4) have "\<exists>is_member. op_members P = Some is_member
      \<and> is_member t (ev_conversation_id e) u (membership_read_of (ev_payload e)) s = (Ok True, s')"
    by (auto simp: require_member_Ok p(1))
  with facts authorize_payload_names [OF p(3) assms(5)] p(2) show ?thesis
    by (simp add: receipt_admitted_def MAX_RECEIPT_MESSAGE_IDS_def)
qed

definition example_policy :: "unit operation_policy" where
  "example_policy = \<lparr>op_keys = example_keys,
     op_targets = Some \<lparr>tr_message = (\<lambda>_ i. Ok (if i = ''m1'' then Some (default_message\<lparr>m_server_id := ''m1'', m_conversation_id := ''2-g'',
         m_sender_id := ''alice'', m_created_at := 1000, m_content := Some (Some (Text ''hi''))\<rparr>) else None)),
       tr_conversations_of = (\<lambda>_ ids. Ok [''m1'' \<mapsto> ''2-g''])\<rparr>,
     op_members = Some (\<lambda>_ _ u _ s. (Ok (u \<in> {''alice'', ''bob''}), s)), op_now_ms = 5000, op_quoted = (\<lambda>_. None)\<rparr>"

definition example_user :: "string \<Rightarrow> op_caller" where
  "example_user u = \<lparr>ca_claims = Some \<lparr>cl_actor_type = ActorUser, cl_actor_id = u, cl_tenant_id = ''t1'', cl_roles = [], cl_credential_id = None,
     cl_request_id = ''r1'', cl_kid = ''cell''\<rparr>, ca_user_id = None, ca_actor = None\<rparr>"

definition example_op :: "event_type \<Rightarrow> event_payload \<Rightarrow> event" where
  "example_op ty p = \<lparr>ev_type = ty, ev_event_id = ''e1'', ev_conversation_id = ''2-g'', ev_conversation_seq = 0, ev_created_at = 5000,
     ev_request_id = None, ev_payload = Some p\<rparr>"

definition example_recall_event :: recall_event where
  "example_recall_event = \<lparr>rce_server_msg_id = ''m1'', rce_reason = [], rce_time_limit_seconds = Some 9, rce_allow_admin_recall = Some True\<rparr>"

theorem user_acts_as_self_witness:
  "\<exists>e' p. authorize example_policy (example_user ''alice'') ''t1'' (example_op EventMessageRecall (EvRecall example_recall_event)) () = (Ok e', ())
     \<and> ev_payload e' = Some p \<and> \<not> trusted_only p
     \<and> fst (authorize example_policy (example_user ''bob'') ''t1'' (example_op EventMessageRecall (EvRecall example_recall_event)) ())
         = Err (denied_op ''MESSAGE_OPERATION_NOT_SENDER'')"
proof -
  let ?e = "example_op EventMessageRecall (EvRecall example_recall_event)"
  have "case fst (authorize example_policy (example_user ''alice'') ''t1'' ?e ()) of Inr _ \<Rightarrow> True | Inl _ \<Rightarrow> False" by code_simp
  then obtain e' where "fst (authorize example_policy (example_user ''alice'') ''t1'' ?e ()) = Ok e'" by (auto split: sum.splits)
  then have a: "authorize example_policy (example_user ''alice'') ''t1'' ?e () = (Ok e', ())" by (simp add: prod_eq_iff)
  have "case fst (authorize example_policy (example_user ''bob'') ''t1'' ?e ()) of
      Inl err \<Rightarrow> err = denied_op ''MESSAGE_OPERATION_NOT_SENDER'' | Inr _ \<Rightarrow> False" by code_simp
  then have bob: "fst (authorize example_policy (example_user ''bob'') ''t1'' ?e ()) = Err (denied_op ''MESSAGE_OPERATION_NOT_SENDER'')"
    by (auto split: sum.splits)
  have "operator_of (op_keys example_policy) (example_user ''alice'') = OpUser ''alice''" by code_simp
  moreover have "ev_type ?e \<noteq> EventMessagePluginState" "ev_payload ?e \<noteq> Some (PluginState x)" for x by (simp_all add: example_op_def)
  moreover obtain T where "op_targets example_policy = Some T" by (simp add: example_policy_def)
  ultimately show ?thesis using user_acts_as_self [OF a] a bob by blast
qed

section \<open>How old a membership answer may be\<close>

text \<open>A call of the cache: the time, what it dropped by itself, the user asked for, and how recent the answer has to be.\<close>

record membership_call =
  mb_now :: nat
  mb_evicted :: "string \<times> string \<times> string \<Rightarrow> bool"
  mb_key :: "string \<times> string \<times> string"
  mb_read :: membership_read

text \<open>\<open>answer\<close> is what the conversation service says at each moment.\<close>

definition asked :: "(nat \<Rightarrow> string \<times> string \<times> string \<Rightarrow> bool result) \<Rightarrow> nat \<Rightarrow> membership_call \<Rightarrow> unit membership_cache \<Rightarrow> bool result \<times> unit membership_cache" where
  "asked answer ttl q c = (case mb_key q of (t, cv, u) \<Rightarrow>
     cached_is_member (\<lambda>t cv u _ s. (answer (mb_now q) (t, cv, u), s)) ttl (mb_now q) (mb_evicted q) t cv u (mb_read q) c)"

fun asked_all :: "(nat \<Rightarrow> string \<times> string \<times> string \<Rightarrow> bool result) \<Rightarrow> nat \<Rightarrow> membership_call list \<Rightarrow> unit membership_cache \<Rightarrow>
     bool result list \<times> unit membership_cache" where
  "asked_all answer ttl [] c = ([], c)"
| "asked_all answer ttl (q # qs) c =
     (case asked answer ttl q c of (r, c) \<Rightarrow> (case asked_all answer ttl qs c of (rs, c) \<Rightarrow> (r # rs, c)))"

definition confirmed :: "(nat \<Rightarrow> string \<times> string \<times> string \<Rightarrow> bool result) \<Rightarrow> nat \<Rightarrow> unit membership_cache \<Rightarrow> bool" where
  "confirmed answer now c \<longleftrightarrow> (\<forall>k at. mb_entries c k = Some at \<longrightarrow> at \<le> now \<and> answer at k = Ok True)"

lemma asked_confirmed:
  assumes "asked answer ttl q c = (r, c')" "confirmed answer now c" "now \<le> mb_now q"
  shows "confirmed answer (mb_now q) c'"
    and "mb_read q = Current \<Longrightarrow> r = answer (mb_now q) (mb_key q)"
    and "r = Ok True \<Longrightarrow> \<exists>at. at \<le> mb_now q \<and> mb_now q \<le> at + ttl \<and> answer at (mb_key q) = Ok True"
proof -
  obtain t cv u where k: "mb_key q = (t, cv, u)" by (cases "mb_key q") auto
  let ?live = "\<lambda>k. case mb_entries c k of None \<Rightarrow> None | Some at \<Rightarrow> if mb_now q < at + ttl \<and> \<not> mb_evicted q k then Some at else None"
  have live: "at \<le> mb_now q \<and> answer at k = Ok True \<and> mb_now q < at + ttl" if "?live k = Some at" for k at
  proof -
    have e: "mb_entries c k = Some at" "mb_now q < at + ttl" using that by (auto split: option.splits if_splits)
    with assms(2) have "at \<le> now \<and> answer at k = Ok True" unfolding confirmed_def by blast
    with e assms(3) show ?thesis by simp
  qed
  have step: "(if mb_read q = Recent \<and> ?live (t, cv, u) \<noteq> None then (Ok True, c\<lparr>mb_entries := ?live\<rparr>)
      else (case answer (mb_now q) (t, cv, u) of
          Inl e \<Rightarrow> (Err e, \<lparr>mb_entries = ?live, mb_inner = mb_inner c\<rparr>)
        | Inr True \<Rightarrow> (Ok True, \<lparr>mb_entries = ?live((t, cv, u) \<mapsto> mb_now q), mb_inner = mb_inner c\<rparr>)
        | Inr False \<Rightarrow> (Ok False, \<lparr>mb_entries = ?live((t, cv, u) := None), mb_inner = mb_inner c\<rparr>))) = (r, c')"
    using assms(1) by (simp only: asked_def cached_is_member_def Let_def k prod.case)
  have c': "mb_entries c' k' = Some at \<Longrightarrow> ?live k' = Some at \<or> at = mb_now q \<and> answer at k' = Ok True" for k' at
    using step by (auto split: if_splits sum.splits bool.splits)
  show "confirmed answer (mb_now q) c'" using c' live unfolding confirmed_def by blast
  show "r = answer (mb_now q) (mb_key q)" if "mb_read q = Current"
    using step that k by (auto split: sum.splits bool.splits)
  show "\<exists>at. at \<le> mb_now q \<and> mb_now q \<le> at + ttl \<and> answer at (mb_key q) = Ok True" if "r = Ok True"
  proof (cases "?live (t, cv, u)")
    case (Some at)
    with live [OF Some] k show ?thesis by (intro exI [of _ at]) simp
  next
    case None
    with step that k have "answer (mb_now q) (mb_key q) = Ok True" by (auto split: sum.splits bool.splits)
    then show ?thesis by (intro exI [of _ "mb_now q"]) simp
  qed
qed

text \<open>
  How long a removed member can go on. In any sequence of membership questions in the order of time, whatever the cache
  drops, a "member" answer was given by the conversation service at most the cache lifetime before, and a question that
  asks for a current answer is always answered by the service itself.
\<close>

theorem membership_answers_fresh:
  assumes "asked_all answer ttl qs \<lparr>mb_entries = Map.empty, mb_inner = ()\<rparr> = (rs, c)" and "sorted (map mb_now qs)" and "i < length qs"
  shows "(mb_read (qs ! i) = Current \<longrightarrow> rs ! i = answer (mb_now (qs ! i)) (mb_key (qs ! i)))
     \<and> (rs ! i = Ok True \<longrightarrow> (\<exists>at \<le> mb_now (qs ! i). mb_now (qs ! i) \<le> at + ttl \<and> answer at (mb_key (qs ! i)) = Ok True))"
proof -
  have "(mb_read (qs ! i) = Current \<longrightarrow> rs ! i = answer (mb_now (qs ! i)) (mb_key (qs ! i)))
     \<and> (rs ! i = Ok True \<longrightarrow> (\<exists>at \<le> mb_now (qs ! i). mb_now (qs ! i) \<le> at + ttl \<and> answer at (mb_key (qs ! i)) = Ok True))"
    if "asked_all answer ttl qs c0 = (rs, c)" "sorted (map mb_now qs)" "i < length qs" "confirmed answer now c0" "\<forall>q \<in> set qs. now \<le> mb_now q"
    for qs c0 rs c i now
    using that
  proof (induction qs arbitrary: c0 rs i now)
    case (Cons q qs)
    obtain r c1 where q: "asked answer ttl q c0 = (r, c1)" by fastforce
    obtain rs' where rs': "asked_all answer ttl qs c1 = (rs', c)" "rs = r # rs'" using Cons.prems(1) q by (auto split: prod.splits)
    note first = asked_confirmed [OF q Cons.prems(4)]
    show ?case
    proof (cases i)
      case 0
      with first rs' Cons.prems(5) show ?thesis by auto
    next
      case (Suc j)
      with Cons.IH [OF rs'(1), of j "mb_now q"] Cons.prems rs' first(1) show ?thesis by auto
    qed
  qed simp
  moreover have "confirmed answer 0 \<lparr>mb_entries = Map.empty, mb_inner = ()\<rparr>" by (simp add: confirmed_def)
  ultimately show ?thesis using assms by blast
qed

theorem membership_answers_fresh_witness:
  "\<exists>rs c. asked_all (\<lambda>now _. Ok (now < 10)) 30 [\<lparr>mb_now = 5, mb_evicted = (\<lambda>_. False), mb_key = (''t'', ''g'', ''alice''), mb_read = Recent\<rparr>,
      \<lparr>mb_now = 20, mb_evicted = (\<lambda>_. False), mb_key = (''t'', ''g'', ''alice''), mb_read = Recent\<rparr>,
      \<lparr>mb_now = 21, mb_evicted = (\<lambda>_. False), mb_key = (''t'', ''g'', ''alice''), mb_read = Current\<rparr>,
      \<lparr>mb_now = 22, mb_evicted = (\<lambda>_. False), mb_key = (''t'', ''g'', ''alice''), mb_read = Recent\<rparr>]
      \<lparr>mb_entries = Map.empty, mb_inner = ()\<rparr> = (rs, c) \<and> rs = [Ok True, Ok True, Ok False, Ok False]
      \<and> (\<exists>at \<le> 20. 20 \<le> at + 30 \<and> at < (10::nat))"
proof -
  let ?answer = "\<lambda>now k. Ok (now < 10)"
  let ?qs = "[\<lparr>mb_now = 5, mb_evicted = (\<lambda>_. False), mb_key = (''t'', ''g'', ''alice''), mb_read = Recent\<rparr>,
      \<lparr>mb_now = 20, mb_evicted = (\<lambda>_. False), mb_key = (''t'', ''g'', ''alice''), mb_read = Recent\<rparr>,
      \<lparr>mb_now = 21, mb_evicted = (\<lambda>_. False), mb_key = (''t'', ''g'', ''alice''), mb_read = Current\<rparr>,
      \<lparr>mb_now = 22, mb_evicted = (\<lambda>_. False), mb_key = (''t'', ''g'', ''alice''), mb_read = Recent\<rparr>]"
  have v: "fst (asked_all ?answer 30 ?qs \<lparr>mb_entries = Map.empty, mb_inner = ()\<rparr>) = [Ok True, Ok True, Ok False, Ok False]" by code_simp
  then obtain c where c: "asked_all ?answer 30 ?qs \<lparr>mb_entries = Map.empty, mb_inner = ()\<rparr> = ([Ok True, Ok True, Ok False, Ok False], c)"
    by (metis prod.collapse)
  have "\<exists>at \<le> 20. 20 \<le> at + 30 \<and> at < (10::nat)" using membership_answers_fresh [OF c, of 1] by simp
  with c show ?thesis by blast
qed

end
