(* ===== verification/Event_Handler.thy ===== *)
theory Event_Handler
  imports Read_Watermark Operation_Policy Message_Fanout
begin

text \<open>
  The submission of an event: \<^verbatim>\<open>flare-orchestrator/src/application/handlers/event_handler.rs\<close> over the validation, admission,
  sequencing and publication of \<^verbatim>\<open>domain/service/event_domain_service.rs\<close>. The allocator, the member lookup and the watermark
  repository are fields of the service.
\<close>

section \<open>The service\<close>

record ('sk, 'vk, 'sig, 'q, 'a, 'k, 's) event_service =
  evs_repo :: "('sk, 'vk, 'sig, 'q) push_repo"
  evs_members_of :: "mq_ctx \<Rightarrow> string \<Rightarrow> string list result"
  evs_allocate :: "string \<Rightarrow> string \<Rightarrow> 'a \<Rightarrow> nat result \<times> 'a"
  evs_validation :: "event strategy"
  evs_watermark :: "'k read_watermark_repo option"
  evs_policy :: "'s operation_policy"

record ('q, 'a, 'k, 's) event_world =
  evw_mq :: "'q mq_world"
  evw_seq :: 'a
  evw_marks :: 'k
  evw_members :: 's

text \<open>The claim on a read position, and the decision whether an event earns a sequence number.\<close>

record read_claim =
  rcl_conversation_id :: string
  rcl_user_id :: string
  rcl_read_seq :: nat
  rcl_previous :: nat

datatype event_admission = Admit "read_claim option" | StaleReadReceipt nat nat

definition validate_event :: "('sk, 'vk, 'sig, 'q, 'a, 'k, 's) event_service \<Rightarrow> mq_ctx \<Rightarrow> string \<Rightarrow> event \<Rightarrow> unit result" where
  "validate_event S ctx tenant_id e =
     (case evs_validation S \<lparr>vc_claims = mx_claims ctx, vc_tenant_id = tenant_id, vc_conversation_id = ev_conversation_id e\<rparr> e of
        Inl err \<Rightarrow> Err (FlareError InvalidParameter (''Event validation failed: '' @ err_msg err))
      | Inr r \<Rightarrow> if vr_is_valid r then Ok () else Err (FlareError InvalidParameter ''Event validation failed''))"

definition cursor_read_receipt :: "event \<Rightarrow> (string \<times> nat) option" where
  "cursor_read_receipt e =
     (if ev_type e \<noteq> EventReadReceipt then None
      else (case ev_payload e of
         Some (EvRead read) \<Rightarrow>
           let user_id = trim (rde_user_id read) in
           if user_id = [] \<or> rde_read_seq read = 0 \<or> rde_message_ids read \<noteq> [] then None
           else Some (user_id, rde_read_seq read)
       | _ \<Rightarrow> None))"

definition admit_event :: "('sk, 'vk, 'sig, 'q, 'a, 'k, 's) event_service \<Rightarrow> string \<Rightarrow> event \<Rightarrow> 'k \<Rightarrow> event_admission \<times> 'k" where
  "admit_event S tenant_id e k =
     (case (evs_watermark S, cursor_read_receipt e) of
        (Some W, Some (user_id, read_seq)) \<Rightarrow>
          (case wm_advance W tenant_id (ev_conversation_id e) user_id read_seq k of
             (Inr (Advanced previous), k) \<Rightarrow>
               (Admit (Some \<lparr>rcl_conversation_id = ev_conversation_id e, rcl_user_id = user_id, rcl_read_seq = read_seq,
                  rcl_previous = previous\<rparr>), k)
           | (Inr (NotAdvanced current), k) \<Rightarrow> (StaleReadReceipt read_seq current, k)
           | (Inl err, k) \<Rightarrow> (Admit None, k))
      | _ \<Rightarrow> (Admit None, k))"

definition release_read_claim :: "('sk, 'vk, 'sig, 'q, 'a, 'k, 's) event_service \<Rightarrow> string \<Rightarrow> read_claim \<Rightarrow> 'k \<Rightarrow> 'k" where
  "release_read_claim S tenant_id claim k =
     (case evs_watermark S of
        None \<Rightarrow> k
      | Some W \<Rightarrow> snd (wm_rollback W tenant_id (rcl_conversation_id claim) (rcl_user_id claim) (rcl_read_seq claim) (rcl_previous claim) k))"

definition allocate_event_seq :: "('sk, 'vk, 'sig, 'q, 'a, 'k, 's) event_service \<Rightarrow> string \<Rightarrow> event \<Rightarrow> 'a \<Rightarrow> event result \<times> 'a" where
  "allocate_event_seq S tenant_id e a =
     (case evs_allocate S (ev_conversation_id e) tenant_id a of
        (Inl err, a) \<Rightarrow> (Err (FlareError InternalError (''allocate seq failed for conversation_id='' @ ev_conversation_id e @ '': '' @ err_msg err)), a)
      | (Inr seq, a) \<Rightarrow> (Ok (e\<lparr>ev_conversation_seq := seq\<rparr>), a))"

definition event_recipients :: "('sk, 'vk, 'sig, 'q, 'a, 'k, 's) event_service \<Rightarrow> mq_ctx \<Rightarrow> event \<Rightarrow> string list result" where
  "event_recipients S ctx e =
     (if is_member_based_conversation (ev_conversation_id e) then Ok []
      else (case evs_members_of S ctx (ev_conversation_id e) of
         Inl err \<Rightarrow> Err (FlareError InternalError (''Failed to get conversation members for event: '' @ err_msg err))
       | Inr members \<Rightarrow>
           Ok (case (ev_type e, ev_payload e) of
                 (EventReadReceipt, Some (EvRead r)) \<Rightarrow> filter (\<lambda>u. u \<noteq> rde_user_id r) members
               | _ \<Rightarrow> members)))"

definition event_push_only :: "('sk, 'vk, 'sig, 'q, 'a, 'k, 's) event_service \<Rightarrow> mq_call \<Rightarrow> mq_ctx \<Rightarrow> event \<Rightarrow> 'q mq_world \<Rightarrow>
     unit result \<times> 'q mq_world" where
  "event_push_only S c ctx e q =
     (case event_recipients S ctx e of
        Inl err \<Rightarrow> (Err err, q)
      | Inr recipients \<Rightarrow> push_only_event (evs_repo S) c ctx e recipients (ev_conversation_id e) q)"

text \<open>No event type counts as temporary.\<close>

definition is_temporary_event :: "event_type \<Rightarrow> bool" where "is_temporary_event t = False"

definition push_event :: "('sk, 'vk, 'sig, 'q, 'a, 'k, 's) event_service \<Rightarrow> mq_call \<Rightarrow> mq_ctx \<Rightarrow> event \<Rightarrow> persistence_mode \<Rightarrow> 'q mq_world \<Rightarrow>
     unit result \<times> 'q mq_world" where
  "push_event S c ctx e mode q =
     (if should_push_only mode (is_temporary_event (ev_type e)) then event_push_only S c ctx e q
      else (case event_recipients S ctx e of
         Inl err \<Rightarrow> (Err err, q)
       | Inr recipients \<Rightarrow> publish_event (evs_repo S) c ctx e recipients (ev_conversation_id e) q))"

section \<open>The handler\<close>

definition event_tenant :: "mq_ctx \<Rightarrow> string result" where
  "event_tenant ctx =
     (case normalize_optional_tenant_id (mx_tenant_id ctx) of
        None \<Rightarrow> Err (FlareError InvalidParameter ''tenant required to handle a message event'')
      | Some t \<Rightarrow> Ok t)"

definition allocate_and_push :: "('sk, 'vk, 'sig, 'q, 'a, 'k, 's) event_service \<Rightarrow> mq_call \<Rightarrow> mq_ctx \<Rightarrow> string \<Rightarrow> event \<Rightarrow>
     ('q, 'a, 'k, 's) event_world \<Rightarrow> event result \<times> ('q, 'a, 'k, 's) event_world" where
  "allocate_and_push S c ctx tenant_id e w =
     (case allocate_event_seq S tenant_id e (evw_seq w) of
        (Inl err, a) \<Rightarrow> (Err err, w\<lparr>evw_seq := a\<rparr>)
      | (Inr e, a) \<Rightarrow>
          (case push_event S c ctx e Auto (evw_mq w) of
             (Inl err, q) \<Rightarrow> (Err err, w\<lparr>evw_seq := a, evw_mq := q\<rparr>)
           | (Inr _, q) \<Rightarrow> (Ok e, w\<lparr>evw_seq := a, evw_mq := q\<rparr>)))"

text \<open>The caller of a context: its verified claims, its user header and, given apart, its actor header.\<close>

definition caller_of :: "mq_ctx \<Rightarrow> (bool \<times> string) option \<Rightarrow> op_caller" where
  "caller_of ctx actor = \<lparr>ca_claims = mx_claims ctx, ca_user_id = mx_user_id ctx, ca_actor = actor\<rparr>"

definition authorized_event :: "('sk, 'vk, 'sig, 'q, 'a, 'k, 's) event_service \<Rightarrow> mq_ctx \<Rightarrow> (bool \<times> string) option \<Rightarrow> string \<Rightarrow> event \<Rightarrow> bool \<Rightarrow>
     's \<Rightarrow> event result \<times> 's" where
  "authorized_event S ctx actor tenant_id e auth s =
     (if auth then authorize (evs_policy S) (caller_of ctx actor) tenant_id e s else (Ok e, s))"

definition handle_general_event :: "('sk, 'vk, 'sig, 'q, 'a, 'k, 's) event_service \<Rightarrow> mq_call \<Rightarrow> mq_ctx \<Rightarrow> (bool \<times> string) option \<Rightarrow> string \<Rightarrow>
     event \<Rightarrow> bool \<Rightarrow> ('q, 'a, 'k, 's) event_world \<Rightarrow> unit result \<times> ('q, 'a, 'k, 's) event_world" where
  "handle_general_event S c ctx actor tenant_id e auth w =
     (case validate_event S ctx tenant_id e of
        Inl err \<Rightarrow> (Err err, w)
      | Inr _ \<Rightarrow>
          (case authorized_event S ctx actor tenant_id e auth (evw_members w) of
             (Inl err, s) \<Rightarrow> (Err err, w\<lparr>evw_members := s\<rparr>)
           | (Inr e, s) \<Rightarrow>
               (case admit_event S tenant_id e (evw_marks w) of
                  (StaleReadReceipt _ _, k) \<Rightarrow> (Ok (), w\<lparr>evw_members := s, evw_marks := k\<rparr>)
                | (Admit claim, k) \<Rightarrow>
                    (case allocate_and_push S c ctx tenant_id e (w\<lparr>evw_members := s, evw_marks := k\<rparr>) of
                       (Inr _, w) \<Rightarrow> (Ok (), w)
                     | (Inl err, w) \<Rightarrow>
                         (Err err, (case claim of None \<Rightarrow> w
                            | Some cl \<Rightarrow> w\<lparr>evw_marks := release_read_claim S tenant_id cl (evw_marks w)\<rparr>))))))"

definition handle_event :: "('sk, 'vk, 'sig, 'q, 'a, 'k, 's) event_service \<Rightarrow> mq_call \<Rightarrow> mq_ctx \<Rightarrow> (bool \<times> string) option \<Rightarrow> event \<Rightarrow>
     ('q, 'a, 'k, 's) event_world \<Rightarrow> unit result \<times> ('q, 'a, 'k, 's) event_world" where
  "handle_event S c ctx actor e w =
     (case event_tenant ctx of Inl err \<Rightarrow> (Err err, w) | Inr t \<Rightarrow> handle_general_event S c ctx actor t e True w)"

definition handle_system_event :: "('sk, 'vk, 'sig, 'q, 'a, 'k, 's) event_service \<Rightarrow> mq_call \<Rightarrow> mq_ctx \<Rightarrow> event \<Rightarrow>
     ('q, 'a, 'k, 's) event_world \<Rightarrow> unit result \<times> ('q, 'a, 'k, 's) event_world" where
  "handle_system_event S c ctx e w =
     (case event_tenant ctx of Inl err \<Rightarrow> (Err err, w) | Inr t \<Rightarrow> handle_general_event S c ctx None t e False w)"

section \<open>What a call publishes\<close>

definition event_carries :: "string \<Rightarrow> event \<Rightarrow> mq_record \<Rightarrow> bool" where
  "event_carries t e rec \<longleftrightarrow> (\<exists>mq. mr_body rec = BodyMq mq \<and> mr_headers rec = me_headers mq \<and> me_headers mq ''x-tenant-id'' = Some t
     \<and> me_payload mq = Some (PayEvent e) \<and> me_payload_kind mq = KindEvent)"

definition main_event_record :: "string \<Rightarrow> event \<Rightarrow> mq_record \<Rightarrow> bool" where
  "main_event_record t e rec \<longleftrightarrow> mr_topic rec = TOPIC_MESSAGE_MAIN \<and> mr_key rec = Some (ev_conversation_id e) \<and> event_carries t e rec"

lemma finalize_tenant: "h ''x-tenant-id'' = Some t \<Longrightarrow>
    me_headers (finalize_mq_headers (mq_envelope_for_main_queue_event_with_headers c e rs h)) ''x-tenant-id'' = Some t"
  by (simp add: finalize_mq_headers_def mq_envelope_for_main_queue_event_with_headers_def or_insert_def split: option.split)

lemma publish_event_result:
  assumes "publish_event R c ctx e rs (ev_conversation_id e) q = (res, q')"
  shows "(res \<noteq> Ok () \<and> mq_sent q' = mq_sent q)
     \<or> (\<exists>rec t. res = Ok () \<and> mq_sent q' = rec # mq_sent q \<and> normalize_optional_tenant_id (mx_tenant_id ctx) = Some t
          \<and> main_event_record t e rec)"
proof (cases "event_headers R c ctx e")
  case (Inl err)
  with assms show ?thesis by (auto simp: publish_event_def with_headers_def)
next
  case (Inr h)
  from build_timeline_headers_Ok [OF Inr [unfolded event_headers_def]] obtain t where
    t: "normalize_optional_tenant_id (mx_tenant_id ctx) = Some t" "h ''x-tenant-id'' = Some t" by blast
  from assms Inr have "send_mq R TOPIC_MESSAGE_MAIN (ev_conversation_id e) (mq_envelope_for_main_queue_event_with_headers c e rs h)
      ''event payload too large'' q = (res, q')" by (simp add: publish_event_def with_headers_def)
  from send_mq_result [OF this] finalize_tenant [of h t c e rs] t show ?thesis
    by (auto simp: main_event_record_def event_carries_def mq_envelope_for_main_queue_event_with_headers_def)
qed

lemma push_event_result:
  assumes "push_event S c ctx e Auto q = (res, q')"
  shows "(res \<noteq> Ok () \<and> mq_sent q' = mq_sent q)
     \<or> (\<exists>rec t. res = Ok () \<and> mq_sent q' = rec # mq_sent q \<and> normalize_optional_tenant_id (mx_tenant_id ctx) = Some t
          \<and> main_event_record t e rec)"
  using assms publish_event_result
  by (fastforce simp: push_event_def is_temporary_event_def split: sum.splits)

lemma allocate_and_push_result:
  assumes "allocate_and_push S c ctx t e w = (res, w')" "normalize_optional_tenant_id (mx_tenant_id ctx) = Some t"
  shows "evw_marks w' = evw_marks w \<and> evw_members w' = evw_members w
     \<and> (if \<exists>e'. res = Ok e'
        then \<exists>n rec. fst (evs_allocate S (ev_conversation_id e) t (evw_seq w)) = Ok n \<and> res = Ok (e\<lparr>ev_conversation_seq := n\<rparr>)
          \<and> mq_sent (evw_mq w') = rec # mq_sent (evw_mq w) \<and> main_event_record t (e\<lparr>ev_conversation_seq := n\<rparr>) rec
        else mq_sent (evw_mq w') = mq_sent (evw_mq w))"
proof -
  obtain ra a where al: "evs_allocate S (ev_conversation_id e) t (evw_seq w) = (ra, a)" by fastforce
  show ?thesis
  proof (cases ra)
    case (Inl err)
    with assms al show ?thesis by (auto simp: allocate_and_push_def allocate_event_seq_def)
  next
    case (Inr n)
    let ?e = "e\<lparr>ev_conversation_seq := n\<rparr>"
    obtain rp q where p: "push_event S c ctx ?e Auto (evw_mq w) = (rp, q)" by fastforce
    from assms al Inr p have "res = (case rp of Inl err \<Rightarrow> Err err | Inr _ \<Rightarrow> Ok ?e) \<and> w' = w\<lparr>evw_seq := a, evw_mq := q\<rparr>"
      by (auto simp: allocate_and_push_def allocate_event_seq_def split: sum.splits)
    with push_event_result [OF p] al Inr assms(2) show ?thesis by (cases rp) auto
  qed
qed

text \<open>Every way a call can go, in the order of the code.\<close>

lemma handle_event_cases:
  assumes "handle_event S c ctx actor e w = (r, w')"
  obtains (refused) err s where "r = Err err" "w' = w\<lparr>evw_members := s\<rparr>"
  | (stale) t e' s n m k where "event_tenant ctx = Ok t" "authorize (evs_policy S) (caller_of ctx actor) t e (evw_members w) = (Ok e', s)"
      "admit_event S t e' (evw_marks w) = (StaleReadReceipt n m, k)" "r = Ok ()" "w' = w\<lparr>evw_members := s, evw_marks := k\<rparr>"
  | (failed) t e' s cl k w1 err where "event_tenant ctx = Ok t" "authorize (evs_policy S) (caller_of ctx actor) t e (evw_members w) = (Ok e', s)"
      "admit_event S t e' (evw_marks w) = (Admit cl, k)"
      "allocate_and_push S c ctx t e' (w\<lparr>evw_members := s, evw_marks := k\<rparr>) = (Err err, w1)" "r = Err err"
      "w' = (case cl of None \<Rightarrow> w1 | Some cl \<Rightarrow> w1\<lparr>evw_marks := release_read_claim S t cl (evw_marks w1)\<rparr>)"
  | (published) t e' s cl k e'' where "event_tenant ctx = Ok t" "validate_event S ctx t e = Ok ()"
      "authorize (evs_policy S) (caller_of ctx actor) t e (evw_members w) = (Ok e', s)"
      "admit_event S t e' (evw_marks w) = (Admit cl, k)"
      "allocate_and_push S c ctx t e' (w\<lparr>evw_members := s, evw_marks := k\<rparr>) = (Ok e'', w')" "r = Ok ()"
proof (cases "event_tenant ctx")
  case (Inl err)
  with assms show thesis by (intro refused [of err "evw_members w"]) (simp_all add: handle_event_def)
next
  case tenant: (Inr t)
  show thesis
  proof (cases "validate_event S ctx t e")
    case (Inl err)
    with assms tenant show thesis
      by (intro refused [of err "evw_members w"]) (simp_all add: handle_event_def handle_general_event_def)
  next
    case valid: (Inr u)
    obtain ra s where a: "authorize (evs_policy S) (caller_of ctx actor) t e (evw_members w) = (ra, s)" by fastforce
    note run = assms [unfolded handle_event_def handle_general_event_def authorized_event_def tenant valid sum.case if_True a prod.case]
    show thesis
    proof (cases ra)
      case (Inl err)
      with run show thesis by (intro refused [of err s]) simp_all
    next
      case auth: (Inr e')
      obtain ad k where ad: "admit_event S t e' (evw_marks w) = (ad, k)" by fastforce
      show thesis
      proof (cases ad)
        case (StaleReadReceipt n m)
        with run auth ad a tenant show thesis by (intro stale [of t e' s n m k]) simp_all
      next
        case (Admit cl)
        obtain rp w1 where p: "allocate_and_push S c ctx t e' (w\<lparr>evw_members := s, evw_marks := k\<rparr>) = (rp, w1)" by fastforce
        show thesis
        proof (cases rp)
          case (Inl err)
          with run auth ad a tenant Admit p show thesis by (intro failed [of t e' s cl k err w1]) simp_all
        next
          case (Inr e'')
          with run auth ad a tenant valid Admit p show thesis by (intro published [of t e' s cl k e'']) simp_all
        qed
      qed
    qed
  qed
qed

lemma event_tenant_Ok: "event_tenant ctx = Ok t \<longleftrightarrow> normalize_optional_tenant_id (mx_tenant_id ctx) = Some t"
  by (simp add: event_tenant_def split: option.split)

lemma published_facts:
  assumes "handle_event S c ctx actor e w = (r, w')" "mq_sent (evw_mq w') \<noteq> mq_sent (evw_mq w)"
  shows "\<exists>t e' s n rec. r = Ok () \<and> mq_sent (evw_mq w') = rec # mq_sent (evw_mq w) \<and> event_tenant ctx = Ok t
     \<and> validate_event S ctx t e = Ok () \<and> authorize (evs_policy S) (caller_of ctx actor) t e (evw_members w) = (Ok e', s)
     \<and> fst (evs_allocate S (ev_conversation_id e') t (evw_seq w)) = Ok n \<and> main_event_record t (e'\<lparr>ev_conversation_seq := n\<rparr>) rec"
  using assms(1)
proof (cases rule: handle_event_cases)
  case (failed t e' s cl k w1 err)
  with allocate_and_push_result [OF failed(4)] assms(2) show ?thesis by (auto simp: event_tenant_Ok split: option.splits)
next
  case (published t e' s cl k e'')
  with allocate_and_push_result [OF published(5)] show ?thesis by (auto simp: event_tenant_Ok)
qed (use assms(2) in simp_all)

text \<open>
  Only what the policy let through is published. A submitted event is refused or turns out stale, and then nothing is
  published, or exactly one record is: the event as the policy returned it, valid, under the tenant of the call, with the sequence
  number the allocator gave for its conversation.
\<close>

theorem published_event_was_authorized:
  assumes "handle_event S c ctx actor e w = (r, w')"
  shows "mq_sent (evw_mq w') = mq_sent (evw_mq w)
     \<or> (\<exists>t e' s n rec. r = Ok () \<and> mq_sent (evw_mq w') = rec # mq_sent (evw_mq w) \<and> event_tenant ctx = Ok t
          \<and> validate_event S ctx t e = Ok () \<and> authorize (evs_policy S) (caller_of ctx actor) t e (evw_members w) = (Ok e', s)
          \<and> fst (evs_allocate S (ev_conversation_id e') t (evw_seq w)) = Ok n
          \<and> main_event_record t (e'\<lparr>ev_conversation_seq := n\<rparr>) rec)"
  using published_facts [OF assms] by blast

section \<open>Read positions\<close>

text \<open>\<open>gated S\<close>: the watermark of the service answers. A position of an event is exact as a Lua number.\<close>

definition read_position :: "event \<Rightarrow> nat" where
  "read_position e = (case ev_payload e of Some (EvRead r) \<Rightarrow> rde_read_seq r | _ \<Rightarrow> 0)"

lemma cursor_position: "cursor_read_receipt e = Some (u, n) \<Longrightarrow> n = read_position e"
  by (auto simp: cursor_read_receipt_def read_position_def Let_def split: if_splits option.splits event_payload.splits)

lemma cursor_seq [simp]: "cursor_read_receipt (e\<lparr>ev_conversation_seq := n\<rparr>) = cursor_read_receipt e"
  by (simp add: cursor_read_receipt_def)

lemma authorize_payload_position:
  assumes "authorize_payload P opr t cv p = Ok p'"
  shows "(case p' of EvRead r \<Rightarrow> rde_read_seq r | _ \<Rightarrow> 0) = (case p of EvRead r \<Rightarrow> rde_read_seq r | _ \<Rightarrow> 0)"
  using assms
  by (cases p) (auto simp: authorize_payload_def authorize_recall_def authorize_edit_def authorize_delete_def and_then_eq_Ok Let_def
      split: if_splits operator.splits)

lemma authorize_Ok:
  assumes "authorize P ca t e s = (Ok e', s')"
  shows "e' = e \<or> (\<exists>p p'. ev_payload e = Some p \<and> e' = e\<lparr>ev_payload := Some p'\<rparr>
     \<and> authorize_payload P (operator_of (op_keys P) ca) t (ev_conversation_id e) p = Ok p')"
proof -
  have payload: "\<exists>p p'. ev_payload e = Some p \<and> e' = e\<lparr>ev_payload := Some p'\<rparr> \<and> authorize_payload P opr t cv p = Ok p'"
    if "(case x of (Inl err, s) \<Rightarrow> (Err err, s) | (Inr (_::unit), s) \<Rightarrow> (case ev_payload e of None \<Rightarrow> (Err d, s)
        | Some p \<Rightarrow> (and_then (authorize_payload P opr t cv p) (\<lambda>p. Ok (e\<lparr>ev_payload := Some p\<rparr>)), s))) = (Ok e', s')" for x d opr cv
    using that by (cases x; cases "fst x"; cases "ev_payload e") (auto simp: and_then_eq_Ok)
  show ?thesis
    using assms payload unfolding authorize_def Let_def by (auto split: if_split_asm)
qed

lemma authorize_position:
  assumes "authorize P ca t e s = (Ok e', s')"
  shows "read_position e' = read_position e \<and> ev_conversation_id e' = ev_conversation_id e"
proof -
  consider "e' = e" | p p' where "ev_payload e = Some p" "e' = e\<lparr>ev_payload := Some p'\<rparr>"
      "authorize_payload P (operator_of (op_keys P) ca) t (ev_conversation_id e) p = Ok p'"
    using authorize_Ok [OF assms] by blast
  then show ?thesis using authorize_payload_position by cases (auto simp: read_position_def)
qed

context read_watermark
begin

lemma admit_cursor:
  assumes "evs_watermark S = Some W" "\<And>t c u n k. \<exists>a k'. wm_advance W t c u n k = (Ok a, k')" "fits (read_position e)"
    "cursor_read_receipt e = Some (u, n)"
  obtains (stale) k' where "n \<le> position k (reader t (ev_conversation_id e) u)"
      "admit_event S t e k = (StaleReadReceipt n (position k (reader t (ev_conversation_id e) u)), k')" "position k' = position k"
  | (claimed) p k' where "p = position k (reader t (ev_conversation_id e) u)" "p < n"
      "wm_advance W t (ev_conversation_id e) u n k = (Ok (Advanced p), k')"
      "admit_event S t e k = (Admit (Some \<lparr>rcl_conversation_id = ev_conversation_id e, rcl_user_id = u, rcl_read_seq = n, rcl_previous = p\<rparr>), k')"
      "position k' = (position k)(reader t (ev_conversation_id e) u := n)"
proof -
  have n: "fits n" using cursor_position [OF assms(4)] assms(3) by simp
  obtain a k' where a: "wm_advance W t (ev_conversation_id e) u n k = (Ok a, k')" using assms(2) by blast
  show thesis
  proof (cases a)
    case (Advanced p)
    with a advanced [of t _ u n k p k'] n assms(1,4) show thesis by (intro claimed [of p k']) (simp_all add: admit_event_def)
  next
    case (NotAdvanced p)
    with a not_advanced [of t _ u n k p k'] n assms(1,4) show thesis by (intro stale [of k']) (simp_all add: admit_event_def)
  qed
qed

text \<open>A submission that fails leaves every position where it was, when the claim could be handed back.\<close>

lemma failed_restores:
  assumes "handle_event S c ctx actor e w = (Err err, w')" "evs_watermark S = Some W"
    "\<And>t c u n k. \<exists>a k'. wm_advance W t c u n k = (Ok a, k')" "\<And>t c u n p k. \<exists>k'. wm_rollback W t c u n p k = (Ok (), k')"
    "fits (read_position e)"
  shows "position (evw_marks w') = position (evw_marks w)"
  using assms(1)
proof (cases rule: handle_event_cases)
  case (failed t e' s cl k w1 err1)
  have fits: "fits (read_position e')" using authorize_position [OF failed(2)] assms(5) by simp
  have k: "evw_marks w1 = k" using allocate_and_push_result [OF failed(4)] failed(1) by (simp add: event_tenant_Ok)
  show ?thesis
  proof (cases "cursor_read_receipt e'")
    case None
    with failed(3) have "cl = None" "k = evw_marks w" by (auto simp: admit_event_def split: option.splits)
    with failed(6) k show ?thesis by simp
  next
    case (Some un)
    obtain u n where c: "cursor_read_receipt e' = Some (u, n)" using Some by (cases un) auto
    have n: "fits n" using cursor_position [OF c] fits by simp
    show ?thesis
    proof (cases rule: admit_cursor [OF assms(2,3) fits c, where k = "evw_marks w" and t = t, case_names stale claimed])
      case (stale k')
      with failed(3) show ?thesis by simp
    next
      case (claimed p k')
      with failed(3) have cl: "k' = k" "cl = Some \<lparr>rcl_conversation_id = ev_conversation_id e', rcl_user_id = u, rcl_read_seq = n, rcl_previous = p\<rparr>"
        by simp_all
      obtain k2 where rb: "wm_rollback W t (ev_conversation_id e') u n p k = (Ok (), k2)" using assms(4) by blast
      from rollback_claim [OF claimed(3) _ n] rb cl failed(6) k assms(2) show ?thesis by (simp add: release_read_claim_def)
    qed
  qed
qed simp_all

lemma marks_grow:
  assumes "handle_event S c ctx actor e w = (r, w')" "evs_watermark S = Some W"
    "\<And>t c u n k. \<exists>a k'. wm_advance W t c u n k = (Ok a, k')" "fits (read_position e)" "\<And>m n. fits n \<Longrightarrow> m < n \<Longrightarrow> fits m"
  shows "position (evw_marks w) x \<le> position (evw_marks w') x"
proof -
  have admit: "position (evw_marks w) x \<le> position k x"
    if "authorize (evs_policy S) (caller_of ctx actor) t e s = (Ok e', s')" "admit_event S t e' (evw_marks w) = (ad, k)" for t e' s s' ad k
  proof (cases "cursor_read_receipt e'")
    case None
    with that(2) show ?thesis by (auto simp: admit_event_def split: option.splits)
  next
    case (Some un)
    obtain u n where c: "cursor_read_receipt e' = Some (u, n)" using Some by (cases un) auto
    have fits: "fits (read_position e')" using authorize_position [OF that(1)] assms(4) by simp
    show ?thesis
      by (rule admit_cursor [OF assms(2,3) fits c, where k = "evw_marks w" and t = t]) (use that(2) in auto)
  qed
  show ?thesis using assms(1)
  proof (cases rule: handle_event_cases)
    case (stale t e' s n m k)
    with admit [OF stale(2,3)] show ?thesis by simp
  next
    case (published t e' s cl k e'')
    with admit [OF published(3,4)] allocate_and_push_result [OF published(5)] show ?thesis by (simp add: event_tenant_Ok)
  next
    case (failed t e' s cl k w1 err)
    have k: "evw_marks w1 = k" using allocate_and_push_result [OF failed(4)] failed(1) by (simp add: event_tenant_Ok)
    show ?thesis
    proof (cases cl)
      case None
      with admit [OF failed(2,3)] failed(6) k show ?thesis by simp
    next
      case (Some claim)
      then obtain u n where c: "cursor_read_receipt e' = Some (u, n)"
        using failed(3) by (auto simp: admit_event_def split: option.splits)
      have fits: "fits (read_position e')" using authorize_position [OF failed(2)] assms(4) by simp
      then have n: "fits n" using cursor_position [OF c] by simp
      show ?thesis
      proof (cases rule: admit_cursor [OF assms(2,3) fits c, where k = "evw_marks w" and t = t, case_names stale claimed])
        case (stale k')
        with failed(3) show ?thesis by simp
      next
        case (claimed p k')
        let ?x = "reader t (ev_conversation_id e') u"
        obtain r2 k2 where rb: "wm_rollback W t (ev_conversation_id e') u n p k = (r2, k2)" by fastforce
        from claimed(4) failed(3) failed(6) k rb assms(2) Some have w': "evw_marks w' = k2" "k' = k" by (auto simp: release_read_claim_def)
        from rollback [OF rb n assms(5) [OF n claimed(2)]] claimed w' show ?thesis by auto
      qed
    qed
  qed simp
qed

lemma published_raises:
  assumes "handle_event S c ctx actor e w = (r, w')" "evs_watermark S = Some W"
    "\<And>t c u n k. \<exists>a k'. wm_advance W t c u n k = (Ok a, k')" "fits (read_position e)"
  shows "mq_sent (evw_mq w') = mq_sent (evw_mq w)
     \<or> (\<exists>rec t e'. mq_sent (evw_mq w') = rec # mq_sent (evw_mq w) \<and> main_event_record t e' rec
          \<and> (\<forall>u n. cursor_read_receipt e' = Some (u, n) \<longrightarrow> position (evw_marks w) (reader t (ev_conversation_id e') u) < n
               \<and> position (evw_marks w') (reader t (ev_conversation_id e') u) = n))"
  using assms(1)
proof (cases rule: handle_event_cases)
  case (failed t e' s cl k w1 err)
  with allocate_and_push_result [OF failed(4)] show ?thesis by (auto simp: event_tenant_Ok split: option.splits)
next
  case (published t e' s cl k e'')
  have fits: "fits (read_position e')" using authorize_position [OF published(3)] assms(4) by simp
  from allocate_and_push_result [OF published(5)] published(1) obtain n rec where
    p: "mq_sent (evw_mq w') = rec # mq_sent (evw_mq w)" "main_event_record t (e'\<lparr>ev_conversation_seq := n\<rparr>) rec" "evw_marks w' = k"
    by (auto simp: event_tenant_Ok)
  have "position (evw_marks w) (reader t (ev_conversation_id e') u) < m \<and> position k (reader t (ev_conversation_id e') u) = m"
    if c: "cursor_read_receipt e' = Some (u, m)" for u m
    by (rule admit_cursor [OF assms(2,3) fits c, where k = "evw_marks w" and t = t]) (use published(4) in auto)
  with p show ?thesis by (intro disjI2 exI [of _ rec] exI [of _ t] exI [of _ "e'\<lparr>ev_conversation_seq := n\<rparr>"]) simp
qed simp_all

end

text \<open>
  A failed submission costs the reader nothing. When the submission of an event fails, for whatever reason, nothing has been
  published, and when Redis answers, every read position is where it was: submitting the same receipt again is not taken as a repeat.
\<close>

theorem failed_receipt_can_be_resent:
  assumes "redis_server R" and "handle_event S c ctx actor e w = (Err err, w')"
    and "evs_watermark S = Some (redis_read_watermark R ttl Done Done)" and "read_position e < 2 ^ 53"
  shows "mq_sent (evw_mq w') = mq_sent (evw_mq w) \<and> redis_position R (evw_marks w') = redis_position R (evw_marks w)"
proof -
  have laws: "read_watermark (redis_read_watermark R ttl Done Done) watermark_key (redis_position R) lua_exact"
    by (rule redis_server.redis_watermark_laws [OF assms(1)])
  have answers: "\<exists>a k'. wm_advance (redis_read_watermark R ttl Done Done) t c u n k = (Ok a, k')"
    "\<exists>k'. wm_rollback (redis_read_watermark R ttl Done Done) t c u n p k = (Ok (), k')" for t c u n p k
    by (auto simp: redis_read_watermark_def redis_advance_def redis_rollback_mark_def Let_def split: prod.splits)
  have "lua_exact (read_position e)" using assms(4) by (simp add: lua_exact_def)
  from read_watermark.failed_restores [OF laws assms(2,3) answers this]
  have "redis_position R (evw_marks w') = redis_position R (evw_marks w)" .
  moreover from assms(2) have "mq_sent (evw_mq w') = mq_sent (evw_mq w)"
  proof (cases rule: handle_event_cases)
    case (failed t e' s cl k w1 err1)
    with allocate_and_push_result [OF failed(4)] show ?thesis by (auto simp: event_tenant_Ok split: option.splits)
  qed simp_all
  ultimately show ?thesis by simp
qed

text \<open>The reader and position of a published read receipt, and the positions published for one reader, newest first.\<close>

definition receipt_of :: "mq_record \<Rightarrow> (string \<times> nat) option" where
  "receipt_of rec = (case mr_body rec of
      BodyMq mq \<Rightarrow> (case (me_payload mq, mr_headers rec ''x-tenant-id'') of
        (Some (PayEvent e), Some t) \<Rightarrow> map_option (\<lambda>(u, n). (watermark_key t (ev_conversation_id e) u, n)) (cursor_read_receipt e)
      | _ \<Rightarrow> None)
    | _ \<Rightarrow> None)"

definition positions_of :: "string \<Rightarrow> mq_record list \<Rightarrow> nat list" where
  "positions_of x sent = map snd (filter (\<lambda>r. fst r = x) (List.map_filter receipt_of sent))"

lemma receipt_of_event:
  "main_event_record t e rec \<Longrightarrow> receipt_of rec = map_option (\<lambda>(u, n). (watermark_key t (ev_conversation_id e) u, n)) (cursor_read_receipt e)"
  by (auto simp: main_event_record_def event_carries_def receipt_of_def)

lemma positions_of_Cons: "positions_of x (rec # sent) = (case receipt_of rec of
    Some (y, n) \<Rightarrow> if y = x then n # positions_of x sent else positions_of x sent | None \<Rightarrow> positions_of x sent)"
  by (simp add: positions_of_def map_filter_simps split: option.split prod.split)

type_synonym ('sk, 'vk, 'sig, 'q, 'a, 'k, 's) event_call =
  "('sk, 'vk, 'sig, 'q, 'a, 'k, 's) event_service \<times> mq_call \<times> mq_ctx \<times> (bool \<times> string) option \<times> event"

fun handle_all :: "('sk, 'vk, 'sig, 'q, 'a, 'k, 's) event_call list \<Rightarrow> ('q, 'a, 'k, 's) event_world \<Rightarrow> ('q, 'a, 'k, 's) event_world" where
  "handle_all [] w = w"
| "handle_all ((S, c, ctx, actor, e) # calls) w = handle_all calls (snd (handle_event S c ctx actor e w))"

definition gated_call :: "'k redis_cmds \<Rightarrow> ('sk, 'vk, 'sig, 'q, 'a, 'k, 's) event_call \<Rightarrow> bool" where
  "gated_call R x = (case x of (S, _, _, _, e) \<Rightarrow>
     (\<exists>ttl fin. evs_watermark S = Some (redis_read_watermark R ttl Done fin)) \<and> read_position e < 2 ^ 53)"

definition ordered_receipts :: "'k redis_cmds \<Rightarrow> ('q, 'a, 'k, 's) event_world \<Rightarrow> bool" where
  "ordered_receipts R w \<longleftrightarrow> (\<forall>x. sorted_wrt (>) (positions_of x (mq_sent (evw_mq w)))
     \<and> (\<forall>n \<in> set (positions_of x (mq_sent (evw_mq w))). n \<le> redis_position R (evw_marks w) x))"

lemma handle_event_ordered:
  assumes "redis_server R" "gated_call R (S, c, ctx, actor, e)" "handle_event S c ctx actor e w = (r, w')" "ordered_receipts R w"
  shows "ordered_receipts R w'"
proof -
  obtain ttl fin where W: "evs_watermark S = Some (redis_read_watermark R ttl Done fin)" and n: "lua_exact (read_position e)"
    using assms(2) by (auto simp: gated_call_def lua_exact_def)
  have laws: "read_watermark (redis_read_watermark R ttl Done fin) watermark_key (redis_position R) lua_exact"
    by (rule redis_server.redis_watermark_laws [OF assms(1)])
  have answers: "\<exists>a k'. wm_advance (redis_read_watermark R ttl Done fin) t c u n k = (Ok a, k')" for t c u n k
    by (auto simp: redis_read_watermark_def redis_advance_def Let_def split: prod.splits)
  have down: "lua_exact n \<Longrightarrow> m < n \<Longrightarrow> lua_exact m" for m n by (simp add: lua_exact_def)
  have grow: "redis_position R (evw_marks w) x \<le> redis_position R (evw_marks w') x" for x
    using read_watermark.marks_grow [OF laws assms(3) W answers n] down by blast
  have old: "sorted_wrt (>) (positions_of x (mq_sent (evw_mq w)))"
    "m \<in> set (positions_of x (mq_sent (evw_mq w))) \<Longrightarrow> m \<le> redis_position R (evw_marks w) x \<and> m \<le> redis_position R (evw_marks w') x" for x m
    using assms(4) grow [of x] unfolding ordered_receipts_def by (auto intro: le_trans)
  from read_watermark.published_raises [OF laws assms(3) W answers n] show ?thesis
  proof (elim disjE exE conjE)
    assume "mq_sent (evw_mq w') = mq_sent (evw_mq w)"
    with old show ?thesis unfolding ordered_receipts_def by simp
  next
    fix rec t e'
    assume sent: "mq_sent (evw_mq w') = rec # mq_sent (evw_mq w)" "main_event_record t e' rec"
      and up: "\<forall>u n. cursor_read_receipt e' = Some (u, n) \<longrightarrow> redis_position R (evw_marks w) (watermark_key t (ev_conversation_id e') u) < n
        \<and> redis_position R (evw_marks w') (watermark_key t (ev_conversation_id e') u) = n"
    show ?thesis
    proof (cases "cursor_read_receipt e'")
      case None
      then have "positions_of x (rec # mq_sent (evw_mq w)) = positions_of x (mq_sent (evw_mq w))" for x
        by (simp add: positions_of_Cons receipt_of_event [OF sent(2)])
      with old show ?thesis unfolding ordered_receipts_def sent(1) by simp
    next
      case (Some un)
      obtain u n where un: "un = (u, n)" by fastforce
      let ?x = "watermark_key t (ev_conversation_id e') u"
      have new: "positions_of x (rec # mq_sent (evw_mq w)) =
          (if x = ?x then n # positions_of x (mq_sent (evw_mq w)) else positions_of x (mq_sent (evw_mq w)))" for x
        using Some un by (simp add: positions_of_Cons receipt_of_event [OF sent(2)])
      have n: "redis_position R (evw_marks w) ?x < n" "redis_position R (evw_marks w') ?x = n" using up Some un by blast+
      have "m < n" if "m \<in> set (positions_of ?x (mq_sent (evw_mq w)))" for m using old(2) [OF that] n(1) by simp
      with old n show ?thesis unfolding ordered_receipts_def sent(1) new by (auto intro: less_imp_le)
    qed
  qed
qed

lemma handle_all_ordered:
  assumes "redis_server R" "\<forall>x \<in> set calls. gated_call R x" "ordered_receipts R w"
  shows "ordered_receipts R (handle_all calls w)"
  using assms(2,3)
proof (induction calls arbitrary: w)
  case (Cons x calls)
  obtain S c ctx actor e where x: "x = (S, c, ctx, actor, e)" by (metis prod.collapse)
  obtain r w1 where run: "handle_event S c ctx actor e w = (r, w1)" by fastforce
  from Cons.prems x have "gated_call R (S, c, ctx, actor, e)" by simp
  from handle_event_ordered [OF assms(1) this run Cons.prems(2)] Cons.IH [of w1] Cons.prems(1) x run show ?case by simp
qed simp

text \<open>
  C21: a read position is announced once. As long as Redis answers every advance, the entry has not expired and the positions are below
  \<open>2^53\<close>, the positions published for one reader of one conversation strictly increase over any sequence of submissions, failed ones and
  lost rollbacks included: no repeat and no smaller position gets a sequence number. (A failed advance admits the event, and after the entry
  expired the next receipt is admitted once.)
\<close>

theorem read_positions_strictly_increase:
  assumes "redis_server R" and "\<forall>x \<in> set calls. gated_call R x" and "mq_sent (evw_mq w) = []"
  shows "sorted_wrt (>) (positions_of x (mq_sent (evw_mq (handle_all calls w))))"
proof -
  have "ordered_receipts R w" using assms(3) by (simp add: ordered_receipts_def positions_of_def map_filter_simps)
  from handle_all_ordered [OF assms(1,2) this] show ?thesis by (simp add: ordered_receipts_def)
qed

section \<open>Examples\<close>

definition example_events :: "stmt_end \<Rightarrow> bool \<Rightarrow> (string, string, string, unit, nat, mem_state, unit) event_service" where
  "example_events fin up = \<lparr>evs_repo = example_repo\<lparr>pr_send := (\<lambda>_ q. (if up then Ok () else Err (FlareError SystemError ''down''), q))\<rparr>,
     evs_members_of = (\<lambda>_ _. Ok [''alice'', ''bob'']), evs_allocate = (\<lambda>_ _ n. (Ok (n + 1), n + 1)),
     evs_validation = composite_validate (default_event_composite example_keys),
     evs_watermark = Some (redis_read_watermark mem_redis DEFAULT_TTL_SECONDS Done fin), evs_policy = example_policy\<rparr>"

definition example_event_world :: "(unit, nat, mem_state, unit) event_world" where
  "example_event_world = \<lparr>evw_mq = \<lparr>mq_state = (), mq_sent = []\<rparr>, evw_seq = 0, evw_marks = mem_init, evw_members = ()\<rparr>"

definition example_event_ctx :: mq_ctx where
  "example_event_ctx = \<lparr>mx_tenant_id = Some ''t1'', mx_user_id = Some ''bob'', mx_claims = None, mx_recovered = None, mx_metadata = Map.empty\<rparr>"

definition example_receipt :: "nat \<Rightarrow> event" where
  "example_receipt n = example_op EventReadReceipt (EvRead \<lparr>rde_conversation_id = ''2-g'', rde_read_seq = n, rde_user_id = [], rde_message_ids = [],
     rde_read_at = None\<rparr>)"

definition example_submit :: "stmt_end \<Rightarrow> bool \<Rightarrow> event \<Rightarrow> (unit, nat, mem_state, unit) event_world \<Rightarrow> unit result \<times> (unit, nat, mem_state, unit) event_world" where
  "example_submit fin up e w = handle_event (example_events fin up) example_mq_call example_event_ctx None e w"

theorem published_event_was_authorized_witness:
  "\<exists>rec e' s n. mq_sent (evw_mq (snd (example_submit Done True (example_receipt 7) example_event_world))) = [rec]
     \<and> authorize example_policy (caller_of example_event_ctx None) ''t1'' (example_receipt 7) () = (Ok e', s)
     \<and> main_event_record ''t1'' (e'\<lparr>ev_conversation_seq := n\<rparr>) rec"
proof -
  obtain r w' where run: "handle_event (example_events Done True) example_mq_call example_event_ctx None (example_receipt 7) example_event_world = (r, w')"
    by fastforce
  have "length (mq_sent (evw_mq (snd (example_submit Done True (example_receipt 7) example_event_world)))) = 1" by code_simp
  then have w': "example_submit Done True (example_receipt 7) example_event_world = (r, w')" "length (mq_sent (evw_mq w')) = 1"
    by (simp_all add: example_submit_def run)
  moreover have "mq_sent (evw_mq example_event_world) = []" "evs_policy (example_events Done True) = example_policy"
    "evw_members example_event_world = ()" by (simp_all add: example_event_world_def example_events_def)
  moreover have "event_tenant example_event_ctx = Ok ''t1''" by code_simp
  ultimately show ?thesis using published_event_was_authorized [OF run] by auto
qed

theorem failed_receipt_can_be_resent_witness:
  "\<exists>err w'. example_submit Done False (example_receipt 7) example_event_world = (Err err, w')
     \<and> redis_position mem_redis (evw_marks w') = redis_position mem_redis mem_init
     \<and> length (mq_sent (evw_mq (snd (example_submit Done True (example_receipt 7) w')))) = 1"
proof -
  obtain r w' where run: "handle_event (example_events Done False) example_mq_call example_event_ctx None (example_receipt 7) example_event_world = (r, w')"
    by fastforce
  have "case example_submit Done False (example_receipt 7) example_event_world of (r, w') \<Rightarrow>
      (case r of Inl _ \<Rightarrow> True | Inr _ \<Rightarrow> False) \<and> length (mq_sent (evw_mq (snd (example_submit Done True (example_receipt 7) w')))) = 1"
    by code_simp
  then obtain err where err: "r = Err err" "length (mq_sent (evw_mq (snd (example_submit Done True (example_receipt 7) w')))) = 1"
    by (auto simp: example_submit_def run split: sum.splits)
  have marks: "evs_watermark (example_events Done False) = Some (redis_read_watermark mem_redis DEFAULT_TTL_SECONDS Done Done)"
    "evw_marks example_event_world = mem_init" by (simp_all add: example_events_def example_event_world_def)
  have "read_position (example_receipt 7) < 2 ^ 53" by code_simp
  from failed_receipt_can_be_resent [OF mem.redis_server_axioms run [unfolded err(1)] marks(1) this] err run marks(2) show ?thesis
    by (simp add: example_submit_def)
qed

theorem read_positions_strictly_increase_witness:
  "let call = (\<lambda>up n. (example_events Failed up, example_mq_call, example_event_ctx, None, example_receipt n));
       sent = mq_sent (evw_mq (handle_all [call True 7, call True 7, call False 9, call True 8, call True 12] example_event_world));
       ps = positions_of (watermark_key ''t1'' ''2-g'' ''bob'') sent
   in ps = [12, 7] \<and> sorted_wrt (>) ps"
proof -
  let ?call = "\<lambda>up n. (example_events Failed up, example_mq_call, example_event_ctx, None, example_receipt n)"
  let ?calls = "[?call True 7, ?call True 7, ?call False 9, ?call True 8, ?call True 12]"
  have "\<forall>x \<in> set ?calls. gated_call mem_redis x"
    by (auto simp: gated_call_def example_events_def read_position_def example_receipt_def example_op_def)
  moreover have "mq_sent (evw_mq example_event_world) = []" by (simp add: example_event_world_def)
  moreover have "positions_of (watermark_key ''t1'' ''2-g'' ''bob'') (mq_sent (evw_mq (handle_all ?calls example_event_world))) = [12, 7]" by code_simp
  ultimately show ?thesis
    using read_positions_strictly_increase [OF mem.redis_server_axioms, of ?calls example_event_world "watermark_key ''t1'' ''2-g'' ''bob''"]
    by (simp add: Let_def)
qed

text \<open>
  Failures that cross lose a receipt. Two devices of a reader report the positions 10 and 12 and both submissions fail after
  their advance. When the first hands its claim back first, the watermark is already 12 and stays; the second then restores 10, which was
  never published: the first device's next attempt is dropped as a repeat.
\<close>

theorem crossed_failures_drop_receipt:
  "let k1 = snd (redis_advance mem_redis 60 Done ''t1'' ''2-g'' ''bob'' 10 mem_init);
       k2 = snd (redis_advance mem_redis 60 Done ''t1'' ''2-g'' ''bob'' 12 k1);
       k3 = snd (redis_rollback_mark mem_redis 60 Done ''t1'' ''2-g'' ''bob'' 10 0 k2);
       k4 = snd (redis_rollback_mark mem_redis 60 Done ''t1'' ''2-g'' ''bob'' 12 10 k3);
       again = example_submit Done True (example_receipt 10) (example_event_world\<lparr>evw_marks := k4\<rparr>)
   in fst again = Ok () \<and> mq_sent (evw_mq (snd again)) = []"
  by code_simp

end
