(* ===== verification/Wal_Replay.thy ===== *)
theory Wal_Replay
  imports Push_Repository
begin

text \<open>
  Recovery of logged messages (\<^verbatim>\<open>flare-message-ingest/src/application/handlers/wal_replay_handler.rs\<close>): a
  pass over the pending entries of the log that publishes each one again and removes it once the broker
  has it. The publisher is the ingest service over the queue repository. The cache that keeps
  quarantined entries from being logged twice has no other effect and is left out.
\<close>

section \<open>The handler\<close>

record wal_replay_report =
  rep_scanned :: nat
  rep_replayed :: nat
  rep_failed :: nat
  rep_skipped :: nat
  rep_quarantined :: nat

definition default_report :: wal_replay_report where
  "default_report = \<lparr>rep_scanned = 0, rep_replayed = 0, rep_failed = 0, rep_skipped = 0, rep_quarantined = 0\<rparr>"

text \<open>The queue repository as the ingest service uses it, for one call context.\<close>

fun repo_queue :: "('sk, 'vk, 'sig, 'q) push_repo \<Rightarrow> mq_call \<Rightarrow> mq_ctx \<Rightarrow> publication \<Rightarrow> 'q mq_world \<Rightarrow>
     unit result \<times> 'q mq_world" where
  "repo_queue R c ctx (PublishBoth m rs cid large) = publish_message R c ctx m rs cid large"
| "repo_queue R c ctx (PushOnly m rs cid) = push_only_message R c ctx m rs cid"
| "repo_queue R c ctx (PersistOnly m cid) = persistence_only_message R c ctx m cid"

definition with_ctx :: "('sk, 'vk, 'sig, 'q) push_repo \<Rightarrow> mq_call \<Rightarrow> mq_ctx \<Rightarrow> ('r, 'w, 'q mq_world) ingest_env \<Rightarrow>
     ('r, 'w, 'q mq_world) ingest_env" where
  "with_ctx R c ctx E = E\<lparr>ie_queue := repo_queue R c ctx, ie_write_proof := prepare_write_proof R c ctx,
     ie_requires_proof := requires_proof\<rparr>"

record ('sk, 'vk, 'sig, 'r, 'w, 'q) wal_replay_handler =
  rp_ingest :: "('r, 'w, 'q mq_world) ingest_env"
  rp_repo :: "('sk, 'vk, 'sig, 'q) push_repo"
  rp_verifier :: "'vk option"
  rp_default_tenant :: "string option"
  rp_metadata :: "string \<Rightarrow> string \<rightharpoonup> string"
  rp_call :: "string \<Rightarrow> mq_call"

definition wal_replay_handler_new :: "('r, 'w, 'q mq_world) ingest_env \<Rightarrow> ('sk, 'vk, 'sig, 'q) push_repo \<Rightarrow> string option \<Rightarrow>
     (string \<Rightarrow> string \<rightharpoonup> string) \<Rightarrow> (string \<Rightarrow> mq_call) \<Rightarrow> ('sk, 'vk, 'sig, 'r, 'w, 'q) wal_replay_handler" where
  "wal_replay_handler_new E R default_tenant_id metadata call =
     \<lparr>rp_ingest = E, rp_repo = R, rp_verifier = None,
      rp_default_tenant = normalize_optional_tenant_id default_tenant_id, rp_metadata = metadata, rp_call = call\<rparr>"

definition with_write_verifier :: "'vk option \<Rightarrow> ('sk, 'vk, 'sig, 'r, 'w, 'q) wal_replay_handler \<Rightarrow>
     ('sk, 'vk, 'sig, 'r, 'w, 'q) wal_replay_handler" where
  "with_write_verifier v H = H\<lparr>rp_verifier := v\<rparr>"

definition replay_persistence_mode :: "message_profile \<Rightarrow> message \<Rightarrow> persistence_mode" where
  "replay_persistence_mode profile m =
     (if is_temporary profile then ForcePushOnly
      else if is_notification profile then
        (case notification_persistent m of Some False \<Rightarrow> ForcePushOnly | _ \<Rightarrow> Auto)
      else Auto)"

definition replay_ctx :: "('sk, 'vk, 'sig, 'r, 'w, 'q) wal_replay_handler \<Rightarrow> string \<Rightarrow> mq_ctx" where
  "replay_ctx H tenant_id =
     \<lparr>mx_tenant_id = Some tenant_id, mx_user_id = None, mx_claims = None, mx_recovered = None, mx_metadata = rp_metadata H tenant_id\<rparr>"

definition replay_message :: "wal_pending_message \<Rightarrow> message_profile \<times> message" where
  "replay_message pending =
     (let m = wp_message pending in
      profile_ensure (if trim (m_server_id m) = [] then m\<lparr>m_server_id := wp_message_id pending\<rparr> else m))"

definition remove_entry :: "('sk, 'vk, 'sig, 'r, 'w, 'q) wal_replay_handler \<Rightarrow> string \<Rightarrow>
     ('r, 'w, 'q mq_world) ingest_world \<Rightarrow> unit result \<times> ('r, 'w, 'q mq_world) ingest_world" where
  "remove_entry H message_id w =
     (case wal_remove (ie_wal (rp_ingest H)) message_id (iw_wal w) of (r, l) \<Rightarrow> (r, w\<lparr>iw_wal := l\<rparr>))"

text \<open>The context an entry is published under, or why it is not: no tenant, or no valid proof.\<close>

datatype replay_admission = Quarantined | ProofFailed | Admitted mq_ctx

definition admit_entry :: "('sk, 'vk, 'sig, 'r, 'w, 'q) wal_replay_handler \<Rightarrow> wal_pending_message \<Rightarrow> message \<Rightarrow>
     replay_admission" where
  "admit_entry H pending m =
     (case (case normalize_optional_tenant_id (Some (wp_tenant_id pending)) of
              Some t \<Rightarrow> Some t | None \<Rightarrow> rp_default_tenant H) of
        None \<Rightarrow> Quarantined
      | Some tenant_id \<Rightarrow>
          let ctx = replay_ctx H tenant_id in
          if requires_proof m \<or> wp_write_proof pending \<noteq> None then
            (case (rp_verifier H, wp_write_proof pending) of
               (Some v, Some p) \<Rightarrow>
                 (case recover (pr_lib (rp_repo H)) v p tenant_id m of
                    Inl e \<Rightarrow> ProofFailed | Inr rec \<Rightarrow> Admitted (ctx\<lparr>mx_recovered := Some rec\<rparr>))
             | _ \<Rightarrow> ProofFailed)
          else Admitted ctx)"

definition replay_entry :: "('sk, 'vk, 'sig, 'r, 'w, 'q) wal_replay_handler \<Rightarrow> wal_pending_message \<Rightarrow> wal_replay_report \<Rightarrow>
     ('r, 'w, 'q mq_world) ingest_world \<Rightarrow> wal_replay_report result \<times> ('r, 'w, 'q mq_world) ingest_world" where
  "replay_entry H pending report w =
     (let (profile, m) = replay_message pending;
          mode = replay_persistence_mode profile m
      in if should_push_only mode (is_temporary profile) then
           (case remove_entry H (wp_message_id pending) w of
              (Inl e, w) \<Rightarrow> (Err e, w)
            | (Inr _, w) \<Rightarrow> (Ok (report\<lparr>rep_skipped := rep_skipped report + 1\<rparr>), w))
         else (case admit_entry H pending m of
             Quarantined \<Rightarrow> (Ok (report\<lparr>rep_quarantined := rep_quarantined report + 1\<rparr>), w)
           | ProofFailed \<Rightarrow> (Ok (report\<lparr>rep_failed := rep_failed report + 1\<rparr>), w)
           | Admitted ctx \<Rightarrow>
               let sub = \<lparr>ms_message = m, ms_message_id = wp_message_id pending, ms_timeline = default_timeline\<rparr> in
               (case push_message (with_ctx (rp_repo H) (rp_call H (wp_message_id pending)) ctx (rp_ingest H)) sub profile mode w of
                  (Inr _, w) \<Rightarrow>
                    (case remove_entry H (wp_message_id pending) w of
                       (Inl e, w) \<Rightarrow> (Err e, w)
                     | (Inr _, w) \<Rightarrow> (Ok (report\<lparr>rep_replayed := rep_replayed report + 1\<rparr>), w))
                | (Inl e, w) \<Rightarrow> (Ok (report\<lparr>rep_failed := rep_failed report + 1\<rparr>), w))))"

fun replay_entries :: "('sk, 'vk, 'sig, 'r, 'w, 'q) wal_replay_handler \<Rightarrow> wal_pending_message list \<Rightarrow> wal_replay_report \<Rightarrow>
     ('r, 'w, 'q mq_world) ingest_world \<Rightarrow> wal_replay_report result \<times> ('r, 'w, 'q mq_world) ingest_world" where
  "replay_entries H [] report w = (Ok report, w)"
| "replay_entries H (pending # rest) report w =
     (case replay_entry H pending report w of
        (Inl e, w) \<Rightarrow> (Err e, w)
      | (Inr report, w) \<Rightarrow> replay_entries H rest report w)"

definition replay_once :: "('sk, 'vk, 'sig, 'r, 'w, 'q) wal_replay_handler \<Rightarrow> nat \<Rightarrow>
     ('r, 'w, 'q mq_world) ingest_world \<Rightarrow> wal_replay_report result \<times> ('r, 'w, 'q mq_world) ingest_world" where
  "replay_once H limit w =
     (case wal_list (ie_wal (rp_ingest H)) limit (iw_wal w) of
        (Inl e, l) \<Rightarrow> (Err e, w\<lparr>iw_wal := l\<rparr>)
      | (Inr pending, l) \<Rightarrow> replay_entries H pending (default_report\<lparr>rep_scanned := length pending\<rparr>) (w\<lparr>iw_wal := l\<rparr>))"

section \<open>What one entry does\<close>

lemma replay_mode_is_ingest_mode: "replay_persistence_mode = ingest_persistence_mode"
  by (simp add: fun_eq_iff replay_persistence_mode_def ingest_persistence_mode_def)

text \<open>An entry that would only be pushed is not worth recovering.\<close>

definition transient_entry :: "wal_pending_message \<Rightarrow> bool" where
  "transient_entry pending = (let (profile, m) = replay_message pending in
     should_push_only (replay_persistence_mode profile m) (is_temporary profile))"

definition republished :: "wal_pending_message \<Rightarrow> publication \<Rightarrow> bool" where
  "republished q p \<longleftrightarrow> publication_stores p \<and> m_server_id (publication_message p) = m_server_id (snd (replay_message q))
     \<and> m_conversation_id (publication_message p) = m_conversation_id (wp_message q)
     \<and> m_conversation_seq (publication_message p) = m_conversation_seq (wp_message q)"

lemma replay_message_keeps:
  "m_conversation_id (snd (replay_message q)) = m_conversation_id (wp_message q)"
  "m_conversation_seq (snd (replay_message q)) = m_conversation_seq (wp_message q)"
  by (simp_all add: replay_message_def profile_ensure_keeps Let_def)

text \<open>
  The log only loses entries, and an entry it loses was transient or has just been published for storage;
  publications are only added.
\<close>

definition replay_step_ok :: "('w \<Rightarrow> string \<rightharpoonup> wal_pending_message) \<Rightarrow> ('r, 'w, 'b) ingest_world \<Rightarrow>
     ('r, 'w, 'b) ingest_world \<Rightarrow> bool" where
  "replay_step_ok ents w w' \<longleftrightarrow> ents (iw_wal w') \<subseteq>\<^sub>m ents (iw_wal w)
     \<and> set (iw_published w) \<subseteq> set (iw_published w')
     \<and> (\<forall>k q. ents (iw_wal w) k = Some q \<longrightarrow> ents (iw_wal w') k = None \<longrightarrow>
          transient_entry q \<or> (\<exists>p \<in> set (iw_published w'). republished q p))"

lemma replay_step_ok_refl: "replay_step_ok ents w w"
  by (simp add: replay_step_ok_def)

lemma replay_step_ok_trans:
  assumes "replay_step_ok ents u v" "replay_step_ok ents v w"
  shows "replay_step_ok ents u w"
  unfolding replay_step_ok_def
proof (intro conjI allI impI)
  show "ents (iw_wal w) \<subseteq>\<^sub>m ents (iw_wal u)" "set (iw_published u) \<subseteq> set (iw_published w)"
    using assms by (auto simp: replay_step_ok_def intro: map_le_trans)
  fix k q assume k: "ents (iw_wal u) k = Some q" "ents (iw_wal w) k = None"
  show "transient_entry q \<or> (\<exists>p \<in> set (iw_published w). republished q p)"
  proof (cases "ents (iw_wal v) k")
    case None
    with k assms show ?thesis unfolding replay_step_ok_def by blast
  next
    case (Some q')
    have "ents (iw_wal u) k = Some q'" using assms(1) Some by (auto simp: replay_step_ok_def map_le_def dom_def)
    with Some k assms(2) show ?thesis unfolding replay_step_ok_def by (metis option.inject)
  qed
qed

definition counted :: "wal_replay_report \<Rightarrow> nat" where
  "counted report = rep_replayed report + rep_failed report + rep_skipped report + rep_quarantined report"

lemma replay_entry_counts:
  assumes "replay_entry H pending report w = (Ok report', w')"
  shows "counted report' = counted report + 1 \<and> rep_scanned report' = rep_scanned report"
  using assms
  by (auto simp: replay_entry_def counted_def Let_def split: prod.splits sum.splits replay_admission.splits if_split_asm)

lemma replay_entries_counts:
  "replay_entries H ps report w = (Ok report', w') \<Longrightarrow>
     counted report' = counted report + length ps \<and> rep_scanned report' = rep_scanned report"
  by (induction ps arbitrary: report w) (auto split: prod.splits sum.splits dest!: replay_entry_counts)

text \<open>An entry whose publication succeeds now: it is admitted, and the publisher answers.\<close>

definition deliverable :: "('sk, 'vk, 'sig, 'r, 'w, 'q) wal_replay_handler \<Rightarrow> wal_pending_message \<Rightarrow> bool" where
  "deliverable H q \<longleftrightarrow> (let (profile, m) = replay_message q in
     \<exists>ctx. admit_entry H q m = Admitted ctx
       \<and> (\<forall>w. fst (push_message (with_ctx (rp_repo H) (rp_call H (wp_message_id q)) ctx (rp_ingest H))
            \<lparr>ms_message = m, ms_message_id = wp_message_id q, ms_timeline = default_timeline\<rparr> profile
            (replay_persistence_mode profile m) w) = Ok ()))"

locale wal_replay = log: wal_repository "ie_wal (rp_ingest H)" ents
  for H :: "('sk, 'vk, 'sig, 'r, 'w, 'q) wal_replay_handler" and ents :: "'w \<Rightarrow> string \<rightharpoonup> wal_pending_message"
begin

lemma remove_entry_step:
  assumes r: "remove_entry H k w = (res, w')"
    and ok: "\<And>q. ents (iw_wal w) k = Some q \<Longrightarrow> transient_entry q \<or> (\<exists>p \<in> set (iw_published w). republished q p)"
  shows "replay_step_ok ents w w'" and "iw_published w' = iw_published w"
proof -
  obtain l where l: "wal_remove (ie_wal (rp_ingest H)) k (iw_wal w) = (res, l)" "w' = w\<lparr>iw_wal := l\<rparr>"
    using r by (auto simp: remove_entry_def split: prod.splits)
  have "ents l = ents (iw_wal w) \<or> ents l = (ents (iw_wal w))(k := None)"
    using log.remove_ok log.remove_err l(1) by (cases res) auto
  with ok l(2) show "replay_step_ok ents w w'" by (auto simp: replay_step_ok_def map_le_def split: if_split_asm)
  show "iw_published w' = iw_published w" by (simp add: l(2))
qed

lemma replay_entry_step:
  assumes here: "\<And>q. ents (iw_wal w) (wp_message_id pending) = Some q \<Longrightarrow> q = pending"
    and r: "replay_entry H pending report w = (res, w')"
  shows "replay_step_ok ents w w'"
proof -
  obtain profile m where rm: "replay_message pending = (profile, m)" by fastforce
  let ?mode = "replay_persistence_mode profile m"
  let ?id = "wp_message_id pending"
  show ?thesis
  proof (cases "should_push_only ?mode (is_temporary profile)")
    case True
    then have "transient_entry pending" by (simp add: transient_entry_def rm)
    moreover obtain x v where rem: "remove_entry H ?id w = (x, v)" by fastforce
    ultimately have "replay_step_ok ents w v" using remove_entry_step(1) [OF rem] here by blast
    with r rm True rem show ?thesis by (auto simp: replay_entry_def split: sum.splits)
  next
    case stored: False
    show ?thesis
    proof (cases "admit_entry H pending m")
      case (Admitted ctx)
      let ?sub = "\<lparr>ms_message = m, ms_message_id = ?id, ms_timeline = default_timeline\<rparr>"
      obtain x v where push: "push_message (with_ctx (rp_repo H) (rp_call H ?id) ctx (rp_ingest H)) ?sub profile ?mode w = (x, v)"
        by fastforce
      note frame = push_message_frame(1) [OF push]
      show ?thesis
      proof (cases x)
        case (Inl e)
        with push have "iw_published v = iw_published w" by (auto dest: push_message_Err)
        with frame have "replay_step_ok ents w v" by (simp add: replay_step_ok_def)
        with r rm stored Admitted push Inl show ?thesis by (simp add: replay_entry_def)
      next
        case (Inr u)
        with push have "push_message (with_ctx (rp_repo H) (rp_call H ?id) ctx (rp_ingest H)) ?sub profile ?mode w = (Ok (), v)" by simp
        from push_message_Ok [OF this] obtain pub where pub: "iw_published v = pub # iw_published w" "republished pending pub"
          using stored rm replay_message_keeps [of pending] by (auto simp: republished_def)
        then have 1: "replay_step_ok ents w v" using frame by (auto simp: replay_step_ok_def)
        obtain y v' where rem: "remove_entry H ?id v = (y, v')" by fastforce
        have "replay_step_ok ents v v'"
          using remove_entry_step(1) [OF rem] here frame pub by auto
        with 1 have "replay_step_ok ents w v'" by (rule replay_step_ok_trans)
        with r rm stored Admitted push Inr rem show ?thesis by (auto simp: replay_entry_def split: sum.splits)
      qed
    qed (use r rm stored in \<open>auto simp: replay_entry_def replay_step_ok_refl\<close>)
  qed
qed

lemma replay_entries_step:
  assumes "\<And>pending q. pending \<in> set ps \<Longrightarrow> ents (iw_wal w) (wp_message_id pending) = Some q \<Longrightarrow> q = pending"
    and "replay_entries H ps report w = (res, w')"
  shows "replay_step_ok ents w w'"
  using assms
proof (induction ps arbitrary: report w)
  case Nil
  then show ?case by (simp add: replay_step_ok_refl)
next
  case (Cons pending ps)
  obtain x v where e: "replay_entry H pending report w = (x, v)" by fastforce
  have 1: "replay_step_ok ents w v"
    by (rule replay_entry_step [OF _ e]) (rule Cons.prems(1), simp_all)
  show ?case
  proof (cases x)
    case (Inr report')
    have "replay_step_ok ents v w'"
    proof (rule Cons.IH)
      show "replay_entries H ps report' v = (res, w')" using Cons.prems(2) e Inr by simp
      fix pending' q assume "pending' \<in> set ps" "ents (iw_wal v) (wp_message_id pending') = Some q"
      then show "q = pending'"
        using 1 Cons.prems(1) [of pending' q] by (auto simp: replay_step_ok_def map_le_def dom_def)
    qed
    with 1 show ?thesis by (rule replay_step_ok_trans)
  qed (use Cons.prems(2) e 1 in simp)
qed

lemma replay_once_step:
  assumes "replay_once H limit w = (res, w')"
  shows "replay_step_ok ents w w'"
proof -
  obtain x l where l: "wal_list (ie_wal (rp_ingest H)) limit (iw_wal w) = (x, l)" by fastforce
  have same: "ents l = ents (iw_wal w)" by (rule log.list_keeps [OF l])
  have 1: "replay_step_ok ents w (w\<lparr>iw_wal := l\<rparr>)" by (simp add: replay_step_ok_def same)
  show ?thesis
  proof (cases x)
    case (Inr ps)
    have "replay_step_ok ents (w\<lparr>iw_wal := l\<rparr>) w'"
    proof (rule replay_entries_step)
      show "replay_entries H ps (default_report\<lparr>rep_scanned := length ps\<rparr>) (w\<lparr>iw_wal := l\<rparr>) = (res, w')"
        using assms l Inr by (simp add: replay_once_def)
    qed (use log.list_sound l Inr same in auto)
    with 1 show ?thesis by (rule replay_step_ok_trans)
  qed (use assms l 1 in \<open>simp add: replay_once_def\<close>)
qed

text \<open>When the log and the publisher answer, an entry is recovered.\<close>

lemma remove_entry_up:
  assumes "\<And>k l. fst (wal_remove (ie_wal (rp_ingest H)) k l) = Ok ()"
  shows "\<exists>w'. remove_entry H k w = (Ok (), w') \<and> ents (iw_wal w') k = None"
proof -
  obtain l where l: "wal_remove (ie_wal (rp_ingest H)) k (iw_wal w) = (Ok (), l)" by (metis assms prod.collapse)
  from log.remove_ok [OF this] l show ?thesis by (simp add: remove_entry_def)
qed

lemma replay_entry_delivers:
  assumes up: "\<And>k l. fst (wal_remove (ie_wal (rp_ingest H)) k l) = Ok ()" and q: "transient_entry q \<or> deliverable H q"
  shows "\<exists>report' w'. replay_entry H q report w = (Ok report', w') \<and> ents (iw_wal w') (wp_message_id q) = None
     \<and> rep_failed report' = rep_failed report \<and> rep_quarantined report' = rep_quarantined report"
proof -
  obtain profile m where rm: "replay_message q = (profile, m)" by fastforce
  let ?mode = "replay_persistence_mode profile m"
  show ?thesis
  proof (cases "should_push_only ?mode (is_temporary profile)")
    case True
    with remove_entry_up [OF up, of "wp_message_id q" w] show ?thesis
      by (auto simp: replay_entry_def rm)
  next
    case False
    with q rm obtain ctx where ctx: "admit_entry H q m = Admitted ctx"
      and push: "\<And>w. fst (push_message (with_ctx (rp_repo H) (rp_call H (wp_message_id q)) ctx (rp_ingest H))
            \<lparr>ms_message = m, ms_message_id = wp_message_id q, ms_timeline = default_timeline\<rparr> profile ?mode w) = Ok ()"
      by (auto simp: transient_entry_def deliverable_def)
    obtain v where "push_message (with_ctx (rp_repo H) (rp_call H (wp_message_id q)) ctx (rp_ingest H))
            \<lparr>ms_message = m, ms_message_id = wp_message_id q, ms_timeline = default_timeline\<rparr> profile ?mode w = (Ok (), v)"
      using push [of w] by (metis prod.collapse)
    with remove_entry_up [OF up, of "wp_message_id q" v] ctx False show ?thesis
      by (auto simp: replay_entry_def rm Let_def)
  qed
qed

lemma replay_entries_delivers:
  assumes up: "\<And>k l. fst (wal_remove (ie_wal (rp_ingest H)) k l) = Ok ()"
    and "\<And>q. q \<in> set ps \<Longrightarrow> transient_entry q \<or> deliverable H q"
    and "\<And>q r. q \<in> set ps \<Longrightarrow> ents (iw_wal w) (wp_message_id q) = Some r \<Longrightarrow> r = q"
  shows "\<exists>report' w'. replay_entries H ps report w = (Ok report', w') \<and> rep_failed report' = rep_failed report
     \<and> rep_quarantined report' = rep_quarantined report \<and> (\<forall>q \<in> set ps. ents (iw_wal w') (wp_message_id q) = None)"
  using assms(2,3)
proof (induction ps arbitrary: report w)
  case Nil
  then show ?case by simp
next
  case (Cons q ps)
  from replay_entry_delivers [OF up, of q report w] Cons.prems(1) obtain report1 w1 where
    1: "replay_entry H q report w = (Ok report1, w1)" "ents (iw_wal w1) (wp_message_id q) = None"
      "rep_failed report1 = rep_failed report" "rep_quarantined report1 = rep_quarantined report" by auto
  have step: "replay_step_ok ents w w1" by (rule replay_entry_step [OF _ 1(1)]) (rule Cons.prems(2), simp_all)
  have here: "r = q'" if "q' \<in> set ps" "ents (iw_wal w1) (wp_message_id q') = Some r" for q' r
    using that step Cons.prems(2) [of q' r] by (auto simp: replay_step_ok_def map_le_def dom_def)
  from Cons.IH [of w1 report1] Cons.prems(1) here obtain report2 w2 where
    2: "replay_entries H ps report1 w1 = (Ok report2, w2)" "rep_failed report2 = rep_failed report1"
      "rep_quarantined report2 = rep_quarantined report1" "\<forall>q \<in> set ps. ents (iw_wal w2) (wp_message_id q) = None" by auto
  have "replay_step_ok ents w1 w2" by (rule replay_entries_step [OF here 2(1)])
  with 1(2) have "ents (iw_wal w2) (wp_message_id q) = None"
    by (auto simp: replay_step_ok_def map_le_def dom_def)
  with 1 2 show ?case by auto
qed

end

section \<open>A concrete replay\<close>

definition example_replay_env :: "(mem_state, message wal_redis, unit mq_world) ingest_env" where
  "example_replay_env = \<lparr>ie_redis = mem_redis, ie_floor_provider = None,
     ie_wal = redis_wal plain_codec (log_config 0 30000 True) [], ie_write_proof = (\<lambda>m. Ok None),
     ie_requires_proof = requires_proof, ie_members = (\<lambda>c. Ok [''alice'', ''bob'']), ie_queue = (\<lambda>p q. (Ok (), q))\<rparr>"

definition example_replay :: "(string, string, string, mem_state, message wal_redis, unit) wal_replay_handler" where
  "example_replay = with_write_verifier (Some ''k'')
     (wal_replay_handler_new example_replay_env example_repo None (\<lambda>t. [''x-tenant-id'' \<mapsto> t]) (\<lambda>m. example_mq_call))"

definition example_replay_world :: "(mem_state, message wal_redis, unit mq_world) ingest_world" where
  "example_replay_world = \<lparr>iw_redis = mem_init, iw_floor_state = Map.empty, iw_wal = example_log,
     iw_queue = \<lparr>mq_state = (), mq_sent = []\<rparr>, iw_published = []\<rparr>"

interpretation example_replay_log: wal_replay example_replay "wal_entries plain_codec"
  by (rule wal_replay.intro)
    (use redis_log.wal_repository_axioms [of 0 30000 True "[]"] in
      \<open>simp add: example_replay_def with_write_verifier_def wal_replay_handler_new_def example_replay_env_def\<close>)

lemma example_log_only: "wal_entries plain_codec example_log k = Some q \<Longrightarrow> q = pending_of example_submission ''t'' None"
proof -
  have "wal_append (redis_wal plain_codec (log_config 0 30000 True) []) example_submission ''t'' None empty_log = (Ok (), example_log)"
    using log_config_key [of 0 30000 True]
    by (auto simp: redis_wal_def example_log_def redis_wal_append_def log_config_def Let_def)
  from redis_log.append_ok [OF this] show "wal_entries plain_codec example_log k = Some q \<Longrightarrow> ?thesis"
    by (auto simp: wal_entries_def empty_log_def wal_live_def split: if_split_asm)
qed

lemma publish_message_up:
  assumes "message_headers R c ctx m = Ok h" and "\<And>b. pr_size R b \<le> MAX_MESSAGE_SIZE" and "\<And>r q. fst (pr_send R r q) = Ok ()"
  shows "fst (publish_message R c ctx m rs cid large w) = Ok ()"
  using assms(2) [of "BodyMq (finalize_mq_headers (mq_envelope_for_main_queue_message_with_headers c m rs h large))"]
    assms(3) assms(1)
  by (auto simp: publish_message_def with_headers_def send_mq_def producer_send_def Let_def not_le [symmetric]
      split: prod.splits sum.splits) (metis fst_conv sum.distinct(1))+

lemma push_message_up:
  assumes "\<not> should_push_only mode (is_temporary p)" and "resolve_persistent_message_recipients E (ms_message sub) = Ok (rs, large)"
    and m': "m' = (if large then ms_message sub else normalize_single_chat_routing (ms_message sub) rs)"
    and q: "fst (ie_queue E (PublishBoth m' rs (m_conversation_id m') large) (iw_queue w)) = Ok ()"
  shows "fst (push_message E sub p mode w) = Ok ()"
proof -
  obtain q' where "ie_queue E (PublishBoth m' rs (m_conversation_id m') large) (iw_queue w) = (Ok (), q')"
    using q by (metis prod.collapse)
  then have "mq_publish E (PublishBoth m' rs (m_conversation_id m') large) w
      = (Ok (), w\<lparr>iw_queue := q', iw_published := PublishBoth m' rs (m_conversation_id m') large # iw_published w\<rparr>)"
    by (simp add: mq_publish_def)
  then show ?thesis using assms(1,2) m' by (cases large) (simp_all add: push_message_def Let_def)
qed

definition example_pending :: wal_pending_message where
  "example_pending = pending_of example_submission ''t'' None"

lemma example_deliverable: "deliverable example_replay example_pending"
proof -
  obtain profile m where rm: "replay_message example_pending = (profile, m)" by fastforce
  let ?R = "rp_repo example_replay" and ?ctx = "replay_ctx example_replay ''t''"
  let ?E = "with_ctx ?R example_mq_call ?ctx (rp_ingest example_replay)"
  have admit: "admit_entry example_replay example_pending m = Admitted ?ctx"
  proof -
    have "\<not> requires_proof (snd (replay_message example_pending))"
      "normalize_optional_tenant_id (Some (wp_tenant_id example_pending)) = Some ''t''" "wp_write_proof example_pending = None"
      by code_simp+
    then show ?thesis using rm by (simp add: admit_entry_def Let_def)
  qed
  have stored: "\<not> should_push_only (replay_persistence_mode profile m) (is_temporary profile)"
  proof -
    have "\<not> transient_entry example_pending" by code_simp
    then show ?thesis by (simp add: transient_entry_def rm)
  qed
  have "case resolve_persistent_message_recipients ?E (snd (replay_message example_pending)) of Inl e \<Rightarrow> False
      | Inr (rs, large) \<Rightarrow> sum.isl (message_headers ?R example_mq_call ?ctx
           (if large then snd (replay_message example_pending)
            else normalize_single_chat_routing (snd (replay_message example_pending)) rs)) = False"
    by code_simp
  then obtain rs large where rs: "resolve_persistent_message_recipients ?E m = Ok (rs, large)"
    and "\<not> sum.isl (message_headers ?R example_mq_call ?ctx (if large then m else normalize_single_chat_routing m rs))"
    unfolding rm snd_conv by (auto split: sum.split_asm)
  then obtain h where h: "message_headers ?R example_mq_call ?ctx (if large then m else normalize_single_chat_routing m rs) = Ok h"
    by (metis sum.collapse(2))
  have repo: "pr_size ?R b \<le> MAX_MESSAGE_SIZE" "fst (pr_send ?R r q) = Ok ()" for b r q
    by (simp_all add: example_replay_def with_write_verifier_def wal_replay_handler_new_def example_repo_def MAX_MESSAGE_SIZE_def)
  have "fst (push_message ?E \<lparr>ms_message = m, ms_message_id = wp_message_id example_pending, ms_timeline = default_timeline\<rparr>
      profile (replay_persistence_mode profile m) w) = Ok ()" for w
  proof (rule push_message_up [OF stored])
    show "resolve_persistent_message_recipients ?E
        (ms_message \<lparr>ms_message = m, ms_message_id = wp_message_id example_pending, ms_timeline = default_timeline\<rparr>) = Ok (rs, large)"
      using rs by simp
    show "(if large then m else normalize_single_chat_routing m rs) =
        (if large then ms_message \<lparr>ms_message = m, ms_message_id = wp_message_id example_pending, ms_timeline = default_timeline\<rparr>
         else normalize_single_chat_routing
           (ms_message \<lparr>ms_message = m, ms_message_id = wp_message_id example_pending, ms_timeline = default_timeline\<rparr>) rs)"
      by simp
    show "fst (ie_queue ?E (PublishBoth (if large then m else normalize_single_chat_routing m rs) rs
        (m_conversation_id (if large then m else normalize_single_chat_routing m rs)) large) (iw_queue w)) = Ok ()"
    proof -
      have "ie_queue ?E = repo_queue ?R example_mq_call ?ctx" by (simp add: with_ctx_def)
      then show ?thesis by (simp only: repo_queue.simps publish_message_up [OF h repo])
    qed
  qed
  moreover have "rp_call example_replay (wp_message_id example_pending) = example_mq_call"
    by (simp add: example_replay_def with_write_verifier_def wal_replay_handler_new_def)
  ultimately show ?thesis using admit by (auto simp: deliverable_def rm)
qed

section \<open>Properties\<close>

text \<open>
  C8: recovery loses nothing. A replay pass, finished or aborted by an error, adds no entry to the log and
  changes none; every entry it removes was either of a kind that is only pushed, or has been published
  for storage with its server id, conversation and sequence number; no earlier publication is undone.
\<close>

theorem replay_loses_nothing:
  assumes "wal_repository (ie_wal (rp_ingest H)) ents" and "replay_once H limit w = (res, w')"
  shows "ents (iw_wal w') \<subseteq>\<^sub>m ents (iw_wal w) \<and> set (iw_published w) \<subseteq> set (iw_published w')
     \<and> (\<forall>k q. ents (iw_wal w) k = Some q \<longrightarrow> ents (iw_wal w') k = None \<longrightarrow>
          transient_entry q \<or> (\<exists>p \<in> set (iw_published w'). republished q p))"
  using wal_replay.replay_once_step [OF wal_replay.intro [OF assms(1)] assms(2)] by (simp add: replay_step_ok_def)

theorem replay_loses_nothing_witness:
  "case replay_once example_replay 10 example_replay_world of
     (res, w') \<Rightarrow> wal_entries plain_codec (iw_wal w') \<subseteq>\<^sub>m wal_entries plain_codec example_log"
proof -
  obtain res w' where r: "replay_once example_replay 10 example_replay_world = (res, w')" by fastforce
  from replay_loses_nothing [OF example_replay_log.log.wal_repository_axioms r] r show ?thesis
    by (simp add: example_replay_world_def)
qed

text \<open>
  C9: recovery delivers. When every listed entry can be published now and the log answers, one pass
  ends with nothing failed or quarantined, each listed entry replayed or skipped, gone from the log
  and, unless it is transient, published for storage.
\<close>

theorem replay_delivers_pending:
  assumes "wal_repository (ie_wal (rp_ingest H)) ents"
    and "\<forall>k l. fst (wal_remove (ie_wal (rp_ingest H)) k l) = Ok ()"
    and "wal_list (ie_wal (rp_ingest H)) limit (iw_wal w) = (Ok ps, l)"
    and "\<forall>q \<in> set ps. transient_entry q \<or> deliverable H q"
  shows "\<exists>report w'. replay_once H limit w = (Ok report, w')
     \<and> rep_failed report = 0 \<and> rep_quarantined report = 0 \<and> rep_replayed report + rep_skipped report = length ps
     \<and> (\<forall>q \<in> set ps. ents (iw_wal w') (wp_message_id q) = None
          \<and> (transient_entry q \<or> (\<exists>p \<in> set (iw_published w'). republished q p)))"
proof -
  have loc: "wal_replay H ents" by (rule wal_replay.intro [OF assms(1)])
  note log = assms(1)
  let ?w = "w\<lparr>iw_wal := l\<rparr>"
  have same: "ents l = ents (iw_wal w)" by (rule wal_repository.list_keeps [OF log assms(3)])
  have here: "ents (iw_wal w) (wp_message_id q) = Some q" if "q \<in> set ps" for q
    by (rule wal_repository.list_sound [OF log assms(3) that])
  have "\<exists>report' w'. replay_entries H ps (default_report\<lparr>rep_scanned := length ps\<rparr>) ?w = (Ok report', w')
      \<and> rep_failed report' = rep_failed (default_report\<lparr>rep_scanned := length ps\<rparr>)
      \<and> rep_quarantined report' = rep_quarantined (default_report\<lparr>rep_scanned := length ps\<rparr>)
      \<and> (\<forall>q \<in> set ps. ents (iw_wal w') (wp_message_id q) = None)"
    by (rule wal_replay.replay_entries_delivers [OF loc]) (use assms(2,4) here same in auto)
  then obtain report w' where r: "replay_entries H ps (default_report\<lparr>rep_scanned := length ps\<rparr>) ?w = (Ok report, w')"
      "rep_failed report = 0" "rep_quarantined report = 0" "\<forall>q \<in> set ps. ents (iw_wal w') (wp_message_id q) = None"
    by (auto simp: default_report_def)
  have once: "replay_once H limit w = (Ok report, w')" using assms(3) r(1) by (simp add: replay_once_def)
  have "replay_step_ok ents w w'" by (rule wal_replay.replay_once_step [OF loc once])
  then have "transient_entry q \<or> (\<exists>p \<in> set (iw_published w'). republished q p)" if "q \<in> set ps" for q
    using here [OF that] r(4) that by (auto simp: replay_step_ok_def)
  moreover have "rep_replayed report + rep_skipped report = length ps"
    using replay_entries_counts [OF r(1)] r(2,3) by (simp add: counted_def default_report_def)
  ultimately show ?thesis using once r by blast
qed

theorem replay_delivers_pending_witness:
  "\<exists>report w'. replay_once example_replay 10 example_replay_world = (Ok report, w')
     \<and> rep_replayed report + rep_skipped report = 1 \<and> wal_entries plain_codec (iw_wal w') ''s1'' = None"
proof -
  let ?W = "ie_wal (rp_ingest example_replay)"
  have W: "?W = redis_wal plain_codec (log_config 0 30000 True) []"
    by (simp add: example_replay_def with_write_verifier_def wal_replay_handler_new_def example_replay_env_def)
  have up: "\<forall>k l. fst (wal_remove ?W k l) = Ok ()"
    using log_config_key [of 0 30000 True] by (auto simp: W redis_wal_def redis_wal_remove_def log_config_def Let_def)
  have "case wal_list ?W 10 (iw_wal example_replay_world) of (Inl e, l) \<Rightarrow> False
      | (Inr ps, l) \<Rightarrow> length ps = 1 \<and> wp_message_id (hd ps) = ''s1''" by code_simp
  then obtain ps l where list: "wal_list ?W 10 (iw_wal example_replay_world) = (Ok ps, l)"
    and ps: "length ps = 1" "wp_message_id (hd ps) = ''s1''"
    by (cases "wal_list ?W 10 (iw_wal example_replay_world)"; cases "fst (wal_list ?W 10 (iw_wal example_replay_world))") auto
  have "wal_entries plain_codec example_log (wp_message_id q) = Some q" if "q \<in> set ps" for q
    using example_replay_log.log.list_sound [OF list that] by (simp add: example_replay_world_def)
  then have "\<forall>q \<in> set ps. transient_entry q \<or> deliverable example_replay q"
    using example_log_only example_deliverable by (metis example_pending_def)
  from replay_delivers_pending [OF example_replay_log.log.wal_repository_axioms up list this] ps show ?thesis
    by (cases ps) auto
qed

text \<open>
  A rerouted machine message is never recovered. The log keeps the proof of the message as it was
  before publishing; publishing in a single chat fills in the peer as channel, the recovered proof no
  longer covers the message, and the entry fails on every pass although everything is up.
\<close>

definition machine_logged_message :: message where
  "machine_logged_message = snd (profile_ensure machine_example_message)"

definition machine_pending :: wal_pending_message where
  "machine_pending = \<lparr>wp_write_proof = Some (projr (stamp plain_proof_lib example_keys ''k'' machine_example_ctx machine_logged_message)),
     wp_message_id = ''srv-7'', wp_tenant_id = ''t1'', wp_message = machine_logged_message\<rparr>"

lemma rerouted_machine_message_stuck:
  "case replay_entry example_replay machine_pending default_report example_replay_world of
     (Inl e, w') \<Rightarrow> False
   | (Inr report, w') \<Rightarrow> rep_failed report = 1 \<and> length (iw_published w') = 0"
  by code_simp

end
