(* ===== verification/Message_Pipeline.thy ===== *)
theory Message_Pipeline
  imports Store_Consumer Wal_Replay
begin

text \<open>
  The way of a message across the services: the ingest service's publication on the main topic, the
  orchestrator's fan-out, the storage writer's admission, and the recovery of a logged message.
\<close>

section \<open>Delivery\<close>

text \<open>What a consumer receives for an accepted record: its headers, and the envelope if it is one.\<close>

definition deliver :: "mq_record \<Rightarrow> delivery" where
  "deliver rec = \<lparr>dl_headers = mr_headers rec,
     dl_envelope = (case mr_body rec of BodyMq mq \<Rightarrow> Some mq | BodyPush e \<Rightarrow> None)\<rparr>"

lemma normalize_tenant_stable:
  assumes "normalize_optional_tenant_id t = Some u"
  shows "normalize_optional_tenant_id (Some u) = Some u"
proof -
  have "trim ''0'' = ''0''" by code_simp
  then show ?thesis
    using assms normalize_optional_Some [of t u] by (auto simp: normalize_optional_tenant_id_def normalize_tenant_id_def Let_def
        DEFAULT_TENANT_ID_def split: if_split_asm)
qed

lemma map_add_same [simp]: "(h :: 'a \<rightharpoonup> 'b) ++ h = h"
  by (auto simp: map_add_def fun_eq_iff split: option.splits)

text \<open>A record with the headers of a call, on a topic, for a message that needs no proof.\<close>

definition carries :: "string \<Rightarrow> message \<Rightarrow> mq_record \<Rightarrow> bool" where
  "carries t m rec \<longleftrightarrow> (\<exists>mq. mr_body rec = BodyMq mq \<and> mr_headers rec = me_headers mq \<and> me_payload mq = Some (PayMessage m)
     \<and> me_payload_kind mq = KindMessage \<and> me_headers mq ''x-tenant-id'' = Some t \<and> me_headers mq WRITE_PROOF_HEADER = None)"

lemma publish_message_record:
  assumes "publish_message R c ctx m rs cid large w = (Ok (), w')" and "\<not> requires_proof m"
  shows "\<exists>rec t. mq_sent w' = rec # mq_sent w \<and> mr_topic rec = TOPIC_MESSAGE_MAIN \<and> carries t m rec
     \<and> normalize_optional_tenant_id (mx_tenant_id ctx) = Some t
     \<and> (\<exists>mq. mr_body rec = BodyMq mq \<and> me_recipients mq = rs \<and> me_large_conversation mq = large)"
proof -
  from assms(1) obtain h where h: "message_headers R c ctx m = Ok h"
    by (cases "message_headers R c ctx m") (simp_all add: publish_message_def with_headers_def)
  from message_headers_Ok [OF h] obtain t h0 where t: "normalize_optional_tenant_id (mx_tenant_id ctx) = Some t" "h ''x-tenant-id'' = Some t"
    and q: "queue_headers (pr_lib R) (pr_keys R) ctx m (pr_signer R) h0 = Inr h" by blast
  have "h WRITE_PROOF_HEADER = None" by (rule queue_headers_Inr(2) [OF q assms(2)])
  with assms(1) h t show ?thesis
    by (auto simp: publish_message_def with_headers_def carries_def mq_envelope_for_main_queue_message_with_headers_def
        WRITE_PROOF_HEADER_def dest!: send_mq_result)
qed

lemma store_message_record:
  assumes "persistence_only_message R c ctx m (m_conversation_id m) w = (Ok (), w')" and "\<not> requires_proof m"
  shows "\<exists>rec t. mq_sent w' = rec # mq_sent w \<and> store_record m rec \<and> carries t m rec
     \<and> normalize_optional_tenant_id (mx_tenant_id ctx) = Some t"
proof -
  from assms(1) obtain h where h: "message_headers R c ctx m = Ok h"
    by (cases "message_headers R c ctx m") (simp_all add: persistence_only_message_def with_headers_def)
  from message_headers_Ok [OF h] obtain t h0 where t: "normalize_optional_tenant_id (mx_tenant_id ctx) = Some t" "h ''x-tenant-id'' = Some t"
    and q: "queue_headers (pr_lib R) (pr_keys R) ctx m (pr_signer R) h0 = Inr h" by blast
  have "h WRITE_PROOF_HEADER = None" by (rule queue_headers_Inr(2) [OF q assms(2)])
  with assms(1) h t store_result [OF assms(1)] show ?thesis
    by (auto simp: persistence_only_message_def with_headers_def carries_def envelope_defs WRITE_PROOF_HEADER_def
        dest!: send_mq_result)
qed

lemma decode_carried:
  assumes rec: "carries t m rec" and C: "reads_metadata (sc_of_metadata C)" and t: "normalize_optional_tenant_id (Some t) = Some t"
    and np: "\<not> requires_proof m"
  shows "\<exists>x. decode_store_message C (deliver rec) = Inr (Some x) \<and> ds_tenant_id x = t
     \<and> scd_message (ds_command x) = scd_message (message_command_from_proto (sc_parse_map C) m)
     \<and> map_option fst (scd_tenant (ds_command x)) = Some t"
proof -
  from rec obtain mq where mq: "mr_body rec = BodyMq mq" "mr_headers rec = me_headers mq" "me_payload mq = Some (PayMessage m)"
     "me_payload_kind mq = KindMessage" "me_headers mq ''x-tenant-id'' = Some t" "me_headers mq WRITE_PROOF_HEADER = None"
    by (auto simp: carries_def)
  have "(me_headers mq)(WRITE_PROOF_HEADER := None) = me_headers mq" using mq(6) by (auto simp: fun_eq_iff)
  moreover have "mx_tenant_id (sc_of_metadata C (me_headers mq)) = Some t" using C mq(5) by (simp add: reads_metadata_def)
  ultimately show ?thesis
    using mq np t by (simp add: decode_store_message_def deliver_def check_proof_def Let_def)
qed

text \<open>The fan-out of a carried message, as the orchestrator's consumer sees it.\<close>

lemma fanout_carried:
  assumes rec: "carries t m rec" "mr_body rec = BodyMq mq" "me_recipients mq = rs" "me_large_conversation mq = large"
    and md: "reads_metadata of_metadata" and t: "normalize_optional_tenant_id (Some t) = Some t" and np: "\<not> requires_proof m"
    and run: "consume_main of_metadata S c (deliver rec) w = (Inr (), w')"
    and m': "m' = (if large then m else fanout_normalize_routing m rs)"
  shows "\<exists>st an. mq_sent (fw_mq w') = an # st # mq_sent (fw_mq w) \<and> store_record m' st \<and> carries t m' st
     \<and> announce_record m' (if large then [] else rs) an"
proof -
  let ?ctx = "of_metadata (me_headers mq)"
  have mq: "mr_headers rec = me_headers mq" "me_payload mq = Some (PayMessage m)" "me_payload_kind mq = KindMessage"
     "me_headers mq ''x-tenant-id'' = Some t"
    using rec(1,2) by (auto simp: carries_def)
  have ctx: "mx_tenant_id ?ctx = Some t" using md mq(4) by (simp add: reads_metadata_def)
  have fan: "fanout_message S c ?ctx m rs large w = (Ok (), w')"
    using run mq rec(2-4) ctx t
    by (auto simp: consume_main_def deliver_def envelope_context_def handle_envelope_def Let_def split: sum.splits prod.splits)
  have np': "\<not> requires_proof m'" using np by (simp add: m')
  obtain r1 q1 where st: "persistence_only_message (fs_repo S) (fc_store c) ?ctx m' (m_conversation_id m') (fw_mq w) = (r1, q1)"
    by fastforce
  have "r1 = Ok ()" using fan st by (cases r1) (simp_all add: fanout_message_def on_mq_def m' Let_def)
  with store_message_record [OF _ np'] st obtain rec' t' where r: "mq_sent q1 = rec' # mq_sent (fw_mq w)" "carries t' m' rec'"
    "normalize_optional_tenant_id (mx_tenant_id ?ctx) = Some t'" by blast
  have "t' = t" using r(3) ctx t by simp
  from fanout_message_steps [OF fan m' st] r fan \<open>t' = t\<close> show ?thesis by auto
qed

section \<open>Recovery\<close>

text \<open>Recovery reads the kind of a logged message the way logging did: it never takes one for transient.\<close>

lemma logged_entry_not_transient:
  assumes "ms_message sub = snd (profile_ensure m)" "trim (m_server_id m) \<noteq> []"
    and "should_write_wal (fst (profile_ensure m)) (ingest_persistence_mode (fst (profile_ensure m)) (ms_message sub))"
  shows "\<not> transient_entry (pending_of sub t pr)"
proof -
  have "replay_message (pending_of sub t pr) = profile_ensure m"
    using assms(1,2) by (simp add: replay_message_def pending_of_def profile_ensure_keeps(5) profile_ensure_idem)
  with assms(1,3) show ?thesis
    by (simp add: transient_entry_def replay_mode_is_ingest_mode should_write_wal_def case_prod_unfold)
qed

lemma write_wal_entry:
  assumes "wal_repository (ie_wal E) ents" and "should_write_wal p mode" and "write_wal_if_needed E sub p mode t w = (Ok (), w')"
  shows "\<exists>pr. ents (iw_wal w') (m_server_id (ms_message sub)) = Some (pending_of sub t pr) \<and> iw_published w' = iw_published w"
proof -
  from assms(2,3) obtain pr l where "wal_append (ie_wal E) sub t pr (iw_wal w) = (Ok (), l)" "w' = w\<lparr>iw_wal := l\<rparr>"
    by (auto simp: write_wal_if_needed_def split: sum.splits if_split_asm prod.splits)
  with wal_repository.append_ok [OF assms(1)] show ?thesis by fastforce
qed

section \<open>Properties\<close>

text \<open>
  C1: end to end. A message the ingest service published on the main topic, once the orchestrator has
  acknowledged it, is on the storage topic and announced to its recipients, in this order, and the storage
  writer accepts it for storage under the tenant of the original call, unchanged but for the peer of
  a single chat and the two transport attributes.
\<close>

theorem sent_message_reaches_writer:
  assumes "publish_message R c ctx m rs cid large w = (Ok (), w1)" and "\<not> requires_proof m"
    and "reads_metadata of_metadata" and "reads_metadata (sc_of_metadata C)"
    and "consume_main of_metadata S fc (deliver (hd (mq_sent w1))) v = (Inr (), v1)"
    and "m' = (if large then m else fanout_normalize_routing m rs)"
  shows "\<exists>t x st an. normalize_optional_tenant_id (mx_tenant_id ctx) = Some t
     \<and> mq_sent (fw_mq v1) = an # st # mq_sent (fw_mq v)
     \<and> mr_topic st = TOPIC_MESSAGE_CREATED \<and> announce_record m' (if large then [] else rs) an
     \<and> decode_store_message C (deliver st) = Inr (Some x) \<and> ds_tenant_id x = t
     \<and> map_option fst (scd_tenant (ds_command x)) = Some t
     \<and> scd_message (ds_command x)
         = Some (m'\<lparr>m_attributes := (m_attributes m')(EXTRA_KEY_SYNC := None, EXTRA_KEY_TAGS := None)\<rparr>)"
proof -
  from publish_message_record [OF assms(1,2)] obtain rec t mq where
    rec: "mq_sent w1 = rec # mq_sent w" "carries t m rec" "mr_body rec = BodyMq mq" "me_recipients mq = rs"
      "me_large_conversation mq = large" and t: "normalize_optional_tenant_id (mx_tenant_id ctx) = Some t" by blast
  note t' = normalize_tenant_stable [OF t]
  have "consume_main of_metadata S fc (deliver rec) v = (Inr (), v1)" using assms(5) rec(1) by simp
  from fanout_carried [OF rec(2-5) assms(3) t' assms(2) this assms(6)] obtain st an where
    st: "mq_sent (fw_mq v1) = an # st # mq_sent (fw_mq v)" "store_record m' st" "carries t m' st"
      "announce_record m' (if large then [] else rs) an" by blast
  have "\<not> requires_proof m'" using assms(2,6) by simp
  from decode_carried [OF st(3) assms(4) t' this] obtain x where
    "decode_store_message C (deliver st) = Inr (Some x)" "ds_tenant_id x = t" "map_option fst (scd_tenant (ds_command x)) = Some t"
    "scd_message (ds_command x) = scd_message (message_command_from_proto (sc_parse_map C) m')" by blast
  with st t show ?thesis by (auto simp: store_record_def message_command_from_proto_def Let_def)
qed

theorem sent_message_reaches_writer_witness:
  "\<exists>w1 v1 st x. publish_message example_repo example_mq_call (plain_of_metadata [''x-tenant-id'' \<mapsto> ''t1'']) example_text [''bob''] ''1-x''
       False \<lparr>mq_state = (), mq_sent = []\<rparr> = (Ok (), w1)
     \<and> consume_main plain_of_metadata example_fanout example_fanout_call (deliver (hd (mq_sent w1))) example_fanout_world = (Inr (), v1)
     \<and> decode_store_message example_consumer (deliver st) = Inr (Some x) \<and> ds_tenant_id x = ''t1'' \<and> st \<in> set (mq_sent (fw_mq v1))"
proof -
  let ?p = "publish_message example_repo example_mq_call (plain_of_metadata [''x-tenant-id'' \<mapsto> ''t1'']) example_text [''bob''] ''1-x''
       False \<lparr>mq_state = (), mq_sent = []\<rparr>"
  let ?c = "consume_main plain_of_metadata example_fanout example_fanout_call (deliver (hd (mq_sent (snd ?p)))) example_fanout_world"
  have "fst ?p = Ok ()" by code_simp
  then have p: "?p = (Ok (), snd ?p)" by (metis prod.collapse)
  have "case fst ?c of Inl e \<Rightarrow> False | Inr u \<Rightarrow> True" by code_simp
  then have "fst ?c = Inr ()" by (cases "fst ?c") auto
  then have c: "?c = (Inr (), snd ?c)" by (metis prod.collapse)
  have np: "\<not> requires_proof example_text" by code_simp
  have md: "reads_metadata (sc_of_metadata example_consumer)" by (simp add: example_consumer_def plain_reads_metadata)
  have "normalize_optional_tenant_id (mx_tenant_id (plain_of_metadata [''x-tenant-id'' \<mapsto> ''t1''])) = Some ''t1''" by code_simp
  with sent_message_reaches_writer [OF p np plain_reads_metadata md c refl] obtain st an x where
    "mq_sent (fw_mq (snd ?c)) = an # st # mq_sent (fw_mq example_fanout_world)"
    "decode_store_message example_consumer (deliver st) = Inr (Some x)" "ds_tenant_id x = ''t1''" by auto
  then show ?thesis using p c by (intro exI [of _ "snd ?p"] exI [of _ "snd ?c"] exI [of _ st] exI [of _ x]) simp
qed

text \<open>
  C10: an acknowledged message survives a crash. After a stored kind of message was logged, any replay
  pass leaves it in the log or has published it for storage with its server id, conversation and
  sequence number; it is never taken for a transient message and dropped.
\<close>

theorem logged_message_kept_or_published:
  assumes "wal_repository (ie_wal E) ents" and "ie_wal (rp_ingest H) = ie_wal E"
    and "ms_message sub = snd (profile_ensure m)" and "trim (m_server_id m) \<noteq> []"
    and "should_write_wal (fst (profile_ensure m)) (ingest_persistence_mode (fst (profile_ensure m)) (ms_message sub))"
    and "write_wal_if_needed E sub (fst (profile_ensure m))
       (ingest_persistence_mode (fst (profile_ensure m)) (ms_message sub)) t w = (Ok (), w1)"
    and "replay_once H limit w1 = (res, w2)"
  shows "\<exists>pr. ents (iw_wal w2) (m_server_id m) = Some (pending_of sub t pr)
     \<or> (\<exists>p \<in> set (iw_published w2). republished (pending_of sub t pr) p)"
proof -
  have id: "m_server_id (ms_message sub) = m_server_id m" by (simp add: assms(3) profile_ensure_keeps(5))
  from write_wal_entry [OF assms(1,5,6)] obtain pr where e: "ents (iw_wal w1) (m_server_id m) = Some (pending_of sub t pr)"
    by (auto simp: id)
  have step: "replay_step_ok ents w1 w2"
    by (rule wal_replay.replay_once_step [OF wal_replay.intro assms(7)]) (use assms(1,2) in simp)
  show ?thesis
  proof (cases "ents (iw_wal w2) (m_server_id m)")
    case None
    with e step logged_entry_not_transient [OF assms(3-5), of t pr] show ?thesis
      unfolding replay_step_ok_def by blast
  next
    case (Some q)
    with step have "ents (iw_wal w1) (m_server_id m) = Some q" by (auto simp: replay_step_ok_def map_le_def dom_def)
    with e Some show ?thesis by auto
  qed
qed

definition example_logged :: message where "example_logged = default_message\<lparr>m_server_id := ''s1''\<rparr>"

definition example_logged_sub :: message_submission where
  "example_logged_sub = \<lparr>ms_message = snd (profile_ensure example_logged), ms_message_id = ''s1'', ms_timeline = default_timeline\<rparr>"

theorem logged_message_kept_or_published_witness:
  "\<exists>w1 pr. case replay_once example_replay 10 w1 of (res, w2) \<Rightarrow>
     wal_entries plain_codec (iw_wal w2) ''s1'' = Some (pending_of example_logged_sub ''t'' pr)
     \<or> (\<exists>p \<in> set (iw_published w2). republished (pending_of example_logged_sub ''t'' pr) p)"
proof -
  let ?p = "fst (profile_ensure example_logged)"
  let ?mode = "ingest_persistence_mode ?p (ms_message example_logged_sub)"
  let ?w = "example_replay_world\<lparr>iw_wal := empty_log\<rparr>"
  let ?r = "write_wal_if_needed example_replay_env example_logged_sub ?p ?mode ''t'' ?w"
  have "fst ?r = Ok ()" by code_simp
  then have wr: "?r = (Ok (), snd ?r)" by (metis prod.collapse)
  have sw: "should_write_wal ?p ?mode" by code_simp
  have id: "trim (m_server_id example_logged) \<noteq> []" "m_server_id example_logged = ''s1''" by code_simp+
  have E: "ie_wal (rp_ingest example_replay) = ie_wal example_replay_env"
    by (simp add: example_replay_def with_write_verifier_def wal_replay_handler_new_def)
  have log: "wal_repository (ie_wal example_replay_env) (wal_entries plain_codec)"
    using example_replay_log.log.wal_repository_axioms E by simp
  have sub: "ms_message example_logged_sub = snd (profile_ensure example_logged)" by (simp add: example_logged_sub_def)
  obtain res w2 where rep: "replay_once example_replay 10 (snd ?r) = (res, w2)" by fastforce
  from logged_message_kept_or_published [OF log E sub id(1) sw wr rep] rep show ?thesis
    unfolding id(2) by (intro exI [of _ "snd ?r"]) simp
qed

end
