(* ===== verification/Operation_Store.thy ===== *)
theory Operation_Store
  imports Event_Stream
begin

text \<open>
  What an operation event does to the tables
  (\<^verbatim>\<open>flare-storage/writer/src/infrastructure/persistence/repository/operation_store.rs\<close> and the retention statements of
  \<^verbatim>\<open>postgres_store.rs\<close>). Tables are maps by their unique key; those without one are lists. Each statement is a function on
  the tables; whether it succeeds is decided where it is called.
\<close>

section \<open>Tables\<close>

record edit_row =
  ed_version :: int
  ed_content :: string
  ed_editor_id :: string
  ed_reason :: "string option"

record binding_row =
  bd_tenant_id :: string
  bd_plugin_id :: string
  bd_contribution_id :: string
  bd_entity :: string
  bd_server_msg_id :: string
  bd_conversation_id :: string
  bd_recalled_at :: "int option"

record lifecycle_row =
  lf_tenant_id :: string
  lf_plugin_id :: string
  lf_contribution_id :: string
  lf_entity :: string
  lf_reason :: string
  lf_server_msg_id :: string

record reaction_row =
  rx_user_ids :: "string list"
  rx_count :: int
  rx_last_updated :: int

record plugin_state_row =
  pl_conversation_id :: string
  pl_plugin_id :: string
  pl_entity :: string
  pl_version :: int
  pl_values_json :: string
  pl_updated_at :: int

record pinned_row =
  pr_pinned_by :: string
  pr_pinned_at :: int
  pr_expire_at :: "int option"
  pr_reason :: "string option"

record history_row =
  hr_tenant_id :: string
  hr_message_id :: string
  hr_operation_type :: string
  hr_operator_id :: string
  hr_operation_data :: string
  hr_timestamp :: int
  hr_identity :: "(string \<times> int) option"

text \<open>\<open>od_keys\<close> is the order in which the message table is scanned.\<close>

record op_db =
  od_archive :: pg_db
  od_keys :: "(string \<times> string \<times> int) list"
  od_events :: event_table
  od_edits :: "string \<times> string \<Rightarrow> edit_row list"
  od_visibility :: "string \<times> string \<times> string \<times> int \<rightharpoonup> int \<times> int"
  od_reads :: "string \<times> string \<times> string \<rightharpoonup> int \<times> int option"
  od_reactions :: "string \<times> string \<times> string \<rightharpoonup> reaction_row"
  od_plugin_states :: "string \<times> string \<rightharpoonup> plugin_state_row"
  od_bindings :: "binding_row list"
  od_lifecycle :: "lifecycle_row list"
  od_pins :: "string \<times> string \<times> string \<times> int \<times> string \<rightharpoonup> pinned_row"
  od_marks :: "string \<times> string \<times> string \<times> int \<rightharpoonup> string \<times> string option \<times> int"
  od_history :: "history_row list"

definition matching :: "(message_row \<Rightarrow> bool) \<Rightarrow> op_db \<Rightarrow> message_row list" where
  "matching P d = filter P (List.map_filter (db_messages (od_archive d)) (od_keys d))"

definition update_rows :: "(message_row \<Rightarrow> bool) \<Rightarrow> (message_row \<Rightarrow> message_row) \<Rightarrow> op_db \<Rightarrow> op_db" where
  "update_rows P f d =
     d\<lparr>od_archive := (od_archive d)\<lparr>db_messages := (\<lambda>k. map_option (\<lambda>row. if P row then f row else row) (db_messages (od_archive d) k))\<rparr>\<rparr>"

section \<open>Status, content, visibility\<close>

definition MESSAGE_STATUS_CREATED :: int where "MESSAGE_STATUS_CREATED = 1"
definition MESSAGE_STATUS_SENT :: int where "MESSAGE_STATUS_SENT = 2"
definition MESSAGE_STATUS_FAILED :: int where "MESSAGE_STATUS_FAILED = 4"
definition MESSAGE_STATUS_RECALLED :: int where "MESSAGE_STATUS_RECALLED = 5"
definition MESSAGE_STATUS_DELETED :: int where "MESSAGE_STATUS_DELETED = 6"

definition to_uppercase :: "string \<Rightarrow> string" where
  "to_uppercase s = map (\<lambda>c. let n = (of_char c :: nat) in if 97 \<le> n \<and> n \<le> 122 then char_of (n - 32) else c) s"

definition fsm_state_to_status_int :: "string \<Rightarrow> int" where
  "fsm_state_to_status_int fsm_state =
     (let s = to_uppercase fsm_state in
      if s \<in> {''CREATED'', ''INIT''} then MESSAGE_STATUS_CREATED
      else if s \<in> {''SENT'', ''EDITED'', ''DELIVERED'', ''READ''} then MESSAGE_STATUS_SENT
      else if s = ''FAILED'' then MESSAGE_STATUS_FAILED
      else if s = ''RECALLED'' then MESSAGE_STATUS_RECALLED
      else if s \<in> {''DELETED_HARD'', ''DELETED_SOFT''} then MESSAGE_STATUS_DELETED
      else MESSAGE_STATUS_SENT)"

definition visibility_status_to_int :: "string \<Rightarrow> int" where
  "visibility_status_to_int status = (let s = to_uppercase status in if s = ''HIDDEN'' then 1 else if s = ''DELETED'' then 2 else 0)"

definition mark_type_to_int :: "string \<Rightarrow> int" where
  "mark_type_to_int mark_type = (let s = to_uppercase mark_type in if s = ''IMPORTANT'' then 1 else if s = ''TODO'' then 2 else if s = ''DONE'' then 3
     else if s = ''CUSTOM'' then 4 else 1)"

definition by_server_id :: "string \<Rightarrow> string \<Rightarrow> message_row \<Rightarrow> bool" where
  "by_server_id t i row \<longleftrightarrow> row_tenant_id row = t \<and> row_server_id row = i"

definition by_client_id :: "string \<Rightarrow> string \<Rightarrow> message_row \<Rightarrow> bool" where
  "by_client_id t i row \<longleftrightarrow> row_tenant_id row = t \<and> row_client_msg_id row = Some i \<and> i \<noteq> []"

definition set_status :: "int \<Rightarrow> message_row \<Rightarrow> message_row" where
  "set_status st row = row\<lparr>row_status := st\<rparr>"

text \<open>The bindings of a recalled card are closed, and one notice per plugin entity is written with them.\<close>

definition closes :: "string \<Rightarrow> string \<Rightarrow> binding_row \<Rightarrow> bool" where
  "closes t i b \<longleftrightarrow> bd_tenant_id b = t \<and> bd_server_msg_id b = i \<and> bd_recalled_at b = None"

fun insert_notices :: "binding_row list \<Rightarrow> lifecycle_row list \<Rightarrow> lifecycle_row list" where
  "insert_notices [] outbox = outbox"
| "insert_notices (b # bs) outbox =
     insert_notices bs
       (if list_ex (\<lambda>l. lf_tenant_id l = bd_tenant_id b \<and> lf_plugin_id l = bd_plugin_id b \<and> lf_entity l = bd_entity b
              \<and> lf_reason l = ''recalled'') outbox
        then outbox
        else outbox @ [\<lparr>lf_tenant_id = bd_tenant_id b, lf_plugin_id = bd_plugin_id b, lf_contribution_id = bd_contribution_id b,
               lf_entity = bd_entity b, lf_reason = ''recalled'', lf_server_msg_id = bd_server_msg_id b\<rparr>])"

definition recall_bindings :: "int \<Rightarrow> string \<Rightarrow> string \<Rightarrow> op_db \<Rightarrow> op_db" where
  "recall_bindings now t i d =
     d\<lparr>od_lifecycle := insert_notices (filter (closes t i) (od_bindings d)) (od_lifecycle d),
       od_bindings := map (\<lambda>b. if closes t i b then b\<lparr>bd_recalled_at := Some now\<rparr> else b) (od_bindings d)\<rparr>"

text \<open>An edit: the first matching row, the next version of its history, then both written in one transaction.\<close>

definition max_version :: "edit_row list \<Rightarrow> int" where
  "max_version es = foldr (\<lambda>e m. max (ed_version e) m) es 0"

definition update_message_content :: "string \<Rightarrow> string \<Rightarrow> string \<Rightarrow> string \<Rightarrow> string option \<Rightarrow> string option \<Rightarrow> op_db \<Rightarrow>
     op_db result" where
  "update_message_content tenant_id message_id new_content editor_id reason content_text d =
     (case matching (\<lambda>row. row_tenant_id row = tenant_id \<and> (row_server_id row = message_id \<or> row_client_msg_id row = Some message_id)) d of
        [] \<Rightarrow> Err (FlareError SystemError (''Message not found: '' @ message_id))
      | row # _ \<Rightarrow>
          let real_server_id = row_server_id row;
              version = max 1 (max_version (od_edits d (tenant_id, real_server_id)) + 1);
              extra = (case content_text of None \<Rightarrow> row_extra row | Some text \<Rightarrow> (row_extra row)(''contentText'' \<mapsto> text));
              extra = extra(''messageFsmState'' \<mapsto> ''EDITED'', ''currentEditVersion'' \<mapsto> show_int version);
              d = update_rows (by_server_id tenant_id real_server_id) (\<lambda>row. row\<lparr>row_content := Some new_content, row_extra := extra\<rparr>) d
          in Ok (d\<lparr>od_edits := (od_edits d)((tenant_id, real_server_id) :=
               od_edits d (tenant_id, real_server_id) @ [\<lparr>ed_version = version, ed_content = new_content, ed_editor_id = editor_id,
                 ed_reason = reason\<rparr>])\<rparr>))"

definition update_message_visibility :: "int \<Rightarrow> string \<Rightarrow> string \<Rightarrow> string \<Rightarrow> int \<Rightarrow> string \<Rightarrow> op_db \<Rightarrow> op_db" where
  "update_message_visibility now tenant_id message_id user_id scope status d =
     d\<lparr>od_visibility := (od_visibility d)((tenant_id, message_id, user_id, scope) \<mapsto> (visibility_status_to_int status, now))\<rparr>"

section \<open>Reads, reactions, pins, marks\<close>

definition record_message_read :: "int \<Rightarrow> string \<Rightarrow> string \<Rightarrow> string \<Rightarrow> op_db \<Rightarrow> op_db" where
  "record_message_read now tenant_id message_id user_id d =
     d\<lparr>od_reads := (od_reads d)((tenant_id, message_id, user_id) \<mapsto>
        (now, (case od_reads d (tenant_id, message_id, user_id) of None \<Rightarrow> None | Some r \<Rightarrow> snd r)))\<rparr>"

datatype reaction_change = RxUnchanged | RxUpdate "string list" int | RxDelete

definition apply_reaction_change :: "string list \<Rightarrow> int \<Rightarrow> string \<Rightarrow> bool \<Rightarrow> reaction_change" where
  "apply_reaction_change user_ids n user_id add =
     (let reacted = user_id \<in> set user_ids in
      if add then (if reacted then RxUnchanged else RxUpdate (user_ids @ [user_id]) (max n 0 + 1))
      else if \<not> reacted then RxUnchanged
      else
        let user_ids = filter (\<lambda>i. i \<noteq> user_id) user_ids;
            n = max (max n 0 - 1) (int (length user_ids))
        in if 0 < n then RxUpdate user_ids n else RxDelete)"

definition upsert_message_reaction :: "int \<Rightarrow> string \<Rightarrow> string \<Rightarrow> string \<Rightarrow> string \<Rightarrow> bool \<Rightarrow> op_db \<Rightarrow> op_db" where
  "upsert_message_reaction now tenant_id message_id emoji user_id add d =
     (let k = (tenant_id, message_id, emoji) in
      case od_reactions d k of
        Some row \<Rightarrow>
          (case apply_reaction_change (rx_user_ids row) (rx_count row) user_id add of
             RxUnchanged \<Rightarrow> d
           | RxUpdate user_ids n \<Rightarrow>
               d\<lparr>od_reactions := (od_reactions d)(k \<mapsto> \<lparr>rx_user_ids = user_ids, rx_count = n, rx_last_updated = now\<rparr>)\<rparr>
           | RxDelete \<Rightarrow> d\<lparr>od_reactions := (od_reactions d)(k := None)\<rparr>)
      | None \<Rightarrow>
          if add then d\<lparr>od_reactions := (od_reactions d)(k \<mapsto> \<lparr>rx_user_ids = [user_id], rx_count = 1, rx_last_updated = now\<rparr>)\<rparr>
          else d)"

definition bound :: "string \<Rightarrow> string \<Rightarrow> plugin_state_event \<Rightarrow> op_db \<Rightarrow> bool" where
  "bound tenant_id conversation_id s d \<longleftrightarrow>
     list_ex (\<lambda>b. bd_tenant_id b = tenant_id \<and> bd_plugin_id b = ps_plugin_id s \<and> bd_entity b = ps_entity s
        \<and> bd_server_msg_id b = ps_server_msg_id s \<and> bd_conversation_id b = conversation_id \<and> bd_recalled_at b = None)
       (od_bindings d)"

definition upsert_message_plugin_state :: "int \<Rightarrow> string \<Rightarrow> string \<Rightarrow> plugin_state_event \<Rightarrow> op_db \<Rightarrow> op_db result" where
  "upsert_message_plugin_state now tenant_id conversation_id s d =
     (if int (ps_version s) > i64_max \<or> ps_version s = 0 then Err (FlareError SystemError ''plugin state version out of range'')
      else
        let k = (tenant_id, ps_server_msg_id s);
            row = \<lparr>pl_conversation_id = conversation_id, pl_plugin_id = ps_plugin_id s, pl_entity = ps_entity s,
              pl_version = int (ps_version s), pl_values_json = ps_values_json s, pl_updated_at = now\<rparr>
        in if \<not> bound tenant_id conversation_id s d then Ok d
           else (case od_plugin_states d k of
                   None \<Rightarrow> Ok (d\<lparr>od_plugin_states := (od_plugin_states d)(k \<mapsto> row)\<rparr>)
                 | Some r \<Rightarrow>
                     if pl_version r < pl_version row \<and> pl_plugin_id r = pl_plugin_id row \<and> pl_entity r = pl_entity row
                     then Ok (d\<lparr>od_plugin_states := (od_plugin_states d)(k \<mapsto>
                        r\<lparr>pl_version := pl_version row, pl_values_json := pl_values_json row, pl_updated_at := now\<rparr>)\<rparr>)
                     else Ok d))"

definition MESSAGE_PIN_SCOPE_SELF :: int where "MESSAGE_PIN_SCOPE_SELF = 1"

definition pin_message :: "int \<Rightarrow> string \<Rightarrow> string \<Rightarrow> string \<Rightarrow> string \<Rightarrow> int \<Rightarrow> bool \<Rightarrow> int option \<Rightarrow> string option \<Rightarrow> op_db \<Rightarrow> op_db" where
  "pin_message now tenant_id message_id conversation_id user_id scope pin expire_at reason d =
     (let owner_user_id = (if scope = MESSAGE_PIN_SCOPE_SELF then user_id else []);
          k = (tenant_id, conversation_id, message_id, scope, owner_user_id)
      in if pin then d\<lparr>od_pins := (od_pins d)(k \<mapsto> \<lparr>pr_pinned_by = user_id, pr_pinned_at = now, pr_expire_at = expire_at, pr_reason = reason\<rparr>)\<rparr>
         else d\<lparr>od_pins := (od_pins d)(k := None)\<rparr>)"

definition mark_message :: "int \<Rightarrow> string \<Rightarrow> string \<Rightarrow> string \<Rightarrow> string \<Rightarrow> string \<Rightarrow> string option \<Rightarrow> bool \<Rightarrow> op_db \<Rightarrow> op_db" where
  "mark_message now tenant_id message_id conversation_id user_id mark_type color add d =
     (let k = (tenant_id, message_id, user_id, mark_type_to_int mark_type) in
      if add then d\<lparr>od_marks := (od_marks d)(k \<mapsto> ((case od_marks d k of None \<Rightarrow> conversation_id | Some m \<Rightarrow> fst m), color, now))\<rparr>
      else d\<lparr>od_marks := (od_marks d)(k := None)\<rparr>)"

section \<open>Retention\<close>

definition burn_columns :: "message_row \<Rightarrow> bool \<times> int option \<times> int \<times> int option \<times> int option \<times> int option" where
  "burn_columns row = row_retention row"

definition burn_pending_ok :: "string \<Rightarrow> string \<Rightarrow> message_row \<Rightarrow> bool" where
  "burn_pending_ok t i row \<longleftrightarrow> by_server_id t i row
     \<and> (case burn_columns row of (enabled, _, status, _, _, burned_at) \<Rightarrow>
          enabled \<and> status \<in> {LEGACY_BURN_STATUS_INIT, LEGACY_BURN_STATUS_READ} \<and> burned_at = None)"

definition schedule_columns :: "int \<Rightarrow> int \<Rightarrow> message_row \<Rightarrow> message_row" where
  "schedule_columns first_read burn_at row =
     (case burn_columns row of (enabled, secs, status, first_read_at, at, burned_at) \<Rightarrow>
        row\<lparr>row_retention := (enabled, secs, LEGACY_BURN_STATUS_BURN_PENDING, or_else first_read_at (Some first_read),
          or_else at (Some burn_at), burned_at)\<rparr>)"

definition least_read :: "string \<times> string \<times> string \<Rightarrow> int \<Rightarrow> op_db \<Rightarrow> op_db" where
  "least_read k at d =
     d\<lparr>od_reads := (od_reads d)(k \<mapsto> (case od_reads d k of None \<Rightarrow> (at, None) | Some (r, b) \<Rightarrow> (min r at, b)))\<rparr>"

definition schedule_after_read :: "int \<Rightarrow> message_row \<Rightarrow> message_row" where
  "schedule_after_read first_read row =
     schedule_columns first_read
       (first_read + max (case burn_columns row of (_, secs, _) \<Rightarrow> case secs of None \<Rightarrow> 0 | Some s \<Rightarrow> s) 1) row"

definition after_read_ok :: "string \<Rightarrow> string \<Rightarrow> message_row \<Rightarrow> bool" where
  "after_read_ok t i row \<longleftrightarrow> burn_pending_ok t i row
     \<and> (case burn_columns row of (_, secs, _) \<Rightarrow> case secs of None \<Rightarrow> False | Some s \<Rightarrow> 0 < s)"

definition wipe :: "int \<Rightarrow> int option \<Rightarrow> message_row \<Rightarrow> message_row" where
  "wipe status burned row =
     (case burn_columns row of (enabled, secs, _, first_read_at, at, burned_at) \<Rightarrow>
        row\<lparr>row_retention := (enabled, secs, status, first_read_at, at, or_else burned_at burned), row_content := Some [],
          row_offline_push_info := None, row_extensions := Map.empty\<rparr>)"

definition burn_due :: "string \<Rightarrow> string \<Rightarrow> message_row \<Rightarrow> bool" where
  "burn_due t i row \<longleftrightarrow> by_server_id t i row
     \<and> (case burn_columns row of (enabled, _, status, _) \<Rightarrow> enabled \<and> status = LEGACY_BURN_STATUS_BURN_PENDING)"

definition purge_due :: "string \<Rightarrow> string \<Rightarrow> message_row \<Rightarrow> bool" where
  "purge_due t i row \<longleftrightarrow> by_server_id t i row
     \<and> (case burn_columns row of (enabled, _, status, _) \<Rightarrow>
          enabled \<and> status \<in> {LEGACY_BURN_STATUS_BURNED, LEGACY_BURN_STATUS_BURN_PENDING})"

definition burn_reads :: "string \<Rightarrow> string \<Rightarrow> int \<Rightarrow> op_db \<Rightarrow> op_db" where
  "burn_reads tenant_id message_id burned_at d =
     d\<lparr>od_reads := (\<lambda>(t, i, u). map_option (\<lambda>(r, b). if t = tenant_id \<and> i = message_id then (r, or_else b (Some burned_at)) else (r, b))
        (od_reads d (t, i, u)))\<rparr>"

section \<open>History\<close>

definition OPERATION_TYPE_NAMES :: "(int \<times> string) list" where
  "OPERATION_TYPE_NAMES = [(1, ''EVENT_MESSAGE''), (2, ''EVENT_MESSAGE_RECALL''), (3, ''EVENT_MESSAGE_EDIT''),
     (4, ''EVENT_MESSAGE_DELETE''), (5, ''EVENT_READ_RECEIPT''), (6, ''EVENT_CONVERSATION_UPDATE''),
     (7, ''EVENT_CONVERSATION_DELETE''), (8, ''EVENT_REACTION''), (9, ''EVENT_PIN''), (10, ''EVENT_UNPIN''), (11, ''EVENT_MARK''),
     (12, ''EVENT_UNMARK''), (13, ''EVENT_MESSAGE_RETENTION_SCHEDULED''), (14, ''EVENT_MESSAGE_RETENTION_EXPIRED''),
     (15, ''EVENT_MESSAGE_RETENTION_PURGED''), (16, ''EVENT_CUSTOM''), (17, ''EVENT_MESSAGE_PLUGIN_STATE'')]"

definition operation_type_name :: "int \<Rightarrow> string" where
  "operation_type_name t = (case map_of OPERATION_TYPE_NAMES t of None \<Rightarrow> ''EVENT_TYPE_UNSPECIFIED'' | Some n \<Rightarrow> n)"

definition operation_history_identity :: "op_event \<Rightarrow> (string \<times> int) option" where
  "operation_history_identity e =
     (if oev_conversation_id e = [] then None else Some (oev_conversation_id e, as_i64 (oev_seq e)))"

definition append_history :: "'p event_codec \<Rightarrow> string \<Rightarrow> string \<Rightarrow> string \<Rightarrow> op_event \<Rightarrow> op_db \<Rightarrow> op_db" where
  "append_history C data tenant_id message_id e d =
     (let identity = operation_history_identity e;
          created_at = (case oev_created_at e of None \<Rightarrow> 0 | Some t \<Rightarrow> t)
      in if identity \<noteq> None \<and> list_ex (\<lambda>h. hr_tenant_id h = tenant_id \<and> hr_message_id h = message_id \<and> hr_identity h = identity) (od_history d)
         then d
         else d\<lparr>od_history := od_history d @ [\<lparr>hr_tenant_id = tenant_id, hr_message_id = message_id,
                hr_operation_type = operation_type_name (event_type_to_proto_i32 (oev_type e)), hr_operator_id = oev_operator_id e,
                hr_operation_data = data,
                hr_timestamp = (if 0 < created_at \<and> ec_date_ok C created_at then created_at else ec_now C),
                hr_identity = identity\<rparr>]\<rparr>)"

end
