(* ===== verification/Operation_Events.thy ===== *)
theory Operation_Events
  imports Operation_Store Store_Consumer
begin

text \<open>
  Operation events (recall, edit, delete, read, reaction, pin, mark, retention, plugin state) in the storage writer: the handlers
  (\<^verbatim>\<open>flare-storage/writer/src/domain/service/event_handlers\<close>), the service that recognizes redeliveries
  (\<^verbatim>\<open>domain/service/message_operation.rs\<close>), the command handler (\<^verbatim>\<open>application/handlers/operation_handler.rs\<close>) and the consumer
  (\<^verbatim>\<open>interface/messaging/operation_consumer.rs\<close>). A handler is a sequence of statements, each of which may fail or go unanswered.
\<close>

section \<open>Statements\<close>

datatype op_stmt =
    StatusByServer | StatusByClient | RecallBindings | EditMessage | SetVisibility | ReadRecord nat | BurnAfterRead nat
  | BurnReadRecord nat | SetReaction | SetPluginState | SetPin | SetMark nat | SetBurn | SetBurnReads | AppendHistory nat

record 'p op_env =
  oe_codec :: "'p event_codec"
  oe_stream :: stream_env
  oe_ends :: "op_stmt \<Rightarrow> stmt_end"
  oe_content_text :: "string \<Rightarrow> string option"
  oe_shared_state_ok :: "string \<Rightarrow> nat \<Rightarrow> string \<Rightarrow> bool"
  oe_event_data :: "op_event \<Rightarrow> string"

text \<open>A step runs its statement when its guard holds; a step that is not required only logs its failure.\<close>

record op_step =
  st_label :: op_stmt
  st_guard :: "op_db \<Rightarrow> bool"
  st_run :: "op_db \<Rightarrow> op_db result"
  st_required :: bool

definition op_db_error :: flare_error where
  "op_db_error = FlareError DatabaseError ''Database operation failed''"

fun run_steps :: "(op_stmt \<Rightarrow> stmt_end) \<Rightarrow> op_step list \<Rightarrow> op_db \<Rightarrow> unit result \<times> op_db" where
  "run_steps ends [] d = (Ok (), d)"
| "run_steps ends (s # ss) d =
     (if \<not> st_guard s d then run_steps ends ss d
      else (case ends (st_label s) of
         Failed \<Rightarrow> if st_required s then (Err op_db_error, d) else run_steps ends ss d
       | Unanswered \<Rightarrow>
           (case st_run s d of
              Inl e \<Rightarrow> if st_required s then (Err op_db_error, d) else run_steps ends ss d
            | Inr d \<Rightarrow> if st_required s then (Err op_db_error, d) else run_steps ends ss d)
       | Done \<Rightarrow>
           (case st_run s d of
              Inl e \<Rightarrow> if st_required s then (Err op_db_error, d) else run_steps ends ss d
            | Inr d \<Rightarrow> run_steps ends ss d)))"

definition simple_step :: "op_stmt \<Rightarrow> (op_db \<Rightarrow> op_db) \<Rightarrow> op_step" where
  "simple_step l f = \<lparr>st_label = l, st_guard = (\<lambda>_. True), st_run = (\<lambda>d. Ok (f d)), st_required = True\<rparr>"

definition guarded_step :: "op_stmt \<Rightarrow> (op_db \<Rightarrow> bool) \<Rightarrow> (op_db \<Rightarrow> op_db) \<Rightarrow> op_step" where
  "guarded_step l g f = (simple_step l f)\<lparr>st_guard := g\<rparr>"

definition best_effort :: "op_step \<Rightarrow> op_step" where
  "best_effort s = s\<lparr>st_required := False\<rparr>"

section \<open>Handlers\<close>

definition stream_append_failure :: "flare_error \<Rightarrow> flare_error" where
  "stream_append_failure e =
     (if err_code e = HttpConflict then e
      else FlareError DatabaseError (''Failed to append operation event to durable event stream: '' @ err_msg e))"

definition append_stream :: "'p op_env \<Rightarrow> op_event \<Rightarrow> op_db \<Rightarrow> unit result \<times> op_db" where
  "append_stream E e d =
     (case append_event_to_stream (oe_codec E) (oe_stream E) e (od_events d) of
        (Inl err, t) \<Rightarrow> (Err (stream_append_failure err), d\<lparr>od_events := t\<rparr>)
      | (Inr _, t) \<Rightarrow> (Ok (), d\<lparr>od_events := t\<rparr>))"

definition history_step :: "'p op_env \<Rightarrow> nat \<Rightarrow> string \<Rightarrow> op_event \<Rightarrow> op_step" where
  "history_step E i message_id e =
     simple_step (AppendHistory i) (append_history (oe_codec E) (oe_event_data E e) (oev_tenant_id e) message_id e)"

text \<open>The statements of a handler in order, then the event stream.\<close>

definition steps_then_stream :: "'p op_env \<Rightarrow> op_event \<Rightarrow> op_step list \<Rightarrow> op_db \<Rightarrow> unit result \<times> op_db" where
  "steps_then_stream E e ss d =
     (case run_steps (oe_ends E) ss d of
        (Inl err, d) \<Rightarrow> (Err err, d)
      | (Inr _, d) \<Rightarrow> append_stream E e d)"

definition now_of :: "'p op_env \<Rightarrow> int" where "now_of E = ec_now (oe_codec E)"

definition fsm_steps :: "'p op_env \<Rightarrow> string \<Rightarrow> string \<Rightarrow> string \<Rightarrow> op_step list" where
  "fsm_steps E tenant_id message_id fsm_state =
     (let st = fsm_state_to_status_int fsm_state in
      if trim message_id = [] then []
      else [simple_step StatusByServer (update_rows (by_server_id tenant_id message_id) (set_status st)),
            guarded_step StatusByClient (\<lambda>d. matching (by_server_id tenant_id message_id) d = [])
              (update_rows (by_client_id tenant_id message_id) (set_status st)),
            guarded_step RecallBindings (\<lambda>_. st = MESSAGE_STATUS_RECALLED) (recall_bindings (now_of E) tenant_id message_id)])"

definition recall_steps :: "'p op_env \<Rightarrow> op_event \<Rightarrow> string \<Rightarrow> op_step list" where
  "recall_steps E e message_id = fsm_steps E (oev_tenant_id e) message_id ''RECALLED'' @ [history_step E 0 message_id e]"

definition apply_recall :: "'p op_env \<Rightarrow> op_event \<Rightarrow> string \<Rightarrow> op_db \<Rightarrow> unit result \<times> op_db" where
  "apply_recall E e message_id d =
     (if trim message_id = [] then (Ok (), d)
      else steps_then_stream E e (recall_steps E e message_id) d)"

definition edit_steps :: "'p op_env \<Rightarrow> op_event \<Rightarrow> string \<Rightarrow> string \<Rightarrow> string \<Rightarrow> op_step list" where
  "edit_steps E e message_id new_content reason =
     [\<lparr>st_label = EditMessage, st_guard = (\<lambda>_. True),
       st_run = update_message_content (oev_tenant_id e) message_id new_content (oev_operator_id e) (non_empty reason)
         (oe_content_text E new_content), st_required = True\<rparr>,
      history_step E 0 message_id e]"

definition apply_edit :: "'p op_env \<Rightarrow> op_event \<Rightarrow> string \<Rightarrow> string \<Rightarrow> string \<Rightarrow> op_db \<Rightarrow> unit result \<times> op_db" where
  "apply_edit E e message_id new_content reason d = steps_then_stream E e (edit_steps E e message_id new_content reason) d"

definition DELETE_TYPE_HARD :: int where "DELETE_TYPE_HARD = 2"
definition DELETE_SCOPE_USER_PRIVATE :: int where "DELETE_SCOPE_USER_PRIVATE = 1"
definition DELETE_SCOPE_CONVERSATION_GLOBAL :: int where "DELETE_SCOPE_CONVERSATION_GLOBAL = 2"

definition visibility_user :: "op_event \<Rightarrow> delete_payload \<Rightarrow> string" where
  "visibility_user e p =
     (let scope = (case dp_scope p of None \<Rightarrow> DELETE_SCOPE_USER_PRIVATE | Some s \<Rightarrow> s) in
      if scope = DELETE_SCOPE_CONVERSATION_GLOBAL then []
      else (case keep_if (\<lambda>u. u \<noteq> []) (dp_target_user_id p) of None \<Rightarrow> oev_operator_id e | Some u \<Rightarrow> u))"

definition delete_steps :: "'p op_env \<Rightarrow> op_event \<Rightarrow> delete_payload \<Rightarrow> op_step list" where
  "delete_steps E e p =
     (let message_id = dp_server_msg_id p in
      (if (case dp_delete_type p of None \<Rightarrow> 0 | Some t \<Rightarrow> t) = DELETE_TYPE_HARD
       then fsm_steps E (oev_tenant_id e) message_id ''DELETED_HARD''
       else [simple_step SetVisibility (update_message_visibility (now_of E) (oev_tenant_id e) message_id (visibility_user e p)
               (case dp_scope p of None \<Rightarrow> DELETE_SCOPE_USER_PRIVATE | Some s \<Rightarrow> s) ''HIDDEN'')])
      @ [history_step E 0 message_id e])"

definition apply_delete :: "'p op_env \<Rightarrow> op_event \<Rightarrow> delete_payload \<Rightarrow> op_db \<Rightarrow> unit result \<times> op_db" where
  "apply_delete E e p d =
     (if trim (dp_server_msg_id p) = [] then (Ok (), d) else steps_then_stream E e (delete_steps E e p) d)"

text \<open>The seconds of \<^verbatim>\<open>millis_to_timestamp\<close>: the quotient is rounded towards zero.\<close>

definition millis_to_seconds :: "int \<Rightarrow> int" where
  "millis_to_seconds ms = (if ms < 0 then - (- ms div 1000) else ms div 1000)"

definition after_read_steps :: "'p op_env \<Rightarrow> op_event \<Rightarrow> read_payload \<Rightarrow> nat \<Rightarrow> string \<Rightarrow> op_step list" where
  "after_read_steps E e p i message_id =
     (let t = oev_tenant_id e;
          first_read_at = (case or_else (rd_read_at p) (oev_created_at e) of None \<Rightarrow> now_of E div 1000 | Some ms \<Rightarrow> millis_to_seconds ms)
      in if rd_burn_after_read p = Some True
         then [\<lparr>st_label = BurnAfterRead i, st_guard = (\<lambda>_. True), st_run = (\<lambda>d.
                 Ok (let changed = (matching (after_read_ok t message_id) d \<noteq> []);
                         d = update_rows (after_read_ok t message_id) (schedule_after_read first_read_at) d
                     in if changed \<and> oe_ends E (BurnReadRecord i) \<noteq> Failed
                        then least_read (t, message_id, rd_user_id p) (first_read_at * 1000) d else d)),
                 st_required = True\<rparr>]
         else [])"

fun read_steps :: "'p op_env \<Rightarrow> op_event \<Rightarrow> read_payload \<Rightarrow> nat \<Rightarrow> string list \<Rightarrow> op_step list" where
  "read_steps E e p i [] = []"
| "read_steps E e p i (m # ms) =
     simple_step (ReadRecord i) (record_message_read (now_of E) (oev_tenant_id e) m (rd_user_id p))
     # after_read_steps E e p i m @ history_step E i m e # read_steps E e p (i + 1) ms"

definition apply_read :: "'p op_env \<Rightarrow> op_event \<Rightarrow> read_payload \<Rightarrow> op_db \<Rightarrow> unit result \<times> op_db" where
  "apply_read E e p d = steps_then_stream E e (read_steps E e p 0 (rd_message_ids p)) d"

definition REACTION_ACTION_ADD :: int where "REACTION_ACTION_ADD = 1"

definition reaction_steps :: "'p op_env \<Rightarrow> op_event \<Rightarrow> string \<Rightarrow> string \<Rightarrow> string \<Rightarrow> int \<Rightarrow> op_step list" where
  "reaction_steps E e message_id user_id emoji action =
     [simple_step SetReaction (upsert_message_reaction (now_of E) (oev_tenant_id e) message_id emoji user_id (action = REACTION_ACTION_ADD)),
      history_step E 0 message_id e]"

definition apply_reaction :: "'p op_env \<Rightarrow> op_event \<Rightarrow> string \<Rightarrow> string \<Rightarrow> string \<Rightarrow> int \<Rightarrow> op_db \<Rightarrow> unit result \<times> op_db" where
  "apply_reaction E e message_id user_id emoji action d =
     steps_then_stream E e (reaction_steps E e message_id user_id emoji action) d"

definition pin_steps :: "'p op_env \<Rightarrow> op_event \<Rightarrow> string \<Rightarrow> string \<Rightarrow> int \<Rightarrow> bool \<Rightarrow> int option \<Rightarrow> string option \<Rightarrow> op_step list" where
  "pin_steps E e message_id user_id scope pin expire_at reason =
     [simple_step SetPin (pin_message (now_of E) (oev_tenant_id e) message_id (oev_conversation_id e) user_id scope pin expire_at reason),
      history_step E 0 message_id e]"

definition apply_pin :: "'p op_env \<Rightarrow> op_event \<Rightarrow> pin_payload \<Rightarrow> op_db \<Rightarrow> unit result \<times> op_db" where
  "apply_pin E e p d =
     steps_then_stream E e (pin_steps E e (pn_server_msg_id p) (pn_pinned_by p) (pn_scope p) True (pn_expire_at p)
       (keep_if (\<lambda>s. s \<noteq> []) (pn_reason p))) d"

definition apply_unpin :: "'p op_env \<Rightarrow> op_event \<Rightarrow> string \<Rightarrow> string \<Rightarrow> int \<Rightarrow> op_db \<Rightarrow> unit result \<times> op_db" where
  "apply_unpin E e message_id unpinned_by scope d =
     steps_then_stream E e (pin_steps E e message_id unpinned_by scope False None None) d"

definition MARK_TYPES :: "(int \<times> string) list" where
  "MARK_TYPES = [(1, ''IMPORTANT''), (2, ''TODO''), (3, ''DONE''), (4, ''CUSTOM'')]"

definition mark_step :: "'p op_env \<Rightarrow> op_event \<Rightarrow> nat \<Rightarrow> string \<Rightarrow> string \<Rightarrow> string \<Rightarrow> string option \<Rightarrow> bool \<Rightarrow> op_step" where
  "mark_step E e i message_id user_id mark_type color add =
     simple_step (SetMark i) (mark_message (now_of E) (oev_tenant_id e) message_id (oev_conversation_id e) user_id mark_type color add)"

definition mark_steps :: "'p op_env \<Rightarrow> op_event \<Rightarrow> string \<Rightarrow> string \<Rightarrow> string \<Rightarrow> string \<Rightarrow> op_step list" where
  "mark_steps E e message_id user_id mt color =
     [mark_step E e 0 message_id user_id mt (non_empty color) True, history_step E 0 message_id e]"

definition apply_mark :: "'p op_env \<Rightarrow> op_event \<Rightarrow> string \<Rightarrow> string \<Rightarrow> int \<Rightarrow> string \<Rightarrow> op_db \<Rightarrow> unit result \<times> op_db" where
  "apply_mark E e message_id user_id mark_type color d =
     (case map_of MARK_TYPES mark_type of
        None \<Rightarrow> (Err (FlareError InvalidParameter ''Invalid mark_type''), d)
      | Some mt \<Rightarrow> steps_then_stream E e (mark_steps E e message_id user_id mt color) d)"

definition unmark_steps :: "'p op_env \<Rightarrow> op_event \<Rightarrow> string \<Rightarrow> string \<Rightarrow> int \<Rightarrow> op_step list" where
  "unmark_steps E e message_id user_id mark_type =
     (case map_of MARK_TYPES mark_type of
        Some mt \<Rightarrow> [mark_step E e 0 message_id user_id mt None False]
      | None \<Rightarrow> map (\<lambda>(i, mt). best_effort (mark_step E e (nat i) message_id user_id mt None False)) MARK_TYPES)
     @ [history_step E 0 message_id e]"

definition apply_unmark :: "'p op_env \<Rightarrow> op_event \<Rightarrow> string \<Rightarrow> string \<Rightarrow> int \<Rightarrow> op_db \<Rightarrow> unit result \<times> op_db" where
  "apply_unmark E e message_id user_id mark_type d =
     steps_then_stream E e (unmark_steps E e message_id user_id mark_type) d"

text \<open>
  The retention events are appended only when their update changed a row.
\<close>

definition apply_burn_update :: "'p op_env \<Rightarrow> op_event \<Rightarrow> string \<Rightarrow> (message_row \<Rightarrow> bool) \<Rightarrow> (message_row \<Rightarrow> message_row) \<Rightarrow>
     (op_db \<Rightarrow> op_db) option \<Rightarrow> op_db \<Rightarrow> unit result \<times> op_db" where
  "apply_burn_update E e message_id P f reads d =
     (let changed = (matching P d \<noteq> []) in
      case run_steps (oe_ends E)
          (simple_step SetBurn (update_rows P f)
           # (case reads of None \<Rightarrow> [] | Some g \<Rightarrow> [best_effort (guarded_step SetBurnReads (\<lambda>_. changed) g)])) d of
        (Inl err, d) \<Rightarrow> (Err err, d)
      | (Inr _, d) \<Rightarrow> if changed then steps_then_stream E e [history_step E 0 message_id e] d else (Ok (), d))"

definition apply_burn_scheduled :: "'p op_env \<Rightarrow> op_event \<Rightarrow> burn_payload \<Rightarrow> op_db \<Rightarrow> unit result \<times> op_db" where
  "apply_burn_scheduled E e p d =
     (let t = oev_tenant_id e; i = bn_message_id p in
      apply_burn_update E e i (burn_pending_ok t i) (schedule_columns (bn_event_time p) (bn_burn_at p))
        (map_option (\<lambda>u. least_read (t, i, u) (bn_event_time p * 1000)) (bn_reader_id p)) d)"

definition apply_burned :: "'p op_env \<Rightarrow> op_event \<Rightarrow> burn_payload \<Rightarrow> op_db \<Rightarrow> unit result \<times> op_db" where
  "apply_burned E e p d =
     (let t = oev_tenant_id e; i = bn_message_id p in
      apply_burn_update E e i (burn_due t i) (wipe LEGACY_BURN_STATUS_BURNED (Some (bn_burned_at p)))
        (Some (burn_reads t i (bn_burned_at p * 1000))) d)"

definition apply_hard_deleted :: "'p op_env \<Rightarrow> op_event \<Rightarrow> burn_payload \<Rightarrow> op_db \<Rightarrow> unit result \<times> op_db" where
  "apply_hard_deleted E e p d =
     (let t = oev_tenant_id e; i = bn_message_id p in
      apply_burn_update E e i (purge_due t i) (wipe LEGACY_BURN_STATUS_HARD_DELETED None) None d)"

definition plugin_state_steps :: "'p op_env \<Rightarrow> op_event \<Rightarrow> plugin_state_event \<Rightarrow> op_step list" where
  "plugin_state_steps E e s =
     [\<lparr>st_label = SetPluginState, st_guard = (\<lambda>_. True),
       st_run = upsert_message_plugin_state (now_of E) (oev_tenant_id e) (oev_conversation_id e) s, st_required = True\<rparr>,
      history_step E 0 (ps_server_msg_id s) e]"

definition apply_plugin_state :: "'p op_env \<Rightarrow> op_event \<Rightarrow> plugin_state_event \<Rightarrow> op_db \<Rightarrow> unit result \<times> op_db" where
  "apply_plugin_state E e s d =
     (if ps_server_msg_id s = [] \<or> ps_plugin_id s = [] \<or> \<not> oe_shared_state_ok E (ps_entity s) (ps_version s) (ps_values_json s)
      then (Err (FlareError InvalidParameter ''invalid plugin state event''), d)
      else steps_then_stream E e (plugin_state_steps E e s) d)"

definition dispatch_event :: "'p op_env \<Rightarrow> op_event \<Rightarrow> op_db \<Rightarrow> unit result \<times> op_db" where
  "dispatch_event E e d =
     (case oev_payload e of
        Some (OpRecall i reason) \<Rightarrow> apply_recall E e i d
      | Some (OpEdit i new_content reason) \<Rightarrow> apply_edit E e i new_content reason d
      | Some (OpDelete p) \<Rightarrow> apply_delete E e p d
      | Some (OpRead p) \<Rightarrow> apply_read E e p d
      | Some (OpReaction i user emoji action) \<Rightarrow> apply_reaction E e i user emoji action d
      | Some (OpPin p) \<Rightarrow> apply_pin E e p d
      | Some (OpUnpin i by_user scope) \<Rightarrow> apply_unpin E e i by_user scope d
      | Some (OpMark i user mark_type color) \<Rightarrow> apply_mark E e i user mark_type color d
      | Some (OpUnmark i user mark_type) \<Rightarrow> apply_unmark E e i user mark_type d
      | Some (OpBurnScheduled p) \<Rightarrow> apply_burn_scheduled E e p d
      | Some (OpBurned p) \<Rightarrow> apply_burned E e p d
      | Some (OpHardDeleted p) \<Rightarrow> apply_hard_deleted E e p d
      | Some (OpPluginState s) \<Rightarrow> apply_plugin_state E e s d
      | _ \<Rightarrow> (Ok (), d))"

section \<open>Service, handler, consumer\<close>

definition process_event :: "'p op_env \<Rightarrow> op_event \<Rightarrow> op_db \<Rightarrow> unit result \<times> op_db" where
  "process_event E e d =
     (if oev_tenant_id e = [] then (Err (FlareError InvalidParameter ''Event.tenant_id is required''), d)
      else (case match_stored_event (oe_codec E) (oe_stream E) e (od_events d) of
         Inl err \<Rightarrow> (Err (FlareError DatabaseError (''Failed to check stored event: '' @ err_msg err)), d)
       | Inr Absent \<Rightarrow> dispatch_event E e d
       | Inr Duplicate \<Rightarrow> (Ok (), d)
       | Inr (StoredConflict existing_event_type) \<Rightarrow>
           (Err (FlareError HttpConflict (''operation event conflict tenant_id='' @ oev_tenant_id e @ '' conversation_id=''
              @ oev_conversation_id e @ '' seq='' @ show_int (as_i64 (oev_seq e)) @ '' existing_type='' @ show_int existing_event_type)), d)))"

definition is_operation_conflict :: "flare_error \<Rightarrow> bool" where
  "is_operation_conflict e \<longleftrightarrow> err_code e = HttpConflict"

definition handle_operation :: "'p op_env \<Rightarrow> op_event \<Rightarrow> op_db \<Rightarrow> unit result \<times> op_db" where
  "handle_operation E e d =
     (case process_event E e d of
        (Inl err, d) \<Rightarrow>
          (Err (if is_operation_conflict err then err else FlareError DatabaseError (''Database operation failed: '' @ err_msg err)), d)
      | (Inr _, d) \<Rightarrow> (Ok (), d))"

definition operation_failure :: "flare_error \<Rightarrow> consumer_error" where
  "operation_failure e =
     (if is_operation_conflict e then DeadLetter (''operation event conflict: '' @ err_msg e)
      else HandlerError (''MessageOperationCommandHandler error: '' @ err_msg e))"

text \<open>The encoded form of a message content and the number of an event type without a name here are parameters.\<close>

definition event_payload_from_proto :: "(content option \<Rightarrow> string) \<Rightarrow> event_payload \<Rightarrow> op_payload option" where
  "event_payload_from_proto encode p =
     (let expire_at = (\<lambda>e. case Option.bind (rte_state e) rt_expire_at of None \<Rightarrow> 0 | Some t \<Rightarrow> t);
          burn = (\<lambda>e burned_at. \<lparr>bn_message_id = rte_server_msg_id e, bn_reader_id = rte_reader_id e, bn_burn_at = expire_at e,
            bn_burned_at = burned_at, bn_event_time = rte_at e\<rparr>)
      in case p of
        EvRecall r \<Rightarrow> Some (OpRecall (rce_server_msg_id r) (rce_reason r))
      | EvEdit e \<Rightarrow> Some (OpEdit (ede_server_msg_id e) (case ede_new_content e of None \<Rightarrow> [] | Some c \<Rightarrow> encode c) (ede_reason e))
      | EvDelete e \<Rightarrow> Some (OpDelete \<lparr>dp_server_msg_id = dle_server_msg_id e, dp_delete_type = dle_delete_type e, dp_scope = dle_scope e,
          dp_target_user_id = dle_target_user_id e\<rparr>)
      | EvRead e \<Rightarrow> Some (OpRead \<lparr>rd_read_seq = rde_read_seq e, rd_user_id = rde_user_id e, rd_message_ids = rde_message_ids e,
          rd_read_at = rde_read_at e, rd_burn_after_read = None\<rparr>)
      | EvReaction e \<Rightarrow> Some (OpReaction (rxe_server_msg_id e) (rxe_user_id e) (rxe_emoji e) (rxe_action e))
      | EvPin e \<Rightarrow> Some (OpPin \<lparr>pn_server_msg_id = pne_server_msg_id e, pn_pinned_by = pne_pinned_by e, pn_reason = pne_reason e,
          pn_expire_at = pne_expire_at e, pn_scope = pne_scope e\<rparr>)
      | EvUnpin e \<Rightarrow> Some (OpUnpin (une_server_msg_id e) (une_unpinned_by e) (une_scope e))
      | EvMark e \<Rightarrow> Some (OpMark (mke_server_msg_id e) (mke_user_id e) (mke_mark_type e) (mke_color e))
      | EvUnmark e \<Rightarrow> Some (OpUnmark (ume_server_msg_id e) (ume_user_id e) (ume_mark_type e))
      | EvRetentionScheduled e \<Rightarrow> Some (OpBurnScheduled (burn e 0))
      | EvRetentionExpired e \<Rightarrow> Some (OpBurned (burn e (rte_at e)))
      | EvRetentionPurged e \<Rightarrow> Some (OpHardDeleted (burn e (case Option.bind (rte_state e) rt_expired_at of None \<Rightarrow> 0 | Some t \<Rightarrow> t)))
      | PluginState s \<Rightarrow> Some (OpPluginState s)
      | _ \<Rightarrow> None)"

definition event_from_proto :: "(content option \<Rightarrow> string) \<Rightarrow> (event_type \<Rightarrow> int) \<Rightarrow> event \<Rightarrow> op_event" where
  "event_from_proto encode number p =
     \<lparr>oev_tenant_id = [], oev_conversation_id = ev_conversation_id p, oev_seq = ev_conversation_seq p,
      oev_type = event_type_from_i32 (number (ev_type p)),
      oev_created_at = (if 0 < ev_created_at p then Some (ev_created_at p) else None), oev_operator_id = [],
      oev_event_seq = None, oev_request_id = ev_request_id p, oev_payload = Option.bind (ev_payload p) (event_payload_from_proto encode)\<rparr>"

definition enrich_operation_event_from_ctx :: "mq_ctx \<Rightarrow> op_event \<Rightarrow> op_event option" where
  "enrich_operation_event_from_ctx ctx e =
     (case (if trim (oev_tenant_id e) = [] then normalize_optional_tenant_id (mx_tenant_id ctx) else Some (oev_tenant_id e)) of
        None \<Rightarrow> None
      | Some t \<Rightarrow>
          Some (e\<lparr>oev_tenant_id := t,
            oev_operator_id := (if oev_operator_id e = []
              then (case keep_if (\<lambda>s. s \<noteq> []) (map_option trim (mx_user_id ctx)) of None \<Rightarrow> [] | Some u \<Rightarrow> u)
              else oev_operator_id e)\<rparr>))"

record operation_consumer =
  oc_of_metadata :: "(string \<rightharpoonup> string) \<Rightarrow> mq_ctx"
  oc_encode :: "content option \<Rightarrow> string"
  oc_number :: "event_type \<Rightarrow> int"

definition consume_operation :: "operation_consumer \<Rightarrow> 'p op_env \<Rightarrow> delivery \<Rightarrow> op_db \<Rightarrow> (consumer_error + message_result) \<times> op_db" where
  "consume_operation OC E x d =
     (case dl_envelope x of
        None \<Rightarrow> (Inl (Deserialization ''Failed to deserialize MqEnvelope''), d)
      | Some env \<Rightarrow>
          if me_payload_kind env \<noteq> KindEvent then (Inr Ack, d)
          else (case me_payload env of
             Some (PayEvent p) \<Rightarrow>
               let ctx = oc_of_metadata OC (dl_headers x ++ me_headers env) in
               (case enrich_operation_event_from_ctx ctx (event_from_proto (oc_encode OC) (oc_number OC) p) of
                  None \<Rightarrow> (Inl (DeadLetter ''operation event without a tenant header''), d)
                | Some e \<Rightarrow>
                    (case handle_operation E e d of
                       (Inr _, d) \<Rightarrow> (Inr Ack, d)
                     | (Inl err, d) \<Rightarrow> (Inl (operation_failure err), d)))
           | _ \<Rightarrow> (Inl (Deserialization ''Event payload is missing or not Event variant''), d)))"

end
