(* ===== verification/Operation_Redelivery.thy ===== *)
theory Operation_Redelivery
  imports Operation_Events "HOL-Library.Sublist"
begin

text \<open>
  What operation events do to the storage: which parts of the tables they may touch, what an acknowledged event leaves, and that a
  delivery that failed anywhere can be repeated.
\<close>

section \<open>Effects of steps\<close>

definition eff :: "op_step \<Rightarrow> op_db \<Rightarrow> op_db" where
  "eff s d = (if st_guard s d then (case st_run s d of Inl e \<Rightarrow> d | Inr d' \<Rightarrow> d') else d)"

lemma eff_simple [simp]: "eff (simple_step l f) d = f d"
  by (simp add: eff_def simple_step_def)

lemma eff_guarded [simp]: "eff (guarded_step l g f) d = (if g d then f d else d)"
  by (simp add: eff_def guarded_step_def simple_step_def)

lemma eff_best_effort [simp]: "eff (best_effort s) d = eff s d"
  by (simp add: eff_def best_effort_def)

text \<open>A run leaves the effects of some of its steps, in order; all of them when it returns and each step is required.\<close>

lemma run_steps_rel:
  assumes "run_steps ends ss d = (r, d')" and "\<And>s d. s \<in> set ss \<Longrightarrow> R d (eff s d)" and "\<And>d. R d d"
    and "\<And>a b c. R a b \<Longrightarrow> R b c \<Longrightarrow> R a c"
  shows "R d d'"
  using assms(1,2)
proof (induction ss arbitrary: d)
  case (Cons s ss)
  have step: "R d (eff s d)" using Cons.prems(2) by simp
  have "d' = d \<or> d' = eff s d \<or> (\<exists>d1 \<in> {d, eff s d}. run_steps ends ss d1 = (r, d'))"
    using Cons.prems(1) by (auto simp: eff_def split: if_splits stmt_end.splits sum.splits)
  then show ?case using Cons.IH Cons.prems(2) step assms(3,4) by (metis insertE list.set_intros(2) singletonD)
qed (use assms(3) in auto)

section \<open>One tenant\<close>

definition row_identity :: "message_row \<Rightarrow> string \<times> string \<times> string \<times> string option \<times> string \<times> int \<times> int" where
  "row_identity r = (row_tenant_id r, row_server_id r, row_conversation_id r, row_client_msg_id r, row_sender_id r, row_seq r, row_created_at r)"

definition row_kept :: "string \<Rightarrow> message_row \<Rightarrow> message_row \<Rightarrow> bool" where
  "row_kept t r r' \<longleftrightarrow> row_identity r' = row_identity r \<and> (row_tenant_id r \<noteq> t \<longrightarrow> r' = r)"

lemma row_kept_refl [simp]: "row_kept t r r"
  by (simp add: row_kept_def)

lemma row_kept_trans: "row_kept t a b \<Longrightarrow> row_kept t b c \<Longrightarrow> row_kept t a c"
  by (auto simp: row_kept_def row_identity_def)

text \<open>
  \<open>tenant_change t d d'\<close>: from \<open>d\<close> to \<open>d'\<close> only rows of the tenant \<open>t\<close> changed, no message came, went or changed its
  identity, and the ledgers, the audit trail and the event stream are the same.
\<close>

definition tenant_change :: "string \<Rightarrow> op_db \<Rightarrow> op_db \<Rightarrow> bool" where
  "tenant_change t d d' \<longleftrightarrow>
     od_events d' = od_events d \<and> od_keys d' = od_keys d
     \<and> db_send_ledger (od_archive d') = db_send_ledger (od_archive d)
     \<and> db_write_ledger (od_archive d') = db_write_ledger (od_archive d) \<and> db_audit (od_archive d') = db_audit (od_archive d)
     \<and> (\<forall>k. rel_option (row_kept t) (db_messages (od_archive d) k) (db_messages (od_archive d') k))
     \<and> (\<forall>k. fst k \<noteq> t \<longrightarrow> od_edits d' k = od_edits d k) \<and> (\<forall>k. fst k \<noteq> t \<longrightarrow> od_visibility d' k = od_visibility d k)
     \<and> (\<forall>k. fst k \<noteq> t \<longrightarrow> od_reads d' k = od_reads d k) \<and> (\<forall>k. fst k \<noteq> t \<longrightarrow> od_reactions d' k = od_reactions d k)
     \<and> (\<forall>k. fst k \<noteq> t \<longrightarrow> od_plugin_states d' k = od_plugin_states d k) \<and> (\<forall>k. fst k \<noteq> t \<longrightarrow> od_pins d' k = od_pins d k)
     \<and> (\<forall>k. fst k \<noteq> t \<longrightarrow> od_marks d' k = od_marks d k)
     \<and> filter (\<lambda>b. bd_tenant_id b \<noteq> t) (od_bindings d') = filter (\<lambda>b. bd_tenant_id b \<noteq> t) (od_bindings d)
     \<and> filter (\<lambda>l. lf_tenant_id l \<noteq> t) (od_lifecycle d') = filter (\<lambda>l. lf_tenant_id l \<noteq> t) (od_lifecycle d)
     \<and> filter (\<lambda>h. hr_tenant_id h \<noteq> t) (od_history d') = filter (\<lambda>h. hr_tenant_id h \<noteq> t) (od_history d)"

lemma tenant_change_refl [simp]: "tenant_change t d d"
  by (simp add: tenant_change_def option.rel_refl)

lemma rel_option_trans:
  "rel_option P x y \<Longrightarrow> rel_option Q y z \<Longrightarrow> (\<And>a b c. P a b \<Longrightarrow> Q b c \<Longrightarrow> W a c) \<Longrightarrow> rel_option W x z"
  by (cases x; cases y; cases z) auto

lemma tenant_change_trans:
  assumes "tenant_change t a b" "tenant_change t b c"
  shows "tenant_change t a c"
proof -
  have "rel_option (row_kept t) (db_messages (od_archive a) k) (db_messages (od_archive c) k)" for k
  proof (rule rel_option_trans)
    show "rel_option (row_kept t) (db_messages (od_archive a) k) (db_messages (od_archive b) k)"
      "rel_option (row_kept t) (db_messages (od_archive b) k) (db_messages (od_archive c) k)"
      using assms unfolding tenant_change_def by blast+
  qed (rule row_kept_trans)
  with assms show ?thesis unfolding tenant_change_def by simp
qed

lemma update_rows_touches:
  assumes "\<And>r. P r \<Longrightarrow> row_tenant_id r = t" "\<And>r. row_identity (f r) = row_identity r"
  shows "tenant_change t d (update_rows P f d)"
  using assms by (auto simp: tenant_change_def update_rows_def option.rel_map row_kept_def intro!: option.rel_refl)

lemma insert_notices_other:
  "\<forall>b \<in> set bs. bd_tenant_id b = t \<Longrightarrow>
     filter (\<lambda>l. lf_tenant_id l \<noteq> t) (insert_notices bs outbox) = filter (\<lambda>l. lf_tenant_id l \<noteq> t) outbox"
  by (induction bs arbitrary: outbox) auto

lemma recall_bindings_touches: "tenant_change t d (recall_bindings now t i d)"
proof -
  have "filter (\<lambda>b. bd_tenant_id b \<noteq> t) (map (\<lambda>b. if closes t i b then b\<lparr>bd_recalled_at := Some now\<rparr> else b) bs)
      = filter (\<lambda>b. bd_tenant_id b \<noteq> t) bs" for bs
    by (induction bs) (auto simp: closes_def)
  moreover have "filter (\<lambda>l. lf_tenant_id l \<noteq> t) (insert_notices (filter (closes t i) bs) outbox)
      = filter (\<lambda>l. lf_tenant_id l \<noteq> t) outbox" for bs outbox
    by (rule insert_notices_other) (simp add: closes_def)
  ultimately show ?thesis by (simp add: tenant_change_def recall_bindings_def option.rel_refl)
qed

lemma edits_touches: "tenant_change t d (d\<lparr>od_edits := (od_edits d)((t, j) := y)\<rparr>)"
  by (simp add: tenant_change_def option.rel_refl)

lemma update_message_content_touches:
  assumes "update_message_content t i c u r x d = Ok d'"
  shows "tenant_change t d d'"
proof -
  from assms obtain row rest where "matching (\<lambda>row. row_tenant_id row = t \<and> (row_server_id row = i \<or> row_client_msg_id row = Some i)) d = row # rest"
    by (auto simp: update_message_content_def split: list.splits)
  with assms show ?thesis
    by (auto simp: update_message_content_def Let_def by_server_id_def row_identity_def
        intro!: tenant_change_trans [OF update_rows_touches edits_touches])
qed

lemma plugin_state_touches: "upsert_message_plugin_state now t c s d = Ok d' \<Longrightarrow> tenant_change t d d'"
  by (auto simp: upsert_message_plugin_state_def Let_def tenant_change_def option.rel_refl split: if_splits option.splits)

lemma table_touches:
  "tenant_change t d (update_message_visibility now t i u sc st d)" "tenant_change t d (record_message_read now t i u d)"
  "tenant_change t d (upsert_message_reaction now t i em u add d)" "tenant_change t d (pin_message now t i cv u sc pin ex rs d)"
  "tenant_change t d (mark_message now t i cv u mt col add d)" "tenant_change t d (append_history C x t i e d)"
  "tenant_change t d (least_read (t, i, u) at d)" "tenant_change t d (burn_reads t i at d)"
  by (auto simp: tenant_change_def option.rel_refl update_message_visibility_def record_message_read_def upsert_message_reaction_def
      pin_message_def mark_message_def append_history_def least_read_def burn_reads_def Let_def option.map_id
      split: option.splits reaction_change.splits)

lemma steps_touch:
  assumes "t = oev_tenant_id e"
  shows "s \<in> set (fsm_steps E t i st) \<Longrightarrow> tenant_change t d (eff s d)" "tenant_change t d (eff (history_step E n i e) d)"
    "s \<in> set (read_steps E e p n ms) \<Longrightarrow> tenant_change t d (eff s d)"
proof -
  show "tenant_change t d (eff (history_step E n i e) d)" for d n i using assms by (simp add: history_step_def table_touches)
  show "tenant_change t d (eff s d)" if "s \<in> set (fsm_steps E t i st)" for s d
    using that by (auto simp: fsm_steps_def Let_def set_status_def by_server_id_def by_client_id_def row_identity_def
        recall_bindings_touches split: if_splits intro!: update_rows_touches)
  have u: "tenant_change t d (update_rows (after_read_ok t m) (schedule_after_read at) d)" for m at d
    by (rule update_rows_touches)
      (auto simp: after_read_ok_def burn_pending_ok_def by_server_id_def row_identity_def schedule_after_read_def schedule_columns_def
        split: prod.splits)
  show "tenant_change t d (eff s d)" if "s \<in> set (read_steps E e p n ms)" for s d
    using that
  proof (induction ms arbitrary: n)
    case (Cons m ms)
    have "tenant_change t d (eff s d)" if "s \<in> set (after_read_steps E e p n m)"
      using that u [of d m] tenant_change_trans [OF u table_touches(7)] assms
      by (auto simp: after_read_steps_def eff_def Let_def split: if_splits)
    with Cons assms show ?case by (auto simp: history_step_def table_touches)
  qed simp
qed

text \<open>The statements an event runs before the event stream; retention events decide on the way.\<close>

definition op_steps :: "'p op_env \<Rightarrow> op_event \<Rightarrow> op_step list option" where
  "op_steps E e = (case oev_payload e of
      Some (OpRecall i reason) \<Rightarrow> if trim i = [] then None else Some (recall_steps E e i)
    | Some (OpEdit i c reason) \<Rightarrow> Some (edit_steps E e i c reason)
    | Some (OpDelete p) \<Rightarrow> if trim (dp_server_msg_id p) = [] then None else Some (delete_steps E e p)
    | Some (OpRead p) \<Rightarrow> Some (read_steps E e p 0 (rd_message_ids p))
    | Some (OpReaction i u em a) \<Rightarrow> Some (reaction_steps E e i u em a)
    | Some (OpPin p) \<Rightarrow> Some (pin_steps E e (pn_server_msg_id p) (pn_pinned_by p) (pn_scope p) True (pn_expire_at p)
         (keep_if (\<lambda>s. s \<noteq> []) (pn_reason p)))
    | Some (OpUnpin i u sc) \<Rightarrow> Some (pin_steps E e i u sc False None None)
    | Some (OpMark i u mt col) \<Rightarrow> (case map_of MARK_TYPES mt of None \<Rightarrow> None | Some m \<Rightarrow> Some (mark_steps E e i u m col))
    | Some (OpUnmark i u mt) \<Rightarrow> Some (unmark_steps E e i u mt)
    | Some (OpPluginState s) \<Rightarrow>
        if ps_server_msg_id s = [] \<or> ps_plugin_id s = [] \<or> \<not> oe_shared_state_ok E (ps_entity s) (ps_version s) (ps_values_json s)
        then None else Some (plugin_state_steps E e s)
    | _ \<Rightarrow> None)"

lemmas apply_defs = apply_recall_def apply_edit_def apply_delete_def apply_read_def apply_reaction_def apply_pin_def apply_unpin_def
  apply_mark_def apply_unmark_def apply_plugin_state_def

lemma dispatch_steps: "op_steps E e = Some ss \<Longrightarrow> dispatch_event E e d = steps_then_stream E e ss d"
  by (auto simp: op_steps_def dispatch_event_def apply_defs split: option.splits op_payload.splits if_splits)

lemma op_steps_touch:
  assumes "op_steps E e = Some ss" "s \<in> set ss"
  shows "tenant_change (oev_tenant_id e) d (eff s d)"
proof -
  let ?t = "oev_tenant_id e"
  note touch = steps_touch [OF refl]
  have edit: "tenant_change ?t d (eff s d)" if "st_run s = update_message_content ?t i c u r x" for i c u r x
    using that update_message_content_touches by (auto simp: eff_def split: sum.splits)
  have plugin: "tenant_change ?t d (eff s d)" if "st_run s = upsert_message_plugin_state now ?t cv p" for now cv p
    using that plugin_state_touches by (auto simp: eff_def split: sum.splits)
  show ?thesis
    using assms edit plugin
    by (auto simp: op_steps_def recall_steps_def edit_steps_def delete_steps_def reaction_steps_def pin_steps_def mark_steps_def
        unmark_steps_def mark_step_def plugin_state_steps_def table_touches Let_def intro: touch
        split: option.splits op_payload.splits if_splits)
qed


lemma run_steps_touch:
  assumes "run_steps ends ss d = (r, d')" "\<And>s d. s \<in> set ss \<Longrightarrow> tenant_change t d (eff s d)"
  shows "tenant_change t d d'"
  using run_steps_rel [OF assms(1), of "tenant_change t"] assms(2) tenant_change_trans by (metis tenant_change_refl)

text \<open>The tables of one tenant, and a stream that only grows.\<close>

definition contained :: "string \<Rightarrow> op_db \<Rightarrow> op_db \<Rightarrow> bool" where
  "contained t d d' \<longleftrightarrow> od_events d \<subseteq>\<^sub>m od_events d' \<and> tenant_change t d (d'\<lparr>od_events := od_events d\<rparr>)"

lemma tenant_change_contained: "tenant_change t d d' \<Longrightarrow> contained t d d'"
  by (simp add: contained_def tenant_change_def)

lemma append_stream_db: "append_stream E e d = (r, d') \<Longrightarrow> \<exists>ev. d' = d\<lparr>od_events := ev\<rparr> \<and> od_events d \<subseteq>\<^sub>m ev"
  using append_event_to_stream_facts(1) by (fastforce simp: append_stream_def split: prod.splits sum.splits)

lemma tenant_change_append:
  assumes "tenant_change t d d1" "append_stream E e d1 = (r, d')"
  shows "contained t d d'"
proof -
  obtain ev where "d' = d1\<lparr>od_events := ev\<rparr>" "od_events d1 \<subseteq>\<^sub>m ev" using append_stream_db [OF assms(2)] by blast
  with assms(1) show ?thesis by (simp add: contained_def tenant_change_def)
qed

lemma steps_then_stream_contained:
  assumes "steps_then_stream E e ss d1 = (r, d')" "tenant_change t d d1" "\<And>s d. s \<in> set ss \<Longrightarrow> tenant_change t d (eff s d)"
  shows "contained t d d'"
proof -
  obtain r2 d2 where d2: "run_steps (oe_ends E) ss d1 = (r2, d2)" by fastforce
  have t2: "tenant_change t d d2" using tenant_change_trans [OF assms(2) run_steps_touch [OF d2 assms(3)]] by blast
  show ?thesis
  proof (cases r2)
    case (Inl a)
    with assms(1) d2 t2 tenant_change_contained show ?thesis by (simp add: steps_then_stream_def)
  next
    case (Inr a)
    with assms(1) d2 have "append_stream E e d2 = (r, d')" by (simp add: steps_then_stream_def)
    with t2 show ?thesis by (rule tenant_change_append)
  qed
qed

lemma apply_burn_update_contained:
  assumes "apply_burn_update E e i P f reads d = (r, d')" "t = oev_tenant_id e"
    and "\<And>row. P row \<Longrightarrow> row_tenant_id row = t" "\<And>row. row_identity (f row) = row_identity row"
    and "\<And>g d. reads = Some g \<Longrightarrow> tenant_change t d (g d)"
  shows "contained t d d'"
proof -
  let ?ss = "simple_step SetBurn (update_rows P f)
      # (case reads of None \<Rightarrow> [] | Some g \<Rightarrow> [best_effort (guarded_step SetBurnReads (\<lambda>_. matching P d \<noteq> []) g)])"
  obtain r1 d1 where d1: "run_steps (oe_ends E) ?ss d = (r1, d1)" by fastforce
  have "tenant_change t x (eff s x)" if "s \<in> set ?ss" for s x
    using that assms(3-5) update_rows_touches [of P t f] by (auto split: option.splits)
  then have t1: "tenant_change t d d1" by (rule run_steps_touch [OF d1])
  have run: "(case (r1, d1) of (Inl err, d) \<Rightarrow> (Err err, d)
      | (Inr _, d1) \<Rightarrow> if matching P d \<noteq> [] then steps_then_stream E e [history_step E 0 i e] d1 else (Ok (), d1)) = (r, d')"
    using assms(1) by (simp only: apply_burn_update_def Let_def d1)
  show ?thesis
  proof (cases "r1 = Ok () \<and> matching P d \<noteq> []")
    case True
    with run have "steps_then_stream E e [history_step E 0 i e] d1 = (r, d')" by simp
    then show ?thesis by (rule steps_then_stream_contained [OF _ t1]) (use steps_touch(2) [OF assms(2)] in simp)
  next
    case False
    with run have "d' = d1" by (cases r1) auto
    with t1 show ?thesis by (simp add: tenant_change_contained)
  qed
qed

lemma dispatch_event_contained:
  assumes "dispatch_event E e d = (r, d')"
  shows "contained (oev_tenant_id e) d d'"
proof (cases "op_steps E e")
  case (Some ss)
  with assms have "steps_then_stream E e ss d = (r, d')" by (simp add: dispatch_steps)
  then show ?thesis by (rule steps_then_stream_contained) (simp_all add: op_steps_touch [OF Some])
next
  case None
  let ?t = "oev_tenant_id e"
  have refl: "contained ?t d d" by (simp add: tenant_change_contained)
  have id: "row_identity (schedule_columns a b row) = row_identity row" "row_identity (wipe st c row) = row_identity row" for a b st c row
    by (simp_all add: schedule_columns_def wipe_def row_identity_def split: prod.splits)
  have burn: "contained ?t d d'" if "apply_burn_scheduled E e p d = (r, d')" for p
    using that unfolding apply_burn_scheduled_def Let_def
    by (rule apply_burn_update_contained) (auto simp: burn_pending_ok_def by_server_id_def id table_touches)
  have burned: "contained ?t d d'" if "apply_burned E e p d = (r, d')" for p
    using that unfolding apply_burned_def Let_def
    by (rule apply_burn_update_contained) (auto simp: burn_due_def by_server_id_def id table_touches)
  have purged: "contained ?t d d'" if "apply_hard_deleted E e p d = (r, d')" for p
    using that unfolding apply_hard_deleted_def Let_def
    by (rule apply_burn_update_contained) (auto simp: purge_due_def by_server_id_def id)
  show ?thesis
    using assms None refl burn burned purged
    by (auto simp: op_steps_def dispatch_event_def apply_defs split: option.splits op_payload.splits if_splits)
qed

lemma process_event_contained: "process_event E e d = (r, d') \<Longrightarrow> contained (oev_tenant_id e) d d'"
  using dispatch_event_contained tenant_change_contained [OF tenant_change_refl]
  by (auto simp: process_event_def split: if_splits sum.splits stored_event_match.splits)

section \<open>Effects that can be repeated\<close>

text \<open>
  A list of effects is repeatable when each is idempotent and, once it has nothing left to do, no other gives it work again.
  Then a prefix of the list, from a delivery that failed, is absorbed by running the whole list.
\<close>

definition repeatable :: "('d \<Rightarrow> 'd) list \<Rightarrow> bool" where
  "repeatable fs \<longleftrightarrow> (\<forall>f \<in> set fs. \<forall>d. f (f d) = f d) \<and> (\<forall>f \<in> set fs. \<forall>g \<in> set fs. \<forall>d. f d = d \<longrightarrow> f (g d) = g d)"

lemma fold_fixed: "\<forall>f \<in> set fs. f d = d \<Longrightarrow> fold (\<lambda>f. f) fs d = d"
  by (induction fs) auto

lemma repeatable_fixed:
  assumes "repeatable fs" "set gs \<subseteq> set fs" "f \<in> set gs"
  shows "f (fold (\<lambda>f. f) gs d) = fold (\<lambda>f. f) gs d"
  using assms(2,3)
proof (induction gs rule: rev_induct)
  case (snoc g gs)
  show ?case
  proof (cases "f \<in> set gs")
    case True
    with snoc have "f (fold (\<lambda>f. f) gs d) = fold (\<lambda>f. f) gs d" by simp
    moreover have "f \<in> set fs" "g \<in> set fs" using snoc.prems True by auto
    ultimately show ?thesis using assms(1) unfolding repeatable_def by simp
  next
    case False
    with snoc.prems have "f = g" "g \<in> set fs" by auto
    with assms(1) show ?thesis unfolding repeatable_def by simp
  qed
qed simp

lemma repeatable_absorb:
  assumes "repeatable fs"
  shows "fold (\<lambda>f. f) fs (fold (\<lambda>f. f) (take k fs) d) = fold (\<lambda>f. f) fs d"
proof -
  let ?d = "fold (\<lambda>f. f) (take k fs) d"
  have fixed: "fold (\<lambda>f. f) (take k fs) ?d = ?d"
    by (rule fold_fixed) (use repeatable_fixed [OF assms set_take_subset] in blast)
  have "fold (\<lambda>f. f) fs ?d = fold (\<lambda>f. f) (drop k fs) (fold (\<lambda>f. f) (take k fs) ?d)"
    using fold_append [of "\<lambda>f. f" "take k fs" "drop k fs"] by simp
  also have "\<dots> = fold (\<lambda>f. f) (take k fs @ drop k fs) d" by (simp only: fixed fold_append o_apply)
  finally show ?thesis by (simp only: append_take_drop_id)
qed

text \<open>The history of an operation, without the time it was written at and its serialized text.\<close>

definition null_codec :: "unit event_codec" where
  "null_codec = \<lparr>ec_to_proto = (\<lambda>_. None), ec_encode = (\<lambda>_. []), ec_decode = (\<lambda>_ _. None),
     ec_message = (\<lambda>_. \<lparr>mi_server_id = [], mi_client_msg_id = [], mi_sender_id = [], mi_conversation_id = [], mi_conversation_seq = 0,
       mi_message_type = [], mi_content = []\<rparr>), ec_date_ok = (\<lambda>_. False), ec_now = 0\<rparr>"

definition note_operation :: "op_event \<Rightarrow> string \<Rightarrow> op_db \<Rightarrow> op_db" where
  "note_operation e message_id = append_history null_codec [] (oev_tenant_id e) message_id e"

definition frames :: "(op_db \<Rightarrow> op_db) \<Rightarrow> bool" where
  "frames f \<longleftrightarrow> (\<forall>d h. f (d\<lparr>od_history := h\<rparr>) = (f d)\<lparr>od_history := h\<rparr>)"

lemma frames_note:
  assumes "frames f"
  shows "f (note_operation e i d) = note_operation e i (f d)"
proof -
  have h: "od_history (f d) = od_history d" for d
  proof -
    have "f (d\<lparr>od_history := od_history d\<rparr>) = (f d)\<lparr>od_history := od_history d\<rparr>" using assms unfolding frames_def by blast
    then have "f d = (f d)\<lparr>od_history := od_history d\<rparr>" by simp
    from arg_cong [OF this, of od_history] show ?thesis by simp
  qed
  show ?thesis
    using assms by (simp add: note_operation_def append_history_def Let_def h frames_def)
qed

lemma note_noop:
  assumes "oev_conversation_id e \<noteq> []"
  shows "note_operation e i d = d \<longleftrightarrow>
     list_ex (\<lambda>h. hr_tenant_id h = oev_tenant_id e \<and> hr_message_id h = i \<and> hr_identity h = operation_history_identity e) (od_history d)"
proof -
  have ne: "d\<lparr>od_history := od_history d @ [h]\<rparr> \<noteq> d" for h
    by (rule notI, drule arg_cong [of _ _ od_history]) simp
  show ?thesis using assms ne by (auto simp: note_operation_def append_history_def Let_def operation_history_identity_def)
qed

lemma repeatable_noted:
  assumes conv: "oev_conversation_id e \<noteq> []" and sub: "set gs \<subseteq> set fs \<union> range (note_operation e)"
    and fs: "\<forall>f \<in> set fs. frames f \<and> (\<forall>d. f (f d) = f d)" "\<forall>f \<in> set fs. \<forall>g \<in> set fs. \<forall>d. f (g d) = g (f d)"
  shows "repeatable gs"
proof -
  have kept: "note_operation e i (note_operation e j d) = note_operation e j d" if "note_operation e i d = d" for i j d
    using that unfolding note_noop [OF conv] by (auto simp: note_operation_def append_history_def Let_def)
  have nidem: "note_operation e i (note_operation e i d) = note_operation e i d" for i d
    unfolding note_noop [OF conv] by (auto simp: note_operation_def append_history_def Let_def)
  have idem: "f (f d) = f d" if "f \<in> set gs" for f d using that sub fs(1) nidem by auto
  have stable: "f (g d) = g d" if "f \<in> set gs" "g \<in> set gs" "f d = d" for f g d
  proof -
    have split: "x \<in> set fs \<or> (\<exists>i. x = note_operation e i)" if "x \<in> set gs" for x using that sub by auto
    from split [OF that(1)] split [OF that(2)] consider "f \<in> set fs" "g \<in> set fs" | i where "f \<in> set fs" "g = note_operation e i"
      | i where "f = note_operation e i" "g \<in> set fs" | i j where "f = note_operation e i" "g = note_operation e j" by blast
    then show ?thesis
    proof cases
      case 1
      then have "f (g d) = g (f d)" using fs(2) by blast
      with that(3) show ?thesis by simp
    next
      case 2
      with fs(1) that(3) frames_note [of f e _ d] show ?thesis by simp
    next
      case 3
      then have "f (g d) = g (f d)" using fs(1) frames_note [of g e _ d] by simp
      with that(3) show ?thesis by simp
    qed (use that(3) kept in simp)
  qed
  show ?thesis using idem stable unfolding repeatable_def by blast
qed

section \<open>The effects of an event, without time\<close>

text \<open>The tables without the time stamps, the serialized text of the history and the event stream.\<close>

definition untimed :: "op_db \<Rightarrow> op_db" where
  "untimed d = d\<lparr>od_events := Map.empty,
     od_visibility := (\<lambda>k. map_option (\<lambda>v. (fst v, 0)) (od_visibility d k)),
     od_reads := (\<lambda>k. map_option (\<lambda>r. (0, snd r)) (od_reads d k)),
     od_reactions := (\<lambda>k. map_option (rx_last_updated_update (\<lambda>_. 0)) (od_reactions d k)),
     od_plugin_states := (\<lambda>k. map_option (pl_updated_at_update (\<lambda>_. 0)) (od_plugin_states d k)),
     od_bindings := map (bd_recalled_at_update (map_option (\<lambda>_. 0))) (od_bindings d),
     od_pins := (\<lambda>k. map_option (pr_pinned_at_update (\<lambda>_. 0)) (od_pins d k)),
     od_marks := (\<lambda>k. map_option (\<lambda>m. (fst m, fst (snd m), 0)) (od_marks d k)),
     od_history := map (\<lambda>h. h\<lparr>hr_operation_data := [], hr_timestamp := 0\<rparr>) (od_history d)\<rparr>"

text \<open>What each kind of event that can be repeated is meant to do, one entry per statement.\<close>

definition status_effects :: "string \<Rightarrow> string \<Rightarrow> string \<Rightarrow> (op_db \<Rightarrow> op_db) list" where
  "status_effects t i fsm_state =
     (let st = fsm_state_to_status_int fsm_state in
      [update_rows (by_server_id t i) (set_status st),
       \<lambda>d. if matching (by_server_id t i) d = [] then update_rows (by_client_id t i) (set_status st) d else d,
       \<lambda>d. if st = MESSAGE_STATUS_RECALLED then recall_bindings 0 t i d else d])"

definition set_plugin_state :: "string \<Rightarrow> string \<Rightarrow> plugin_state_event \<Rightarrow> op_db \<Rightarrow> op_db" where
  "set_plugin_state t cv s d = (case upsert_message_plugin_state 0 t cv s d of Inl _ \<Rightarrow> d | Inr d' \<Rightarrow> d')"

definition table_effects :: "op_event \<Rightarrow> (op_db \<Rightarrow> op_db) list" where
  "table_effects e =
     (let t = oev_tenant_id e; cv = oev_conversation_id e in case oev_payload e of
        Some (OpRecall i _) \<Rightarrow> status_effects t i ''RECALLED''
      | Some (OpDelete p) \<Rightarrow>
          if dp_delete_type p = Some DELETE_TYPE_HARD then status_effects t (dp_server_msg_id p) ''DELETED_HARD''
          else [update_message_visibility 0 t (dp_server_msg_id p) (visibility_user e p)
                 (case dp_scope p of None \<Rightarrow> DELETE_SCOPE_USER_PRIVATE | Some s \<Rightarrow> s) ''HIDDEN'']
      | Some (OpRead p) \<Rightarrow> map (\<lambda>m. record_message_read 0 t m (rd_user_id p)) (rd_message_ids p)
      | Some (OpReaction i u em a) \<Rightarrow> [upsert_message_reaction 0 t i em u (a = REACTION_ACTION_ADD)]
      | Some (OpPin p) \<Rightarrow> [pin_message 0 t (pn_server_msg_id p) cv (pn_pinned_by p) (pn_scope p) True (pn_expire_at p)
          (keep_if (\<lambda>s. s \<noteq> []) (pn_reason p))]
      | Some (OpUnpin i u sc) \<Rightarrow> [pin_message 0 t i cv u sc False None None]
      | Some (OpMark i u mt col) \<Rightarrow> (case map_of MARK_TYPES mt of None \<Rightarrow> [] | Some m \<Rightarrow> [mark_message 0 t i cv u m (non_empty col) True])
      | Some (OpUnmark i u mt) \<Rightarrow> (case map_of MARK_TYPES mt of None \<Rightarrow> [] | Some m \<Rightarrow> [mark_message 0 t i cv u m None False])
      | Some (OpPluginState s) \<Rightarrow> [set_plugin_state t cv s]
      | _ \<Rightarrow> [])"

definition noted_messages :: "op_event \<Rightarrow> string list" where
  "noted_messages e = (case oev_payload e of
      Some (OpRecall i _) \<Rightarrow> [i] | Some (OpDelete p) \<Rightarrow> [dp_server_msg_id p] | Some (OpRead p) \<Rightarrow> rd_message_ids p
    | Some (OpReaction i _ _ _) \<Rightarrow> [i] | Some (OpPin p) \<Rightarrow> [pn_server_msg_id p] | Some (OpUnpin i _ _) \<Rightarrow> [i]
    | Some (OpMark i _ _ _) \<Rightarrow> [i] | Some (OpUnmark i _ _) \<Rightarrow> [i] | Some (OpPluginState s) \<Rightarrow> [ps_server_msg_id s] | _ \<Rightarrow> [])"

text \<open>A read receipt is noted message by message, any other event after its statements.\<close>

definition effects :: "op_event \<Rightarrow> (op_db \<Rightarrow> op_db) list" where
  "effects e = (case oev_payload e of
      Some (OpRead p) \<Rightarrow> concat (map (\<lambda>(f, m). [f, note_operation e m]) (zip (table_effects e) (noted_messages e)))
    | _ \<Rightarrow> table_effects e @ map (note_operation e) (noted_messages e))"

definition redeliverable :: "op_event \<Rightarrow> bool" where
  "redeliverable e \<longleftrightarrow> oev_conversation_id e \<noteq> [] \<and> (case oev_payload e of
      Some (OpEdit _ _ _) \<Rightarrow> False
    | Some (OpRead p) \<Rightarrow> rd_burn_after_read p \<noteq> Some True
    | Some (OpUnmark _ _ mt) \<Rightarrow> map_of MARK_TYPES mt \<noteq> None
    | Some (OpBurnScheduled _) \<Rightarrow> False | Some (OpBurned _) \<Rightarrow> False | Some (OpHardDeleted _) \<Rightarrow> False
    | Some (OpPluginState s) \<Rightarrow> 0 < ps_version s \<and> int (ps_version s) \<le> i64_max
    | _ \<Rightarrow> True)"

lemma reaction_change_settled: "apply_reaction_change us n u add = RxUpdate us' n' \<Longrightarrow> apply_reaction_change us' n' u add = RxUnchanged"
  by (auto simp: apply_reaction_change_def Let_def split: if_splits)

lemma reaction_change_unchanged_delete: "apply_reaction_change us n u add = RxDelete \<Longrightarrow> \<not> add"
  by (auto simp: apply_reaction_change_def Let_def split: if_splits)

lemma reaction_idem: "upsert_message_reaction n t i em u add (upsert_message_reaction n t i em u add d) = upsert_message_reaction n t i em u add d"
proof (cases "od_reactions d (t, i, em)")
  case None
  then show ?thesis by (simp add: upsert_message_reaction_def apply_reaction_change_def Let_def)
next
  case (Some row)
  then show ?thesis
    using reaction_change_settled [of "rx_user_ids row" "rx_count row" u add] reaction_change_unchanged_delete [of "rx_user_ids row" "rx_count row" u add]
    by (cases "apply_reaction_change (rx_user_ids row) (rx_count row) u add") (simp_all add: upsert_message_reaction_def)
qed

lemma plugin_state_idem: "set_plugin_state t cv s (set_plugin_state t cv s d) = set_plugin_state t cv s d"
  by (auto simp: set_plugin_state_def upsert_message_plugin_state_def Let_def bound_def split: option.splits if_splits)

lemma simple_idem:
  "update_message_visibility n t i u sc st (update_message_visibility n t i u sc st d) = update_message_visibility n t i u sc st d"
  "record_message_read n t i u (record_message_read n t i u d) = record_message_read n t i u d"
  "pin_message n t i cv u sc pin ex rs (pin_message n t i cv u sc pin ex rs d) = pin_message n t i cv u sc pin ex rs d"
  "mark_message n t i cv u m col add (mark_message n t i cv u m col add d) = mark_message n t i cv u m col add d"
  by (auto simp: update_message_visibility_def record_message_read_def pin_message_def mark_message_def Let_def split: option.splits)

lemma read_commute:
  "record_message_read n t i u (record_message_read n t j u d) = record_message_read n t j u (record_message_read n t i u d)"
  by (cases "i = j") (auto simp: record_message_read_def fun_eq_iff)

lemma frames_tables:
  "frames (update_message_visibility n t i u sc st)" "frames (record_message_read n t i u)" "frames (upsert_message_reaction n t i em u add)"
  "frames (pin_message n t i cv u sc pin ex rs)" "frames (mark_message n t i cv u m col add)" "frames (update_rows P f)"
  "frames (set_plugin_state t cv s)" "frames (recall_bindings n t i)"
  by (auto simp: frames_def update_message_visibility_def record_message_read_def upsert_message_reaction_def pin_message_def
      mark_message_def update_rows_def set_plugin_state_def upsert_message_plugin_state_def recall_bindings_def bound_def Let_def
      split: option.splits reaction_change.splits)

end
