(* ===== verification/Operation_Guarantees.thy ===== *)
theory Operation_Guarantees
  imports Operation_Redelivery
begin

text \<open>
  The guarantees of operation events: one tenant is touched, an acknowledged event is in the event stream, and repeated
  deliveries leave what one undisturbed delivery leaves. Two kinds of event do not have the last property.
\<close>

section \<open>The effects are repeatable\<close>

lemma matching_update_empty:
  assumes "\<And>r. P (f r) = P r"
  shows "matching P (update_rows Q f d) = [] \<longleftrightarrow> matching P d = []"
proof -
  have "filter P (List.map_filter (\<lambda>k. map_option (\<lambda>r. if Q r then f r else r) (m k)) ks) = []
      \<longleftrightarrow> filter P (List.map_filter m ks) = []" for m ks
    using assms by (induction ks) (auto simp: map_filter_simps split: option.splits)
  then show ?thesis by (simp add: matching_def update_rows_def)
qed

lemma update_rows_twice:
  "update_rows P f (update_rows Q g d) = d\<lparr>od_archive := (od_archive d)\<lparr>db_messages := (\<lambda>k. map_option
     ((\<lambda>r. if P r then f r else r) \<circ> (\<lambda>r. if Q r then g r else r)) (db_messages (od_archive d) k))\<rparr>\<rparr>"
  by (simp add: update_rows_def option.map_comp)

lemma update_rows_idem:
  assumes "\<And>r. P (f r) = P r" "\<And>r. f (f r) = f r"
  shows "update_rows P f (update_rows P f d) = update_rows P f d"
proof -
  have "(\<lambda>r. if P r then f r else r) \<circ> (\<lambda>r. if P r then f r else r) = (\<lambda>r. if P r then f r else r)"
    using assms by (auto simp: fun_eq_iff)
  then show ?thesis unfolding update_rows_twice by (simp add: update_rows_def)
qed

lemma update_rows_commute:
  assumes "\<And>r. P (f r) = P r" "\<And>r. Q (f r) = Q r"
  shows "update_rows P f (update_rows Q f d) = update_rows Q f (update_rows P f d)"
proof -
  have "(\<lambda>r. if P r then f r else r) \<circ> (\<lambda>r. if Q r then f r else r) = (\<lambda>r. if Q r then f r else r) \<circ> (\<lambda>r. if P r then f r else r)"
    using assms by (auto simp: fun_eq_iff)
  then show ?thesis unfolding update_rows_twice by simp
qed

lemma set_status_ids [simp]:
  "by_server_id t i (set_status st r) = by_server_id t i r" "by_client_id t i (set_status st r) = by_client_id t i r"
  "set_status st (set_status st r) = set_status st r"
  by (simp_all add: set_status_def by_server_id_def by_client_id_def)

lemma recall_bindings_rows:
  "recall_bindings n t i (update_rows P f d) = update_rows P f (recall_bindings n t i d)"
  "matching P (recall_bindings n t i d) = matching P d"
  by (simp_all add: recall_bindings_def update_rows_def matching_def)

lemma recall_bindings_idem: "recall_bindings n t i (recall_bindings n t i d) = recall_bindings n t i d"
proof -
  have "filter (closes t i) (map (\<lambda>b. if closes t i b then b\<lparr>bd_recalled_at := Some n\<rparr> else b) bs) = []" for bs
    by (induction bs) (auto simp: closes_def)
  then show ?thesis by (auto simp: recall_bindings_def closes_def)
qed

lemma status_effects_ok:
  "\<forall>f \<in> set (status_effects t i st). frames f \<and> (\<forall>d. f (f d) = f d)"
  "\<forall>f \<in> set (status_effects t i st). \<forall>g \<in> set (status_effects t i st). \<forall>d. f (g d) = g (f d)"
proof -
  have fr: "frames (\<lambda>d. if matching P d = [] then update_rows Q f d else d)" "frames (\<lambda>d. if b then recall_bindings n t i d else d)" for P Q f b n
    by (auto simp: frames_def matching_def update_rows_def recall_bindings_def)
  show "\<forall>f \<in> set (status_effects t i st). frames f \<and> (\<forall>d. f (f d) = f d)"
    by (simp add: status_effects_def Let_def fr frames_tables update_rows_idem matching_update_empty recall_bindings_idem)
  show "\<forall>f \<in> set (status_effects t i st). \<forall>g \<in> set (status_effects t i st). \<forall>d. f (g d) = g (f d)"
    by (simp add: status_effects_def Let_def update_rows_commute [of "by_server_id t i" _ "by_client_id t i"] matching_update_empty recall_bindings_rows)
qed

lemma table_effects_ok:
  "\<forall>f \<in> set (table_effects e). frames f \<and> (\<forall>d. f (f d) = f d)"
  "\<forall>f \<in> set (table_effects e). \<forall>g \<in> set (table_effects e). \<forall>d. f (g d) = g (f d)"
proof -
  have "(\<forall>f \<in> set (table_effects e). frames f \<and> (\<forall>d. f (f d) = f d))
      \<and> (\<forall>f \<in> set (table_effects e). \<forall>g \<in> set (table_effects e). \<forall>d. f (g d) = g (f d))"
  proof (cases "oev_payload e")
    case (Some p)
    let ?mt = "case p of OpMark _ _ mt _ \<Rightarrow> mt | OpUnmark _ _ mt \<Rightarrow> mt | _ \<Rightarrow> 0"
    show ?thesis
      using status_effects_ok Some
      by (cases p; cases "map_of MARK_TYPES ?mt")
        (simp_all add: table_effects_def Let_def frames_tables simple_idem reaction_idem plugin_state_idem read_commute)
  qed (simp add: table_effects_def)
  then show "\<forall>f \<in> set (table_effects e). frames f \<and> (\<forall>d. f (f d) = f d)"
    "\<forall>f \<in> set (table_effects e). \<forall>g \<in> set (table_effects e). \<forall>d. f (g d) = g (f d)" by blast+
qed

lemma effects_repeatable:
  assumes "oev_conversation_id e \<noteq> []"
  shows "repeatable (effects e)"
proof -
  have "set (effects e) \<subseteq> set (table_effects e) \<union> range (note_operation e)"
    by (auto simp: effects_def dest: set_zip_leftD split: option.splits op_payload.splits)
  from repeatable_noted [OF assms this table_effects_ok] show ?thesis .
qed

section \<open>Handlers have these effects\<close>

lemma untimed_rows [simp]:
  "untimed (update_rows P f d) = update_rows P f (untimed d)" "matching P (untimed d) = matching P d"
  by (simp_all add: untimed_def update_rows_def matching_def)

lemma untimed_recall: "untimed (recall_bindings n t i d) = recall_bindings 0 t i (untimed d)"
proof -
  let ?u = "bd_recalled_at_update (map_option (\<lambda>_. 0::int))"
  have "filter (closes t i) (map ?u bs) = filter (closes t i) bs" for bs
    by (induction bs) (auto simp: closes_def)
  moreover have "map ?u (map (\<lambda>b. if closes t i b then b\<lparr>bd_recalled_at := Some n\<rparr> else b) bs)
      = map (\<lambda>b. if closes t i b then b\<lparr>bd_recalled_at := Some 0\<rparr> else b) (map ?u bs)" for bs
    by (auto simp: closes_def)
  ultimately show ?thesis by (simp add: untimed_def recall_bindings_def)
qed

lemma untimed_history: "untimed (append_history C x (oev_tenant_id e) i e d) = note_operation e i (untimed d)"
  by (simp add: untimed_def note_operation_def append_history_def Let_def null_codec_def list_ex_iff)

lemma untimed_reaction: "untimed (upsert_message_reaction n t i em u add d) = upsert_message_reaction 0 t i em u add (untimed d)"
  by (auto simp: untimed_def upsert_message_reaction_def Let_def fun_eq_iff split: option.splits reaction_change.splits)

lemma untimed_tables:
  "untimed (update_message_visibility n t i u sc st d) = update_message_visibility 0 t i u sc st (untimed d)"
  "untimed (record_message_read n t i u d) = record_message_read 0 t i u (untimed d)"
  "untimed (pin_message n t i cv u sc pin ex rs d) = pin_message 0 t i cv u sc pin ex rs (untimed d)"
  "untimed (mark_message n t i cv u m col add d) = mark_message 0 t i cv u m col add (untimed d)"
  by (auto simp: untimed_def update_message_visibility_def record_message_read_def pin_message_def mark_message_def Let_def fun_eq_iff
      split: option.splits)

lemma untimed_bound: "bound t cv s (untimed d) = bound t cv s d"
  by (simp add: bound_def untimed_def list_ex_iff)

lemma untimed_plugin_row:
  "untimed (d\<lparr>od_plugin_states := (od_plugin_states d)(k \<mapsto> r)\<rparr>)
     = (untimed d)\<lparr>od_plugin_states := (od_plugin_states (untimed d))(k \<mapsto> r\<lparr>pl_updated_at := 0\<rparr>)\<rparr>"
  by (simp add: untimed_def fun_eq_iff)

lemma untimed_plugin_state:
  assumes "0 < ps_version s" "int (ps_version s) \<le> i64_max"
  shows "\<exists>d'. upsert_message_plugin_state n t cv s d = Ok d' \<and> untimed d' = set_plugin_state t cv s (untimed d)"
proof -
  let ?k = "(t, ps_server_msg_id s)"
  have old: "od_plugin_states (untimed d) ?k = map_option (pl_updated_at_update (\<lambda>_. 0)) (od_plugin_states d ?k)"
    by (simp add: untimed_def)
  have version: "\<not> int (ps_version s) > i64_max" "ps_version s \<noteq> 0" using assms by simp_all
  show ?thesis
  proof (cases "bound t cv s d")
    case False
    with version show ?thesis by (simp add: set_plugin_state_def upsert_message_plugin_state_def untimed_bound)
  next
    case True
    with version old show ?thesis
      by (cases "od_plugin_states d ?k")
        (simp_all add: set_plugin_state_def upsert_message_plugin_state_def Let_def untimed_bound untimed_plugin_row)
  qed
qed

definition implements :: "op_step \<Rightarrow> (op_db \<Rightarrow> op_db) \<Rightarrow> bool" where
  "implements s f \<longleftrightarrow> st_required s \<and> (\<forall>d. \<exists>d'. st_run s d = Ok d') \<and> (\<forall>d. untimed (eff s d) = f (untimed d))"

lemma implements_simple:
  "(\<And>d. untimed (f d) = g (untimed d)) \<Longrightarrow> implements (simple_step l f) g"
  by (simp add: implements_def simple_step_def eff_def)

lemma implements_guarded:
  "(\<And>d. untimed (f d) = g (untimed d)) \<Longrightarrow> (\<And>d. P d = Q (untimed d)) \<Longrightarrow>
     implements (guarded_step l P f) (\<lambda>d. if Q d then g d else d)"
  by (simp add: implements_def simple_step_def guarded_step_def eff_def)

lemma implements_history: "implements (history_step E n i e) (note_operation e i)"
  unfolding history_step_def by (rule implements_simple) (rule untimed_history)

lemma implements_fsm: "trim i \<noteq> [] \<Longrightarrow> list_all2 implements (fsm_steps E t i st) (status_effects t i st)"
  by (simp add: fsm_steps_def status_effects_def Let_def implements_simple implements_guarded untimed_recall)

lemma implements_read:
  "rd_burn_after_read p \<noteq> Some True \<Longrightarrow> list_all2 implements (read_steps E e p n ms)
     (concat (map (\<lambda>(f, m). [f, note_operation e m]) (zip (map (\<lambda>m. record_message_read 0 (oev_tenant_id e) m (rd_user_id p)) ms) ms)))"
  by (induction ms arbitrary: n) (simp_all add: after_read_steps_def implements_history implements_simple untimed_tables)

lemma implements_plugin:
  assumes "0 < ps_version s" "int (ps_version s) \<le> i64_max"
  shows "implements \<lparr>st_label = l, st_guard = (\<lambda>_. True), st_run = upsert_message_plugin_state n t cv s, st_required = True\<rparr>
     (set_plugin_state t cv s)"
proof -
  have "\<exists>d'. upsert_message_plugin_state n t cv s d = Ok d'" for d using untimed_plugin_state [OF assms] by blast
  moreover have "untimed (case upsert_message_plugin_state n t cv s d of Inl e \<Rightarrow> d | Inr d' \<Rightarrow> d') = set_plugin_state t cv s (untimed d)" for d
    using untimed_plugin_state [OF assms, of n t cv d] by auto
  ultimately show ?thesis by (simp add: implements_def eff_def)
qed

lemma op_steps_implement:
  assumes "redeliverable e" "op_steps E e = Some ss"
  shows "list_all2 implements ss (effects e)"
proof -
  obtain p where p: "oev_payload e = Some p" using assms(2) by (cases "oev_payload e") (auto simp: op_steps_def)
  note defs = op_steps_def effects_def table_effects_def noted_messages_def redeliverable_def Let_def
  show ?thesis
  proof (cases p)
    case (OpRecall i x)
    with assms p implements_fsm [of i E "oev_tenant_id e" "''RECALLED''"] implements_history show ?thesis
      by (auto simp: defs recall_steps_def intro!: list_all2_appendI split: if_splits)
  next
    case (OpDelete q)
    with assms p implements_fsm [of "dp_server_msg_id q" E "oev_tenant_id e" "''DELETED_HARD''"] implements_history show ?thesis
      by (auto simp: defs delete_steps_def DELETE_TYPE_HARD_def implements_simple untimed_tables intro!: list_all2_appendI
          split: if_splits option.splits)
  next
    case (OpRead q)
    with assms p implements_read [of q E e 0 "rd_message_ids q"] show ?thesis by (simp add: defs)
  next
    case (OpPluginState x)
    with assms p show ?thesis
      by (auto simp: defs plugin_state_steps_def implements_plugin implements_history split: if_splits)
  qed (use assms p in \<open>auto simp: defs reaction_steps_def pin_steps_def mark_steps_def unmark_steps_def mark_step_def
        implements_history implements_simple untimed_tables untimed_reaction split: option.splits\<close>)
qed

lemma run_steps_prefix:
  assumes "list_all2 implements ss fs" "run_steps ends ss d = (r, d')"
  shows "\<exists>k. untimed d' = fold (\<lambda>f. f) (take k fs) (untimed d) \<and> (r = Ok () \<longrightarrow> length fs \<le> k)"
  using assms
proof (induction ss fs arbitrary: d rule: list_all2_induct)
  case (Cons s ss f fs)
  have eff: "untimed (eff s d) = f (untimed d)" using Cons.hyps by (simp add: implements_def)
  obtain d1 where run: "st_run s d = Ok d1" "st_required s" using Cons.hyps unfolding implements_def by blast
  consider (stop) "d' = d" "r \<noteq> Ok ()" | (last) "d' = eff s d" "r \<noteq> Ok ()" | (go) "run_steps ends ss (eff s d) = (r, d')"
    using Cons.prems run by (auto simp: eff_def split: if_splits stmt_end.splits)
  then show ?case
  proof cases
    case stop
    then show ?thesis by (intro exI [of _ 0]) simp
  next
    case last
    then show ?thesis using eff by (intro exI [of _ 1]) simp
  next
    case go
    from Cons.IH [OF this] obtain k where "untimed d' = fold (\<lambda>f. f) (take k fs) (untimed (eff s d))" "r = Ok () \<longrightarrow> length fs \<le> k" by blast
    then show ?thesis using eff by (intro exI [of _ "Suc k"]) simp
  qed
qed simp

lemma run_steps_done:
  assumes "list_all2 implements ss fs" "\<And>l. ends l = Done"
  shows "fst (run_steps ends ss d) = Ok ()"
  using assms(1)
proof (induction ss fs arbitrary: d rule: list_all2_induct)
  case (Cons s ss f fs)
  then obtain d1 where "st_run s d = Ok d1" unfolding implements_def by blast
  with Cons.IH assms(2) show ?case by simp
qed simp

section \<open>Repeated deliveries\<close>

definition undisturbed :: "'p op_env \<Rightarrow> bool" where
  "undisturbed E \<longleftrightarrow> (\<forall>l. oe_ends E l = Done) \<and> (\<forall>l. sn_ends (oe_stream E) l = Done) \<and> sn_race (oe_stream E) = Map.empty"

fun deliver :: "'p op_env list \<Rightarrow> op_event \<Rightarrow> op_db \<Rightarrow> op_db" where
  "deliver [] e d = d"
| "deliver (E # Es) e d = deliver Es e (snd (process_event E e d))"

definition stream_position :: "op_event \<Rightarrow> event_key" where
  "stream_position e = (oev_tenant_id e, oev_conversation_id e, as_i64 (oev_seq e))"

lemma insert_row_position:
  assumes "oev_conversation_id e \<noteq> []"
  obtains row where "event_to_insert_row C e = Some row" "er_key row = stream_position e"
  using assms by (simp add: event_to_insert_row_def Let_def er_key_def stream_position_def)

lemma process_present:
  assumes "oev_conversation_id e \<noteq> []" "od_events d (stream_position e) \<noteq> None"
  shows "snd (process_event E e d) = d"
proof -
  obtain row where "event_to_insert_row (oe_codec E) e = Some row" "er_key row = stream_position e" by (rule insert_row_position [OF assms(1)])
  with assms(2) show ?thesis by (auto simp: process_event_def match_stored_event_def)
qed

lemma match_absent:
  assumes "oev_conversation_id e \<noteq> []" "od_events d (stream_position e) = None"
  shows "match_stored_event C N e (od_events d) = (if sn_ends N CheckEvent = Done then Ok Absent else Err stream_db_error)"
proof -
  obtain row where "event_to_insert_row C e = Some row" "er_key row = stream_position e" by (rule insert_row_position [OF assms(1)])
  with assms(2) show ?thesis by (simp add: match_stored_event_def)
qed

lemma append_stream_untimed: "append_stream E e d = (r, d') \<Longrightarrow> untimed d' = untimed d"
  by (drule append_stream_db) (auto simp: untimed_def)

lemma process_prefix:
  assumes "redeliverable e" "op_steps E e = Some ss" "od_events d (stream_position e) = None" "process_event E e d = (r, d')"
  shows "\<exists>k. untimed d' = fold (\<lambda>f. f) (take k (effects e)) (untimed d)
     \<and> (r = Ok () \<or> od_events d' (stream_position e) \<noteq> None \<longrightarrow> length (effects e) \<le> k)"
proof -
  have conv: "oev_conversation_id e \<noteq> []" using assms(1) by (simp add: redeliverable_def)
  consider (stop) "d' = d" "r \<noteq> Ok ()" | (go) "steps_then_stream E e ss d = (r, d')"
    using assms(4) match_absent [OF conv assms(3), of "oe_codec E" "oe_stream E"] dispatch_steps [OF assms(2), of d]
    by (auto simp: process_event_def split: if_splits)
  then show ?thesis
  proof cases
    case stop
    with assms(3) show ?thesis by (intro exI [of _ 0]) simp
  next
    case go
    obtain r1 d1 where d1: "run_steps (oe_ends E) ss d = (r1, d1)" by fastforce
    obtain k where k: "untimed d1 = fold (\<lambda>f. f) (take k (effects e)) (untimed d)" "r1 = Ok () \<longrightarrow> length (effects e) \<le> k"
      using run_steps_prefix [OF op_steps_implement [OF assms(1,2)] d1] by blast
    have ev: "od_events d1 = od_events d"
      using run_steps_touch [OF d1 op_steps_touch [OF assms(2)]] by (simp add: tenant_change_def)
    show ?thesis
    proof (cases r1)
      case (Inl err)
      with go d1 have "d' = d1" "r \<noteq> Ok ()" by (auto simp: steps_then_stream_def)
      with k ev assms(3) show ?thesis by (intro exI [of _ k]) simp
    next
      case (Inr u)
      with go d1 have "append_stream E e d1 = (r, d')" by (simp add: steps_then_stream_def)
      then have "untimed d' = untimed d1" by (rule append_stream_untimed)
      with k Inr show ?thesis by (intro exI [of _ k]) simp
    qed
  qed
qed

lemma deliver_settles:
  assumes "redeliverable e" "\<forall>E \<in> set Es. op_steps E e \<noteq> None"
    and "fold (\<lambda>f. f) (effects e) (untimed d) = D" "od_events d (stream_position e) \<noteq> None \<longrightarrow> untimed d = D"
  shows "fold (\<lambda>f. f) (effects e) (untimed (deliver Es e d)) = D
     \<and> (od_events (deliver Es e d) (stream_position e) \<noteq> None \<longrightarrow> untimed (deliver Es e d) = D)"
  using assms(2-4)
proof (induction Es arbitrary: d)
  case (Cons E Es)
  have conv: "oev_conversation_id e \<noteq> []" using assms(1) by (simp add: redeliverable_def)
  obtain r d' where d': "process_event E e d = (r, d')" by fastforce
  show ?case
  proof (cases "od_events d (stream_position e)")
    case (Some v)
    with process_present [OF conv, of d E] d' have "d' = d" by simp
    with Cons d' show ?thesis by simp
  next
    case None
    from Cons.prems(1) obtain ss where "op_steps E e = Some ss" by auto
    from process_prefix [OF assms(1) this None d'] obtain k where
      k: "untimed d' = fold (\<lambda>f. f) (take k (effects e)) (untimed d)"
      "od_events d' (stream_position e) \<noteq> None \<longrightarrow> length (effects e) \<le> k" by blast
    have "fold (\<lambda>f. f) (effects e) (untimed d') = D"
      using repeatable_absorb [OF effects_repeatable [OF conv]] k(1) Cons.prems(2) by simp
    moreover have "od_events d' (stream_position e) \<noteq> None \<longrightarrow> untimed d' = D" using k Cons.prems(2) by auto
    ultimately show ?thesis using Cons.IH [of d'] Cons.prems(1) d' by simp
  qed
qed simp

lemma undisturbed_ok:
  assumes "redeliverable e" "op_steps E e = Some ss" "undisturbed E" "oev_tenant_id e \<noteq> []" "od_events d (stream_position e) = None"
  shows "fst (process_event E e d) = Ok ()"
proof -
  have conv: "oev_conversation_id e \<noteq> []" using assms(1) by (simp add: redeliverable_def)
  obtain row where row: "event_to_insert_row (oe_codec E) e = Some row" "er_key row = stream_position e"
    by (rule insert_row_position [OF conv])
  obtain r1 d1 where d1: "run_steps (oe_ends E) ss d = (r1, d1)" by fastforce
  have "r1 = Ok ()"
    using run_steps_done [OF op_steps_implement [OF assms(1,2)], of "oe_ends E" d] assms(3) d1 by (simp add: undisturbed_def)
  moreover have "od_events d1 = od_events d"
    using run_steps_touch [OF d1 op_steps_touch [OF assms(2)]] by (simp add: tenant_change_def)
  ultimately have "fst (steps_then_stream E e ss d) = Ok ()"
    using d1 row assms(3,5) by (simp add: steps_then_stream_def append_stream_def append_event_to_stream_def undisturbed_def Let_def with_race_def)
  then show ?thesis
    using assms(3,4) match_absent [OF conv assms(5), of "oe_codec E" "oe_stream E"] dispatch_steps [OF assms(2), of d] by (simp add: process_event_def undisturbed_def)
qed

lemma no_steps_unchanged:
  assumes "redeliverable e" "op_steps E e = None"
  shows "snd (process_event E e d) = d"
proof -
  have "snd (dispatch_event E e d) = d"
    using assms by (auto simp: op_steps_def dispatch_event_def apply_defs redeliverable_def split: option.splits op_payload.splits if_splits)
  then show ?thesis by (simp add: process_event_def split: sum.split stored_event_match.split)
qed

lemma op_steps_none_cong: "oe_shared_state_ok E = oe_shared_state_ok F \<Longrightarrow> op_steps E e = None \<longleftrightarrow> op_steps F e = None"
  by (simp add: op_steps_def split: option.split op_payload.split)

lemma deliver_unchanged: "\<forall>E \<in> set Es. snd (process_event E e d) = d \<Longrightarrow> deliver Es e d = d"
  by (induction Es) auto

text \<open>
  C17: delivering an operation event again does no harm. However many deliveries of an event were cut short, at whatever
  statement, with or without that statement having been executed, with whatever clock and encoding: once a delivery
  succeeds undisturbed, the tables are what a single undisturbed delivery would have left, up to time stamps, the serialized text of
  the history and the event stream (which is written once). It holds for recalls, deletions, read receipts, reactions, pins, marks, unmarks of
  a known type and plugin states; not for edits, nor for the retention kinds, nor for events without a conversation.
\<close>

theorem redelivery_applies_once:
  assumes "redeliverable e" "undisturbed E" "\<forall>F \<in> set Es. oe_shared_state_ok F = oe_shared_state_ok E"
    and "process_event E e (deliver Es e d) = (Ok (), d')"
  shows "\<exists>d1. process_event E e d = (Ok (), d1) \<and> untimed d' = untimed d1"
proof (cases "op_steps E e = None \<or> od_events d (stream_position e) \<noteq> None")
  case True
  have conv: "oev_conversation_id e \<noteq> []" using assms(1) by (simp add: redeliverable_def)
  have "snd (process_event F e d) = d" if "F \<in> set Es" for F
    using True
  proof
    assume "op_steps E e = None"
    with op_steps_none_cong assms(3) that have "op_steps F e = None" by blast
    then show ?thesis by (rule no_steps_unchanged [OF assms(1)])
  qed (rule process_present [OF conv])
  then have "deliver Es e d = d" by (intro deliver_unchanged) blast
  with assms(4) show ?thesis by simp
next
  case False
  then obtain ss where ss: "op_steps E e = Some ss" and absent: "od_events d (stream_position e) = None" by auto
  have conv: "oev_conversation_id e \<noteq> []" using assms(1) by (simp add: redeliverable_def)
  let ?D = "fold (\<lambda>f. f) (effects e) (untimed d)" and ?d = "deliver Es e d"
  have "\<forall>F \<in> set Es. op_steps F e \<noteq> None" using op_steps_none_cong assms(3) ss by (metis option.distinct(1))
  note settled = deliver_settles [OF assms(1) this refl, of d] absent
  have here: "untimed x = fold (\<lambda>f. f) (effects e) (untimed y)"
    if "process_event E e y = (Ok (), x)" "od_events y (stream_position e) = None" for x y
    using process_prefix [OF assms(1) ss that(2,1)] by auto
  have d': "untimed d' = ?D"
  proof (cases "od_events ?d (stream_position e)")
    case None
    from here [OF assms(4) this] settled show ?thesis by simp
  next
    case (Some v)
    with process_present [OF conv, of ?d E] assms(4) have "d' = ?d" by simp
    with settled Some show ?thesis by simp
  qed
  have "oev_tenant_id e \<noteq> []" using assms(4) by (auto simp: process_event_def split: if_splits)
  from undisturbed_ok [OF assms(1) ss assms(2) this absent] obtain d1 where d1: "process_event E e d = (Ok (), d1)"
    by (metis prod.collapse)
  from here [OF this absent] d' d1 show ?thesis by simp
qed

section \<open>Examples\<close>

definition example_op_env :: "int \<Rightarrow> (op_stmt \<Rightarrow> stmt_end) \<Rightarrow> stmt_end \<Rightarrow> string op_env" where
  "example_op_env now ends append_end = \<lparr>oe_codec = example_event_codec now,
     oe_stream = \<lparr>sn_ends = (\<lambda>s. case s of InsertEvent _ \<Rightarrow> append_end | _ \<Rightarrow> Done), sn_race = Map.empty\<rparr>, oe_ends = ends,
     oe_content_text = (\<lambda>_. None), oe_shared_state_ok = (\<lambda>_ _ _. True), oe_event_data = (\<lambda>_. ''{}'')\<rparr>"

definition example_tables :: op_db where
  "example_tables = \<lparr>od_archive = example_archived, od_keys = [(''t1'', ''srv-1'', 5)], od_events = Map.empty, od_edits = (\<lambda>_. []),
     od_visibility = Map.empty, od_reads = Map.empty, od_reactions = Map.empty, od_plugin_states = Map.empty, od_bindings = [],
     od_lifecycle = [], od_pins = Map.empty, od_marks = Map.empty, od_history = []\<rparr>"

lemma example_undisturbed: "undisturbed (example_op_env now (\<lambda>_. Done) Done)"
  by (simp add: undisturbed_def example_op_env_def split: stream_stmt.split)

definition example_recall :: op_event where "example_recall = example_op_event (OpRecall ''srv-1'' []) DeMessageRecall"

definition example_cut :: "string op_env" where
  "example_cut = example_op_env 10 (\<lambda>l. if l = RecallBindings then Unanswered else Done) Done"

theorem redelivery_applies_once_witness:
  "\<exists>d' d1. process_event (example_op_env 20 (\<lambda>_. Done) Done) example_recall (deliver [example_cut] example_recall example_tables) = (Ok (), d')
     \<and> process_event (example_op_env 20 (\<lambda>_. Done) Done) example_recall example_tables = (Ok (), d1) \<and> untimed d' = untimed d1"
proof -
  let ?E = "example_op_env 20 (\<lambda>_. Done) Done"
  have r: "redeliverable example_recall" by code_simp
  have "fst (process_event ?E example_recall (deliver [example_cut] example_recall example_tables)) = Ok ()" by code_simp
  then obtain d' where d': "process_event ?E example_recall (deliver [example_cut] example_recall example_tables) = (Ok (), d')"
    by (metis prod.collapse)
  have "\<forall>F \<in> set [example_cut]. oe_shared_state_ok F = oe_shared_state_ok ?E" by (simp add: example_cut_def example_op_env_def)
  from redelivery_applies_once [OF r example_undisturbed this d'] d' show ?thesis by blast
qed

text \<open>
  An edit is not repeatable. When the edit is stored and the event stream then fails, the delivery is reported as failed; delivered
  again, the edit is stored a second time: one edit of the user leaves two versions, with the second as the current one.
\<close>

theorem redelivered_edit_counts_twice:
  "let e = example_op_event (OpEdit ''srv-1'' ''new'' []) DeMessageEdit;
       first = process_event (example_op_env 10 (\<lambda>_. Done) Failed) e example_tables;
       second = process_event (example_op_env 20 (\<lambda>_. Done) Done) e (snd first)
   in fst first \<noteq> Ok () \<and> fst second = Ok () \<and> map ed_version (od_edits (snd second) (''t1'', ''srv-1'')) = [1, 2]
      \<and> map ed_content (od_edits (snd second) (''t1'', ''srv-1'')) = [''new'', ''new'']
      \<and> Option.bind (db_messages (od_archive (snd second)) (''t1'', ''srv-1'', 5)) (\<lambda>row. row_extra row ''currentEditVersion'') = Some ''2''"
  by code_simp

definition example_pending :: op_db where
  "example_pending = update_rows (\<lambda>_. True) (\<lambda>row. row\<lparr>row_retention := (True, Some 5, LEGACY_BURN_STATUS_BURN_PENDING, Some 1, Some 6, None)\<rparr>)
     example_tables"

text \<open>
  The end of a message can be missing from the event stream. When the content of an expired message is
  erased and the event stream then fails, the delivery is reported as failed; delivered again, the update finds nothing to change, so the event
  is acknowledged without being appended: the message is erased and its position in the stream stays empty.
\<close>

theorem burned_event_never_streamed:
  "let e = example_op_event (OpBurned \<lparr>bn_message_id = ''srv-1'', bn_reader_id = None, bn_burn_at = 6, bn_burned_at = 7, bn_event_time = 7\<rparr>)
         DeMessageBurned;
       first = process_event (example_op_env 10 (\<lambda>_. Done) Failed) e example_pending;
       second = process_event (example_op_env 20 (\<lambda>_. Done) Done) e (snd first)
   in fst first \<noteq> Ok () \<and> fst second = Ok () \<and> od_events (snd second) (stream_position e) = None
      \<and> map_option row_content (db_messages (od_archive (snd second)) (''t1'', ''srv-1'', 5)) = Some (Some [])"
  by code_simp

section \<open>One tenant, one stream\<close>

lemma tenant_change_row:
  assumes "tenant_change t d d'"
  shows "rel_option (row_kept t) (db_messages (od_archive d) k) (db_messages (od_archive d') k)"
  using assms unfolding tenant_change_def by blast

lemma stored_kept:
  assumes "tenant_change t d d'"
  shows "stored (od_archive d') t' i = stored (od_archive d) t' i"
proof -
  have "db_messages (od_archive d') k = None \<longleftrightarrow> db_messages (od_archive d) k = None" for k
    using tenant_change_row [OF assms, of k] by (cases "db_messages (od_archive d) k"; cases "db_messages (od_archive d') k") auto
  then show ?thesis by (simp add: stored_def)
qed

lemma tenant_change_inv:
  assumes "tenant_change t d d'" "archive_inv X (od_archive d)"
  shows "archive_inv X (od_archive d')"
proof -
  have rows: "k = row_key row \<and> (\<forall>c. claim_of row = Some c \<longrightarrow> claim_key c \<in> X \<or> owner_agrees (od_archive d') c)"
    if row: "db_messages (od_archive d') k = Some row" for k row
  proof -
    obtain r0 where r0: "db_messages (od_archive d) k = Some r0" "row_identity row = row_identity r0"
      using tenant_change_row [OF assms(1), of k] row by (cases "db_messages (od_archive d) k") (auto simp: row_kept_def)
    then have "row_key row = row_key r0" "claim_of row = claim_of r0" by (simp_all add: row_identity_def row_key_def claim_of_def)
    moreover have "owner_agrees (od_archive d') c = owner_agrees (od_archive d) c" for c
      using assms(1) by (simp add: owner_agrees_def tenant_change_def)
    moreover have "k = row_key r0 \<and> (\<forall>c. claim_of r0 = Some c \<longrightarrow> claim_key c \<in> X \<or> owner_agrees (od_archive d) c)"
      using assms(2) r0(1) unfolding archive_inv_def by blast
    ultimately show ?thesis by simp
  qed
  have "db_send_ledger (od_archive d') = db_send_ledger (od_archive d)" "db_write_ledger (od_archive d') = db_write_ledger (od_archive d)"
    using assms(1) by (simp_all add: tenant_change_def)
  with rows assms(2) stored_kept [OF assms(1)] show ?thesis unfolding archive_inv_def by auto
qed

lemma contained_inv: "contained t d d' \<Longrightarrow> archive_inv X (od_archive d) \<Longrightarrow> archive_inv X (od_archive d')"
  using tenant_change_inv [of t d "d'\<lparr>od_events := od_events d\<rparr>"] by (simp add: contained_def)

text \<open>
  C19: an operation event reaches one tenant only. Whatever it does and however it fails, only rows of the tenant of the event change;
  no message is added, removed or given another identity, the ledgers stay as they are, and no event of the stream
  is overwritten. So what the archive guarantees about messages survives every operation.
\<close>

theorem operation_changes_one_tenant:
  assumes "process_event E e d = (r, d')"
  shows "contained (oev_tenant_id e) d d' \<and> (archive_inv X (od_archive d) \<longrightarrow> archive_inv X (od_archive d'))"
  using process_event_contained [OF assms] contained_inv by blast

theorem operation_changes_one_tenant_witness:
  "\<exists>d'. process_event (example_op_env 20 (\<lambda>_. Done) Failed) example_recall example_tables = (Err (stream_append_failure stream_db_error), d')
     \<and> contained ''t1'' example_tables d' \<and> archive_inv {} (od_archive d')
     \<and> map_option row_status (db_messages (od_archive d') (''t1'', ''srv-1'', 5)) = Some MESSAGE_STATUS_RECALLED"
proof -
  let ?p = "process_event (example_op_env 20 (\<lambda>_. Done) Failed) example_recall example_tables"
  have c: "fst ?p = Err (stream_append_failure stream_db_error)"
    "map_option row_status (db_messages (od_archive (snd ?p)) (''t1'', ''srv-1'', 5)) = Some MESSAGE_STATUS_RECALLED" by code_simp+
  obtain d' where d': "?p = (Err (stream_append_failure stream_db_error), d')" using c(1) by (metis prod.collapse)
  have "archive_inv {} (od_archive example_tables)" using archive_reach_inv [OF example_archived_reach] by (simp add: example_tables_def)
  with operation_changes_one_tenant [OF d'] c(2) d' show ?thesis by (simp add: example_recall_def example_op_event_def)
qed

text \<open>
  C18: an acknowledged operation is in the event stream. When the handling of an operation with statements to execute (a recall or
  deletion that names a message, an edit, read receipt, reaction, pin, mark of a known type, unmark or valid plugin state; not the
  retention kinds) of a conversation returns, the position of the event in the stream of its tenant and
  conversation holds this event or one it is a redelivery of, and unless it was there before, each statement of the
  event has been executed.
\<close>

theorem acknowledged_operation_is_streamed:
  assumes "process_event E e d = (Ok (), d')" and "op_steps E e = Some ss" and "oev_conversation_id e \<noteq> []"
  shows "(\<exists>row v. event_to_insert_row (oe_codec E) e = Some row \<and> od_events d' (stream_position e) = Some v
       \<and> match_existing_event (oe_codec E) (sv_event_type v) (sv_payload v) row True \<noteq> EventConflict)
     \<and> (od_events d (stream_position e) = None \<longrightarrow>
          (\<exists>d1. run_steps (oe_ends E) ss d = (Ok (), d1) \<and> d' = d1\<lparr>od_events := od_events d'\<rparr>))"
proof -
  obtain row where row: "event_to_insert_row (oe_codec E) e = Some row" "er_key row = stream_position e"
    by (rule insert_row_position [OF assms(3)])
  show ?thesis
  proof (cases "od_events d (stream_position e)")
    case (Some v)
    then have "d' = d" using process_present [OF assms(3), of d E] assms(1) by simp
    moreover have "match_existing_event (oe_codec E) (sv_event_type v) (sv_payload v) row True \<noteq> EventConflict"
      using assms(1) row Some by (auto simp: process_event_def match_stored_event_def split: if_splits)
    ultimately show ?thesis using row Some by auto
  next
    case None
    have "steps_then_stream E e ss d = (Ok (), d')"
      using assms(1) match_absent [OF assms(3) None, of "oe_codec E" "oe_stream E"] dispatch_steps [OF assms(2), of d]
      by (auto simp: process_event_def split: if_splits)
    then obtain d1 where d1: "run_steps (oe_ends E) ss d = (Ok (), d1)" "append_stream E e d1 = (Ok (), d')"
      by (auto simp: steps_then_stream_def split: prod.splits sum.splits)
    then obtain ev where ev: "append_event_to_stream (oe_codec E) (oe_stream E) e (od_events d1) = (Ok (), ev)" "d' = d1\<lparr>od_events := ev\<rparr>"
      by (auto simp: append_stream_def split: prod.splits sum.splits)
    from append_event_to_stream_facts(2) [OF ev(1) refl row(1)] row ev(2) d1(1) show ?thesis
      by (auto simp: accepted_def row_matches_def)
  qed
qed

theorem acknowledged_operation_is_streamed_witness:
  "\<exists>d' v. process_event (example_op_env 20 (\<lambda>_. Done) Done) example_recall example_tables = (Ok (), d')
     \<and> od_events d' (''t1'', ''1-x'', 9) = Some v"
proof -
  let ?E = "example_op_env 20 (\<lambda>_. Done) Done"
  have "fst (process_event ?E example_recall example_tables) = Ok ()" by code_simp
  then obtain d' where d': "process_event ?E example_recall example_tables = (Ok (), d')" by (metis prod.collapse)
  have "trim ''srv-1'' \<noteq> []" by code_simp
  then have ss: "op_steps ?E example_recall = Some (recall_steps ?E example_recall ''srv-1'')"
    by (simp add: op_steps_def example_recall_def example_op_event_def)
  have "oev_conversation_id example_recall \<noteq> []" "stream_position example_recall = (''t1'', ''1-x'', 9)" by code_simp+
  with acknowledged_operation_is_streamed [OF d' ss] d' show ?thesis by auto
qed

end
