(* ===== verification/Operation_Path.thy ===== *)
theory Operation_Path
  imports Event_Handler Message_Pipeline Operation_Guarantees
begin

text \<open>
  From the policy of the orchestrator to the tables of the storage writer: what an event of a user can change.
\<close>

section \<open>Changes of one user\<close>

definition stored_row :: "op_db \<Rightarrow> message_row \<Rightarrow> bool" where
  "stored_row d r \<longleftrightarrow> (\<exists>k. db_messages (od_archive d) k = Some r)"

text \<open>\<open>addressed A d j\<close>: a stored row of the message \<open>j\<close> has one of the ids \<open>A\<close> as its server id or as its client id.\<close>

definition addressed :: "(string \<Rightarrow> bool) \<Rightarrow> op_db \<Rightarrow> string \<Rightarrow> bool" where
  "addressed A d j \<longleftrightarrow> (\<exists>r. stored_row d r \<and> row_server_id r = j \<and> (A j \<or> (\<exists>c. row_client_msg_id r = Some c \<and> A c)))"

definition reacted :: "op_db \<Rightarrow> string \<times> string \<times> string \<Rightarrow> string \<Rightarrow> bool" where
  "reacted d k v = (case od_reactions d k of None \<Rightarrow> False | Some r \<Rightarrow> v \<in> set (rx_user_ids r))"

definition row_own :: "(string \<Rightarrow> bool) \<Rightarrow> message_row \<Rightarrow> message_row \<Rightarrow> bool" where
  "row_own J r r' \<longleftrightarrow> row_identity r' = row_identity r \<and> (r' = r \<or> J (row_server_id r))"

text \<open>
  \<open>own_change u A d d'\<close>: from \<open>d\<close> to \<open>d'\<close> only read marks, marks, reactions and hidden messages of \<open>u\<close> changed, pins that
  are the user's or the conversation's, and of messages and what belongs to them only what the ids \<open>A\<close> address.
\<close>

definition own_change :: "string \<Rightarrow> (string \<Rightarrow> bool) \<Rightarrow> op_db \<Rightarrow> op_db \<Rightarrow> bool" where
  "own_change u A d d' \<longleftrightarrow>
     (\<forall>k. rel_option (row_own (addressed A d)) (db_messages (od_archive d) k) (db_messages (od_archive d') k))
     \<and> (\<forall>t j. od_edits d' (t, j) \<noteq> od_edits d (t, j) \<longrightarrow> addressed A d j)
     \<and> (\<forall>t i v sc. od_visibility d' (t, i, v, sc) \<noteq> od_visibility d (t, i, v, sc) \<longrightarrow> v = u \<or> v = [] \<and> A i)
     \<and> (\<forall>t i v. od_reads d' (t, i, v) \<noteq> od_reads d (t, i, v) \<longrightarrow> v = u)
     \<and> (\<forall>k v. v \<noteq> u \<longrightarrow> reacted d' k v = reacted d k v)
     \<and> (\<forall>t i v m. od_marks d' (t, i, v, m) \<noteq> od_marks d (t, i, v, m) \<longrightarrow> v = u)
     \<and> (\<forall>t cv i sc ow. od_pins d' (t, cv, i, sc, ow) \<noteq> od_pins d (t, cv, i, sc, ow) \<longrightarrow> ow = u \<or> ow = [])
     \<and> od_plugin_states d' = od_plugin_states d
     \<and> filter (\<lambda>b. \<not> A (bd_server_msg_id b)) (od_bindings d') = filter (\<lambda>b. \<not> A (bd_server_msg_id b)) (od_bindings d)
     \<and> filter (\<lambda>l. \<not> A (lf_server_msg_id l)) (od_lifecycle d') = filter (\<lambda>l. \<not> A (lf_server_msg_id l)) (od_lifecycle d)"

lemma row_own_refl [simp]: "row_own J r r"
  by (simp add: row_own_def)

lemma own_change_refl [simp]: "own_change u A d d"
  by (simp add: own_change_def option.rel_refl)

lemma own_change_events [simp]: "own_change u A d (d'\<lparr>od_events := ev\<rparr>) = own_change u A d d'"
  by (simp add: own_change_def reacted_def)

lemma own_change_rows:
  assumes "own_change u A d d'"
  shows "rel_option (row_own (addressed A d)) (db_messages (od_archive d) k) (db_messages (od_archive d') k)"
  using assms unfolding own_change_def by (rule spec [OF conjunct1])

lemma own_change_addressed:
  assumes "own_change u A d d'" "addressed A d' j"
  shows "addressed A d j"
proof -
  from assms(2) obtain r k where r: "db_messages (od_archive d') k = Some r" "row_server_id r = j"
    "A j \<or> (\<exists>c. row_client_msg_id r = Some c \<and> A c)" unfolding addressed_def stored_row_def by blast
  from own_change_rows [OF assms(1), of k] r(1) obtain r0 where r0: "db_messages (od_archive d) k = Some r0" "row_identity r = row_identity r0"
    by (cases "db_messages (od_archive d) k") (auto simp: row_own_def)
  then have "stored_row d r0" "row_server_id r0 = row_server_id r" "row_client_msg_id r0 = row_client_msg_id r"
    unfolding stored_row_def row_identity_def by (blast, simp_all)
  with r show ?thesis unfolding addressed_def by metis
qed

lemma own_change_trans:
  assumes "own_change u A a b" "own_change u A b c"
  shows "own_change u A a c"
proof -
  have rows: "rel_option (row_own (addressed A a)) (db_messages (od_archive a) k) (db_messages (od_archive c) k)" for k
  proof (rule rel_option_trans [OF own_change_rows [OF assms(1)] own_change_rows [OF assms(2)]])
    fix x y z assume xyz: "row_own (addressed A a) x y" "row_own (addressed A b) y z"
    then have "row_server_id y = row_server_id x" by (simp add: row_own_def row_identity_def)
    with xyz own_change_addressed [OF assms(1)] show "row_own (addressed A a) x z" by (auto simp: row_own_def)
  qed
  have edits: "addressed A a j" if "od_edits c (t, j) \<noteq> od_edits a (t, j)" for t j
    using that assms own_change_addressed [OF assms(1)] unfolding own_change_def by metis
  have "\<forall>t i v sc. od_visibility c (t, i, v, sc) \<noteq> od_visibility a (t, i, v, sc) \<longrightarrow> v = u \<or> v = [] \<and> A i"
    "\<forall>t i v. od_reads c (t, i, v) \<noteq> od_reads a (t, i, v) \<longrightarrow> v = u"
    "\<forall>k v. v \<noteq> u \<longrightarrow> reacted c k v = reacted a k v"
    "\<forall>t i v m. od_marks c (t, i, v, m) \<noteq> od_marks a (t, i, v, m) \<longrightarrow> v = u"
    "\<forall>t cv i sc ow. od_pins c (t, cv, i, sc, ow) \<noteq> od_pins a (t, cv, i, sc, ow) \<longrightarrow> ow = u \<or> ow = []"
    "od_plugin_states c = od_plugin_states a"
    "filter (\<lambda>b. \<not> A (bd_server_msg_id b)) (od_bindings c) = filter (\<lambda>b. \<not> A (bd_server_msg_id b)) (od_bindings a)"
    "filter (\<lambda>l. \<not> A (lf_server_msg_id l)) (od_lifecycle c) = filter (\<lambda>l. \<not> A (lf_server_msg_id l)) (od_lifecycle a)"
    using assms unfolding own_change_def by metis+
  with rows edits show ?thesis unfolding own_change_def by blast
qed

section \<open>Handlers make such changes\<close>

lemma own_change_update_rows:
  assumes "\<And>r. P r \<Longrightarrow> stored_row d r \<Longrightarrow> addressed A d (row_server_id r)" "\<And>r. row_identity (f r) = row_identity r"
  shows "own_change u A d (update_rows P f d)"
proof -
  have "row_own (addressed A d) r (if P r then f r else r)" if "db_messages (od_archive d) k = Some r" for k r
  proof -
    from that have "stored_row d r" unfolding stored_row_def by blast
    with assms show ?thesis by (simp add: row_own_def)
  qed
  then have "rel_option (row_own (addressed A d)) (db_messages (od_archive d) k)
      (map_option (\<lambda>r. if P r then f r else r) (db_messages (od_archive d) k))" for k
    by (cases "db_messages (od_archive d) k") auto
  then show ?thesis unfolding own_change_def update_rows_def by (simp add: reacted_def)
qed

lemma own_change_tables:
  "own_change u A d (record_message_read n t i u d)"
  "v = u \<or> v = [] \<and> A i \<Longrightarrow> own_change u A d (update_message_visibility n t i v sc st d)"
  "own_change u A d (pin_message n t i cv u sc pin ex rs d)"
  "own_change u A d (mark_message n t i cv u m col add d)"
  "own_change u A d (append_history C x t i e d)"
  by (simp_all add: own_change_def record_message_read_def update_message_visibility_def pin_message_def mark_message_def
      append_history_def Let_def reacted_def option.rel_refl)

lemma reacted_apply:
  assumes "v \<noteq> u"
  shows "reacted (upsert_message_reaction n t i em u add d) k v = reacted d k v"
proof -
  have "0 < max m (int (length (filter (\<lambda>i. i \<noteq> u) us)))" if "v \<in> set us" for m us
    using that assms by (auto simp: less_max_iff_disj filter_empty_conv)
  with assms show ?thesis
    by (auto simp: reacted_def upsert_message_reaction_def apply_reaction_change_def Let_def
        split: option.splits reaction_change.splits if_splits)
qed

lemma own_change_reaction: "own_change u A d (upsert_message_reaction n t i em u add d)"
proof -
  have "\<exists>rx. upsert_message_reaction n t i em u add d = d\<lparr>od_reactions := rx\<rparr>"
  proof (cases "od_reactions d (t, i, em)")
    case None
    then show ?thesis by (cases add) (auto simp: upsert_message_reaction_def intro: exI [of _ "od_reactions d"])
  next
    case (Some r)
    then show ?thesis
      by (cases "apply_reaction_change (rx_user_ids r) (rx_count r) u add")
        (auto simp: upsert_message_reaction_def intro: exI [of _ "od_reactions d"])
  qed
  then obtain rx where rx: "upsert_message_reaction n t i em u add d = d\<lparr>od_reactions := rx\<rparr>" by blast
  have "\<forall>k v. v \<noteq> u \<longrightarrow> reacted (d\<lparr>od_reactions := rx\<rparr>) k v = reacted d k v"
    using reacted_apply [of _ u n t i em add d] unfolding rx by blast
  then show ?thesis unfolding rx own_change_def by (simp add: option.rel_refl)
qed

lemma insert_notices_filter:
  "\<forall>b \<in> set bs. A (bd_server_msg_id b) \<Longrightarrow>
     filter (\<lambda>l. \<not> A (lf_server_msg_id l)) (insert_notices bs ls) = filter (\<lambda>l. \<not> A (lf_server_msg_id l)) ls"
  by (induction bs arbitrary: ls) auto

lemma own_change_recall:
  assumes "A i"
  shows "own_change u A d (recall_bindings n t i d)"
proof -
  have "filter (\<lambda>b. \<not> A (bd_server_msg_id b)) (map (\<lambda>b. if closes t i b then b\<lparr>bd_recalled_at := Some n\<rparr> else b) bs)
      = filter (\<lambda>b. \<not> A (bd_server_msg_id b)) bs" for bs
    using assms by (induction bs) (auto simp: closes_def)
  moreover have "filter (\<lambda>l. \<not> A (lf_server_msg_id l)) (insert_notices (filter (closes t i) bs) ls)
      = filter (\<lambda>l. \<not> A (lf_server_msg_id l)) ls" for bs ls
    by (rule insert_notices_filter) (use assms in \<open>auto simp: closes_def\<close>)
  ultimately show ?thesis
    unfolding own_change_def recall_bindings_def by (simp add: reacted_def option.rel_refl)
qed

lemma map_filter_source: "x \<in> set (List.map_filter m ks) \<Longrightarrow> \<exists>k. m k = Some x"
  by (induction ks) (auto simp: map_filter_simps split: option.splits)

lemma matching_stored: "r \<in> set (matching P d) \<Longrightarrow> P r \<and> stored_row d r"
  using map_filter_source unfolding matching_def stored_row_def by fastforce

lemma own_change_edit:
  assumes "update_message_content t i c ed rs x d = Ok d'" "A i"
  shows "own_change u A d d'"
proof -
  let ?P = "\<lambda>row. row_tenant_id row = t \<and> (row_server_id row = i \<or> row_client_msg_id row = Some i)"
  from assms(1) obtain row rows where m: "matching ?P d = row # rows"
    by (cases "matching ?P d") (auto simp: update_message_content_def)
  then have "row \<in> set (matching ?P d)" by simp
  from matching_stored [OF this] have row: "?P row" "stored_row d row" by blast+
  let ?j = "row_server_id row"
  have j: "addressed A d ?j" using row assms(2) unfolding addressed_def by blast
  obtain f es where d': "d' = (update_rows (by_server_id t ?j) f d)\<lparr>od_edits := (od_edits d)((t, ?j) := es)\<rparr>"
    "\<And>r. row_identity (f r) = row_identity r"
    using assms(1) m by (auto simp: update_message_content_def Let_def row_identity_def update_rows_def)
  have "own_change u A d (update_rows (by_server_id t ?j) f d)"
    by (rule own_change_update_rows) (use j d'(2) in \<open>auto simp: by_server_id_def\<close>)
  with j show ?thesis unfolding d'(1) own_change_def by (simp add: reacted_def)
qed

text \<open>\<open>own_payload u A q\<close>: an operation of the user \<open>u\<close> that alters messages only through the ids \<open>A\<close>.\<close>

definition own_payload :: "string \<Rightarrow> (string \<Rightarrow> bool) \<Rightarrow> op_payload \<Rightarrow> bool" where
  "own_payload u A q = (case q of
      OpRecall i _ \<Rightarrow> A i | OpEdit i _ _ \<Rightarrow> A i
    | OpDelete p \<Rightarrow> dp_delete_type p \<noteq> Some DELETE_TYPE_HARD \<and> u \<noteq> []
        \<and> (if dp_scope p = Some DELETE_SCOPE_CONVERSATION_GLOBAL then A (dp_server_msg_id p) else dp_target_user_id p = Some u)
    | OpRead p \<Rightarrow> rd_user_id p = u \<and> rd_burn_after_read p = None
    | OpReaction _ v _ _ \<Rightarrow> v = u | OpPin p \<Rightarrow> pn_pinned_by p = u | OpUnpin _ v _ \<Rightarrow> v = u
    | OpMark _ v _ _ \<Rightarrow> v = u | OpUnmark _ v _ \<Rightarrow> v = u | _ \<Rightarrow> False)"

lemma own_fsm:
  assumes "s \<in> set (fsm_steps E t i st)" "A i"
  shows "own_change u A d (eff s d)"
proof -
  have P: "own_change u A d (update_rows (by_server_id t i) (set_status k) d)" "own_change u A d (update_rows (by_client_id t i) (set_status k) d)" for k
    by (rule own_change_update_rows; use assms(2) in \<open>force simp: by_server_id_def by_client_id_def addressed_def set_status_def row_identity_def\<close>)+
  show ?thesis using assms by (auto simp: fsm_steps_def Let_def P own_change_recall split: if_splits)
qed

lemma own_history: "own_change u A d (eff (history_step E n i e) d)"
  by (simp add: history_step_def own_change_tables)

lemma own_read: "rd_burn_after_read p = None \<Longrightarrow> s \<in> set (read_steps E e p n ms) \<Longrightarrow> rd_user_id p = u \<Longrightarrow> own_change u A d (eff s d)"
  by (induction ms arbitrary: n) (auto simp: after_read_steps_def own_change_tables own_history)

lemma own_delete:
  assumes "own_payload u A (OpDelete p)" "s \<in> set (delete_steps E e p)"
  shows "own_change u A d (eff s d)"
proof -
  have "(case dp_delete_type p of None \<Rightarrow> 0 | Some t \<Rightarrow> t) \<noteq> DELETE_TYPE_HARD"
    using assms(1) by (auto simp: own_payload_def DELETE_TYPE_HARD_def split: option.splits)
  moreover have "visibility_user e p = u \<or> visibility_user e p = [] \<and> A (dp_server_msg_id p)"
    using assms(1) by (auto simp: own_payload_def visibility_user_def Let_def keep_if_def DELETE_SCOPE_USER_PRIVATE_def
        DELETE_SCOPE_CONVERSATION_GLOBAL_def split: option.splits if_splits)
  ultimately show ?thesis using assms(2) by (auto simp: delete_steps_def Let_def own_history own_change_tables)
qed

lemma own_steps:
  assumes "own_payload u A q" "oev_payload e = Some q" "op_steps E e = Some ss" "s \<in> set ss"
  shows "own_change u A d (eff s d)"
proof -
  have edit: "own_change u A d (eff s d)" if "st_run s = update_message_content t i c ed r x" "A i" for t i c ed r x
    using that own_change_edit by (auto simp: eff_def split: sum.splits)
  have marks: "own_change u A d (eff (best_effort (mark_step E e n i u m c add)) d)" "own_change u A d (eff (mark_step E e n i u m c add) d)" for n i m c add
    by (simp_all add: mark_step_def own_change_tables)
  show ?thesis
  proof (cases q)
    case (OpDelete p)
    with assms own_delete [of u A p s E e] show ?thesis by (simp add: op_steps_def split: if_splits)
  next
    case (OpRead p)
    with assms own_read [of p s E e 0 "rd_message_ids p" u] show ?thesis by (simp add: op_steps_def own_payload_def)
  qed (use assms own_fsm edit marks in \<open>auto simp: own_payload_def op_steps_def recall_steps_def edit_steps_def reaction_steps_def
      pin_steps_def mark_steps_def unmark_steps_def own_history own_change_tables own_change_reaction split: option.splits if_splits\<close>)
qed

section \<open>From the policy to the tables\<close>

lemma operator_user_named: "operator_of K ca = OpUser u \<Longrightarrow> u \<noteq> []"
  by (auto simp: operator_of_def trim_def trim_start_def split: option.splits if_splits bool.splits)

lemma authorized_own_payload:
  assumes "authorize_payload P (OpUser u) t cv p = Ok p'" "op_targets P = Some T" "\<And>x. p \<noteq> PluginState x" "u \<noteq> []"
    "event_payload_from_proto encode p' = Some q"
  shows "own_payload u (\<lambda>i. altered_message p' = Some i) q"
proof -
  have no_state: "p' \<noteq> PluginState x" for x
    using assms(1,3) by (cases p) (auto simp: authorize_payload_def authorize_recall_def authorize_edit_def authorize_delete_def
        and_then_eq_Ok Let_def is_trusted_def split: if_splits)
  note facts = authorize_payload_user [OF assms(1,2)]
  show ?thesis
  proof (cases p')
    case (EvDelete e)
    with facts assms(4,5) show ?thesis
      by (auto simp: event_payload_from_proto_def own_payload_def altered_message_def named_user_def trusted_only_def hard_delete_def
          DELETE_SCOPE_GLOBAL_PROTO_def DELETE_SCOPE_CONVERSATION_GLOBAL_def DELETE_TYPE_HARD_def DELETE_TYPE_HARD_PROTO_def
          split: option.splits)
  qed (use facts no_state assms(5) in \<open>auto simp: event_payload_from_proto_def own_payload_def altered_message_def named_user_def
      trusted_only_def hard_delete_def\<close>)
qed

lemma dispatch_own:
  assumes "dispatch_event E e d = (r, d')" "oev_payload e = Some q" "own_payload u A q"
  shows "own_change u A d d'"
proof (cases "op_steps E e")
  case (Some ss)
  obtain r1 d1 where d1: "run_steps (oe_ends E) ss d = (r1, d1)" by fastforce
  have own: "own_change u A d d1"
    by (rule run_steps_rel [OF d1, of "own_change u A"]) (blast intro: own_steps [OF assms(3,2) Some] own_change_refl own_change_trans)+
  from Some d1 assms(1) have "d' = d1 \<or> append_stream E e d1 = (r, d')"
    by (auto simp: dispatch_steps steps_then_stream_def split: sum.splits)
  with own show ?thesis using append_stream_db [of E e d1 r d'] by auto
next
  case None
  with assms have "d' = d"
    by (auto simp: op_steps_def dispatch_event_def apply_defs own_payload_def split: op_payload.splits if_splits option.splits)
  then show ?thesis by simp
qed

lemma authorized_own_change:
  assumes "authorize P ca t e s = (Ok e', s')" and "operator_of (op_keys P) ca = OpUser u" and "ev_type e \<noteq> EventMessagePluginState"
    and "\<And>x. ev_payload e \<noteq> Some (PluginState x)" and "op_targets P = Some T"
    and "enrich_operation_event_from_ctx ctx (event_from_proto encode number (e'\<lparr>ev_conversation_seq := n\<rparr>)) = Some x"
    and "oev_tenant_id x = t" and "process_event E x d = (r, d')"
  shows "contained t d d' \<and> (\<exists>A. (\<forall>i. A i \<longrightarrow> sent_recently P T t u i) \<and> own_change u A d d')"
proof -
  obtain p p' where p: "ev_payload e = Some p" "e' = e\<lparr>ev_payload := Some p'\<rparr>"
    "authorize_payload P (OpUser u) t (ev_conversation_id e) p = Ok p'"
    by (rule authorize_user [OF assms(1-3)])
  let ?A = "\<lambda>i. altered_message p' = Some i"
  have payload: "oev_payload x = event_payload_from_proto encode p'"
    using assms(6) p(2) by (auto simp: enrich_operation_event_from_ctx_def event_from_proto_def split: option.splits)
  have "own_change u ?A d d'" if "dispatch_event E x d = (r, d')"
  proof (cases "event_payload_from_proto encode p'")
    case None
    with payload that show ?thesis by (simp add: dispatch_event_def)
  next
    case (Some q)
    with payload that dispatch_own authorized_own_payload [OF p(3) assms(5) _ operator_user_named [OF assms(2)] Some] assms(4) p(1)
    show ?thesis by auto
  qed
  moreover have "dispatch_event E x d = (r, d') \<or> d' = d"
    using assms(8) unfolding process_event_def by (auto split: if_splits sum.splits stored_event_match.splits)
  ultimately have "own_change u ?A d d'" by auto
  moreover have "\<forall>i. ?A i \<longrightarrow> sent_recently P T t u i" using authorize_payload_user [OF p(3) assms(5)] by blast
  ultimately have "\<exists>A. (\<forall>i. A i \<longrightarrow> sent_recently P T t u i) \<and> own_change u A d d'" by (intro exI [of _ ?A] conjI)
  with process_event_contained [OF assms(8)] assms(7) show ?thesis by simp
qed

section \<open>The whole way\<close>

lemma store_event_record:
  assumes "persistence_only_event R c ctx e (ev_conversation_id e) q = (Ok (), q')"
  shows "\<exists>rec t. mq_sent q' = rec # mq_sent q \<and> mr_topic rec = TOPIC_MESSAGE_EVENTS \<and> event_carries t e rec
     \<and> normalize_optional_tenant_id (mx_tenant_id ctx) = Some t"
proof -
  from assms obtain h where h: "event_headers R c ctx e = Ok h"
    by (cases "event_headers R c ctx e") (simp_all add: persistence_only_event_def with_headers_def)
  from build_timeline_headers_Ok [OF h [unfolded event_headers_def]] obtain t where
    "normalize_optional_tenant_id (mx_tenant_id ctx) = Some t" "h ''x-tenant-id'' = Some t" by blast
  with assms h show ?thesis
    by (auto simp: persistence_only_event_def with_headers_def event_carries_def envelope_defs dest!: send_mq_result)
qed

lemma push_event_sent:
  assumes "push_only_event R c ctx e rs cid q = (Ok (), q')"
  shows "\<exists>rec. mq_sent q' = rec # mq_sent q"
  using assms by (auto simp: push_only_event_def with_headers_def split: sum.splits dest!: send_mq_result)

lemma fanout_carried_event:
  assumes "event_carries t e rec" "reads_metadata of_metadata" "normalize_optional_tenant_id (Some t) = Some t"
    "consume_main of_metadata S c (Message_Pipeline.deliver rec) v = (Inr (), v')"
  shows "\<exists>st an. mq_sent (fw_mq v') = an # st # mq_sent (fw_mq v) \<and> mr_topic st = TOPIC_MESSAGE_EVENTS \<and> event_carries t e st"
proof -
  from assms(1) obtain mq where mq: "mr_body rec = BodyMq mq" "mr_headers rec = me_headers mq" "me_headers mq ''x-tenant-id'' = Some t"
    "me_payload mq = Some (PayEvent e)" "me_payload_kind mq = KindEvent" by (auto simp: event_carries_def)
  let ?ctx = "of_metadata (me_headers mq)"
  have ctx: "mx_tenant_id ?ctx = Some t" using assms(2) mq(3) by (simp add: reads_metadata_def)
  have fan: "fanout_event S c ?ctx e (me_recipients mq) v = (Ok (), v')"
    using assms(4) mq ctx assms(3)
    by (auto simp: consume_main_def Message_Pipeline.deliver_def envelope_context_def handle_envelope_def Let_def split: sum.splits prod.splits)
  obtain r1 q1 where st: "persistence_only_event (fs_repo S) (fc_store c) ?ctx e (ev_conversation_id e) (fw_mq v) = (r1, q1)" by fastforce
  let ?v = "record_event_change S (fc_due_at c) ?ctx e (me_recipients mq) (v\<lparr>fw_mq := q1\<rparr>)"
  have r1: "r1 = Ok ()" using fan st by (cases r1) (simp_all add: fanout_event_def on_mq_def Let_def)
  obtain r2 q2 where an: "push_only_event (fs_repo S) (fc_push c) ?ctx e (me_recipients mq) (ev_conversation_id e) (fw_mq ?v) = (r2, q2)" by fastforce
  have "r2 = Ok ()" "fw_mq v' = q2" using fan st an r1 by (auto simp: fanout_event_def on_mq_def Let_def)
  with push_event_sent an obtain a where a: "mq_sent (fw_mq v') = a # mq_sent q1" by fastforce
  from store_event_record st r1 obtain rec' t' where
    "mq_sent q1 = rec' # mq_sent (fw_mq v)" "mr_topic rec' = TOPIC_MESSAGE_EVENTS" "event_carries t' e rec'"
    "normalize_optional_tenant_id (mx_tenant_id ?ctx) = Some t'" by blast
  with a ctx assms(3) show ?thesis by auto
qed

lemma consume_carried_event:
  assumes "event_carries t e rec" "reads_metadata (oc_of_metadata OC)" "normalize_optional_tenant_id (Some t) = Some t"
    "consume_operation OC E (Message_Pipeline.deliver rec) d = (res, d')"
  shows "\<exists>ctx x r. enrich_operation_event_from_ctx ctx (event_from_proto (oc_encode OC) (oc_number OC) e) = Some x \<and> oev_tenant_id x = t
     \<and> process_event E x d = (r, d')"
proof -
  from assms(1) obtain mq where mq: "mr_body rec = BodyMq mq" "mr_headers rec = me_headers mq" "me_headers mq ''x-tenant-id'' = Some t"
    "me_payload mq = Some (PayEvent e)" "me_payload_kind mq = KindEvent" by (auto simp: event_carries_def)
  let ?ctx = "oc_of_metadata OC (me_headers mq)"
  have ctx: "mx_tenant_id ?ctx = Some t" using assms(2) mq(3) by (simp add: reads_metadata_def)
  have empty: "trim [] = []" by (simp add: trim_def trim_start_def)
  obtain x where x: "enrich_operation_event_from_ctx ?ctx (event_from_proto (oc_encode OC) (oc_number OC) e) = Some x" "oev_tenant_id x = t"
    using ctx assms(3) by (simp add: enrich_operation_event_from_ctx_def event_from_proto_def empty)
  obtain r1 d1 where h: "process_event E x d = (r1, d1)" by fastforce
  from assms(4) mq x h have "d1 = d'"
    by (auto simp: consume_operation_def Message_Pipeline.deliver_def handle_operation_def Let_def split: sum.splits prod.splits)
  with x h show ?thesis by blast
qed

text \<open>The default validation keeps plugin states, and their type, from everyone but the publisher.\<close>

lemma user_event_no_plugin_state:
  assumes "evs_validation S = composite_validate (default_event_composite (op_keys (evs_policy S)))" "validate_event S ctx t e = Ok ()"
    "operator_of (op_keys (evs_policy S)) (caller_of ctx actor) = OpUser u"
  shows "ev_type e \<noteq> EventMessagePluginState \<and> (\<forall>x. ev_payload e \<noteq> Some (PluginState x))"
proof -
  let ?K = "op_keys (evs_policy S)"
  let ?c = "\<lparr>vc_claims = mx_claims ctx, vc_tenant_id = t, vc_conversation_id = ev_conversation_id e\<rparr>"
  from assms(1,2) have "\<exists>r. composite_validate (default_event_composite ?K) ?c e = Ok r \<and> vr_is_valid r"
    by (auto simp: validate_event_def split: sum.splits if_splits)
  then have "\<exists>r. plugin_state_validate ?K ?c e = Ok r \<and> vr_is_valid r" unfolding composite_valid by (simp add: default_event_composite_def)
  then obtain r where "plugin_state_validate ?K ?c e = Ok r" "vr_is_valid r" by blast
  from plugin_state_ok [OF this] assms(3) show ?thesis
    by (auto simp: operator_of_def caller_of_def is_plugin_state_publisher_def is_card_post_context_def split: option.splits if_splits)
qed

text \<open>
  C3: what a user can change, from the call to the tables. When the event handler publishes an event a user submitted, the
  orchestrator's consumer has fanned it out and the storage writer takes the storage record, then, whatever statements of the writer fail, only
  rows of the caller's tenant change, and of those only the user's own read marks, marks, reactions, hidden messages and pins (or pins of
  the conversation), and of messages only those addressed by the id of a message the user sent less than a day ago; no stored message
  appears, vanishes or changes its identity, and no plugin state changes.
\<close>

theorem user_changes_only_own:
  assumes "handle_event S c ctx actor e w = (r, w1)" and "mq_sent (evw_mq w1) = rec # mq_sent (evw_mq w)"
    and "operator_of (op_keys (evs_policy S)) (caller_of ctx actor) = OpUser u"
    and "evs_validation S = composite_validate (default_event_composite (op_keys (evs_policy S)))"
    and "op_targets (evs_policy S) = Some T" and "reads_metadata of_metadata" and "reads_metadata (oc_of_metadata OC)"
    and "consume_main of_metadata F fc (Message_Pipeline.deliver rec) v = (Inr (), v1)"
    and "consume_operation OC E (Message_Pipeline.deliver (hd (tl (mq_sent (fw_mq v1))))) d = (res, d')"
  shows "\<exists>t A. event_tenant ctx = Ok t \<and> contained t d d' \<and> (\<forall>i. A i \<longrightarrow> sent_recently (evs_policy S) T t u i) \<and> own_change u A d d'"
proof -
  from published_facts [OF assms(1)] assms(2) obtain t e' s n where p: "event_tenant ctx = Ok t" "validate_event S ctx t e = Ok ()"
    "authorize (evs_policy S) (caller_of ctx actor) t e (evw_members w) = (Ok e', s)" "main_event_record t (e'\<lparr>ev_conversation_seq := n\<rparr>) rec"
    by auto
  let ?e = "e'\<lparr>ev_conversation_seq := n\<rparr>"
  have t: "normalize_optional_tenant_id (Some t) = Some t"
    using p(1) normalize_tenant_stable by (simp add: event_tenant_Ok)
  have carried: "event_carries t ?e rec" using p(4) by (simp add: main_event_record_def)
  from fanout_carried_event [OF this assms(6) t assms(8)] obtain st an where
    st: "mq_sent (fw_mq v1) = an # st # mq_sent (fw_mq v)" "event_carries t ?e st" by blast
  with assms(9) have "consume_operation OC E (Message_Pipeline.deliver st) d = (res, d')" by simp
  from consume_carried_event [OF st(2) assms(7) t this] obtain cx x r1 where
    x: "enrich_operation_event_from_ctx cx (event_from_proto (oc_encode OC) (oc_number OC) ?e) = Some x" "oev_tenant_id x = t"
    "process_event E x d = (r1, d')" by blast
  note no_state = user_event_no_plugin_state [OF assms(4) p(2) assms(3)]
  have "contained t d d' \<and> (\<exists>A. (\<forall>i. A i \<longrightarrow> sent_recently (evs_policy S) T t u i) \<and> own_change u A d d')"
    by (rule authorized_own_change [OF p(3) assms(3) _ _ assms(5) x]) (use no_state in auto)
  with p(1) show ?thesis by blast
qed

section \<open>Examples\<close>

definition example_row :: "string \<Rightarrow> string \<Rightarrow> string \<Rightarrow> string \<Rightarrow> message_row" where
  "example_row server_id cv client_id sender = \<lparr>row_tenant_id = ''t1'', row_server_id = server_id, row_conversation_id = cv,
     row_client_msg_id = Some client_id, row_sender_id = sender, row_sender_name = None, row_sender_avatar = None, row_channel_id = None,
     row_thread_id = None, row_source = 1, row_seq = 1, row_conversation_type = 2, row_message_type = MtText, row_content = Some ''old'',
     row_status = 2, row_retention = (False, None, 0, None, None, None), row_offline_push_info = None, row_extra = Map.empty,
     row_extensions = Map.empty, row_created_at = 1000\<rparr>"

text \<open>Alice's message \<open>m1\<close>, and a message of Mallory in another conversation that was sent with the client id \<open>m1\<close>.\<close>

definition example_two_rows :: op_db where
  "example_two_rows = example_tables\<lparr>od_archive := empty_db\<lparr>db_messages := [(''t1'', ''m1'', 1000) \<mapsto> example_row ''m1'' ''2-g'' ''c1'' ''alice'',
       (''t1'', ''m9'', 1000) \<mapsto> example_row ''m9'' ''2-x'' ''m1'' ''mallory'']\<rparr>,
     od_keys := [(''t1'', ''m9'', 1000), (''t1'', ''m1'', 1000)]\<rparr>"

definition example_ctx :: mq_ctx where
  "example_ctx = \<lparr>mx_tenant_id = Some ''t1'', mx_user_id = Some ''alice'', mx_claims = None, mx_recovered = None, mx_metadata = Map.empty\<rparr>"

definition example_encode :: "content option \<Rightarrow> string" where
  "example_encode c = (case c of Some (Text x) \<Rightarrow> x | _ \<Rightarrow> [])"

definition example_number :: "event_type \<Rightarrow> int" where
  "example_number t = (case t of EventMessage \<Rightarrow> 1 | EventMessageRecall \<Rightarrow> 2 | EventMessageEdit \<Rightarrow> 3 | EventReaction \<Rightarrow> 8 | _ \<Rightarrow> 0)"

text \<open>The way of an event of a user through the policy to the tables of the writer.\<close>

definition example_way :: "string \<Rightarrow> event \<Rightarrow> op_db \<Rightarrow> (op_event \<times> unit result \<times> op_db) option" where
  "example_way u e d = (case fst (authorize example_policy (example_user u) ''t1'' e ()) of
      Inl _ \<Rightarrow> None
    | Inr e' \<Rightarrow> (case enrich_operation_event_from_ctx example_ctx (event_from_proto example_encode example_number e') of
        None \<Rightarrow> None | Some x \<Rightarrow> Some (x, process_event (example_op_env 20 (\<lambda>_. Done) Done) x d)))"

text \<open>The same way with the queues in between: handler, orchestrator consumer, writer consumer.\<close>

definition example_operations :: operation_consumer where
  "example_operations = \<lparr>oc_of_metadata = plain_of_metadata, oc_encode = example_encode, oc_number = example_number\<rparr>"

definition example_alice :: mq_ctx where
  "example_alice = example_event_ctx\<lparr>mx_user_id := Some ''alice''\<rparr>"

definition example_recall_submit :: "unit result \<times> (unit, nat, mem_state, unit) event_world" where
  "example_recall_submit = handle_event (example_events Done True) example_mq_call example_alice None
     (example_op EventMessageRecall (EvRecall example_recall_event)) example_event_world"

definition example_recall_fanout :: "(consumer_error + unit) \<times> (unit, unit, unit) fanout_world" where
  "example_recall_fanout = consume_main plain_of_metadata example_fanout example_fanout_call
     (Message_Pipeline.deliver (hd (mq_sent (evw_mq (snd example_recall_submit))))) example_fanout_world"

definition example_recall_stored :: "(consumer_error + message_result) \<times> op_db" where
  "example_recall_stored = consume_operation example_operations (example_op_env 20 (\<lambda>_. Done) Done)
     (Message_Pipeline.deliver (hd (tl (mq_sent (fw_mq (snd example_recall_fanout)))))) example_two_rows"

theorem user_changes_only_own_witness:
  "\<exists>A. map_option row_status (db_messages (od_archive (snd example_recall_stored)) (''t1'', ''m1'', 1000)) = Some 5
     \<and> contained ''t1'' example_two_rows (snd example_recall_stored) \<and> own_change ''alice'' A example_two_rows (snd example_recall_stored)"
proof -
  let ?S = "example_events Done True"
  have "length (mq_sent (evw_mq (snd example_recall_submit))) = 1" by code_simp
  then obtain rec where rec: "mq_sent (evw_mq (snd example_recall_submit)) = rec # mq_sent (evw_mq example_event_world)"
    by (cases "mq_sent (evw_mq (snd example_recall_submit))") (simp_all add: example_event_world_def)
  have sub: "handle_event ?S example_mq_call example_alice None (example_op EventMessageRecall (EvRecall example_recall_event)) example_event_world
      = (fst example_recall_submit, snd example_recall_submit)" by (simp add: example_recall_submit_def)
  have "case fst example_recall_fanout of Inl e \<Rightarrow> False | Inr u \<Rightarrow> True" by code_simp
  then have "fst example_recall_fanout = Inr ()" by (cases "fst example_recall_fanout") auto
  then have fan: "consume_main plain_of_metadata example_fanout example_fanout_call (Message_Pipeline.deliver rec) example_fanout_world
      = (Inr (), snd example_recall_fanout)" using rec by (simp add: example_recall_fanout_def prod_eq_iff)
  have st: "consume_operation example_operations (example_op_env 20 (\<lambda>_. Done) Done)
      (Message_Pipeline.deliver (hd (tl (mq_sent (fw_mq (snd example_recall_fanout)))))) example_two_rows
      = (fst example_recall_stored, snd example_recall_stored)" by (simp add: example_recall_stored_def)
  have op: "operator_of (op_keys (evs_policy ?S)) (caller_of example_alice None) = OpUser ''alice''" by code_simp
  have val: "evs_validation ?S = composite_validate (default_event_composite (op_keys (evs_policy ?S)))"
    by (simp add: example_events_def example_policy_def)
  obtain T where T: "op_targets (evs_policy ?S) = Some T" by (simp add: example_events_def example_policy_def)
  have md: "reads_metadata (oc_of_metadata example_operations)" by (simp add: example_operations_def plain_reads_metadata)
  have tenant: "event_tenant example_alice = Ok ''t1''" by code_simp
  have row: "map_option row_status (db_messages (od_archive (snd example_recall_stored)) (''t1'', ''m1'', 1000)) = Some 5" by code_simp
  from user_changes_only_own [OF sub rec op val T plain_reads_metadata md fan st] tenant row show ?thesis by auto
qed

text \<open>
  An edit can land in another conversation. The writer looks for the edited message by server id or client id and takes the first
  row it finds. When Mallory has sent, in any conversation of the tenant, a message with the server id of Alice's message as its client id and
  that row comes first, Alice's edit replaces the content of Mallory's message; her own message stays as it was.
\<close>

lemma edit_lands_elsewhere:
  "case example_way ''alice'' (example_op EventMessageEdit (EvEdit \<lparr>ede_server_msg_id = ''m1'', ede_new_content = Some (Some (Text ''secret'')),
       ede_reason = [], ede_show_edited_mark = False\<rparr>)) example_two_rows of
     None \<Rightarrow> False
   | Some (x, r, d') \<Rightarrow> r = Ok ()
       \<and> map_option (\<lambda>row. (row_sender_id row, row_conversation_id row, row_content row)) (db_messages (od_archive d') (''t1'', ''m9'', 1000))
           = Some (''mallory'', ''2-x'', Some ''secret'')
       \<and> map_option row_content (db_messages (od_archive d') (''t1'', ''m1'', 1000)) = Some (Some ''old'')"
  by code_simp

text \<open>
  Type and payload of an event need not agree. A member can send an event of the type of a new message that carries a reaction: the
  policy and the writer go by the payload, so the reaction is stored, and the event stream keeps it at its position as a message.
\<close>

theorem reaction_streamed_as_message:
  "let e = (example_op EventMessage (EvReaction \<lparr>rxe_server_msg_id = ''m1'', rxe_user_id = [], rxe_emoji = ''x'', rxe_action = 1\<rparr>))\<lparr>ev_conversation_seq := 9\<rparr>
   in case example_way ''bob'' e example_two_rows of
        None \<Rightarrow> False
      | Some (x, r, d') \<Rightarrow> r = Ok () \<and> oev_type x = DeMessage \<and> od_events d' (stream_position x) \<noteq> None
          \<and> map_option rx_user_ids (od_reactions d' (''t1'', ''m1'', ''x'')) = Some [''bob'']"
  by code_simp

end
