(* ===== verification/Read_Receipts.thy ===== *)
theory Read_Receipts
  imports Flare_Prelude
begin

text \<open>
  Who has read a group message: \<^verbatim>\<open>flare-conversation/src/domain/model/read_receipt.rs\<close>, its use in
  \<^verbatim>\<open>domain/service/conversation_domain_service.rs\<close> and the query checks of \<^verbatim>\<open>application/handlers.rs\<close>. The repository, the
  caller of the context and the kind of a conversation id are parameters.
\<close>

section \<open>Positions and counts\<close>

definition READ_RECEIPT_MEMBER_LIMIT :: nat where "READ_RECEIPT_MEMBER_LIMIT = 500"
definition MAX_READ_SUMMARY_MESSAGES :: nat where "MAX_READ_SUMMARY_MESSAGES = 50"
definition DEFAULT_READER_PAGE :: nat where "DEFAULT_READER_PAGE = 50"
definition MAX_READER_PAGE :: nat where "MAX_READER_PAGE = 200"

text \<open>Recalled and deleted.\<close>

definition ENDED_STATUSES :: "int list" where "ENDED_STATUSES = [5, 6]"

record member_read_position =
  mrp_user_id :: string
  mrp_last_read_seq :: int
  mrp_visible_from_seq :: int

record receipt_message =
  rcm_server_id :: string
  rcm_seq :: int
  rcm_sender_id :: string
  rcm_status :: int

definition has_receipts_for :: "string \<Rightarrow> receipt_message \<Rightarrow> bool" where
  "has_receipts_for sender m \<longleftrightarrow> 0 < rcm_seq m \<and> rcm_sender_id m = sender \<and> rcm_status m \<notin> set ENDED_STATUSES"

record read_counts =
  rct_read :: nat
  rct_unread :: nat
  rct_total :: nat

datatype reader_state = ReaderRead | ReaderUnread

record read_watermarks =
  rws_members :: "member_read_position list"
  rws_read :: "int list"
  rws_floors :: "int list"
  rws_hidden_reads :: "int list"

text \<open>\<^verbatim>\<open>Vec::dedup_by\<close> on a key: of neighbours with the same key the first is kept.\<close>

fun dedup_by_key :: "('a \<Rightarrow> 'b) \<Rightarrow> 'a list \<Rightarrow> 'a list" where
  "dedup_by_key f (x # y # xs) = (if f x = f y then dedup_by_key f (x # xs) else x # dedup_by_key f (y # xs))"
| "dedup_by_key f xs = xs"

definition without_sender :: "member_read_position list \<Rightarrow> string \<Rightarrow> read_watermarks" where
  "without_sender members sender =
     (let members = filter (\<lambda>m. mrp_user_id m \<noteq> sender) members;
          members = sort_key mrp_user_id members;
          members = dedup_by_key mrp_user_id members
      in \<lparr>rws_members = members, rws_read = sort (map mrp_last_read_seq members), rws_floors = sort (map mrp_visible_from_seq members),
          rws_hidden_reads = sort (map (\<lambda>m. min (mrp_last_read_seq m) (mrp_visible_from_seq m)) members)\<rparr>)"

text \<open>
  \<^verbatim>\<open>slice::partition_point\<close> on a slice whose elements with the property come first.
\<close>

definition partition_point :: "('a \<Rightarrow> bool) \<Rightarrow> 'a list \<Rightarrow> nat" where
  "partition_point P xs = length (takeWhile P xs)"

text \<open>A subtraction of \<^verbatim>\<open>usize\<close> that would go below 0 panics: no result.\<close>

definition checked_sub :: "nat \<Rightarrow> nat \<Rightarrow> nat option" where
  "checked_sub a b = (if b \<le> a then Some (a - b) else None)"

definition as_u32 :: "nat \<Rightarrow> nat" where "as_u32 n = n mod 2 ^ 32"

definition at_or_past :: "int list \<Rightarrow> int \<Rightarrow> nat option" where
  "at_or_past sorted_values seq = checked_sub (length sorted_values) (partition_point (\<lambda>v. v < seq) sorted_values)"

definition counts :: "read_watermarks \<Rightarrow> int \<Rightarrow> read_counts option" where
  "counts w seq =
     (let total = partition_point (\<lambda>floor. floor < seq) (rws_floors w) in
      Option.bind (at_or_past (rws_read w) seq) (\<lambda>past.
      Option.bind (at_or_past (rws_hidden_reads w) seq) (\<lambda>hidden.
      Option.bind (checked_sub past hidden) (\<lambda>read.
      Option.bind (checked_sub total read) (\<lambda>unread.
        Some \<lparr>rct_read = as_u32 read, rct_unread = as_u32 unread, rct_total = as_u32 total\<rparr>)))))"

definition on_side :: "int \<Rightarrow> reader_state \<Rightarrow> member_read_position \<Rightarrow> bool" where
  "on_side seq st m \<longleftrightarrow> mrp_visible_from_seq m < seq
     \<and> (case st of ReaderRead \<Rightarrow> seq \<le> mrp_last_read_seq m | ReaderUnread \<Rightarrow> mrp_last_read_seq m < seq)"

definition reader_page :: "read_watermarks \<Rightarrow> int \<Rightarrow> reader_state \<Rightarrow> string \<Rightarrow> nat \<Rightarrow> string list \<times> string \<times> bool" where
  "reader_page w seq st cursor limit =
     (let side = map mrp_user_id (filter (\<lambda>m. cursor = [] \<or> cursor < mrp_user_id m) (filter (on_side seq st) (rws_members w)));
          page = take limit side;
          has_more = (drop limit side \<noteq> []);
          next_cursor = (if has_more then (if page = [] then [] else last page) else [])
      in (page, next_cursor, has_more))"

section \<open>The service and its queries\<close>

record receipts_repo =
  rre_members :: "string \<Rightarrow> string list \<Rightarrow> string list result"
  rre_positions :: "string \<Rightarrow> nat \<Rightarrow> member_read_position list result"
  rre_messages :: "string \<Rightarrow> string list \<Rightarrow> receipt_message list result"
  rre_is_group :: "string \<Rightarrow> bool"

record message_read_summaries =
  mrs_available :: bool
  mrs_summaries :: "(string \<times> read_counts) list"

record message_reader_page =
  mrd_available :: bool
  mrd_counts :: "read_counts option"
  mrd_user_ids :: "string list"
  mrd_next_cursor :: string
  mrd_has_more :: bool

definition not_found :: "string \<Rightarrow> flare_error" where "not_found what = FlareError MessageNotFound what"

text \<open>\<open>caller\<close> is the user of the context, or the error of a context without one.\<close>

definition require_member_caller :: "receipts_repo \<Rightarrow> string result \<Rightarrow> string \<Rightarrow> string result" where
  "require_member_caller R caller conversation_id =
     and_then caller (\<lambda>caller.
     and_then (rre_members R conversation_id [caller]) (\<lambda>seated.
       if caller \<in> set seated then Ok caller else Err (not_found ''conversation not found'')))"

definition group_read_watermarks :: "receipts_repo \<Rightarrow> string \<Rightarrow> string \<Rightarrow> read_watermarks option result" where
  "group_read_watermarks R conversation_id caller =
     (if \<not> rre_is_group R conversation_id then Ok None
      else and_then (rre_positions R conversation_id (READ_RECEIPT_MEMBER_LIMIT + 1)) (\<lambda>members.
        Ok (if length members > READ_RECEIPT_MEMBER_LIMIT then None else Some (without_sender members caller))))"

fun position_in :: "'a \<Rightarrow> 'a list \<Rightarrow> nat option" where
  "position_in x [] = None"
| "position_in x (y # ys) = (if y = x then Some 0 else map_option Suc (position_in x ys))"

text \<open>The order of \<^verbatim>\<open>Option<usize>\<close>: absent first.\<close>

definition request_order :: "string list \<Rightarrow> string \<Rightarrow> nat" where
  "request_order ids i = (case position_in i ids of None \<Rightarrow> 0 | Some n \<Rightarrow> Suc n)"

text \<open>A panic while counting is the outcome \<open>None\<close>.\<close>

definition message_read_summaries :: "receipts_repo \<Rightarrow> string result \<Rightarrow> string \<Rightarrow> string list \<Rightarrow> message_read_summaries result option" where
  "message_read_summaries R caller conversation_id server_msg_ids =
     (case and_then (require_member_caller R caller conversation_id) (\<lambda>caller.
           and_then (group_read_watermarks R conversation_id caller) (\<lambda>w.
             case w of
               None \<Rightarrow> Ok None
             | Some w \<Rightarrow> and_then (rre_messages R conversation_id server_msg_ids) (\<lambda>messages. Ok (Some (caller, w, messages))))) of
        Inl e \<Rightarrow> Some (Err e)
      | Inr None \<Rightarrow> Some (Ok \<lparr>mrs_available = False, mrs_summaries = []\<rparr>)
      | Inr (Some (caller, w, messages)) \<Rightarrow>
          map_option (\<lambda>summaries.
              let summaries = sort_key (\<lambda>s. request_order server_msg_ids (fst s)) summaries;
                  summaries = dedup_by_key fst summaries
              in Ok \<lparr>mrs_available = True, mrs_summaries = summaries\<rparr>)
            (those (map (\<lambda>m. map_option (Pair (rcm_server_id m)) (counts w (rcm_seq m))) (filter (has_receipts_for caller) messages))))"

definition message_readers :: "receipts_repo \<Rightarrow> string result \<Rightarrow> string \<Rightarrow> string \<Rightarrow> reader_state \<Rightarrow> string \<Rightarrow> nat \<Rightarrow>
     message_reader_page result option" where
  "message_readers R caller conversation_id server_msg_id st cursor limit =
     (case and_then (require_member_caller R caller conversation_id) (\<lambda>caller.
           and_then (rre_messages R conversation_id [server_msg_id]) (\<lambda>messages.
             case List.find (\<lambda>m. rcm_server_id m = server_msg_id) messages of
               None \<Rightarrow> Err (not_found ''message not found'')
             | Some m \<Rightarrow> if \<not> has_receipts_for caller m then Err (not_found ''message not found'')
                 else and_then (group_read_watermarks R conversation_id caller) (\<lambda>w. Ok (m, w)))) of
        Inl e \<Rightarrow> Some (Err e)
      | Inr (m, None) \<Rightarrow> Some (Ok \<lparr>mrd_available = False, mrd_counts = None, mrd_user_ids = [], mrd_next_cursor = [], mrd_has_more = False\<rparr>)
      | Inr (m, Some w) \<Rightarrow>
          (case reader_page w (rcm_seq m) st cursor limit of (user_ids, next_cursor, has_more) \<Rightarrow>
             map_option (\<lambda>c. Ok \<lparr>mrd_available = True, mrd_counts = Some c, mrd_user_ids = user_ids, mrd_next_cursor = next_cursor,
                mrd_has_more = has_more\<rparr>) (counts w (rcm_seq m))))"

definition handle_get_message_read_summaries :: "receipts_repo \<Rightarrow> string result \<Rightarrow> string \<Rightarrow> string list \<Rightarrow> message_read_summaries result option" where
  "handle_get_message_read_summaries R caller conversation_id server_msg_ids =
     (if trim conversation_id = [] \<or> server_msg_ids = [] \<or> length server_msg_ids > MAX_READ_SUMMARY_MESSAGES
        \<or> \<not> distinct server_msg_ids \<or> list_ex (\<lambda>i. trim i = []) server_msg_ids
      then Some (Err (FlareError InvalidParameter ''conversation_id and 1..=50 distinct server_msg_ids are required''))
      else message_read_summaries R caller (trim conversation_id) server_msg_ids)"

definition handle_list_message_readers :: "receipts_repo \<Rightarrow> string result \<Rightarrow> string \<Rightarrow> string \<Rightarrow> reader_state \<Rightarrow> string \<Rightarrow> int \<Rightarrow>
     message_reader_page result option" where
  "handle_list_message_readers R caller conversation_id server_msg_id st cursor limit =
     (let n = (if limit < 0 then None else if limit = 0 then Some DEFAULT_READER_PAGE
          else if nat limit \<le> MAX_READER_PAGE then Some (nat limit) else None)
      in case n of
           Some n \<Rightarrow> if trim conversation_id = [] \<or> trim server_msg_id = []
             then Some (Err (FlareError InvalidParameter ''conversation_id, server_msg_id and a limit of 0..=200 are required''))
             else message_readers R caller (trim conversation_id) (trim server_msg_id) st (trim cursor) n
         | None \<Rightarrow> Some (Err (FlareError InvalidParameter ''conversation_id, server_msg_id and a limit of 0..=200 are required'')))"

section \<open>Counting by binary search\<close>

lemma dedup_by_key_subset: "set (dedup_by_key f xs) \<subseteq> set xs"
  by (induction f xs rule: dedup_by_key.induct) auto

lemma dedup_by_key_strict:
  "sorted (map f xs) \<Longrightarrow> sorted_wrt (<) (map (f :: 'a \<Rightarrow> 'b :: linorder) (dedup_by_key f xs))"
proof (induction f xs rule: dedup_by_key.induct)
  case (1 f x y xs)
  show ?case
  proof (cases "f x = f y")
    case True
    with 1 show ?thesis by simp
  next
    case False
    have "f x < f y" using 1(3) False by (simp add: less_le)
    moreover have "f y \<le> f z" if "z \<in> set (dedup_by_key f (y # xs))" for z
      using that 1(3) dedup_by_key_subset [of f "y # xs"] by auto
    ultimately have "\<forall>z \<in> set (dedup_by_key f (y # xs)). f x < f z" by (meson less_le_trans)
    with 1(2,3) False show ?thesis by simp
  qed
qed simp_all

lemma length_dedup_by_key: "length (dedup_by_key f xs) \<le> length xs"
  by (induction f xs rule: dedup_by_key.induct) auto

lemma without_sender_members:
  "sorted_wrt (<) (map mrp_user_id (rws_members (without_sender members sender)))"
  "set (rws_members (without_sender members sender)) \<subseteq> {m \<in> set members. mrp_user_id m \<noteq> sender}"
  "length (rws_members (without_sender members sender)) \<le> length members"
proof -
  show "sorted_wrt (<) (map mrp_user_id (rws_members (without_sender members sender)))"
    by (simp add: without_sender_def Let_def dedup_by_key_strict)
  show "set (rws_members (without_sender members sender)) \<subseteq> {m \<in> set members. mrp_user_id m \<noteq> sender}"
    using dedup_by_key_subset [of mrp_user_id "sort_key mrp_user_id (filter (\<lambda>m. mrp_user_id m \<noteq> sender) members)"]
    by (auto simp: without_sender_def Let_def)
  show "length (rws_members (without_sender members sender)) \<le> length members"
    by (simp add: without_sender_def Let_def) (rule order_trans [OF length_dedup_by_key], simp)
qed

lemma partition_point_sorted:
  "sorted xs \<Longrightarrow> partition_point (\<lambda>v. v < s) xs = length (filter (\<lambda>v. v < (s :: int)) xs)"
proof (induction xs)
  case (Cons x xs)
  then show ?case by (cases "x < s") (auto simp: partition_point_def filter_empty_conv)
qed (simp add: partition_point_def)

lemma length_filter_sort: "length (filter P (sort (map f xs))) = length (filter (\<lambda>x. P (f x)) xs)"
  by (simp add: filter_sort filter_map comp_def)

lemma at_or_past_sort:
  "at_or_past (sort (map f xs)) s = Some (length (filter (\<lambda>x. s \<le> f x) xs))"
  using sum_length_filter_compl [of "\<lambda>x. f x < s" xs]
  by (auto simp: at_or_past_def checked_sub_def partition_point_sorted length_filter_sort not_less)

lemma length_filter_conj: "length (filter P xs) = length (filter (\<lambda>x. P x \<and> Q x) xs) + length (filter (\<lambda>x. P x \<and> \<not> Q x) xs)"
  by (induction xs) auto

text \<open>
  C22: the counts are right. For the members other than the sender, the counts found by three binary searches are the numbers of
  members who see the message and have read it, and who see it and have not; no subtraction goes below zero and no
  count is cut to 32 bits.
\<close>

theorem read_counts_exact:
  assumes "length members < 2 ^ 32" and "w = without_sender members sender"
  shows "counts w seq = Some \<lparr>rct_read = length (filter (on_side seq ReaderRead) (rws_members w)),
     rct_unread = length (filter (on_side seq ReaderUnread) (rws_members w)),
     rct_total = length (filter (\<lambda>m. mrp_visible_from_seq m < seq) (rws_members w))\<rparr>"
proof -
  let ?ms = "rws_members w"
  let ?read = "length (filter (on_side seq ReaderRead) ?ms)" and ?unread = "length (filter (on_side seq ReaderUnread) ?ms)"
  let ?total = "length (filter (\<lambda>m. mrp_visible_from_seq m < seq) ?ms)"
  have w: "rws_read w = sort (map mrp_last_read_seq ?ms)" "rws_floors w = sort (map mrp_visible_from_seq ?ms)"
    "rws_hidden_reads w = sort (map (\<lambda>m. min (mrp_last_read_seq m) (mrp_visible_from_seq m)) ?ms)"
    by (simp_all add: assms(2) without_sender_def Let_def)
  have side: "on_side seq ReaderRead = (\<lambda>m. mrp_visible_from_seq m < seq \<and> seq \<le> mrp_last_read_seq m)"
    "on_side seq ReaderUnread = (\<lambda>m. mrp_visible_from_seq m < seq \<and> mrp_last_read_seq m < seq)" by (simp_all add: on_side_def fun_eq_iff)
  have past: "length (filter (\<lambda>m. seq \<le> mrp_last_read_seq m) ?ms)
      = length (filter (\<lambda>m. seq \<le> min (mrp_last_read_seq m) (mrp_visible_from_seq m)) ?ms) + ?read"
    using length_filter_conj [of "\<lambda>m. seq \<le> mrp_last_read_seq m" ?ms "\<lambda>m. seq \<le> mrp_visible_from_seq m"]
    by (simp add: side not_le conj_commute)
  have total: "?total = ?read + ?unread"
    using length_filter_conj [of "\<lambda>m. mrp_visible_from_seq m < seq" ?ms "\<lambda>m. seq \<le> mrp_last_read_seq m"]
    by (simp add: side not_le)
  have "?total < 2 ^ 32"
    using length_filter_le [of "\<lambda>m. mrp_visible_from_seq m < seq" ?ms] without_sender_members(3) [of members sender] assms(1)
    unfolding assms(2) by linarith
  with past total show ?thesis
    by (simp add: counts_def w at_or_past_sort partition_point_sorted length_filter_sort checked_sub_def as_u32_def)
qed

section \<open>Paging\<close>

text \<open>A client that follows the cursors: the pages joined, or \<open>None\<close> when \<open>fuel\<close> pages are not enough.\<close>

fun follow_pages :: "nat \<Rightarrow> read_watermarks \<Rightarrow> int \<Rightarrow> reader_state \<Rightarrow> string \<Rightarrow> nat \<Rightarrow> string list option" where
  "follow_pages 0 w seq st cursor limit = None"
| "follow_pages (Suc fuel) w seq st cursor limit =
     (case reader_page w seq st cursor limit of (page, next_cursor, has_more) \<Rightarrow>
        if has_more then map_option ((@) page) (follow_pages fuel w seq st next_cursor limit) else Some page)"

lemma filter_above: "sorted_wrt (<) xs \<Longrightarrow> 0 < k \<Longrightarrow> k \<le> length xs \<Longrightarrow> filter (\<lambda>u. xs ! (k - 1) < u) xs = drop k (xs :: string list)"
proof (induction xs arbitrary: k)
  case (Cons x xs)
  show ?case
  proof (cases "k = 1")
    case True
    with Cons.prems(1) show ?thesis by (simp add: filter_id_conv)
  next
    case False
    then obtain j where j: "k = Suc j" "0 < j" using Cons.prems(2) by (cases k) auto
    have "x < xs ! (j - 1)" using Cons.prems j by auto
    then have "\<not> xs ! (j - 1) < x" by simp
    with Cons.IH [of j] Cons.prems j show ?thesis by (simp add: nth_Cons')
  qed
qed simp

lemma reader_page_from:
  assumes "sorted_wrt (<) side" "side = map mrp_user_id (filter (on_side seq st) (rws_members w))"
    "k \<le> length side" "cursor = (if k = 0 then [] else side ! (k - 1))" "[] \<notin> set side" "0 < limit"
  shows "reader_page w seq st cursor limit = (let page = take limit (drop k side) in
     (page, (if k + limit < length side then side ! (k + limit - 1) else []), k + limit < length side))"
proof -
  have rest: "map mrp_user_id (filter (\<lambda>m. cursor = [] \<or> cursor < mrp_user_id m) (filter (on_side seq st) (rws_members w))) = drop k side"
  proof (cases "k = 0")
    case True
    with assms(2,4) show ?thesis by simp
  next
    case False
    with assms(3) have "side ! (k - 1) \<in> set side" by simp
    with assms(4,5) False have c: "cursor \<noteq> []" "cursor = side ! (k - 1)" by auto
    have "map mrp_user_id (filter (\<lambda>m. cursor < mrp_user_id m) (filter (on_side seq st) (rws_members w))) = filter (\<lambda>u. cursor < u) side"
      by (simp add: assms(2) filter_map comp_def)
    with c filter_above [OF assms(1), of k] False assms(3) show ?thesis by simp
  qed
  have "last (take limit (drop k side)) = side ! (k + limit - 1)" if "k + limit < length side"
    using that assms(6) by (simp add: last_conv_nth)
  moreover have "drop limit (drop k side) \<noteq> [] \<longleftrightarrow> k + limit < length side" using assms(6) by auto
  moreover have "take limit (drop k side) \<noteq> []" if "k + limit < length side" using that assms(6) by auto
  ultimately show ?thesis
    unfolding reader_page_def Let_def rest by (cases "k + limit < length side") simp_all
qed

text \<open>
  C23: the readers are listed completely and once. A client that asks for the first page and follows the cursors until a page says
  there is no more gets, after at most one page more than there are members, everyone on the asked side of the message, in the
  order of their ids and without repetition.
\<close>

theorem readers_listed_once:
  assumes "w = without_sender members sender" and "0 < limit" and "\<forall>m \<in> set members. mrp_user_id m \<noteq> []"
  shows "follow_pages (Suc (length members)) w seq st [] limit = Some (map mrp_user_id (filter (on_side seq st) (rws_members w)))
     \<and> sorted_wrt (<) (map mrp_user_id (filter (on_side seq st) (rws_members w)))"
proof -
  let ?side = "map mrp_user_id (filter (on_side seq st) (rws_members w))"
  have sorted: "sorted_wrt (<) ?side"
    using without_sender_members(1) [of members sender] assms(1) by (simp add: sorted_wrt_map sorted_wrt_filter)
  have ids: "[] \<notin> set ?side" using without_sender_members(2) [of members sender] assms(1,3) by fastforce
  have walk: "follow_pages fuel w seq st (if k = 0 then [] else ?side ! (k - 1)) limit = Some (drop k ?side)"
    if "length ?side - k < fuel" "k \<le> length ?side" for fuel k
    using that
  proof (induction fuel arbitrary: k)
    case (Suc fuel)
    note page = reader_page_from [OF sorted refl Suc.prems(2) refl ids assms(2)]
    show ?case
    proof (cases "k + limit < length ?side")
      case True
      have "length ?side - (k + limit) < fuel" using Suc.prems assms(2) True by linarith
      from Suc.IH [OF this] True have "follow_pages fuel w seq st (?side ! (k + limit - 1)) limit = Some (drop (k + limit) ?side)"
        using assms(2) by simp
      moreover have "take limit (drop k ?side) @ drop (k + limit) ?side = drop k ?side"
        by (metis add.commute append_take_drop_id drop_drop)
      ultimately show ?thesis using True by (simp only: follow_pages.simps page Let_def prod.case if_True option.map)
    next
      case False
      then have "take limit (drop k ?side) = drop k ?side" by simp
      with False show ?thesis by (simp only: follow_pages.simps page Let_def prod.case if_False)
    qed
  qed simp
  have "length ?side - 0 < Suc (length members)"
    using without_sender_members(3) [of members sender] length_filter_le [of "on_side seq st" "rws_members w"] unfolding assms(1) length_map by linarith
  from walk [OF this] sorted show ?thesis by (simp del: follow_pages.simps)
qed

section \<open>Who may ask\<close>

lemma find_member: "List.find P xs = Some x \<Longrightarrow> x \<in> set xs \<and> P x"
  by (auto simp: find_Some_iff)

lemma readers_refused:
  assumes "rre_messages R cv [i] = Ok messages" "\<forall>m \<in> set messages. \<not> has_receipts_for u m"
  shows "message_readers R (Ok u) cv i st cursor limit =
     (case require_member_caller R (Ok u) cv of Inl e \<Rightarrow> Some (Err e) | Inr _ \<Rightarrow> Some (Err (not_found ''message not found'')))"
proof -
  have refused: "(case List.find (\<lambda>m. rcm_server_id m = i) messages of
        None \<Rightarrow> Err (not_found ''message not found'')
      | Some m \<Rightarrow> if \<not> has_receipts_for u m then Err (not_found ''message not found'') else f m) = Err (not_found ''message not found'')" for f
    using find_member [of "\<lambda>m. rcm_server_id m = i" messages] assms(2)
    by (cases "List.find (\<lambda>m. rcm_server_id m = i) messages") simp_all
  show ?thesis
  proof (cases "require_member_caller R (Ok u) cv")
    case (Inl e)
    then show ?thesis by (simp add: message_readers_def)
  next
    case (Inr v)
    then have "v = u" by (auto simp: require_member_caller_def and_then_eq_Ok split: if_splits)
    with Inr show ?thesis unfolding message_readers_def by (simp only: and_then_Ok assms(1) refused sum.case)
  qed
qed

text \<open>
  C24: only the sender learns the readers. A page of readers is answered only to a member of the conversation, about a message of
  the conversation that this member sent and that is not recalled or deleted; for any other message the answer is the one
  for an id that names nothing.
\<close>

theorem only_sender_learns_readers:
  "(\<forall>page. message_readers R caller cv i st cursor limit = Some (Ok page) \<longrightarrow>
      (\<exists>u seated messages m. caller = Ok u \<and> rre_members R cv [u] = Ok seated \<and> u \<in> set seated \<and> rre_messages R cv [i] = Ok messages
         \<and> m \<in> set messages \<and> rcm_server_id m = i \<and> rcm_sender_id m = u \<and> rcm_status m \<notin> set ENDED_STATUSES))
   \<and> (\<forall>u messages. caller = Ok u \<longrightarrow> rre_messages R cv [i] = Ok messages \<longrightarrow> (\<forall>m \<in> set messages. \<not> has_receipts_for u m) \<longrightarrow>
      message_readers R caller cv i st cursor limit = message_readers (R\<lparr>rre_messages := (\<lambda>_ _. Ok [])\<rparr>) caller cv i st cursor limit)"
proof (intro conjI allI impI)
  fix page assume "message_readers R caller cv i st cursor limit = Some (Ok page)"
  then obtain u messages m where "require_member_caller R caller cv = Ok u" "rre_messages R cv [i] = Ok messages"
    "List.find (\<lambda>m. rcm_server_id m = i) messages = Some m" "has_receipts_for u m"
    by (auto simp: message_readers_def and_then_eq_Ok split: sum.splits option.splits if_splits dest!: and_then_eq_Ok [THEN iffD1])
  then show "\<exists>u seated messages m. caller = Ok u \<and> rre_members R cv [u] = Ok seated \<and> u \<in> set seated \<and> rre_messages R cv [i] = Ok messages
         \<and> m \<in> set messages \<and> rcm_server_id m = i \<and> rcm_sender_id m = u \<and> rcm_status m \<notin> set ENDED_STATUSES"
    using find_member [of "\<lambda>m. rcm_server_id m = i" messages m]
    by (auto simp: require_member_caller_def and_then_eq_Ok has_receipts_for_def split: if_splits)
next
  fix u messages assume "caller = Ok u" "rre_messages R cv [i] = Ok messages" "\<forall>m \<in> set messages. \<not> has_receipts_for u m"
  then show "message_readers R caller cv i st cursor limit = message_readers (R\<lparr>rre_messages := (\<lambda>_ _. Ok [])\<rparr>) caller cv i st cursor limit"
    using readers_refused [of R cv i messages u] readers_refused [of "R\<lparr>rre_messages := (\<lambda>_ _. Ok [])\<rparr>" cv i "[]" u]
    by (simp add: require_member_caller_def)
qed

section \<open>Examples\<close>

definition example_members :: "member_read_position list" where
  "example_members = [\<lparr>mrp_user_id = ''dora'', mrp_last_read_seq = 3, mrp_visible_from_seq = 0\<rparr>,
     \<lparr>mrp_user_id = ''bob'', mrp_last_read_seq = 9, mrp_visible_from_seq = 0\<rparr>, \<lparr>mrp_user_id = ''alice'', mrp_last_read_seq = 9, mrp_visible_from_seq = 0\<rparr>,
     \<lparr>mrp_user_id = ''eve'', mrp_last_read_seq = 9, mrp_visible_from_seq = 8\<rparr>, \<lparr>mrp_user_id = ''carl'', mrp_last_read_seq = 5, mrp_visible_from_seq = 2\<rparr>]"

definition example_receipts :: receipts_repo where
  "example_receipts = \<lparr>rre_members = (\<lambda>_ us. Ok us), rre_positions = (\<lambda>_ _. Ok example_members),
     rre_messages = (\<lambda>_ ids. Ok (map (\<lambda>i. \<lparr>rcm_server_id = i, rcm_seq = 5, rcm_sender_id = ''alice'', rcm_status = 2\<rparr>) ids)), rre_is_group = (\<lambda>_. True)\<rparr>"

theorem read_counts_exact_witness:
  "counts (without_sender example_members ''alice'') 5 = Some \<lparr>rct_read = 2, rct_unread = 1, rct_total = 3\<rparr>
   \<and> length (filter (on_side 5 ReaderRead) (rws_members (without_sender example_members ''alice''))) = 2"
proof -
  have "length example_members < 2 ^ 32" by code_simp
  from read_counts_exact [OF this refl, of "''alice''" 5]
  have "\<exists>c. counts (without_sender example_members ''alice'') 5 = Some c
      \<and> rct_read c = length (filter (on_side 5 ReaderRead) (rws_members (without_sender example_members ''alice'')))" by simp
  moreover have "counts (without_sender example_members ''alice'') 5 = Some \<lparr>rct_read = 2, rct_unread = 1, rct_total = 3\<rparr>" by code_simp
  ultimately show ?thesis by auto
qed

theorem readers_listed_once_witness:
  "follow_pages 6 (without_sender example_members ''alice'') 5 ReaderRead [] 1 = Some [''bob'', ''carl'']"
proof -
  have "\<forall>m \<in> set example_members. mrp_user_id m \<noteq> []" by (simp add: example_members_def)
  from readers_listed_once [OF refl _ this, of 1 "''alice''" 5 ReaderRead]
  have "follow_pages (Suc (length example_members)) (without_sender example_members ''alice'') 5 ReaderRead [] 1
      = Some (map mrp_user_id (filter (on_side 5 ReaderRead) (rws_members (without_sender example_members ''alice''))))" by simp
  moreover have "map mrp_user_id (filter (on_side 5 ReaderRead) (rws_members (without_sender example_members ''alice''))) = [''bob'', ''carl'']" by code_simp
  moreover have "Suc (length example_members) = 6" by (simp add: example_members_def)
  ultimately show ?thesis by simp
qed

theorem only_sender_learns_readers_witness:
  "(\<exists>page. message_readers example_receipts (Ok ''alice'') ''g'' ''m1'' ReaderUnread [] 10 = Some (Ok page) \<and> mrd_user_ids page = [''dora''])
   \<and> message_readers example_receipts (Ok ''bob'') ''g'' ''m1'' ReaderUnread [] 10
       = message_readers (example_receipts\<lparr>rre_messages := (\<lambda>_ _. Ok [])\<rparr>) (Ok ''bob'') ''g'' ''m1'' ReaderUnread [] 10"
proof
  have "case message_readers example_receipts (Ok ''alice'') ''g'' ''m1'' ReaderUnread [] 10 of
      Some (Inr page) \<Rightarrow> mrd_user_ids page = [''dora''] | _ \<Rightarrow> False" by code_simp
  then show "\<exists>page. message_readers example_receipts (Ok ''alice'') ''g'' ''m1'' ReaderUnread [] 10 = Some (Ok page) \<and> mrd_user_ids page = [''dora'']"
    by (auto split: option.splits sum.splits)
  show "message_readers example_receipts (Ok ''bob'') ''g'' ''m1'' ReaderUnread [] 10
       = message_readers (example_receipts\<lparr>rre_messages := (\<lambda>_ _. Ok [])\<rparr>) (Ok ''bob'') ''g'' ''m1'' ReaderUnread [] 10"
    using only_sender_learns_readers [of example_receipts "Ok ''bob''" "''g''" "''m1''" ReaderUnread "[]" 10]
    by (simp add: example_receipts_def has_receipts_for_def)
qed

end
