(* ===== verification/Sync_Index.thy ===== *)
theory Sync_Index
  imports Message_Fanout Writer_Persistence Event_Stream
begin

text \<open>
  The user sync index of the orchestrator
  (\<^verbatim>\<open>flare-orchestrator/src/infrastructure/persistence/redis_user_sync_index.rs\<close>): the two scripts, the pipelines of at most
  \<^verbatim>\<open>chunk_size\<close> recipients with their reload of the script, the version bump of a large conversation and the diff against the
  versions a client knows. Redis is one table of typed values with deadlines; a command on a value of another type fails.
  Versions are Lua numbers, printed exactly below \<open>10 ^ 14\<close>.
\<close>

section \<open>Redis values\<close>

datatype redis_value = VInt nat | VZset "(string \<times> int) list" | VHash "string \<rightharpoonup> string"

type_synonym sync_db = "string \<rightharpoonup> redis_value \<times> int option"

definition wrong_type :: flare_error where
  "wrong_type = FlareError SystemError ''WRONGTYPE''"

definition live_value :: "int \<Rightarrow> sync_db \<Rightarrow> string \<Rightarrow> (redis_value \<times> int option) option" where
  "live_value now db k =
     (case db k of
        Some (v, Some deadline) \<Rightarrow> if deadline \<le> now then None else Some (v, Some deadline)
      | x \<Rightarrow> x)"

definition cmd_incr :: "int \<Rightarrow> string \<Rightarrow> sync_db \<Rightarrow> nat result \<times> sync_db" where
  "cmd_incr now k db =
     (case live_value now db k of
        None \<Rightarrow> (Ok 1, db(k \<mapsto> (VInt 1, None)))
      | Some (VInt n, d) \<Rightarrow> (Ok (Suc n), db(k \<mapsto> (VInt (Suc n), d)))
      | Some _ \<Rightarrow> (Err wrong_type, db))"

definition cmd_zadd :: "int \<Rightarrow> string \<Rightarrow> string \<Rightarrow> int \<Rightarrow> sync_db \<Rightarrow> unit result \<times> sync_db" where
  "cmd_zadd now k member score db =
     (case live_value now db k of
        None \<Rightarrow> (Ok (), db(k \<mapsto> (VZset [(member, score)], None)))
      | Some (VZset z, d) \<Rightarrow> (Ok (), db(k \<mapsto> (VZset (zadd member score z), d)))
      | Some _ \<Rightarrow> (Err wrong_type, db))"

definition cmd_hset :: "int \<Rightarrow> string \<Rightarrow> (string \<times> string) list \<Rightarrow> sync_db \<Rightarrow> unit result \<times> sync_db" where
  "cmd_hset now k values db =
     (case live_value now db k of
        None \<Rightarrow> (Ok (), db(k \<mapsto> (VHash (map_of values), None)))
      | Some (VHash h, d) \<Rightarrow> (Ok (), db(k \<mapsto> (VHash (h ++ map_of values), d)))
      | Some _ \<Rightarrow> (Err wrong_type, db))"

text \<open>\<^verbatim>\<open>ZCARD\<close> and \<^verbatim>\<open>ZREMRANGEBYRANK\<close>: the members of the lowest ranks go.\<close>

definition zset_cap :: "nat \<Rightarrow> (string \<times> int) list \<Rightarrow> (string \<times> int) list" where
  "zset_cap max_changes z =
     (if max_changes < length z then drop (length z - max_changes) (sort_key (\<lambda>(m, s). (s, m)) z) else z)"

definition cmd_cap :: "nat \<Rightarrow> string \<Rightarrow> sync_db \<Rightarrow> sync_db" where
  "cmd_cap max_changes k db =
     (case db k of Some (VZset z, d) \<Rightarrow> db(k \<mapsto> (VZset (zset_cap max_changes z), d)) | _ \<Rightarrow> db)"

definition cmd_expire :: "int \<Rightarrow> nat \<Rightarrow> string \<Rightarrow> sync_db \<Rightarrow> sync_db" where
  "cmd_expire now ttl_seconds k db =
     (case db k of None \<Rightarrow> db | Some (v, d) \<Rightarrow> db(k \<mapsto> (v, Some (now + int ttl_seconds * 1000))))"

section \<open>Keys and scripts\<close>

definition version_key :: "string \<Rightarrow> string \<Rightarrow> string" where
  "version_key tenant_id user_id = ''sync:user:'' @ tenant_id @ '':'' @ user_id @ '':version''"

definition changes_key :: "string \<Rightarrow> string \<Rightarrow> string" where
  "changes_key tenant_id user_id = ''sync:user:'' @ tenant_id @ '':'' @ user_id @ '':changes''"

definition conversation_state_key :: "string \<Rightarrow> string \<Rightarrow> string \<Rightarrow> string" where
  "conversation_state_key tenant_id user_id conversation_id =
     ''sync:user:'' @ tenant_id @ '':'' @ user_id @ '':conversation:'' @ conversation_id"

definition conversation_version_key :: "string \<Rightarrow> string \<Rightarrow> string" where
  "conversation_version_key tenant_id conversation_id = ''sync:conversation:'' @ tenant_id @ '':'' @ conversation_id @ '':version''"

definition conversation_sync_state_key :: "string \<Rightarrow> string \<Rightarrow> string" where
  "conversation_sync_state_key tenant_id conversation_id = ''sync:conversation:'' @ tenant_id @ '':'' @ conversation_id @ '':state''"

definition change_fields :: "string \<Rightarrow> string \<Rightarrow> nat \<Rightarrow> string \<Rightarrow> (string \<times> string) list" where
  "change_fields conversation_id seq version occurred_at =
     [(''conversation_id'', conversation_id), (''max_conversation_seq'', seq), (''version'', to_decimal version),
      (''updated_at_ms'', occurred_at)]"

record index_config =
  xc_max_changes_per_user :: nat
  xc_change_ttl_seconds :: nat
  xc_chunk_size :: nat

definition change_lua :: "index_config \<Rightarrow> int \<Rightarrow> string \<Rightarrow> string \<Rightarrow> string \<Rightarrow> string \<Rightarrow> string \<Rightarrow> string \<Rightarrow> sync_db \<Rightarrow>
     nat result \<times> sync_db" where
  "change_lua K now k1 k2 k3 conversation_id seq occurred_at db =
     (case cmd_incr now k1 db of
        (Inl e, db) \<Rightarrow> (Err e, db)
      | (Inr version, db) \<Rightarrow>
          (case cmd_zadd now k2 (to_decimal version @ '':'' @ conversation_id) (int version) db of
             (Inl e, db) \<Rightarrow> (Err e, db)
           | (Inr _, db) \<Rightarrow>
               (case cmd_hset now k3 (change_fields conversation_id seq version occurred_at) db of
                  (Inl e, db) \<Rightarrow> (Err e, db)
                | (Inr _, db) \<Rightarrow>
                    let max_changes = xc_max_changes_per_user K;
                        ttl = xc_change_ttl_seconds K;
                        db = (if 0 < max_changes then cmd_cap max_changes k2 db else db);
                        db = (if 0 < ttl then cmd_expire now ttl k3 (cmd_expire now ttl k2 db) else db)
                    in (Ok version, db))))"

definition bump_lua :: "index_config \<Rightarrow> int \<Rightarrow> string \<Rightarrow> string \<Rightarrow> string \<Rightarrow> string \<Rightarrow> string \<Rightarrow> sync_db \<Rightarrow>
     nat result \<times> sync_db" where
  "bump_lua K now k1 k2 conversation_id seq occurred_at db =
     (case cmd_incr now k1 db of
        (Inl e, db) \<Rightarrow> (Err e, db)
      | (Inr version, db) \<Rightarrow>
          (case cmd_hset now k2 (change_fields conversation_id seq version occurred_at) db of
             (Inl e, db) \<Rightarrow> (Err e, db)
           | (Inr _, db) \<Rightarrow>
               let ttl = xc_change_ttl_seconds K;
                   db = (if 0 < ttl then cmd_expire now ttl k2 (cmd_expire now ttl k1 db) else db)
               in (Ok version, db)))"

section \<open>The repository\<close>

definition RECORD_CHANGE_CHUNK_DEFAULT :: nat where "RECORD_CHANGE_CHUNK_DEFAULT = 500"

definition parse_record_change_chunk :: "string option \<Rightarrow> nat" where
  "parse_record_change_chunk raw =
     (case Option.bind raw (\<lambda>v. parse_u64 (trim v)) of
        Some n \<Rightarrow> if 0 < n then n else RECORD_CHANGE_CHUNK_DEFAULT
      | None \<Rightarrow> RECORD_CHANGE_CHUNK_DEFAULT)"

definition new_index :: "nat \<Rightarrow> nat \<Rightarrow> string option \<Rightarrow> index_config" where
  "new_index max_changes_per_user change_ttl_seconds chunk =
     \<lparr>xc_max_changes_per_user = max max_changes_per_user 1, xc_change_ttl_seconds = change_ttl_seconds,
      xc_chunk_size = parse_record_change_chunk chunk\<rparr>"

definition index_tenant_id :: "mq_ctx \<Rightarrow> string result" where
  "index_tenant_id ctx =
     (case normalize_optional_tenant_id (mx_tenant_id ctx) of
        None \<Rightarrow> Err (FlareError SystemError ''tenant required for the user sync index'')
      | Some t \<Rightarrow> Ok t)"

definition i64_to_string :: "int \<Rightarrow> string" where
  "i64_to_string i = (if i < 0 then CHR ''-'' # to_decimal (nat (- i)) else to_decimal (nat i))"

text \<open>
  One attempt of a pipeline: whether the script cache was flushed before it, its time and how it ends. A command of the
  transaction that fails does not stop the others. The pipelines of one call are tried at most twice, with the script loaded
  in between.
\<close>

record pipe_try =
  pt_flushed :: bool
  pt_now :: int
  pt_end :: stmt_end

record chunk_env =
  ke_first :: pipe_try
  ke_load :: stmt_end
  ke_second :: pipe_try

record sync_redis =
  sr_db :: sync_db
  sr_script_loaded :: bool

datatype pipe_answer = PipeOk | PipeNoScript | PipeFailed

fun eval_users :: "index_config \<Rightarrow> string \<Rightarrow> string \<Rightarrow> string \<Rightarrow> string \<Rightarrow> (int \<times> string) list \<Rightarrow> sync_db \<Rightarrow> bool \<times> sync_db" where
  "eval_users K tenant_id conversation_id seq occurred_at [] db = (True, db)"
| "eval_users K tenant_id conversation_id seq occurred_at ((now, u) # us) db =
     (case change_lua K now (version_key tenant_id u) (changes_key tenant_id u) (conversation_state_key tenant_id u conversation_id)
             conversation_id seq occurred_at db of
        (r, db) \<Rightarrow>
          (case eval_users K tenant_id conversation_id seq occurred_at us db of
             (good, db) \<Rightarrow> ((case r of Inl _ \<Rightarrow> False | Inr _ \<Rightarrow> good), db)))"

definition run_pipe :: "(string list \<Rightarrow> int \<Rightarrow> sync_db \<Rightarrow> bool \<times> sync_db) \<Rightarrow> pipe_try \<Rightarrow> string list \<Rightarrow> sync_redis \<Rightarrow>
     pipe_answer \<times> sync_redis" where
  "run_pipe ev p chunk r =
     (let r = (if pt_flushed p then r\<lparr>sr_script_loaded := False\<rparr> else r);
          (good, db) = ev chunk (pt_now p) (sr_db r)
      in case pt_end p of
           Failed \<Rightarrow> (PipeFailed, r)
         | Unanswered \<Rightarrow> (PipeFailed, if sr_script_loaded r then r\<lparr>sr_db := db\<rparr> else r)
         | Done \<Rightarrow>
             if \<not> sr_script_loaded r then (PipeNoScript, r)
             else ((if good then PipeOk else PipeFailed), r\<lparr>sr_db := db\<rparr>))"

definition batch_failed :: flare_error where
  "batch_failed = FlareError SystemError ''Redis user sync index batch record failed''"

definition load_failed :: flare_error where
  "load_failed = FlareError SystemError ''Redis user sync index script load failed''"

definition record_chunk :: "(string list \<Rightarrow> int \<Rightarrow> sync_db \<Rightarrow> bool \<times> sync_db) \<Rightarrow> chunk_env \<Rightarrow> string list \<Rightarrow> sync_redis \<Rightarrow>
     unit result \<times> sync_redis" where
  "record_chunk ev env chunk r =
     (case run_pipe ev (ke_first env) chunk r of
        (PipeOk, r) \<Rightarrow> (Ok (), r)
      | (PipeFailed, r) \<Rightarrow> (Err batch_failed, r)
      | (PipeNoScript, r) \<Rightarrow>
          (case ke_load env of
             Failed \<Rightarrow> (Err load_failed, r)
           | Unanswered \<Rightarrow> (Err load_failed, r\<lparr>sr_script_loaded := True\<rparr>)
           | Done \<Rightarrow>
               (case run_pipe ev (ke_second env) chunk (r\<lparr>sr_script_loaded := True\<rparr>) of
                  (PipeOk, r) \<Rightarrow> (Ok (), r)
                | (_, r) \<Rightarrow> (Err batch_failed, r))))"

fun record_chunks :: "(string list \<Rightarrow> int \<Rightarrow> sync_db \<Rightarrow> bool \<times> sync_db) \<Rightarrow> (nat \<Rightarrow> chunk_env) \<Rightarrow> nat \<Rightarrow> string list list \<Rightarrow>
     sync_redis \<Rightarrow> unit result \<times> sync_redis" where
  "record_chunks ev C i [] r = (Ok (), r)"
| "record_chunks ev C i (chunk # rest) r =
     (case record_chunk ev (C i) chunk r of
        (Inl e, r) \<Rightarrow> (Err e, r)
      | (Inr _, r) \<Rightarrow> record_chunks ev C (Suc i) rest r)"

definition connect_failed :: flare_error where
  "connect_failed = FlareError SystemError ''Redis user sync index connect''"

definition record_conversation_change :: "index_config \<Rightarrow> bool \<Rightarrow> (nat \<Rightarrow> chunk_env) \<Rightarrow> mq_ctx \<Rightarrow> string list \<Rightarrow> string \<Rightarrow>
     nat \<Rightarrow> int \<Rightarrow> sync_redis \<Rightarrow> unit result \<times> sync_redis" where
  "record_conversation_change K connected C ctx user_ids conversation_id max_conversation_seq occurred_at_ms r =
     (let conversation_id = trim conversation_id in
      if conversation_id = [] then (Ok (), r)
      else
        let user_ids = normalized_user_ids user_ids in
        if user_ids = [] then (Ok (), r)
        else
          (case index_tenant_id ctx of
             Inl e \<Rightarrow> (Err e, r)
           | Inr tenant_id \<Rightarrow>
               if \<not> connected then (Err connect_failed, r)
               else
                 record_chunks
                   (\<lambda>us now. eval_users K tenant_id conversation_id (to_decimal max_conversation_seq) (i64_to_string occurred_at_ms)
                      (map (Pair now) us))
                   C 0 (chunks (xc_chunk_size K) user_ids) r))"

definition record_conversation_version_bump :: "index_config \<Rightarrow> bool \<Rightarrow> stmt_end \<Rightarrow> int \<Rightarrow> mq_ctx \<Rightarrow> string \<Rightarrow> nat \<Rightarrow> int \<Rightarrow>
     sync_redis \<Rightarrow> nat result \<times> sync_redis" where
  "record_conversation_version_bump K connected fin now ctx conversation_id max_conversation_seq occurred_at_ms r =
     (let conversation_id = trim conversation_id;
          failed = FlareError SystemError ''Redis user sync index conversation version bump failed''
      in if conversation_id = [] then (Ok 0, r)
         else
           (case index_tenant_id ctx of
              Inl e \<Rightarrow> (Err e, r)
            | Inr tenant_id \<Rightarrow>
                if \<not> connected then (Err connect_failed, r)
                else
                  let (res, db) = bump_lua K now (conversation_version_key tenant_id conversation_id)
                        (conversation_sync_state_key tenant_id conversation_id) conversation_id
                        (to_decimal max_conversation_seq) (i64_to_string occurred_at_ms) (sr_db r)
                  in case fin of
                       Failed \<Rightarrow> (Err failed, r)
                     | Unanswered \<Rightarrow> (Err failed, r\<lparr>sr_db := db\<rparr>)
                     | Done \<Rightarrow> (map_sum (\<lambda>e. failed) (\<lambda>v. v) res, r\<lparr>sr_db := db\<rparr>)))"

section \<open>The diff\<close>

record conversation_change =
  cg_conversation_id :: string
  cg_version :: nat
  cg_max_conversation_seq :: nat
  cg_occurred_at_ms :: int

definition known_version_step :: "string \<times> nat \<Rightarrow> (string \<rightharpoonup> nat) \<Rightarrow> (string \<rightharpoonup> nat)" where
  "known_version_step kv versions =
     (let conversation_id = trim (fst kv) in
      if conversation_id = [] then versions
      else versions(conversation_id \<mapsto>
             (case versions conversation_id of None \<Rightarrow> snd kv | Some known_version \<Rightarrow> max known_version (snd kv))))"

definition normalized_known_conversation_versions :: "(string \<times> nat) list \<Rightarrow> (string \<times> nat) list" where
  "normalized_known_conversation_versions known =
     (let versions = fold known_version_step known Map.empty in
      List.map_filter (\<lambda>c. map_option (Pair c) (versions c)) (sort_dedup (map (trim \<circ> fst) known)))"

definition invalid_field :: flare_error where
  "invalid_field = FlareError SystemError ''Redis user sync index invalid field''"

definition parse_field :: "(string \<Rightarrow> 'a option) \<Rightarrow> (string \<rightharpoonup> string) \<Rightarrow> string \<Rightarrow> 'a option result" where
  "parse_field parse state field =
     (case state field of
        None \<Rightarrow> Ok None
      | Some value \<Rightarrow> (case parse value of None \<Rightarrow> Err invalid_field | Some x \<Rightarrow> Ok (Some x)))"

definition conversation_change_from_state :: "string \<Rightarrow> nat \<Rightarrow> (string \<rightharpoonup> string) \<Rightarrow> conversation_change option result" where
  "conversation_change_from_state conversation_id known_version state =
     (case parse_field parse_u64 state ''version'' of
        Inl e \<Rightarrow> Err e
      | Inr None \<Rightarrow> Ok None
      | Inr (Some version) \<Rightarrow>
          if version \<le> known_version then Ok None
          else
            let stored = (case map_option trim (state ''conversation_id'') of
                            None \<Rightarrow> conversation_id | Some c \<Rightarrow> if c = [] then conversation_id else c)
            in (case parse_field parse_u64 state ''max_conversation_seq'' of
                  Inl e \<Rightarrow> Err e
                | Inr seq \<Rightarrow>
                    (case parse_field parse_i64 state ''updated_at_ms'' of
                       Inl e \<Rightarrow> Err e
                     | Inr at \<Rightarrow>
                         Ok (Some \<lparr>cg_conversation_id = stored, cg_version = version,
                               cg_max_conversation_seq = (case seq of None \<Rightarrow> 0 | Some n \<Rightarrow> n),
                               cg_occurred_at_ms = (case at of None \<Rightarrow> 0 | Some n \<Rightarrow> n)\<rparr>))))"

text \<open>\<^verbatim>\<open>HGETALL\<close>: an absent key is an empty hash.\<close>

definition hgetall :: "int \<Rightarrow> sync_db \<Rightarrow> string \<Rightarrow> (string \<rightharpoonup> string) option" where
  "hgetall now db k = (case live_value now db k of None \<Rightarrow> Some Map.empty | Some (VHash h, d) \<Rightarrow> Some h | Some _ \<Rightarrow> None)"

fun collect_changes :: "((string \<times> nat) \<times> (string \<rightharpoonup> string)) list \<Rightarrow> conversation_change list result" where
  "collect_changes [] = Ok []"
| "collect_changes (((conversation_id, known_version), state) # rest) =
     (case conversation_change_from_state conversation_id known_version state of
        Inl e \<Rightarrow> Err e
      | Inr change \<Rightarrow>
          map_sum (\<lambda>e. e) (\<lambda>changes. (case change of None \<Rightarrow> changes | Some c \<Rightarrow> c # changes)) (collect_changes rest))"

definition diff_changed_conversations :: "bool \<Rightarrow> bool \<Rightarrow> int \<Rightarrow> mq_ctx \<Rightarrow> (string \<times> nat) list \<Rightarrow> sync_redis \<Rightarrow>
     conversation_change list result" where
  "diff_changed_conversations connected answered now ctx known r =
     (let known = normalized_known_conversation_versions known in
      if known = [] then Ok []
      else
        (case index_tenant_id ctx of
           Inl e \<Rightarrow> Err e
         | Inr tenant_id \<Rightarrow>
             if \<not> connected then Err connect_failed
             else
               let states = map (\<lambda>(c, _). hgetall now (sr_db r) (conversation_sync_state_key tenant_id c)) known
               in if \<not> answered \<or> list_ex Option.is_none states
                  then Err (FlareError SystemError ''Redis user sync index conversation diff failed'')
                  else collect_changes (zip known (map the states))))"

text \<open>The repository as the fan-out calls it; each call has its own environment.\<close>

definition redis_user_sync_index :: "index_config \<Rightarrow> bool \<Rightarrow> (nat \<Rightarrow> chunk_env) \<Rightarrow> stmt_end \<Rightarrow> int \<Rightarrow> sync_redis user_sync_index" where
  "redis_user_sync_index K connected C fin now =
     \<lparr>ux_change = record_conversation_change K connected C, ux_bump = record_conversation_version_bump K connected fin now\<rparr>"

section \<open>Keys of users\<close>

lemma colon_split:
  "CHR '':'' \<notin> set u \<Longrightarrow> CHR '':'' \<notin> set u' \<Longrightarrow> u @ CHR '':'' # a = u' @ CHR '':'' # b \<longleftrightarrow> u = u' \<and> a = b"
proof (induction u arbitrary: u')
  case Nil
  then show ?case by (cases u') auto
next
  case (Cons c u)
  then show ?case by (cases u') auto
qed

definition user_keys :: "string \<Rightarrow> string \<Rightarrow> string \<Rightarrow> string set" where
  "user_keys tenant_id conversation_id u =
     {version_key tenant_id u, changes_key tenant_id u, conversation_state_key tenant_id u conversation_id}"

lemma own_keys_differ:
  "version_key t u \<noteq> changes_key t u" "version_key t u \<noteq> conversation_state_key t u c" "changes_key t u \<noteq> conversation_state_key t u c"
  by (simp_all add: version_key_def changes_key_def conversation_state_key_def)

lemmas own_keys_distinct [simp] = own_keys_differ own_keys_differ [symmetric]

lemma user_keys_disjoint:
  assumes "CHR '':'' \<notin> set u" "CHR '':'' \<notin> set u'" "u \<noteq> u'"
  shows "user_keys t c u \<inter> user_keys t c u' = {}"
  using assms by (auto simp: user_keys_def version_key_def changes_key_def conversation_state_key_def colon_split)

section \<open>One user\<close>

lemma cmd_frame:
  "k' \<noteq> k \<Longrightarrow> snd (cmd_incr now k db) k' = db k'" "k' \<noteq> k \<Longrightarrow> snd (cmd_zadd now k m s db) k' = db k'"
  "k' \<noteq> k \<Longrightarrow> snd (cmd_hset now k vs db) k' = db k'" "k' \<noteq> k \<Longrightarrow> cmd_cap n k db k' = db k'"
  "k' \<noteq> k \<Longrightarrow> cmd_expire now ttl k db k' = db k'"
  by (auto simp: cmd_incr_def cmd_zadd_def cmd_hset_def cmd_cap_def cmd_expire_def split: option.splits redis_value.splits)

lemma change_lua_frame:
  assumes "change_lua K now k1 k2 k3 c s at db = (res, db')" "k \<notin> {k1, k2, k3}"
  shows "db' k = db k"
  using assms
  by (auto simp: change_lua_def Let_def cmd_frame split: prod.splits sum.splits if_splits
      dest!: arg_cong [where f = snd and x = "cmd_incr _ _ _"] arg_cong [where f = snd and x = "cmd_zadd _ _ _ _ _"] arg_cong [where f = snd and x = "cmd_hset _ _ _ _"])

definition user_version :: "string \<Rightarrow> string \<Rightarrow> sync_db \<Rightarrow> nat" where
  "user_version t u db = (case db (version_key t u) of Some (VInt n, _) \<Rightarrow> n | _ \<Rightarrow> 0)"

definition user_changes :: "string \<Rightarrow> string \<Rightarrow> sync_db \<Rightarrow> (string \<times> int) list" where
  "user_changes t u db = (case db (changes_key t u) of Some (VZset z, _) \<Rightarrow> z | _ \<Rightarrow> [])"

text \<open>
  The log of a user: a version without a deadline, at most the configured number of changes, none above the version, and values of
  the right types.
\<close>

definition user_log :: "index_config \<Rightarrow> string \<Rightarrow> string \<Rightarrow> string \<Rightarrow> sync_db \<Rightarrow> bool" where
  "user_log K t c u db \<longleftrightarrow>
     (case db (version_key t u) of None \<Rightarrow> True | Some (VInt _, None) \<Rightarrow> True | _ \<Rightarrow> False) \<and>
     (case db (changes_key t u) of None \<Rightarrow> True | Some (VZset z, _) \<Rightarrow> True | _ \<Rightarrow> False) \<and>
     (case db (conversation_state_key t u c) of None \<Rightarrow> True | Some (VHash h, _) \<Rightarrow> True | _ \<Rightarrow> False) \<and>
     list_all (\<lambda>(m, s). s \<le> int (user_version t u db)) (user_changes t u db) \<and>
     length (user_changes t u db) \<le> xc_max_changes_per_user K"

definition has_fields :: "(string \<times> string) list \<Rightarrow> (redis_value \<times> int option) option \<Rightarrow> bool" where
  "has_fields values x = (case x of Some (VHash h, _) \<Rightarrow> list_all (\<lambda>(f, v). h f = Some v) values | _ \<Rightarrow> False)"

definition change_recorded :: "string \<Rightarrow> string \<Rightarrow> string \<Rightarrow> string \<Rightarrow> string \<Rightarrow> nat \<Rightarrow> sync_db \<Rightarrow> bool" where
  "change_recorded t u conversation_id seq occurred_at v db \<longleftrightarrow>
     user_version t u db = v \<and> (to_decimal v @ '':'' @ conversation_id, int v) \<in> set (user_changes t u db) \<and>
     has_fields (change_fields conversation_id seq v occurred_at) (db (conversation_state_key t u conversation_id))"

lemma zset_cap_length: "length (zset_cap n z) \<le> n"
  by (simp add: zset_cap_def)

lemma zset_cap_subset: "set (zset_cap n z) \<subseteq> set z"
  using set_drop_subset [of _ "sort_key (\<lambda>(m, s). (s, m)) z"] by (auto simp: zset_cap_def)

lemma zset_cap_keeps_last:
  assumes "0 < n" "(m, s) \<in> set z" "\<And>m' s'. (m', s') \<in> set z \<Longrightarrow> (m', s') \<noteq> (m, s) \<Longrightarrow> s' < s"
  shows "(m, s) \<in> set (zset_cap n z)"
proof (cases "n < length z")
  case True
  let ?f = "\<lambda>(m::string, s::int). (s, m)"
  let ?ys = "sort_key ?f z"
  obtain i where i: "i < length ?ys" "?ys ! i = (m, s)" using assms(2) by (metis in_set_conv_nth set_sort)
  have ne: "?ys \<noteq> []" using assms(2) by (metis empty_iff list.set(1) set_sort)
  obtain m' s' where l: "last ?ys = (m', s')" by fastforce
  have "sorted (map ?f ?ys)" by simp
  then have "map ?f ?ys ! i \<le> map ?f ?ys ! (length ?ys - 1)"
    using i(1) by (intro sorted_nth_mono) auto
  then have "?f (?ys ! i) \<le> ?f (?ys ! (length ?ys - 1))" using i(1) by (subst (asm) (1 2) nth_map) auto
  then have "(s, m) \<le> (s', m')" using i(2) l ne by (simp add: last_conv_nth)
  then have "s \<le> s'" by (auto simp: less_eq_prod_def)
  moreover have "(m', s') \<in> set z" using l ne last_in_set [of ?ys] by simp
  ultimately have "(m', s') = (m, s)" using assms(3) [of m' s'] by fastforce
  moreover have "last (drop (length z - n) ?ys) = last ?ys" "drop (length z - n) ?ys \<noteq> []"
    using True assms(1) by (simp_all add: last_drop)
  ultimately show ?thesis using l True last_in_set [of "drop (length z - n) ?ys"] by (simp add: zset_cap_def)
qed (use assms in \<open>simp add: zset_cap_def\<close>)

lemma change_lua_ok:
  assumes "change_lua K now k1 k2 k3 c s at db = (Ok v, db')" "k1 \<noteq> k2" "k1 \<noteq> k3" "k2 \<noteq> k3" "0 < xc_max_changes_per_user K"
  obtains n d z d2 where
    "live_value now db k1 = None \<and> n = 0 \<and> d = None \<or> live_value now db k1 = Some (VInt n, d)" "v = Suc n" "db' k1 = Some (VInt v, d)"
    "live_value now db k2 = None \<and> z = [] \<or> (\<exists>d. live_value now db k2 = Some (VZset z, d))"
    "db' k2 = Some (VZset (zset_cap (xc_max_changes_per_user K) (zadd (to_decimal v @ '':'' @ c) (int v) z)), d2)"
    "has_fields (change_fields c s v at) (db' k3)"
proof -
  obtain db1 where 1: "cmd_incr now k1 db = (Ok v, db1)"
    using assms(1) by (auto simp: change_lua_def Let_def split: prod.splits sum.splits)
  obtain db2 where 2: "cmd_zadd now k2 (to_decimal v @ '':'' @ c) (int v) db1 = (Ok (), db2)"
    using assms(1) 1 by (auto simp: change_lua_def Let_def split: prod.splits sum.splits)
  obtain db3 where 3: "cmd_hset now k3 (change_fields c s v at) db2 = (Ok (), db3)"
    using assms(1) 1 2 by (auto simp: change_lua_def Let_def split: prod.splits sum.splits)
  let ?db4 = "cmd_cap (xc_max_changes_per_user K) k2 db3"
  let ?ttl = "xc_change_ttl_seconds K"
  have db': "db' = (if 0 < ?ttl then cmd_expire now ?ttl k3 (cmd_expire now ?ttl k2 ?db4) else ?db4)"
    using assms(1,5) 1 2 3 by (auto simp: change_lua_def Let_def)
  from 1 obtain n d where n: "live_value now db k1 = None \<and> n = 0 \<and> d = None \<or> live_value now db k1 = Some (VInt n, d)" "v = Suc n"
    "db1 = db(k1 \<mapsto> (VInt v, d))"
    by (auto simp: cmd_incr_def split: option.splits redis_value.splits prod.splits)
  have l2: "live_value now db1 k2 = live_value now db k2" using n(3) assms(2) by (simp add: live_value_def)
  from 2 l2 obtain z d2 where z: "live_value now db k2 = None \<and> z = [] \<or> (\<exists>d. live_value now db k2 = Some (VZset z, d))"
    "db2 = db1(k2 \<mapsto> (VZset (zadd (to_decimal v @ '':'' @ c) (int v) z), d2))"
    by (auto simp: cmd_zadd_def zadd_def split: option.splits redis_value.splits prod.splits)
  from 3 obtain h d3 where h: "db3 = db2(k3 \<mapsto> (VHash h, d3))" "has_fields (change_fields c s v at) (Some (VHash h, d3))"
    by (auto simp: cmd_hset_def has_fields_def change_fields_def split: option.splits redis_value.splits prod.splits)
  have db3: "db3 k1 = Some (VInt v, d)" "db3 k2 = Some (VZset (zadd (to_decimal v @ '':'' @ c) (int v) z), d2)" "db3 k3 = Some (VHash h, d3)"
    using n z h assms(2-4) by auto
  have "db' k1 = Some (VInt v, d)" using db' db3 assms(2-4) by (simp add: cmd_frame)
  moreover have "\<exists>d2. db' k2 = Some (VZset (zset_cap (xc_max_changes_per_user K) (zadd (to_decimal v @ '':'' @ c) (int v) z)), d2)"
    using db' db3 assms(2-4) by (simp add: cmd_cap_def cmd_expire_def)
  moreover have "has_fields (change_fields c s v at) (db' k3)"
    using db' db3 h(2) assms(2-4) by (simp add: cmd_cap_def cmd_expire_def has_fields_def)
  ultimately show thesis using that n z by blast
qed

abbreviation user_script :: "index_config \<Rightarrow> string \<Rightarrow> string \<Rightarrow> string \<Rightarrow> string \<Rightarrow> int \<Rightarrow> string \<Rightarrow> sync_db \<Rightarrow> nat result \<times> sync_db" where
  "user_script K t c s at now u \<equiv>
     change_lua K now (version_key t u) (changes_key t u) (conversation_state_key t u c) c s at"

lemma user_log_lives:
  assumes "user_log K t c u db"
  shows "live_value now db (version_key t u) = None \<and> user_version t u db = 0 \<or>
      live_value now db (version_key t u) = Some (VInt (user_version t u db), None)"
    and "live_value now db (changes_key t u) = None \<or> (\<exists>d. live_value now db (changes_key t u) = Some (VZset (user_changes t u db), d))"
    and "live_value now db (conversation_state_key t u c) = None \<or> (\<exists>h d. live_value now db (conversation_state_key t u c) = Some (VHash h, d))"
  using assms
  by (auto simp: user_log_def live_value_def user_version_def user_changes_def
      split: option.splits redis_value.splits prod.splits if_splits)

lemma user_script_succeeds:
  assumes "user_log K t c u db"
  obtains db' where "user_script K t c s at now u db = (Ok (Suc (user_version t u db)), db')"
proof -
  let ?v = "Suc (user_version t u db)"
  obtain d where 1: "cmd_incr now (version_key t u) db = (Ok ?v, db(version_key t u \<mapsto> (VInt ?v, d)))"
    using user_log_lives(1) [OF assms, of now] by (auto simp: cmd_incr_def)
  let ?d1 = "db(version_key t u \<mapsto> (VInt ?v, d))"
  have "live_value now ?d1 (changes_key t u) = live_value now db (changes_key t u)" by (simp add: live_value_def)
  then obtain x where 2: "cmd_zadd now (changes_key t u) (to_decimal ?v @ '':'' @ c) (int ?v) ?d1 = (Ok (), ?d1(changes_key t u \<mapsto> x))"
    using user_log_lives(2) [OF assms, of now] by (auto simp: cmd_zadd_def simp del: fun_upd_apply)
  let ?d2 = "?d1(changes_key t u \<mapsto> x)"
  have "live_value now ?d2 (conversation_state_key t u c) = live_value now db (conversation_state_key t u c)" by (simp add: live_value_def)
  then obtain y where "cmd_hset now (conversation_state_key t u c) (change_fields c s ?v at) ?d2 =
      (Ok (), ?d2(conversation_state_key t u c \<mapsto> y))"
    using user_log_lives(3) [OF assms, of now] by (auto simp: cmd_hset_def simp del: fun_upd_apply)
  with 1 2 show thesis using that by (auto simp: change_lua_def Let_def)
qed

lemma user_script_records:
  assumes "user_script K t c s at now u db = (res, db')" "user_log K t c u db" "0 < xc_max_changes_per_user K"
  shows "res = Ok (Suc (user_version t u db))" "change_recorded t u c s at (Suc (user_version t u db)) db'" "user_log K t c u db'"
proof -
  let ?v = "Suc (user_version t u db)"
  show res: "res = Ok ?v" using user_script_succeeds [OF assms(2), of now s at] assms(1) by auto
  let ?m = "to_decimal ?v @ '':'' @ c"
  obtain d z d2 where d: "db' (version_key t u) = Some (VInt ?v, d)"
      "live_value now db (version_key t u) = None \<and> d = None \<or> live_value now db (version_key t u) = Some (VInt (user_version t u db), d)"
    and z: "live_value now db (changes_key t u) = None \<and> z = [] \<or> (\<exists>d. live_value now db (changes_key t u) = Some (VZset z, d))"
    and z': "db' (changes_key t u) = Some (VZset (zset_cap (xc_max_changes_per_user K) (zadd ?m (int ?v) z)), d2)"
    and h: "has_fields (change_fields c s ?v at) (db' (conversation_state_key t u c))"
  proof (rule change_lua_ok [of K now "version_key t u" "changes_key t u" "conversation_state_key t u c" c s at db ?v db'])
    show "user_script K t c s at now u db = (Ok ?v, db')" using assms(1) res by simp
  qed (use assms(3) in auto)
  have d': "d = None" using d(2) user_log_lives(1) [OF assms(2), of now] by auto
  have v': "user_version t u db' = ?v" using d by (simp add: user_version_def)
  have zs: "\<forall>(m, s) \<in> set z. s \<le> int (user_version t u db)"
    using z user_log_lives(2) [OF assms(2), of now] assms(2) by (auto simp: user_log_def list_all_iff)
  have c': "user_changes t u db' = zset_cap (xc_max_changes_per_user K) (zadd ?m (int ?v) z)" using z' by (simp add: user_changes_def)
  have "(?m, int ?v) \<in> set (zset_cap (xc_max_changes_per_user K) (zadd ?m (int ?v) z))"
    by (rule zset_cap_keeps_last) (use assms(3) zs in \<open>auto simp: zadd_def\<close>)
  with v' c' h show "change_recorded t u c s at ?v db'" by (simp add: change_recorded_def)
  have "\<forall>(m, s) \<in> set (zadd ?m (int ?v) z). s \<le> int ?v" using zs by (auto simp: zadd_def)
  then have "list_all (\<lambda>(m, s). s \<le> int ?v) (user_changes t u db')"
    using zset_cap_subset [of "xc_max_changes_per_user K" "zadd ?m (int ?v) z"] unfolding c' list_all_iff by blast
  then show "user_log K t c u db'"
    using d d' v' z' h zset_cap_length [of "xc_max_changes_per_user K" "zadd ?m (int ?v) z"] unfolding user_log_def c'
    by (auto simp: has_fields_def split: option.splits redis_value.splits prod.splits)
qed

section \<open>The recipients of a call\<close>

lemma user_cong:
  assumes "\<And>k. k \<in> user_keys t c u \<Longrightarrow> db' k = db k"
  shows "user_version t u db' = user_version t u db" "user_log K t c u db' \<longleftrightarrow> user_log K t c u db"
    "change_recorded t u c s at v db' \<longleftrightarrow> change_recorded t u c s at v db"
  using assms by (simp_all add: user_keys_def user_version_def user_changes_def user_log_def change_recorded_def)

lemma user_script_frame:
  assumes "user_script K t c s at now u db = (res, db')" "k \<notin> user_keys t c u"
  shows "db' k = db k"
  using change_lua_frame [OF assms(1)] assms(2) by (simp add: user_keys_def)

lemma eval_users_frame:
  "k \<notin> (\<Union>p \<in> set ps. user_keys t c (snd p)) \<Longrightarrow> snd (eval_users K t c s at ps db) k = db k"
proof (induction ps arbitrary: db)
  case (Cons p ps)
  obtain now u where p: "p = (now, u)" by fastforce
  obtain res db1 where e: "user_script K t c s at now u db = (res, db1)" by fastforce
  with Cons.prems p have "db1 k = db k" by (intro user_script_frame [OF e]) auto
  with Cons.IH [of db1] Cons.prems p e show ?case by (auto split: prod.splits)
qed simp

lemma eval_users_records:
  assumes "distinct (map snd ps)" "\<forall>u \<in> snd ` set ps. CHR '':'' \<notin> set u \<and> user_log K t c u db" "0 < xc_max_changes_per_user K"
  shows "fst (eval_users K t c s at ps db) \<and> (\<forall>u \<in> snd ` set ps. user_log K t c u (snd (eval_users K t c s at ps db)) \<and>
     change_recorded t u c s at (Suc (user_version t u db)) (snd (eval_users K t c s at ps db)))"
  using assms(1,2)
proof (induction ps arbitrary: db)
  case (Cons p ps)
  obtain now u where p: "p = (now, u)" by fastforce
  obtain res db1 where e: "user_script K t c s at now u db = (res, db1)" by fastforce
  let ?db' = "snd (eval_users K t c s at ps db1)"
  have u: "u \<notin> snd ` set ps" "CHR '':'' \<notin> set u" "user_log K t c u db" using Cons.prems p by auto
  note r = user_script_records [OF e u(3) assms(3)]
  have others: "\<And>k. k \<in> user_keys t c v \<Longrightarrow> db1 k = db k" if "v \<in> snd ` set ps" for v
  proof -
    fix k assume k: "k \<in> user_keys t c v"
    have "v \<noteq> u" "CHR '':'' \<notin> set v" using that u(1) Cons.prems(2) by auto
    with user_keys_disjoint [of u v t c] u(2) k have "k \<notin> user_keys t c u" by blast
    then show "db1 k = db k" by (rule user_script_frame [OF e])
  qed
  have IH: "fst (eval_users K t c s at ps db1) \<and> (\<forall>v \<in> snd ` set ps. user_log K t c v ?db' \<and>
      change_recorded t v c s at (Suc (user_version t v db1)) ?db')"
  proof (rule Cons.IH)
    show "\<forall>v \<in> snd ` set ps. CHR '':'' \<notin> set v \<and> user_log K t c v db1"
      using Cons.prems(2) user_cong(2) [OF others] by auto
  qed (use Cons.prems(1) in simp)
  have keep: "\<And>k. k \<in> user_keys t c u \<Longrightarrow> ?db' k = db1 k"
  proof (rule eval_users_frame, rule notI)
    fix k assume "k \<in> user_keys t c u" "k \<in> (\<Union>p \<in> set ps. user_keys t c (snd p))"
    then obtain q where "q \<in> set ps" "k \<in> user_keys t c u \<inter> user_keys t c (snd q)" by blast
    then show False using user_keys_disjoint [of u "snd q" t c] u Cons.prems(2) by force
  qed
  have "user_log K t c u ?db' \<and> change_recorded t u c s at (Suc (user_version t u db)) ?db'"
    using r user_cong(2,3) [OF keep] by simp
  moreover have "\<forall>v \<in> snd ` set ps. user_version t v db1 = user_version t v db"
    by (rule ballI, rule user_cong(1) [of t c _ db1 db], rule others)
  moreover have "eval_users K t c s at (p # ps) db = (fst (eval_users K t c s at ps db1), ?db')"
    using r(1) p e by (simp split: prod.splits)
  ultimately show ?case using IH p by auto
qed simp

lemma eval_users_append:
  "eval_users K t c s at (ps @ qs) db =
     (fst (eval_users K t c s at ps db) \<and> fst (eval_users K t c s at qs (snd (eval_users K t c s at ps db))),
      snd (eval_users K t c s at qs (snd (eval_users K t c s at ps db))))"
  by (induction ps arbitrary: db) (auto split: prod.splits sum.splits)

abbreviation pipe_eval :: "index_config \<Rightarrow> string \<Rightarrow> string \<Rightarrow> string \<Rightarrow> string \<Rightarrow> string list \<Rightarrow> int \<Rightarrow> sync_db \<Rightarrow> bool \<times> sync_db" where
  "pipe_eval K t c s at \<equiv> (\<lambda>us now. eval_users K t c s at (map (Pair now) us))"

text \<open>Whatever happens to the pipelines, the recipients written are a prefix, each written once; all of them after a success.\<close>

lemma run_pipe_cases:
  assumes "run_pipe (pipe_eval K t c s at) p chunk r = (ans, r')"
  shows "ans \<noteq> PipeOk \<and> sr_db r' = sr_db r \<or>
    ans \<noteq> PipeNoScript \<and> (sr_db r' = snd (pipe_eval K t c s at chunk (pt_now p) (sr_db r)) \<and>
      (ans = PipeOk \<longrightarrow> fst (pipe_eval K t c s at chunk (pt_now p) (sr_db r))))"
  using assms by (cases "pt_end p") (auto simp: run_pipe_def Let_def split: prod.splits if_splits)

lemma record_chunk_runs:
  assumes "record_chunk (pipe_eval K t c s at) env chunk r = (res, r')"
  obtains ps where "ps = [] \<and> (\<exists>e. res = Err e) \<or> map snd ps = chunk" "sr_db r' = snd (eval_users K t c s at ps (sr_db r))"
    "res = Ok () \<longrightarrow> fst (eval_users K t c s at ps (sr_db r))"
proof -
  let ?run = "\<lambda>p. map (Pair (pt_now p)) chunk"
  obtain a r1 where 1: "run_pipe (pipe_eval K t c s at) (ke_first env) chunk r = (a, r1)" by fastforce
  note c1 = run_pipe_cases [OF 1]
  show thesis
  proof (cases a)
    case PipeNoScript
    with c1 have d1: "sr_db r1 = sr_db r" by auto
    show thesis
    proof (cases "ke_load env")
      case Done
      obtain b r2 where 2: "run_pipe (pipe_eval K t c s at) (ke_second env) chunk (r1\<lparr>sr_script_loaded := True\<rparr>) = (b, r2)" by fastforce
      have rr: "r' = r2" "res = (if b = PipeOk then Ok () else Err batch_failed)"
        using assms 1 2 PipeNoScript Done by (auto simp: record_chunk_def split: pipe_answer.splits)
      from run_pipe_cases [OF 2] d1 consider "b \<noteq> PipeOk" "sr_db r2 = sr_db r"
        | "sr_db r2 = snd (eval_users K t c s at (?run (ke_second env)) (sr_db r))"
          "b = PipeOk \<longrightarrow> fst (eval_users K t c s at (?run (ke_second env)) (sr_db r))"
        by auto
      then show thesis
        by cases (rule that [of "[]"] that [of "?run (ke_second env)"]; use rr in \<open>auto split: if_splits simp: comp_def\<close>)+
    qed (rule that [of "[]"]; use assms 1 d1 PipeNoScript in \<open>auto simp: record_chunk_def\<close>)+
  next
    case PipeOk
    with c1 show thesis by (intro that [of "?run (ke_first env)"]) (use assms 1 in \<open>auto simp: record_chunk_def comp_def\<close>)
  next
    case PipeFailed
    have rr: "r' = r1" "res = Err batch_failed" using assms 1 PipeFailed by (auto simp: record_chunk_def)
    from c1 PipeFailed show thesis
      by (elim disjE) (rule that [of "[]"] that [of "?run (ke_first env)"]; use rr in \<open>auto simp: comp_def\<close>)+
  qed
qed

lemma record_chunks_runs:
  assumes "record_chunks (pipe_eval K t c s at) C i us r = (res, r')"
  obtains ps where "prefix (map snd ps) (concat us)" "sr_db r' = snd (eval_users K t c s at ps (sr_db r))"
    "res = Ok () \<longrightarrow> map snd ps = concat us \<and> fst (eval_users K t c s at ps (sr_db r))"
  using assms
proof (induction us arbitrary: i r thesis)
  case Nil
  then show ?case by (metis concat.simps(1) eval_users.simps(1) fst_conv list.simps(8) prefix_order.refl prod.inject record_chunks.simps(1) snd_conv)
next
  case (Cons chunk us)
  obtain a r1 where 1: "record_chunk (pipe_eval K t c s at) (C i) chunk r = (a, r1)" by fastforce
  from record_chunk_runs [OF 1] obtain ps where ps: "ps = [] \<and> (\<exists>e. a = Err e) \<or> map snd ps = chunk"
    "sr_db r1 = snd (eval_users K t c s at ps (sr_db r))" "a = Ok () \<longrightarrow> fst (eval_users K t c s at ps (sr_db r))" .
  show ?case
  proof (cases a)
    case (Inl e)
    with Cons.prems(2) 1 have "r' = r1" "res = Err e" by auto
    with ps show thesis by (intro Cons.prems(1) [of ps]) auto
  next
    case (Inr x)
    with ps have m: "map snd ps = chunk" by auto
    from Cons.prems(2) 1 Inr have "record_chunks (pipe_eval K t c s at) C (Suc i) us r1 = (res, r')" by auto
    from Cons.IH [OF _ this] obtain qs where "prefix (map snd qs) (concat us)" "sr_db r' = snd (eval_users K t c s at qs (sr_db r1))"
      "res = Ok () \<longrightarrow> map snd qs = concat us \<and> fst (eval_users K t c s at qs (sr_db r1))" by blast
    with ps m Inr show thesis by (intro Cons.prems(1) [of "ps @ qs"]) (auto simp: eval_users_append)
  qed
qed

lemma parse_record_change_chunk_positive: "0 < parse_record_change_chunk raw"
  by (simp add: parse_record_change_chunk_def RECORD_CHANGE_CHUNK_DEFAULT_def split: option.splits)

lemma distinct_normalized_user_ids: "distinct (normalized_user_ids us)"
  by (simp add: normalized_user_ids_def distinct_sort_dedup)

text \<open>
  The call as a list of scripts, one per recipient and in their order, whatever the size of the pipelines.
\<close>

lemma record_conversation_change_runs:
  assumes "record_conversation_change (new_index n ttl raw) up C ctx users cid seq at r = (res, r')" "trim cid \<noteq> []"
    "index_tenant_id ctx = Ok t"
  obtains ps where "prefix (map snd ps) (normalized_user_ids users)"
    "sr_db r' = snd (eval_users (new_index n ttl raw) t (trim cid) (to_decimal seq) (i64_to_string at) ps (sr_db r))"
    "res = Ok () \<longrightarrow> map snd ps = normalized_user_ids users"
proof (cases "normalized_user_ids users = [] \<or> \<not> up")
  case True
  then have "r' = r" "res = Ok () \<longrightarrow> normalized_user_ids users = []"
    using assms by (auto simp: record_conversation_change_def Let_def split: if_splits)
  then show thesis by (intro that [of "[]"]) auto
next
  case False
  let ?K = "new_index n ttl raw"
  have "0 < xc_chunk_size ?K" by (simp add: new_index_def parse_record_change_chunk_positive)
  then have c: "concat (chunks (xc_chunk_size ?K) (normalized_user_ids users)) = normalized_user_ids users" by (rule concat_chunks)
  have "record_chunks (pipe_eval ?K t (trim cid) (to_decimal seq) (i64_to_string at)) C 0
      (chunks (xc_chunk_size ?K) (normalized_user_ids users)) r = (res, r')"
    using assms False by (simp add: record_conversation_change_def Let_def)
  from record_chunks_runs [OF this] show thesis using that unfolding c by blast
qed

lemma recorded_for_prefix:
  assumes "record_conversation_change (new_index n ttl raw) up C ctx users cid seq at r = (res, r')" "trim cid \<noteq> []"
    and "index_tenant_id ctx = Ok t"
    and "\<forall>u \<in> set (normalized_user_ids users). CHR '':'' \<notin> set u \<and> user_log (new_index n ttl raw) t (trim cid) u (sr_db r)"
  shows "\<exists>us. prefix us (normalized_user_ids users) \<and> (res = Ok () \<longrightarrow> us = normalized_user_ids users) \<and>
    (\<forall>u \<in> set us. user_log (new_index n ttl raw) t (trim cid) u (sr_db r') \<and>
       change_recorded t u (trim cid) (to_decimal seq) (i64_to_string at) (Suc (user_version t u (sr_db r))) (sr_db r')) \<and>
    (\<forall>k. k \<notin> (\<Union>u \<in> set us. user_keys t (trim cid) u) \<longrightarrow> sr_db r' k = sr_db r k)"
proof -
  from record_conversation_change_runs [OF assms(1-3)] obtain ps where ps: "prefix (map snd ps) (normalized_user_ids users)"
    "sr_db r' = snd (eval_users (new_index n ttl raw) t (trim cid) (to_decimal seq) (i64_to_string at) ps (sr_db r))"
    "res = Ok () \<longrightarrow> map snd ps = normalized_user_ids users" .
  have s: "snd ` set ps \<subseteq> set (normalized_user_ids users)" using set_mono_prefix [OF ps(1)] by simp
  have "distinct (map snd ps)" using ps(1) distinct_normalized_user_ids [of users] by (auto simp: prefix_def dest!: arg_cong [where f = distinct])
  moreover have "\<forall>u \<in> snd ` set ps. CHR '':'' \<notin> set u \<and> user_log (new_index n ttl raw) t (trim cid) u (sr_db r)" using s assms(4) by blast
  moreover have "0 < xc_max_changes_per_user (new_index n ttl raw)" by (simp add: new_index_def)
  ultimately have "\<forall>u \<in> snd ` set ps. user_log (new_index n ttl raw) t (trim cid) u (sr_db r') \<and>
      change_recorded t u (trim cid) (to_decimal seq) (i64_to_string at) (Suc (user_version t u (sr_db r))) (sr_db r')"
    unfolding ps(2) using eval_users_records by blast
  moreover have "\<forall>k. k \<notin> (\<Union>u \<in> set (map snd ps). user_keys t (trim cid) u) \<longrightarrow> sr_db r' k = sr_db r k"
    unfolding ps(2) using eval_users_frame by (metis (no_types, lifting) UN_E UN_I imageI list.set_map)
  ultimately show ?thesis using ps(1,3) by (intro exI [of _ "map snd ps"]) auto
qed

section \<open>The conversation version\<close>

lemma parse_i64_roundtrip:
  assumes "i64_min \<le> i" "i \<le> i64_max"
  shows "parse_i64 (i64_to_string i) = Some i"
proof (cases "i < 0")
  case True
  with assms show ?thesis by (simp add: i64_to_string_def parse_i64_def Let_def parse_digits_to_decimal)
next
  case False
  obtain c cs where cs: "to_decimal (nat i) = c # cs" by (cases "to_decimal (nat i)") auto
  then obtain d where d: "d < 10" "c = digit d" using set_to_decimal [of c "nat i"] by auto
  then have "c \<noteq> CHR ''+''" "c \<noteq> CHR ''-''" using digit_not_special [of d] of_char_digit [of d] by auto
  with False assms cs parse_digits_to_decimal [of "nat i"] show ?thesis by (simp add: i64_to_string_def parse_i64_def Let_def)
qed

definition conversation_version :: "int \<Rightarrow> string \<Rightarrow> string \<Rightarrow> sync_db \<Rightarrow> nat" where
  "conversation_version now t c db = (case live_value now db (conversation_version_key t c) of Some (VInt n, _) \<Rightarrow> n | _ \<Rightarrow> 0)"

lemma bump_lua_ok:
  assumes "bump_lua K now (conversation_version_key t c) k2 c s at db = (Ok v, db')" "conversation_version_key t c \<noteq> k2"
    "0 < xc_change_ttl_seconds K"
  obtains h where "v = Suc (conversation_version now t c db)" "db' k2 = Some (VHash h, Some (now + int (xc_change_ttl_seconds K) * 1000))"
    "list_all (\<lambda>(f, x). h f = Some x) (change_fields c s v at)"
    "db' (conversation_version_key t c) = Some (VInt v, Some (now + int (xc_change_ttl_seconds K) * 1000))"
proof -
  let ?k = "conversation_version_key t c" and ?d = "Some (now + int (xc_change_ttl_seconds K) * 1000)"
  obtain db1 where 1: "cmd_incr now ?k db = (Ok v, db1)"
    using assms(1) by (auto simp: bump_lua_def Let_def split: prod.splits sum.splits)
  obtain db2 where 2: "cmd_hset now k2 (change_fields c s v at) db1 = (Ok (), db2)"
    using assms(1) 1 by (auto simp: bump_lua_def Let_def split: prod.splits sum.splits)
  from 1 obtain d where n: "v = Suc (conversation_version now t c db)" "db1 ?k = Some (VInt v, d)"
    by (auto simp: cmd_incr_def conversation_version_def split: option.splits redis_value.splits prod.splits)
  from 2 obtain h e where h: "db2 = db1(k2 \<mapsto> (VHash h, e))" "list_all (\<lambda>(f, x). h f = Some x) (change_fields c s v at)"
    by (auto simp: cmd_hset_def change_fields_def split: option.splits redis_value.splits prod.splits)
  have db': "db' = cmd_expire now (xc_change_ttl_seconds K) k2 (cmd_expire now (xc_change_ttl_seconds K) ?k db2)"
    using assms(1,3) 1 2 by (auto simp: bump_lua_def Let_def)
  have "db' k2 = Some (VHash h, ?d)" "db' ?k = Some (VInt v, ?d)"
    using db' n(2) h(1) assms(2) by (simp_all add: cmd_expire_def)
  then show thesis using that n(1) h(2) by blast
qed

lemma conversation_keys_differ [simp]: "conversation_version_key t c \<noteq> conversation_sync_state_key t c'"
proof
  assume "conversation_version_key t c = conversation_sync_state_key t c'"
  then have "last (conversation_version_key t c) = last (conversation_sync_state_key t c')" by simp
  then show False by (simp add: conversation_version_key_def conversation_sync_state_key_def)
qed

lemma normalized_known_single: "trim c \<noteq> [] \<Longrightarrow> normalized_known_conversation_versions [(c, k)] = [(trim c, k)]"
  by (simp add: normalized_known_conversation_versions_def known_version_step_def Let_def sort_dedup_def map_filter_simps)

lemma change_from_fields:
  assumes "list_all (\<lambda>(f, x). h f = Some x) (change_fields c (to_decimal seq) v (i64_to_string at))" "trim c = c" "c \<noteq> []"
    "v \<le> u64_max" "seq \<le> u64_max" "i64_min \<le> at" "at \<le> i64_max"
  shows "conversation_change_from_state c' k h = Ok (if k < v then Some \<lparr>cg_conversation_id = c, cg_version = v,
     cg_max_conversation_seq = seq, cg_occurred_at_ms = at\<rparr> else None)"
  using assms by (simp add: change_fields_def conversation_change_from_state_def parse_field_def parse_u64_to_decimal parse_i64_roundtrip Let_def)

lemma diff_after_bump:
  assumes "record_conversation_version_bump K up Done now ctx cid seq at r = (Ok v, r')" "trim cid \<noteq> []" "index_tenant_id ctx = Ok t"
    "0 < xc_change_ttl_seconds K" "now' < now + int (xc_change_ttl_seconds K) * 1000"
    "v \<le> u64_max" "seq \<le> u64_max" "i64_min \<le> at" "at \<le> i64_max"
  shows "v = Suc (conversation_version now t (trim cid) (sr_db r))"
    "diff_changed_conversations True True now' ctx [(cid, k)] r' =
       Ok (if k < v then [\<lparr>cg_conversation_id = trim cid, cg_version = v, cg_max_conversation_seq = seq, cg_occurred_at_ms = at\<rparr>] else [])"
proof -
  let ?c = "trim cid"
  let ?lua = "bump_lua K now (conversation_version_key t ?c) (conversation_sync_state_key t ?c) ?c (to_decimal seq) (i64_to_string at) (sr_db r)"
  obtain res db where l: "?lua = (res, db)" by fastforce
  have up: up using assms(1-3) by (rule_tac ccontr) (simp add: record_conversation_version_bump_def)
  obtain f where f: "map_sum f (\<lambda>v. v) res = Ok v" "r' = r\<lparr>sr_db := db\<rparr>"
    using assms(1-3) l up by (auto simp: record_conversation_version_bump_def Let_def)
  then have b: "?lua = (Ok v, db)" using l by (cases res) simp_all
  note r' = f(2)
  from bump_lua_ok [OF b conversation_keys_differ assms(4)] obtain h
    where h: "v = Suc (conversation_version now t ?c (sr_db r))"
      "db (conversation_sync_state_key t ?c) = Some (VHash h, Some (now + int (xc_change_ttl_seconds K) * 1000))"
      "list_all (\<lambda>(f, x). h f = Some x) (change_fields ?c (to_decimal seq) v (i64_to_string at))" by blast
  show "v = Suc (conversation_version now t ?c (sr_db r))" by (rule h(1))
  have "hgetall now' db (conversation_sync_state_key t ?c) = Some h" using h(2) assms(5) by (simp add: hgetall_def live_value_def)
  then show "diff_changed_conversations True True now' ctx [(cid, k)] r' =
       Ok (if k < v then [\<lparr>cg_conversation_id = ?c, cg_version = v, cg_max_conversation_seq = seq, cg_occurred_at_ms = at\<rparr>] else [])"
    using change_from_fields [OF h(3) trim_idem assms(2,6-9), of ?c k] assms(2,3) r'
    by (simp add: diff_changed_conversations_def normalized_known_single)
qed

text \<open>
  The bump gives the version key a deadline. When it has passed, versions start again at one, and a client that knows a version
  of the earlier count is not told of the change.
\<close>

lemma expired_version_hides_change:
  assumes "record_conversation_version_bump K up Done now ctx cid seq at r = (Ok v, r')" "trim cid \<noteq> []" "index_tenant_id ctx = Ok t"
    "0 < xc_change_ttl_seconds K" "now' < now + int (xc_change_ttl_seconds K) * 1000" "seq \<le> u64_max" "i64_min \<le> at" "at \<le> i64_max"
    and gone: "sr_db r (conversation_version_key t (trim cid)) = Some (VInt n, Some d)" "d \<le> now" and known: "1 \<le> k"
  shows "v = 1 \<and> diff_changed_conversations True True now' ctx [(cid, k)] r' = Ok []"
proof -
  let ?c = "trim cid"
  have z: "conversation_version now t ?c (sr_db r) = 0" using gone by (simp add: conversation_version_def live_value_def)
  let ?lua = "bump_lua K now (conversation_version_key t ?c) (conversation_sync_state_key t ?c) ?c (to_decimal seq) (i64_to_string at) (sr_db r)"
  have "v \<le> u64_max"
  proof (rule ccontr)
    assume "\<not> v \<le> u64_max"
    obtain res db where l: "?lua = (res, db)" by fastforce
    have up: up using assms(1-3) by (rule_tac ccontr) (simp add: record_conversation_version_bump_def)
    then obtain f where "map_sum f (\<lambda>v. v) res = Ok v"
      using assms(1-3) l by (auto simp: record_conversation_version_bump_def Let_def)
    then have "?lua = (Ok v, db)" using l by (cases res) simp_all
    from bump_lua_ok [OF this conversation_keys_differ assms(4)] z have "v = 1" by auto
    with \<open>\<not> v \<le> u64_max\<close> show False by simp
  qed
  note b = diff_after_bump [OF assms(1-5) this assms(6-8)]
  show ?thesis using b(1) b(2) [of k] z known by simp
qed

section \<open>Example data\<close>

definition sync_ctx :: mq_ctx where
  "sync_ctx = \<lparr>mx_tenant_id = Some ''t1'', mx_user_id = None, mx_claims = None, mx_recovered = None, mx_metadata = Map.empty\<rparr>"

definition healthy_chunk :: "nat \<Rightarrow> chunk_env" where
  "healthy_chunk i = \<lparr>ke_first = \<lparr>pt_flushed = False, pt_now = 1000, pt_end = Done\<rparr>, ke_load = Done,
     ke_second = \<lparr>pt_flushed = False, pt_now = 1000, pt_end = Done\<rparr>\<rparr>"

definition empty_redis :: sync_redis where
  "empty_redis = \<lparr>sr_db = Map.empty, sr_script_loaded = False\<rparr>"

section \<open>Properties\<close>

text \<open>
  C32: a change reaches its recipients. However the recipients are cut into pipelines, whether or not the script cache is lost and
  wherever the connection breaks, a call writes the change for a prefix of its recipients in their order and for all of them
  when it succeeds: the version of each grows by exactly one, the change heads the log of the user, which stays within its
  bound, and the state of the conversation carries its number and time. Nothing else in the store changes.
\<close>
theorem change_reaches_recipients:
  assumes "record_conversation_change (new_index n ttl raw) up C ctx users cid seq at r = (res, r')" "trim cid \<noteq> []"
    and "index_tenant_id ctx = Ok t"
    and "\<forall>u \<in> set (normalized_user_ids users). CHR '':'' \<notin> set u \<and> user_log (new_index n ttl raw) t (trim cid) u (sr_db r)"
  shows "\<exists>us. prefix us (normalized_user_ids users) \<and> (res = Ok () \<longrightarrow> us = normalized_user_ids users) \<and>
    (\<forall>u \<in> set us. user_log (new_index n ttl raw) t (trim cid) u (sr_db r') \<and>
       change_recorded t u (trim cid) (to_decimal seq) (i64_to_string at) (Suc (user_version t u (sr_db r))) (sr_db r')) \<and>
    (\<forall>k. k \<notin> (\<Union>u \<in> set us. user_keys t (trim cid) u) \<longrightarrow> sr_db r' k = sr_db r k)"
  using recorded_for_prefix [OF assms] .

theorem change_reaches_recipients_witness:
  "change_recorded ''t1'' ''b'' ''c1'' ''7'' ''5'' 1
     (sr_db (snd (record_conversation_change (new_index 1000 60 (Some ''1'')) True healthy_chunk sync_ctx [''b'', '' a ''] ''c1'' 7 5 empty_redis)))"
proof -
  let ?run = "record_conversation_change (new_index 1000 60 (Some ''1'')) True healthy_chunk sync_ctx [''b'', '' a ''] ''c1'' 7 5 empty_redis"
  have "fst ?run = Ok ()" by code_simp
  then have ok: "?run = (Ok (), snd ?run)" by (metis prod.collapse)
  have n: "set (normalized_user_ids [''b'', '' a '']) = {''a'', ''b''}" by code_simp
  have t: "index_tenant_id sync_ctx = Ok ''t1''" by code_simp
  have c: "trim ''c1'' = ''c1''" by code_simp
  have e: "sr_db empty_redis = Map.empty" by (simp add: empty_redis_def)
  have i: "\<forall>u \<in> {''a'', ''b''}. CHR '':'' \<notin> set u \<and> user_log (new_index 1000 60 (Some ''1'')) ''t1'' (trim ''c1'') u (sr_db empty_redis)"
    unfolding e by (simp add: user_log_def user_changes_def)
  have z: "user_version ''t1'' ''b'' (sr_db empty_redis) = 0" unfolding e by (simp add: user_version_def)
  have s: "to_decimal 7 = ''7''" "i64_to_string 5 = ''5''" by code_simp+
  from change_reaches_recipients [of 1000 60 "Some ''1''" True healthy_chunk sync_ctx "[''b'', '' a '']" "''c1''" 7 5 empty_redis "Ok ()" "snd ?run" "''t1''"]
    t i c ok obtain us where "us = normalized_user_ids [''b'', '' a '']"
      "\<forall>u \<in> set us. change_recorded ''t1'' u ''c1'' ''7'' ''5'' (Suc (user_version ''t1'' u (sr_db empty_redis))) (sr_db (snd ?run))"
    unfolding n s c by (metis (no_types, lifting) list.distinct(1))
  then show ?thesis using n z by auto
qed

text \<open>
  C34: a client that lags behind is told. A version bump that succeeds raises the version of the conversation by one, and until
  its deadline the diff reports the change, with the number and time of the bump, exactly to clients that know an older version;
  the version is below \<open>2^53\<close>, where the numbers of the Lua script are exact.
\<close>
theorem bump_reported_to_lagging_clients:
  assumes "record_conversation_version_bump K up Done now ctx cid seq at r = (Ok v, r')" "trim cid \<noteq> []" "index_tenant_id ctx = Ok t"
    and "0 < xc_change_ttl_seconds K" "now' < now + int (xc_change_ttl_seconds K) * 1000"
    and "v < lua_exact_max" "seq \<le> u64_max" "i64_min \<le> at" "at \<le> i64_max"
  shows "v = Suc (conversation_version now t (trim cid) (sr_db r)) \<and>
    diff_changed_conversations True True now' ctx [(cid, k)] r' =
      Ok (if k < v then [\<lparr>cg_conversation_id = trim cid, cg_version = v, cg_max_conversation_seq = seq, cg_occurred_at_ms = at\<rparr>] else [])"
  using diff_after_bump [OF assms(1-5) _ assms(7-9)] assms(6) by simp

theorem bump_reported_to_lagging_clients_witness:
  "diff_changed_conversations True True 60000 sync_ctx [(''c1'', 0)]
     (snd (record_conversation_version_bump (new_index 1000 60 None) True Done 1000 sync_ctx ''c1'' 7 5 empty_redis)) =
   Ok [\<lparr>cg_conversation_id = ''c1'', cg_version = 1, cg_max_conversation_seq = 7, cg_occurred_at_ms = 5\<rparr>]"
proof -
  let ?run = "record_conversation_version_bump (new_index 1000 60 None) True Done 1000 sync_ctx ''c1'' 7 5 empty_redis"
  have ok: "fst ?run = Ok 1" by code_simp
  have t: "index_tenant_id sync_ctx = Ok ''t1''" by code_simp
  have c: "trim ''c1'' = ''c1''" by code_simp
  from bump_reported_to_lagging_clients [of "new_index 1000 60 None" True 1000 sync_ctx "''c1''" 7 5 empty_redis 1 "snd ?run" "''t1''" 60000 0] ok t
  show ?thesis unfolding c by (simp add: prod_eq_iff new_index_def)
qed

end
