(* ===== verification/Sync_Compensation.thy ===== *)
theory Sync_Compensation
  imports Sync_Index
begin

text \<open>
  The compensation of sync index writes that failed: the task queue of
  \<^verbatim>\<open>flare-orchestrator/src/infrastructure/persistence/redis_user_sync_compensation.rs\<close> with the contract of
  \<^verbatim>\<open>domain/repository/user_sync_compensation_repository.rs\<close> as a locale, and the worker of
  \<^verbatim>\<open>domain/service/user_sync_compensation_worker.rs\<close>. The JSON codec of the tasks and the text of an error are parameters.
\<close>

section \<open>The repository\<close>

record 'c compensation_repo =
  cr_enqueue :: "compensation_task \<Rightarrow> 'c \<Rightarrow> unit result \<times> 'c"
  cr_claim_due :: "nat \<Rightarrow> 'c \<Rightarrow> compensation_task list result \<times> 'c"
  cr_mark_completed :: "string \<Rightarrow> 'c \<Rightarrow> unit result \<times> 'c"
  cr_mark_failed :: "compensation_task \<Rightarrow> string \<Rightarrow> int \<Rightarrow> 'c \<Rightarrow> unit result \<times> 'c"

section \<open>Redis\<close>

record 'p task_codec =
  tc_encode :: "compensation_task \<Rightarrow> 'p option"
  tc_decode :: "'p \<Rightarrow> compensation_task option"

record 'p comp_store =
  cs_pending :: "(string \<times> int) list"
  cs_payloads :: "string \<rightharpoonup> 'p"

text \<open>The environment of a call: the connection, the clock and how each request of the call ends.\<close>

record comp_env =
  ce_connected :: bool
  ce_now :: int
  ce_ends :: "nat \<Rightarrow> stmt_end"

definition sat_add_i64 :: "int \<Rightarrow> int \<Rightarrow> int" where
  "sat_add_i64 a b = max i64_min (min i64_max (a + b))"

definition CLAIM_VISIBILITY_MS :: int where "CLAIM_VISIBILITY_MS = 30000"

definition task_key :: "string \<Rightarrow> string" where
  "task_key task_id = ''sync:user:compensation:task:'' @ task_id"

definition comp_error :: "string \<Rightarrow> flare_error" where
  "comp_error what = FlareError SystemError what"

definition encode_task :: "'p task_codec \<Rightarrow> compensation_task \<Rightarrow> 'p result" where
  "encode_task J task =
     (case tc_encode J task of None \<Rightarrow> Err (comp_error ''serialize user_sync compensation task'') | Some p \<Rightarrow> Ok p)"

definition decode_task :: "'p task_codec \<Rightarrow> 'p \<Rightarrow> compensation_task result" where
  "decode_task J payload =
     (case tc_decode J payload of None \<Rightarrow> Err (comp_error ''deserialize user_sync compensation task'') | Some t \<Rightarrow> Ok t)"

text \<open>A transaction is answered, is not executed, or is executed and its answer is lost.\<close>

definition run_transaction :: "stmt_end \<Rightarrow> flare_error \<Rightarrow> ('s \<Rightarrow> 's) \<Rightarrow> 's \<Rightarrow> unit result \<times> 's" where
  "run_transaction fin e f q = (case fin of Failed \<Rightarrow> (Err e, q) | Unanswered \<Rightarrow> (Err e, f q) | Done \<Rightarrow> (Ok (), f q))"

definition comp_connect :: flare_error where
  "comp_connect = comp_error ''Redis user sync compensation connect''"

definition redis_enqueue :: "'p task_codec \<Rightarrow> comp_env \<Rightarrow> compensation_task \<Rightarrow> 'p comp_store \<Rightarrow> unit result \<times> 'p comp_store" where
  "redis_enqueue J env task q =
     (case encode_task J task of
        Inl e \<Rightarrow> (Err e, q)
      | Inr payload \<Rightarrow>
          if \<not> ce_connected env then (Err comp_connect, q)
          else
            run_transaction (ce_ends env 0) (comp_error ''enqueue user_sync compensation task'')
              (\<lambda>q. q\<lparr>cs_payloads := (cs_payloads q)(task_key (ct_task_id task) \<mapsto> payload),
                   cs_pending := zadd (ct_task_id task) (ct_due_at_ms task) (cs_pending q)\<rparr>) q)"

fun collect_tasks :: "'p task_codec \<Rightarrow> 'p option list \<Rightarrow> compensation_task list result" where
  "collect_tasks J [] = Ok []"
| "collect_tasks J (None # rest) = collect_tasks J rest"
| "collect_tasks J (Some payload # rest) =
     (case decode_task J payload of
        Inl e \<Rightarrow> Err e
      | Inr task \<Rightarrow> map_sum (\<lambda>e. e) (\<lambda>tasks. task # tasks) (collect_tasks J rest))"

definition redis_claim_due :: "'p task_codec \<Rightarrow> comp_env \<Rightarrow> nat \<Rightarrow> 'p comp_store \<Rightarrow> compensation_task list result \<times> 'p comp_store" where
  "redis_claim_due J env limit q =
     (if limit = 0 then (Ok [], q)
      else if \<not> ce_connected env then (Err comp_connect, q)
      else if ce_ends env 0 \<noteq> Done then (Err (comp_error ''claim user_sync compensation tasks''), q)
      else
        let now = ce_now env;
            task_ids = zrange_by_score now limit (cs_pending q)
        in if task_ids = [] then (Ok [], q)
           else
             let claim_until = sat_add_i64 now CLAIM_VISIBILITY_MS
             in (case run_transaction (ce_ends env 1) (comp_error ''mark user_sync compensation tasks claimed'')
                        (\<lambda>q. q\<lparr>cs_pending := fold (\<lambda>task_id. zadd task_id claim_until) task_ids (cs_pending q)\<rparr>) q of
                   (Inl e, q) \<Rightarrow> (Err e, q)
                 | (Inr _, q) \<Rightarrow>
                     if ce_ends env 2 \<noteq> Done then (Err (comp_error ''load user_sync compensation task payloads''), q)
                     else (collect_tasks J (map (\<lambda>task_id. cs_payloads q (task_key task_id)) task_ids), q)))"

definition redis_mark_completed :: "comp_env \<Rightarrow> string \<Rightarrow> 'p comp_store \<Rightarrow> unit result \<times> 'p comp_store" where
  "redis_mark_completed env task_id q =
     (if \<not> ce_connected env then (Err comp_connect, q)
      else
        run_transaction (ce_ends env 0) (comp_error ''complete user_sync compensation task'')
          (\<lambda>q. q\<lparr>cs_pending := zrem task_id (cs_pending q), cs_payloads := (cs_payloads q)(task_key task_id := None)\<rparr>) q)"

definition failed_task :: "int \<Rightarrow> compensation_task \<Rightarrow> string \<Rightarrow> int \<Rightarrow> compensation_task" where
  "failed_task now task error retry_after_ms =
     task\<lparr>ct_attempts := sat_add_u32 (ct_attempts task) 1, ct_last_error := Some (take 512 error),
          ct_due_at_ms := sat_add_i64 now (max retry_after_ms 0)\<rparr>"

definition redis_mark_failed :: "'p task_codec \<Rightarrow> comp_env \<Rightarrow> compensation_task \<Rightarrow> string \<Rightarrow> int \<Rightarrow> 'p comp_store \<Rightarrow>
     unit result \<times> 'p comp_store" where
  "redis_mark_failed J env task error retry_after_ms q =
     redis_enqueue J env (failed_task (ce_now env) task error retry_after_ms) q"

definition redis_compensation :: "'p task_codec \<Rightarrow> comp_env \<Rightarrow> 'p comp_store compensation_repo" where
  "redis_compensation J env =
     \<lparr>cr_enqueue = redis_enqueue J env, cr_claim_due = redis_claim_due J env, cr_mark_completed = redis_mark_completed env,
      cr_mark_failed = redis_mark_failed J env\<rparr>"

section \<open>The worker\<close>

record ('c, 'x) comp_worker =
  cw_repository :: "nat \<Rightarrow> 'c compensation_repo"
  cw_index :: "nat \<Rightarrow> 'x user_sync_index"
  cw_batch_size :: nat
  cw_retry_delay :: int
  cw_error_text :: "flare_error \<Rightarrow> string"

definition new_worker :: "(nat \<Rightarrow> 'c compensation_repo) \<Rightarrow> (nat \<Rightarrow> 'x user_sync_index) \<Rightarrow> (flare_error \<Rightarrow> string) \<Rightarrow> ('c, 'x) comp_worker" where
  "new_worker repository user_sync_index error_text =
     \<lparr>cw_repository = repository, cw_index = user_sync_index, cw_batch_size = 64, cw_retry_delay = 5000, cw_error_text = error_text\<rparr>"

definition tenant_root_ctx :: "string \<Rightarrow> mq_ctx" where
  "tenant_root_ctx tenant_id =
     \<lparr>mx_tenant_id = Some tenant_id, mx_user_id = None, mx_claims = None, mx_recovered = None, mx_metadata = Map.empty\<rparr>"

definition write_task :: "'x user_sync_index \<Rightarrow> compensation_task \<Rightarrow> 'x \<Rightarrow> unit result \<times> 'x" where
  "write_task ix task x =
     (let ctx = tenant_root_ctx (ct_tenant_id task) in
      case ct_kind task of
        EagerUserChanges \<Rightarrow>
          ux_change ix ctx (ct_user_ids task) (ct_conversation_id task) (ct_max_conversation_seq task) (ct_occurred_at_ms task) x
      | ConversationVersionBump \<Rightarrow>
          (case ux_bump ix ctx (ct_conversation_id task) (ct_max_conversation_seq task) (ct_occurred_at_ms task) x of
             (r, x) \<Rightarrow> (map_sum (\<lambda>e. e) (\<lambda>v. ()) r, x)))"

text \<open>\<^verbatim>\<open>replay_task\<close>; the result of the index write, which the source only logs, is returned for the statements below.\<close>

definition replay_task :: "('c, 'x) comp_worker \<Rightarrow> nat \<Rightarrow> compensation_task \<Rightarrow> 'c \<times> 'x \<Rightarrow> unit result \<times> 'c \<times> 'x" where
  "replay_task W i task s =
     (case s of (q, x) \<Rightarrow>
        (case write_task (cw_index W i) task x of
           (Inr _, x) \<Rightarrow> (case cr_mark_completed (cw_repository W i) (ct_task_id task) q of (_, q) \<Rightarrow> (Ok (), q, x))
         | (Inl e, x) \<Rightarrow>
             (case cr_mark_failed (cw_repository W i) task (cw_error_text W e) (cw_retry_delay W) q of (_, q) \<Rightarrow> (Err e, q, x))))"

fun replay_tasks :: "('c, 'x) comp_worker \<Rightarrow> nat \<Rightarrow> compensation_task list \<Rightarrow> 'c \<times> 'x \<Rightarrow>
     (compensation_task \<times> unit result) list \<times> 'c \<times> 'x" where
  "replay_tasks W i [] s = ([], s)"
| "replay_tasks W i (task # tasks) s =
     (case replay_task W i task s of
        (r, s) \<Rightarrow> (case replay_tasks W (Suc i) tasks s of (rs, s) \<Rightarrow> ((task, r) # rs, s)))"

definition compensation_replay :: "('c, 'x) comp_worker \<Rightarrow> 'c \<times> 'x \<Rightarrow> nat result \<times> (compensation_task \<times> unit result) list \<times> 'c \<times> 'x" where
  "compensation_replay W s =
     (case s of (q, x) \<Rightarrow>
        (case cr_claim_due (cw_repository W 0) (cw_batch_size W) q of
           (Inl e, q) \<Rightarrow> (Err e, [], q, x)
         | (Inr tasks, q) \<Rightarrow> (case replay_tasks W 1 tasks (q, x) of (rs, s) \<Rightarrow> (Ok (length tasks), rs, s))))"

section \<open>The contract\<close>

text \<open>
  \<open>held q\<close> is what the queue holds, by task id. Two tasks are the same work when they differ in their schedule only. A claim
  leaves everything in the queue; what a call without an answer did is not known.
\<close>

definition same_work :: "compensation_task \<Rightarrow> compensation_task \<Rightarrow> bool" where
  "same_work t t' \<longleftrightarrow>
     ct_task_id t' = ct_task_id t \<and> ct_tenant_id t' = ct_tenant_id t \<and> ct_kind t' = ct_kind t \<and> ct_user_ids t' = ct_user_ids t \<and>
     ct_conversation_id t' = ct_conversation_id t \<and> ct_max_conversation_seq t' = ct_max_conversation_seq t \<and>
     ct_occurred_at_ms t' = ct_occurred_at_ms t"

lemma same_work_refl [simp]: "same_work t t"
  by (simp add: same_work_def)

lemma same_work_trans: "same_work a b \<Longrightarrow> same_work b c \<Longrightarrow> same_work a c"
  by (simp add: same_work_def)

lemma same_work_failed [simp]: "same_work t (failed_task now t e d)"
  by (simp add: same_work_def failed_task_def)

locale compensation_queue =
  fixes R :: "nat \<Rightarrow> 'c compensation_repo"
    and invar :: "'c \<Rightarrow> bool"
    and held :: "'c \<Rightarrow> string \<Rightarrow> compensation_task option"
  assumes claim: "invar q \<Longrightarrow> cr_claim_due (R i) n q = (res, q') \<Longrightarrow> invar q' \<and> held q' = held q"
    and claimed: "invar q \<Longrightarrow> cr_claim_due (R i) n q = (Ok ts, q') \<Longrightarrow> t \<in> set ts \<Longrightarrow> held q (ct_task_id t) = Some t"
    and completed: "invar q \<Longrightarrow> cr_mark_completed (R i) k q = (r, q') \<Longrightarrow>
      invar q' \<and> (held q' = (held q)(k := None) \<or> (\<exists>e. r = Err e) \<and> held q' = held q)"
    and failed: "invar q \<Longrightarrow> cr_mark_failed (R i) t e d q = (r, q') \<Longrightarrow>
      invar q' \<and> ((\<exists>t'. same_work t t' \<and> held q' = (held q)(ct_task_id t \<mapsto> t')) \<or> (\<exists>e. r = Err e) \<and> held q' = held q)"
begin

text \<open>What was held is still held, or its index write was answered.\<close>

definition covered :: "(string \<Rightarrow> compensation_task option) \<Rightarrow> 'c \<Rightarrow> (compensation_task \<times> unit result) list \<Rightarrow> bool" where
  "covered h q rs \<longleftrightarrow> (\<forall>k t. h k = Some t \<longrightarrow> (\<exists>t'. held q k = Some t' \<and> same_work t t') \<or> (t, Ok ()) \<in> set rs)"

lemma replay_task_covers:
  assumes "replay_task W i task (q, x) = (r, q', x')" "cw_repository W = R" "invar q" "h (ct_task_id task) = Some task" "covered h q rs"
  shows "invar q' \<and> covered h q' ((task, r) # rs)"
proof -
  obtain w x1 where w: "write_task (cw_index W i) task x = (w, x1)" by fastforce
  show ?thesis
  proof (cases w)
    case (Inl e)
    then obtain m where m: "cr_mark_failed (R i) task (cw_error_text W e) (cw_retry_delay W) q = (m, q')" "r = Err e"
      using assms(1,2) w by (auto simp: replay_task_def split: prod.splits)
    note f = failed [OF assms(3) m(1)]
    have "\<exists>t'. held q' k = Some t' \<and> same_work t t'" if "held q k = Some u" "same_work t u" "h k = Some t" for k t u
      using f that assms(4) same_work_trans by (cases "k = ct_task_id task") auto
    moreover have "\<exists>t'. held q' k = Some t' \<and> same_work t t' \<or> (t, Ok ()) \<in> set rs" if "h k = Some t" for k t
      using assms(5) that calculation unfolding covered_def by blast
    ultimately show ?thesis using f assms(5) unfolding covered_def by (metis list.set_intros(2))
  next
    case (Inr u)
    then obtain m where m: "cr_mark_completed (R i) (ct_task_id task) q = (m, q')" "r = Ok ()"
      using assms(1,2) w by (auto simp: replay_task_def split: prod.splits)
    note f = completed [OF assms(3) m(1)]
    have "(\<exists>t'. held q' k = Some t' \<and> same_work t t') \<or> (t, Ok ()) \<in> set ((task, r) # rs)" if k: "h k = Some t" for k t
    proof (cases "k = ct_task_id task")
      case True
      with k assms(4) m(2) show ?thesis by simp
    next
      case False
      with f have "held q' k = held q k" by auto
      with assms(5) k show ?thesis by (auto simp: covered_def)
    qed
    with f show ?thesis by (simp add: covered_def)
  qed
qed

lemma replay_tasks_cover:
  assumes "replay_tasks W i ts (q, x) = (rs', q', x')" "cw_repository W = R" "invar q" "\<forall>t \<in> set ts. h (ct_task_id t) = Some t" "covered h q rs"
  shows "invar q' \<and> covered h q' (rs' @ rs)"
  using assms
proof (induction ts arbitrary: i q x rs rs')
  case (Cons t ts)
  obtain r q1 x1 where 1: "replay_task W i t (q, x) = (r, q1, x1)" by (metis prod.exhaust)
  obtain rs1 where 2: "replay_tasks W (Suc i) ts (q1, x1) = (rs1, q', x')" "rs' = (t, r) # rs1"
    using Cons.prems(1) 1 by (auto split: prod.splits)
  have "invar q1 \<and> covered h q1 ((t, r) # rs)" by (rule replay_task_covers [OF 1]) (use Cons.prems in auto)
  with Cons.IH [OF 2(1)] Cons.prems have "invar q' \<and> covered h q' (rs1 @ (t, r) # rs)" by auto
  then show ?case using 2(2) by (auto simp: covered_def)
qed simp

lemma compensation_replay_covers:
  assumes "compensation_replay W (q, x) = (res, rs, q', x')" "cw_repository W = R" "invar q"
  shows "invar q' \<and> covered (held q) q' rs"
proof -
  obtain c q1 where 1: "cr_claim_due (R 0) (cw_batch_size W) q = (c, q1)" by fastforce
  note k = claim [OF assms(3) 1]
  show ?thesis
  proof (cases c)
    case (Inl e)
    with assms(1,2) 1 have "rs = []" "q' = q1" by (auto simp: compensation_replay_def)
    with k show ?thesis by (simp add: covered_def)
  next
    case (Inr ts)
    then have r: "replay_tasks W 1 ts (q1, x) = (rs, q', x')" using assms(1,2) 1 by (auto simp: compensation_replay_def split: prod.splits)
    have "\<forall>t \<in> set ts. held q (ct_task_id t) = Some t" using claimed [OF assms(3)] 1 Inr by blast
    moreover have "covered (held q) q1 []" using k by (simp add: covered_def)
    ultimately show ?thesis using replay_tasks_cover [OF r assms(2), of "held q" "[]"] k by simp
  qed
qed

text \<open>
  What a pass leaves of a task, after its index write ended with \<open>r\<close>: nothing when the write succeeded, the same
  work when it failed.
\<close>

definition left_after :: "'c \<Rightarrow> compensation_task \<times> unit result \<Rightarrow> bool" where
  "left_after q tr = (case tr of (t, r) \<Rightarrow> (case r of Inr _ \<Rightarrow> held q (ct_task_id t) = None
     | Inl _ \<Rightarrow> \<exists>t'. held q (ct_task_id t) = Some t' \<and> same_work t t'))"

lemma replay_task_leaves:
  assumes "replay_task W i t (q, x) = (r, q', x')" "cw_repository W = R" "invar q" "held q (ct_task_id t) = Some t"
    and up: "\<And>i k q. fst (cr_mark_completed (R i) k q) = Ok ()"
  shows "invar q' \<and> left_after q' (t, r) \<and> (\<forall>k. k \<noteq> ct_task_id t \<longrightarrow> held q' k = held q k)"
proof -
  obtain w x1 where w: "write_task (cw_index W i) t x = (w, x1)" by fastforce
  show ?thesis
  proof (cases w)
    case (Inl e)
    then obtain m where m: "cr_mark_failed (R i) t (cw_error_text W e) (cw_retry_delay W) q = (m, q')" "r = Err e"
      using assms(1,2) w by (auto simp: replay_task_def split: prod.splits)
    have "same_work t t" by (simp add: same_work_def)
    with failed [OF assms(3) m(1)] m(2) assms(4) show ?thesis by (auto simp: left_after_def)
  next
    case (Inr u)
    then obtain m where m: "cr_mark_completed (R i) (ct_task_id t) q = (m, q')" "r = Ok ()"
      using assms(1,2) w by (auto simp: replay_task_def split: prod.splits)
    then have "m = Ok ()" using up [of i "ct_task_id t" q] by simp
    with completed [OF assms(3) m(1)] m(2) show ?thesis by (auto simp: left_after_def)
  qed
qed

lemma replay_tasks_leave:
  assumes "replay_tasks W i ts (q, x) = (rs, q', x')" "cw_repository W = R" "invar q"
    and "distinct (map ct_task_id ts)" "\<forall>t \<in> set ts. held q (ct_task_id t) = Some t"
    and up: "\<And>i k q. fst (cr_mark_completed (R i) k q) = Ok ()"
  shows "map fst rs = ts \<and> (\<forall>tr \<in> set rs. left_after q' tr) \<and> (\<forall>k. k \<notin> ct_task_id ` set ts \<longrightarrow> held q' k = held q k)"
  using assms(1,3-5)
proof (induction ts arbitrary: i q x rs)
  case (Cons t ts)
  obtain r q1 x1 where 1: "replay_task W i t (q, x) = (r, q1, x1)" by (metis prod.exhaust)
  obtain rs1 where 2: "replay_tasks W (Suc i) ts (q1, x1) = (rs1, q', x')" "rs = (t, r) # rs1"
    using Cons.prems(1) 1 by (auto split: prod.splits)
  have ids: "ct_task_id t \<notin> ct_task_id ` set ts" "distinct (map ct_task_id ts)" using Cons.prems(3) by auto
  have s1: "invar q1" "left_after q1 (t, r)" "\<forall>k. k \<noteq> ct_task_id t \<longrightarrow> held q1 k = held q k"
    using replay_task_leaves [OF 1 assms(2) Cons.prems(2) _ up] Cons.prems(4) by auto
  have h1: "\<forall>u \<in> set ts. held q1 (ct_task_id u) = Some u"
  proof
    fix u assume u: "u \<in> set ts"
    with ids(1) have "ct_task_id u \<noteq> ct_task_id t" by (metis imageI)
    with s1(3) Cons.prems(4) u show "held q1 (ct_task_id u) = Some u" by simp
  qed
  note IH = Cons.IH [OF 2(1) s1(1) ids(2) h1]
  have "held q' (ct_task_id t) = held q1 (ct_task_id t)" using IH ids(1) by blast
  with s1(2) have "left_after q' (t, r)" by (simp add: left_after_def)
  moreover have "held q' k = held q k" if "k \<notin> ct_task_id ` set (t # ts)" for k
    using that IH s1(3) by simp
  ultimately show ?case using IH 2(2) by (intro conjI) (simp, metis set_ConsD, blast)
qed simp

end

section \<open>Redis keeps the contract\<close>

definition comp_held :: "'p task_codec \<Rightarrow> 'p comp_store \<Rightarrow> string \<Rightarrow> compensation_task option" where
  "comp_held J q k = (if k \<in> fst ` set (cs_pending q) then Option.bind (cs_payloads q (task_key k)) (tc_decode J) else None)"

definition comp_inv :: "'p task_codec \<Rightarrow> 'p comp_store \<Rightarrow> bool" where
  "comp_inv J q \<longleftrightarrow> (\<forall>k p t. cs_payloads q (task_key k) = Some p \<longrightarrow> tc_decode J p = Some t \<longrightarrow> ct_task_id t = k)"

definition task_codec_ok :: "'p task_codec \<Rightarrow> bool" where
  "task_codec_ok J \<longleftrightarrow> (\<forall>t p. tc_encode J t = Some p \<longrightarrow> tc_decode J p = Some t)"

lemma enqueue_held:
  assumes "task_codec_ok J" "comp_inv J q" "redis_enqueue J env t q = (res, q')"
  shows "comp_inv J q' \<and> (comp_held J q' = (comp_held J q)(ct_task_id t \<mapsto> t) \<or> (\<exists>e. res = Err e) \<and> comp_held J q' = comp_held J q)"
proof (cases "q' = q \<and> (\<exists>e. res = Err e)")
  case True
  with assms(2) show ?thesis by simp
next
  case False
  then obtain p where p: "tc_encode J t = Some p" and q': "q' = q\<lparr>cs_payloads := (cs_payloads q)(task_key (ct_task_id t) \<mapsto> p),
      cs_pending := zadd (ct_task_id t) (ct_due_at_ms t) (cs_pending q)\<rparr>"
    using assms(3)
    by (auto simp: redis_enqueue_def encode_task_def run_transaction_def split: option.splits if_splits stmt_end.splits)
  have d: "tc_decode J p = Some t" using assms(1) p by (simp add: task_codec_ok_def)
  have "comp_inv J q'" using assms(2) d by (auto simp: comp_inv_def q' task_key_def)
  moreover have "comp_held J q' = (comp_held J q)(ct_task_id t \<mapsto> t)"
    using d by (auto simp: fun_eq_iff comp_held_def q' task_key_def zadd_keys)
  ultimately show ?thesis by simp
qed

lemma fold_zadd_keys: "set ks \<subseteq> fst ` set z \<Longrightarrow> fst ` set (fold (\<lambda>k. zadd k until) ks z) = fst ` set z"
  by (induction ks arbitrary: z) (auto simp: zadd_keys insert_absorb)

lemma zrange_distinct: "distinct (map fst z) \<Longrightarrow> distinct (zrange_by_score now n z)"
proof -
  assume d: "distinct (map fst z)"
  let ?z = "sort_key (\<lambda>(m, s). (s, m)) (filter (\<lambda>(m, s). s \<le> now) z)"
  from d have "inj_on fst (set ?z)" "distinct ?z" by (auto simp: distinct_map intro: inj_on_subset)
  then have "distinct (map fst ?z)" by (simp add: distinct_map)
  then show ?thesis by (simp add: zrange_by_score_def)
qed

lemma zrange_keys: "set (zrange_by_score now n z) \<subseteq> fst ` set z"
  by (auto simp: zrange_by_score_def dest!: in_set_takeD)

lemma collect_tasks_decoded:
  "collect_tasks J ps = Ok ts \<Longrightarrow> t \<in> set ts \<Longrightarrow> \<exists>p. Some p \<in> set ps \<and> tc_decode J p = Some t"
proof (induction J ps arbitrary: ts rule: collect_tasks.induct)
  case (3 J payload rest)
  then show ?case
    by (cases "collect_tasks J rest") (fastforce simp: decode_task_def split: option.splits)+
qed auto

lemma claim_due_store:
  assumes "redis_claim_due J env n q = (res, q')"
  shows "cs_payloads q' = cs_payloads q" "fst ` set (cs_pending q') = fst ` set (cs_pending q)"
    "res = Ok ts \<Longrightarrow> t \<in> set ts \<Longrightarrow> \<exists>k p. k \<in> fst ` set (cs_pending q) \<and> cs_payloads q (task_key k) = Some p \<and> tc_decode J p = Some t"
proof -
  let ?ids = "zrange_by_score (ce_now env) n (cs_pending q)"
  let ?until = "sat_add_i64 (ce_now env) CLAIM_VISIBILITY_MS"
  have "q' = q \<or> q' = q\<lparr>cs_pending := fold (\<lambda>k. zadd k ?until) ?ids (cs_pending q)\<rparr>"
    using assms by (auto simp: redis_claim_due_def run_transaction_def Let_def split: if_splits stmt_end.splits)
  then show "cs_payloads q' = cs_payloads q" "fst ` set (cs_pending q') = fst ` set (cs_pending q)"
    using fold_zadd_keys [OF zrange_keys, where until = ?until] by (elim disjE; simp)+
  assume r: "res = Ok ts" "t \<in> set ts"
  then have "collect_tasks J (map (\<lambda>k. cs_payloads q (task_key k)) ?ids) = Ok ts"
    using assms by (auto simp: redis_claim_due_def run_transaction_def Let_def split: if_splits stmt_end.splits)
  from collect_tasks_decoded [OF this r(2)] obtain p where "Some p \<in> set (map (\<lambda>k. cs_payloads q (task_key k)) ?ids)" "tc_decode J p = Some t" by blast
  then obtain k where "k \<in> set ?ids" "cs_payloads q (task_key k) = Some p" "tc_decode J p = Some t" by auto
  with zrange_keys [of "ce_now env" n "cs_pending q"]
  show "\<exists>k p. k \<in> fst ` set (cs_pending q) \<and> cs_payloads q (task_key k) = Some p \<and> tc_decode J p = Some t" by blast
qed

lemma claim_due_held:
  assumes "comp_inv J q" "redis_claim_due J env n q = (res, q')"
  shows "comp_inv J q' \<and> comp_held J q' = comp_held J q" "res = Ok ts \<Longrightarrow> t \<in> set ts \<Longrightarrow> comp_held J q (ct_task_id t) = Some t"
proof -
  show "comp_inv J q' \<and> comp_held J q' = comp_held J q"
    using assms(1) claim_due_store(1,2) [OF assms(2)] by (simp add: comp_inv_def comp_held_def fun_eq_iff)
  assume "res = Ok ts" "t \<in> set ts"
  from claim_due_store(3) [OF assms(2) this] obtain k p
    where "k \<in> fst ` set (cs_pending q)" "cs_payloads q (task_key k) = Some p" "tc_decode J p = Some t" by blast
  with assms(1) show "comp_held J q (ct_task_id t) = Some t" by (auto simp: comp_inv_def comp_held_def)
qed

lemma mark_completed_held:
  assumes "comp_inv J q" "redis_mark_completed env k q = (res, q')"
  shows "comp_inv J q' \<and> (comp_held J q' = (comp_held J q)(k := None) \<or> (\<exists>e. res = Err e) \<and> comp_held J q' = comp_held J q)"
proof (cases "q' = q \<and> (\<exists>e. res = Err e)")
  case True
  with assms(1) show ?thesis by simp
next
  case False
  then have q': "q' = q\<lparr>cs_pending := zrem k (cs_pending q), cs_payloads := (cs_payloads q)(task_key k := None)\<rparr>"
    using assms(2) by (auto simp: redis_mark_completed_def run_transaction_def split: if_splits stmt_end.splits)
  have "comp_inv J q'" using assms(1) by (simp add: comp_inv_def q' task_key_def)
  moreover have "comp_held J q' = (comp_held J q)(k := None)"
    by (auto simp: fun_eq_iff comp_held_def q' task_key_def zrem_def image_iff)
  ultimately show ?thesis by simp
qed

lemma mark_failed_held:
  assumes "task_codec_ok J" "comp_inv J q" "redis_mark_failed J env t e d q = (res, q')"
  shows "comp_inv J q' \<and> ((\<exists>t'. same_work t t' \<and> comp_held J q' = (comp_held J q)(ct_task_id t \<mapsto> t')) \<or>
    (\<exists>e. res = Err e) \<and> comp_held J q' = comp_held J q)"
proof -
  have "ct_task_id (failed_task (ce_now env) t e d) = ct_task_id t" by (simp add: failed_task_def)
  with enqueue_held [OF assms(1,2), of env "failed_task (ce_now env) t e d" res q'] assms(3) same_work_failed [of t "ce_now env" e d]
  show ?thesis unfolding redis_mark_failed_def by metis
qed

lemma redis_compensation_queue:
  assumes "task_codec_ok J"
  shows "compensation_queue (\<lambda>i. redis_compensation J (E i)) (comp_inv J) (comp_held J)"
proof
  fix q :: "'a comp_store" and i n res q' assume "comp_inv J q" "cr_claim_due (redis_compensation J (E i)) n q = (res, q')"
  then show "comp_inv J q' \<and> comp_held J q' = comp_held J q" using claim_due_held(1) by (simp add: redis_compensation_def)
next
  fix q :: "'a comp_store" and i n ts q' t assume "comp_inv J q" "cr_claim_due (redis_compensation J (E i)) n q = (Ok ts, q')" "t \<in> set ts"
  then show "comp_held J q (ct_task_id t) = Some t" using claim_due_held(2) [OF _ _ refl] by (fastforce simp: redis_compensation_def)
next
  fix q :: "'a comp_store" and i k r q' assume "comp_inv J q" "cr_mark_completed (redis_compensation J (E i)) k q = (r, q')"
  then show "comp_inv J q' \<and> (comp_held J q' = (comp_held J q)(k := None) \<or> (\<exists>e. r = Err e) \<and> comp_held J q' = comp_held J q)"
    using mark_completed_held by (simp add: redis_compensation_def)
next
  fix q :: "'a comp_store" and i t e d r q' assume "comp_inv J q" "cr_mark_failed (redis_compensation J (E i)) t e d q = (r, q')"
  then show "comp_inv J q' \<and> ((\<exists>t'. same_work t t' \<and> comp_held J q' = (comp_held J q)(ct_task_id t \<mapsto> t')) \<or>
      (\<exists>e. r = Err e) \<and> comp_held J q' = comp_held J q)"
    using mark_failed_held [OF assms] by (simp add: redis_compensation_def)
qed

definition plain_task_codec :: "compensation_task task_codec" where
  "plain_task_codec = \<lparr>tc_encode = Some, tc_decode = Some\<rparr>"

interpretation redis_tasks: compensation_queue "\<lambda>i. redis_compensation plain_task_codec (E i)" "comp_inv plain_task_codec" "comp_held plain_task_codec"
  for E
  by (rule redis_compensation_queue) (simp add: task_codec_ok_def plain_task_codec_def)

section \<open>A healthy pass\<close>

definition healthy_env :: "comp_env \<Rightarrow> bool" where
  "healthy_env env \<longleftrightarrow> ce_connected env \<and> ce_ends env 0 = Done \<and> ce_ends env 1 = Done \<and> ce_ends env 2 = Done"

lemma collect_tasks_all:
  "\<forall>k \<in> set ks. \<exists>p t. f k = Some p \<and> tc_decode J p = Some t \<and> ct_task_id t = k \<Longrightarrow>
   \<exists>ts. collect_tasks J (map f ks) = Ok ts \<and> map ct_task_id ts = ks"
  by (induction ks) (fastforce simp: decode_task_def)+

lemma healthy_claim:
  assumes "healthy_env env" "0 < n" "distinct (map fst (cs_pending q))" "length (cs_pending q) \<le> n" "comp_inv J q"
    and "\<forall>k \<in> fst ` set (cs_pending q). comp_held J q k \<noteq> None"
  obtains ts q1 where "redis_claim_due J env n q = (Ok ts, q1)"
    "ct_task_id ` set ts = {k. \<exists>s. (k, s) \<in> set (cs_pending q) \<and> s \<le> ce_now env}" "distinct (map ct_task_id ts)"
proof -
  let ?ids = "zrange_by_score (ce_now env) n (cs_pending q)"
  have ids: "set ?ids = {k. \<exists>s. (k, s) \<in> set (cs_pending q) \<and> s \<le> ce_now env}" using assms(4) by (rule zrange_complete)
  show thesis
  proof (cases "?ids = []")
    case True
    then show thesis using ids assms(1,2) by (intro that [of "[]" q]) (auto simp: redis_claim_due_def healthy_env_def)
  next
    case False
    have "\<forall>k \<in> set ?ids. \<exists>p t. cs_payloads q (task_key k) = Some p \<and> tc_decode J p = Some t \<and> ct_task_id t = k"
    proof
      fix k assume "k \<in> set ?ids"
      with zrange_keys have k: "k \<in> fst ` set (cs_pending q)" by blast
      with assms(6) obtain t where "comp_held J q k = Some t" by blast
      with k assms(5) show "\<exists>p t. cs_payloads q (task_key k) = Some p \<and> tc_decode J p = Some t \<and> ct_task_id t = k"
        by (auto simp: comp_held_def comp_inv_def bind_eq_Some_conv)
    qed
    from collect_tasks_all [OF this] obtain ts where ts: "collect_tasks J (map (\<lambda>k. cs_payloads q (task_key k)) ?ids) = Ok ts"
      "map ct_task_id ts = ?ids" by blast
    have t: "ct_task_id ` set ts = {k. \<exists>s. (k, s) \<in> set (cs_pending q) \<and> s \<le> ce_now env}"
      using ts(2) [THEN arg_cong, of set] ids by simp
    obtain q1 where "redis_claim_due J env n q = (Ok ts, q1)"
      using False assms(1,2) ts(1) by (simp add: redis_claim_due_def healthy_env_def run_transaction_def Let_def)
    moreover have "distinct (map ct_task_id ts)" unfolding ts(2) by (rule zrange_distinct [OF assms(3)])
    ultimately show thesis using that t by blast
  qed
qed

text \<open>
  A payload that cannot be decoded fails the claim of every task in its batch; the claim has given all of them the same new time, so
  the next pass meets the same batch.
\<close>

lemma undecodable_task_fails_batch:
  assumes "k \<in> set (zrange_by_score (ce_now env) n (cs_pending q))" "cs_payloads q (task_key k) = Some p" "tc_decode J p = None"
  shows "\<exists>e. fst (redis_claim_due J env n q) = Err e"
proof -
  have "\<exists>e. collect_tasks J ps = Err e" if "Some p \<in> set ps" for ps
    using that
  proof (induction ps)
    case (Cons a ps)
    with assms(3) show ?case by (cases a) (auto simp: decode_task_def split: option.splits)
  qed simp
  then have "\<exists>e. collect_tasks J (map (\<lambda>k. cs_payloads q (task_key k)) (zrange_by_score (ce_now env) n (cs_pending q))) = Err e"
    using assms(1,2) by force
  moreover have "n \<noteq> 0" "zrange_by_score (ce_now env) n (cs_pending q) \<noteq> []" using assms(1) by (cases n; auto simp: zrange_by_score_def)+
  ultimately show ?thesis by (auto simp: redis_claim_due_def run_transaction_def Let_def split: stmt_end.splits)
qed

text \<open>A write that is replayed late puts its older number over the newer one.\<close>

lemma late_write_lowers_seq:
  "let K = new_index 1000 60 None;
       r9 = snd (record_conversation_version_bump K True Done 1000 sync_ctx ''c1'' 9 5 empty_redis);
       r7 = snd (write_task (redis_user_sync_index K True healthy_chunk Done 2000)
              (task_new ''t1'' ConversationVersionBump [] ''c1'' 7 4 4) r9)
   in map_sum (\<lambda>e. e) (map cg_max_conversation_seq) (diff_changed_conversations True True 3000 sync_ctx [(''c1'', 0)] r7) = Ok [7]"
  by code_simp

section \<open>The fan-out\<close>

definition change_task :: "string \<Rightarrow> string list \<Rightarrow> message \<Rightarrow> int \<Rightarrow> compensation_task" where
  "change_task t rs m due = task_new t EagerUserChanges (normalized_user_ids rs) (trim (m_conversation_id m)) (m_conversation_seq m)
     (m_created_at m) due"

lemma recorded_or_queued:
  assumes "record_message_change S due ctx m rs False w = w'"
    and "fs_index S = Some (redis_user_sync_index (new_index n ttl raw) up C fin now)" "fs_compensation S = Some (redis_enqueue J env)"
    and "task_codec_ok J" "comp_inv J (fw_queue w)"
    and "index_tenant_id ctx = Ok t" "trim (m_conversation_id m) \<noteq> []" "normalized_user_ids rs \<noteq> []"
    and "\<forall>u \<in> set (normalized_user_ids rs). CHR '':'' \<notin> set u \<and>
      user_log (new_index n ttl raw) t (trim (m_conversation_id m)) u (sr_db (fw_index w))"
  shows "(\<forall>u \<in> set (normalized_user_ids rs). change_recorded t u (trim (m_conversation_id m)) (to_decimal (m_conversation_seq m))
       (i64_to_string (m_created_at m)) (Suc (user_version t u (sr_db (fw_index w)))) (sr_db (fw_index w'))) \<or>
     comp_held J (fw_queue w') (ct_task_id (change_task t rs m due)) = Some (change_task t rs m due) \<or>
     (\<exists>e. fst (redis_enqueue J env (change_task t rs m due) (fw_queue w)) = Err e)"
proof -
  let ?cid = "m_conversation_id m" and ?seq = "m_conversation_seq m" and ?at = "m_created_at m" and ?K = "new_index n ttl raw"
  obtain res x where x: "record_conversation_change ?K up C ctx rs ?cid ?seq ?at (fw_index w) = (res, x)" by fastforce
  show ?thesis
  proof (cases res)
    case (Inr u)
    then have "w' = w\<lparr>fw_index := x\<rparr>"
      using assms(1,2) x by (auto simp: record_message_change_def redis_user_sync_index_def on_index_def)
    with recorded_for_prefix [OF x assms(7,6,9)] Inr show ?thesis by auto
  next
    case (Inl e)
    have tenant: "task_tenant_id ctx = Some t" using assms(6) by (simp add: index_tenant_id_def task_tenant_id_def split: option.splits)
    then have "message_compensation ctx rs ?cid ?seq ?at False due = Some (change_task t rs m due)"
      using assms(7,8) by (simp add: message_compensation_def eager_user_changes_def change_task_def Let_def)
    then have w': "w' = enqueue_task S (Some (change_task t rs m due)) (w\<lparr>fw_index := x\<rparr>)"
      using assms(1,2) x Inl by (auto simp: record_message_change_def redis_user_sync_index_def on_index_def)
    obtain r q where q: "redis_enqueue J env (change_task t rs m due) (fw_queue w) = (r, q)" by fastforce
    show ?thesis
    proof (cases r)
      case (Inr u)
      with enqueue_held [OF assms(4,5) q] have "comp_held J q (ct_task_id (change_task t rs m due)) = Some (change_task t rs m due)" by auto
      then show ?thesis using w' q assms(3) by (auto simp: enqueue_task_def split: sum.splits)
    qed (simp add: q)
  qed
qed

section \<open>Example data\<close>

definition sync_task :: compensation_task where
  "sync_task = task_new ''t1'' EagerUserChanges [''a''] ''c1'' 7 5 5"

definition sync_queue :: "compensation_task comp_store" where
  "sync_queue = \<lparr>cs_pending = [(ct_task_id sync_task, 5)], cs_payloads = [task_key (ct_task_id sync_task) \<mapsto> sync_task]\<rparr>"

definition up_env :: comp_env where
  "up_env = \<lparr>ce_connected = True, ce_now = 1000, ce_ends = (\<lambda>i. Done)\<rparr>"

definition refusing_index :: "unit user_sync_index" where
  "refusing_index = \<lparr>ux_change = (\<lambda>ctx us c n at x. (Err connect_failed, x)), ux_bump = (\<lambda>ctx c n at x. (Err connect_failed, x))\<rparr>"

lemma sync_queue_facts:
  "task_codec_ok plain_task_codec" "comp_inv plain_task_codec sync_queue"
  "comp_held plain_task_codec sync_queue (ct_task_id sync_task) = Some sync_task"
  by (auto simp: task_codec_ok_def plain_task_codec_def comp_inv_def comp_held_def sync_queue_def task_key_def split: if_splits)

definition sync_fanout :: "(string, string, string, unit, sync_redis, compensation_task comp_store) fanout_service" where
  "sync_fanout = \<lparr>fs_repo = example_repo, fs_index = Some (redis_user_sync_index (new_index 1000 60 None) False healthy_chunk Done 1000),
     fs_compensation = Some (redis_enqueue plain_task_codec up_env), fs_inline_enabled = True\<rparr>"

definition sync_world :: "(unit, sync_redis, compensation_task comp_store) fanout_world" where
  "sync_world = \<lparr>fw_mq = \<lparr>mq_state = (), mq_sent = []\<rparr>, fw_index = empty_redis,
     fw_queue = \<lparr>cs_pending = [], cs_payloads = Map.empty\<rparr>, fw_tasks = []\<rparr>"

section \<open>Properties\<close>

text \<open>
  C31: no compensation task is lost. Wherever a pass of the worker is cut off, whatever requests to Redis fail or lose their answer and
  whatever the index answers, a task the queue held is still held afterwards, with the same work to do, unless its index write was
  answered with success during the pass.
\<close>
theorem no_compensation_task_lost:
  assumes "compensation_replay (new_worker (\<lambda>i. redis_compensation J (E i)) I err_text) (q, x) = (res, rs, q', x')"
    and "task_codec_ok J" "comp_inv J q" "comp_held J q k = Some t"
  shows "comp_inv J q' \<and> ((\<exists>t'. comp_held J q' k = Some t' \<and> same_work t t') \<or> (t, Ok ()) \<in> set rs)"
proof -
  note Q = redis_compensation_queue [OF assms(2), of E]
  have "cw_repository (new_worker (\<lambda>i. redis_compensation J (E i)) I err_text) = (\<lambda>i. redis_compensation J (E i))" by (simp add: new_worker_def)
  from compensation_queue.compensation_replay_covers [OF Q assms(1) this assms(3)] assms(4)
  show ?thesis unfolding compensation_queue.covered_def [OF Q] by blast
qed

theorem no_compensation_task_lost_witness:
  "case compensation_replay (new_worker (\<lambda>i. redis_compensation plain_task_codec up_env) (\<lambda>i. refusing_index) (\<lambda>e. ''down'')) (sync_queue, ()) of
     (res, rs, q, x) \<Rightarrow> \<exists>t. comp_held plain_task_codec q (ct_task_id sync_task) = Some t \<and> same_work sync_task t"
proof -
  let ?run = "compensation_replay (new_worker (\<lambda>i. redis_compensation plain_task_codec up_env) (\<lambda>i. refusing_index) (\<lambda>e. ''down'')) (sync_queue, ())"
  obtain res rs q x where r: "?run = (res, rs, q, x)" by (metis prod.exhaust)
  have "list_all (\<lambda>(t, r). case r of Inl _ \<Rightarrow> True | Inr _ \<Rightarrow> False) (fst (snd ?run))" by code_simp
  with r have "(sync_task, Ok ()) \<notin> set rs" by (auto simp: list_all_iff)
  with no_compensation_task_lost [OF r sync_queue_facts] r show ?thesis by auto
qed

text \<open>
  C33: a pass over a healthy queue attempts exactly what is due. When the queue's Redis answers every request, the queue holds at most the
  64 tasks of a batch and every task in it can be read, then a pass makes the index write of exactly the tasks that are due; a task whose
  write succeeded is taken out of the queue, one whose write failed stays with the same work to do, and a task that is not due stays
  as it is. Nothing is assumed of the index.
\<close>
theorem healthy_pass_drains_due_tasks:
  assumes "compensation_replay (new_worker (\<lambda>i. redis_compensation J (E i)) I err_text) (q, x) = (res, rs, q', x')"
    and "task_codec_ok J" "comp_inv J q" "\<forall>i. healthy_env (E i)" "distinct (map fst (cs_pending q))" "length (cs_pending q) \<le> 64"
    and "\<forall>k \<in> fst ` set (cs_pending q). comp_held J q k \<noteq> None" and "comp_held J q k = Some t"
  shows "if \<exists>s. (k, s) \<in> set (cs_pending q) \<and> s \<le> ce_now (E 0)
    then \<exists>r. (t, r) \<in> set rs \<and> (case r of Inr _ \<Rightarrow> comp_held J q' k = None
           | Inl _ \<Rightarrow> \<exists>t'. comp_held J q' k = Some t' \<and> same_work t t')
    else comp_held J q' k = Some t \<and> t \<notin> fst ` set rs"
proof -
  let ?R = "\<lambda>i. redis_compensation J (E i)"
  let ?W = "new_worker ?R I err_text"
  note Q = redis_compensation_queue [OF assms(2), of E]
  obtain ts q1 where c: "redis_claim_due J (E 0) 64 q = (Ok ts, q1)"
    "ct_task_id ` set ts = {k. \<exists>s. (k, s) \<in> set (cs_pending q) \<and> s \<le> ce_now (E 0)}" "distinct (map ct_task_id ts)"
    using healthy_claim [of "E 0" 64 q J] assms(3-7) by auto
  have h: "comp_inv J q1" "comp_held J q1 = comp_held J q" using claim_due_held(1) [OF assms(3) c(1)] by auto
  have r: "replay_tasks ?W 1 ts (q1, x) = (rs, q', x')"
    using assms(1) c(1) by (auto simp: compensation_replay_def new_worker_def redis_compensation_def split: prod.splits)
  have up: "fst (cr_mark_completed (?R i) j p) = Ok ()" for i j p
    using assms(4) by (simp add: redis_compensation_def redis_mark_completed_def healthy_env_def run_transaction_def)
  have held: "\<forall>t \<in> set ts. comp_held J q1 (ct_task_id t) = Some t"
    using claim_due_held(2) [OF assms(3) c(1) refl] h(2) by simp
  have W: "cw_repository ?W = ?R" by (simp add: new_worker_def)
  note leave = compensation_queue.replay_tasks_leave [OF Q r W h(1) c(3) held up]
  have id: "ct_task_id t = k" using assms(3,8) by (auto simp: comp_held_def comp_inv_def bind_eq_Some_conv split: if_splits)
  have rs: "fst ` set rs = set ts" using leave by (metis set_map)
  show ?thesis
  proof (cases "k \<in> ct_task_id ` set ts")
    case True
    then obtain u where u: "u \<in> set ts" "ct_task_id u = k" by blast
    then have "u = t" using held h(2) assms(8) by auto
    with u(1) rs have "t \<in> fst ` set rs" by simp
    then obtain r where tr: "(t, r) \<in> set rs" by auto
    with leave have "compensation_queue.left_after (comp_held J) q' (t, r)" by blast
    with tr True c(2) id show ?thesis by (auto simp: compensation_queue.left_after_def [OF Q])
  next
    case False
    then have "t \<notin> set ts" using id by blast
    with leave rs False c(2) h(2) assms(8) show ?thesis by auto
  qed
qed

text \<open>With the Redis index, on an empty server.\<close>

theorem healthy_pass_drains_due_tasks_witness:
  "case compensation_replay (new_worker (\<lambda>i. redis_compensation plain_task_codec up_env)
       (\<lambda>i. redis_user_sync_index (new_index 1000 60 None) True healthy_chunk Done 1000) (\<lambda>e. ''down'')) (sync_queue, empty_redis) of
     (res, rs, q, x) \<Rightarrow> comp_held plain_task_codec q (ct_task_id sync_task) = None"
proof -
  let ?run = "compensation_replay (new_worker (\<lambda>i. redis_compensation plain_task_codec up_env)
       (\<lambda>i. redis_user_sync_index (new_index 1000 60 None) True healthy_chunk Done 1000) (\<lambda>e. ''down'')) (sync_queue, empty_redis)"
  obtain res rs q x where r: "?run = (res, rs, q, x)" by (metis prod.exhaust)
  have "list_all (\<lambda>(t, r). case r of Inl _ \<Rightarrow> False | Inr _ \<Rightarrow> True) (fst (snd ?run))" by code_simp
  with r have w: "\<forall>(t, r) \<in> set rs. \<not> sum.isl r" by (auto simp: list_all_iff split: sum.splits)
  have e: "\<forall>i. healthy_env up_env" by (simp add: healthy_env_def up_env_def)
  have q: "distinct (map fst (cs_pending sync_queue))" "length (cs_pending sync_queue) \<le> 64"
    "\<forall>k \<in> fst ` set (cs_pending sync_queue). comp_held plain_task_codec sync_queue k \<noteq> None"
    "\<exists>s. (ct_task_id sync_task, s) \<in> set (cs_pending sync_queue) \<and> s \<le> ce_now up_env"
    using sync_queue_facts(3) by (auto simp: sync_queue_def up_env_def)
  from healthy_pass_drains_due_tasks [OF r sync_queue_facts(1,2) e q(1-3) sync_queue_facts(3)] q(4) obtain y where
    y: "(sync_task, y) \<in> set rs" "case y of Inr _ \<Rightarrow> comp_held plain_task_codec q (ct_task_id sync_task) = None
        | Inl _ \<Rightarrow> \<exists>t'. comp_held plain_task_codec q (ct_task_id sync_task) = Some t' \<and> same_work sync_task t'" by auto
  with w have "\<not> sum.isl y" by blast
  with y(2) have "comp_held plain_task_codec q (ct_task_id sync_task) = None" by (cases y) auto
  then show ?thesis unfolding r by simp
qed

text \<open>
  C30: a change is recorded or remembered. When the fan-out of a message to a small conversation has passed the sync index, and a
  compensation queue is configured, either every recipient has the change, with the version raised by one, or the queue holds a task that
  names the tenant, the conversation, the number and time of the message and all its recipients, or the queue answered the request to
  keep that task with an error, which the fan-out only logs. Nothing is assumed of the answers of the index and the queue.
\<close>
theorem change_recorded_or_queued:
  assumes "record_message_change S due ctx m rs False w = w'"
    and "fs_index S = Some (redis_user_sync_index (new_index n ttl raw) up C fin now)" "fs_compensation S = Some (redis_enqueue J env)"
    and "task_codec_ok J" "comp_inv J (fw_queue w)"
    and "index_tenant_id ctx = Ok t" "trim (m_conversation_id m) \<noteq> []" "normalized_user_ids rs \<noteq> []"
    and "\<forall>u \<in> set (normalized_user_ids rs). CHR '':'' \<notin> set u \<and>
      user_log (new_index n ttl raw) t (trim (m_conversation_id m)) u (sr_db (fw_index w))"
  shows "(\<forall>u \<in> set (normalized_user_ids rs). change_recorded t u (trim (m_conversation_id m)) (to_decimal (m_conversation_seq m))
       (i64_to_string (m_created_at m)) (Suc (user_version t u (sr_db (fw_index w)))) (sr_db (fw_index w'))) \<or>
     comp_held J (fw_queue w') (ct_task_id (change_task t rs m due)) = Some (change_task t rs m due) \<or>
     (\<exists>e. fst (redis_enqueue J env (change_task t rs m due) (fw_queue w)) = Err e)"
  using recorded_or_queued [OF assms] .

theorem change_recorded_or_queued_witness:
  "comp_held plain_task_codec (fw_queue (record_message_change sync_fanout 5 sync_ctx example_text [''bob''] False sync_world))
     (ct_task_id (change_task ''t1'' [''bob''] example_text 5)) = Some (change_task ''t1'' [''bob''] example_text 5)"
proof -
  let ?w = "record_message_change sync_fanout 5 sync_ctx example_text [''bob''] False sync_world"
  have f: "fs_index sync_fanout = Some (redis_user_sync_index (new_index 1000 60 None) False healthy_chunk Done 1000)"
    "fs_compensation sync_fanout = Some (redis_enqueue plain_task_codec up_env)"
    by (simp_all add: sync_fanout_def)
  have e: "comp_inv plain_task_codec (fw_queue sync_world)" "sr_db (fw_index sync_world) = Map.empty"
    by (simp_all add: comp_inv_def sync_world_def empty_redis_def)
  have k: "fst (redis_enqueue plain_task_codec up_env (change_task ''t1'' [''bob''] example_text 5) (fw_queue sync_world)) = Ok ()"
    by (simp add: redis_enqueue_def encode_task_def run_transaction_def plain_task_codec_def up_env_def)
  have n: "normalized_user_ids [''bob''] = [''bob'']" "index_tenant_id sync_ctx = Ok ''t1''" "trim (m_conversation_id example_text) = ''1-x''"
    by code_simp+
  have u: "\<forall>u \<in> set (normalized_user_ids [''bob'']). CHR '':'' \<notin> set u \<and>
      user_log (new_index 1000 60 None) ''t1'' (trim (m_conversation_id example_text)) u (sr_db (fw_index sync_world))"
    unfolding n e by (simp add: user_log_def user_changes_def)
  have "\<not> change_recorded ''t1'' ''bob'' (trim (m_conversation_id example_text)) (to_decimal (m_conversation_seq example_text))
      (i64_to_string (m_created_at example_text)) (Suc (user_version ''t1'' ''bob'' (sr_db (fw_index sync_world)))) (sr_db (fw_index ?w))"
    by code_simp
  with change_recorded_or_queued [OF refl f sync_queue_facts(1) e(1) n(2) _ _ u, of 5] n k show ?thesis by simp
qed

end
