(* ===== verification/Hook_Circuit.thy ===== *)
theory Hook_Circuit
  imports Flare_Prelude
begin

text \<open>
  The circuit breakers around tenant hooks (\<^verbatim>\<open>flare-capability/src/domain/service/hook_circuit.rs\<close>) and the guard of a hook call that
  settles them (\<^verbatim>\<open>hook_execution.rs\<close>): admission, settlement, eviction, and calls that finish or are dropped, as a step relation.
  Instants are numbers of milliseconds. The execution records handed to the observer are left out.
\<close>

section \<open>Circuits\<close>

record circuit_policy =
  hp_enabled :: bool
  hp_failure_threshold :: nat
  hp_failure_window :: nat
  hp_open_for :: nat

definition default_circuit_policy :: circuit_policy where
  "default_circuit_policy = \<lparr>hp_enabled = True, hp_failure_threshold = 5, hp_failure_window = 30000, hp_open_for = 20000\<rparr>"

record circuit_key =
  hk_tenant_id :: string
  hk_hook_type :: string
  hk_hook_name :: string

datatype circuit_transition = CircuitOpened | CircuitReopened | CircuitClosed

datatype circuit_admission = Admitted bool | Rejected nat

datatype circuit_result = Healthy | Unhealthy | Neutral

record circuit =
  ci_consecutive_failures :: nat
  ci_streak_started :: nat
  ci_open_until :: "nat option"
  ci_probing :: bool
  ci_failed_probes :: nat

type_synonym circuit_table = "(circuit_key \<times> circuit) list"

record breakers =
  br_policy :: circuit_policy
  br_max_tracked :: nat

definition PROBE_RETRY_AFTER :: nat where "PROBE_RETRY_AFTER = 1000"

definition MAX_TRACKED_CIRCUITS :: nat where "MAX_TRACKED_CIRCUITS = 100000"

definition with_capacity_limit :: "circuit_policy \<Rightarrow> nat \<Rightarrow> breakers" where
  "with_capacity_limit p max_tracked =
     \<lparr>br_policy = p\<lparr>hp_failure_threshold := max (hp_failure_threshold p) 1\<rparr>, br_max_tracked = max max_tracked 1\<rparr>"

definition breakers_new :: "circuit_policy \<Rightarrow> breakers" where
  "breakers_new p = with_capacity_limit p MAX_TRACKED_CIRCUITS"

text \<open>The hash table as a list without repeated keys.\<close>

definition put_circuit :: "circuit_key \<Rightarrow> circuit \<Rightarrow> circuit_table \<Rightarrow> circuit_table" where
  "put_circuit k c cs = (k, c) # filter (\<lambda>e. fst e \<noteq> k) cs"

definition remove_circuit :: "circuit_key \<Rightarrow> circuit_table \<Rightarrow> circuit_table" where
  "remove_circuit k cs = filter (\<lambda>e. fst e \<noteq> k) cs"

definition admit_at :: "breakers \<Rightarrow> circuit_key \<Rightarrow> nat \<Rightarrow> circuit_table \<Rightarrow> circuit_admission \<times> circuit_table" where
  "admit_at B key now cs =
     (if \<not> hp_enabled (br_policy B) then (Admitted False, cs)
      else
        (case map_of cs key of
           None \<Rightarrow> (Admitted False, cs)
         | Some c \<Rightarrow>
             (case ci_open_until c of
                None \<Rightarrow> (Admitted False, cs)
              | Some until \<Rightarrow>
                  if now < until then (Rejected (until - now), cs)
                  else if ci_probing c then (Rejected PROBE_RETRY_AFTER, cs)
                  else (Admitted True, put_circuit key (c\<lparr>ci_probing := True\<rparr>) cs))))"

definition make_room :: "breakers \<Rightarrow> nat \<Rightarrow> circuit_table \<Rightarrow> bool \<times> circuit_table" where
  "make_room B now cs =
     (if length cs < br_max_tracked B then (True, cs)
      else
        let cs = filter (\<lambda>(k, c). ci_open_until c \<noteq> None \<or> now - ci_streak_started c \<le> hp_failure_window (br_policy B)) cs
        in (length cs < br_max_tracked B, cs))"

definition fresh_circuit :: "nat \<Rightarrow> circuit" where
  "fresh_circuit now = \<lparr>ci_consecutive_failures = 0, ci_streak_started = now, ci_open_until = None, ci_probing = False, ci_failed_probes = 0\<rparr>"

definition count_failure :: "breakers \<Rightarrow> circuit_key \<Rightarrow> nat \<Rightarrow> circuit \<Rightarrow> circuit_table \<Rightarrow> circuit_transition option \<times> circuit_table" where
  "count_failure B key now c cs =
     (let p = br_policy B;
          c = (if hp_failure_window p < now - ci_streak_started c
               then c\<lparr>ci_consecutive_failures := 0, ci_streak_started := now\<rparr> else c);
          c = c\<lparr>ci_consecutive_failures := sat_add_u32 (ci_consecutive_failures c) 1\<rparr>
      in if ci_consecutive_failures c < hp_failure_threshold p then (None, put_circuit key c cs)
         else (Some CircuitOpened,
               put_circuit key (c\<lparr>ci_consecutive_failures := 0, ci_failed_probes := 0, ci_open_until := Some (now + hp_open_for p)\<rparr>) cs))"

definition settle_at :: "breakers \<Rightarrow> circuit_key \<Rightarrow> bool \<Rightarrow> circuit_result \<Rightarrow> nat \<Rightarrow> circuit_table \<Rightarrow>
     circuit_transition option \<times> circuit_table" where
  "settle_at B key probe result now cs =
     (if \<not> hp_enabled (br_policy B) then (None, cs)
      else
        (case result of
           Neutral \<Rightarrow>
             (None, case map_of cs key of
                      Some c \<Rightarrow> if probe then put_circuit key (c\<lparr>ci_probing := False\<rparr>) cs else cs
                    | None \<Rightarrow> cs)
         | Healthy \<Rightarrow>
             (case map_of cs key of
                None \<Rightarrow> (None, cs)
              | Some c \<Rightarrow>
                  if probe then (Some CircuitClosed, remove_circuit key cs)
                  else (None, if ci_open_until c = None then remove_circuit key cs else cs))
         | Unhealthy \<Rightarrow>
             if probe
             then (case map_of cs key of
                     None \<Rightarrow> (None, cs)
                   | Some c \<Rightarrow>
                       (Some CircuitReopened,
                        put_circuit key (c\<lparr>ci_probing := False, ci_open_until := Some (now + hp_open_for (br_policy B)),
                          ci_failed_probes := sat_add_u32 (ci_failed_probes c) 1\<rparr>) cs))
             else
               (case map_of cs key of
                  Some c \<Rightarrow> if ci_open_until c \<noteq> None then (None, cs) else count_failure B key now c cs
                | None \<Rightarrow>
                    (case make_room B now cs of
                       (room, cs) \<Rightarrow> if \<not> room then (None, cs) else count_failure B key now (fresh_circuit now) cs))))"

section \<open>Calls\<close>

text \<open>
  A hook call in flight. Finishing one that was admitted settles its circuit; a call that is dropped before it finished gives its
  probe back. A context without a tenant starts no call.
\<close>

record hook_call =
  hc_key :: circuit_key
  hc_admission :: circuit_admission

record guard_state =
  gu_circuits :: circuit_table
  gu_calls :: "hook_call list"

definition begin_call :: "breakers \<Rightarrow> string option \<Rightarrow> string \<Rightarrow> string \<Rightarrow> nat \<Rightarrow> guard_state \<Rightarrow> hook_call option \<times> guard_state" where
  "begin_call B tenant_id hook_type hook_name now s =
     (case tenant_id of
        None \<Rightarrow> (None, s)
      | Some t \<Rightarrow>
          if t = [] then (None, s)
          else
            let key = \<lparr>hk_tenant_id = t, hk_hook_type = hook_type, hk_hook_name = hook_name\<rparr>;
                (admission, cs) = admit_at B key now (gu_circuits s);
                call = \<lparr>hc_key = key, hc_admission = admission\<rparr>
            in (Some call, \<lparr>gu_circuits = cs, gu_calls = call # gu_calls s\<rparr>))"

definition short_circuited :: "hook_call \<Rightarrow> bool" where
  "short_circuited call = (case hc_admission call of Rejected _ \<Rightarrow> True | Admitted _ \<Rightarrow> False)"

definition finish_call :: "breakers \<Rightarrow> hook_call \<Rightarrow> bool \<Rightarrow> nat \<Rightarrow> guard_state \<Rightarrow> guard_state" where
  "finish_call B call answered now s =
     \<lparr>gu_circuits =
        (case hc_admission call of
           Admitted probe \<Rightarrow> snd (settle_at B (hc_key call) probe (if answered then Healthy else Unhealthy) now (gu_circuits s))
         | Rejected _ \<Rightarrow> gu_circuits s),
      gu_calls = remove1 call (gu_calls s)\<rparr>"

definition drop_call :: "breakers \<Rightarrow> hook_call \<Rightarrow> nat \<Rightarrow> guard_state \<Rightarrow> guard_state" where
  "drop_call B call now s =
     \<lparr>gu_circuits =
        (if hc_admission call = Admitted True then snd (settle_at B (hc_key call) True Neutral now (gu_circuits s)) else gu_circuits s),
      gu_calls = remove1 call (gu_calls s)\<rparr>"

inductive guard_reach :: "breakers \<Rightarrow> guard_state \<Rightarrow> bool" for B where
  start: "guard_reach B \<lparr>gu_circuits = [], gu_calls = []\<rparr>"
| begins: "guard_reach B s \<Longrightarrow> guard_reach B (snd (begin_call B tenant_id hook_type hook_name now s))"
| finishes: "guard_reach B s \<Longrightarrow> call \<in> set (gu_calls s) \<Longrightarrow> guard_reach B (finish_call B call answered now s)"
| drops: "guard_reach B s \<Longrightarrow> call \<in> set (gu_calls s) \<Longrightarrow> guard_reach B (drop_call B call now s)"

section \<open>The table\<close>

lemma map_of_remove [simp]: "map_of (remove_circuit k cs) = (map_of cs)(k := None)"
proof
  show "map_of (remove_circuit k cs) x = ((map_of cs)(k := None)) x" for x
    by (induction cs) (auto simp: remove_circuit_def)
qed

lemma map_of_put [simp]: "map_of (put_circuit k c cs) = (map_of cs)(k \<mapsto> c)"
  using map_of_remove [of k cs] by (auto simp: put_circuit_def remove_circuit_def fun_eq_iff)

lemma distinct_table [simp]:
  "distinct (map fst cs) \<Longrightarrow> distinct (map fst (put_circuit k c cs))" "distinct (map fst cs) \<Longrightarrow> distinct (map fst (remove_circuit k cs))"
  by (auto simp: put_circuit_def remove_circuit_def distinct_map inj_on_def)

lemma length_remove [simp]: "length (remove_circuit k cs) \<le> length cs"
  by (simp add: remove_circuit_def)

lemma length_put_present:
  assumes "map_of cs k \<noteq> None"
  shows "length (put_circuit k c cs) \<le> length cs"
proof -
  obtain e where "e \<in> set cs" "fst e = k" using assms by (metis map_of_SomeD fst_conv not_None_eq)
  then have "length (filter (\<lambda>e. fst e \<noteq> k) cs) < length cs" by (intro length_filter_less) auto
  then show ?thesis by (simp add: put_circuit_def)
qed

lemma length_put: "length (put_circuit k c cs) \<le> Suc (length cs)"
  by (simp add: put_circuit_def)

lemma make_room_table:
  assumes "make_room B now cs = (room, cs')" "distinct (map fst cs)"
  shows "distinct (map fst cs')" "length cs' \<le> length cs" "room \<Longrightarrow> length cs' < br_max_tracked B"
    "map_of cs' k = map_of cs k \<or> map_of cs' k = None \<and> (\<exists>c. map_of cs k = Some c \<and> ci_open_until c = None)"
proof -
  let ?P = "\<lambda>(k :: circuit_key, c). ci_open_until c \<noteq> None \<or> now - ci_streak_started c \<le> hp_failure_window (br_policy B)"
  have c: "cs' = cs \<or> cs' = filter ?P cs" using assms(1) by (auto simp: make_room_def Let_def split: if_splits)
  have d: "distinct (map fst (filter ?P cs))" using assms(2) by (rule distinct_map_filter)
  show "distinct (map fst cs')" using c d assms(2) by blast
  show "length cs' \<le> length cs" using c length_filter_le [of ?P cs] by auto
  show "length cs' < br_max_tracked B" if room using that assms(1) by (auto simp: make_room_def Let_def split: if_splits)
  show "map_of cs' k = map_of cs k \<or> map_of cs' k = None \<and> (\<exists>c. map_of cs k = Some c \<and> ci_open_until c = None)"
  proof (cases "map_of cs' k = map_of cs k")
    case False
    then have f: "cs' = filter ?P cs" using c by auto
    have sub: "\<And>x. map_of cs' k = Some x \<Longrightarrow> map_of cs k = Some x"
      using f assms(2) map_of_SomeD [of cs' k] by (auto intro!: map_of_is_SomeI)
    then have n: "map_of cs' k = None" using False by (metis not_None_eq)
    then obtain c where "map_of cs k = Some c" using False by (metis not_None_eq)
    moreover have "ci_open_until c = None"
    proof (rule ccontr)
      assume "ci_open_until c \<noteq> None"
      then have "(k, c) \<in> set cs'" using f map_of_SomeD [OF calculation] by simp
      then show False using n by (simp add: map_of_eq_None_iff image_iff) (metis fst_conv)
    qed
    ultimately show ?thesis using n by blast
  qed simp
qed

section \<open>One probe\<close>

definition probing :: "circuit_table \<Rightarrow> circuit_key \<Rightarrow> bool" where
  "probing cs key = (case map_of cs key of None \<Rightarrow> False | Some c \<Rightarrow> ci_probing c)"

definition table_ok :: "breakers \<Rightarrow> circuit_table \<Rightarrow> bool" where
  "table_ok B cs \<longleftrightarrow>
     distinct (map fst cs) \<and> length cs \<le> br_max_tracked B \<and> (hp_enabled (br_policy B) \<or> cs = []) \<and>
     (\<forall>key c. map_of cs key = Some c \<longrightarrow> ci_probing c \<longrightarrow> ci_open_until c \<noteq> None)"

lemma closed_not_probing: "table_ok B cs \<Longrightarrow> map_of cs key = Some c \<Longrightarrow> ci_open_until c = None \<Longrightarrow> \<not> ci_probing c"
  unfolding table_ok_def by blast

lemma put_ok:
  assumes "table_ok B cs" "map_of cs key \<noteq> None \<or> length cs < br_max_tracked B" "hp_enabled (br_policy B)" "ci_probing c \<longrightarrow> ci_open_until c \<noteq> None"
  shows "table_ok B (put_circuit key c cs)" "probing (put_circuit key c cs) = (probing cs)(key := ci_probing c)"
proof -
  have m: "length cs \<le> br_max_tracked B" using assms(1) by (simp add: table_ok_def)
  have "length (put_circuit key c cs) \<le> br_max_tracked B"
  proof (cases "map_of cs key = None")
    case True
    then show ?thesis using assms(2) length_put [of key c cs] by linarith
  next
    case False
    then show ?thesis using m length_put_present [of cs key c] by linarith
  qed
  with assms show "table_ok B (put_circuit key c cs)" by (simp add: table_ok_def)
  show "probing (put_circuit key c cs) = (probing cs)(key := ci_probing c)" by (auto simp: probing_def fun_eq_iff)
qed

lemma remove_ok:
  assumes "table_ok B cs"
  shows "table_ok B (remove_circuit key cs)" "probing (remove_circuit key cs) = (probing cs)(key := False)"
proof -
  have "length cs \<le> br_max_tracked B" using assms by (simp add: table_ok_def)
  then have "length (remove_circuit key cs) \<le> br_max_tracked B" using length_remove [of key cs] by linarith
  moreover have "hp_enabled (br_policy B) \<or> remove_circuit key cs = []" using assms by (auto simp: table_ok_def remove_circuit_def)
  ultimately show "table_ok B (remove_circuit key cs)" using assms by (simp add: table_ok_def)
  show "probing (remove_circuit key cs) = (probing cs)(key := False)" by (auto simp: probing_def fun_eq_iff)
qed

lemma make_room_ok:
  assumes "make_room B now cs = (room, cs')" "table_ok B cs"
  shows "table_ok B cs'" "probing cs' = probing cs" "map_of cs key = None \<Longrightarrow> map_of cs' key = None"
proof -
  have d: "distinct (map fst cs)" using assms(2) by (simp add: table_ok_def)
  note t = make_room_table [OF assms(1) d]
  have "hp_enabled (br_policy B) \<or> cs' = []" using t(2) assms(2) by (auto simp: table_ok_def)
  moreover have "\<forall>key c. map_of cs' key = Some c \<longrightarrow> ci_probing c \<longrightarrow> ci_open_until c \<noteq> None"
  proof (intro allI impI)
    fix key c assume "map_of cs' key = Some c" "ci_probing c"
    moreover from this t(4) [of key] have "map_of cs key = Some c" by auto
    ultimately show "ci_open_until c \<noteq> None" using assms(2) unfolding table_ok_def by blast
  qed
  moreover have "length cs' \<le> br_max_tracked B" using t(2) assms(2) by (simp add: table_ok_def)
  ultimately show "table_ok B cs'" using t(1) unfolding table_ok_def by blast
  show "probing cs' = probing cs"
  proof
    fix key
    from t(4) [of key] show "probing cs' key = probing cs key"
    proof (elim disjE conjE exE)
      fix c assume "map_of cs' key = None" "map_of cs key = Some c" "ci_open_until c = None"
      then show ?thesis using closed_not_probing [OF assms(2)] by (simp add: probing_def)
    qed (simp add: probing_def)
  qed
  show "map_of cs key = None \<Longrightarrow> map_of cs' key = None" using t(4) [of key] by auto
qed

lemma admit_ok:
  assumes "admit_at B key now cs = (a, cs')" "table_ok B cs"
  shows "table_ok B cs'" "probing cs' = (if a = Admitted True then (probing cs)(key := True) else probing cs)"
    "a = Admitted True \<Longrightarrow> \<not> probing cs key" "probing cs key \<Longrightarrow> \<exists>r. a = Rejected r"
proof -
  consider (pass) "cs' = cs" "a = Admitted False" "\<not> probing cs key" | (reject) r where "cs' = cs" "a = Rejected r"
    | (probe) c where "map_of cs key = Some c" "ci_open_until c \<noteq> None" "\<not> ci_probing c" "a = Admitted True" "hp_enabled (br_policy B)"
      "cs' = put_circuit key (c\<lparr>ci_probing := True\<rparr>) cs"
  proof (cases "hp_enabled (br_policy B)")
    case False
    then have "cs = []" using assms(2) by (simp add: table_ok_def)
    with False assms(1) show thesis by (intro pass) (simp_all add: admit_at_def probing_def)
  next
    case e: True
    show thesis
    proof (cases "map_of cs key")
      case None
      with e assms(1) show thesis by (intro pass) (simp_all add: admit_at_def probing_def)
    next
      case (Some c)
      show thesis
      proof (cases "ci_open_until c")
        case None
        with e Some assms closed_not_probing [OF assms(2) Some None] show thesis by (intro pass) (simp_all add: admit_at_def probing_def)
      next
        case (Some until)
        then consider "now < until" | "\<not> now < until" "ci_probing c" | "\<not> now < until" "\<not> ci_probing c" by blast
        then show thesis
        proof cases
          case 1
          with e Some \<open>map_of cs key = Some c\<close> assms(1) show thesis by (intro reject [of "until - now"]) (simp_all add: admit_at_def)
        next
          case 2
          with e Some \<open>map_of cs key = Some c\<close> assms(1) show thesis by (intro reject [of PROBE_RETRY_AFTER]) (simp_all add: admit_at_def)
        next
          case 3
          with e Some \<open>map_of cs key = Some c\<close> assms(1) show thesis by (intro probe [of c]) (simp_all add: admit_at_def)
        qed
      qed
    qed
  qed
  then have "table_ok B cs' \<and> probing cs' = (if a = Admitted True then (probing cs)(key := True) else probing cs) \<and>
    (a = Admitted True \<longrightarrow> \<not> probing cs key) \<and> (probing cs key \<longrightarrow> (\<exists>r. a = Rejected r))"
  proof cases
    case probe
    with put_ok [OF assms(2), of key "c\<lparr>ci_probing := True\<rparr>"] show ?thesis by (simp add: probing_def)
  qed (use assms(2) in simp_all)
  then show "table_ok B cs'" "probing cs' = (if a = Admitted True then (probing cs)(key := True) else probing cs)"
    "a = Admitted True \<Longrightarrow> \<not> probing cs key" "probing cs key \<Longrightarrow> \<exists>r. a = Rejected r" by auto
qed

lemma count_failure_ok:
  assumes "table_ok B cs" "map_of cs key \<noteq> None \<or> length cs < br_max_tracked B" "hp_enabled (br_policy B)" "\<not> ci_probing c" "\<not> probing cs key"
  shows "table_ok B (snd (count_failure B key now c cs))" "probing (snd (count_failure B key now c cs)) = probing cs"
proof -
  have "\<exists>c'. snd (count_failure B key now c cs) = put_circuit key c' cs \<and> \<not> ci_probing c'"
    using assms(4) unfolding count_failure_def Let_def by (auto split: if_split)
  then obtain c' where "snd (count_failure B key now c cs) = put_circuit key c' cs" "\<not> ci_probing c'" by blast
  then show "table_ok B (snd (count_failure B key now c cs))" "probing (snd (count_failure B key now c cs)) = probing cs"
    using put_ok [OF assms(1-3), of c'] assms(5) by (auto simp: fun_eq_iff)
qed

lemma settle_probe_ok:
  assumes "table_ok B cs" "probing cs key"
  shows "table_ok B (snd (settle_at B key True result now cs)) \<and> probing (snd (settle_at B key True result now cs)) = (probing cs)(key := False)"
proof -
  obtain c where c: "map_of cs key = Some c" using assms(2) by (auto simp: probing_def split: option.splits)
  then have e: "hp_enabled (br_policy B)" using assms(1) by (auto simp: table_ok_def)
  show ?thesis
    using put_ok [OF assms(1) _ e, of key "c\<lparr>ci_probing := False\<rparr>"] remove_ok [OF assms(1), of key]
      put_ok [OF assms(1) _ e, of key "c\<lparr>ci_probing := False, ci_open_until := Some (now + hp_open_for (br_policy B)),
        ci_failed_probes := sat_add_u32 (ci_failed_probes c) 1\<rparr>"] c e
    by (cases result) (simp_all add: settle_at_def)
qed

lemma settle_plain_ok:
  assumes "table_ok B cs"
  shows "table_ok B (snd (settle_at B key False result now cs)) \<and> probing (snd (settle_at B key False result now cs)) = probing cs"
proof (cases "hp_enabled (br_policy B)")
  case e: True
  have closed: "\<not> probing cs key \<and> \<not> ci_probing c" if "map_of cs key = Some c" "ci_open_until c = None" for c
    using closed_not_probing [OF assms that] that(1) by (simp add: probing_def)
  show ?thesis
  proof (cases result)
    case Healthy
    have "(probing cs)(key := False) = probing cs" if "\<not> probing cs key" using that by (simp add: fun_upd_idem)
    with Healthy e closed remove_ok [OF assms, of key] assms show ?thesis by (auto simp: settle_at_def split: option.splits)
  next
    case Neutral
    with e assms show ?thesis by (auto simp: settle_at_def split: option.splits)
  next
    case Unhealthy
    show ?thesis
    proof (cases "map_of cs key")
      case (Some c)
      with Unhealthy e assms closed [OF Some] count_failure_ok [OF assms _ e, of key c now] show ?thesis
        by (cases "ci_open_until c") (auto simp: settle_at_def)
    next
      case None
      obtain room cs' where r: "make_room B now cs = (room, cs')" by fastforce
      note m = make_room_ok [OF r assms]
      have l: "room \<Longrightarrow> length cs' < br_max_tracked B" using make_room_table(3) [OF r] assms by (auto simp: table_ok_def)
      have "\<not> probing cs' key" using m(3) [OF None] by (simp add: probing_def)
      with l m count_failure_ok [OF m(1) _ e, of key "fresh_circuit now" now] Unhealthy None e r show ?thesis
        by (auto simp: settle_at_def fresh_circuit_def)
    qed
  qed
qed (use assms in \<open>simp add: settle_at_def\<close>)

definition probe_of :: "circuit_key \<Rightarrow> hook_call \<Rightarrow> bool" where
  "probe_of key call \<longleftrightarrow> hc_key call = key \<and> hc_admission call = Admitted True"

definition guard_inv :: "breakers \<Rightarrow> guard_state \<Rightarrow> bool" where
  "guard_inv B s \<longleftrightarrow> table_ok B (gu_circuits s) \<and>
     (\<forall>key. length (filter (probe_of key) (gu_calls s)) = (if probing (gu_circuits s) key then 1 else 0))"

lemma probes_remove1:
  "call \<in> set calls \<Longrightarrow> length (filter (probe_of key) (remove1 call calls)) =
     length (filter (probe_of key) calls) - (if probe_of key call then 1 else 0)"
  by (auto simp: filter_remove1 length_remove1)

lemma begin_inv: "guard_inv B s \<Longrightarrow> guard_inv B (snd (begin_call B tenant_id hook_type hook_name now s))"
proof (cases "tenant_id = None \<or> tenant_id = Some []")
  case True
  then show "guard_inv B s \<Longrightarrow> guard_inv B (snd (begin_call B tenant_id hook_type hook_name now s))"
    by (auto simp: begin_call_def)
next
  case False
  then obtain t where t: "tenant_id = Some t" "t \<noteq> []" by auto
  let ?key = "\<lparr>hk_tenant_id = t, hk_hook_type = hook_type, hk_hook_name = hook_name\<rparr>"
  obtain a cs where a: "admit_at B ?key now (gu_circuits s) = (a, cs)" by fastforce
  assume i: "guard_inv B s"
  then have ok: "table_ok B (gu_circuits s)" by (simp add: guard_inv_def)
  let ?call = "\<lparr>hc_key = ?key, hc_admission = a\<rparr>"
  have b: "snd (begin_call B tenant_id hook_type hook_name now s) = \<lparr>gu_circuits = cs, gu_calls = ?call # gu_calls s\<rparr>"
    using t a by (simp add: begin_call_def Let_def)
  have "length (filter (probe_of key) (?call # gu_calls s)) = (if probing cs key then 1 else 0)" for key
  proof -
    have p: "length (filter (probe_of key) (gu_calls s)) = (if probing (gu_circuits s) key then 1 else 0)"
      using i by (simp add: guard_inv_def)
    have "probe_of key ?call \<longleftrightarrow> key = ?key \<and> a = Admitted True" by (auto simp: probe_of_def)
    with p admit_ok(2,3) [OF a ok] show ?thesis by (cases "a = Admitted True") auto
  qed
  with admit_ok(1) [OF a ok] show "guard_inv B (snd (begin_call B tenant_id hook_type hook_name now s))"
    unfolding b guard_inv_def by simp
qed

lemma settle_step_inv:
  assumes "guard_inv B s" "call \<in> set (gu_calls s)"
    and "if probe_of (hc_key call) call then table_ok B cs \<and> probing cs = (probing (gu_circuits s))(hc_key call := False)
      else table_ok B cs \<and> probing cs = probing (gu_circuits s)"
  shows "guard_inv B \<lparr>gu_circuits = cs, gu_calls = remove1 call (gu_calls s)\<rparr>"
proof -
  have p: "length (filter (probe_of key) (gu_calls s)) = (if probing (gu_circuits s) key then 1 else 0)" for key
    using assms(1) by (simp add: guard_inv_def)
  have on: "probing (gu_circuits s) (hc_key call)" if "probe_of (hc_key call) call"
    using p [of "hc_key call"] that assms(2) by (auto simp: filter_empty_conv split: if_splits)
  have other: "\<not> probe_of key call" if "key \<noteq> hc_key call" for key using that by (auto simp: probe_of_def)
  have "length (filter (probe_of key) (remove1 call (gu_calls s))) = (if probing cs key then 1 else 0)" for key
  proof (cases "probe_of key call")
    case True
    then have "key = hc_key call" using other by blast
    with True on assms(3) p [of key] probes_remove1 [OF assms(2), of key] show ?thesis by simp
  next
    case False
    have "probing cs key = probing (gu_circuits s) key" using False assms(3) by (cases "key = hc_key call") (auto split: if_splits)
    with False p [of key] probes_remove1 [OF assms(2), of key] show ?thesis by simp
  qed
  moreover have "table_ok B cs" using assms(3) by (simp split: if_splits)
  ultimately show ?thesis by (simp add: guard_inv_def)
qed

lemma guard_reach_inv: "guard_reach B s \<Longrightarrow> guard_inv B s"
proof (induction rule: guard_reach.induct)
  case start
  then show ?case by (simp add: guard_inv_def table_ok_def probing_def)
next
  case (begins s tenant_id hook_type hook_name now)
  then show ?case by (intro begin_inv)
next
  case (finishes s call answered now)
  then have ok: "table_ok B (gu_circuits s)" by (simp add: guard_inv_def)
  have "probing (gu_circuits s) (hc_key call)" if "probe_of (hc_key call) call"
    using finishes that by (auto simp: guard_inv_def filter_empty_conv split: if_splits)
  then show ?case unfolding finish_call_def
    using settle_probe_ok [OF ok, of "hc_key call"] settle_plain_ok [OF ok, of "hc_key call"] ok finishes.hyps
    by (intro settle_step_inv [OF finishes.IH]) (auto simp: probe_of_def split: circuit_admission.splits)
next
  case (drops s call now)
  then have ok: "table_ok B (gu_circuits s)" by (simp add: guard_inv_def)
  have "probing (gu_circuits s) (hc_key call)" if "probe_of (hc_key call) call"
    using drops that by (auto simp: guard_inv_def filter_empty_conv split: if_splits)
  then show ?case unfolding drop_call_def
    using settle_probe_ok [OF ok, of "hc_key call"] ok drops.hyps
    by (intro settle_step_inv [OF drops.IH]) (auto simp: probe_of_def)
qed

section \<open>Failures in a row\<close>

fun fail_times :: "breakers \<Rightarrow> circuit_key \<Rightarrow> nat list \<Rightarrow> circuit_table \<Rightarrow> circuit_table" where
  "fail_times B key [] cs = cs"
| "fail_times B key (t # ts) cs = fail_times B key ts (snd (settle_at B key False Unhealthy t cs))"

lemma fail_times_snoc: "fail_times B key (ts @ [t]) cs = snd (settle_at B key False Unhealthy t (fail_times B key ts cs))"
  by (induction ts arbitrary: cs) simp_all

definition failed_circuit :: "breakers \<Rightarrow> nat \<Rightarrow> circuit \<Rightarrow> circuit" where
  "failed_circuit B t c =
     (if Suc (ci_consecutive_failures c) < hp_failure_threshold (br_policy B)
      then c\<lparr>ci_consecutive_failures := Suc (ci_consecutive_failures c)\<rparr>
      else c\<lparr>ci_consecutive_failures := 0, ci_failed_probes := 0, ci_open_until := Some (t + hp_open_for (br_policy B))\<rparr>)"

lemma count_failure_in_window:
  assumes "t - ci_streak_started c \<le> hp_failure_window (br_policy B)" "Suc (ci_consecutive_failures c) \<le> u32_max"
  shows "map_of (snd (count_failure B key t c cs)) key = Some (failed_circuit B t c)"
proof -
  have "sat_add_u32 (ci_consecutive_failures c) 1 = Suc (ci_consecutive_failures c)" using assms(2) by (simp add: sat_add_u32_exact)
  with assms(1) show ?thesis by (simp add: count_failure_def failed_circuit_def Let_def not_less)
qed

lemma streak_counted:
  assumes "hp_enabled (br_policy B)" "0 < hp_failure_threshold (br_policy B)" "hp_failure_threshold (br_policy B) \<le> u32_max"
    and "map_of cs key = None" "length cs < br_max_tracked B"
    and "ts \<noteq> []" "\<forall>t \<in> set ts. t - hd ts \<le> hp_failure_window (br_policy B)" "length ts \<le> hp_failure_threshold (br_policy B)"
  shows "map_of (fail_times B key ts cs) key = Some (failed_circuit B (last ts) ((fresh_circuit (hd ts))\<lparr>ci_consecutive_failures := length ts - 1\<rparr>))"
  using assms(6-8)
proof (induction ts rule: rev_induct)
  case (snoc t ts)
  let ?thr = "hp_failure_threshold (br_policy B)"
  show ?case
  proof (cases "ts = []")
    case True
    have "settle_at B key False Unhealthy t cs = count_failure B key t (fresh_circuit t) cs"
      using assms(1,4,5) by (simp add: settle_at_def make_room_def)
    moreover have "(fresh_circuit t)\<lparr>ci_consecutive_failures := 0\<rparr> = fresh_circuit t" by (simp add: fresh_circuit_def)
    ultimately show ?thesis
      using True count_failure_in_window [of t "fresh_circuit t" B key cs] by (simp add: fresh_circuit_def)
  next
    case False
    let ?c = "(fresh_circuit (hd ts))\<lparr>ci_consecutive_failures := length ts\<rparr>"
    have "length ts < ?thr" using snoc.prems(3) by simp
    with False have "Suc (length ts - 1) < ?thr" by (cases ts) simp_all
    then have "failed_circuit B (last ts) ((fresh_circuit (hd ts))\<lparr>ci_consecutive_failures := length ts - 1\<rparr>) = ?c"
      using False by (cases ts) (simp_all add: failed_circuit_def)
    with snoc False have c: "map_of (fail_times B key ts cs) key = Some ?c" by simp
    have "settle_at B key False Unhealthy t (fail_times B key ts cs) = count_failure B key t ?c (fail_times B key ts cs)"
      using assms(1) c by (simp add: settle_at_def fresh_circuit_def)
    moreover have "t - ci_streak_started ?c \<le> hp_failure_window (br_policy B)" using snoc.prems(2) False by (simp add: fresh_circuit_def)
    moreover have "Suc (ci_consecutive_failures ?c) \<le> u32_max" using \<open>length ts < ?thr\<close> assms(3) by simp
    ultimately show ?thesis using count_failure_in_window [of t ?c B key] False by (simp add: fail_times_snoc)
  qed
qed simp

section \<open>Example data\<close>

definition sample_breakers :: breakers where
  "sample_breakers = breakers_new default_circuit_policy"

definition sample_key :: circuit_key where
  "sample_key = \<lparr>hk_tenant_id = ''t1'', hk_hook_type = ''pre_send'', hk_hook_name = ''filter''\<rparr>"

fun begin_and_fail :: "breakers \<Rightarrow> nat list \<Rightarrow> guard_state \<Rightarrow> guard_state" where
  "begin_and_fail B [] s = s"
| "begin_and_fail B (t # ts) s =
     (case begin_call B (Some ''t1'') ''pre_send'' ''filter'' t s of
        (Some call, s) \<Rightarrow> begin_and_fail B ts (finish_call B call False t s)
      | (None, s) \<Rightarrow> s)"

lemma begin_and_fail_reach: "guard_reach B s \<Longrightarrow> guard_reach B (begin_and_fail B ts s)"
proof (induction B ts s rule: begin_and_fail.induct)
  case (2 B t ts s)
  let ?b = "begin_call B (Some ''t1'') ''pre_send'' ''filter'' t s"
  have "\<exists>call s1. ?b = (Some call, s1) \<and> call \<in> set (gu_calls s1)"
    by (simp add: begin_call_def Let_def split: prod.split)
  then obtain call s1 where b: "?b = (Some call, s1)" "call \<in> set (gu_calls s1)" by blast
  have "guard_reach B s1" using guard_reach.begins [OF "2.prems", of "Some ''t1''" "''pre_send''" "''filter''" t] b(1) by simp
  then have "guard_reach B (finish_call B call False t s1)" using b(2) by (rule guard_reach.finishes)
  with "2.IH" [OF b(1) [symmetric] refl] b(1) show ?case by simp
qed simp

section \<open>Properties\<close>

text \<open>
  C38: one probe at a time. In every run of begun, finished and dropped hook calls, at whatever times, at most one probe per tenant
  and hook is in flight, and while it is, every other call of that hook is rejected; the table of circuits never exceeds its bound.
\<close>
theorem one_probe_at_a_time:
  assumes "guard_reach B s"
  shows "length (filter (probe_of key) (gu_calls s)) \<le> 1 \<and> length (gu_circuits s) \<le> br_max_tracked B \<and>
    ((\<exists>call \<in> set (gu_calls s). probe_of key call) \<longrightarrow> (\<forall>now. \<exists>r. fst (admit_at B key now (gu_circuits s)) = Rejected r))"
proof -
  have i: "table_ok B (gu_circuits s)" "length (filter (probe_of key) (gu_calls s)) = (if probing (gu_circuits s) key then 1 else 0)"
    using guard_reach_inv [OF assms] by (simp_all add: guard_inv_def)
  have "probing (gu_circuits s) key" if "\<exists>call \<in> set (gu_calls s). probe_of key call"
    using that i(2) by (auto simp: filter_empty_conv split: if_splits)
  then have "(\<exists>call \<in> set (gu_calls s). probe_of key call) \<longrightarrow> (\<forall>now. \<exists>r. fst (admit_at B key now (gu_circuits s)) = Rejected r)"
    using admit_ok(4) [OF _ i(1)] by (metis prod.collapse)
  then show ?thesis using i by (simp add: table_ok_def)
qed

theorem one_probe_at_a_time_witness:
  "let s = snd (begin_call sample_breakers (Some ''t1'') ''pre_send'' ''filter'' 30000
             (begin_and_fail sample_breakers [1, 2, 3, 4, 5] \<lparr>gu_circuits = [], gu_calls = []\<rparr>))
   in list_ex (probe_of sample_key) (gu_calls s) \<and> (\<exists>r. fst (admit_at sample_breakers sample_key 40000 (gu_circuits s)) = Rejected r)"
proof -
  let ?s = "snd (begin_call sample_breakers (Some ''t1'') ''pre_send'' ''filter'' 30000
      (begin_and_fail sample_breakers [1, 2, 3, 4, 5] \<lparr>gu_circuits = [], gu_calls = []\<rparr>))"
  have "guard_reach sample_breakers ?s" by (intro guard_reach.begins begin_and_fail_reach guard_reach.start)
  moreover have p: "list_ex (probe_of sample_key) (gu_calls ?s)" by code_simp
  ultimately show ?thesis using one_probe_at_a_time [of sample_breakers ?s sample_key] unfolding Let_def list_ex_iff by blast
qed

text \<open>
  C39: the circuit opens at the threshold. When a hook that is not tracked fails again and again within the window, calls are admitted
  as long as there were fewer failures than the threshold; with the last failure they are rejected for exactly the configured time,
  and the first call after it is the probe.
\<close>
theorem circuit_opens_at_threshold:
  assumes "B = with_capacity_limit p m" "hp_enabled p" "hp_failure_threshold p \<le> u32_max"
    and "map_of cs key = None" "length cs < br_max_tracked B"
    and "ts \<noteq> []" "\<forall>t \<in> set ts. t - hd ts \<le> hp_failure_window p" "length ts \<le> max (hp_failure_threshold p) 1"
  shows "fst (admit_at B key now (fail_times B key ts cs)) =
    (if length ts < max (hp_failure_threshold p) 1 then Admitted False
     else if now < last ts + hp_open_for p then Rejected (last ts + hp_open_for p - now) else Admitted True)"
proof -
  have b: "br_policy B = p\<lparr>hp_failure_threshold := max (hp_failure_threshold p) 1\<rparr>" using assms(1) by (simp add: with_capacity_limit_def)
  have "max (hp_failure_threshold p) 1 \<le> u32_max" using assms(3) by simp
  with assms b have "map_of (fail_times B key ts cs) key =
      Some (failed_circuit B (last ts) ((fresh_circuit (hd ts))\<lparr>ci_consecutive_failures := length ts - 1\<rparr>))"
    by (intro streak_counted) simp_all
  moreover have "Suc (length ts - 1) = length ts" using assms(6) by (cases ts) simp_all
  moreover have "0 < length ts" using assms(6) by simp
  ultimately show ?thesis using assms(2) b by (simp add: admit_at_def failed_circuit_def fresh_circuit_def less_max_iff_disj)
qed

theorem circuit_opens_at_threshold_witness:
  "fst (admit_at sample_breakers sample_key 100 (fail_times sample_breakers sample_key [1, 2, 3, 4, 5] [])) = Rejected 19905"
  using circuit_opens_at_threshold [of sample_breakers default_circuit_policy MAX_TRACKED_CIRCUITS "[]" sample_key "[1, 2, 3, 4, 5]" 100]
  by (simp add: sample_breakers_def breakers_new_def with_capacity_limit_def default_circuit_policy_def MAX_TRACKED_CIRCUITS_def)

end
