(* ===== verification/Spec2Isabelle.thy ===== *)
theory Spec2Isabelle
  imports Leased_Allocator Send_Guarantees Writer_Guarantees Operation_Path Read_Receipts Sync_Compensation Hook_Circuit
begin

text \<open>
  The durable paths of the flare IM server: a message from the send call to the archive, and an event (recall, edit, delete, reaction,
  pin, mark, read receipt, retention, plugin state) from its submission to the tables and the event stream.

  \<^bold>\<open>The program and how its parts interact.\<close>
  A send reaches \<^verbatim>\<open>flare-message-ingest\<close>: the caller's identity and tenant are checked, the client message id is reserved in Redis, the
  rate limiter admits the call, the conversation is ensured, a sequence number is allocated, the message is logged in a
  write-ahead log and published on the main topic, and the reservation is committed to the result. Replay publishes what stayed in the log.
  \<^verbatim>\<open>flare-orchestrator\<close> consumes the main topic: it publishes the message for storage, records the change for the recipients' sync
  index (a write that fails is queued and replayed by a worker) and announces it. Events come in through
  the orchestrator: they are validated, authorized against the stored message and the membership of the caller, admitted, numbered and published on the same main topic. \<^verbatim>\<open>flare-storage/writer\<close> consumes both: it verifies
  provenance, reserves, archives messages with their ledgers, appends to the event stream, applies operation events to the tables
  and acknowledges. \<^verbatim>\<open>flare-conversation\<close> answers who has read a group message. \<^verbatim>\<open>flare-capability\<close> guards calls of tenant hooks with circuit breakers.

  \<^bold>\<open>Theories.\<close>
  \<^item> \<^verbatim>\<open>Flare_Prelude\<close>: results and the \<open>?\<close> operator, saturating and fixed-width arithmetic, strings, decimal numbers, map
    lemmas. \<^verbatim>\<open>Redis_Server\<close>: the Redis commands the code sends, with what Redis documents of them as the locale \<open>redis_server\<close>, and an
    in-memory server that satisfies it.
  \<^item> Contracts and model: \<^verbatim>\<open>Tenant_Contract\<close> (tenant ids, status, admission), \<^verbatim>\<open>Message_Model\<close> (the message, kinds, inference of the
    type, preparation of a submission).
  \<^item> Sequence numbers, \<^verbatim>\<open>crates/flare-im-seq\<close>: \<^verbatim>\<open>Seq_Allocator\<close> (single, batch, floor), \<^verbatim>\<open>Leased_Allocator\<close> (segments under a
    lease with a fencing token; many nodes with clock offsets and delays as a step relation; locales \<open>leased_cluster\<close> and \<open>punctual_cluster\<close>).
  \<^item> Ingest: \<^verbatim>\<open>Ingest_Idempotency\<close> (locale \<open>idempotency_store\<close> and its Redis implementation), \<^verbatim>\<open>Rate_Limiter\<close>, \<^verbatim>\<open>Wal_Store\<close> (locale
    \<open>wal_repository\<close>, the Redis log with its claim script), \<^verbatim>\<open>Send_Entry\<close> (identities), \<^verbatim>\<open>Message_Validation\<close>, \<^verbatim>\<open>Conversation_Ensure\<close>,
    \<^verbatim>\<open>Ingest_Service\<close> (allocation with the persisted floor, log, recipients), \<^verbatim>\<open>Ingest_Handler\<close> (the send command stage by stage, with a
    cancellation possible at every await and the destructor of the reservation), \<^verbatim>\<open>Wal_Replay\<close>.
  \<^item> Queue: \<^verbatim>\<open>Write_Proof\<close> (provenance of machine messages), \<^verbatim>\<open>Push_Repository\<close> (every publishing operation).
  \<^item> Orchestrator: \<^verbatim>\<open>Message_Fanout\<close> (consumer and fan-out), \<^verbatim>\<open>Sync_Index\<close> (the Redis sync index: scripts, pipelines and the diff),
    \<^verbatim>\<open>Sync_Compensation\<close> (the queue of failed index writes, locale \<open>compensation_queue\<close>, and its worker),
    \<^verbatim>\<open>Operation_Policy\<close> (who may do what to a message, and the membership cache), \<^verbatim>\<open>Read_Watermark\<close> (locale \<open>read_watermark\<close> and the two Redis scripts), \<^verbatim>\<open>Event_Handler\<close> (the submission of an event).
  \<^item> Storage writer: \<^verbatim>\<open>Store_Consumer\<close>, \<^verbatim>\<open>Archive_Store\<close> (the archive transaction and its ledgers), \<^verbatim>\<open>Writer_Persistence\<close>
    (reservation, durable write, acknowledgement; locale \<open>reservation_store\<close>), \<^verbatim>\<open>Event_Stream\<close>, \<^verbatim>\<open>Operation_Store\<close> (the tables),
    \<^verbatim>\<open>Operation_Events\<close> (the handlers as sequences of statements), \<^verbatim>\<open>Operation_Redelivery\<close> (what a handler may touch, repeatable effects).
  \<^item> Conversation service: \<^verbatim>\<open>Read_Receipts\<close>. Capability platform: \<^verbatim>\<open>Hook_Circuit\<close> (the circuit breakers around hooks; calls in
    flight as a step relation).
  \<^item> Guarantees across these: \<^verbatim>\<open>Send_Reservation\<close> (locales \<open>ingest_deployment\<close> and \<open>answering_deployment\<close>) and
    \<^verbatim>\<open>Send_Guarantees\<close> (the send command), \<^verbatim>\<open>Message_Pipeline\<close> (from the ingest
    service to the writer), \<^verbatim>\<open>Writer_Guarantees\<close>, \<^verbatim>\<open>Operation_Guarantees\<close>, \<^verbatim>\<open>Operation_Path\<close> (from an event call to the tables).

  \<^bold>\<open>Correspondence.\<close>
  A Rust struct is a record with a field prefix of its own, an enum a datatype, a method a definition that takes the service record first and
  threads the state of what it calls. Unsigned integers are \<open>nat\<close> and signed ones \<open>int\<close>, with saturation, casts and checked subtraction
  written out where the code relies on them; strings are character lists. An error is a value \<open>Inl (FlareError code text)\<close>; texts are abridged
  where the code formats debug output. Traits are records of functions, and where a client relies on laws, a locale. Code outside the
  repository (Redis, PostgreSQL, the broker, Ed25519, SHA-256, Base64, protobuf encodings, JSON, gRPC clients) and the services
  behind a client (storage reader, conversation service, hooks, decorator) are parameters; theorems name what they rely on of
  them. A statement of the storage writer can be done, fail, or be done with its answer lost (\<open>stmt_end\<close>), and so can a command of the
  deduplication store and of the writer's reservations (\<open>cmd_end\<close>).

  \<^bold>\<open>What is shown.\<close>
  \<^item> Send: a refused tenant changes nothing; a committed result is backed by the log or a publication, whatever fails; while the
    deduplication store answers, the reservation of a client message id is settled; a resend gets the first result, a send publishes at most
    its own message, a broker outage does not fail a stored message; the rate limiter keeps its limits while the live windows fit its table.
  \<^item> Numbers: allocated numbers strictly increase for any interleaving of instances; leased numbers are unique across nodes and, when the
    safety margin covers the delays, in order; a lost counter recovers above everything persisted.
  \<^item> Log and replay: nothing is lost, pending entries are delivered once the broker is up.
  \<^item> Queue and fan-out: every record names the one agreed tenant; storage comes before the announcement; end to end, a sent message reaches
    the writer unchanged under the caller's tenant.
  \<^item> Sync index: a change is written for a prefix of its recipients and for all of them on success, or a task for all of them is queued, or
    the queue refused it; no task is lost, and a pass over a healthy queue attempts exactly the due ones; a version bump is reported to exactly the clients that lag behind.
  \<^item> Writer: an acknowledgement "persisted" is backed by the archive and the event stream, one message per send while its ledger row is kept, failed
    deliveries leave no reservation while Redis answers, the event stream is written once.
  \<^item> Operations: redelivered events of the repeatable kinds apply once (edits and retention kinds do not, which is shown too), change one tenant only, and are in
    the stream when acknowledged; a user's event acts as that user, on messages of its conversation; from the call to the tables a
    user changes only what is theirs.
  \<^item> Read positions: published positions strictly increase while the watermark is kept, a failed submission hands its claim back, membership answers are at
    most as old as the cache lifetime; counts of readers are exact, pages list everyone once, and only the sender may ask.
  \<^item> Hook calls: at most one probe of a failing hook is in flight, and the circuit opens exactly at its threshold.
  \<^item> Closed examples show where the code does not do what it means to (lost messages of a failed batch, edits counted twice or landing
    in another conversation, expiries missing from the stream, machine messages refused by the fan-out, receipts dropped after crossing failures,
    changes hidden by an expired conversation version, tasks held up by an unreadable one).

  \<^bold>\<open>Bounds and fuel.\<close>
  Lua numbers are exact below \<open>2 ^ 53\<close>, and those a script appends to a text are exact below \<open>10 ^ 14\<close>. The theorems on the scripts of
  the sequence counters, the leases, the watermark and the version bump assume these bounds; the one on the change script of the sync index
  describes the script for versions below \<open>10 ^ 14\<close>. \<^verbatim>\<open>begin\<close> of the deduplication store, which starts again when the key vanished between its
  two commands, takes a list of rounds; the list running out is a call that has not returned, and one round is shown to be enough when
  nobody else touches the key; archiving takes the code's
  three attempts; batches are cut into chunks by a function with a termination proof; a client that follows reader pages needs one
  page more than there are members, which is proved enough. Runs of the allocators, the writer and the event handler are lists
  or inductive relations of any length.

  \<^bold>\<open>Not modelled.\<close>
  The hook pipeline (tenant-supplied code; its outcome is a parameter of the send handler), the SQL of the storage reader and of the conversation
  repository, push delivery, gateways and sync services (network services around external brokers and clients), the rest of the
  capability platform, media, configuration, telemetry and bootstrap; of the modelled
  parts, metrics, logging, timing and key loading.
\<close>

end
